(* ===== verification/Json.thy ===== *)
theory Json
  imports Prelude
begin

text \<open>
  JSON documents as the TypeScript sources hold them, and the part of
  \<open>JSON.stringify\<close> they use. A string is a list of code units (the range up to
  \<open>255\<close>); a number is represented by the text ECMAScript's \<open>Number::toString\<close> gives it
  (so a non-finite number is \<open>JNull\<close>, as \<open>JSON.stringify\<close> prints it); an object is the
  list of its own properties in enumeration order. The rendering of a normalised document
  is shown to be uniquely readable: two documents with the same text are the same document.
\<close>

datatype json =
    JNull
  | JUndef
  | JBool bool
  | JNum string
  | JStr string
  | JArr "json list"
  | JObj "(string \<times> json) list"

section \<open>Rendering of strings\<close>

definition hex_char :: "nat \<Rightarrow> char" where
  "hex_char d = (if d < 10 then char_of (48 + d) else char_of (87 + d))"

definition quote_char :: "char \<Rightarrow> string" where
  "quote_char c =
     (let n = (of_char c :: nat) in
      if n = 34 then [CHR 0x5C, CHR 0x22]
      else if n = 92 then [CHR 0x5C, CHR 0x5C]
      else if n = 8 then [CHR 0x5C, CHR ''b'']
      else if n = 9 then [CHR 0x5C, CHR ''t'']
      else if n = 10 then [CHR 0x5C, CHR ''n'']
      else if n = 12 then [CHR 0x5C, CHR ''f'']
      else if n = 13 then [CHR 0x5C, CHR ''r'']
      else if n < 32 then [CHR 0x5C, CHR ''u'', CHR ''0'', CHR ''0'', hex_char (n div 16), hex_char (n mod 16)]
      else [c])"

definition json_quote :: "string \<Rightarrow> string" where
  "json_quote s = CHR 0x22 # concat (map quote_char s) @ [CHR 0x22]"

lemma quote_char_nonempty [simp]: "quote_char c \<noteq> []"
  by (simp add: quote_char_def Let_def)

lemma quote_char_not_quote: "hd (quote_char c) \<noteq> CHR 0x22"
  by (auto simp: quote_char_def Let_def)

text \<open>Reading one escaped character back: the character and the rest of the text.\<close>

definition unhex :: "char \<Rightarrow> nat" where
  "unhex c = (let n = of_char c in if n < 58 then n - 48 else n - 87)"

lemma unhex_hex [simp]: "d < 16 \<Longrightarrow> unhex (hex_char d) = d"
  by (auto simp: unhex_def hex_char_def Let_def)

fun read_escaped :: "string \<Rightarrow> (char \<times> string) option" where
  "read_escaped [] = None"
| "read_escaped (c # r) =
     (if of_char c = (34 :: nat) then None
      else if of_char c \<noteq> (92 :: nat) then Some (c, r)
      else case r of
          [] \<Rightarrow> None
        | e # r' \<Rightarrow>
            (if e = CHR 0x22 then Some (char_of (34 :: nat), r')
             else if e = CHR 0x5C then Some (char_of (92 :: nat), r')
             else if e = CHR ''b'' then Some (char_of (8 :: nat), r')
             else if e = CHR ''t'' then Some (char_of (9 :: nat), r')
             else if e = CHR ''n'' then Some (char_of (10 :: nat), r')
             else if e = CHR ''f'' then Some (char_of (12 :: nat), r')
             else if e = CHR ''r'' then Some (char_of (13 :: nat), r')
             else case r' of
                 z1 # z2 # h # l # r'' \<Rightarrow> Some (char_of (16 * unhex h + unhex l), r'')
               | _ \<Rightarrow> None))"

lemma char_of_eq: "(of_char c :: nat) = n \<Longrightarrow> char_of n = c"
  by (metis char_of_char)

lemma read_escaped_quote: "read_escaped (quote_char c @ r) = Some (c, r)"
proof -
  consider "of_char c = (34 :: nat)" | "of_char c = (92 :: nat)" | "of_char c = (8 :: nat)"
    | "of_char c = (9 :: nat)" | "of_char c = (10 :: nat)" | "of_char c = (12 :: nat)"
    | "of_char c = (13 :: nat)"
    | (ctl) "of_char c < (32 :: nat)" "of_char c \<notin> {8, 9, 10, 12, 13 :: nat}"
    | (plain) "32 \<le> (of_char c :: nat)" "of_char c \<notin> {34, 92 :: nat}"
    by (cases "of_char c < (32 :: nat)") auto
  then show ?thesis
  proof cases
    case ctl
    then have "16 * (of_char c div 16) + of_char c mod 16 = (of_char c :: nat)" by simp
    with ctl show ?thesis by (auto simp: quote_char_def Let_def)
  qed (auto simp: quote_char_def Let_def dest: char_of_eq)
qed

fun read_body :: "nat \<Rightarrow> string \<Rightarrow> (string \<times> string) option" where
  "read_body 0 s = None"
| "read_body (Suc n) s =
     (case s of
        c # r \<Rightarrow> (if c = CHR 0x22 then Some ([], r)
                  else (case read_escaped s of
                      None \<Rightarrow> None
                    | Some (x, r') \<Rightarrow> map_option (\<lambda>(xs, r''). (x # xs, r'')) (read_body n r')))
      | [] \<Rightarrow> None)"

lemma quote_char_hd_append: "hd (quote_char c @ r) \<noteq> CHR 0x22"
  using quote_char_not_quote [of c] by simp

lemma read_body_quote: "length s < n \<Longrightarrow> read_body n (concat (map quote_char s) @ CHR 0x22 # r) = Some (s, r)"
proof (induction s arbitrary: n)
  case Nil
  then show ?case by (cases n) auto
next
  case (Cons c s)
  then obtain m where n: "n = Suc m" and m: "length s < m" by (cases n) auto
  let ?t = "concat (map quote_char s) @ CHR 0x22 # r"
  obtain x y where xy: "quote_char c @ ?t = x # y" and "x \<noteq> CHR 0x22"
    using quote_char_hd_append [of c ?t] by (cases "quote_char c @ ?t") auto
  moreover have "read_escaped (x # y) = Some (c, ?t)"
    using read_escaped_quote [of c ?t] xy by simp
  ultimately show ?case
    using Cons.IH [OF m] n by simp
qed

text \<open>A quoted string followed by any text is read back uniquely.\<close>

lemma json_quote_decode:
  assumes "json_quote s @ r = json_quote t @ r'"
  shows "s = t \<and> r = r'"
proof -
  let ?n = "Suc (length s + length t)"
  have "concat (map quote_char s) @ CHR 0x22 # r = concat (map quote_char t) @ CHR 0x22 # r'"
    using assms by (simp add: json_quote_def)
  then have "read_body ?n (concat (map quote_char s) @ CHR 0x22 # r) =
      read_body ?n (concat (map quote_char t) @ CHR 0x22 # r')" by simp
  then have "Some (s, r) = Some (t, r')"
    by (simp only: read_body_quote less_Suc_eq_le le_add1 le_add2)
  then show ?thesis by simp
qed

lemma json_quote_hd [simp]: "hd (json_quote s) = CHR 0x22" and json_quote_ne [simp]: "json_quote s \<noteq> []"
  by (simp_all add: json_quote_def)

section \<open>JSON.stringify\<close>

lemma size_json_member [termination_simp]:
  "(k, v) \<in> set kvs \<Longrightarrow> size v < Suc (size_list (size_prod (\<lambda>_. 0) size) kvs)"
  by (induction kvs) auto

definition defined_entries :: "(string \<times> json) list \<Rightarrow> (string \<times> json) list" where
  "defined_entries kvs = filter (\<lambda>e. snd e \<noteq> JUndef) kvs"

lemma set_defined_entries: "e \<in> set (defined_entries kvs) \<longleftrightarrow> e \<in> set kvs \<and> snd e \<noteq> JUndef"
  by (simp add: defined_entries_def)

function stringify :: "json \<Rightarrow> string" where
  "stringify JNull = ''null''"
| "stringify JUndef = ''null''"
| "stringify (JBool b) = (if b then ''true'' else ''false'')"
| "stringify (JNum n) = n"
| "stringify (JStr s) = json_quote s"
| "stringify (JArr xs) = ''['' @ join '','' (map stringify xs) @ '']''"
| "stringify (JObj kvs) =
     ''{'' @ join '','' (map (\<lambda>(k, v). json_quote k @ '':'' @ stringify v) (defined_entries kvs)) @ ''}''"
  by pat_completeness auto
termination
  by (relation "measure size") (auto simp: set_defined_entries size_json_member less_Suc_eq_le size_list_estimation')

text \<open>
  The text of a finite number: it starts with a digit or a minus sign and uses only the
  characters of a decimal literal.
\<close>

definition num_start :: "char \<Rightarrow> bool" where
  "num_start c \<longleftrightarrow> is_digit c \<or> c = CHR ''-''"

definition num_text :: "string \<Rightarrow> bool" where
  "num_text n \<longleftrightarrow> n \<noteq> [] \<and> num_start (hd n) \<and>
     list_all (\<lambda>c. is_digit c \<or> c \<in> {CHR ''-'', CHR ''+'', CHR ''.'', CHR ''e''}) n"

text \<open>A document a JavaScript value can be: well-formed numbers, one property per key.\<close>

function wf_json :: "json \<Rightarrow> bool" where
  "wf_json JNull = True"
| "wf_json JUndef = True"
| "wf_json (JBool b) = True"
| "wf_json (JNum n) = num_text n"
| "wf_json (JStr s) = True"
| "wf_json (JArr xs) = list_all wf_json xs"
| "wf_json (JObj kvs) = (distinct (map fst kvs) \<and> list_all (\<lambda>(k, v). wf_json v) kvs)"
  by pat_completeness auto
termination
  by (relation "measure size") (auto simp: size_json_member less_Suc_eq_le size_list_estimation')

text \<open>No undefined value anywhere: what a parsed or normalised document satisfies.\<close>

function clean :: "json \<Rightarrow> bool" where
  "clean JNull = True"
| "clean JUndef = False"
| "clean (JBool b) = True"
| "clean (JNum n) = num_text n"
| "clean (JStr s) = True"
| "clean (JArr xs) = list_all clean xs"
| "clean (JObj kvs) = list_all (\<lambda>(k, v). clean v) kvs"
  by pat_completeness auto
termination
  by (relation "measure size") (auto simp: size_json_member less_Suc_eq_le size_list_estimation')

lemma clean_not_undef: "clean v \<Longrightarrow> v \<noteq> JUndef"
  by auto

lemma clean_defined_entries: "list_all (\<lambda>(k, v). clean v) kvs \<Longrightarrow> defined_entries kvs = kvs"
  by (induction kvs) (auto simp: defined_entries_def)

section \<open>Unique readability\<close>

definition tail_ok :: "string \<Rightarrow> bool" where
  "tail_ok r \<longleftrightarrow> r = [] \<or> hd r \<in> {CHR '','', CHR '']'', CHR ''}''}"

lemma tail_ok_simps [simp]: "tail_ok []" "tail_ok (CHR '','' # r)" "tail_ok (CHR '']'' # r)" "tail_ok (CHR ''}'' # r)"
  by (simp_all add: tail_ok_def)

definition decodes_with :: "('a \<Rightarrow> string) \<Rightarrow> 'a \<Rightarrow> 'a \<Rightarrow> bool" where
  "decodes_with f x y \<longleftrightarrow> (\<forall>r r'. tail_ok r \<longrightarrow> tail_ok r' \<longrightarrow> f x @ r = f y @ r' \<longrightarrow> x = y \<and> r = r')"

text \<open>A list of uniquely readable items, joined by commas and closed by a bracket.\<close>

lemma join_decode:
  assumes dec: "\<And>x y. x \<in> set xs \<Longrightarrow> y \<in> set ys \<Longrightarrow> decodes_with f x y"
    and ne: "\<And>x. x \<in> set xs \<union> set ys \<Longrightarrow> f x \<noteq> [] \<and> hd (f x) \<noteq> cl"
    and cl: "cl \<in> {CHR '']'', CHR ''}''}"
    and eq: "join '','' (map f xs) @ cl # r = join '','' (map f ys) @ cl # r'"
  shows "xs = ys \<and> r = r'"
  using dec ne eq
proof (induction xs arbitrary: ys)
  case Nil
  show ?case
  proof (cases ys)
    case (Cons y ys')
    with Nil.prems(2) [of y] have "f y \<noteq> []" "hd (f y) \<noteq> cl" by auto
    moreover have "cl # r = join '','' (map f ys) @ cl # r'" using Nil.prems(3) by simp
    then have "cl = hd (join '','' (map f ys) @ cl # r')" by (metis list.sel(1))
    moreover have "hd (join '','' (map f ys) @ cl # r') = hd (f y)"
      using \<open>f y \<noteq> []\<close> Cons by (cases ys') auto
    ultimately show ?thesis by simp
  qed (use Nil.prems(3) in simp)
next
  case (Cons x xs)
  show ?case
  proof (cases ys)
    case Nil
    with Cons.prems(2) [of x] have "f x \<noteq> []" "hd (f x) \<noteq> cl" by auto
    moreover have "join '','' (map f (x # xs)) @ cl # r = cl # r'" using Cons.prems(3) Nil by simp
    then have "hd (join '','' (map f (x # xs)) @ cl # r) = cl" by simp
    moreover have "hd (join '','' (map f (x # xs)) @ cl # r) = hd (f x)"
      using \<open>f x \<noteq> []\<close> by (cases xs) auto
    ultimately show ?thesis by simp
  next
    case ys: (Cons y ys')
    define t where "t zs q = (if zs = [] then cl # q else CHR '','' # join '','' (map f zs) @ cl # q)" for zs q
    have split: "join '','' (map f (z # zs)) @ cl # q = f z @ t zs q" for z zs q
      by (cases zs) (auto simp: t_def)
    have tok: "tail_ok (t zs q)" for zs q
      using cl by (auto simp: t_def)
    from Cons.prems(3) have "f x @ t xs r = f y @ t ys' r'"
      by (simp only: ys split)
    with Cons.prems(1) [of x y] tok have xy: "x = y" and tt: "t xs r = t ys' r'"
      by (auto simp: decodes_with_def ys)
    have "join '','' (map f xs) @ cl # r = join '','' (map f ys') @ cl # r'"
      using tt cl by (auto simp: t_def split: if_splits)
    then have "xs = ys' \<and> r = r'"
      using Cons.prems(1,2) ys by (intro Cons.IH) auto
    with xy ys show ?thesis by simp
  qed
qed

lemma num_char_not_tail:
  "num_text n \<Longrightarrow> c \<in> set n \<Longrightarrow> c \<notin> {CHR '','', CHR '']'', CHR ''}''}"
  by (auto simp: num_text_def list_all_iff is_digit_def)

lemma num_decode:
  assumes "num_text m" "num_text n" "tail_ok r" "tail_ok r'" "m @ r = n @ r'"
  shows "m = n \<and> r = r'"
proof -
  have *: "takeWhile (\<lambda>c. c \<notin> {CHR '','', CHR '']'', CHR ''}''}) (k @ q) = k" if "num_text k" "tail_ok q" for k q
    using num_char_not_tail [OF that(1)] that(2)
    by (cases q) (auto simp: tail_ok_def takeWhile_append2)
  from assms have "m = n" by (metis *)
  with assms(5) show ?thesis by simp
qed

text \<open>The first character tells the kind of the value.\<close>

fun kind_of :: "json \<Rightarrow> char set" where
  "kind_of JNull = {CHR ''n''}"
| "kind_of JUndef = {CHR ''n''}"
| "kind_of (JBool b) = (if b then {CHR ''t''} else {CHR ''f''})"
| "kind_of (JNum n) = {c. num_start c}"
| "kind_of (JStr s) = {CHR 0x22}"
| "kind_of (JArr xs) = {CHR ''[''}"
| "kind_of (JObj kvs) = {CHR ''{''}"

lemma stringify_head: "clean v \<Longrightarrow> stringify v \<noteq> [] \<and> hd (stringify v) \<in> kind_of v"
  by (cases v) (auto simp: num_text_def)

lemma num_start_other: "num_start c \<Longrightarrow> c \<notin> {CHR ''n'', CHR ''t'', CHR ''f'', CHR 0x22, CHR ''['', CHR ''{'', CHR '']'', CHR ''}''}"
  by (auto simp: num_start_def is_digit_def)

lemma stringify_head_not_close: "clean v \<Longrightarrow> hd (stringify v) \<notin> {CHR '']'', CHR ''}''}"
  using stringify_head [of v] by (cases v) (auto dest: num_start_other split: if_splits)

lemma kinds_disjoint:
  assumes "clean a" "clean b" "stringify a @ r = stringify b @ r'"
  shows "kind_of a \<inter> kind_of b \<noteq> {}"
proof -
  have "hd (stringify a) = hd (stringify b)"
    using arg_cong [OF assms(3), of hd] stringify_head [OF assms(1)] stringify_head [OF assms(2)] by simp
  then have "hd (stringify a) \<in> kind_of a \<inter> kind_of b"
    using stringify_head [OF assms(1)] stringify_head [OF assms(2)] by simp
  then show ?thesis by (simp only: ex_in_conv [symmetric]) (rule exI)
qed

theorem stringify_decodes: "clean a \<Longrightarrow> clean b \<Longrightarrow> decodes_with stringify a b"
proof (induction a arbitrary: b)
  case (JArr xs)
  show ?case unfolding decodes_with_def
  proof (intro allI impI)
    fix r r' assume eq: "stringify (JArr xs) @ r = stringify b @ r'"
    then obtain ys where b: "b = JArr ys"
      using kinds_disjoint [OF JArr.prems eq] by (cases b) (auto dest: num_start_other split: if_splits)
    have "xs = ys \<and> r = r'"
    proof (rule join_decode [where f = stringify and cl = "CHR '']''"])
      show "decodes_with stringify x y" if "x \<in> set xs" "y \<in> set ys" for x y
        using JArr that b by (auto simp: list_all_iff)
      show "stringify x \<noteq> [] \<and> hd (stringify x) \<noteq> CHR '']''" if "x \<in> set xs \<union> set ys" for x
        using JArr.prems that b stringify_head [of x] stringify_head_not_close [of x]
        by (auto simp: list_all_iff)
    qed (use eq b in auto)
    with b show "JArr xs = b \<and> r = r'" by simp
  qed
next
  case (JObj kvs)
  show ?case unfolding decodes_with_def
  proof (intro allI impI)
    fix r r' assume eq: "stringify (JObj kvs) @ r = stringify b @ r'"
    then obtain kvs' where b: "b = JObj kvs'"
      using kinds_disjoint [OF JObj.prems eq] by (cases b) (auto dest: num_start_other split: if_splits)
    let ?f = "\<lambda>(k, v). json_quote k @ '':'' @ stringify v"
    have "kvs = kvs' \<and> r = r'"
    proof (rule join_decode [where f = ?f and cl = "CHR ''}''"])
      show "decodes_with ?f x y" if "x \<in> set kvs" "y \<in> set kvs'" for x y
      proof -
        obtain k v k' v' where xy: "x = (k, v)" "y = (k', v')" by force
        have "decodes_with stringify v v'"
          using JObj xy that b by (fastforce simp: list_all_iff)
        then show ?thesis
          unfolding decodes_with_def xy by (auto dest!: json_quote_decode)
      qed
      show "?f x \<noteq> [] \<and> hd (?f x) \<noteq> CHR ''}''" if "x \<in> set kvs \<union> set kvs'" for x
        by (cases x) (auto simp: json_quote_def)
    qed (use eq b JObj.prems in \<open>auto simp: clean_defined_entries\<close>)
    with b show "JObj kvs = b \<and> r = r'" by simp
  qed
next
  case (JNum n)
  show ?case unfolding decodes_with_def
  proof (intro allI impI)
    fix r r' assume eq: "stringify (JNum n) @ r = stringify b @ r'" and t: "tail_ok r" "tail_ok r'"
    then obtain m where "b = JNum m"
      using kinds_disjoint [OF JNum.prems eq] by (cases b) (auto dest: num_start_other split: if_splits)
    with JNum t eq show "JNum n = b \<and> r = r'" using num_decode [of n m r r'] by simp
  qed
next
  case (JStr s)
  show ?case unfolding decodes_with_def
  proof (intro allI impI)
    fix r r' assume eq: "stringify (JStr s) @ r = stringify b @ r'"
    then obtain t where "b = JStr t"
      using kinds_disjoint [OF JStr.prems eq] by (cases b) (auto dest: num_start_other split: if_splits)
    with eq show "JStr s = b \<and> r = r'" by (auto dest: json_quote_decode)
  qed
next
  case (JBool x)
  show ?case unfolding decodes_with_def
  proof (intro allI impI)
    fix r r' assume eq: "stringify (JBool x) @ r = stringify b @ r'"
    then obtain t where "b = JBool t"
      using kinds_disjoint [OF JBool.prems eq] by (cases b) (auto dest: num_start_other split: if_splits)
    with eq show "JBool x = b \<and> r = r'" by (auto split: if_splits)
  qed
next
  case JNull
  show ?case unfolding decodes_with_def
  proof (intro allI impI)
    fix r r' assume eq: "stringify JNull @ r = stringify b @ r'"
    then have "b = JNull"
      using kinds_disjoint [OF JNull.prems eq] JNull.prems by (cases b) (auto dest: num_start_other split: if_splits)
    with eq show "JNull = b \<and> r = r'" by simp
  qed
qed simp

lemma stringify_inj: "clean a \<Longrightarrow> clean b \<Longrightarrow> stringify a = stringify b \<Longrightarrow> a = b"
  using stringify_decodes [of a b] unfolding decodes_with_def by (metis append_Nil2 tail_ok_simps(1))

section \<open>Building an object\<close>

text \<open>
  \<open>out[k] = v\<close> on an object literal: the key \<open>__proto__\<close> sets the prototype (or is ignored)
  and creates no own property.
\<close>

definition PROTO_KEY :: string where
  "PROTO_KEY = ''__proto__''"

text \<open>
  The order in which an object built by successive assignments lists its own keys: the integer keys
  ascending, then the others as inserted.  Assigning \<open>__proto__\<close> adds no key.
\<close>

definition index_key :: "string \<Rightarrow> bool" where
  "index_key k \<longleftrightarrow> k \<noteq> [] \<and> list_all is_digit k \<and> show_nat (nat_of_digits k) = k \<and> nat_of_digits k < 4294967295"

definition built_object :: "(string \<times> json) list \<Rightarrow> (string \<times> json) list" where
  "built_object kvs = (let own = filter (\<lambda>e. fst e \<noteq> PROTO_KEY) kvs in
     sort_key (\<lambda>e. nat_of_digits (fst e)) (filter (\<lambda>e. index_key (fst e)) own) @ filter (\<lambda>e. \<not> index_key (fst e)) own)"

lemma set_built_object: "set (built_object kvs) = {e \<in> set kvs. fst e \<noteq> PROTO_KEY}"
  by (auto simp: built_object_def Let_def)

end
