(* ===== verification/Tool_Confirmation.thy ===== *)
theory Tool_Confirmation
  imports Json
begin

text \<open>
  The confirmation token of \<open>packages/tools-core/src/confirmation-token.ts\<close>: the canonical
  form of tool arguments, the binding hash, and the in-process store with mint, redeem and
  sweep. SHA-256 (Node's crypto) is a parameter \<open>sha256\<close> of the definitions; the random
  token of \<open>randomBytes\<close> is an argument of \<open>mint\<close>. Times are integers (milliseconds).
\<close>

section \<open>Canonical arguments and the binding hash\<close>

type_synonym args = "(string \<times> json) list"

definition CONFIRMATION_CONTROL_KEYS :: "string list" where
  "CONFIRMATION_CONTROL_KEYS = [''confirmed'']"

definition stripControlKeys :: "args \<Rightarrow> args" where
  "stripControlKeys kvs =
     filter (\<lambda>e. fst e \<noteq> PROTO_KEY) (filter (\<lambda>e. fst e \<notin> set CONFIRMATION_CONTROL_KEYS) kvs)"

function stableStringify :: "json \<Rightarrow> string" where
  "stableStringify JNull = ''null''"
| "stableStringify (JArr xs) = ''['' @ join '','' (map stableStringify xs) @ '']''"
| "stableStringify (JObj kvs) =
     ''{'' @ join '','' (map (\<lambda>(k, v). json_quote k @ '':'' @ stableStringify v)
       (sort_key fst (defined_entries kvs))) @ ''}''"
| "stableStringify JUndef = ''null''"
| "stableStringify (JBool b) = stringify (JBool b)"
| "stableStringify (JNum n) = stringify (JNum n)"
| "stableStringify (JStr s) = stringify (JStr s)"
  by pat_completeness auto
termination
  by (relation "measure size") (auto simp: set_defined_entries size_json_member less_Suc_eq_le size_list_estimation')

definition canonicalizeToolArgs :: "args \<Rightarrow> string" where
  "canonicalizeToolArgs args = stableStringify (JObj (stripControlKeys args))"

definition binding_message :: "string \<Rightarrow> args \<Rightarrow> string" where
  "binding_message toolName args =
     show_nat (length toolName) @ '':'' @ toolName @ '':'' @ canonicalizeToolArgs args"

definition confirmationBindingHash :: "(string \<Rightarrow> string) \<Rightarrow> string \<Rightarrow> args \<Rightarrow> string" where
  "confirmationBindingHash sha256 toolName args = sha256 (binding_message toolName args)"

section \<open>What the canonical form identifies\<close>

text \<open>
  The specification of the canonical form: the document with the properties of every object
  sorted by key, undefined properties dropped, and undefined array elements read as null.
\<close>

function norm :: "json \<Rightarrow> json" where
  "norm JNull = JNull"
| "norm JUndef = JNull"
| "norm (JBool b) = JBool b"
| "norm (JNum n) = JNum n"
| "norm (JStr s) = JStr s"
| "norm (JArr xs) = JArr (map norm xs)"
| "norm (JObj kvs) = JObj (map (\<lambda>(k, v). (k, norm v)) (sort_key fst (defined_entries kvs)))"
  by pat_completeness auto
termination
  by (relation "measure size") (auto simp: set_defined_entries size_json_member less_Suc_eq_le size_list_estimation')

lemma clean_norm: "wf_json v \<Longrightarrow> clean (norm v)"
proof (induction v rule: norm.induct)
  case (7 kvs)
  then show ?case by (fastforce simp: list_all_iff set_defined_entries)
qed (auto simp: list_all_iff)

lemma stableStringify_norm: "wf_json v \<Longrightarrow> stableStringify v = stringify (norm v)"
proof (induction v rule: norm.induct)
  case (6 xs)
  then have "map stableStringify xs = map stringify (map norm xs)"
    by (simp add: list_all_iff)
  then show ?case by (simp only: stableStringify.simps norm.simps stringify.simps)
next
  case (7 kvs)
  let ?es = "sort_key fst (defined_entries kvs)"
  let ?ns = "map (\<lambda>(k, v). (k, norm v)) ?es"
  have in_kvs: "wf_json v \<and> v \<noteq> JUndef" if "(k, v) \<in> set ?es" for k v
    using 7 that by (auto simp: set_defined_entries list_all_iff)
  have eq: "map (\<lambda>(k, v). json_quote k @ '':'' @ stableStringify v) ?es =
      map (\<lambda>(k, v). json_quote k @ '':'' @ stringify v) ?ns"
    using 7 in_kvs by (auto simp: case_prod_unfold)
  have "defined_entries ?ns = ?ns"
    using in_kvs by (intro clean_defined_entries) (auto simp: list_all_iff clean_norm case_prod_unfold intro: prod.collapse)
  with eq show ?case by (simp only: stableStringify.simps norm.simps stringify.simps)
qed auto

definition norm_args :: "args \<Rightarrow> json" where
  "norm_args args = norm (JObj (stripControlKeys args))"

definition wf_args :: "args \<Rightarrow> bool" where
  "wf_args args \<longleftrightarrow> wf_json (JObj args)"

lemma wf_strip: "wf_args args \<Longrightarrow> wf_json (JObj (stripControlKeys args))"
  by (auto simp: wf_args_def stripControlKeys_def list_all_iff distinct_map_filter)

lemma canonicalize_eq_iff:
  assumes "wf_args a" "wf_args b"
  shows "canonicalizeToolArgs a = canonicalizeToolArgs b \<longleftrightarrow> norm_args a = norm_args b"
proof -
  have "canonicalizeToolArgs c = stringify (norm_args c)" if "wf_args c" for c
    using stableStringify_norm [OF wf_strip [OF that]] by (simp add: canonicalizeToolArgs_def norm_args_def)
  moreover have "clean (norm_args c)" if "wf_args c" for c
    using clean_norm [OF wf_strip [OF that]] by (simp add: norm_args_def)
  ultimately show ?thesis
    using assms stringify_inj [of "norm_args a" "norm_args b"] by auto
qed

text \<open>Two calls the binding treats as one: the same tool and the same normalised arguments.\<close>

definition same_call :: "string \<Rightarrow> args \<Rightarrow> string \<Rightarrow> args \<Rightarrow> bool" where
  "same_call t a t' a' \<longleftrightarrow> t = t' \<and> norm_args a = norm_args a'"

lemma colon_not_digit: "CHR '':'' \<notin> set (show_nat n)"
  using show_nat_digits [of "CHR '':''" n] by (auto simp: is_digit_def)

lemma binding_message_eq_iff:
  assumes "wf_args a" "wf_args b"
  shows "binding_message t a = binding_message t' b \<longleftrightarrow> same_call t a t' b"
proof
  assume "binding_message t a = binding_message t' b"
  then have "show_nat (length t) @ CHR '':'' # t @ '':'' @ canonicalizeToolArgs a =
      show_nat (length t') @ CHR '':'' # t' @ '':'' @ canonicalizeToolArgs b"
    by (simp add: binding_message_def)
  then have *: "show_nat (length t) = show_nat (length t') \<and>
      t @ '':'' @ canonicalizeToolArgs a = t' @ '':'' @ canonicalizeToolArgs b"
    by (intro delimiter_split) (auto simp: colon_not_digit)
  then have "length t = length t'" by (auto dest: show_nat_inj)
  with * have "t = t'" and "canonicalizeToolArgs a = canonicalizeToolArgs b" by auto
  with assms show "same_call t a t' b" by (simp add: same_call_def canonicalize_eq_iff)
next
  assume "same_call t a t' b"
  with assms show "binding_message t a = binding_message t' b"
    by (simp add: same_call_def binding_message_def canonicalize_eq_iff [symmetric])
qed

text \<open>A collision of the hash: two distinct messages with one digest.\<close>

definition collision :: "(string \<Rightarrow> string) \<Rightarrow> string \<Rightarrow> string \<Rightarrow> bool" where
  "collision h m m' \<longleftrightarrow> m \<noteq> m' \<and> h m = h m'"

lemma binding_hash_eq:
  assumes "wf_args a" "wf_args b"
    and "confirmationBindingHash sha256 t a = confirmationBindingHash sha256 t' b"
  shows "same_call t a t' b \<or> collision sha256 (binding_message t a) (binding_message t' b)"
  using assms binding_message_eq_iff [OF assms(1,2)]
  by (auto simp: confirmationBindingHash_def collision_def)

lemma stripControlKeys_set_confirmed:
  "stripControlKeys (map_set ''confirmed'' v args) = stripControlKeys args"
  by (induction args) (auto simp: stripControlKeys_def CONFIRMATION_CONTROL_KEYS_def)

lemma canonicalize_set_confirmed:
  "canonicalizeToolArgs (map_set ''confirmed'' v args) = canonicalizeToolArgs args"
  by (simp add: canonicalizeToolArgs_def stripControlKeys_set_confirmed)

lemma binding_hash_set_confirmed [simp]:
  "confirmationBindingHash h t (map_set ''confirmed'' v args) = confirmationBindingHash h t args"
  by (simp add: confirmationBindingHash_def binding_message_def canonicalize_set_confirmed)

section \<open>The token store\<close>

datatype redeem_failure =
    unknown_token | already_used | expired | wrong_tool | arguments_mismatch

record pending_confirmation =
  pc_toolName :: string
  pc_bindingHash :: string
  pc_mintedAt :: int
  pc_expiresAt :: int
  pc_usedAt :: "int option"

record token_store =
  ttlMs :: int
  maxEntries :: int
  pending :: "(string, pending_confirmation) jsmap"

definition DEFAULT_CONFIRMATION_TTL_MS :: int where
  "DEFAULT_CONFIRMATION_TTL_MS = 5 * 60000"

definition DEFAULT_MAX_PENDING_CONFIRMATIONS :: int where
  "DEFAULT_MAX_PENDING_CONFIRMATIONS = 1000"

definition createConfirmationTokenStore :: "int option \<Rightarrow> int option \<Rightarrow> token_store" where
  "createConfirmationTokenStore ttl mx =
     \<lparr>ttlMs = (case ttl of Some t \<Rightarrow> t | None \<Rightarrow> DEFAULT_CONFIRMATION_TTL_MS),
      maxEntries = (case mx of Some m \<Rightarrow> m | None \<Rightarrow> DEFAULT_MAX_PENDING_CONFIRMATIONS),
      pending = []\<rparr>"

definition sweep :: "int \<Rightarrow> (string, pending_confirmation) jsmap \<Rightarrow> nat \<times> (string, pending_confirmation) jsmap" where
  "sweep now p =
     (length (filter (\<lambda>e. pc_expiresAt (snd e) \<le> now) p),
      filter (\<lambda>e. \<not> pc_expiresAt (snd e) \<le> now) p)"

text \<open>The eviction loop: the first key of the iteration order is the oldest.\<close>

fun evict :: "int \<Rightarrow> (string, pending_confirmation) jsmap \<Rightarrow> (string, pending_confirmation) jsmap" where
  "evict mx [] = []"
| "evict mx (e # p) = (if mx \<le> int (length (e # p)) then evict mx p else e # p)"

definition mint ::
  "(string \<Rightarrow> string) \<Rightarrow> token_store \<Rightarrow> string \<Rightarrow> string \<Rightarrow> args \<Rightarrow> int \<Rightarrow> (string \<times> int) \<times> token_store" where
  "mint sha256 s token toolName args now =
     (let p = evict (maxEntries s) (snd (sweep now (pending s)));
          expiresAt = now + ttlMs s;
          entry = \<lparr>pc_toolName = toolName,
                   pc_bindingHash = confirmationBindingHash sha256 toolName args,
                   pc_mintedAt = now, pc_expiresAt = expiresAt, pc_usedAt = None\<rparr>
      in ((token, expiresAt), s\<lparr>pending := map_set token entry p\<rparr>))"

definition redeem ::
  "(string \<Rightarrow> string) \<Rightarrow> token_store \<Rightarrow> string \<Rightarrow> string \<Rightarrow> args \<Rightarrow> int \<Rightarrow> (redeem_failure, int) result \<times> token_store" where
  "redeem sha256 s token toolName args now =
     (case map_of (pending s) token of
        None \<Rightarrow> (Throw unknown_token, s)
      | Some entry \<Rightarrow>
          if pc_usedAt entry \<noteq> None then (Throw already_used, s)
          else if pc_expiresAt entry \<le> now then (Throw expired, s)
          else if pc_bindingHash entry \<noteq> confirmationBindingHash sha256 toolName args
          then (Throw (if pc_toolName entry \<noteq> toolName then wrong_tool else arguments_mismatch), s)
          else (Return (pc_mintedAt entry),
                s\<lparr>pending := map_set token (entry\<lparr>pc_usedAt := Some now\<rparr>) (pending s)\<rparr>))"

definition sweepExpired :: "token_store \<Rightarrow> int \<Rightarrow> nat \<times> token_store" where
  "sweepExpired s now = (let (n, p) = sweep now (pending s) in (n, s\<lparr>pending := p\<rparr>))"

definition store_size :: "token_store \<Rightarrow> nat" where
  "store_size s = length (pending s)"

lemmas store_op_defs = mint_def redeem_def sweepExpired_def sweep_def Let_def

subsection \<open>Single operations\<close>

lemma set_evict: "set (evict mx p) \<subseteq> set p"
  by (induction mx p rule: evict.induct) auto

lemma evict_suffix: "\<exists>q. p = q @ evict mx p"
proof (induction mx p rule: evict.induct)
  case (2 mx e p)
  then show ?case by (auto intro: exI [of _ "[]"]) (metis append_Cons)
qed simp

lemma length_evict: "1 \<le> mx \<Longrightarrow> int (length (evict mx p)) < mx"
  by (induction mx p rule: evict.induct) auto

lemma wf_evict: "wf_map p \<Longrightarrow> wf_map (evict mx p)"
  using evict_suffix [of p mx] by (metis distinct_append keys_of_def map_append wf_map_def)

lemma wf_sweep: "wf_map p \<Longrightarrow> wf_map (snd (sweep now p))"
  by (simp add: sweep_def wf_map_filter)

lemma map_of_evictD:
  assumes "wf_map p" and "map_of (evict mx p) t = Some e"
  shows "map_of p t = Some e"
proof -
  have "(t, e) \<in> set p" using assms(2) set_evict [of mx p] by (meson map_of_SomeD subsetD)
  then show ?thesis using assms(1) by (simp add: wf_map_def keys_of_def)
qed

lemma map_of_sweepD: "wf_map p \<Longrightarrow> map_of (snd (sweep now p)) t = Some e \<Longrightarrow> map_of p t = Some e"
  by (simp add: sweep_def map_of_filter_wf)

lemma redeem_ok_iff:
  "fst (redeem sha256 s token toolName args now) = Return m \<longleftrightarrow>
     (\<exists>entry. map_of (pending s) token = Some entry \<and> pc_usedAt entry = None \<and>
        now < pc_expiresAt entry \<and>
        pc_bindingHash entry = confirmationBindingHash sha256 toolName args \<and>
        m = pc_mintedAt entry)"
  by (auto simp: redeem_def split: option.splits if_splits)

lemma redeem_failed_unchanged:
  "fst (redeem sha256 s token toolName args now) = Throw r \<Longrightarrow>
     snd (redeem sha256 s token toolName args now) = s"
  by (auto simp: redeem_def split: option.splits if_splits)

lemma mint_pending:
  assumes "wf_map (pending s)" "map_of (pending (snd (mint sha256 s token tool args now))) t = Some e" "t \<noteq> token"
  shows "map_of (pending s) t = Some e"
proof -
  let ?p = "snd (sweep now (pending s))"
  have "map_of (evict (maxEntries s) ?p) t = Some e"
    using assms(2,3) by (simp add: mint_def Let_def jm.get_put_other)
  then have "map_of ?p t = Some e" using wf_sweep [OF assms(1)] by (rule map_of_evictD [rotated])
  then show ?thesis using assms(1) by (rule map_of_sweepD [rotated])
qed

section \<open>Histories of the store\<close>

text \<open>
  A history is the list of operations run so far with their outcomes, the newest first. The
  one assumption on the environment is in the rule: \<open>randomBytes\<close> never returns a token it
  returned before. Arguments are JavaScript values (\<open>wf_args\<close>).
\<close>

datatype store_event =
    Mint string string args int
  | Redeem string string args int
  | Sweep int

datatype store_outcome =
    Minted string int
  | Redeemed "(redeem_failure, int) result"
  | Swept nat

fun store_step :: "(string \<Rightarrow> string) \<Rightarrow> token_store \<Rightarrow> store_event \<Rightarrow> store_outcome \<times> token_store" where
  "store_step h s (Mint tok tool args now) =
     (let ((t, ex), s') = mint h s tok tool args now in (Minted t ex, s'))"
| "store_step h s (Redeem tok tool args now) =
     (let (r, s') = redeem h s tok tool args now in (Redeemed r, s'))"
| "store_step h s (Sweep now) = (let (n, s') = sweepExpired s now in (Swept n, s'))"

type_synonym history = "(store_event \<times> store_outcome) list"

definition minted_in :: "history \<Rightarrow> string \<Rightarrow> bool" where
  "minted_in hist tok \<longleftrightarrow> (\<exists>tool args now out. (Mint tok tool args now, out) \<in> set hist)"

fun event_ok :: "history \<Rightarrow> store_event \<Rightarrow> bool" where
  "event_ok hist (Mint tok tool args now) = (\<not> minted_in hist tok \<and> wf_args args)"
| "event_ok hist (Redeem tok tool args now) = wf_args args"
| "event_ok hist (Sweep now) = True"

inductive store_run :: "(string \<Rightarrow> string) \<Rightarrow> int option \<Rightarrow> int option \<Rightarrow> history \<Rightarrow> token_store \<Rightarrow> bool"
  for h ttl mx where
  start: "store_run h ttl mx [] (createConfirmationTokenStore ttl mx)"
| step: "store_run h ttl mx hist s \<Longrightarrow> event_ok hist e \<Longrightarrow> store_step h s e = (out, s') \<Longrightarrow>
     store_run h ttl mx ((e, out) # hist) s'"

fun spends :: "string \<Rightarrow> store_event \<times> store_outcome \<Rightarrow> bool" where
  "spends tok (Redeem t tool args now, Redeemed (Inr m)) = (t = tok)"
| "spends tok _ = False"

definition spend_count :: "string \<Rightarrow> history \<Rightarrow> nat" where
  "spend_count tok hist = length (filter (spends tok) hist)"

lemma spend_count_Nil [simp]: "spend_count tok [] = 0"
  by (simp add: spend_count_def)

lemma spend_count_Cons [simp]: "spend_count tok (x # hist) = spend_count tok hist + (if spends tok x then 1 else 0)"
  by (simp add: spend_count_def)

lemma minted_in_Cons: "minted_in ((e, out) # hist) tok \<longleftrightarrow> (\<exists>tool args now. e = Mint tok tool args now) \<or> minted_in hist tok"
  by (auto simp: minted_in_def)

text \<open>What an entry of the store says about the history.\<close>

definition entry_ok :: "(string \<Rightarrow> string) \<Rightarrow> int \<Rightarrow> history \<Rightarrow> string \<Rightarrow> pending_confirmation \<Rightarrow> bool" where
  "entry_ok h ttl hist tok e \<longleftrightarrow>
     (\<exists>args out. (Mint tok (pc_toolName e) args (pc_mintedAt e), out) \<in> set hist \<and> wf_args args \<and>
        pc_bindingHash e = confirmationBindingHash h (pc_toolName e) args \<and>
        pc_expiresAt e = pc_mintedAt e + ttl) \<and>
     (pc_usedAt e = None \<longrightarrow> spend_count tok hist = 0)"

definition store_inv :: "(string \<Rightarrow> string) \<Rightarrow> history \<Rightarrow> token_store \<Rightarrow> bool" where
  "store_inv h hist s \<longleftrightarrow> wf_map (pending s) \<and>
     (\<forall>tok e. map_of (pending s) tok = Some e \<longrightarrow> entry_ok h (ttlMs s) hist tok e) \<and>
     (\<forall>tok. spend_count tok hist \<le> 1 \<and> (\<not> minted_in hist tok \<longrightarrow> spend_count tok hist = 0))"

lemma entry_ok_mono:
  "entry_ok h ttl hist tok e \<Longrightarrow> \<not> spends tok x \<Longrightarrow> entry_ok h ttl (x # hist) tok e"
  by (auto simp: entry_ok_def)

lemma pending_minted: "entry_ok h ttl hist tok e \<Longrightarrow> minted_in hist tok"
  by (auto simp: entry_ok_def minted_in_def)

lemma ttl_step: "store_step h s e = (out, s') \<Longrightarrow> ttlMs s' = ttlMs s \<and> maxEntries s' = maxEntries s"
  by (cases e) (auto simp: store_op_defs split: option.splits if_splits)

lemma store_inv_mint:
  assumes inv: "store_inv h hist s" and fresh: "\<not> minted_in hist tok" and wf: "wf_args args"
  shows "store_inv h ((Mint tok tool args now, out) # hist) (snd (mint h s tok tool args now))"
proof -
  let ?s = "snd (mint h s tok tool args now)" and ?hist = "(Mint tok tool args now, out) # hist"
  from inv have wfp: "wf_map (pending s)" and zero: "spend_count tok hist = 0"
    using fresh by (auto simp: store_inv_def)
  have ttl: "ttlMs ?s = ttlMs s" by (simp add: mint_def Let_def)
  have entry: "entry_ok h (ttlMs s) ?hist t e" if "map_of (pending ?s) t = Some e" for t e
  proof (cases "t = tok")
    case True
    then have "e = \<lparr>pc_toolName = tool, pc_bindingHash = confirmationBindingHash h tool args,
        pc_mintedAt = now, pc_expiresAt = now + ttlMs s, pc_usedAt = None\<rparr>"
      using that by (simp add: mint_def Let_def)
    with True wf zero show ?thesis by (auto simp: entry_ok_def)
  next
    case False
    with that wfp have "map_of (pending s) t = Some e" by (auto dest: mint_pending)
    with inv show ?thesis by (auto simp: store_inv_def intro: entry_ok_mono)
  qed
  have "wf_map (pending ?s)"
    using wfp by (simp add: mint_def Let_def wf_map_set wf_evict wf_sweep)
  with entry inv show ?thesis
    by (auto simp: store_inv_def ttl minted_in_Cons)
qed

lemma store_inv_redeem:
  assumes inv: "store_inv h hist s" and r: "redeem h s tok tool args now = (res, s')"
  shows "store_inv h ((Redeem tok tool args now, Redeemed res) # hist) s'"
proof (cases res)
  case (Inl f)
  then have "s' = s" using r redeem_failed_unchanged [of h s tok tool args now f] by simp
  with inv Inl show ?thesis
    by (auto simp: store_inv_def minted_in_Cons intro: entry_ok_mono)
next
  case (Inr m)
  let ?hist = "(Redeem tok tool args now, Redeemed res) # hist"
  obtain e where e: "map_of (pending s) tok = Some e" "pc_usedAt e = None"
    and s': "s' = s\<lparr>pending := map_set tok (e\<lparr>pc_usedAt := Some now\<rparr>) (pending s)\<rparr>"
    using r Inr by (auto simp: redeem_def split: option.splits if_splits)
  from inv e have ok: "entry_ok h (ttlMs s) hist tok e" and zero: "spend_count tok hist = 0"
    by (auto simp: store_inv_def entry_ok_def)
  have entry: "entry_ok h (ttlMs s) ?hist t f" if "map_of (pending s') t = Some f" for t f
  proof (cases "t = tok")
    case True
    with that s' have "f = e\<lparr>pc_usedAt := Some now\<rparr>" by simp
    with ok True show ?thesis by (auto simp: entry_ok_def)
  next
    case False
    with that s' have "map_of (pending s) t = Some f" by (simp add: jm.get_put_other)
    with inv False Inr show ?thesis by (auto simp: store_inv_def intro!: entry_ok_mono)
  qed
  have "minted_in hist tok" using ok by (rule pending_minted)
  with entry inv s' zero Inr show ?thesis
    by (auto simp: store_inv_def minted_in_Cons wf_map_set)
qed

lemma store_inv_sweep: "store_inv h hist s \<Longrightarrow> store_inv h ((Sweep now, out) # hist) (snd (sweepExpired s now))"
  by (auto simp: store_inv_def sweepExpired_def sweep_def wf_map_filter map_of_filter_wf minted_in_Cons
      intro: entry_ok_mono)

lemma store_run_inv: "store_run h ttl mx hist s \<Longrightarrow> store_inv h hist s"
proof (induction rule: store_run.induct)
  case start
  show ?case by (simp add: store_inv_def createConfirmationTokenStore_def wf_map_def keys_of_def)
next
  case (step hist s e out s')
  then show ?case
  proof (cases e)
    case (Mint tok tool args now)
    with step show ?thesis
      using store_inv_mint [OF step.IH, of tok args tool now out] by (auto simp: mint_def Let_def)
  next
    case (Redeem tok tool args now)
    with step show ?thesis by (auto split: prod.splits intro: store_inv_redeem)
  next
    case (Sweep now)
    with step show ?thesis
      using store_inv_sweep [OF step.IH, of now out] by (auto simp: sweepExpired_def sweep_def)
  qed
qed

lemma store_run_ttl: "store_run h ttl mx hist s \<Longrightarrow>
   ttlMs s = (case ttl of Some t \<Rightarrow> t | None \<Rightarrow> DEFAULT_CONFIRMATION_TTL_MS) \<and>
   maxEntries s = (case mx of Some m \<Rightarrow> m | None \<Rightarrow> DEFAULT_MAX_PENDING_CONFIRMATIONS)"
  by (induction rule: store_run.induct) (auto simp: createConfirmationTokenStore_def dest: ttl_step)

text \<open>A concrete history, with the identity in place of the hash: a mint and its redeem.\<close>

definition demo_minted :: token_store where
  "demo_minted = snd (mint (\<lambda>m. m) (createConfirmationTokenStore None None) ''k'' ''lock_door'' [(''id'', JNum ''7'')] 0)"

definition demo_history :: history where
  "demo_history = [(Redeem ''k'' ''lock_door'' [(''id'', JNum ''7'')] 5, Redeemed (Inr 0)),
     (Mint ''k'' ''lock_door'' [(''id'', JNum ''7'')] 0, Minted ''k'' 300000)]"

lemma demo_wf_args: "wf_args [(''id'', JNum ''7'')]"
  by code_simp

lemma demo_run_minted:
  "store_run (\<lambda>m. m) None None [(Mint ''k'' ''lock_door'' [(''id'', JNum ''7'')] 0, Minted ''k'' 300000)] demo_minted"
  by (rule store_run.step [OF store_run.start])
    (simp_all add: demo_wf_args minted_in_def demo_minted_def mint_def Let_def createConfirmationTokenStore_def
      DEFAULT_CONFIRMATION_TTL_MS_def)

lemma demo_redeem: "fst (redeem (\<lambda>m. m) demo_minted ''k'' ''lock_door'' [(''id'', JNum ''7'')] 5) = Return 0"
  by (simp add: redeem_ok_iff demo_minted_def mint_def Let_def createConfirmationTokenStore_def
      DEFAULT_CONFIRMATION_TTL_MS_def)

lemma demo_run:
  "store_run (\<lambda>m. m) None None demo_history (snd (redeem (\<lambda>m. m) demo_minted ''k'' ''lock_door'' [(''id'', JNum ''7'')] 5))"
  unfolding demo_history_def
  by (rule store_run.step [OF demo_run_minted])
    (use demo_redeem in \<open>auto simp: demo_wf_args split: prod.splits\<close>)

section \<open>Properties\<close>

text \<open>The canonical form of tool arguments is exact: two argument objects have the same
  canonical text if and only if they agree after dropping the control keys (and
  \<open>__proto__\<close>), sorting keys at every depth and dropping undefined properties, so reordered
  keys confirm and any changed value does not.\<close>

theorem canonical_args_exact:
  assumes "wf_args a" and "wf_args b"
  shows "canonicalizeToolArgs a = canonicalizeToolArgs b \<longleftrightarrow> norm_args a = norm_args b"
  using assms by (rule canonicalize_eq_iff)

theorem canonical_args_exact_witness:
  "(canonicalizeToolArgs [(''b'', JNum ''1''), (''a'', JArr [JBool True])] =
    canonicalizeToolArgs [(''a'', JArr [JBool True]), (''confirmed'', JBool True), (''b'', JNum ''1'')]) =
   (norm_args [(''b'', JNum ''1''), (''a'', JArr [JBool True])] =
    norm_args [(''a'', JArr [JBool True]), (''confirmed'', JBool True), (''b'', JNum ''1'')])"
  by (rule canonical_args_exact) code_simp+

text \<open>In every history of the store, a token is spent at most once.\<close>

theorem token_single_use:
  assumes "store_run sha256 ttl mx hist s"
  shows "spend_count tok hist \<le> 1"
  using store_run_inv [OF assms] by (simp add: store_inv_def)

theorem token_single_use_witness: "spend_count ''k'' demo_history \<le> 1"
  using token_single_use [OF demo_run, of "''k''"] by simp

text \<open>A redeem that succeeds was authorised: the token was minted earlier in the history,
  its lifetime has not passed, and it was minted for the same tool and the same normalised
  arguments, unless the two messages are a collision of the hash.\<close>

theorem redeem_authorised:
  assumes "store_run sha256 ttl mx hist s"
    and "wf_args args"
    and "fst (redeem sha256 s tok tool args now) = Return m"
  shows "\<exists>tool' args' out. (Mint tok tool' args' m, out) \<in> set hist \<and> now < m + ttlMs s \<and>
     spend_count tok hist = 0 \<and>
     (same_call tool' args' tool args \<or>
      collision sha256 (binding_message tool' args') (binding_message tool args))"
proof -
  obtain e where e: "map_of (pending s) tok = Some e" "pc_usedAt e = None" "now < pc_expiresAt e"
    "pc_bindingHash e = confirmationBindingHash sha256 tool args" "m = pc_mintedAt e"
    using assms(3) by (auto simp: redeem_ok_iff)
  with store_run_inv [OF assms(1)] have "entry_ok sha256 (ttlMs s) hist tok e"
    by (auto simp: store_inv_def)
  with e assms(2) show ?thesis
    by (auto simp: entry_ok_def) (metis binding_hash_eq)
qed

theorem redeem_authorised_witness:
  "\<exists>tool' args' out. (Mint ''k'' tool' args' 0, out) \<in> set [(Mint ''k'' ''lock_door'' [(''id'', JNum ''7'')] 0, Minted ''k'' 300000)] \<and>
     5 < 0 + ttlMs demo_minted \<and>
     spend_count ''k'' [(Mint ''k'' ''lock_door'' [(''id'', JNum ''7'')] 0, Minted ''k'' 300000)] = 0 \<and>
     (same_call tool' args' ''lock_door'' [(''id'', JNum ''7'')] \<or>
      collision (\<lambda>m. m) (binding_message tool' args') (binding_message ''lock_door'' [(''id'', JNum ''7'')]))"
  by (rule redeem_authorised [OF demo_run_minted demo_wf_args demo_redeem])

text \<open>The store is bounded: after a mint it holds at most \<open>maxEntries\<close> entries, whatever it
  held before, provided the bound is at least one.\<close>

theorem mint_bounded:
  assumes "1 \<le> maxEntries s"
  shows "int (store_size (snd (mint sha256 s tok tool args now))) \<le> maxEntries s"
proof -
  have "int (length (evict (maxEntries s) (snd (sweep now (pending s))))) < maxEntries s"
    using assms by (rule length_evict)
  then show ?thesis
    by (simp add: store_size_def mint_def Let_def length_map_set)
qed

theorem mint_bounded_witness:
  "int (store_size (snd (mint (\<lambda>m. m) (createConfirmationTokenStore None (Some 1)) ''k'' ''t'' [] 0))) \<le> 1"
  using mint_bounded [of "createConfirmationTokenStore None (Some 1)" "\<lambda>m. m" "''k''" "''t''" "[]" 0]
  by (simp add: createConfirmationTokenStore_def)

text \<open>An own argument property named \<open>__proto__\<close> is not covered by the binding: adding one,
  with any value, leaves the canonical text of the call unchanged.\<close>

theorem proto_key_unbound:
  "canonicalizeToolArgs ((''__proto__'', v) # args) = canonicalizeToolArgs args"
  by (simp add: canonicalizeToolArgs_def stripControlKeys_def PROTO_KEY_def)

end
