(* ===== verification/Tool_Interceptor.thy ===== *)
theory Tool_Interceptor
  imports Tool_Confirmation
begin

text \<open>
  The write-confirmation interceptor of \<open>packages/tools-core/src/interceptor.ts\<close>: the runtime
  deny tier, the read-only namespaces, the dispatch-time decision and its two renderings
  (audit event and tool result). A deny rule is a function from the tool and its arguments,
  as in the code; the deny tier is the insertion-ordered map of rules.
\<close>

section \<open>Tools, deny reasons and the deny tier\<close>

datatype confirmation_owner = Owner_interceptor | Owner_route

record interceptable_tool =
  tool_name :: string
  requiresConfirmation :: bool
  requiresWrite :: "bool option"
  inputSchema :: "json option"
  confirmationOwner :: "confirmation_owner option"

definition confirmationOwnerOf :: "interceptable_tool \<Rightarrow> confirmation_owner" where
  "confirmationOwnerOf tool = (case confirmationOwner tool of Some w \<Rightarrow> w | None \<Rightarrow> Owner_interceptor)"

record deny_reason =
  deny_code :: string
  deny_message :: string

type_synonym deny_rule = "interceptable_tool \<Rightarrow> args \<Rightarrow> deny_reason option"

type_synonym deny_tier = "(string, deny_rule) jsmap"

definition deny_add :: "deny_tier \<Rightarrow> string \<Rightarrow> deny_rule \<Rightarrow> deny_tier" where
  "deny_add rules i rule = map_set i rule rules"

definition deny_remove :: "deny_tier \<Rightarrow> string \<Rightarrow> bool \<times> deny_tier" where
  "deny_remove rules i = (map_of rules i \<noteq> None, map_delete i rules)"

definition deny_clear :: "deny_tier \<Rightarrow> deny_tier" where
  "deny_clear rules = []"

fun deny_evaluate :: "deny_tier \<Rightarrow> interceptable_tool \<Rightarrow> args \<Rightarrow> deny_reason option" where
  "deny_evaluate [] tool args = None"
| "deny_evaluate ((i, rule) # rules) tool args =
     (case rule tool args of Some reason \<Rightarrow> Some reason | None \<Rightarrow> deny_evaluate rules tool args)"

definition deny_ids :: "deny_tier \<Rightarrow> string list" where
  "deny_ids rules = keys_of rules"

section \<open>Read-only namespaces\<close>

definition READ_ONLY_TOOL_NAMESPACES :: "string list" where
  "READ_ONLY_TOOL_NAMESPACES = []"

definition breach_in :: "string list \<Rightarrow> interceptable_tool \<Rightarrow> deny_reason option" where
  "breach_in namespaces tool =
     (let name = js_lower (js_trim (tool_name tool)) in
      case find (\<lambda>p. starts_with p name) namespaces of
        None \<Rightarrow> None
      | Some ns \<Rightarrow>
          if ns = [] then None
          else if requiresWrite tool = Some False \<and> \<not> requiresConfirmation tool then None
          else Some \<lparr>deny_code = ''read_only_namespace'',
                 deny_message = [CHR 0x27] @ tool_name tool @ [CHR 0x27] @ '' is in the read-only '' @
                   [CHR 0x27] @ ns @ [CHR 0x27] @
                   '' namespace, and the assistant only reads there: it never writes or asks for a confirmation. '' @
                   ''Nothing about this call was attempted, and no approval changes that.''\<rparr>)"

definition readOnlyNamespaceBreach :: "interceptable_tool \<Rightarrow> deny_reason option" where
  "readOnlyNamespaceBreach tool = breach_in READ_ONLY_TOOL_NAMESPACES tool"

section \<open>The dispatch-time decision\<close>

datatype intercept_outcome =
    Proceed args bool
  | Denied deny_reason
  | Confirmation_required string int
  | Confirmation_rejected redeem_failure

record interceptor =
  tokens :: token_store
  denyTier :: deny_tier

definition createToolCallInterceptor :: "token_store option \<Rightarrow> deny_tier option \<Rightarrow> interceptor" where
  "createToolCallInterceptor ts dt =
     \<lparr>tokens = (case ts of Some t \<Rightarrow> t | None \<Rightarrow> createConfirmationTokenStore None None),
      denyTier = (case dt of Some d \<Rightarrow> d | None \<Rightarrow> [])\<rparr>"

definition declaresConfirmedFlag :: "interceptable_tool \<Rightarrow> bool" where
  "declaresConfirmedFlag tool =
     (case inputSchema tool of
        Some (JObj kvs) \<Rightarrow>
          (case map_of kvs ''properties'' of
             Some (JObj ps) \<Rightarrow> ''confirmed'' \<in> set (keys_of ps)
           | _ \<Rightarrow> False)
      | _ \<Rightarrow> False)"

text \<open>
  The argument \<open>presented\<close> is \<open>meta?.confirmationToken\<close> when it is a string; \<open>rnd\<close> is the
  token \<open>randomBytes\<close> would give a mint of this call.
\<close>

definition intercept ::
  "(string \<Rightarrow> string) \<Rightarrow> interceptor \<Rightarrow> interceptable_tool \<Rightarrow> args \<Rightarrow> string option \<Rightarrow> int \<Rightarrow> string
     \<Rightarrow> intercept_outcome \<times> interceptor" where
  "intercept sha256 ic tool args presented now rnd =
     (case readOnlyNamespaceBreach tool of
        Some breach \<Rightarrow> (Denied breach, ic)
      | None \<Rightarrow>
     (case deny_evaluate (denyTier ic) tool args of
        Some denied \<Rightarrow> (Denied denied, ic)
      | None \<Rightarrow>
     (if \<not> requiresConfirmation tool then (Proceed args False, ic)
      else if confirmationOwnerOf tool = Owner_route then (Proceed args False, ic)
      else
       (case presented of
          Some (c # cs) \<Rightarrow>
            (case redeem sha256 (tokens ic) (c # cs) (tool_name tool) args now of
               (Inl reason, ts) \<Rightarrow> (Confirmation_rejected reason, ic\<lparr>tokens := ts\<rparr>)
             | (Inr m, ts) \<Rightarrow>
                 (Proceed (if declaresConfirmedFlag tool then map_set ''confirmed'' (JBool True) args else args) True,
                  ic\<lparr>tokens := ts\<rparr>))
        | _ \<Rightarrow>
            (case mint sha256 (tokens ic) rnd (tool_name tool) args now of
               ((token, expiresAt), ts) \<Rightarrow> (Confirmation_required token expiresAt, ic\<lparr>tokens := ts\<rparr>))))))"

section \<open>The audit view and the tool result\<close>

datatype audit_outcome = Audit_confirmation_required | Audit_confirmation_rejected | Audit_denied | Audit_confirmed

record interceptor_audit_event =
  ae_outcome :: audit_outcome
  ae_tool :: string
  ae_reason :: "string option"
  ae_expiresAt :: "int option"

fun failure_name :: "redeem_failure \<Rightarrow> string" where
  "failure_name unknown_token = ''unknown_token''"
| "failure_name already_used = ''already_used''"
| "failure_name expired = ''expired''"
| "failure_name wrong_tool = ''wrong_tool''"
| "failure_name arguments_mismatch = ''arguments_mismatch''"

fun interceptorAuditEvent :: "interceptable_tool \<Rightarrow> intercept_outcome \<Rightarrow> interceptor_audit_event option" where
  "interceptorAuditEvent tool (Confirmation_required token ex) =
     Some \<lparr>ae_outcome = Audit_confirmation_required, ae_tool = tool_name tool, ae_reason = None, ae_expiresAt = Some ex\<rparr>"
| "interceptorAuditEvent tool (Confirmation_rejected r) =
     Some \<lparr>ae_outcome = Audit_confirmation_rejected, ae_tool = tool_name tool, ae_reason = Some (failure_name r), ae_expiresAt = None\<rparr>"
| "interceptorAuditEvent tool (Denied d) =
     Some \<lparr>ae_outcome = Audit_denied, ae_tool = tool_name tool, ae_reason = Some (deny_code d), ae_expiresAt = None\<rparr>"
| "interceptorAuditEvent tool (Proceed a consumed) =
     (if consumed
      then Some \<lparr>ae_outcome = Audit_confirmed, ae_tool = tool_name tool, ae_reason = None, ae_expiresAt = None\<rparr>
      else None)"

datatype tool_status = Status_error | Status_confirmation_required

record tool_refusal =
  tr_status :: tool_status
  tr_code :: string
  tr_message :: string
  tr_details :: json

definition json_of_int :: "int \<Rightarrow> json" where
  "json_of_int i = JNum (if i < 0 then CHR ''-'' # show_nat (nat (- i)) else show_nat (nat i))"

definition quoted_name :: "interceptable_tool \<Rightarrow> string" where
  "quoted_name tool = [CHR 0x27] @ tool_name tool @ [CHR 0x27]"

fun interceptOutcomeToToolResult :: "interceptable_tool \<Rightarrow> intercept_outcome \<Rightarrow> tool_refusal option" where
  "interceptOutcomeToToolResult tool (Proceed a consumed) = None"
| "interceptOutcomeToToolResult tool (Denied d) =
     Some \<lparr>tr_status = Status_error, tr_code = ''TOOL_DENIED'', tr_message = deny_message d,
       tr_details = JObj [(''interceptor'', JObj [(''outcome'', JStr ''denied''),
         (''tool'', JStr (tool_name tool)), (''reason'', JStr (deny_code d))])]\<rparr>"
| "interceptOutcomeToToolResult tool (Confirmation_rejected r) =
     Some \<lparr>tr_status = Status_confirmation_required, tr_code = ''CONFIRMATION_REJECTED'',
       tr_message = ''The confirmation presented for '' @ quoted_name tool @ '' was refused ('' @ failure_name r @ ''). '' @
         ''Re-issue the call without a token to request a fresh approval from the user.'',
       tr_details = JObj [(''interceptor'', JObj [(''outcome'', JStr ''confirmation_rejected''),
         (''tool'', JStr (tool_name tool)), (''reason'', JStr (failure_name r))])]\<rparr>"
| "interceptOutcomeToToolResult tool (Confirmation_required token ex) =
     Some \<lparr>tr_status = Status_confirmation_required, tr_code = ''CONFIRMATION_REQUIRED'',
       tr_message = quoted_name tool @ '' writes, so it needs a thumbs-up. Relay this to the user, and '' @
         ''only after they explicitly approve, re-issue the SAME call with the SAME arguments '' @
         ''presenting this confirmationToken. Do NOT approve on the user'' @ [CHR 0x27] @ ''s behalf: setting '' @
         ''`confirmed: true` yourself approves nothing and only asks again.'',
       tr_details = JObj [(''interceptor'', JObj [(''outcome'', JStr ''confirmation_required''),
           (''tool'', JStr (tool_name tool)), (''confirmationToken'', JStr token), (''expiresAt'', json_of_int ex)]),
         (''confirmationToken'', JStr token), (''type'', JStr (tool_name tool))]\<rparr>"

section \<open>Lemmas\<close>

lemma no_breach [simp]: "readOnlyNamespaceBreach tool = None"
  by (simp add: readOnlyNamespaceBreach_def breach_in_def READ_ONLY_TOOL_NAMESPACES_def)

lemma deny_evaluate_None_iff: "deny_evaluate rules tool args = None \<longleftrightarrow> (\<forall>(i, rule) \<in> set rules. rule tool args = None)"
  by (induction rules tool args rule: deny_evaluate.induct) (auto split: option.splits)

text \<open>A confirming call the interceptor owns: no deny rule objects and the tool must be approved here.\<close>

definition guarded :: "interceptor \<Rightarrow> interceptable_tool \<Rightarrow> args \<Rightarrow> bool" where
  "guarded ic tool args \<longleftrightarrow> deny_evaluate (denyTier ic) tool args = None \<and> requiresConfirmation tool \<and>
     confirmationOwnerOf tool = Owner_interceptor"

lemma owner_not_route: "confirmationOwnerOf tool \<noteq> Owner_route \<longleftrightarrow> confirmationOwnerOf tool = Owner_interceptor"
  by (cases "confirmationOwnerOf tool") auto

lemma intercept_guarded_token:
  assumes "guarded ic tool args"
  shows "intercept sha256 ic tool args (Some (c # cs)) now rnd =
    (case redeem sha256 (tokens ic) (c # cs) (tool_name tool) args now of
       (Inl reason, ts) \<Rightarrow> (Confirmation_rejected reason, ic\<lparr>tokens := ts\<rparr>)
     | (Inr m, ts) \<Rightarrow> (Proceed (if declaresConfirmedFlag tool then map_set ''confirmed'' (JBool True) args else args) True,
          ic\<lparr>tokens := ts\<rparr>))"
  using assms by (simp add: intercept_def guarded_def)

lemma intercept_guarded_no_token:
  assumes "guarded ic tool args" and "presented = None \<or> presented = Some []"
  shows "intercept sha256 ic tool args presented now rnd =
    (Confirmation_required rnd (now + ttlMs (tokens ic)),
     ic\<lparr>tokens := snd (mint sha256 (tokens ic) rnd (tool_name tool) args now)\<rparr>)"
  using assms by (auto simp: intercept_def guarded_def mint_def Let_def)

text \<open>Every call is at most one operation of the token store.\<close>

lemma intercept_tokens:
  "tokens (snd (intercept sha256 ic tool args presented now rnd)) \<in>
     {tokens ic, snd (mint sha256 (tokens ic) rnd (tool_name tool) args now),
      snd (redeem sha256 (tokens ic) (the presented) (tool_name tool) args now)}"
  by (auto simp: intercept_def split: option.splits list.splits sum.splits prod.splits)

section \<open>Runs of the dispatcher\<close>

text \<open>
  A run is the list of intercepted calls with their outcomes, the newest first, from a fresh
  token store and a fixed deny tier. \<open>randomBytes\<close> never repeats a token.
\<close>

record call =
  c_tool :: interceptable_tool
  c_args :: args
  c_presented :: "string option"
  c_now :: int
  c_rnd :: string
  c_outcome :: intercept_outcome

inductive dispatch_run :: "(string \<Rightarrow> string) \<Rightarrow> int option \<Rightarrow> int option \<Rightarrow> deny_tier \<Rightarrow> call list \<Rightarrow> interceptor \<Rightarrow> bool"
  for h ttl mx dt where
  start: "dispatch_run h ttl mx dt [] \<lparr>tokens = createConfirmationTokenStore ttl mx, denyTier = dt\<rparr>"
| step: "dispatch_run h ttl mx dt cs ic \<Longrightarrow> rnd \<notin> c_rnd ` set cs \<Longrightarrow> wf_args args \<Longrightarrow>
     intercept h ic tool args presented now rnd = (out, ic') \<Longrightarrow>
     dispatch_run h ttl mx dt
       (\<lparr>c_tool = tool, c_args = args, c_presented = presented, c_now = now, c_rnd = rnd, c_outcome = out\<rparr> # cs) ic'"

fun consumed :: "intercept_outcome \<Rightarrow> bool" where
  "consumed (Proceed a b) = b"
| "consumed _ = False"

fun challenged :: "intercept_outcome \<Rightarrow> bool" where
  "challenged (Confirmation_required t ex) = True"
| "challenged _ = False"

definition consumption_count :: "string \<Rightarrow> call list \<Rightarrow> nat" where
  "consumption_count tok cs = length (filter (\<lambda>c. consumed (c_outcome c) \<and> c_presented c = Some tok) cs)"

text \<open>The simulation: the token store of the run has a history of its own that the calls explain.\<close>

definition explains :: "call list \<Rightarrow> history \<Rightarrow> bool" where
  "explains cs hist \<longleftrightarrow>
     (\<forall>tok tool args now out. (Mint tok tool args now, out) \<in> set hist \<longrightarrow>
        (\<exists>c \<in> set cs. c_rnd c = tok \<and> tool_name (c_tool c) = tool \<and> c_args c = args \<and> c_now c = now \<and>
           challenged (c_outcome c))) \<and>
     (\<forall>tok. spend_count tok hist = consumption_count tok cs)"

lemma explains_minted: "explains cs hist \<Longrightarrow> minted_in hist tok \<Longrightarrow> tok \<in> c_rnd ` set cs"
  by (auto simp: explains_def minted_in_def) blast

lemma explains_other: "explains cs hist \<Longrightarrow> \<not> consumed (c_outcome c) \<Longrightarrow> explains (c # cs) hist"
  by (auto simp: explains_def consumption_count_def)

lemma intercept_cases:
  assumes "intercept h ic tool args presented now rnd = (out, ic')"
  obtains (same) "tokens ic' = tokens ic" "\<not> consumed out"
  | (mint) ex where "tokens ic' = snd (mint h (tokens ic) rnd (tool_name tool) args now)"
      "out = Confirmation_required rnd ex"
  | (rejected) tok r where "presented = Some tok" "out = Confirmation_rejected r" "tokens ic' = tokens ic"
  | (redeemed) tok m a where "presented = Some tok" "out = Proceed a True"
      "redeem h (tokens ic) tok (tool_name tool) args now = (Inr m, tokens ic')"
  using assms redeem_failed_unchanged [of h "tokens ic" "the presented" "tool_name tool" args now]
  by (auto simp: intercept_def mint_def Let_def split: option.splits if_splits list.splits sum.splits prod.splits)

lemma dispatch_simulates_store:
  "dispatch_run h ttl mx dt cs ic \<Longrightarrow>
     denyTier ic = dt \<and> (\<exists>hist. store_run h ttl mx hist (tokens ic) \<and> explains cs hist)"
proof (induction rule: dispatch_run.induct)
  case start
  have "explains [] []" by (simp add: explains_def consumption_count_def)
  then show ?case using store_run.start by fastforce
next
  case (step cs ic rnd args tool presented now out ic')
  then obtain hist where hist: "store_run h ttl mx hist (tokens ic)" "explains cs hist" by blast
  have dt: "denyTier ic' = denyTier ic"
    using step.hyps(4) by (auto simp: intercept_def split: option.splits if_splits list.splits sum.splits prod.splits)
  let ?c = "\<lparr>c_tool = tool, c_args = args, c_presented = presented, c_now = now, c_rnd = rnd, c_outcome = out\<rparr>"
  from step.hyps(4) show ?case
  proof (cases rule: intercept_cases)
    case same
    then show ?thesis using hist dt step.IH explains_other [OF hist(2), of ?c] by auto
  next
    case rejected
    then show ?thesis using hist dt step.IH explains_other [OF hist(2), of ?c] by auto
  next
    case (mint ex)
    let ?hist = "(Mint rnd (tool_name tool) args now, Minted rnd (now + ttlMs (tokens ic))) # hist"
    have "store_run h ttl mx ?hist (tokens ic')"
    proof (rule store_run.step [OF hist(1)])
      show "event_ok hist (Mint rnd (tool_name tool) args now)"
        using step.hyps(2,3) explains_minted [OF hist(2)] by auto
    qed (simp add: mint mint_def Let_def)
    moreover have "explains (?c # cs) ?hist"
      using hist(2) mint by (auto simp: explains_def consumption_count_def)
    ultimately show ?thesis using dt step.IH by auto
  next
    case (redeemed tok m a)
    let ?hist = "(Redeem tok (tool_name tool) args now, Redeemed (Inr m)) # hist"
    have "store_run h ttl mx ?hist (tokens ic')"
      by (rule store_run.step [OF hist(1)]) (auto simp: step.hyps(3) redeemed)
    moreover have "explains (?c # cs) ?hist"
      using hist(2) redeemed by (auto simp: explains_def consumption_count_def)
    ultimately show ?thesis using dt step.IH by auto
  qed
qed

section \<open>Properties\<close>


text \<open>C2. In every run of the dispatcher a token lets at most one call proceed.\<close>

theorem token_admits_one_call:
  assumes "dispatch_run sha256 ttl mx dt cs ic"
  shows "consumption_count tok cs \<le> 1"
proof -
  obtain hist where "store_run sha256 ttl mx hist (tokens ic)" "explains cs hist"
    using dispatch_simulates_store [OF assms] by blast
  then show ?thesis
    using store_run_inv [of sha256 ttl mx hist "tokens ic"] by (simp add: explains_def store_inv_def)
qed

text \<open>A confirming tool the interceptor owns runs only against a verified token: the call
  proceeds exactly when a token was presented whose redeem for this tool and these arguments
  succeeds, and then it is reported as consumed.\<close>

theorem guarded_proceeds_only_with_token:
  assumes "guarded ic tool args"
  shows "(\<exists>a b. fst (intercept sha256 ic tool args presented now rnd) = Proceed a b) \<longleftrightarrow>
     (\<exists>tok m. presented = Some tok \<and> tok \<noteq> [] \<and>
        fst (redeem sha256 (tokens ic) tok (tool_name tool) args now) = Return m)"
proof (cases "presented = None \<or> presented = Some []")
  case True
  then show ?thesis using intercept_guarded_no_token [OF assms True] by auto
next
  case False
  then obtain c cs where p: "presented = Some (c # cs)" by (cases presented) (auto simp: neq_Nil_conv)
  show ?thesis
    unfolding p intercept_guarded_token [OF assms] by (auto split: prod.splits sum.splits)
qed

definition demo_tool :: interceptable_tool where
  "demo_tool = \<lparr>tool_name = ''lock_door'', requiresConfirmation = True, requiresWrite = Some True,
     inputSchema = None, confirmationOwner = None\<rparr>"

definition demo_interceptor :: interceptor where
  "demo_interceptor = \<lparr>tokens = demo_minted, denyTier = []\<rparr>"

lemma demo_guarded: "guarded demo_interceptor demo_tool args"
  by (simp add: guarded_def demo_interceptor_def demo_tool_def confirmationOwnerOf_def)

theorem guarded_proceeds_only_with_token_witness:
  "\<exists>a b. fst (intercept (\<lambda>m. m) demo_interceptor demo_tool [(''id'', JNum ''7'')] (Some ''k'') 5 ''z'') = Proceed a b"
proof -
  have "fst (redeem (\<lambda>m. m) (tokens demo_interceptor) ''k'' (tool_name demo_tool) [(''id'', JNum ''7'')] 5) = Return 0"
    using demo_redeem by (simp add: demo_interceptor_def demo_tool_def)
  then show ?thesis
    by (subst guarded_proceeds_only_with_token [OF demo_guarded]) blast
qed

text \<open>The \<open>confirmed\<close> flag a model writes into the arguments approves nothing: without a
  token the guarded call is challenged whatever the flag says, and the store it leaves
  behind is the same one it would leave without the flag.\<close>

theorem confirmed_flag_inert:
  assumes "guarded ic tool args" and "guarded ic tool (map_set ''confirmed'' v args)"
  shows "intercept sha256 ic tool (map_set ''confirmed'' v args) None now rnd =
     intercept sha256 ic tool args None now rnd \<and>
     fst (intercept sha256 ic tool args None now rnd) = Confirmation_required rnd (now + ttlMs (tokens ic))"
  using intercept_guarded_no_token [OF assms(1), of None] intercept_guarded_no_token [OF assms(2), of None]
  by (simp add: mint_def Let_def)

theorem confirmed_flag_inert_witness:
  "fst (intercept (\<lambda>m. m) demo_interceptor demo_tool (map_set ''confirmed'' (JBool True) []) None 5 ''z'') =
     Confirmation_required ''z'' (5 + ttlMs (tokens demo_interceptor))"
  using confirmed_flag_inert [OF demo_guarded demo_guarded, of "\<lambda>m. m" "JBool True" "[]" 5 "''z''"] by simp

text \<open>A denied call is refused whatever approval it carries, and no token is minted or
  spent for it.\<close>

theorem denied_beyond_approval:
  assumes "deny_evaluate (denyTier ic) tool args = Some d"
  shows "intercept sha256 ic tool args presented now rnd = (Denied d, ic)"
  using assms by (simp add: intercept_def)

theorem denied_beyond_approval_witness:
  "intercept (\<lambda>m. m) (demo_interceptor\<lparr>denyTier := deny_add [] ''r'' (\<lambda>t a. Some \<lparr>deny_code = ''x'', deny_message = ''y''\<rparr>)\<rparr>)
     demo_tool [] (Some ''k'') 5 ''z'' =
   (Denied \<lparr>deny_code = ''x'', deny_message = ''y''\<rparr>,
    demo_interceptor\<lparr>denyTier := deny_add [] ''r'' (\<lambda>t a. Some \<lparr>deny_code = ''x'', deny_message = ''y''\<rparr>)\<rparr>)"
  by (rule denied_beyond_approval) (simp add: deny_add_def)

lemma demo_challenge_run:
  "dispatch_run (\<lambda>m. m) None None [] [\<lparr>c_tool = demo_tool, c_args = [(''id'', JNum ''7'')], c_presented = None, c_now = 0,
     c_rnd = ''k'', c_outcome = Confirmation_required ''k'' 300000\<rparr>] demo_interceptor"
  by (rule dispatch_run.step [OF dispatch_run.start])
    (simp_all add: demo_wf_args demo_interceptor_def demo_tool_def intercept_def confirmationOwnerOf_def demo_minted_def
      mint_def Let_def createConfirmationTokenStore_def DEFAULT_CONFIRMATION_TTL_MS_def)

lemma demo_consume:
  "intercept (\<lambda>m. m) demo_interceptor demo_tool [(''id'', JNum ''7'')] (Some ''k'') 5 ''z'' =
    (Proceed [(''id'', JNum ''7'')] True,
     demo_interceptor\<lparr>tokens := snd (redeem (\<lambda>m. m) demo_minted ''k'' ''lock_door'' [(''id'', JNum ''7'')] 5)\<rparr>)"
  using demo_redeem intercept_guarded_token [OF demo_guarded, of "\<lambda>m. m" "[(''id'', JNum ''7'')]" "CHR ''k''" "[]" 5 "''z''"]
  by (auto simp: demo_interceptor_def demo_tool_def declaresConfirmedFlag_def split: prod.splits)


theorem token_admits_one_call_witness:
  "consumption_count ''k'' [\<lparr>c_tool = demo_tool, c_args = [(''id'', JNum ''7'')], c_presented = None, c_now = 0,
     c_rnd = ''k'', c_outcome = Confirmation_required ''k'' 300000\<rparr>] \<le> 1"
  by (rule token_admits_one_call [OF demo_challenge_run])

end
