(* ===== verification/Role_Guard.thy ===== *)
theory Role_Guard
  imports Json
begin

text \<open>
  The role-mutation guard of \<^verbatim>\<open>apps/orchestrator/src/services/role-mutation-guard.service.ts\<close>.
  The directory (the \<^verbatim>\<open>User\<close> table) is a list of rows.  The rails that run before the
  transaction are pure functions of the actor and of the row read earlier; the rails that run
  inside it read the directory as it is then.  Every refusal is a value of \<open>refusal_code\<close>, with
  the HTTP status the routes answer.  The effects that follow a committed change are recorded as a
  log, in the order the code runs them, together with the error the runner rethrows at its end.
\<close>

section \<open>Roles\<close>

datatype role = service | guest | family | admin | owner

definition ROLE_RANK :: "role \<Rightarrow> int" where
  "ROLE_RANK r = (case r of service \<Rightarrow> -1 | guest \<Rightarrow> 0 | family \<Rightarrow> 1 | admin \<Rightarrow> 2 | owner \<Rightarrow> 3)"

definition roleOutranks :: "role \<Rightarrow> role \<Rightarrow> bool" where
  "roleOutranks a b \<longleftrightarrow> ROLE_RANK a > ROLE_RANK b"

lemma ROLE_RANK_inj [simp]: "ROLE_RANK a = ROLE_RANK b \<longleftrightarrow> a = b"
  by (cases a; cases b; simp add: ROLE_RANK_def)

instantiation role :: linorder
begin

definition less_eq_role :: "role \<Rightarrow> role \<Rightarrow> bool" where
  "less_eq_role a b \<longleftrightarrow> ROLE_RANK a \<le> ROLE_RANK b"

definition less_role :: "role \<Rightarrow> role \<Rightarrow> bool" where
  "less_role a b \<longleftrightarrow> ROLE_RANK a < ROLE_RANK b"

instance
  by standard (auto simp: less_eq_role_def less_role_def)

end

lemma roleOutranks_less: "roleOutranks a b \<longleftrightarrow> b < a"
  by (simp add: roleOutranks_def less_role_def)

definition ASSIGNABLE_ROLES :: "role list" where
  "ASSIGNABLE_ROLES = [admin, family, guest]"

definition ADMIN_TIER_ROLES :: "role list" where
  "ADMIN_TIER_ROLES = [owner, admin]"

abbreviation admin_tier :: "role \<Rightarrow> bool" where
  "admin_tier r \<equiv> r \<in> set ADMIN_TIER_ROLES"

section \<open>Refusals\<close>

datatype refusal_code =
    OWNER_IMMUTABLE | SELF_ACTION_NOT_ALLOWED | ROLE_RANK_EXCEEDED | ROLE_NOT_ASSIGNABLE
  | LAST_OWNER_INVARIANT | LAST_OPERATOR_INVARIANT | CONCURRENT_MUTATION | DELETION_PENDING

definition refusal_status :: "refusal_code \<Rightarrow> nat" where
  "refusal_status c = (case c of
     OWNER_IMMUTABLE \<Rightarrow> 403 | ROLE_RANK_EXCEEDED \<Rightarrow> 403 | ROLE_NOT_ASSIGNABLE \<Rightarrow> 403
   | SELF_ACTION_NOT_ALLOWED \<Rightarrow> 409 | LAST_OWNER_INVARIANT \<Rightarrow> 409 | LAST_OPERATOR_INVARIANT \<Rightarrow> 409
   | CONCURRENT_MUTATION \<Rightarrow> 409 | DELETION_PENDING \<Rightarrow> 409)"

text \<open>
  Everything a guarded mutation can throw: a rail's refusal, the two Prisma codes of a lost race
  (\<^verbatim>\<open>P2034\<close>, the loser of a serializable conflict, and \<^verbatim>\<open>P2025\<close>, a pinned write that matched no
  row), a typed hand-over refusal, the session sweep's own error, or a Nextcloud error.
\<close>
datatype directory_error =
    Refused refusal_code
  | P2034
  | P2025
  | HandoverRefused nat string
  | SessionRevokeFailed
  | NextcloudFailed

definition isConcurrencyConflict :: "directory_error \<Rightarrow> bool" where
  "isConcurrencyConflict e \<longleftrightarrow> e = P2034 \<or> e = P2025"

section \<open>The directory\<close>

datatype directory_status = ACTIVE | DEACTIVATED

datatype deletion_status = NONE | PENDING | HANDING_OVER | PURGING

record user_row =
  u_id :: string
  u_username :: string
  u_nextcloud :: "string option"
  u_role :: role
  u_status :: directory_status
  u_scim :: bool
  u_access_role :: "string option"
  u_deletion :: deletion_status
  u_due :: "int option"
  u_requested_by :: "string option"
  u_claimed_at :: "int option"
  u_prior :: "deletion_status option"
  u_recipient :: "string option"

type_synonym directory = "user_row list"

definition findUser :: "directory \<Rightarrow> string \<Rightarrow> user_row option" where
  "findUser db i = find (\<lambda>r. u_id r = i) db"

definition updateWhere :: "(user_row \<Rightarrow> bool) \<Rightarrow> (user_row \<Rightarrow> user_row) \<Rightarrow> directory \<Rightarrow> directory" where
  "updateWhere p f db = map (\<lambda>r. if p r then f r else r) db"

definition countWhere :: "(user_row \<Rightarrow> bool) \<Rightarrow> directory \<Rightarrow> nat" where
  "countWhere p db = length (filter p db)"

text \<open>\<^verbatim>\<open>user.update\<close> with a pinned \<^verbatim>\<open>where\<close> throws \<^verbatim>\<open>P2025\<close> when no row matches.\<close>

definition updateOne ::
  "(user_row \<Rightarrow> bool) \<Rightarrow> (user_row \<Rightarrow> user_row) \<Rightarrow> directory \<Rightarrow> (directory_error, directory) result" where
  "updateOne p f db = (if countWhere p db = 0 then Throw P2025 else Return (updateWhere p f db))"

definition wf_directory :: "directory \<Rightarrow> bool" where
  "wf_directory db \<longleftrightarrow> distinct (map u_id db)"

definition active_operator :: "user_row \<Rightarrow> bool" where
  "active_operator r \<longleftrightarrow> admin_tier (u_role r) \<and> u_status r = ACTIVE"

section \<open>The individual rails\<close>

record guard_actor =
  ga_id :: "string option"
  ga_role :: "role option"

record guard_target =
  gt_id :: string
  gt_role :: role

record guard_tx_target = guard_target +
  gt_status :: directory_status

definition target_of :: "user_row \<Rightarrow> guard_target" where
  "target_of r = \<lparr>gt_id = u_id r, gt_role = u_role r\<rparr>"

definition readGuardTargetTx :: "directory \<Rightarrow> string \<Rightarrow> guard_tx_target option" where
  "readGuardTargetTx db i =
     map_option (\<lambda>r. \<lparr>gt_id = u_id r, gt_role = u_role r, gt_status = u_status r\<rparr>) (findUser db i)"

type_synonym rail = "(directory_error, unit) result"

definition assertNotSelf :: "string option \<Rightarrow> string \<Rightarrow> rail" where
  "assertNotSelf actorId targetId = throw_if (actorId = Some targetId) (Refused SELF_ACTION_NOT_ALLOWED)"

definition assertTargetNotOwner :: "role \<Rightarrow> rail" where
  "assertTargetNotOwner r = throw_if (r = owner) (Refused OWNER_IMMUTABLE)"

definition assertTargetNotOtherOwner :: "string option \<Rightarrow> guard_target \<Rightarrow> rail" where
  "assertTargetNotOtherOwner actorId t =
     (if gt_role t \<noteq> owner then Return ()
      else throw_if (actorId = None \<or> actorId = Some [] \<or> actorId \<noteq> Some (gt_id t)) (Refused OWNER_IMMUTABLE))"

definition assertRankCap :: "role option \<Rightarrow> role \<Rightarrow> rail" where
  "assertRankCap actorRole requested =
     throw_if (case actorRole of None \<Rightarrow> True | Some a \<Rightarrow> ROLE_RANK requested > ROLE_RANK a)
       (Refused ROLE_RANK_EXCEEDED)"

definition assertRoleAssignable :: "role \<Rightarrow> rail" where
  "assertRoleAssignable r = throw_if (r \<notin> set ASSIGNABLE_ROLES) (Refused ROLE_NOT_ASSIGNABLE)"

section \<open>The composites that run before the transaction\<close>

definition assertRoleChangeAllowed :: "guard_actor \<Rightarrow> guard_target \<Rightarrow> role \<Rightarrow> rail" where
  "assertRoleChangeAllowed actor t requested =
     seq (assertNotSelf (ga_id actor) (gt_id t))
    (seq (assertTargetNotOwner (gt_role t))
    (seq (assertRankCap (ga_role actor) requested)
         (assertRoleAssignable requested)))"

definition assertRemovalAllowed :: "guard_actor \<Rightarrow> guard_target \<Rightarrow> rail" where
  "assertRemovalAllowed actor t =
     seq (assertNotSelf (ga_id actor) (gt_id t)) (assertTargetNotOwner (gt_role t))"

definition assertDisableAllowed :: "guard_actor \<Rightarrow> guard_target \<Rightarrow> rail" where
  "assertDisableAllowed actor t =
     seq (assertNotSelf (ga_id actor) (gt_id t)) (assertTargetNotOwner (gt_role t))"

definition assertSessionRevokeAllowed :: "guard_actor \<Rightarrow> guard_target \<Rightarrow> rail" where
  "assertSessionRevokeAllowed actor t =
     seq (assertNotSelf (ga_id actor) (gt_id t))
    (seq (assertTargetNotOwner (gt_role t))
         (assertRankCap (ga_role actor) (gt_role t)))"

definition assertScopeChangeAllowed :: "guard_actor \<Rightarrow> guard_target \<Rightarrow> rail" where
  "assertScopeChangeAllowed actor t =
     seq (assertNotSelf (ga_id actor) (gt_id t)) (assertTargetNotOwner (gt_role t))"

definition assertUsageWriteAllowed :: "guard_target \<Rightarrow> rail" where
  "assertUsageWriteAllowed t = assertTargetNotOwner (gt_role t)"

definition assertDirectoryEditAllowed :: "guard_actor \<Rightarrow> guard_target \<Rightarrow> rail" where
  "assertDirectoryEditAllowed actor t = assertTargetNotOtherOwner (ga_id actor) t"

definition assertAssignableForCreate :: "role option \<Rightarrow> role \<Rightarrow> rail" where
  "assertAssignableForCreate actorRole requested =
     seq (assertRankCap actorRole requested) (assertRoleAssignable requested)"

section \<open>The invariants checked inside the transaction\<close>

definition assertNotLastOwner :: "directory \<Rightarrow> bool \<Rightarrow> rail" where
  "assertNotLastOwner db losesAnOwner =
     (if \<not> losesAnOwner then Return ()
      else throw_if (countWhere (\<lambda>r. u_role r = owner) db \<le> 1) (Refused LAST_OWNER_INVARIANT))"

definition assertNotLastOperator :: "directory \<Rightarrow> guard_tx_target \<Rightarrow> rail" where
  "assertNotLastOperator db t =
     (if gt_status t = DEACTIVATED then Return ()
      else throw_if
        (countWhere (\<lambda>r. u_role r \<in> set ADMIN_TIER_ROLES \<and> u_status r = ACTIVE \<and> u_id r \<noteq> gt_id t) db = 0)
        (Refused LAST_OPERATOR_INVARIANT))"

definition assertRoleChangeInvariantsTx :: "directory \<Rightarrow> guard_tx_target \<Rightarrow> role \<Rightarrow> rail" where
  "assertRoleChangeInvariantsTx db t requested =
     seq (assertNotLastOwner db (gt_role t = owner \<and> requested \<noteq> owner))
         (if admin_tier (gt_role t) \<and> \<not> admin_tier requested then assertNotLastOperator db t else Return ())"

definition assertRemovalInvariantsTx :: "directory \<Rightarrow> guard_tx_target \<Rightarrow> rail" where
  "assertRemovalInvariantsTx db t =
     seq (assertNotLastOwner db (gt_role t = owner))
         (if admin_tier (gt_role t) then assertNotLastOperator db t else Return ())"

definition assertDisableInvariantsTx :: "directory \<Rightarrow> guard_tx_target \<Rightarrow> rail" where
  "assertDisableInvariantsTx db t =
     (if admin_tier (gt_role t) then assertNotLastOperator db t else Return ())"

section \<open>The effects that follow a committed change\<close>

text \<open>
  What the runners call outside this file is a log entry; what those calls answer is the record
  \<open>outside\<close>: the session sweep of a person gives the number of sessions ended or rejects
  (\<open>None\<close>), the VPN sweep gives its two counts, and a Nextcloud call succeeds or throws.
\<close>

type_synonym activity_actor = "string \<times> string option"

record activity =
  a_kind :: string
  a_severity :: string
  a_icon :: string
  a_what :: string
  a_sub :: string
  a_refs :: "(string \<times> json) list"
  a_actor :: activity_actor

datatype effect =
    RevokeSessions string
  | Denylist string nat
  | RevokeOverlayDevices string string
  | RevokeVpnDevices string string
  | RevokeDeviceClients string string
  | RevokeModelTokens string string
  | RevokePmTokens string string
  | NcAddToGroup string
  | NcRemoveFromGroup string
  | NcSetEnabled string bool
  | NcDeleteUser string
  | PurgeUserData string
  | PurgeUsernameKeyedData string
  | PurgeLeaverOwnedData string
  | PurgeM365 string
  | RevokeDepartmentShares string
  | NcTransfer string string
  | Activity activity

record outside =
  o_sessions :: "string \<Rightarrow> nat option"
  o_overlay :: "string \<Rightarrow> (nat \<times> nat) option"
  o_vpn :: "string \<Rightarrow> nat \<times> nat"
  o_nextcloud :: bool

definition ACCESS_TOKEN_TTL_SECONDS :: nat where
  "ACCESS_TOKEN_TTL_SECONDS = 15 * 60"

fun role_name :: "role \<Rightarrow> string" where
  "role_name service = ''service''"
| "role_name guest = ''guest''"
| "role_name family = ''family''"
| "role_name admin = ''admin''"
| "role_name owner = ''owner''"

text \<open>The arrow of the audit lines, in UTF-8.\<close>

definition arrow :: string where
  "arrow = '' '' @ [char_of (226::nat), char_of (134::nat), char_of (146::nat)] @ '' ''"

definition json_opt :: "string option \<Rightarrow> json" where
  "json_opt s = (case s of None \<Rightarrow> JNull | Some t \<Rightarrow> JStr t)"

definition json_nat :: "nat \<Rightarrow> json" where
  "json_nat n = JNum (show_nat n)"

definition vpn_refs :: "(nat \<times> nat) option \<Rightarrow> (string \<times> json) list" where
  "vpn_refs v = (case v of None \<Rightarrow> []
     | Some (revoked, failed) \<Rightarrow> [(''vpnDevicesRevoked'', json_nat revoked), (''vpnDevicesFailed'', json_nat failed)])"

definition revoke_refs :: "bool \<Rightarrow> (string \<times> json) list" where
  "revoke_refs failed = (if failed then [(''sessionRevoke'', JStr ''failed'')] else [])"

definition syncAdminTierGroup :: "string option \<Rightarrow> role \<Rightarrow> role \<Rightarrow> effect list" where
  "syncAdminTierGroup nc previous next =
     (if admin_tier previous = admin_tier next then []
      else case nc of None \<Rightarrow> [] | Some n \<Rightarrow> if n = [] then []
        else if admin_tier next then [NcAddToGroup n] else [NcRemoveFromGroup n])"

definition revokeCapturingFailure :: "outside \<Rightarrow> string \<Rightarrow> bool" where
  "revokeCapturingFailure w i \<longleftrightarrow> o_sessions w i = None"

datatype leaver_devices = Devices_default | Devices_null | Devices_of string

definition revokeLeaverDevices ::
  "outside \<Rightarrow> leaver_devices \<Rightarrow> string \<Rightarrow> string \<Rightarrow> effect list \<times> (nat \<times> nat) option" where
  "revokeLeaverDevices w d dflt reason = (case d of
     Devices_null \<Rightarrow> ([], None)
   | Devices_default \<Rightarrow> ([RevokeOverlayDevices dflt reason], o_overlay w dflt)
   | Devices_of n \<Rightarrow> ([RevokeVpnDevices n reason], Some (o_vpn w n)))"

definition revokeLeaverDeviceClients :: "leaver_devices \<Rightarrow> string \<Rightarrow> string \<Rightarrow> effect list" where
  "revokeLeaverDeviceClients d dflt reason = (case d of
     Devices_null \<Rightarrow> []
   | Devices_default \<Rightarrow> [RevokeDeviceClients dflt reason]
   | Devices_of n \<Rightarrow> [RevokeDeviceClients n reason])"

text \<open>A runner returns its log and what it throws in the end, if anything.\<close>

type_synonym effects = "effect list \<times> directory_error option"

definition rethrow :: "bool \<Rightarrow> directory_error option" where
  "rethrow failed = (if failed then Some SessionRevokeFailed else None)"

definition runRoleChangePostEffects ::
  "outside \<Rightarrow> user_row \<Rightarrow> role \<Rightarrow> role \<Rightarrow> string option \<Rightarrow> activity_actor \<Rightarrow> leaver_devices \<Rightarrow> effects" where
  "runRoleChangePostEffects w t previous next actorUsername actor devices =
     (let revokeError = revokeCapturingFailure w (u_id t);
          demoted = (next = guest \<and> previous \<noteq> guest);
          (vpnLog, vpn) = (if demoted then revokeLeaverDevices w devices (u_username t) ''role_change'' else ([], None));
          modelLog = (if demoted then [RevokeModelTokens (u_id t) ''role_guest''] else []);
          pmLog = (if previous \<noteq> next then [RevokePmTokens (u_id t) ''role_changed''] else [])
      in ([RevokeSessions (u_id t)] @ vpnLog @ modelLog @ pmLog
            @ syncAdminTierGroup (u_nextcloud t) previous next
            @ [Activity \<lparr>a_kind = ''system'', a_severity = ''ok'', a_icon = ''shield'', a_what = ''Role changed'',
                 a_sub = u_username t @ '': '' @ role_name previous @ arrow @ role_name next,
                 a_refs = [(''actor'', json_opt actorUsername), (''targetUserId'', JStr (u_id t)),
                    (''targetUsername'', JStr (u_username t)), (''previousRole'', JStr (role_name previous)),
                    (''nextRole'', JStr (role_name next))] @ vpn_refs vpn @ revoke_refs revokeError,
                 a_actor = actor\<rparr>],
          rethrow revokeError))"

definition runRemovalPostEffects ::
  "outside \<Rightarrow> string option \<Rightarrow> string \<Rightarrow> role option \<Rightarrow> string option \<Rightarrow> activity_actor
     \<Rightarrow> leaver_devices \<Rightarrow> (string \<times> json) list \<Rightarrow> effects" where
  "runRemovalPostEffects w targetUserId targetUsername targetRole actorUsername actor devices purged =
     (let revokeError = (case targetUserId of None \<Rightarrow> False | Some i \<Rightarrow> revokeCapturingFailure w i);
          cut = (case targetUserId of None \<Rightarrow> [] | Some i \<Rightarrow> [RevokeSessions i, Denylist i ACCESS_TOKEN_TTL_SECONDS]);
          (vpnLog, vpn) = revokeLeaverDevices w devices targetUsername ''removal''
      in (cut @ vpnLog @ revokeLeaverDeviceClients devices targetUsername ''removal''
            @ [Activity \<lparr>a_kind = ''auth'', a_severity = ''warn'', a_icon = ''user-x'', a_what = ''User removed'',
                 a_sub = targetUsername,
                 a_refs = [(''actor'', json_opt actorUsername), (''targetUserId'', json_opt targetUserId),
                    (''targetUsername'', JStr targetUsername),
                    (''role'', json_opt (map_option role_name targetRole))]
                    @ vpn_refs vpn @ revoke_refs revokeError
                    @ (if purged = [] then [] else [(''purged'', JObj purged)]),
                 a_actor = actor\<rparr>],
          rethrow revokeError))"

datatype nc_mirror = Mirror_synced | Mirror_failed | Mirror_no_account

fun mirror_name :: "nc_mirror \<Rightarrow> string" where
  "mirror_name Mirror_synced = ''synced''"
| "mirror_name Mirror_failed = ''failed''"
| "mirror_name Mirror_no_account = ''no_account''"

definition runDisablePostEffects ::
  "outside \<Rightarrow> string option \<Rightarrow> string \<Rightarrow> activity_actor \<Rightarrow> nc_mirror option \<Rightarrow> leaver_devices \<Rightarrow> effects" where
  "runDisablePostEffects w targetUserId username actor ncMirror devices =
     (let sessionsRevoked = (case targetUserId of None \<Rightarrow> Some 0 | Some i \<Rightarrow> o_sessions w i);
          revokeError = (sessionsRevoked = None);
          cut = (case targetUserId of None \<Rightarrow> [] | Some i \<Rightarrow> [RevokeSessions i]);
          (vpnLog, vpn) = revokeLeaverDevices w devices username ''deactivation'';
          tokens = (case targetUserId of None \<Rightarrow> []
            | Some i \<Rightarrow> [RevokeModelTokens i ''user_deactivated'', RevokePmTokens i ''user_deactivated''])
      in (cut @ vpnLog @ revokeLeaverDeviceClients devices username ''deactivation'' @ tokens
            @ [Activity \<lparr>a_kind = ''auth'', a_severity = ''warn'', a_icon = ''shield-off'', a_what = ''User disabled'',
                 a_sub = username,
                 a_refs = [(''username'', JStr username), (''targetUserId'', json_opt targetUserId),
                    (''sessionsRevoked'', case sessionsRevoked of None \<Rightarrow> JNull | Some n \<Rightarrow> json_nat n)]
                    @ revoke_refs revokeError
                    @ (case ncMirror of None \<Rightarrow> [] | Some m \<Rightarrow> [(''ncMirror'', JStr (mirror_name m))])
                    @ vpn_refs vpn,
                 a_actor = actor\<rparr>],
          rethrow revokeError))"

section \<open>The transaction every guarded mutation runs\<close>

text \<open>
  The callback the call sites hand to \<^verbatim>\<open>prisma.$transaction(..., SERIALIZABLE_TX)\<close>: re-read the
  target, refuse with \<open>CONCURRENT_MUTATION\<close> when it is gone, run the invariants on the row just
  read, then write with the pinned \<^verbatim>\<open>where\<close>.  A throw rolls the transaction back.
\<close>

definition guardedWrite ::
  "(directory \<Rightarrow> guard_tx_target \<Rightarrow> rail) \<Rightarrow> (guard_tx_target \<Rightarrow> user_row \<Rightarrow> bool) \<Rightarrow> (user_row \<Rightarrow> user_row)
     \<Rightarrow> string \<Rightarrow> directory \<Rightarrow> (directory_error, directory) result" where
  "guardedWrite check pin change i db =
     andThen (some_or (Refused CONCURRENT_MUTATION) (readGuardTargetTx db i))
       (\<lambda>fresh. seq (check db fresh)
          (updateOne (\<lambda>r. u_id r = i \<and> pin fresh r) change db))"

definition pin_role :: "guard_tx_target \<Rightarrow> user_row \<Rightarrow> bool" where
  "pin_role fresh r \<longleftrightarrow> u_role r = gt_role fresh"

definition pin_status :: "guard_tx_target \<Rightarrow> user_row \<Rightarrow> bool" where
  "pin_status fresh r \<longleftrightarrow> u_status r = gt_status fresh"

definition set_role :: "role \<Rightarrow> user_row \<Rightarrow> user_row" where
  "set_role requested r = r\<lparr>u_role := requested\<rparr>"

definition deactivate :: "user_row \<Rightarrow> user_row" where
  "deactivate r = r\<lparr>u_status := DEACTIVATED\<rparr>"

lemmas rail_defs [guard_defs] =
  assertNotSelf_def assertTargetNotOwner_def assertTargetNotOtherOwner_def assertRankCap_def
  assertRoleAssignable_def assertRoleChangeAllowed_def assertRemovalAllowed_def assertDisableAllowed_def
  assertSessionRevokeAllowed_def assertScopeChangeAllowed_def assertUsageWriteAllowed_def
  assertDirectoryEditAllowed_def assertAssignableForCreate_def

lemmas invariant_defs [guard_defs] =
  assertNotLastOwner_def assertNotLastOperator_def assertRoleChangeInvariantsTx_def
  assertRemovalInvariantsTx_def assertDisableInvariantsTx_def

lemma countWhere_zero [simp]: "countWhere p db = 0 \<longleftrightarrow> (\<forall>r\<in>set db. \<not> p r)"
  by (simp add: countWhere_def filter_empty_conv)

lemma findUser_Some: "findUser db i = Some r \<Longrightarrow> r \<in> set db \<and> u_id r = i"
  by (metis (mono_tags, lifting) find_Some_iff findUser_def nth_mem)

lemma findUser_None: "findUser db i = None \<longleftrightarrow> (\<forall>r\<in>set db. u_id r \<noteq> i)"
  by (auto simp: findUser_def find_None_iff)

lemma findUser_wf: "wf_directory db \<Longrightarrow> r \<in> set db \<Longrightarrow> findUser db (u_id r) = Some r"
proof -
  assume wf: "wf_directory db" and mem: "r \<in> set db"
  then obtain s where s: "findUser db (u_id r) = Some s"
    by (metis findUser_None option.exhaust)
  have "s = r"
    using wf mem findUser_Some [OF s] by (auto simp: wf_directory_def distinct_map inj_on_def)
  with s show ?thesis by simp
qed

lemma wf_same_id: "wf_directory db \<Longrightarrow> r \<in> set db \<Longrightarrow> s \<in> set db \<Longrightarrow> u_id r = u_id s \<Longrightarrow> r = s"
  by (auto simp: wf_directory_def distinct_map inj_on_def)

lemma set_updateWhere: "set (updateWhere p f db) = (\<lambda>r. if p r then f r else r) ` set db"
  by (simp add: updateWhere_def)

lemma wf_updateWhere [simp]:
  assumes "\<And>r. u_id (f r) = u_id r"
  shows "wf_directory (updateWhere p f db) = wf_directory db"
proof -
  have "map u_id (updateWhere p f db) = map u_id db"
    using assms by (simp add: updateWhere_def)
  then show ?thesis by (simp only: wf_directory_def)
qed

lemma updateOne_Return: "updateOne p f db = Return db' \<longleftrightarrow> (\<exists>r\<in>set db. p r) \<and> db' = updateWhere p f db"
  by (auto simp: updateOne_def)

lemma guardedWrite_Return:
  "guardedWrite check pin change i db = Return db' \<longleftrightarrow>
     (\<exists>fresh. readGuardTargetTx db i = Some fresh \<and> check db fresh = Return ()
        \<and> (\<exists>r\<in>set db. u_id r = i \<and> pin fresh r)
        \<and> db' = updateWhere (\<lambda>r. u_id r = i \<and> pin fresh r) change db)"
  by (auto simp: guardedWrite_def andThen_eq_Return updateOne_Return)

definition tx_target :: "user_row \<Rightarrow> guard_tx_target" where
  "tx_target r = \<lparr>gt_id = u_id r, gt_role = u_role r, gt_status = u_status r\<rparr>"

lemma readGuardTargetTx_eq: "readGuardTargetTx db i = map_option tx_target (findUser db i)"
  by (cases "findUser db i") (simp_all add: readGuardTargetTx_def tx_target_def)

lemma readGuardTargetTx_Some: "readGuardTargetTx db i = Some t \<longleftrightarrow> (\<exists>r. findUser db i = Some r \<and> t = tx_target r)"
  by (auto simp: readGuardTargetTx_eq)

section \<open>The contract of the in-transaction invariants\<close>

text \<open>
  A check covers a change when passing it means that the written row stays an active operator or
  that another active operator exists.  Every client of such a pair keeps the box manageable.
\<close>

definition manageable :: "directory \<Rightarrow> bool" where
  "manageable db \<longleftrightarrow> (\<exists>r\<in>set db. active_operator r)"

locale covered_write =
  fixes check :: "directory \<Rightarrow> guard_tx_target \<Rightarrow> rail"
    and change :: "user_row \<Rightarrow> user_row"
  assumes change_id: "u_id (change r) = u_id r"
    and covers: "check db (tx_target r) = Return () \<Longrightarrow> r \<in> set db \<Longrightarrow> active_operator r \<Longrightarrow>
      active_operator (change r) \<or> (\<exists>s\<in>set db. active_operator s \<and> u_id s \<noteq> u_id r)"
begin

lemma wf_kept: "wf_directory db \<Longrightarrow> guardedWrite check pin change i db = Return db' \<Longrightarrow> wf_directory db'"
  by (auto simp: guardedWrite_Return change_id)

lemma manageable_change:
  assumes wf: "wf_directory db" and some: "manageable db" and r: "r \<in> set db"
    and ok: "check db (tx_target r) = Return ()" and sel: "\<And>s. p s \<Longrightarrow> u_id s = u_id r"
  shows "manageable (updateWhere p change db)"
proof -
  let ?db = "updateWhere p change db"
  have kept: "s \<in> set ?db" if "s \<in> set db" "u_id s \<noteq> u_id r" for s
    using that sel by (force simp: set_updateWhere)
  obtain s where s: "s \<in> set db" "active_operator s"
    using some by (auto simp: manageable_def)
  show ?thesis
  proof (cases "u_id s = u_id r")
    case False
    with s kept show ?thesis by (auto simp: manageable_def)
  next
    case True
    then have "s = r" using wf_same_id [OF wf s(1) r] by simp
    consider "active_operator (change r)" | t where "t \<in> set db" "active_operator t" "u_id t \<noteq> u_id r"
      using covers [OF ok r] s \<open>s = r\<close> by auto
    then show ?thesis
    proof cases
      case 1
      have "r \<in> set ?db \<or> change r \<in> set ?db"
        using r by (cases "p r") (force simp: set_updateWhere)+
      with 1 s \<open>s = r\<close> show ?thesis by (auto simp: manageable_def)
    next
      case 2
      with kept [of t] show ?thesis by (auto simp: manageable_def)
    qed
  qed
qed

lemma manageable_kept:
  assumes "wf_directory db" "manageable db" "guardedWrite check pin change i db = Return db'"
  shows "manageable db'"
proof -
  obtain r where r: "findUser db i = Some r" and ok: "check db (tx_target r) = Return ()"
    and db': "db' = updateWhere (\<lambda>s. u_id s = i \<and> pin (tx_target r) s) change db"
    using assms(3) by (auto simp: guardedWrite_Return readGuardTargetTx_Some)
  from findUser_Some [OF r] show ?thesis
    unfolding db' by (intro manageable_change [OF assms(1,2) _ ok]) auto
qed

lemma only_target: "guardedWrite check pin change i db = Return db' \<Longrightarrow> s \<in> set db' \<Longrightarrow> u_id s \<noteq> i \<Longrightarrow> s \<in> set db"
  by (auto simp: guardedWrite_Return set_updateWhere change_id split: if_splits)

end

lemma assertNotLastOperator_covers:
  "assertNotLastOperator db (tx_target r) = Return () \<Longrightarrow> active_operator r \<Longrightarrow>
     \<exists>s\<in>set db. active_operator s \<and> u_id s \<noteq> u_id r"
  by (auto simp: assertNotLastOperator_def tx_target_def active_operator_def split: if_splits)

lemma set_role_sel [simp]: "u_id (set_role q r) = u_id r" "u_role (set_role q r) = q"
  "u_status (set_role q r) = u_status r" "u_deletion (set_role q r) = u_deletion r"
  by (simp_all add: set_role_def)

lemma deactivate_sel [simp]: "u_id (deactivate r) = u_id r" "u_role (deactivate r) = u_role r"
  "u_status (deactivate r) = DEACTIVATED" "u_deletion (deactivate r) = u_deletion r"
  by (simp_all add: deactivate_def)

lemma tx_target_sel [simp]: "gt_id (tx_target r) = u_id r" "gt_role (tx_target r) = u_role r"
  "gt_status (tx_target r) = u_status r"
  by (simp_all add: tx_target_def)

interpretation role_change: covered_write "\<lambda>db t. assertRoleChangeInvariantsTx db t q" "set_role q"
proof
  fix db r
  assume ok: "assertRoleChangeInvariantsTx db (tx_target r) q = Return ()" and act: "active_operator r"
  show "active_operator (set_role q r) \<or> (\<exists>s\<in>set db. active_operator s \<and> u_id s \<noteq> u_id r)"
  proof (cases "admin_tier q")
    case True
    with act show ?thesis by (auto simp: active_operator_def)
  next
    case False
    with ok act have "assertNotLastOperator db (tx_target r) = Return ()"
      by (auto simp: assertRoleChangeInvariantsTx_def active_operator_def split: if_splits)
    from assertNotLastOperator_covers [OF this act] show ?thesis ..
  qed
qed simp

text \<open>Disable and removal share their law: the operator rail runs whenever the target is in the tier.\<close>

lemma disable_covers:
  "assertDisableInvariantsTx db (tx_target r) = Return () \<Longrightarrow> active_operator r \<Longrightarrow>
     \<exists>s\<in>set db. active_operator s \<and> u_id s \<noteq> u_id r"
  by (rule assertNotLastOperator_covers) (auto simp: assertDisableInvariantsTx_def active_operator_def)

lemma removal_covers:
  "assertRemovalInvariantsTx db (tx_target r) = Return () \<Longrightarrow> active_operator r \<Longrightarrow>
     \<exists>s\<in>set db. active_operator s \<and> u_id s \<noteq> u_id r"
  by (rule assertNotLastOperator_covers) (auto simp: assertRemovalInvariantsTx_def active_operator_def)

interpretation disabling: covered_write assertDisableInvariantsTx deactivate
  by unfold_locales (simp_all add: disable_covers)

end
