(* ===== verification/Directory_Handlers.thy ===== *)
theory Directory_Handlers
  imports Role_Guard
begin

text \<open>
  The request handlers that change, disable or enable a person, each over the guard of
  \<open>Role_Guard\<close>: the role change of \<^verbatim>\<open>routes/people.ts\<close>, disable, enable and cancel-deletion of
  \<^verbatim>\<open>routes/auth.ts\<close>, the starting-point change of \<^verbatim>\<open>routes/access.ts\<close>, and the identity
  provider's writes of \<^verbatim>\<open>services/scim.service.ts\<close>.  A handler takes two directories: the snapshot
  its plain reads saw and the directory its transaction (or its single pinned write) runs on, which
  other requests may have changed in between.  It returns the directory it leaves, the log of its
  effects and its reply.
\<close>

section \<open>Replies\<close>

datatype reply =
    Ok_reply
  | Http nat
  | Refusal refusal_code
  | HandoverReply nat string
  | Next directory_error

fun reply_status :: "reply \<Rightarrow> nat option" where
  "reply_status Ok_reply = Some 200"
| "reply_status (Http n) = Some n"
| "reply_status (Refusal c) = Some (refusal_status c)"
| "reply_status (HandoverReply n _) = Some n"
| "reply_status (Next _) = None"

text \<open>The \<^verbatim>\<open>catch\<close> block the guarded routes share.\<close>

definition catchRefusals :: "directory_error \<Rightarrow> reply" where
  "catchRefusals e = (case e of
     Refused c \<Rightarrow> Refusal c
   | HandoverRefused n code \<Rightarrow> HandoverReply n code
   | _ \<Rightarrow> if isConcurrencyConflict e then Refusal CONCURRENT_MUTATION else Next e)"

type_synonym outcome = "directory \<times> effect list \<times> reply"

definition finished :: "directory \<Rightarrow> effects \<Rightarrow> outcome" where
  "finished db fx = (db, fst fx, case snd fx of None \<Rightarrow> Ok_reply | Some e \<Rightarrow> catchRefusals e)"

text \<open>A serializable transaction may lose a conflict; then nothing is applied.\<close>

definition serializable :: "bool \<Rightarrow> (directory \<Rightarrow> (directory_error, 'a) result) \<Rightarrow> directory
    \<Rightarrow> (directory_error, 'a) result" where
  "serializable aborts tx db = (if aborts then Throw P2034 else tx db)"

record request =
  rq_actor :: guard_actor
  rq_username :: "string option"
  rq_attr :: activity_actor

section \<open>PATCH /people/:id/role\<close>

definition patchRole ::
  "outside \<Rightarrow> bool \<Rightarrow> request \<Rightarrow> string \<Rightarrow> role option \<Rightarrow> directory \<Rightarrow> directory \<Rightarrow> outcome" where
  "patchRole w aborts rq i parsed snapshot db =
     (case assertNotSelf (ga_id (rq_actor rq)) i of Throw e \<Rightarrow> (db, [], catchRefusals e)
      | Return _ \<Rightarrow>
     (case parsed of None \<Rightarrow> (db, [], Http 400)
      | Some q \<Rightarrow>
     (case findUser snapshot i of None \<Rightarrow> (db, [], Http 404)
      | Some existing \<Rightarrow>
     (if u_role existing = q then (db, [], Ok_reply)
      else case seq (assertRoleChangeAllowed (rq_actor rq) (target_of existing) q)
             (serializable aborts
                (guardedWrite (\<lambda>db t. assertRoleChangeInvariantsTx db t q) pin_role (set_role q) i) db) of
        Throw e \<Rightarrow> (db, [], catchRefusals e)
      | Return db' \<Rightarrow> finished db'
          (runRoleChangePostEffects w existing (u_role existing) q (rq_username rq) (rq_attr rq) Devices_default)))))"

section \<open>Disable, enable and cancel-deletion\<close>

definition findDirectoryUserByHandle :: "directory \<Rightarrow> string \<Rightarrow> user_row option" where
  "findDirectoryUserByHandle db handle =
     (case find (\<lambda>r. u_nextcloud r = Some handle) db of
        Some r \<Rightarrow> Some r
      | None \<Rightarrow> find (\<lambda>r. u_username r = handle) db)"

text \<open>The best-effort Nextcloud enable flag: no account, synced, or failed and logged.\<close>

definition mirrorDisabled :: "outside \<Rightarrow> string option \<Rightarrow> effect list \<times> nc_mirror" where
  "mirrorDisabled w nc = (case nc of None \<Rightarrow> ([], Mirror_no_account)
     | Some n \<Rightarrow> ([NcSetEnabled n False], if o_nextcloud w then Mirror_synced else Mirror_failed))"

definition disableUser :: "outside \<Rightarrow> bool \<Rightarrow> request \<Rightarrow> string \<Rightarrow> directory \<Rightarrow> directory \<Rightarrow> outcome" where
  "disableUser w aborts rq handle snapshot db =
     (case findDirectoryUserByHandle snapshot handle of
        Some row \<Rightarrow>
          (case seq (assertDisableAllowed (rq_actor rq) (target_of row))
                 (serializable aborts (guardedWrite assertDisableInvariantsTx pin_role deactivate (u_id row)) db) of
             Throw e \<Rightarrow> (db, [], catchRefusals e)
           | Return db' \<Rightarrow>
               (let (ncLog, ncMirror) = mirrorDisabled w (u_nextcloud row);
                    (log, err) = runDisablePostEffects w (Some (u_id row)) handle (rq_attr rq) (Some ncMirror)
                                   (Devices_of (u_username row))
                in finished db' ([RevokeDeviceClients (u_username row) ''deactivation''] @ ncLog @ log, err)))
      | None \<Rightarrow>
          (if o_nextcloud w
           then (let (log, err) = runDisablePostEffects w None handle (rq_attr rq) (Some Mirror_synced) (Devices_of handle)
                 in finished db ([NcSetEnabled handle False] @ log, err))
           else (db, [NcSetEnabled handle False], Next NextcloudFailed)))"

definition activate :: "user_row \<Rightarrow> user_row" where
  "activate r = r\<lparr>u_status := ACTIVE\<rparr>"

definition reactivated_activity :: "request \<Rightarrow> string \<Rightarrow> string option \<Rightarrow> nc_mirror \<Rightarrow> effect" where
  "reactivated_activity rq handle i m =
     Activity \<lparr>a_kind = ''auth'', a_severity = ''ok'', a_icon = ''user-check'', a_what = ''User reactivated'',
       a_sub = handle,
       a_refs = [(''actor'', json_opt (rq_username rq)), (''username'', JStr handle),
          (''targetUserId'', json_opt i), (''ncMirror'', JStr (mirror_name m))],
       a_actor = rq_attr rq\<rparr>"

definition enableUser :: "outside \<Rightarrow> request \<Rightarrow> string \<Rightarrow> directory \<Rightarrow> directory \<Rightarrow> outcome" where
  "enableUser w rq handle snapshot db =
     (let row = findDirectoryUserByHandle snapshot handle;
          pinned = (\<lambda>i r. u_id r = i \<and> u_deletion r = NONE);
          refused = (case row of None \<Rightarrow> False | Some r \<Rightarrow> countWhere (pinned (u_id r)) db = 0);
          db' = (case row of None \<Rightarrow> db | Some r \<Rightarrow> updateWhere (pinned (u_id r)) activate db);
          ncUsername = (case row of None \<Rightarrow> Some handle | Some r \<Rightarrow> u_nextcloud r)
      in if refused then (db, [], Refusal DELETION_PENDING)
         else case ncUsername of
           None \<Rightarrow> (db', [reactivated_activity rq handle (map_option u_id row) Mirror_no_account], Ok_reply)
         | Some n \<Rightarrow>
             if o_nextcloud w
             then (db', [NcSetEnabled n True, reactivated_activity rq handle (map_option u_id row) Mirror_synced], Ok_reply)
             else (db', [NcSetEnabled n True], Next NextcloudFailed))"

definition clear_deletion :: "user_row \<Rightarrow> user_row" where
  "clear_deletion r = r\<lparr>u_deletion := NONE, u_due := None, u_requested_by := None\<rparr>"

definition cancelDeletion :: "request \<Rightarrow> string \<Rightarrow> directory \<Rightarrow> directory \<Rightarrow> outcome" where
  "cancelDeletion rq handle snapshot db =
     (case findDirectoryUserByHandle snapshot handle of None \<Rightarrow> (db, [], Http 404)
      | Some row \<Rightarrow>
          (let p = (\<lambda>r. u_id r = u_id row \<and> u_deletion r = PENDING)
           in if countWhere p db = 0 then (db, [], HandoverReply 409 ''NO_PENDING_DELETION'')
              else (updateWhere p clear_deletion db,
                    [Activity \<lparr>a_kind = ''auth'', a_severity = ''ok'', a_icon = ''user-check'',
                       a_what = ''User deletion cancelled'', a_sub = u_username row,
                       a_refs = [(''actor'', json_opt (rq_username rq)), (''targetUserId'', JStr (u_id row)),
                          (''targetUsername'', JStr (u_username row))],
                       a_actor = rq_attr rq\<rparr>],
                    Ok_reply)))"

section \<open>The starting-point change of an access role\<close>

text \<open>
  The member loop of \<^verbatim>\<open>PATCH /access/roles/:id\<close>, inside the one transaction: the members are read
  once, then each is checked by both groups of rails and written; the first refusal rolls the whole
  change back.
\<close>

fun retierMembers :: "guard_actor \<Rightarrow> role \<Rightarrow> user_row list \<Rightarrow> directory \<Rightarrow> (directory_error, directory) result" where
  "retierMembers actor next [] db = Return db"
| "retierMembers actor next (m # ms) db =
     seq (assertRoleChangeAllowed actor (target_of m) next)
    (seq (assertRoleChangeInvariantsTx db (tx_target m) next)
         (andThen (updateOne (\<lambda>r. u_id r = u_id m) (set_role next) db) (retierMembers actor next ms)))"

definition changeStartingPoint ::
  "guard_actor \<Rightarrow> string \<Rightarrow> role \<Rightarrow> directory \<Rightarrow> (directory_error, directory) result" where
  "changeStartingPoint actor roleId next db =
     retierMembers actor next (filter (\<lambda>r. u_access_role r = Some roleId) db) db"

section \<open>The identity provider\<close>

text \<open>An unknown id is \<^verbatim>\<open>null\<close> to the SCIM routes, which answer 404.\<close>

definition SCIM_ROLE_CEILING :: role where
  "SCIM_ROLE_CEILING = admin"

definition SCIM_ACTOR :: guard_actor where
  "SCIM_ACTOR = \<lparr>ga_id = None, ga_role = Some SCIM_ROLE_CEILING\<rparr>"

definition SCIM_AUDIT_ACTOR :: "string option" where
  "SCIM_AUDIT_ACTOR = Some ''scim:okta''"

definition SYSTEM_ACTOR :: activity_actor where
  "SYSTEM_ACTOR = (''system'', None)"

definition deactivateUser :: "outside \<Rightarrow> bool \<Rightarrow> string \<Rightarrow> directory \<Rightarrow> directory \<Rightarrow> outcome" where
  "deactivateUser w aborts i snapshot db =
     (case findUser snapshot i of None \<Rightarrow> (db, [], Http 404)
      | Some existing \<Rightarrow>
          (case seq (assertDisableAllowed SCIM_ACTOR (target_of existing))
                 (serializable aborts (guardedWrite assertDisableInvariantsTx pin_status deactivate i) db) of
             Throw e \<Rightarrow> (db, [], catchRefusals e)
           | Return db' \<Rightarrow> finished db'
               (runDisablePostEffects w (Some (u_id existing)) (u_username existing) SYSTEM_ACTOR None
                  (Devices_of (u_username existing)))))"

definition reactivateUser :: "string \<Rightarrow> directory \<Rightarrow> directory \<Rightarrow> outcome" where
  "reactivateUser i snapshot db =
     (case findUser snapshot i of None \<Rightarrow> (db, [], Http 404)
      | Some existing \<Rightarrow>
          if u_status existing = ACTIVE then (db, [], Ok_reply)
          else if admin_tier (u_role existing) then (db, [], Refusal ROLE_RANK_EXCEEDED)
          else (let p = (\<lambda>r. u_id r = i \<and> u_role r = u_role existing \<and> u_status r = u_status existing
                            \<and> u_deletion r = NONE)
                in if countWhere p db = 0
                   then (db, [], Refusal (if u_deletion existing = NONE then CONCURRENT_MUTATION else DELETION_PENDING))
                   else (updateWhere p activate db, [], Ok_reply)))"

definition setUserActive :: "outside \<Rightarrow> bool \<Rightarrow> string \<Rightarrow> bool \<Rightarrow> directory \<Rightarrow> directory \<Rightarrow> outcome" where
  "setUserActive w aborts i active snapshot db =
     (if active then reactivateUser i snapshot db else deactivateUser w aborts i snapshot db)"

text \<open>\<open>ROLE_PRIVILEGE\<close> has no entry for \<open>service\<close>.\<close>

fun ROLE_PRIVILEGE :: "role \<Rightarrow> int option" where
  "ROLE_PRIVILEGE service = None"
| "ROLE_PRIVILEGE guest = Some 0"
| "ROLE_PRIVILEGE family = Some 1"
| "ROLE_PRIVILEGE admin = Some 2"
| "ROLE_PRIVILEGE owner = Some 3"

definition DEFAULT_DIRECTORY_ROLE :: role where
  "DEFAULT_DIRECTORY_ROLE = family"

text \<open>The group rows' \<^verbatim>\<open>mappedRole\<close> is a directory role, so never \<open>service\<close>.\<close>

definition privilege :: "role \<Rightarrow> int" where
  "privilege r = (case ROLE_PRIVILEGE r of None \<Rightarrow> -1 | Some n \<Rightarrow> n)"

fun highest_from :: "role \<Rightarrow> role list \<Rightarrow> role" where
  "highest_from best [] = best"
| "highest_from best (r # rs) = highest_from (if privilege r > privilege best then r else best) rs"

definition highestRole :: "role list \<Rightarrow> role" where
  "highestRole rs = highest_from DEFAULT_DIRECTORY_ROLE rs"

definition outranksCurrent :: "role \<Rightarrow> role \<Rightarrow> bool" where
  "outranksCurrent target current \<longleftrightarrow>
     privilege target > (case ROLE_PRIVILEGE current of None \<Rightarrow> privilege family | Some n \<Rightarrow> n)"

definition writeScimRole ::
  "outside \<Rightarrow> bool \<Rightarrow> string \<Rightarrow> role \<Rightarrow> (role \<Rightarrow> bool) \<Rightarrow> directory \<Rightarrow> directory \<Rightarrow> outcome" where
  "writeScimRole w aborts i target applies snapshot db =
     (case findUser snapshot i of None \<Rightarrow> (db, [], Ok_reply)
      | Some user \<Rightarrow>
          if \<not> applies (u_role user) then (db, [], Ok_reply)
          else (case seq (assertRoleChangeAllowed SCIM_ACTOR (target_of user) target)
                  (serializable aborts (\<lambda>db. case readGuardTargetTx db i of
                       None \<Rightarrow> Throw (Refused CONCURRENT_MUTATION)
                     | Some fresh \<Rightarrow> if \<not> applies (gt_role fresh) then Return None
                         else map_sum id Some
                           (guardedWrite (\<lambda>db t. assertRoleChangeInvariantsTx db t target) pin_role (set_role target) i db)) db) of
                  Throw e \<Rightarrow> (db, [], catchRefusals e)
                | Return None \<Rightarrow> (db, [], Ok_reply)
                | Return (Some db') \<Rightarrow> finished db'
                    (runRoleChangePostEffects w user (u_role user) target SCIM_AUDIT_ACTOR SYSTEM_ACTOR Devices_default)))"

definition raiseUserRoleTo ::
  "outside \<Rightarrow> bool \<Rightarrow> string \<Rightarrow> role \<Rightarrow> directory \<Rightarrow> directory \<Rightarrow> outcome" where
  "raiseUserRoleTo w aborts i target = writeScimRole w aborts i target (outranksCurrent target)"

text \<open>
  \<open>remaining\<close> are the mapped roles of the groups the person still belongs to, and \<open>first\<close> is the
  directory its own first read saw, before the read \<open>writeScimRole\<close> makes.
\<close>

definition lowerRoleAfterRemoval ::
  "outside \<Rightarrow> bool \<Rightarrow> string \<Rightarrow> role \<Rightarrow> role list \<Rightarrow> directory \<Rightarrow> directory \<Rightarrow> directory \<Rightarrow> outcome" where
  "lowerRoleAfterRemoval w aborts i removedGroupRole remaining first snapshot db =
     (case findUser first i of None \<Rightarrow> (db, [], Ok_reply)
      | Some user \<Rightarrow>
          if \<not> u_scim user then (db, [], Ok_reply)
          else let target = highestRole remaining in
            writeScimRole w aborts i target
              (\<lambda>current. case ROLE_PRIVILEGE current of None \<Rightarrow> False
                 | Some rank \<Rightarrow> rank > privilege target \<and> rank \<le> privilege removedGroupRole) snapshot db)"

end
