(* ===== verification/Leaver_Deletion.thy ===== *)
theory Leaver_Deletion
  imports Directory_Handlers
begin

text \<open>
  The removal of a person, \<^verbatim>\<open>apps/orchestrator/src/services/leaver-deletion.service.ts\<close>: scheduling
  (deactivate now, purge after thirty days), completing a claimed deletion, the nightly purge, the
  hand-over of files with its claim, release and revoke, and the sweep of stale hand-over claims.
  The hand-over is split where it leaves the database alone for a while, so that other requests can
  run between its claim and its revoke; \<open>handOverAndDeleteUser\<close> is the whole of it.
\<close>

definition RETENTION_DAYS :: int where
  "RETENTION_DAYS = 30"

definition deletionDueAt :: "int \<Rightarrow> int" where
  "deletionDueAt now = now + RETENTION_DAYS * 24 * 60 * 60 * 1000"

definition HANDOVER_STALE_MS :: int where
  "HANDOVER_STALE_MS = 15 * 60 * 1000"

section \<open>Scheduling\<close>

definition schedule_change :: "int \<Rightarrow> string option \<Rightarrow> user_row \<Rightarrow> user_row" where
  "schedule_change due by r =
     r\<lparr>u_status := DEACTIVATED, u_deletion := PENDING, u_due := Some due, u_requested_by := by\<rparr>"

definition pin_role_none :: "guard_tx_target \<Rightarrow> user_row \<Rightarrow> bool" where
  "pin_role_none fresh r \<longleftrightarrow> u_role r = gt_role fresh \<and> u_deletion r = NONE"

definition scheduled_activity ::
  "request \<Rightarrow> user_row \<Rightarrow> (int \<Rightarrow> string) \<Rightarrow> int \<Rightarrow> string \<Rightarrow> bool \<Rightarrow> nc_mirror \<Rightarrow> (nat \<times> nat) option \<Rightarrow> effect" where
  "scheduled_activity rq t toISO due disposition defaulted m vpn =
     Activity \<lparr>a_kind = ''auth'', a_severity = ''warn'', a_icon = ''user-x'', a_what = ''User deletion scheduled'',
       a_sub = u_username t @ '' '' @ [char_of (194::nat), char_of (183::nat)] @ '' files kept until '' @ take 10 (toISO due),
       a_refs = [(''actor'', json_opt (rq_username rq)), (''targetUserId'', JStr (u_id t)),
          (''targetUsername'', JStr (u_username t)), (''role'', JStr (role_name (u_role t))),
          (''disposition'', JStr disposition), (''dispositionDefaulted'', JBool defaulted)]
          @ (if defaulted then [(''dispositionNote'', JStr ''disposition defaulted: retention (client sent none)'')] else [])
          @ [(''deletionDueAt'', JStr (toISO due)), (''ncMirror'', JStr (mirror_name m))] @ vpn_refs vpn,
       a_actor = rq_attr rq\<rparr>"

text \<open>
  \<open>target\<close> is the row the route read; \<open>toISO\<close> is \<^verbatim>\<open>Date.prototype.toISOString\<close> on the due date.
  When the shared disable effects throw, the statements after them do not run.
\<close>

definition scheduleUserDeletion ::
  "outside \<Rightarrow> bool \<Rightarrow> (int \<Rightarrow> string) \<Rightarrow> int \<Rightarrow> request \<Rightarrow> string \<Rightarrow> bool \<Rightarrow> user_row \<Rightarrow> directory \<Rightarrow> outcome" where
  "scheduleUserDeletion w aborts toISO now rq disposition defaulted target db =
     (if u_deletion target = PENDING \<or> u_deletion target = PURGING then (db, [], Ok_reply)
      else if u_deletion target = HANDING_OVER then (db, [], HandoverReply 409 ''HANDOVER_IN_PROGRESS'')
      else case seq (assertRemovalAllowed (rq_actor rq) (target_of target))
             (serializable aborts (guardedWrite assertRemovalInvariantsTx pin_role_none
                (schedule_change (deletionDueAt now) (rq_username rq)) (u_id target)) db) of
        Throw e \<Rightarrow> (db, [], catchRefusals e)
      | Return db' \<Rightarrow>
          (let (ncLog, ncMirror) = mirrorDisabled w (u_nextcloud target);
               (log, err) = runDisablePostEffects w (Some (u_id target)) (u_username target) (rq_attr rq)
                              (Some ncMirror) Devices_null;
               before = [RevokeDeviceClients (u_username target) ''removal''] @ ncLog @ log
           in case err of Some e \<Rightarrow> (db', before, catchRefusals e)
              | None \<Rightarrow> (db', before @ [Denylist (u_id target) ACCESS_TOKEN_TTL_SECONDS,
                    RevokeOverlayDevices (u_username target) ''removal'',
                    scheduled_activity rq target toISO (deletionDueAt now) disposition defaulted ncMirror
                      (o_overlay w (u_username target))], Ok_reply)))"

section \<open>Completing a deletion\<close>

definition claimed_for_purge :: "string \<Rightarrow> user_row \<Rightarrow> bool" where
  "claimed_for_purge i r \<longleftrightarrow> u_id r = i \<and> u_status r = DEACTIVATED \<and> u_deletion r = PURGING"

text \<open>
  \<open>counts\<close> are the counts the purge of owned data and of department shares report.  The nudge that
  makes the mail indexer rescan is left out.
\<close>

definition completeUserDeletion ::
  "outside \<Rightarrow> (string \<times> json) list \<Rightarrow> activity_actor \<Rightarrow> string option \<Rightarrow> user_row \<Rightarrow> directory \<Rightarrow> outcome" where
  "completeUserDeletion w counts actor actorUsername row db =
     (let ncLog = (case u_nextcloud row of None \<Rightarrow> [] | Some n \<Rightarrow> [NcDeleteUser n]);
          before = [RevokeDeviceClients (u_username row) ''removal''] @ ncLog
      in if ncLog \<noteq> [] \<and> \<not> o_nextcloud w then (db, before, Next NextcloudFailed)
         else let removed = countWhere (claimed_for_purge (u_id row)) db > 0;
                  db' = filter (\<lambda>r. \<not> claimed_for_purge (u_id row) r) db;
                  inTx = (if removed then [PurgeUsernameKeyedData (u_username row), PurgeLeaverOwnedData (u_id row)] else []);
                  afterTx = (if removed then [PurgeM365 (u_id row), RevokeDepartmentShares (u_id row)] else []);
                  (log, err) = runRemovalPostEffects w (Some (u_id row)) (u_username row) (Some (u_role row))
                                 actorUsername actor Devices_default (if removed then counts else [])
              in finished db' (before @ [PurgeUserData (u_id row)] @ inTx @ afterTx @ log, err))"

section \<open>The nightly purge\<close>

definition purge_due :: "int \<Rightarrow> user_row \<Rightarrow> bool" where
  "purge_due now r \<longleftrightarrow> u_status r = DEACTIVATED \<and>
     ((u_deletion r = PENDING \<and> (case u_due r of None \<Rightarrow> False | Some d \<Rightarrow> d \<le> now))
    \<or> (u_deletion r = PURGING \<and> (case u_claimed_at r of None \<Rightarrow> False | Some c \<Rightarrow> c \<le> now - HANDOVER_STALE_MS)))"

definition claim_purge :: "int \<Rightarrow> user_row \<Rightarrow> user_row" where
  "claim_purge t r = r\<lparr>u_deletion := PURGING, u_claimed_at := Some t\<rparr>"

definition purgeClaim :: "int \<Rightarrow> int \<Rightarrow> string \<Rightarrow> directory \<Rightarrow> directory" where
  "purgeClaim now t i db = updateWhere (\<lambda>r. u_id r = i \<and> purge_due now r) (claim_purge t) db"

text \<open>One round over the rows found due: claimed again under the same condition, then completed.\<close>

fun purgeRows ::
  "outside \<Rightarrow> (string \<Rightarrow> (string \<times> json) list) \<Rightarrow> int \<Rightarrow> user_row list \<Rightarrow> directory \<Rightarrow> directory \<times> effect list \<times> nat \<times> nat" where
  "purgeRows w counts now [] db = (db, [], 0, 0)"
| "purgeRows w counts now (row # rows) db =
     (if countWhere (\<lambda>r. u_id r = u_id row \<and> purge_due now r) db = 0 then purgeRows w counts now rows db
      else let (db1, log1, rep) = completeUserDeletion w (counts (u_id row)) SYSTEM_ACTOR (u_requested_by row) row
                                    (purgeClaim now now (u_id row) db);
               (db2, log2, completed, failed) = purgeRows w counts now rows db1
           in (db2, log1 @ log2, if rep = Ok_reply then completed + 1 else completed,
               if rep = Ok_reply then failed else failed + 1))"

definition purgeDueDeletions ::
  "outside \<Rightarrow> (string \<Rightarrow> (string \<times> json) list) \<Rightarrow> int \<Rightarrow> directory \<Rightarrow> directory \<times> effect list \<times> nat \<times> nat" where
  "purgeDueDeletions w counts now db = purgeRows w counts now (filter (purge_due now) db) db"

section \<open>The hand-over\<close>

definition HANDOVER_RECIPIENT_ROLES :: "role list" where
  "HANDOVER_RECIPIENT_ROLES = [owner, admin, family]"

definition clear_claim :: "user_row \<Rightarrow> user_row" where
  "clear_claim r = r\<lparr>u_claimed_at := None, u_prior := None, u_recipient := None\<rparr>"

text \<open>Every check that can refuse before the claim, giving the recipient and both file accounts.\<close>

definition handOverChecks ::
  "guard_actor \<Rightarrow> user_row \<Rightarrow> string option \<Rightarrow> directory \<Rightarrow> (directory_error, user_row \<times> string \<times> string) result" where
  "handOverChecks actor target recipientId snapshot =
     (if recipientId = None \<or> recipientId = Some [] then Throw (HandoverRefused 400 ''RECIPIENT_REQUIRED'')
      else if u_deletion target \<noteq> NONE \<and> u_deletion target \<noteq> PENDING
        then Throw (HandoverRefused 409 ''DELETION_IN_PROGRESS'')
      else seq (assertRemovalAllowed actor (target_of target))
        (case findUser snapshot (the recipientId) of
           None \<Rightarrow> Throw (HandoverRefused 400 ''RECIPIENT_UNKNOWN'')
         | Some recipient \<Rightarrow>
             if u_id recipient = u_id target then Throw (HandoverRefused 400 ''RECIPIENT_IS_LEAVER'')
             else if u_status recipient \<noteq> ACTIVE \<or> u_deletion recipient \<noteq> NONE
               then Throw (HandoverRefused 400 ''RECIPIENT_NOT_ACTIVE'')
             else if u_role recipient \<notin> set HANDOVER_RECIPIENT_ROLES then Throw (HandoverRefused 400 ''RECIPIENT_ROLE'')
             else case u_nextcloud target of None \<Rightarrow> Throw (HandoverRefused 409 ''NO_FILES_ACCOUNT'')
               | Some from \<Rightarrow>
                   (case u_nextcloud recipient of None \<Rightarrow> Throw (HandoverRefused 409 ''RECIPIENT_NO_FILES_ACCOUNT'')
                    | Some to \<Rightarrow> Return (recipient, from, to))))"

definition claim_change :: "int \<Rightarrow> deletion_status \<Rightarrow> string \<Rightarrow> user_row \<Rightarrow> user_row" where
  "claim_change t prior recipient r =
     r\<lparr>u_deletion := HANDING_OVER, u_claimed_at := Some t, u_prior := Some prior, u_recipient := Some recipient\<rparr>"

text \<open>The claim's own \<^verbatim>\<open>P2025\<close> is answered as a hand-over already running.\<close>

definition handOverClaim ::
  "int \<Rightarrow> user_row \<Rightarrow> user_row \<Rightarrow> directory \<Rightarrow> (directory_error, directory) result" where
  "handOverClaim t target recipient db =
     (case guardedWrite assertRemovalInvariantsTx (\<lambda>_ r. u_deletion r = u_deletion target)
             (claim_change t (u_deletion target) (u_id recipient)) (u_id target) db of
        Throw P2025 \<Rightarrow> Throw (HandoverRefused 409 ''HANDOVER_IN_PROGRESS'')
      | r \<Rightarrow> r)"

definition holds_claim :: "string \<Rightarrow> int \<Rightarrow> user_row \<Rightarrow> bool" where
  "holds_claim i t r \<longleftrightarrow> u_id r = i \<and> u_deletion r = HANDING_OVER \<and> u_claimed_at r = Some t"

text \<open>\<^verbatim>\<open>releaseClaim\<close> never throws: a write that matches no row is caught and logged.\<close>

definition releaseClaim :: "int \<Rightarrow> user_row \<Rightarrow> directory \<Rightarrow> directory" where
  "releaseClaim t target db =
     updateWhere (holds_claim (u_id target) t) (\<lambda>r. (clear_claim r)\<lparr>u_deletion := u_deletion target\<rparr>) db"

definition purging_change :: "int \<Rightarrow> string option \<Rightarrow> user_row \<Rightarrow> user_row" where
  "purging_change t by r = (clear_claim r)\<lparr>u_status := DEACTIVATED, u_deletion := PURGING,
     u_requested_by := by, u_claimed_at := Some t\<rparr>"

definition handOverRevoke ::
  "int \<Rightarrow> int \<Rightarrow> string option \<Rightarrow> user_row \<Rightarrow> directory \<Rightarrow> (directory_error, directory) result" where
  "handOverRevoke t now by target db =
     guardedWrite assertRemovalInvariantsTx
       (\<lambda>fresh r. u_role r = gt_role fresh \<and> u_deletion r = HANDING_OVER \<and> u_claimed_at r = Some t)
       (purging_change now by) (u_id target) db"

text \<open>How the transfer on the host ends: the folder created, a refusal, or a failure that may be partial.\<close>

datatype transfer_result = Transferred "string option" | TransferRefused nat string | TransferFailed bool string

definition handover_activity :: "request \<Rightarrow> user_row \<Rightarrow> user_row \<Rightarrow> string \<Rightarrow> string \<Rightarrow> (string \<times> json) list \<Rightarrow> effect" where
  "handover_activity rq target recipient severity what refs =
     Activity \<lparr>a_kind = ''auth'', a_severity = severity, a_icon = ''user-x'', a_what = what,
       a_sub = u_username target @ arrow @ u_username recipient,
       a_refs = [(''actor'', json_opt (rq_username rq)), (''targetUserId'', JStr (u_id target)),
          (''targetUsername'', JStr (u_username target)), (''recipientUserId'', JStr (u_id recipient)),
          (''recipientUsername'', JStr (u_username recipient))] @ refs,
       a_actor = rq_attr rq\<rparr>"

text \<open>
  The whole hand-over.  \<open>meanwhile\<close> and \<open>later\<close> are what other requests do to the directory during
  the transfer and between the revoke and the completion; \<open>aborts1\<close> and \<open>aborts2\<close> are lost
  conflicts of its two transactions.
\<close>

definition handOverAndDeleteUser ::
  "outside \<Rightarrow> (string \<times> json) list \<Rightarrow> bool \<Rightarrow> bool \<Rightarrow> (directory \<Rightarrow> directory) \<Rightarrow> (directory \<Rightarrow> directory) \<Rightarrow> int \<Rightarrow> int
     \<Rightarrow> transfer_result \<Rightarrow> request \<Rightarrow> user_row \<Rightarrow> string option \<Rightarrow> directory \<Rightarrow> directory \<Rightarrow> outcome" where
  "handOverAndDeleteUser w counts aborts1 aborts2 meanwhile later claimedAt now transfer rq target recipientId snapshot db =
     (case handOverChecks (rq_actor rq) target recipientId snapshot of
        Throw e \<Rightarrow> (db, [], catchRefusals e)
      | Return (recipient, from, to) \<Rightarrow>
     (case serializable aborts1 (handOverClaim claimedAt target recipient) db of
        Throw e \<Rightarrow> (db, [], catchRefusals e)
      | Return db1 \<Rightarrow>
     (case transfer of
        TransferRefused n code \<Rightarrow> (releaseClaim claimedAt target (meanwhile db1), [NcTransfer from to], HandoverReply n code)
      | TransferFailed mayBePartial reason \<Rightarrow>
          (releaseClaim claimedAt target (meanwhile db1),
           [NcTransfer from to,
            handover_activity rq target recipient (if mayBePartial then ''err'' else ''warn'')
              (if mayBePartial then ''File hand-over failed, may be partial'' else ''File hand-over refused'')
              [(''reason'', JStr reason), (''mayBePartial'', JBool mayBePartial)]],
           HandoverReply 502 (if mayBePartial then ''HANDOVER_INCOMPLETE'' else ''HANDOVER_FAILED''))
      | Transferred folder \<Rightarrow>
          (let log1 = [NcTransfer from to, handover_activity rq target recipient ''warn'' ''Files handed over''
                         [(''folder'', json_opt folder), (''disposition'', JStr ''handover'')]]
           in case serializable aborts2 (handOverRevoke claimedAt now (rq_username rq) target) (meanwhile db1) of
                Throw e \<Rightarrow> (releaseClaim claimedAt target (meanwhile db1), log1, catchRefusals e)
              | Return db2 \<Rightarrow>
                  (let (db3, log3, rep) = completeUserDeletion w counts (rq_attr rq) (rq_username rq) target (later db2)
                   in if rep = Ok_reply then (db3, log1 @ log3, Ok_reply)
                      else (db3, log1 @ log3 @ fst (runDisablePostEffects w (Some (u_id target)) (u_username target)
                              (rq_attr rq) (Some Mirror_failed) Devices_default)
                            @ [Denylist (u_id target) ACCESS_TOKEN_TTL_SECONDS], Ok_reply))))))"

section \<open>Stale hand-over claims\<close>

definition stale_claim :: "int \<Rightarrow> user_row \<Rightarrow> bool" where
  "stale_claim now r \<longleftrightarrow> u_deletion r = HANDING_OVER \<and>
     (case u_claimed_at r of None \<Rightarrow> False | Some c \<Rightarrow> c \<le> now - HANDOVER_STALE_MS)"

definition restored_status :: "user_row \<Rightarrow> deletion_status" where
  "restored_status r = (if u_prior r = Some PENDING then PENDING else NONE)"

text \<open>The release of one claim found stale, pinned to the claim time that was read.\<close>

definition releaseStale :: "user_row \<Rightarrow> directory \<Rightarrow> directory" where
  "releaseStale row db =
     updateWhere (\<lambda>r. u_id r = u_id row \<and> u_deletion r = HANDING_OVER \<and> u_claimed_at r = u_claimed_at row)
       (\<lambda>r. (clear_claim r)\<lparr>u_deletion := restored_status row\<rparr>) db"

definition releaseStaleHandovers :: "int \<Rightarrow> directory \<Rightarrow> directory" where
  "releaseStaleHandovers now db = fold releaseStale (filter (stale_claim now) db) db"

end
