(* ===== verification/Directory_Run.thy ===== *)
theory Directory_Run
  imports Leaver_Deletion
begin

text \<open>
  The directory under every interleaving of the handlers.  A run is the list of the directories it
  went through; a request may decide on any of them (its reads can be arbitrarily old) while its
  transaction or pinned write runs on the newest.  The theorems say that the box keeps an active
  operator, that the owner's row is out of reach, and that a purge cannot be undone half way.
\<close>

section \<open>What every step keeps\<close>

definition kept :: "directory \<Rightarrow> directory \<Rightarrow> bool" where
  "kept db db' \<longleftrightarrow> (wf_directory db \<longrightarrow> wf_directory db') \<and> (wf_directory db \<and> manageable db \<longrightarrow> manageable db')"

lemma kept_refl [simp, intro]: "kept db db"
  by (simp add: kept_def)

lemma kept_trans: "kept a b \<Longrightarrow> kept b c \<Longrightarrow> kept a c"
  by (simp add: kept_def)

lemma kept_update:
  assumes "\<And>r. u_id (f r) = u_id r" "\<And>r. p r \<Longrightarrow> active_operator r \<Longrightarrow> active_operator (f r)"
  shows "kept db (updateWhere p f db)"
proof -
  have "manageable (updateWhere p f db)" if some: "manageable db"
  proof -
    obtain r where r: "r \<in> set db" "active_operator r" using some by (auto simp: manageable_def)
    then have "active_operator (if p r then f r else r)" using assms(2) by simp
    with r(1) show ?thesis unfolding manageable_def set_updateWhere by blast
  qed
  with assms(1) show ?thesis by (simp add: kept_def)
qed

context covered_write
begin

lemma guarded_kept: "guardedWrite check pin change i db = Return db' \<Longrightarrow> kept db db'"
  using wf_kept manageable_kept by (auto simp: kept_def)

end

interpretation scheduling: covered_write assertRemovalInvariantsTx "schedule_change due by_whom"
  by unfold_locales (simp_all add: removal_covers schedule_change_def)

interpretation claiming: covered_write assertRemovalInvariantsTx "claim_change t prior recipient"
  by unfold_locales (simp_all add: removal_covers claim_change_def)

interpretation purging: covered_write assertRemovalInvariantsTx "purging_change t by_whom"
  by unfold_locales (simp_all add: removal_covers purging_change_def clear_claim_def)

lemma updates_keep [simp]:
  "u_id (activate r) = u_id r" "u_role (activate r) = u_role r" "u_status (activate r) = ACTIVE"
  "u_deletion (activate r) = u_deletion r"
  "u_id (clear_deletion r) = u_id r" "u_role (clear_deletion r) = u_role r" "u_status (clear_deletion r) = u_status r"
  "u_id (clear_claim r) = u_id r" "u_role (clear_claim r) = u_role r" "u_status (clear_claim r) = u_status r"
  "u_id (claim_purge t r) = u_id r" "u_role (claim_purge t r) = u_role r" "u_status (claim_purge t r) = u_status r"
  by (simp_all add: activate_def clear_deletion_def clear_claim_def claim_purge_def)

lemma serializable_Return [simp]: "serializable aborts tx db = Return x \<longleftrightarrow> \<not> aborts \<and> tx db = Return x"
  by (simp add: serializable_def)

lemma finished_fst [simp]: "fst (finished db fx) = db"
  by (simp add: finished_def)

lemma fst_result_case: "fst (case x of Inl e \<Rightarrow> f e | Inr y \<Rightarrow> g y) = (case x of Inl e \<Rightarrow> fst (f e) | Inr y \<Rightarrow> fst (g y))"
  by (simp split: sum.split)

section \<open>The directory each handler leaves\<close>

lemma patchRole_dir:
  "fst (patchRole w aborts rq i parsed snapshot db) = db' \<Longrightarrow> db' = db \<or>
     (\<exists>q existing. parsed = Some q \<and> findUser snapshot i = Some existing \<and> u_role existing \<noteq> q
        \<and> assertRoleChangeAllowed (rq_actor rq) (target_of existing) q = Return ()
        \<and> guardedWrite (\<lambda>db t. assertRoleChangeInvariantsTx db t q) pin_role (set_role q) i db = Return db')"
  by (auto simp: patchRole_def fst_result_case split: option.splits sum.splits if_splits)

lemma disableUser_dir:
  "fst (disableUser w aborts rq handle snapshot db) = db' \<Longrightarrow> db' = db \<or>
     (\<exists>row. findDirectoryUserByHandle snapshot handle = Some row
        \<and> assertDisableAllowed (rq_actor rq) (target_of row) = Return ()
        \<and> guardedWrite assertDisableInvariantsTx pin_role deactivate (u_id row) db = Return db')"
  by (auto simp: disableUser_def split: option.splits sum.splits if_splits prod.splits)

lemma deactivateUser_dir:
  "fst (deactivateUser w aborts i snapshot db) = db' \<Longrightarrow> db' = db \<or>
     (\<exists>row. findUser snapshot i = Some row \<and> assertDisableAllowed SCIM_ACTOR (target_of row) = Return ()
        \<and> guardedWrite assertDisableInvariantsTx pin_status deactivate i db = Return db')"
  by (auto simp: deactivateUser_def split: option.splits sum.splits)

lemma writeScimRole_dir:
  "fst (writeScimRole w aborts i q applies snapshot db) = db' \<Longrightarrow> db' = db \<or>
     (\<exists>row. findUser snapshot i = Some row \<and> assertRoleChangeAllowed SCIM_ACTOR (target_of row) q = Return ()
        \<and> guardedWrite (\<lambda>db t. assertRoleChangeInvariantsTx db t q) pin_role (set_role q) i db = Return db')"
  by (auto simp: writeScimRole_def split: option.splits sum.splits if_splits)
     (auto simp: map_sum_def split: sum.splits)

lemma scheduleUserDeletion_dir:
  "fst (scheduleUserDeletion w aborts toISO now rq disp dft target db) = db' \<Longrightarrow> db' = db \<or>
     (assertRemovalAllowed (rq_actor rq) (target_of target) = Return ()
        \<and> guardedWrite assertRemovalInvariantsTx pin_role_none
            (schedule_change (deletionDueAt now) (rq_username rq)) (u_id target) db = Return db')"
  by (auto simp: scheduleUserDeletion_def Let_def split: option.splits sum.splits if_splits prod.splits)

lemma completeUserDeletion_dir:
  "fst (completeUserDeletion w counts actor actorUsername row db) = db \<or>
   fst (completeUserDeletion w counts actor actorUsername row db) =
     filter (\<lambda>r. \<not> claimed_for_purge (u_id row) r) db"
  by (simp add: completeUserDeletion_def Let_def split: prod.splits)

lemma enableUser_dir:
  "fst (enableUser w rq handle snapshot db) = db \<or>
   (\<exists>i. fst (enableUser w rq handle snapshot db) = updateWhere (\<lambda>r. u_id r = i \<and> u_deletion r = NONE) activate db)"
  by (auto simp: enableUser_def Let_def split: option.splits)

lemma cancelDeletion_dir:
  "fst (cancelDeletion rq handle snapshot db) = db \<or>
   (\<exists>i. fst (cancelDeletion rq handle snapshot db) = updateWhere (\<lambda>r. u_id r = i \<and> u_deletion r = PENDING) clear_deletion db)"
  by (auto simp: cancelDeletion_def Let_def split: option.splits)

lemma reactivateUser_dir:
  "fst (reactivateUser i snapshot db) = db' \<Longrightarrow> db' = db \<or>
   (\<exists>row::user_row. \<not> admin_tier (u_role row) \<and>
      db' = updateWhere (\<lambda>r. u_id r = i \<and> u_role r = u_role row \<and> u_status r = u_status row \<and> u_deletion r = NONE) activate db)"
  by (auto simp: reactivateUser_def Let_def split: option.splits if_splits)

section \<open>One step and a run\<close>

inductive request_step :: "directory set \<Rightarrow> directory \<Rightarrow> directory \<Rightarrow> bool" where
  role_patched: "snap \<in> S \<Longrightarrow> request_step S db (fst (patchRole w aborts rq i parsed snap db))"
| disabled: "snap \<in> S \<Longrightarrow> request_step S db (fst (disableUser w aborts rq handle snap db))"
| enabled: "snap \<in> S \<Longrightarrow> request_step S db (fst (enableUser w rq handle snap db))"
| cancelled: "snap \<in> S \<Longrightarrow> request_step S db (fst (cancelDeletion rq handle snap db))"
| starting_point: "changeStartingPoint actor roleId q db = Return db' \<Longrightarrow> request_step S db db'"
| scim_active: "snap \<in> S \<Longrightarrow> request_step S db (fst (setUserActive w aborts i active snap db))"
| scim_raised: "snap \<in> S \<Longrightarrow> request_step S db (fst (raiseUserRoleTo w aborts i q snap db))"
| scim_lowered: "first \<in> S \<Longrightarrow> snap \<in> S \<Longrightarrow>
    request_step S db (fst (lowerRoleAfterRemoval w aborts i removed remaining first snap db))"
| scheduled: "snap \<in> S \<Longrightarrow> target \<in> set snap \<Longrightarrow>
    request_step S db (fst (scheduleUserDeletion w aborts toISO now rq disp dft target db))"
| purge_claimed: "request_step S db (purgeClaim now t i db)"
| completed: "request_step S db (fst (completeUserDeletion w counts actor actorUsername row db))"
| handover_claimed: "snap \<in> S \<Longrightarrow> snap2 \<in> S \<Longrightarrow> target \<in> set snap \<Longrightarrow>
    handOverChecks requester target recipientId snap2 = Return (recipient, from_nc, to_nc) \<Longrightarrow>
    handOverClaim t target recipient db = Return db' \<Longrightarrow> request_step S db db'"
| handover_released: "u_deletion target \<in> {NONE, PENDING} \<Longrightarrow> request_step S db (releaseClaim t target db)"
| handover_revoked: "handOverRevoke t now by_whom target db = Return db' \<Longrightarrow> request_step S db db'"
| stale_released: "request_step S db (releaseStale row db)"
| joined: "assertAssignableForCreate actorRole (u_role row) = Return () \<Longrightarrow> findUser db (u_id row) = None \<Longrightarrow>
    request_step S db (db @ [row])"

inductive directory_run :: "directory \<Rightarrow> directory list \<Rightarrow> bool" where
  started: "directory_run db0 [db0]"
| stepped: "directory_run db0 (db # past) \<Longrightarrow> request_step (set (db # past)) db db' \<Longrightarrow>
    directory_run db0 (db' # db # past)"

section \<open>The box stays manageable\<close>

lemma others_survive:
  assumes "u_id m \<notin> u_id ` set ms" "set ms \<subseteq> set db"
  shows "set ms \<subseteq> set (updateWhere (\<lambda>r. u_id r = u_id m) f db)"
proof
  fix s assume s: "s \<in> set ms"
  then have "u_id s \<noteq> u_id m" "s \<in> set db" using assms by (metis image_eqI, blast)
  then show "s \<in> set (updateWhere (\<lambda>r. u_id r = u_id m) f db)" by (force simp: set_updateWhere)
qed

lemma retierMembers_kept:
  "retierMembers actor q ms db = Return db' \<Longrightarrow> wf_directory db \<Longrightarrow> distinct (map u_id ms) \<Longrightarrow> set ms \<subseteq> set db \<Longrightarrow>
     wf_directory db' \<and> (manageable db \<longrightarrow> manageable db')"
proof (induction ms arbitrary: db)
  case (Cons m ms)
  define db1 where "db1 = updateWhere (\<lambda>r. u_id r = u_id m) (set_role q) db"
  have check: "assertRoleChangeInvariantsTx db (tx_target m) q = Return ()"
    and rest: "retierMembers actor q ms db1 = Return db'"
    using Cons.prems(1) by (auto simp: andThen_eq_Return updateOne_Return db1_def)
  have "set ms \<subseteq> set db1"
    unfolding db1_def using Cons.prems(3,4) by (intro others_survive) auto
  with rest have "wf_directory db' \<and> (manageable db1 \<longrightarrow> manageable db')"
    using Cons.prems by (intro Cons.IH) (auto simp: db1_def)
  moreover have "manageable db1" if "manageable db"
    unfolding db1_def using Cons.prems that by (intro role_change.manageable_change [OF _ _ _ check]) auto
  ultimately show ?case by blast
qed simp

lemma changeStartingPoint_kept: "changeStartingPoint actor roleId q db = Return db' \<Longrightarrow> kept db db'"
  unfolding kept_def changeStartingPoint_def
  by (auto dest!: retierMembers_kept simp: wf_directory_def distinct_map_filter)

lemma writeScimRole_kept: "kept db (fst (writeScimRole w aborts i q applies snapshot db))"
  using writeScimRole_dir [of w aborts i q applies snapshot db] by (auto dest: role_change.guarded_kept)

lemma setUserActive_kept: "kept db (fst (setUserActive w aborts i active snapshot db))"
proof (cases active)
  case True
  then show ?thesis
    using reactivateUser_dir [of i snapshot db]
    by (auto simp: setUserActive_def intro!: kept_update simp: active_operator_def)
next
  case False
  then show ?thesis
    using deactivateUser_dir [of w aborts i snapshot db]
    by (auto simp: setUserActive_def dest: disabling.guarded_kept)
qed

lemma completeUserDeletion_kept: "kept db (fst (completeUserDeletion w counts actor actorUsername row db))"
proof -
  have "kept db (filter (\<lambda>r. \<not> claimed_for_purge (u_id row) r) db)"
    by (auto simp: kept_def wf_directory_def distinct_map_filter manageable_def active_operator_def claimed_for_purge_def)
  with completeUserDeletion_dir [of w counts actor actorUsername row db] show ?thesis by auto
qed

lemma handOverClaim_Return:
  "handOverClaim t target recipient db = Return db' \<longleftrightarrow>
     guardedWrite assertRemovalInvariantsTx (\<lambda>_ r. u_deletion r = u_deletion target)
       (claim_change t (u_deletion target) (u_id recipient)) (u_id target) db = Return db'"
  by (auto simp: handOverClaim_def split: sum.splits directory_error.splits)

lemma joined_kept: "findUser db (u_id row) = None \<Longrightarrow> kept db (db @ [row])"
  by (auto simp: kept_def wf_directory_def manageable_def findUser_None)

lemma request_step_kept: "request_step S db db' \<Longrightarrow> kept db db'"
proof (induction rule: request_step.induct)
  case (role_patched snap S db w aborts rq i parsed)
  then show ?case
    using patchRole_dir [of w aborts rq i parsed snap db] by (auto dest: role_change.guarded_kept)
next
  case (disabled snap S db w aborts rq handle)
  then show ?case
    using disableUser_dir [of w aborts rq handle snap db] by (auto dest: disabling.guarded_kept)
next
  case (enabled snap S db w rq handle)
  then show ?case
    using enableUser_dir [of w rq handle snap db] by (auto intro!: kept_update simp: active_operator_def)
next
  case (cancelled snap S db rq handle)
  then show ?case
    using cancelDeletion_dir [of rq handle snap db] by (auto intro!: kept_update simp: active_operator_def)
next
  case (scheduled snap S target db w aborts toISO now rq disp dft)
  then show ?case
    using scheduleUserDeletion_dir [of w aborts toISO now rq disp dft target db] by (auto dest: scheduling.guarded_kept)
next
  case (scim_lowered first S snap db w aborts i removed remaining)
  then show ?case by (simp add: lowerRoleAfterRemoval_def Let_def writeScimRole_kept split: option.split)
next
  case (handover_claimed snap S snap2 target requester recipientId recipient from_nc to_nc t db db')
  then show ?case by (auto simp: handOverClaim_Return dest: claiming.guarded_kept)
next
  case (handover_revoked t now by_whom target db db' S)
  then show ?case by (auto simp: handOverRevoke_def dest: purging.guarded_kept)
qed (auto simp: raiseUserRoleTo_def purgeClaim_def releaseClaim_def releaseStale_def active_operator_def
      intro: writeScimRole_kept setUserActive_kept completeUserDeletion_kept changeStartingPoint_kept joined_kept
      intro!: kept_update)

lemma directory_run_kept:
  "directory_run db0 h \<Longrightarrow> wf_directory db0 \<Longrightarrow> db \<in> set h \<Longrightarrow> wf_directory db \<and> (manageable db0 \<longrightarrow> manageable db)"
proof (induction arbitrary: db rule: directory_run.induct)
  case (stepped db0 db1 past db')
  then show ?case using request_step_kept [of _ db1 db'] by (auto simp: kept_def)
qed simp

section \<open>The owner's row is out of reach\<close>

definition owners :: "directory \<Rightarrow> directory" where
  "owners db = filter (\<lambda>r. u_role r = owner) db"

text \<open>An owner as setup leaves it: enabled, with no deletion under way.\<close>

definition settled_owners :: "directory \<Rightarrow> bool" where
  "settled_owners db \<longleftrightarrow> (\<forall>r\<in>set (owners db). u_status r = ACTIVE \<and> u_deletion r = NONE)"

lemma owners_update:
  assumes "\<And>r. r \<in> set db \<Longrightarrow> p r \<Longrightarrow> u_role r = owner \<Longrightarrow> f r = r"
    and "\<And>r. r \<in> set db \<Longrightarrow> p r \<Longrightarrow> u_role r \<noteq> owner \<Longrightarrow> u_role (f r) \<noteq> owner"
  shows "owners (updateWhere p f db) = owners db"
  using assms by (induction db) (auto simp: owners_def updateWhere_def)

lemma stale_not_owner:
  assumes "wf_directory snap" "owners snap = owners db" "r \<in> set snap" "u_role r \<noteq> owner"
    and "s \<in> set db" "u_id s = u_id r"
  shows "u_role s \<noteq> owner"
proof
  assume "u_role s = owner"
  with assms(5) have "s \<in> set (owners db)" by (simp add: owners_def)
  then have "s \<in> set snap" using assms(2) by (metis filter_is_subset owners_def subsetD)
  with assms have "s = r" using wf_same_id by blast
  with \<open>u_role s = owner\<close> assms(4) show False by simp
qed

lemma guarded_owners:
  assumes run: "guardedWrite check pin change i db = Return db'"
    and snap: "wf_directory snap" "owners snap = owners db" "r \<in> set snap" "u_id r = i" "u_role r \<noteq> owner"
    and change: "\<And>s. u_role s \<noteq> owner \<Longrightarrow> u_role (change s) \<noteq> owner"
  shows "owners db' = owners db"
proof -
  obtain fresh where db': "db' = updateWhere (\<lambda>r. u_id r = i \<and> pin fresh r) change db"
    using run by (auto simp: guardedWrite_Return)
  show ?thesis
    unfolding db' by (rule owners_update) (use stale_not_owner [OF snap(1,2,3,5)] snap(4) change in auto)
qed

lemma handle_in_directory: "findDirectoryUserByHandle db h = Some r \<Longrightarrow> r \<in> set db"
  by (auto simp: findDirectoryUserByHandle_def find_Some_iff split: option.splits)

lemma role_change_rails:
  assumes "assertRoleChangeAllowed actor t q = Return ()"
  shows "ga_id actor \<noteq> Some (gt_id t)" "gt_role t \<noteq> owner" "q \<in> set ASSIGNABLE_ROLES" "q \<noteq> owner"
    "\<exists>a. ga_role actor = Some a \<and> q \<le> a"
  using assms by (auto simp: rail_defs ASSIGNABLE_ROLES_def less_eq_role_def split: option.splits)

lemma removal_rails:
  "assertRemovalAllowed actor t = Return () \<Longrightarrow> gt_role t \<noteq> owner"
  "assertDisableAllowed actor t = Return () \<Longrightarrow> gt_role t \<noteq> owner"
  by (simp_all add: rail_defs)

lemma target_of_sel [simp]: "gt_role (target_of r) = u_role r" "gt_id (target_of r) = u_id r"
  by (simp_all add: target_of_def)

lemma retierMembers_owners:
  "retierMembers actor q ms db = Return db' \<Longrightarrow> wf_directory db \<Longrightarrow> distinct (map u_id ms) \<Longrightarrow> set ms \<subseteq> set db \<Longrightarrow>
     owners db' = owners db"
proof (induction ms arbitrary: db)
  case (Cons m ms)
  define db1 where "db1 = updateWhere (\<lambda>r. u_id r = u_id m) (set_role q) db"
  have rails: "assertRoleChangeAllowed actor (target_of m) q = Return ()"
    and rest: "retierMembers actor q ms db1 = Return db'"
    using Cons.prems(1) by (auto simp: andThen_eq_Return updateOne_Return db1_def)
  have fresh: "u_id m \<notin> u_id ` set ms" and m: "m \<in> set db" and sub: "set ms \<subseteq> set db"
    using Cons.prems(3,4) by auto
  have "set ms \<subseteq> set db1"
    unfolding db1_def by (rule others_survive [OF fresh sub])
  with rest have "owners db' = owners db1"
    using Cons.prems by (intro Cons.IH) (auto simp: db1_def)
  also have "\<dots> = owners db"
    unfolding db1_def
    by (rule owners_update)
       (use role_change_rails [OF rails] wf_same_id [OF Cons.prems(2) _ m] in auto)
  finally show ?case .
qed simp

definition aligned :: "directory set \<Rightarrow> directory \<Rightarrow> bool" where
  "aligned S db \<longleftrightarrow> wf_directory db \<and> settled_owners db \<and> (\<forall>s\<in>S. wf_directory s \<and> owners s = owners db)"

lemma settled_row: "settled_owners db \<Longrightarrow> r \<in> set db \<Longrightarrow> u_role r = owner \<Longrightarrow> u_status r = ACTIVE \<and> u_deletion r = NONE"
  by (simp add: settled_owners_def owners_def)

lemma activate_active: "u_status r = ACTIVE \<Longrightarrow> activate r = r"
  by (simp add: activate_def)

lemma aligned_guarded:
  assumes "aligned S db" "snap \<in> S" "guardedWrite check pin change i db = Return db'"
    and "r \<in> set snap" "u_id r = i" "u_role r \<noteq> owner" "\<And>s. u_role s \<noteq> owner \<Longrightarrow> u_role (change s) \<noteq> owner"
  shows "owners db' = owners db"
  using assms by (intro guarded_owners [OF assms(3), of snap r]) (auto simp: aligned_def)

lemma patchRole_owners:
  assumes "aligned S db" "snap \<in> S"
  shows "owners (fst (patchRole w aborts rq i parsed snap db)) = owners db"
  using patchRole_dir [OF refl, of w aborts rq i parsed snap db]
proof (elim disjE exE conjE)
  fix q existing
  assume row: "findUser snap i = Some existing" and rails: "assertRoleChangeAllowed (rq_actor rq) (target_of existing) q = Return ()"
    and run: "guardedWrite (\<lambda>db t. assertRoleChangeInvariantsTx db t q) pin_role (set_role q) i db
      = Return (fst (patchRole w aborts rq i parsed snap db))"
  show ?thesis
    by (rule aligned_guarded [OF assms run]) (use findUser_Some [OF row] role_change_rails [OF rails] in auto)
qed simp

lemma writeScimRole_owners:
  assumes "aligned S db" "snap \<in> S"
  shows "owners (fst (writeScimRole w aborts i q applies snap db)) = owners db"
  using writeScimRole_dir [OF refl, of w aborts i q applies snap db]
proof (elim disjE exE conjE)
  fix row
  assume row: "findUser snap i = Some row" and rails: "assertRoleChangeAllowed SCIM_ACTOR (target_of row) q = Return ()"
    and run: "guardedWrite (\<lambda>db t. assertRoleChangeInvariantsTx db t q) pin_role (set_role q) i db
      = Return (fst (writeScimRole w aborts i q applies snap db))"
  show ?thesis
    by (rule aligned_guarded [OF assms run]) (use findUser_Some [OF row] role_change_rails [OF rails] in auto)
qed simp

lemma disableUser_owners:
  assumes "aligned S db" "snap \<in> S"
  shows "owners (fst (disableUser w aborts rq handle snap db)) = owners db"
  using disableUser_dir [OF refl, of w aborts rq handle snap db]
proof (elim disjE exE conjE)
  fix row
  assume row: "findDirectoryUserByHandle snap handle = Some row"
    and rails: "assertDisableAllowed (rq_actor rq) (target_of row) = Return ()"
    and run: "guardedWrite assertDisableInvariantsTx pin_role deactivate (u_id row) db
      = Return (fst (disableUser w aborts rq handle snap db))"
  show ?thesis
    by (rule aligned_guarded [OF assms run]) (use handle_in_directory [OF row] removal_rails(2) [OF rails] in auto)
qed simp

lemma deactivateUser_owners:
  assumes "aligned S db" "snap \<in> S"
  shows "owners (fst (deactivateUser w aborts i snap db)) = owners db"
  using deactivateUser_dir [OF refl, of w aborts i snap db]
proof (elim disjE exE conjE)
  fix row
  assume row: "findUser snap i = Some row" and rails: "assertDisableAllowed SCIM_ACTOR (target_of row) = Return ()"
    and run: "guardedWrite assertDisableInvariantsTx pin_status deactivate i db
      = Return (fst (deactivateUser w aborts i snap db))"
  show ?thesis
    by (rule aligned_guarded [OF assms run]) (use findUser_Some [OF row] removal_rails(2) [OF rails] in auto)
qed simp

lemma scheduleUserDeletion_owners:
  assumes "aligned S db" "snap \<in> S" "target \<in> set snap"
  shows "owners (fst (scheduleUserDeletion w aborts toISO now rq disp dft target db)) = owners db"
  using scheduleUserDeletion_dir [OF refl, of w aborts toISO now rq disp dft target db]
proof (elim disjE conjE)
  assume rails: "assertRemovalAllowed (rq_actor rq) (target_of target) = Return ()"
    and run: "guardedWrite assertRemovalInvariantsTx pin_role_none (schedule_change (deletionDueAt now) (rq_username rq))
      (u_id target) db = Return (fst (scheduleUserDeletion w aborts toISO now rq disp dft target db))"
  show ?thesis
    by (rule aligned_guarded [OF assms(1,2) run])
       (use assms(3) removal_rails(1) [OF rails] in \<open>auto simp: schedule_change_def\<close>)
qed simp

lemma handOverChecks_Return:
  "handOverChecks actor target recipientId snap = Return x \<Longrightarrow>
     (u_deletion target = NONE \<or> u_deletion target = PENDING) \<and> assertRemovalAllowed actor (target_of target) = Return ()"
  by (simp add: handOverChecks_def split: if_splits)

lemma handOverClaim_owners:
  assumes "aligned S db" "snap \<in> S" "target \<in> set snap" "handOverChecks actor target recipientId snap2 = Return x"
    and "handOverClaim t target recipient db = Return db'"
  shows "owners db' = owners db"
  by (rule aligned_guarded [OF assms(1,2) assms(5) [unfolded handOverClaim_Return]])
     (use assms(3) handOverChecks_Return [OF assms(4)] removal_rails(1) [of actor "target_of target"] in
        \<open>auto simp: claim_change_def\<close>)

lemma handOverRevoke_dir:
  "handOverRevoke t now by_whom target db = Return db' \<Longrightarrow>
     \<exists>role. db' = updateWhere (\<lambda>r. u_id r = u_id target \<and> u_role r = role \<and> u_deletion r = HANDING_OVER \<and> u_claimed_at r = Some t)
              (purging_change now by_whom) db"
  by (auto simp: handOverRevoke_def guardedWrite_Return)

lemma pinned_owners:
  assumes "settled_owners db" "\<And>r. p r \<Longrightarrow> u_status r = DEACTIVATED \<or> u_deletion r \<noteq> NONE" "\<And>r. u_role (f r) = u_role r"
  shows "owners (updateWhere p f db) = owners db"
  using assms settled_row by (intro owners_update) fastforce+

lemma activate_owners: "settled_owners db \<Longrightarrow> owners (updateWhere p activate db) = owners db"
  by (rule owners_update) (auto dest: settled_row simp: activate_active)

lemma completed_owners:
  assumes "settled_owners db"
  shows "owners (fst (completeUserDeletion w counts actor actorUsername row db)) = owners db"
proof -
  have "filter (\<lambda>r. u_role r = owner \<and> \<not> claimed_for_purge (u_id row) r) db = filter (\<lambda>r. u_role r = owner) db"
    using settled_row [OF assms] by (intro filter_cong) (auto simp: claimed_for_purge_def)
  then show ?thesis
    using completeUserDeletion_dir [of w counts actor actorUsername row db]
    by (auto simp: owners_def conj_commute)
qed

lemma request_step_owners: "request_step S db db' \<Longrightarrow> aligned S db \<Longrightarrow> owners db' = owners db"
proof (induction rule: request_step.induct)
  case (enabled snap S db w rq handle)
  then show ?case
    using enableUser_dir [of w rq handle snap db] by (auto simp: aligned_def activate_owners)
next
  case (cancelled snap S db rq handle)
  then show ?case
    using cancelDeletion_dir [of rq handle snap db]
    by (auto simp: aligned_def intro!: pinned_owners)
next
  case (starting_point actor roleId q db db' S)
  then show ?case
    unfolding changeStartingPoint_def aligned_def
    by (intro retierMembers_owners) (auto simp: wf_directory_def distinct_map_filter)
next
  case (scim_active snap S db w aborts i active)
  then show ?case
    using reactivateUser_dir [of i snap db] deactivateUser_owners [of S db snap w aborts i]
    by (auto simp: setUserActive_def aligned_def activate_owners)
next
  case (scim_lowered first S snap db w aborts i removed remaining)
  then show ?case by (simp add: lowerRoleAfterRemoval_def Let_def writeScimRole_owners split: option.split)
next
  case (handover_revoked t now by_whom target db db' S)
  then show ?case
    using handOverRevoke_dir [OF handover_revoked(1)]
    by (auto simp: aligned_def purging_change_def intro!: pinned_owners)
next
  case (handover_claimed snap S snap2 target requester recipientId recipient from_nc to_nc t db db')
  then show ?case by (blast intro: handOverClaim_owners)
next
  case (joined actorRole row db S)
  then show ?case by (auto simp: owners_def rail_defs ASSIGNABLE_ROLES_def)
qed (auto simp: raiseUserRoleTo_def purgeClaim_def purge_due_def releaseClaim_def holds_claim_def releaseStale_def aligned_def
      patchRole_owners writeScimRole_owners disableUser_owners scheduleUserDeletion_owners completed_owners
      intro!: pinned_owners)

lemma directory_run_nonempty: "directory_run db0 h \<Longrightarrow> h \<noteq> []"
  by (cases rule: directory_run.cases) auto

lemma directory_run_owners:
  "directory_run db0 h \<Longrightarrow> wf_directory db0 \<Longrightarrow> settled_owners db0 \<Longrightarrow> db \<in> set h \<Longrightarrow> owners db = owners db0"
proof (induction arbitrary: db rule: directory_run.induct)
  case (stepped db0 db1 past db')
  have same: "owners s = owners db0" if "s \<in> set (db1 # past)" for s
    using stepped.IH stepped.prems that by blast
  have "wf_directory s" if "s \<in> set (db1 # past)" for s
    using directory_run_kept [OF stepped.hyps(1) stepped.prems(1) that] by simp
  moreover have "settled_owners db1"
    using stepped.prems(2) same [of db1] by (simp add: settled_owners_def)
  ultimately have "aligned (set (db1 # past)) db1"
    using same by (simp add: aligned_def)
  with request_step_owners [OF stepped.hyps(2)] same stepped.prems(3) show ?case by auto
qed simp

section \<open>A purge cannot be undone half way\<close>

definition purging_row :: "string \<Rightarrow> user_row \<Rightarrow> bool" where
  "purging_row i r \<longleftrightarrow> u_id r = i \<longrightarrow> u_status r = DEACTIVATED \<and> u_deletion r = PURGING"

definition purging_person :: "string \<Rightarrow> directory \<Rightarrow> bool" where
  "purging_person i db \<longleftrightarrow> (\<forall>r\<in>set db. purging_row i r)"

lemma purging_update:
  assumes "purging_person i db" "\<And>r. p r \<Longrightarrow> purging_row i r \<Longrightarrow> purging_row i (f r)"
  shows "purging_person i (updateWhere p f db)"
  using assms by (auto simp: purging_person_def set_updateWhere)

lemma purging_guarded:
  assumes "guardedWrite check pin change j db = Return db'" "purging_person i db"
    and "\<And>fresh r. pin fresh r \<Longrightarrow> purging_row i r \<Longrightarrow> purging_row i (change r)"
  shows "purging_person i db'"
  using assms by (auto simp: guardedWrite_Return intro!: purging_update)

lemma purging_set_role [simp]: "purging_row i (set_role q r) = purging_row i r"
  by (simp add: purging_row_def)

lemma purging_deactivate: "purging_row i r \<Longrightarrow> purging_row i (deactivate r)"
  by (simp add: purging_row_def)

lemma retierMembers_purging:
  "retierMembers actor q ms db = Return db' \<Longrightarrow> purging_person i db \<Longrightarrow> purging_person i db'"
  by (induction ms arbitrary: db) (auto simp: andThen_eq_Return updateOne_Return purging_update)

lemma writeScimRole_purging:
  "purging_person i db \<Longrightarrow> purging_person i (fst (writeScimRole w aborts j q applies snap db))"
  using writeScimRole_dir [OF refl, of w aborts j q applies snap db]
  by (elim disjE exE conjE) (simp, erule purging_guarded, simp_all)

lemma request_step_purging:
  "request_step S db db' \<Longrightarrow> purging_person i db \<Longrightarrow> (\<exists>r\<in>set db. u_id r = i) \<Longrightarrow> purging_person i db'"
proof (induction rule: request_step.induct)
  case (role_patched snap S db w aborts rq j parsed)
  then show ?case
    using patchRole_dir [OF refl, of w aborts rq j parsed snap db]
    by (elim disjE exE conjE) (simp, erule purging_guarded, simp_all)
next
  case (disabled snap S db w aborts rq handle)
  then show ?case
    using disableUser_dir [OF refl, of w aborts rq handle snap db]
    by (elim disjE exE conjE) (simp, erule purging_guarded, simp_all add: purging_deactivate)
next
  case (enabled snap S db w rq handle)
  then show ?case
    using enableUser_dir [of w rq handle snap db] by (auto intro!: purging_update simp: purging_row_def)
next
  case (cancelled snap S db rq handle)
  then show ?case
    using cancelDeletion_dir [of rq handle snap db] by (auto intro!: purging_update simp: purging_row_def)
next
  case (scim_active snap S db w aborts j active)
  then show ?case
    using reactivateUser_dir [OF refl, of j snap db] deactivateUser_dir [OF refl, of w aborts j snap db]
    by (cases active) (auto simp: setUserActive_def purging_deactivate intro!: purging_update simp: purging_row_def elim!: purging_guarded)
next
  case (scheduled snap S target db w aborts toISO now rq disp dft)
  then show ?case
    using scheduleUserDeletion_dir [OF refl, of w aborts toISO now rq disp dft target db]
    by (elim disjE conjE) (simp, erule purging_guarded, simp_all add: pin_role_none_def purging_row_def schedule_change_def)
next
  case (completed S db w counts actor actorUsername row)
  then show ?case
    using completeUserDeletion_dir [of w counts actor actorUsername row db] by (auto simp: purging_person_def)
next
  case (scim_lowered first S snap db w aborts j removed remaining)
  then show ?case by (simp add: lowerRoleAfterRemoval_def Let_def writeScimRole_purging split: option.split)
next
  case (handover_claimed snap S snap2 target requester recipientId recipient from_nc to_nc t db db')
  then show ?case
    unfolding handOverClaim_Return
    by (elim purging_guarded) (auto dest: handOverChecks_Return simp: purging_row_def claim_change_def)
next
  case (handover_revoked t now by_whom target db db' S)
  then show ?case
    using handOverRevoke_dir [OF handover_revoked(1)]
    by (auto intro!: purging_update simp: purging_row_def purging_change_def)
next
  case (joined actorRole row db S)
  then show ?case by (auto simp: purging_person_def purging_row_def findUser_None)
qed (auto simp: raiseUserRoleTo_def changeStartingPoint_def purgeClaim_def releaseClaim_def holds_claim_def releaseStale_def
      writeScimRole_purging retierMembers_purging intro!: purging_update simp: purging_row_def claim_purge_def)

text \<open>Only the completion of a claimed deletion removes a row.\<close>

definition stays :: "string \<Rightarrow> directory \<Rightarrow> bool" where
  "stays i db \<longleftrightarrow> (\<exists>r\<in>set db. u_id r = i)"

lemma stays_update [simp]: "(\<And>r. u_id (f r) = u_id r) \<Longrightarrow> stays i (updateWhere p f db) = stays i db"
  by (auto simp: stays_def set_updateWhere)

context covered_write
begin

lemma guarded_stays: "guardedWrite check pin change i db = Return db' \<Longrightarrow> stays j db' = stays j db"
  by (auto simp: guardedWrite_Return change_id)

end

lemma retierMembers_stays: "retierMembers actor q ms db = Return db' \<Longrightarrow> stays j db' = stays j db"
proof (induction ms arbitrary: db)
  case (Cons m ms)
  then have "retierMembers actor q ms (updateWhere (\<lambda>r. u_id r = u_id m) (set_role q) db) = Return db'"
    by (auto simp: andThen_eq_Return updateOne_Return)
  from Cons.IH [OF this] show ?case by simp
qed simp

lemma writeScimRole_stays: "stays j (fst (writeScimRole w aborts i q applies snap db)) = stays j db"
  using writeScimRole_dir [OF refl, of w aborts i q applies snap db] by (auto simp: role_change.guarded_stays)

lemma request_step_stays:
  "request_step S db db' \<Longrightarrow> stays j db \<Longrightarrow> \<not> stays j db' \<Longrightarrow>
     \<exists>r\<in>set db. u_id r = j \<and> u_status r = DEACTIVATED \<and> u_deletion r = PURGING"
proof (induction rule: request_step.induct)
  case (role_patched snap S db w aborts rq i parsed)
  then show ?case using patchRole_dir [OF refl, of w aborts rq i parsed snap db] by (auto simp: role_change.guarded_stays)
next
  case (disabled snap S db w aborts rq handle)
  then show ?case using disableUser_dir [OF refl, of w aborts rq handle snap db] by (auto simp: disabling.guarded_stays)
next
  case (enabled snap S db w rq handle)
  then show ?case using enableUser_dir [of w rq handle snap db] by auto
next
  case (cancelled snap S db rq handle)
  then show ?case using cancelDeletion_dir [of rq handle snap db] by auto
next
  case (scim_active snap S db w aborts i active)
  then show ?case
    using reactivateUser_dir [OF refl, of i snap db] deactivateUser_dir [OF refl, of w aborts i snap db]
    by (cases active) (auto simp: setUserActive_def disabling.guarded_stays)
next
  case (scheduled snap S target db w aborts toISO now rq disp dft)
  then show ?case
    using scheduleUserDeletion_dir [OF refl, of w aborts toISO now rq disp dft target db] by (auto simp: scheduling.guarded_stays)
next
  case (completed S db w counts actor actorUsername row)
  then obtain r where r: "r \<in> set db" "u_id r = j" by (auto simp: stays_def)
  have "r \<notin> set (fst (completeUserDeletion w counts actor actorUsername row db))"
    using completed r by (auto simp: stays_def)
  then have "claimed_for_purge (u_id row) r"
    using completeUserDeletion_dir [of w counts actor actorUsername row db] r(1) by auto
  with r show ?case by (auto simp: claimed_for_purge_def)
next
  case (scim_lowered first S snap db w aborts i removed remaining)
  then show ?case by (simp add: lowerRoleAfterRemoval_def Let_def writeScimRole_stays split: option.splits if_splits)
next
  case (handover_revoked t now by_whom target db db' S)
  then show ?case by (auto simp: handOverRevoke_def purging.guarded_stays)
qed (auto simp: raiseUserRoleTo_def changeStartingPoint_def purgeClaim_def releaseClaim_def releaseStale_def handOverClaim_Return
      writeScimRole_stays retierMembers_stays claiming.guarded_stays, auto simp: stays_def)

section \<open>A small directory\<close>

definition demo_row :: "string \<Rightarrow> role \<Rightarrow> user_row" where
  "demo_row i r = \<lparr>u_id = i, u_username = i, u_nextcloud = None, u_role = r, u_status = ACTIVE, u_scim = False,
     u_access_role = None, u_deletion = NONE, u_due = None, u_requested_by = None, u_claimed_at = None,
     u_prior = None, u_recipient = None\<rparr>"

definition demo_outside :: outside where
  "demo_outside = \<lparr>o_sessions = (\<lambda>_. Some 1), o_overlay = (\<lambda>_. Some (0, 0)), o_vpn = (\<lambda>_. (0, 0)), o_nextcloud = True\<rparr>"

definition demo_request :: "string \<Rightarrow> role \<Rightarrow> request" where
  "demo_request i r = \<lparr>rq_actor = \<lparr>ga_id = Some i, ga_role = Some r\<rparr>, rq_username = Some i, rq_attr = (''user'', Some i)\<rparr>"

text \<open>Two administrators demote each other, both having read the directory before either acted.\<close>

definition demo_start :: directory where
  "demo_start = [demo_row ''ann'' admin, demo_row ''ben'' admin]"

definition demo_patch :: "string \<Rightarrow> string \<Rightarrow> directory \<Rightarrow> outcome" where
  "demo_patch by_whom i db = patchRole demo_outside False (demo_request by_whom admin) i (Some family) demo_start db"

definition demo_one :: directory where
  "demo_one = fst (demo_patch ''ann'' ''ben'' demo_start)"

definition demo_two :: directory where
  "demo_two = fst (demo_patch ''ben'' ''ann'' demo_one)"

lemma demo_directory_run: "directory_run demo_start [demo_two, demo_one, demo_start]"
  unfolding demo_two_def demo_one_def demo_patch_def
  by (intro directory_run.stepped directory_run.started request_step.role_patched) simp_all

lemmas demo_defs = demo_row_def demo_outside_def demo_request_def demo_start_def demo_patch_def demo_one_def demo_two_def

section \<open>Properties\<close>




definition demo_owned :: directory where
  "demo_owned = [demo_row ''olga'' owner, demo_row ''ann'' admin]"

definition demo_attack :: outcome where
  "demo_attack = disableUser demo_outside False (demo_request ''ann'' admin) ''olga'' demo_owned demo_owned"


text \<open>
   A role-change request that changes the directory was made by another person of sufficient
  rank, on a target that was not the owner, for one of the three assignable roles, and it changes
  exactly that person's role; the person's sessions are revoked and the last thing logged is the
  audit row that names both roles.
\<close>

theorem role_change_authorised:
  assumes "wf_directory db" "patchRole w aborts rq i parsed snapshot db = (db', log, rep)" "db' \<noteq> db"
  shows "\<exists>q existing a. parsed = Some q \<and> findUser snapshot i = Some existing \<and> ga_id (rq_actor rq) \<noteq> Some i
     \<and> u_role existing \<noteq> owner \<and> q \<in> {admin, family, guest} \<and> ga_role (rq_actor rq) = Some a \<and> q \<le> a
     \<and> db' = updateWhere (\<lambda>r. u_id r = i) (set_role q) db
     \<and> hd log = RevokeSessions i
     \<and> (\<exists>act. last log = Activity act \<and> a_what act = ''Role changed''
          \<and> map_of (a_refs act) ''previousRole'' = Some (JStr (role_name (u_role existing)))
          \<and> map_of (a_refs act) ''nextRole'' = Some (JStr (role_name q)))"
proof -
  obtain q existing where q: "parsed = Some q" "findUser snapshot i = Some existing" "u_role existing \<noteq> q"
    and rails: "assertRoleChangeAllowed (rq_actor rq) (target_of existing) q = Return ()"
    and run: "guardedWrite (\<lambda>db t. assertRoleChangeInvariantsTx db t q) pin_role (set_role q) i db = Return db'"
    using patchRole_dir [of w aborts rq i parsed snapshot db db'] assms(2,3) by auto
  note ids = findUser_Some [OF q(2)]
  obtain r where r: "findUser db i = Some r"
    and db': "db' = updateWhere (\<lambda>s. u_id s = i \<and> pin_role (tx_target r) s) (set_role q) db"
    using run by (auto simp: guardedWrite_Return readGuardTargetTx_Some)
  have "db' = updateWhere (\<lambda>s. u_id s = i) (set_role q) db"
    unfolding db' updateWhere_def pin_role_def
    using wf_same_id [OF assms(1)] findUser_Some [OF r] by auto
  moreover have "log = fst (runRoleChangePostEffects w existing (u_role existing) q (rq_username rq) (rq_attr rq) Devices_default)"
    using assms(2,3) q by (auto simp: patchRole_def finished_def split: sum.splits if_splits)
  ultimately show ?thesis
    using q role_change_rails [OF rails] ids
    by (auto simp: runRoleChangePostEffects_def Let_def ASSIGNABLE_ROLES_def split: prod.splits)
qed

theorem role_change_authorised_witness:
  "\<exists>log rep. demo_patch ''ann'' ''ben'' demo_start = (demo_one, log, rep) \<and> hd log = RevokeSessions ''ben''"
proof -
  obtain log rep where run: "demo_patch ''ann'' ''ben'' demo_start = (demo_one, log, rep)"
    by (metis demo_one_def prod.collapse)
  have "wf_directory demo_start" "demo_one \<noteq> demo_start" by (code_simp, code_simp)
  from role_change_authorised [OF this(1) run [unfolded demo_patch_def] this(2)] run show ?thesis by auto
qed

fun without_refs :: "effect \<Rightarrow> effect" where
  "without_refs (Activity a) = Activity (a\<lparr>a_refs := []\<rparr>)"
| "without_refs e = e"

lemma syncAdminTierGroup_refs [simp]: "map without_refs (syncAdminTierGroup nc p q) = syncAdminTierGroup nc p q"
  by (simp add: syncAdminTierGroup_def split: option.split)

lemma revokeLeaverDevices_sessions [simp]:
  "revokeLeaverDevices (w\<lparr>o_sessions := f\<rparr>) d dflt reason = revokeLeaverDevices w d dflt reason"
  by (simp add: revokeLeaverDevices_def split: leaver_devices.split)

text \<open>
   A session sweep that fails skips none of the effects that follow a committed change: the
  three runners make the same calls in the same order as with any other outcome \<open>f\<close> of the sweep
  (only the audit row's references differ), and they rethrow exactly when the sweep failed.
\<close>

theorem sweep_failure_skips_nothing:
  "map without_refs (fst (runRoleChangePostEffects w t p q au a d))
     = map without_refs (fst (runRoleChangePostEffects (w\<lparr>o_sessions := f\<rparr>) t p q au a d))
   \<and> snd (runRoleChangePostEffects w t p q au a d) = (if o_sessions w (u_id t) = None then Some SessionRevokeFailed else None)
   \<and> map without_refs (fst (runRemovalPostEffects w i n r au a d c))
     = map without_refs (fst (runRemovalPostEffects (w\<lparr>o_sessions := f\<rparr>) i n r au a d c))
   \<and> snd (runRemovalPostEffects w i n r au a d c)
     = (case i of None \<Rightarrow> None | Some j \<Rightarrow> if o_sessions w j = None then Some SessionRevokeFailed else None)
   \<and> map without_refs (fst (runDisablePostEffects w i n a m d))
     = map without_refs (fst (runDisablePostEffects (w\<lparr>o_sessions := f\<rparr>) i n a m d))
   \<and> snd (runDisablePostEffects w i n a m d)
     = (case i of None \<Rightarrow> None | Some j \<Rightarrow> if o_sessions w j = None then Some SessionRevokeFailed else None)"
  by (intro conjI)
     (auto simp: runRoleChangePostEffects_def runRemovalPostEffects_def runDisablePostEffects_def Let_def rethrow_def
       revokeCapturingFailure_def split: prod.splits option.splits)

definition cuts_devices :: "effect \<Rightarrow> bool" where
  "cuts_devices e \<longleftrightarrow> (\<exists>n reason. e = RevokeOverlayDevices n reason \<or> e = RevokeVpnDevices n reason)"

lemma mirrorDisabled_log: "mirrorDisabled w nc = (ncLog, m) \<Longrightarrow> e \<in> set ncLog \<Longrightarrow> \<exists>n. e = NcSetEnabled n False"
  by (auto simp: mirrorDisabled_def split: option.splits)

text \<open>
  C38.  When the session sweep fails while a deletion is being scheduled, the deletion is committed
  but the leaver's VPN devices are not revoked, the access-token denylist is not written and no
  scheduling row is audited; and asking again does nothing, because the row is already pending.
\<close>

theorem failed_sweep_keeps_leaver_devices:
  assumes "o_sessions w (u_id target) = None" "wf_directory db"
    and "scheduleUserDeletion w aborts toISO now rq disp dft target db = (db', log, rep)" "db' \<noteq> db"
  shows "rep = Next SessionRevokeFailed \<and> (\<forall>e\<in>set log. \<not> cuts_devices e \<and> (\<forall>j n. e \<noteq> Denylist j n)
       \<and> (\<forall>a. e = Activity a \<longrightarrow> a_what a \<noteq> ''User deletion scheduled''))
     \<and> (\<exists>r. findUser db' (u_id target) = Some r \<and> u_deletion r = PENDING
          \<and> scheduleUserDeletion w' aborts' toISO now' rq' disp' dft' r db' = (db', [], Ok_reply))"
proof -
  let ?due = "deletionDueAt now"
  have run: "guardedWrite assertRemovalInvariantsTx pin_role_none (schedule_change ?due (rq_username rq)) (u_id target) db
      = Return db'" and log: "u_deletion target = NONE"
    using scheduleUserDeletion_dir [of w aborts toISO now rq disp dft target db db'] assms(3,4)
    by (auto simp: scheduleUserDeletion_def split: if_splits deletion_status.splits) (cases "u_deletion target"; auto)
  obtain fresh s where s: "s \<in> set db" "u_id s = u_id target" "pin_role_none fresh s"
    and db': "db' = updateWhere (\<lambda>r. u_id r = u_id target \<and> pin_role_none fresh r) (schedule_change ?due (rq_username rq)) db"
    using run by (auto simp: guardedWrite_Return)
  let ?r = "schedule_change ?due (rq_username rq) s"
  have "?r \<in> set db'" using s by (force simp: db' set_updateWhere)
  moreover have "wf_directory db'" using scheduling.wf_kept [OF assms(2) run] .
  ultimately have "findUser db' (u_id target) = Some ?r"
    using findUser_wf [of db' ?r] s(2) by (simp add: schedule_change_def)
  moreover have "u_deletion ?r = PENDING" by (simp add: schedule_change_def)
  moreover have "rep = Next SessionRevokeFailed \<and> log = [RevokeDeviceClients (u_username target) ''removal'']
      @ fst (mirrorDisabled w (u_nextcloud target))
      @ fst (runDisablePostEffects w (Some (u_id target)) (u_username target) (rq_attr rq)
               (Some (snd (mirrorDisabled w (u_nextcloud target)))) Devices_null)"
    using assms(1,3,4) log
    by (auto simp: scheduleUserDeletion_def Let_def runDisablePostEffects_def rethrow_def catchRefusals_def isConcurrencyConflict_def
        split: sum.splits prod.splits)
  ultimately show ?thesis
    by (auto simp: scheduleUserDeletion_def runDisablePostEffects_def revokeLeaverDevices_def revokeLeaverDeviceClients_def
        Let_def cuts_devices_def dest: mirrorDisabled_log [OF prod.collapse [symmetric]])
qed

definition demo_broken :: outside where
  "demo_broken = demo_outside\<lparr>o_sessions := (\<lambda>_. None)\<rparr>"

definition demo_schedule :: outcome where
  "demo_schedule = scheduleUserDeletion demo_broken False (\<lambda>_. ''2026-01-01'') 0 (demo_request ''olga'' owner)
     ''retention'' False (demo_row ''ann'' admin) demo_owned"

theorem failed_sweep_keeps_leaver_devices_witness:
  "snd (snd demo_schedule) = Next SessionRevokeFailed \<and> filter cuts_devices (fst (snd demo_schedule)) = []"
proof -
  obtain db' log rep where run: "demo_schedule = (db', log, rep)" by (cases demo_schedule)
  have "fst demo_schedule \<noteq> demo_owned" by code_simp
  then have "db' \<noteq> demo_owned" unfolding run fst_conv .
  moreover have "o_sessions demo_broken (u_id (demo_row ''ann'' admin)) = None" by (simp add: demo_broken_def)
  moreover have "wf_directory demo_owned" by code_simp
  ultimately show ?thesis
    unfolding run fst_conv snd_conv filter_empty_conv
    using failed_sweep_keeps_leaver_devices [OF _ _ run [unfolded demo_schedule_def]] by blast
qed

text \<open>
   Once a person's row is claimed for purging, no step brings it back: it stays deactivated and
  purging until it is removed; and no step removes a row that is not in that state.
\<close>

theorem purge_is_final:
  assumes "request_step S db db'" "wf_directory db" "findUser db i = Some r"
  shows "(u_status r = DEACTIVATED \<and> u_deletion r = PURGING \<longrightarrow>
            (\<forall>s. findUser db' i = Some s \<longrightarrow> u_status s = DEACTIVATED \<and> u_deletion s = PURGING))
       \<and> (findUser db' i = None \<longrightarrow> u_status r = DEACTIVATED \<and> u_deletion r = PURGING)"
proof (intro conjI impI allI)
  note r = findUser_Some [OF assms(3)]
  have only: "s = r" if "s \<in> set db" "u_id s = i" for s
    using wf_same_id [OF assms(2) that(1)] that(2) r by auto
  fix s assume pur: "u_status r = DEACTIVATED \<and> u_deletion r = PURGING" and s: "findUser db' i = Some s"
  have "purging_person i db" using pur only by (auto simp: purging_person_def purging_row_def)
  with request_step_purging [OF assms(1)] r have "purging_person i db'" by blast
  with findUser_Some [OF s] show "u_status s = DEACTIVATED" "u_deletion s = PURGING"
    by (auto simp: purging_person_def purging_row_def)
next
  assume none: "findUser db' i = None"
  have "stays i db" "\<not> stays i db'"
    using findUser_Some [OF assms(3)] none by (auto simp: stays_def findUser_None)
  from request_step_stays [OF assms(1) this] obtain s where
    "s \<in> set db" "u_id s = i" "u_status s = DEACTIVATED \<and> u_deletion s = PURGING" by auto
  moreover then have "s = r"
    using wf_same_id [OF assms(2)] findUser_Some [OF assms(3)] by blast
  ultimately show "u_status r = DEACTIVATED" "u_deletion r = PURGING" by auto
qed

definition demo_purging :: directory where
  "demo_purging = [demo_row ''olga'' owner, (demo_row ''ann'' family)\<lparr>u_status := DEACTIVATED, u_deletion := PURGING\<rparr>]"

definition demo_enable :: outcome where
  "demo_enable = enableUser demo_outside (demo_request ''olga'' owner) ''ann'' demo_purging demo_purging"

theorem purge_is_final_witness:
  "\<exists>s. findUser (fst demo_enable) ''ann'' = Some s \<and> u_status s = DEACTIVATED \<and> u_deletion s = PURGING"
proof -
  have step: "request_step {demo_purging} demo_purging (fst demo_enable)"
    unfolding demo_enable_def by (intro request_step.enabled) simp
  have wf: "wf_directory demo_purging" by code_simp
  have row: "findUser demo_purging ''ann'' = Some ((demo_row ''ann'' family)\<lparr>u_status := DEACTIVATED, u_deletion := PURGING\<rparr>)"
    by (simp add: findUser_def demo_purging_def demo_row_def)
  have "findUser (fst demo_enable) ''ann'' \<noteq> None" by code_simp
  then show ?thesis using purge_is_final [OF step wf row] by auto
qed

end
