(* ===== verification/Dates.thy ===== *)
theory Dates
  imports Prelude
begin

text \<open>
  Dates as the sources use them: a \<^verbatim>\<open>Date\<close> is its time value, milliseconds since the epoch in
  UTC, and \<open>toISOString\<close> is its rendering.  The civil calendar is computed from the day number by
  cutting it into eras of 400 years, centuries, four-year spells and years that start in March, so
  that the leap day is the last of its year.
\<close>

section \<open>The civil calendar\<close>

definition day_ms :: int where
  "day_ms = 86400000"

text \<open>Day of the era: centuries are 36524 days and the last may have one more, and so on down.\<close>

definition century_of :: "int \<Rightarrow> int" where
  "century_of doe = min 3 (doe div 36524)"

definition spell_of :: "int \<Rightarrow> int" where
  "spell_of doe = (doe - 36524 * century_of doe) div 1461"

definition spell_day :: "int \<Rightarrow> int" where
  "spell_day doe = (doe - 36524 * century_of doe) mod 1461"

definition spell_year :: "int \<Rightarrow> int" where
  "spell_year doe = min 3 (spell_day doe div 365)"

definition year_day :: "int \<Rightarrow> int" where
  "year_day doe = spell_day doe - 365 * spell_year doe"

definition era_year :: "int \<Rightarrow> int" where
  "era_year doe = 100 * century_of doe + 4 * spell_of doe + spell_year doe"

definition civil_from_days :: "int \<Rightarrow> int \<times> int \<times> int" where
  "civil_from_days days =
     (let z = days + 719468; era = z div 146097; doe = z mod 146097;
          doy = year_day doe;
          mp = (5 * doy + 2) div 153;
          d = doy - (153 * mp + 2) div 5 + 1;
          m = (if mp < 10 then mp + 3 else mp - 9)
      in (era_year doe + 400 * era + (if m \<le> 2 then 1 else 0), m, d))"

definition days_from_civil :: "int \<Rightarrow> int \<Rightarrow> int \<Rightarrow> int" where
  "days_from_civil y m d =
     (let y' = (if m \<le> 2 then y - 1 else y); era = y' div 400; yoe = y' mod 400;
          doy = (153 * ((m + 9) mod 12) + 2) div 5 + d - 1
      in era * 146097 + yoe * 365 + yoe div 4 - yoe div 100 + doy - 719468)"

lemma century_bounds:
  assumes "0 \<le> doe" "doe < 146097"
  shows "0 \<le> century_of doe" "century_of doe \<le> 3" "0 \<le> doe - 36524 * century_of doe" "doe - 36524 * century_of doe \<le> 36524"
  using assms by (auto simp: century_of_def min_def)

lemma spell_bounds:
  assumes "0 \<le> doe" "doe < 146097"
  shows "0 \<le> spell_of doe" "spell_of doe \<le> 24" "0 \<le> spell_day doe" "spell_day doe \<le> 1460"
    "doe = 36524 * century_of doe + 1461 * spell_of doe + spell_day doe"
  using century_bounds [OF assms] by (auto simp: spell_of_def spell_day_def)

lemma spell_year_bounds:
  assumes "0 \<le> doe" "doe < 146097"
  shows "0 \<le> spell_year doe" "spell_year doe \<le> 3" "0 \<le> year_day doe" "year_day doe \<le> 365"
  using spell_bounds [OF assms] by (auto simp: spell_year_def year_day_def min_def)

lemma era_year_bounds:
  assumes "0 \<le> doe" "doe < 146097"
  shows "0 \<le> era_year doe" "era_year doe \<le> 399"
  using century_bounds [OF assms] spell_bounds [OF assms] spell_year_bounds [OF assms]
  by (auto simp: era_year_def)

lemma era_year_parts:
  assumes "0 \<le> doe" "doe < 146097"
  shows "era_year doe div 4 = 25 * century_of doe + spell_of doe" "era_year doe div 100 = century_of doe"
proof -
  have split: "era_year doe = 4 * (25 * century_of doe + spell_of doe) + spell_year doe"
    "era_year doe = 100 * century_of doe + (4 * spell_of doe + spell_year doe)"
    by (simp_all add: era_year_def)
  show "era_year doe div 4 = 25 * century_of doe + spell_of doe"
    using spell_year_bounds [OF assms] by (subst split(1)) simp
  show "era_year doe div 100 = century_of doe"
    using spell_bounds [OF assms] spell_year_bounds [OF assms] by (subst split(2)) simp
qed

lemma day_of_era:
  assumes "0 \<le> doe" "doe < 146097"
  shows "era_year doe * 365 + era_year doe div 4 - era_year doe div 100 + year_day doe = doe"
  unfolding era_year_parts [OF assms] using spell_bounds(5) [OF assms]
  by (simp add: era_year_def year_day_def)

lemma month_back:
  fixes mp :: int
  assumes "0 \<le> mp" "mp \<le> 11"
  shows "((if mp < 10 then mp + 3 else mp - 9) + 9) mod 12 = mp"
proof (cases "mp < 10")
  case True
  then have "(mp + 12) mod 12 = mp" using assms by simp
  with True show ?thesis by (simp add: add.assoc)
qed (use assms in auto)

text \<open>Months and days from the day of the year, counted from March.\<close>

definition march_month :: "int \<Rightarrow> int" where
  "march_month doy = (5 * doy + 2) div 153"

lemma march_month_bounds: "0 \<le> doy \<Longrightarrow> doy \<le> 365 \<Longrightarrow> 0 \<le> march_month doy \<and> march_month doy \<le> 11"
  by (auto simp: march_month_def)

lemma days_from_civil_back:
  assumes doe: "0 \<le> doe" "doe < 146097" and mp: "mp = march_month (year_day doe)"
    and m: "m = (if mp < 10 then mp + 3 else mp - 9)"
  shows "days_from_civil (era_year doe + 400 * era + (if m \<le> 2 then 1 else 0)) m (year_day doe - (153 * mp + 2) div 5 + 1)
    = era * 146097 + doe - 719468"
proof -
  have "0 \<le> mp \<and> mp \<le> 11"
    using march_month_bounds spell_year_bounds(3,4) [OF doe] mp by simp
  then have mback: "(m + 9) mod 12 = mp" using month_back [of mp] m by simp
  have year: "(if m \<le> 2 then era_year doe + 400 * era + (if m \<le> 2 then 1 else 0) - 1
      else era_year doe + 400 * era + (if m \<le> 2 then 1 else 0)) = era_year doe + 400 * era" by simp
  have parts: "(era_year doe + 400 * era) div 400 = era" "(era_year doe + 400 * era) mod 400 = era_year doe"
    using era_year_bounds [OF doe] by simp_all
  define a b c where "a = era_year doe div 4" and "b = era_year doe div 100" and "c = (153 * mp + 2) div 5"
  have "era_year doe * 365 + a - b + year_day doe = doe"
    unfolding a_def b_def by (rule day_of_era [OF doe])
  then show ?thesis
    unfolding days_from_civil_def Let_def year mback parts a_def [symmetric] b_def [symmetric] c_def [symmetric] by linarith
qed

theorem days_from_civil_from_days:
  assumes "civil_from_days days = (y, m, d)"
  shows "days_from_civil y m d = days"
proof -
  define z where "z = days + 719468"
  have doe: "0 \<le> z mod 146097" "z mod 146097 < 146097" by simp_all
  have "z div 146097 * 146097 + z mod 146097 = z" by (rule div_mult_mod_eq)
  with days_from_civil_back [OF doe refl refl, of "z div 146097"] assms show ?thesis
    unfolding civil_from_days_def Let_def march_month_def z_def [symmetric] by (auto simp: z_def)
qed

lemma civil_from_days_inj: "civil_from_days a = civil_from_days b \<Longrightarrow> a = b"
  by (metis days_from_civil_from_days prod_cases3)

lemma month_day_bounds:
  assumes "0 \<le> doy" "doy \<le> 365"
  shows "0 \<le> doy - (153 * march_month doy + 2) div 5 \<and> doy - (153 * march_month doy + 2) div 5 \<le> 30"
proof -
  define q r where "q = march_month doy" and "r = (5 * doy + 2) mod 153"
  have "5 * doy + 2 = 153 * q + r" "0 \<le> r" "r < 153" by (simp_all add: q_def r_def march_month_def)
  then have "5 * doy = 153 * q + (r - 2)" by simp
  moreover have "(153 * q + 2) div 5 * 5 + (153 * q + 2) mod 5 = 153 * q + 2" by (rule div_mult_mod_eq)
  moreover have "0 \<le> (153 * q + 2) mod 5" "(153 * q + 2) mod 5 < 5" by simp_all
  ultimately show ?thesis using \<open>0 \<le> r\<close> \<open>r < 153\<close> unfolding q_def [symmetric] by linarith
qed

lemma civil_from_days_ranges:
  assumes "civil_from_days days = (y, m, d)"
  shows "1 \<le> m \<and> m \<le> 12 \<and> 1 \<le> d \<and> d \<le> 31"
proof -
  define doy where "doy = year_day ((days + 719468) mod 146097)"
  have b: "0 \<le> doy" "doy \<le> 365"
    unfolding doy_def using spell_year_bounds(3,4) [of "(days + 719468) mod 146097"] by simp_all
  from assms have "m = (if march_month doy < 10 then march_month doy + 3 else march_month doy - 9)"
    "d = doy - (153 * march_month doy + 2) div 5 + 1"
    unfolding civil_from_days_def Let_def march_month_def doy_def by auto
  with month_day_bounds [OF b] march_month_bounds [OF b] show ?thesis by auto
qed

section \<open>Rendering\<close>

definition pad :: "nat \<Rightarrow> int \<Rightarrow> string" where
  "pad w n = replicate (w - length (show_nat (nat n))) (CHR ''0'') @ show_nat (nat n)"

definition year_text :: "int \<Rightarrow> string" where
  "year_text y = (if 0 \<le> y \<and> y \<le> 9999 then pad 4 y
     else if y < 0 then ''-'' @ pad 6 (- y) else ''+'' @ pad 6 y)"

definition date_part :: "int \<Rightarrow> string" where
  "date_part days = (case civil_from_days days of (y, m, d) \<Rightarrow> year_text y @ ''-'' @ pad 2 m @ ''-'' @ pad 2 d)"

definition clock_part :: "int \<Rightarrow> string" where
  "clock_part ms = pad 2 (ms div 3600000) @ '':'' @ pad 2 (ms div 60000 mod 60) @ '':''
     @ pad 2 (ms div 1000 mod 60) @ ''.'' @ pad 3 (ms mod 1000)"

text \<open>\<^verbatim>\<open>Date.prototype.toISOString\<close>.\<close>

definition toISOString :: "int \<Rightarrow> string" where
  "toISOString t = date_part (t div day_ms) @ ''T'' @ clock_part (t mod day_ms) @ ''Z''"

lemma nat_of_digits_zeros [simp]: "nat_of_digits (replicate k (CHR ''0'') @ s) = nat_of_digits s"
  by (induction k) (simp_all add: nat_of_digits_def digit_val_def)

lemma nat_of_digits_pad [simp]: "0 \<le> n \<Longrightarrow> nat_of_digits (pad w n) = nat n"
  by (simp add: pad_def nat_of_digits_show_nat)

lemma pad_inj: "0 \<le> a \<Longrightarrow> 0 \<le> b \<Longrightarrow> pad w a = pad w b \<Longrightarrow> a = b"
  by (metis nat_of_digits_pad nat_0_le)

lemma length_show_nat: "n < 10 ^ w \<Longrightarrow> 0 < w \<Longrightarrow> length (show_nat n) \<le> w"
proof (induction n arbitrary: w rule: show_nat.induct)
  case (1 n)
  show ?case
  proof (cases "n < 10")
    case False
    with 1(2,3) obtain v where v: "w = Suc v" "0 < v" by (cases w; cases "w - 1") auto
    then have "n div 10 < 10 ^ v" using 1(2) by (simp add: less_mult_imp_div_less mult.commute)
    with 1(1) [OF False] v False show ?thesis by (simp add: show_nat.simps [of n])
  qed (use 1 in \<open>simp add: show_nat.simps [of n]\<close>)
qed

lemma length_pad: "0 \<le> n \<Longrightarrow> n < 10 ^ w \<Longrightarrow> 0 < w \<Longrightarrow> length (pad w n) = w"
  using length_show_nat [of "nat n" w] by (simp add: pad_def nat_less_iff)

lemma pad_digits: "c \<in> set (pad w n) \<Longrightarrow> is_digit c"
  by (auto simp: pad_def is_digit_def dest: show_nat_digits)

lemma pad_nonempty: "pad w n \<noteq> []"
  by (simp add: pad_def show_nat.simps [of "nat n"])

lemma pad_not_sign: "pad w n = c # s \<Longrightarrow> c \<noteq> CHR ''-'' \<and> c \<noteq> CHR ''+''"
proof -
  assume "pad w n = c # s"
  then have "is_digit c" using pad_digits [of c w n] by simp
  then show ?thesis by (auto simp: is_digit_def)
qed

lemma pad_split:
  assumes "pad v a @ d # x = pad v b @ d # y" "\<not> is_digit d" "0 \<le> a" "0 \<le> b"
  shows "a = b \<and> x = y"
  using delimiter_split [of d "pad v a" "pad v b" x y] assms pad_digits pad_inj by blast

lemma year_text_inj: "year_text a = year_text b \<Longrightarrow> a = b"
  unfolding year_text_def
  using pad_inj [of "- a" "- b" 6] pad_inj [of a b 6] pad_inj [of a b 4]
  by (auto split: if_splits dest: pad_not_sign pad_not_sign [OF sym])

definition time_of :: "int \<Rightarrow> int \<Rightarrow> int \<Rightarrow> int \<Rightarrow> int" where
  "time_of h m s ms = 3600000 * h + 60000 * m + 1000 * s + ms"

lemma time_split: "time_of (t div 3600000) (t div 60000 mod 60) (t div 1000 mod 60) (t mod 1000) = t"
proof -
  have "t div 1000 = t div 60000 * 60 + t div 1000 mod 60"
    using div_mult_mod_eq [of "t div 1000" 60] zdiv_zmult2_eq [of 60 t 1000] by simp
  moreover have "t div 60000 = t div 3600000 * 60 + t div 60000 mod 60"
    using div_mult_mod_eq [of "t div 60000" 60] zdiv_zmult2_eq [of 60 t 60000] by simp
  moreover have "t = 1000 * (t div 1000) + t mod 1000" by simp
  ultimately show ?thesis unfolding time_of_def by linarith
qed

lemma clock_part_inj:
  assumes "0 \<le> s" "0 \<le> t" and eq: "clock_part s = clock_part t"
  shows "s = t"
proof -
  have pos: "0 \<le> s div 3600000" "0 \<le> t div 3600000" "0 \<le> s div 60000 mod 60" "0 \<le> t div 60000 mod 60"
    "0 \<le> s div 1000 mod 60" "0 \<le> t div 1000 mod 60" "0 \<le> s mod 1000" "0 \<le> t mod 1000"
    using assms by (simp_all add: pos_imp_zdiv_nonneg_iff)
  have marks: "\<not> is_digit (CHR '':'')" "\<not> is_digit (CHR ''.'')" by (simp_all add: is_digit_def)
  note h = pad_split [OF eq [unfolded clock_part_def append_Cons append_Nil] marks(1) pos(1,2)]
  note m = pad_split [OF h [THEN conjunct2] marks(1) pos(3,4)]
  note c = pad_split [OF m [THEN conjunct2] marks(2) pos(5,6)]
  note ms = pad_inj [OF pos(7,8) c [THEN conjunct2]]
  show ?thesis
    using time_split [of s] unfolding h [THEN conjunct1] m [THEN conjunct1] c [THEN conjunct1] ms time_split by (rule sym)
qed

lemma length_clock_part:
  assumes "0 \<le> t" "t < day_ms"
  shows "length (clock_part t) = 12"
proof -
  have "length (pad 2 (t div 3600000)) = 2"
    by (rule length_pad) (use assms in \<open>simp_all add: day_ms_def pos_imp_zdiv_nonneg_iff\<close>)
  moreover have "length (pad 2 (t div 60000 mod 60)) = 2"
    by (rule length_pad, simp, rule less_le_trans [OF pos_mod_bound], simp_all)
  moreover have "length (pad 2 (t div 1000 mod 60)) = 2"
    by (rule length_pad, simp, rule less_le_trans [OF pos_mod_bound], simp_all)
  moreover have "length (pad 3 (t mod 1000)) = 3"
    by (rule length_pad, simp, rule less_le_trans [OF pos_mod_bound], simp_all)
  ultimately show ?thesis unfolding clock_part_def length_append by (simp only: list.size)
qed

lemma date_part_inj: "date_part a = date_part b \<Longrightarrow> a = b"
proof -
  obtain y m d where a: "civil_from_days a = (y, m, d)" by (metis prod_cases3)
  obtain y' m' d' where b: "civil_from_days b = (y', m', d')" by (metis prod_cases3)
  note ra = civil_from_days_ranges [OF a] and rb = civil_from_days_ranges [OF b]
  assume "date_part a = date_part b"
  then have eq: "year_text y @ CHR ''-'' # pad 2 m @ CHR ''-'' # pad 2 d = year_text y' @ CHR ''-'' # pad 2 m' @ CHR ''-'' # pad 2 d'"
    by (simp add: date_part_def a b)
  have "length (pad 2 m) = 2" "length (pad 2 m') = 2" "length (pad 2 d) = 2" "length (pad 2 d') = 2"
    using ra rb by (simp_all add: length_pad)
  with eq have "year_text y = year_text y' \<and> pad 2 m = pad 2 m' \<and> pad 2 d = pad 2 d'"
    by (simp add: append_eq_append_conv)
  then have "y = y'" "m = m'" "d = d'" using year_text_inj pad_inj ra rb by auto
  with a b civil_from_days_inj show "a = b" by metis
qed

theorem toISOString_inj: "toISOString s = toISOString t \<Longrightarrow> s = t"
proof -
  assume eq: "toISOString s = toISOString t"
  have r: "0 \<le> s mod day_ms" "s mod day_ms < day_ms" "0 \<le> t mod day_ms" "t mod day_ms < day_ms"
    by (simp_all add: day_ms_def)
  have "date_part (s div day_ms) = date_part (t div day_ms) \<and> clock_part (s mod day_ms) = clock_part (t mod day_ms)"
    using eq r by (simp add: toISOString_def length_clock_part append_eq_append_conv)
  then have "s div day_ms = t div day_ms" "s mod day_ms = t mod day_ms"
    using date_part_inj clock_part_inj r by auto
  then show "s = t" by (metis div_mult_mod_eq)
qed

end
