(* ===== verification/Audit_Signing.thy ===== *)
theory Audit_Signing
  imports Json Dates
begin

text \<open>
  The signing of audit rows, \<^verbatim>\<open>apps/orchestrator/src/services/audit-signing.service.ts\<close>: the
  canonical text of a row's content, the HMAC signer, the loading of the current and of the retired
  keys, and the epoch rule over the keyring.  HMAC-SHA256 and SHA-256, with the encodings of their
  output, are parameters: \<open>hmac key text\<close> is the base64url digest, \<open>sha text\<close> the base64url and
  \<open>shaHex key\<close> the hexadecimal digest.
\<close>

section \<open>Canonical content\<close>

record row_content =
  c_at :: int
  c_severity :: string
  c_icon :: string
  c_what :: string
  c_sub :: "string option"
  c_kind :: string
  c_refs :: "(string \<times> json) list option"
  c_actor_type :: "string option"
  c_actor_id :: "string option"
  c_version :: int

function sortValue :: "json \<Rightarrow> json" where
  "sortValue JNull = JNull"
| "sortValue JUndef = JUndef"
| "sortValue (JBool b) = JBool b"
| "sortValue (JNum n) = JNum n"
| "sortValue (JStr s) = JStr s"
| "sortValue (JArr xs) = JArr (map sortValue xs)"
| "sortValue (JObj kvs) = JObj (built_object (map (\<lambda>(k, v). (k, sortValue v)) (sort_key fst kvs)))"
  by pat_completeness auto
termination
  by (relation "measure size") (auto simp: size_json_member less_Suc_eq_le size_list_estimation')

definition json_option :: "string option \<Rightarrow> json" where
  "json_option s = (case s of None \<Rightarrow> JNull | Some t \<Rightarrow> JStr t)"

definition refs_value :: "(string \<times> json) list option \<Rightarrow> json" where
  "refs_value r = (case r of None \<Rightarrow> JNull | Some kvs \<Rightarrow> sortValue (JObj kvs))"

datatype audit_error = UnknownSchemaVersion int | KeyTooShort nat | KeyConflict | KeyMissing

definition ordered_content :: "row_content \<Rightarrow> (audit_error, json) result" where
  "ordered_content c =
     (if c_version c = 1 then Return (JObj [
        (''at'', JStr (toISOString (c_at c))), (''kind'', JStr (c_kind c)), (''refs'', refs_value (c_refs c)),
        (''severity'', JStr (c_severity c)), (''sourceIcon'', JStr (c_icon c)), (''sub'', json_option (c_sub c)),
        (''what'', JStr (c_what c))])
      else if c_version c = 2 then Return (JObj [
        (''actorId'', json_option (c_actor_id c)), (''actorType'', json_option (c_actor_type c)),
        (''at'', JStr (toISOString (c_at c))), (''kind'', JStr (c_kind c)), (''refs'', refs_value (c_refs c)),
        (''severity'', JStr (c_severity c)), (''sourceIcon'', JStr (c_icon c)), (''sub'', json_option (c_sub c)),
        (''what'', JStr (c_what c))])
      else Throw (UnknownSchemaVersion (c_version c)))"

definition canonicalizeRowContent :: "row_content \<Rightarrow> (audit_error, string) result" where
  "canonicalizeRowContent c = map_sum id stringify (ordered_content c)"

definition canonicalRefsJson :: "(string \<times> json) list option \<Rightarrow> string option" where
  "canonicalRefsJson r = (case r of None \<Rightarrow> None | Some kvs \<Rightarrow> Some (stringify (sortValue (JObj kvs))))"

section \<open>The signer\<close>

type_synonym bytes = string

definition MIN_KEY_BYTES :: nat where
  "MIN_KEY_BYTES = 32"

type_synonym row_signer = "row_content \<Rightarrow> string \<Rightarrow> (audit_error, string) result"

definition signed_text :: "string \<Rightarrow> string \<Rightarrow> string" where
  "signed_text canonical prevSignatureHash = canonical @ ''|'' @ prevSignatureHash"

definition hmacSign :: "(bytes \<Rightarrow> string \<Rightarrow> string) \<Rightarrow> bytes \<Rightarrow> row_signer" where
  "hmacSign hmac key c prevSignatureHash =
     andThen (canonicalizeRowContent c) (\<lambda>canonical. Return (hmac key (signed_text canonical prevSignatureHash)))"

definition createHmacSigner :: "(bytes \<Rightarrow> string \<Rightarrow> string) \<Rightarrow> bytes \<Rightarrow> (audit_error, row_signer) result" where
  "createHmacSigner hmac key =
     (if length key < MIN_KEY_BYTES then Throw (KeyTooShort (length key)) else Return (hmacSign hmac key))"

text \<open>The signer's \<^verbatim>\<open>verify\<close>: sign again and compare, first the lengths, then the bytes.\<close>

definition signerVerify :: "row_signer \<Rightarrow> row_content \<Rightarrow> string \<Rightarrow> string \<Rightarrow> (audit_error, bool) result" where
  "signerVerify sign c prevSignatureHash signature =
     andThen (sign c prevSignatureHash) (\<lambda>expected.
       Return (if length expected \<noteq> length signature then False else expected = signature))"

section \<open>Keys\<close>

definition loadAuditKeyFromDisk ::
  "(string \<Rightarrow> bytes) \<Rightarrow> bytes option \<Rightarrow> string option \<Rightarrow> bool \<Rightarrow> (audit_error, bytes) result" where
  "loadAuditKeyFromDisk fromBase64 disk env production =
     (let envKey = (if env = Some [] then None else env)
      in case disk of
           Some diskKey \<Rightarrow>
             if length diskKey < MIN_KEY_BYTES then Throw (KeyTooShort (length diskKey))
             else (case envKey of None \<Rightarrow> Return diskKey
               | Some raw \<Rightarrow>
                   if diskKey = fromBase64 raw then Return diskKey
                   else if production then Throw KeyConflict
                   else Return (fromBase64 raw))
         | None \<Rightarrow>
             (case envKey of None \<Rightarrow> Throw KeyMissing
              | Some raw \<Rightarrow>
                  if length (fromBase64 raw) < MIN_KEY_BYTES then Throw (KeyTooShort (length (fromBase64 raw)))
                  else Return (fromBase64 raw)))"

definition auditKeyId :: "(bytes \<Rightarrow> string) \<Rightarrow> bytes \<Rightarrow> string" where
  "auditKeyId shaHex key = take 16 (shaHex key)"

record audit_key_epoch =
  ke_id :: string
  ke_signer :: row_signer

definition is_hex :: "char \<Rightarrow> bool" where
  "is_hex c \<longleftrightarrow> is_digit c \<or> (97 \<le> (of_char c :: nat) \<and> (of_char c :: nat) \<le> 102)"

text \<open>\<^verbatim>\<open>/^\d{8}T\d{6}Z-([0-9a-f]{16})\.key$/\<close>\<close>

definition retired_key_id :: "string \<Rightarrow> string option" where
  "retired_key_id name =
     (if length name = 37 \<and> list_all is_digit (take 8 name) \<and> name ! 8 = CHR ''T''
         \<and> list_all is_digit (take 6 (drop 9 name)) \<and> take 2 (drop 15 name) = ''Z-''
         \<and> list_all is_hex (take 16 (drop 17 name)) \<and> drop 33 name = ''.key''
      then Some (take 16 (drop 17 name)) else None)"

text \<open>
  The directory is \<open>None\<close> when it cannot be read; otherwise it maps each name to its bytes.
\<close>

definition loadRetiredAuditKeys ::
  "(bytes \<Rightarrow> string \<Rightarrow> string) \<Rightarrow> (bytes \<Rightarrow> string) \<Rightarrow> (string \<times> bytes) list option \<Rightarrow> audit_key_epoch list" where
  "loadRetiredAuditKeys hmac shaHex dir = (case dir of None \<Rightarrow> []
     | Some files \<Rightarrow> List.map_filter (\<lambda>(name, bytes). case retired_key_id name of None \<Rightarrow> None
         | Some kid \<Rightarrow> if length bytes < MIN_KEY_BYTES \<or> auditKeyId shaHex bytes \<noteq> kid then None
             else Some \<lparr>ke_id = kid, ke_signer = hmacSign hmac bytes\<rparr>) (sort_key fst files))"

section \<open>The epoch rule\<close>

text \<open>An unknown schema version throws in the signer; the checker reads it as no match.\<close>

definition key_accepts :: "audit_key_epoch \<Rightarrow> row_content \<Rightarrow> string \<Rightarrow> string \<Rightarrow> bool" where
  "key_accepts k c prev signature = (case signerVerify (ke_signer k) c prev signature of Inl _ \<Rightarrow> False | Inr ok \<Rightarrow> ok)"

text \<open>The checker keeps the epoch; a match gives the key's id and moves it to the matching key.\<close>

definition epochVerify ::
  "audit_key_epoch list \<Rightarrow> nat \<Rightarrow> row_content \<Rightarrow> string \<Rightarrow> string \<Rightarrow> (string \<times> nat) option" where
  "epochVerify keys epoch c prev signature =
     map_option (\<lambda>i. (ke_id (keys ! i), i))
       (find (\<lambda>i. key_accepts (keys ! i) c prev signature) [epoch ..< length keys])"

section \<open>What a signature commits to\<close>

lemma clean_sortValue: "clean v \<Longrightarrow> clean (sortValue v)"
proof (induction v rule: sortValue.induct)
  case (7 kvs)
  then show ?case by (fastforce simp: list_all_iff set_built_object)
qed (auto simp: list_all_iff)

text \<open>Stored references are parsed JSON, so they hold no undefined value.\<close>

definition clean_content :: "row_content \<Rightarrow> bool" where
  "clean_content c \<longleftrightarrow> (case c_refs c of None \<Rightarrow> True | Some kvs \<Rightarrow> clean (JObj kvs))"

lemma clean_json_option [simp]: "clean (json_option s)"
  by (simp add: json_option_def split: option.split)

lemma clean_refs_value: "clean_content c \<Longrightarrow> clean (refs_value (c_refs c))"
  by (cases "c_refs c") (simp_all add: clean_content_def refs_value_def clean_sortValue del: clean.simps(7) sortValue.simps(7))

lemma clean_ordered: "clean_content c \<Longrightarrow> ordered_content c = Return v \<Longrightarrow> clean v"
  by (auto simp: ordered_content_def clean_refs_value split: if_splits)

lemma json_option_inj [simp]: "json_option a = json_option b \<longleftrightarrow> a = b"
  by (auto simp: json_option_def split: option.splits)

text \<open>
  Two contents a signature does not tell apart: every field the schema version covers is equal, the
  references up to the order of keys.
\<close>

definition same_content :: "row_content \<Rightarrow> row_content \<Rightarrow> bool" where
  "same_content a b \<longleftrightarrow> c_version a = c_version b \<and> c_at a = c_at b \<and> c_severity a = c_severity b
     \<and> c_icon a = c_icon b \<and> c_what a = c_what b \<and> c_sub a = c_sub b \<and> c_kind a = c_kind b
     \<and> refs_value (c_refs a) = refs_value (c_refs b)
     \<and> (c_version a = 2 \<longrightarrow> c_actor_type a = c_actor_type b \<and> c_actor_id a = c_actor_id b)"

lemma ordered_content_inj:
  "ordered_content a = Return v \<Longrightarrow> ordered_content b = Return v \<Longrightarrow> same_content a b"
  by (auto simp: ordered_content_def same_content_def toISOString_inj split: if_splits)

lemma canonical_inj:
  assumes "clean_content a" "clean_content b" "canonicalizeRowContent a = Return t" "canonicalizeRowContent b = Return t"
  shows "same_content a b"
proof -
  obtain u v where u: "ordered_content a = Return u" "stringify u = t" and v: "ordered_content b = Return v" "stringify v = t"
    using assms(3,4) by (cases "ordered_content a"; cases "ordered_content b") (auto simp: canonicalizeRowContent_def)
  then have "u = v"
    using stringify_inj clean_ordered assms(1,2) by metis
  with u v ordered_content_inj show ?thesis by blast
qed

text \<open>
  The separator: the hash on its right has none, so the text determines both sides, although the
  canonical text may well contain the separator.
\<close>

lemma signed_text_inj:
  assumes "signed_text a p = signed_text b q" "CHR ''|'' \<notin> set p" "CHR ''|'' \<notin> set q"
  shows "a = b \<and> p = q"
  using delimiter_split_last [of "CHR ''|''" p q a b] assms by (simp add: signed_text_def)

text \<open>Keys the keyring holds and the rows they accept.\<close>

lemma signerVerify_eq: "signerVerify sign c p s = map_sum id (\<lambda>e. e = s) (sign c p)"
  by (cases "sign c p") (auto simp: signerVerify_def)

lemma key_accepts_iff: "key_accepts k c p s \<longleftrightarrow> ke_signer k c p = Return s"
  by (cases "ke_signer k c p") (auto simp: key_accepts_def signerVerify_eq)

lemma hmac_accepts_iff:
  "hmacSign hmac key c p = Return s \<longleftrightarrow>
     (\<exists>t. canonicalizeRowContent c = Return t \<and> s = hmac key (signed_text t p))"
  by (auto simp: hmacSign_def andThen_eq_Return)

section \<open>The contract of an epoch checker\<close>

text \<open>
  What the chain walk relies on: the checker accepts exactly when a key of the current epoch or a
  later one accepts, and it moves to the first such key.
\<close>

locale epoch_checker =
  fixes accepts :: "nat \<Rightarrow> row_content \<Rightarrow> string \<Rightarrow> string \<Rightarrow> bool"
    and last_epoch :: nat
    and check :: "nat \<Rightarrow> row_content \<Rightarrow> string \<Rightarrow> string \<Rightarrow> (string \<times> nat) option"
  assumes check_Some: "check e c p s = Some (kid, i) \<Longrightarrow>
      e \<le> i \<and> i < last_epoch \<and> accepts i c p s \<and> (\<forall>j. e \<le> j \<and> j < i \<longrightarrow> \<not> accepts j c p s)"
    and check_None: "check e c p s = None \<Longrightarrow> e \<le> i \<Longrightarrow> i < last_epoch \<Longrightarrow> \<not> accepts i c p s"
begin

lemma check_total:
  assumes "e \<le> i" "i < last_epoch" "accepts i c p s"
  obtains kid j where "check e c p s = Some (kid, j)" "j \<le> i"
proof (cases "check e c p s")
  case None
  with check_None assms show ?thesis by blast
next
  case (Some x)
  then have found: "check e c p s = Some (fst x, snd x)" by simp
  have "snd x \<le> i" using check_Some [OF found] assms by (meson not_le)
  with found that show ?thesis by blast
qed

end

lemma epochVerify_Some:
  "epochVerify keys e c p s = Some (kid, i) \<longleftrightarrow>
     e \<le> i \<and> i < length keys \<and> kid = ke_id (keys ! i) \<and> key_accepts (keys ! i) c p s
     \<and> (\<forall>j. e \<le> j \<and> j < i \<longrightarrow> \<not> key_accepts (keys ! j) c p s)"
proof -
  have "find q [e ..< n] = Some i \<longleftrightarrow> e \<le> i \<and> i < n \<and> q i \<and> (\<forall>j. e \<le> j \<and> j < i \<longrightarrow> \<not> q j)" for q n i
  proof -
    have "find q [e ..< n] = Some i \<longleftrightarrow> (\<exists>k < n - e. q (e + k) \<and> i = e + k \<and> (\<forall>j < k. \<not> q (e + j)))"
      by (auto simp: find_Some_iff)
    also have "\<dots> \<longleftrightarrow> e \<le> i \<and> i < n \<and> q i \<and> (\<forall>j. e \<le> j \<and> j < i \<longrightarrow> \<not> q j)"
    proof safe
      fix k j assume "\<forall>j<k. \<not> q (e + j)" "e \<le> j" "j < e + k" "q j"
      then show False by (metis add_less_cancel_left le_add_diff_inverse)
    next
      assume "e \<le> i" "i < n" "q i" "\<forall>j. e \<le> j \<and> j < i \<longrightarrow> \<not> q j"
      then show "\<exists>k<n - e. q (e + k) \<and> i = e + k \<and> (\<forall>j<k. \<not> q (e + j))"
        by (intro exI [of _ "i - e"]) auto
    qed auto
    finally show ?thesis .
  qed
  then show ?thesis by (auto simp: epochVerify_def)
qed

interpretation ring: epoch_checker "\<lambda>i. key_accepts (keys ! i)" "length keys" "epochVerify keys"
proof
  fix e c p s kid i
  assume "epochVerify keys e c p s = Some (kid, i)"
  then show "e \<le> i \<and> i < length keys \<and> key_accepts (keys ! i) c p s \<and> (\<forall>j. e \<le> j \<and> j < i \<longrightarrow> \<not> key_accepts (keys ! j) c p s)"
    by (simp add: epochVerify_Some)
next
  fix e c p s i
  assume "epochVerify keys e c p s = None" "e \<le> i" "i < length keys"
  then show "\<not> key_accepts (keys ! i) c p s" by (auto simp: epochVerify_def find_None_iff)
qed

end
