(* ===== verification/Audit_Chain.thy ===== *)
theory Audit_Chain
  imports Audit_Signing
begin

text \<open>
  The signed chain: the append of \<^verbatim>\<open>services/activity.service.ts\<close>, the paged verification walk of
  \<^verbatim>\<open>services/audit-verify.service.ts\<close> and the head of \<^verbatim>\<open>services/audit-chain-head.service.ts\<close>.  The
  table \<^verbatim>\<open>ActivityRow\<close> is the list of its rows in ascending id; the append runs under the chain lock,
  so it is one step on that list.
\<close>

section \<open>Rows and the append\<close>

record activity_row = row_content +
  r_id :: int
  r_signature :: string
  r_prev :: string

text \<open>A stored row's signature-covered content.\<close>

definition activityRowContent :: "activity_row \<Rightarrow> row_content" where
  "activityRowContent r = \<lparr>c_at = c_at r, c_severity = c_severity r, c_icon = c_icon r, c_what = c_what r,
     c_sub = c_sub r, c_kind = c_kind r, c_refs = c_refs r, c_actor_type = c_actor_type r,
     c_actor_id = c_actor_id r, c_version = c_version r\<rparr>"

definition hashSignature :: "(string \<Rightarrow> string) \<Rightarrow> string \<Rightarrow> string" where
  "hashSignature sha signature = sha signature"

record record_params =
  p_kind :: string
  p_severity :: string
  p_icon :: string
  p_what :: string
  p_sub :: "string option"
  p_refs :: "(string \<times> json) list option"
  p_actor :: "(string \<times> string option) option"
  p_at :: "int option"

datatype record_error =
    UnknownKind | UnknownSeverity | UnknownActorType | UserWithoutId | Signing audit_error

definition KNOWN_KINDS :: "string list" where
  "KNOWN_KINDS = [''chat'', ''tool_call'', ''file'', ''camera'', ''network'', ''smart_home'', ''email'', ''auth'',
     ''tool_run'', ''system'', ''voice'']"

definition KNOWN_SEVERITIES :: "string list" where
  "KNOWN_SEVERITIES = [''ok'', ''warn'', ''err'', ''info'']"

definition KNOWN_ACTOR_TYPES :: "string list" where
  "KNOWN_ACTOR_TYPES = [''user'', ''ai'', ''system'', ''anonymous'']"

definition validateRecordParams :: "record_params \<Rightarrow> (record_error, string \<times> string option) result" where
  "validateRecordParams p =
     seq (throw_if (p_kind p \<notin> set KNOWN_KINDS) UnknownKind)
    (seq (throw_if (p_severity p \<notin> set KNOWN_SEVERITIES) UnknownSeverity)
    (case p_actor p of None \<Rightarrow> Throw UnknownActorType
     | Some (t, i) \<Rightarrow>
         seq (throw_if (t \<notin> set KNOWN_ACTOR_TYPES) UnknownActorType)
        (seq (throw_if (t = ''user'' \<and> (case i of None \<Rightarrow> True | Some s \<Rightarrow> js_trim s = [])) UserWithoutId)
        (Return (t, i)))))"

definition snapshotRecordParams :: "record_params \<Rightarrow> int \<Rightarrow> record_params" where
  "snapshotRecordParams p defaultAt =
     p\<lparr>p_at := Some (case p_at p of None \<Rightarrow> defaultAt | Some t \<Rightarrow> t)\<rparr>"

definition CURRENT_ACTIVITY_SCHEMA_VERSION :: int where
  "CURRENT_ACTIVITY_SCHEMA_VERSION = 2"

definition next_id :: "activity_row list \<Rightarrow> int" where
  "next_id rows = (if rows = [] then 1 else r_id (last rows) + 1)"

text \<open>
  \<open>stored\<close> is what the \<^verbatim>\<open>jsonb\<close> column gives back for a document written to it.  \<open>gap\<close> is the number
  of ids that rolled-back inserts have used up since the last row.
\<close>

definition recorded_content :: "record_params \<Rightarrow> string \<Rightarrow> string option \<Rightarrow> row_content" where
  "recorded_content p actorType actorId =
     \<lparr>c_at = the (p_at p), c_severity = p_severity p, c_icon = p_icon p, c_what = p_what p, c_sub = p_sub p,
      c_kind = p_kind p, c_refs = p_refs p, c_actor_type = Some actorType, c_actor_id = actorId,
      c_version = CURRENT_ACTIVITY_SCHEMA_VERSION\<rparr>"

definition inserted_row ::
  "((string \<times> json) list \<Rightarrow> (string \<times> json) list) \<Rightarrow> row_content \<Rightarrow> int \<Rightarrow> string \<Rightarrow> string \<Rightarrow> activity_row" where
  "inserted_row stored c i signature prev =
     \<lparr>c_at = c_at c, c_severity = c_severity c, c_icon = c_icon c, c_what = c_what c, c_sub = c_sub c,
      c_kind = c_kind c, c_refs = map_option stored (c_refs c), c_actor_type = c_actor_type c,
      c_actor_id = c_actor_id c, c_version = c_version c, r_id = i, r_signature = signature, r_prev = prev\<rparr>"

definition tail_hash :: "(string \<Rightarrow> string) \<Rightarrow> activity_row list \<Rightarrow> string" where
  "tail_hash sha rows =
     (let prevSig = (if rows = [] then [] else r_signature (last rows))
      in if prevSig = [] then [] else hashSignature sha prevSig)"

definition appendActivityRow ::
  "row_signer \<Rightarrow> (string \<Rightarrow> string) \<Rightarrow> ((string \<times> json) list \<Rightarrow> (string \<times> json) list) \<Rightarrow> nat \<Rightarrow> int \<Rightarrow> record_params
     \<Rightarrow> activity_row list \<Rightarrow> (record_error, activity_row list) result" where
  "appendActivityRow sign sha stored gap now params rows =
     (let p = snapshotRecordParams params now in
      andThen (validateRecordParams p) (\<lambda>(actorType, actorId).
        let c = recorded_content p actorType actorId
        in case sign c (tail_hash sha rows) of
             Inl e \<Rightarrow> Throw (Signing e)
           | Inr signature \<Rightarrow>
               Return (rows @ [inserted_row stored c (next_id rows + int gap) signature (tail_hash sha rows)])))"

section \<open>The verification walk\<close>

record walk_state =
  w_epoch :: nat
  w_prev :: "string option"
  w_checked :: nat

record verify_result =
  v_ok :: bool
  v_checked :: nat
  v_broken :: "int option"

text \<open>The inner loop over one page: the id of the first broken row, or the state after the page.\<close>

fun walk_page ::
  "(string \<Rightarrow> string) \<Rightarrow> audit_key_epoch list \<Rightarrow> walk_state \<Rightarrow> activity_row list \<Rightarrow> (nat \<times> int) + walk_state" where
  "walk_page sha keys w [] = Inr w"
| "walk_page sha keys w (r # rs) =
     (let checked = w_checked w + 1;
          expectedPrevHash = (case w_prev w of None \<Rightarrow> r_prev r | Some s \<Rightarrow> hashSignature sha s)
      in if r_prev r \<noteq> expectedPrevHash then Inl (checked, r_id r)
         else case epochVerify keys (w_epoch w) (activityRowContent r) expectedPrevHash (r_signature r) of
           None \<Rightarrow> Inl (checked, r_id r)
         | Some (_, epoch) \<Rightarrow>
             walk_page sha keys \<lparr>w_epoch = epoch, w_prev = Some (r_signature r), w_checked = checked\<rparr> rs)"

definition PAGE :: nat where
  "PAGE = 200"

definition after :: "int option \<Rightarrow> activity_row \<Rightarrow> bool" where
  "after cursor r \<longleftrightarrow> (case cursor of None \<Rightarrow> True | Some i \<Rightarrow> r_id r > i)"

definition page_after :: "activity_row list \<Rightarrow> int option \<Rightarrow> activity_row list" where
  "page_after rows cursor = take PAGE (filter (after cursor) rows)"

function walk_pages ::
  "(string \<Rightarrow> string) \<Rightarrow> audit_key_epoch list \<Rightarrow> activity_row list \<Rightarrow> int option \<Rightarrow> walk_state \<Rightarrow> verify_result" where
  "walk_pages sha keys rows cursor w =
     (let page = page_after rows cursor
      in if page = [] then \<lparr>v_ok = True, v_checked = w_checked w, v_broken = None\<rparr>
         else case walk_page sha keys w page of
           Inl (checked, i) \<Rightarrow> \<lparr>v_ok = False, v_checked = checked, v_broken = Some i\<rparr>
         | Inr w' \<Rightarrow>
             if length page < PAGE then \<lparr>v_ok = True, v_checked = w_checked w', v_broken = None\<rparr>
             else walk_pages sha keys rows (Some (r_id (last page))) w')"
  by pat_completeness auto

lemma filter_after_shrinks:
  assumes "r \<in> set rows" "after cursor r"
  shows "length (filter (after (Some (r_id r))) rows) < length (filter (after cursor) rows)"
proof -
  have "filter (after (Some (r_id r))) rows = filter (after (Some (r_id r))) (filter (after cursor) rows)"
    using assms(2) by (auto simp: after_def intro!: filter_cong split: option.splits)
  also have "length \<dots> < length (filter (after cursor) rows)"
    using assms by (intro length_filter_less [of r]) (auto simp: after_def)
  finally show ?thesis .
qed

termination walk_pages
proof (relation "measure (\<lambda>(sha, keys, rows, cursor, w). length (filter (after cursor) rows))")
  fix sha :: "string \<Rightarrow> string" and keys :: "audit_key_epoch list" and rows cursor and w :: walk_state and page w'
  assume page: "page = page_after rows cursor" "page \<noteq> []"
  then have "last page \<in> set rows" "after cursor (last page)"
    using in_set_takeD [of "last page" PAGE "filter (after cursor) rows"] by (auto simp: page_after_def)
  then show "((sha, keys, rows, Some (r_id (last page)), w'), sha, keys, rows, cursor, w)
      \<in> measure (\<lambda>(sha, keys, rows, cursor, w). length (filter (after cursor) rows))"
    using filter_after_shrinks by simp
qed simp

declare walk_pages.simps [simp del]

text \<open>\<open>from_row\<close> is the id and the signature of the row a segment walk starts after.\<close>

definition verifyActivityChain ::
  "(string \<Rightarrow> string) \<Rightarrow> audit_key_epoch list \<Rightarrow> (int \<times> string) option \<Rightarrow> activity_row list \<Rightarrow> verify_result" where
  "verifyActivityChain sha keys from_row rows =
     walk_pages sha keys rows (map_option fst from_row)
       \<lparr>w_epoch = 0, w_prev = map_option snd from_row, w_checked = 0\<rparr>"

record chain_head =
  h_captured :: string
  h_last :: "(int \<times> string \<times> string) option"

definition chain_head_row :: "(string \<Rightarrow> string) \<Rightarrow> int \<Rightarrow> activity_row list \<Rightarrow> chain_head" where
  "chain_head_row sha now rows = \<lparr>h_captured = toISOString now,
     h_last = (if rows = [] then None
       else Some (r_id (last rows), toISOString (c_at (last rows)), hashSignature sha (r_signature (last rows))))\<rparr>"

section \<open>The walk against its specification\<close>

definition ascending :: "activity_row list \<Rightarrow> bool" where
  "ascending rows \<longleftrightarrow> sorted_wrt (\<lambda>a b. r_id a < r_id b) rows"

definition walk_result :: "(nat \<times> int) + walk_state \<Rightarrow> verify_result" where
  "walk_result x = (case x of
     Inl (checked, i) \<Rightarrow> \<lparr>v_ok = False, v_checked = checked, v_broken = Some i\<rparr>
   | Inr w \<Rightarrow> \<lparr>v_ok = True, v_checked = w_checked w, v_broken = None\<rparr>)"

lemma walk_page_append:
  "walk_page sha keys w (xs @ ys) = (case walk_page sha keys w xs of Inl b \<Rightarrow> Inl b | Inr w' \<Rightarrow> walk_page sha keys w' ys)"
  by (induction xs arbitrary: w) (auto simp: Let_def split: option.splits)

lemma last_greatest: "sorted_wrt (\<lambda>a b. r_id a < r_id b) xs \<Longrightarrow> r \<in> set xs \<Longrightarrow> r_id r \<le> r_id (last xs)"
  by (induction xs rule: rev_induct) (auto simp: sorted_wrt_append less_imp_le)

lemma rest_after_page:
  assumes "sorted_wrt (\<lambda>a b. r_id a < r_id b) xs" "0 < n" "n \<le> length xs"
  shows "filter (\<lambda>r. r_id r > r_id (last (take n xs))) xs = drop n xs"
proof -
  have ne: "take n xs \<noteq> []" using assms(2,3) by auto
  have split: "sorted_wrt (\<lambda>a b. r_id a < r_id b) (take n xs @ drop n xs)" using assms(1) by simp
  then have below: "r_id r \<le> r_id (last (take n xs))" if "r \<in> set (take n xs)" for r
    using that last_greatest sorted_wrt_take [OF assms(1)] by blast
  have above: "r_id (last (take n xs)) < r_id r" if "r \<in> set (drop n xs)" for r
    using split [unfolded sorted_wrt_append] that last_in_set [OF ne] by blast
  have "filter (\<lambda>r. r_id r > r_id (last (take n xs))) (take n xs @ drop n xs) = drop n xs"
    unfolding filter_append using below above by (auto simp: filter_empty_conv not_less filter_id_conv)
  then show ?thesis by simp
qed

lemma walk_pages_eq:
  "ascending rows \<Longrightarrow> walk_pages sha keys rows cursor w = walk_result (walk_page sha keys w (filter (after cursor) rows))"
proof (induction sha keys rows cursor w rule: walk_pages.induct)
  case (1 sha keys rows cursor w)
  let ?L = "filter (after cursor) rows"
  let ?page = "page_after rows cursor"
  have asc: "sorted_wrt (\<lambda>a b. r_id a < r_id b) ?L"
    using 1(2) by (simp add: ascending_def sorted_wrt_filter)
  show ?case
  proof (cases "length ?L < PAGE")
    case True
    then have "?page = ?L" by (simp add: page_after_def)
    then show ?thesis
      using True by (subst walk_pages.simps) (auto simp: Let_def walk_result_def split: sum.splits)
  next
    case False
    then have len: "length ?page = PAGE" "?page \<noteq> []" by (auto simp: page_after_def PAGE_def)
    have "filter (after (Some (r_id (last ?page)))) rows = filter (\<lambda>r. r_id r > r_id (last ?page)) ?L"
      using len(2) in_set_takeD [of "last ?page" PAGE ?L]
      by (auto simp: after_def page_after_def intro!: filter_cong split: option.splits)
    also have "\<dots> = drop PAGE ?L"
      unfolding page_after_def using False asc by (intro rest_after_page) (auto simp: PAGE_def)
    finally have rest: "filter (after (Some (r_id (last ?page)))) rows = drop PAGE ?L" .
    have "walk_page sha keys w ?L = (case walk_page sha keys w ?page of Inl b \<Rightarrow> Inl b | Inr w' \<Rightarrow> walk_page sha keys w' (drop PAGE ?L))"
      unfolding page_after_def by (metis append_take_drop_id walk_page_append)
    then show ?thesis
      using 1(1) [OF refl len(2)] 1(2) len rest
      by (subst walk_pages.simps) (auto simp: Let_def walk_result_def split: sum.splits)
  qed
qed

text \<open>Every row points at its predecessor.\<close>

fun linked :: "(string \<Rightarrow> string) \<Rightarrow> string option \<Rightarrow> activity_row list \<Rightarrow> bool" where
  "linked sha prev [] = True"
| "linked sha prev (r # rs) =
     ((case prev of None \<Rightarrow> True | Some s \<Rightarrow> r_prev r = hashSignature sha s) \<and> linked sha (Some (r_signature r)) rs)"

definition signed_in :: "audit_key_epoch list \<Rightarrow> activity_row \<Rightarrow> nat \<Rightarrow> bool" where
  "signed_in keys r e \<longleftrightarrow> e < length keys \<and> key_accepts (keys ! e) (activityRowContent r) (r_prev r) (r_signature r)"

text \<open>The keys that signed the rows, never going back to an older key.\<close>

definition epochs_ok :: "audit_key_epoch list \<Rightarrow> nat \<Rightarrow> activity_row list \<Rightarrow> nat list \<Rightarrow> bool" where
  "epochs_ok keys e rs es \<longleftrightarrow> sorted (e # es) \<and> list_all2 (signed_in keys) rs es"

lemma walk_page_ok:
  "(\<exists>w'. walk_page sha keys w rs = Inr w') \<longleftrightarrow> linked sha (w_prev w) rs \<and> (\<exists>es. epochs_ok keys (w_epoch w) rs es)"
proof (induction rs arbitrary: w)
  case Nil
  then show ?case by (auto simp: epochs_ok_def)
next
  case (Cons r rs)
  let ?accepts = "\<lambda>i. key_accepts (keys ! i) (activityRowContent r) (r_prev r) (r_signature r)"
  let ?next = "\<lambda>e. \<lparr>w_epoch = e, w_prev = Some (r_signature r), w_checked = w_checked w + 1\<rparr>"
  let ?check = "epochVerify keys (w_epoch w) (activityRowContent r) (r_prev r) (r_signature r)"
  have step: "(\<exists>w'. walk_page sha keys w (r # rs) = Inr w') \<longleftrightarrow>
      (case w_prev w of None \<Rightarrow> True | Some s \<Rightarrow> r_prev r = hashSignature sha s)
      \<and> (\<exists>kid e. ?check = Some (kid, e) \<and> (\<exists>w'. walk_page sha keys (?next e) rs = Inr w'))"
    by (auto simp: Let_def split: option.splits)
  show ?case
  proof
    assume "\<exists>w'. walk_page sha keys w (r # rs) = Inr w'"
    then obtain kid e es where lk: "case w_prev w of None \<Rightarrow> True | Some s \<Rightarrow> r_prev r = hashSignature sha s"
      and e: "?check = Some (kid, e)" and es: "linked sha (Some (r_signature r)) rs" "epochs_ok keys e rs es"
      unfolding step using Cons.IH [of "?next _"] by auto
    have "epochs_ok keys (w_epoch w) (r # rs) (e # es)"
      using e es(2) by (auto simp: epochs_ok_def epochVerify_Some signed_in_def)
    with lk es(1) show "linked sha (w_prev w) (r # rs) \<and> (\<exists>es. epochs_ok keys (w_epoch w) (r # rs) es)"
      by auto
  next
    assume "linked sha (w_prev w) (r # rs) \<and> (\<exists>es. epochs_ok keys (w_epoch w) (r # rs) es)"
    then obtain e es where lk: "linked sha (w_prev w) (r # rs)" and ok: "epochs_ok keys (w_epoch w) (r # rs) (e # es)"
      by (auto simp: epochs_ok_def list_all2_Cons1)
    then have "w_epoch w \<le> e" "e < length keys" "?accepts e" by (auto simp: epochs_ok_def signed_in_def)
    then obtain kid j where j: "?check = Some (kid, j)" "j \<le> e" by (rule ring.check_total)
    have "epochs_ok keys j rs es" using ok j(2) by (auto simp: epochs_ok_def)
    with lk have "\<exists>w'. walk_page sha keys (?next j) rs = Inr w'"
      using Cons.IH [of "?next j"] by auto
    with lk j(1) show "\<exists>w'. walk_page sha keys w (r # rs) = Inr w'" unfolding step by auto
  qed
qed

definition valid_chain :: "(string \<Rightarrow> string) \<Rightarrow> audit_key_epoch list \<Rightarrow> activity_row list \<Rightarrow> bool" where
  "valid_chain sha keys rows \<longleftrightarrow> linked sha None rows \<and> (\<exists>es. epochs_ok keys 0 rows es)"

lemma walk_page_checked: "walk_page sha keys w rs = Inr w' \<Longrightarrow> w_checked w' = w_checked w + length rs"
  by (induction rs arbitrary: w) (auto simp: Let_def split: option.splits if_splits prod.splits)

lemma walk_page_broken:
  "walk_page sha keys w rs = Inl (k, i) \<Longrightarrow> \<exists>n < length rs. k = w_checked w + n + 1 \<and> i = r_id (rs ! n)
     \<and> (\<exists>w'. walk_page sha keys w (take n rs) = Inr w') \<and> (\<forall>w'. walk_page sha keys w (take (Suc n) rs) \<noteq> Inr w')"
proof (induction rs arbitrary: w)
  case (Cons r rs)
  let ?p = "case w_prev w of None \<Rightarrow> r_prev r | Some s \<Rightarrow> hashSignature sha s"
  show ?case
  proof (cases "r_prev r = ?p \<and> (\<exists>x. epochVerify keys (w_epoch w) (activityRowContent r) ?p (r_signature r) = Some x)")
    case False
    then have "walk_page sha keys w (r # ys) = Inl (w_checked w + 1, r_id r)" for ys
      by (auto simp: Let_def split: option.splits)
    with Cons.prems show ?thesis by (intro exI [of _ 0]) auto
  next
    case True
    then obtain kid e where e: "epochVerify keys (w_epoch w) (activityRowContent r) ?p (r_signature r) = Some (kid, e)" by auto
    let ?w = "\<lparr>w_epoch = e, w_prev = Some (r_signature r), w_checked = w_checked w + 1\<rparr>"
    have go: "walk_page sha keys w (r # ys) = walk_page sha keys ?w ys" for ys
      using True e by (auto simp: Let_def split: option.splits)
    obtain n where n: "n < length rs" "k = w_checked ?w + n + 1" "i = r_id (rs ! n)"
      "\<exists>w'. walk_page sha keys ?w (take n rs) = Inr w'" "\<forall>w'. walk_page sha keys ?w (take (Suc n) rs) \<noteq> Inr w'"
      using Cons.IH [of ?w] Cons.prems go by auto
    then show ?thesis by (intro exI [of _ "Suc n"]) (simp add: go del: walk_page.simps)
  qed
qed simp

lemma verify_walk:
  "ascending rows \<Longrightarrow> verifyActivityChain sha keys None rows
     = walk_result (walk_page sha keys \<lparr>w_epoch = 0, w_prev = None, w_checked = 0\<rparr> rows)"
  by (simp add: verifyActivityChain_def walk_pages_eq after_def)

lemma valid_chain_walk:
  "valid_chain sha keys rows \<longleftrightarrow> (\<exists>w'. walk_page sha keys \<lparr>w_epoch = 0, w_prev = None, w_checked = 0\<rparr> rows = Inr w')"
  by (simp add: valid_chain_def walk_page_ok)

lemma verify_ok_iff: "ascending rows \<Longrightarrow> v_ok (verifyActivityChain sha keys None rows) \<longleftrightarrow> valid_chain sha keys rows"
  by (auto simp: verify_walk valid_chain_walk walk_result_def split: sum.splits prod.splits)

section \<open>The recorder keeps the chain valid\<close>

lemma linked_append:
  "linked sha p (xs @ [r]) \<longleftrightarrow> linked sha p xs \<and>
     (if xs = [] then (case p of None \<Rightarrow> True | Some s \<Rightarrow> r_prev r = hashSignature sha s)
      else r_prev r = hashSignature sha (r_signature (last xs)))"
  by (induction xs arbitrary: p) auto

lemma epochs_append:
  assumes "epochs_ok keys e xs es" "signed_in keys r (length keys - 1)" "e \<le> length keys - 1"
  shows "epochs_ok keys e (xs @ [r]) (es @ [length keys - 1])"
proof -
  have "\<forall>x\<in>set es. x \<le> length keys - 1"
    using assms(1) by (auto simp: epochs_ok_def signed_in_def list_all2_conv_all_nth in_set_conv_nth) fastforce
  with assms show ?thesis
    by (auto simp: epochs_ok_def sorted_append intro: list_all2_appendI)
qed

lemma stringify_member:
  assumes "stringify u = stringify v" "u \<noteq> JUndef" "v \<noteq> JUndef"
  shows "stringify (JObj (xs @ (k, u) # ys)) = stringify (JObj (xs @ (k, v) # ys))"
  using assms by (simp add: defined_entries_def)

lemma canonical_stored:
  assumes "\<And>kvs. stringify (sortValue (JObj (stored kvs))) = stringify (sortValue (JObj kvs))"
  shows "canonicalizeRowContent (c\<lparr>c_refs := map_option stored (c_refs c)\<rparr>) = canonicalizeRowContent c"
proof (cases "c_refs c")
  case (Some kvs)
  have obj: "sortValue (JObj xs) \<noteq> JUndef" for xs by simp
  note member = stringify_member [OF assms [of kvs] obj obj]
  show ?thesis
    using Some member [of "[_, _]"] member [of "[_, _, _, _]"]
    by (simp add: canonicalizeRowContent_def ordered_content_def refs_value_def del: sortValue.simps stringify.simps)
qed (simp add: canonicalizeRowContent_def ordered_content_def)

definition keyring :: "(bytes \<Rightarrow> string \<Rightarrow> string) \<Rightarrow> (string \<times> bytes) list \<Rightarrow> audit_key_epoch list" where
  "keyring hmac ks = map (\<lambda>(i, k). \<lparr>ke_id = i, ke_signer = hmacSign hmac k\<rparr>) ks"

text \<open>
  The life of the table: rows are appended under the newest key of the ring, and a rotation adds a
  key.
\<close>

inductive recorder_run ::
  "(bytes \<Rightarrow> string \<Rightarrow> string) \<Rightarrow> (string \<Rightarrow> string) \<Rightarrow> ((string \<times> json) list \<Rightarrow> (string \<times> json) list)
     \<Rightarrow> (string \<times> bytes) list \<Rightarrow> activity_row list \<Rightarrow> bool"
  for hmac sha stored where
  recording: "ks \<noteq> [] \<Longrightarrow> recorder_run hmac sha stored ks []"
| appended: "recorder_run hmac sha stored ks rows \<Longrightarrow>
    appendActivityRow (hmacSign hmac (snd (last ks))) sha stored gap now params rows = Return rows' \<Longrightarrow>
    recorder_run hmac sha stored ks rows'"
| rotated: "recorder_run hmac sha stored ks rows \<Longrightarrow> recorder_run hmac sha stored (ks @ [k]) rows"

lemma epochs_ok_more: "epochs_ok keys e rs es \<Longrightarrow> epochs_ok (keys @ newer) e rs es"
  by (auto simp: epochs_ok_def signed_in_def list_all2_conv_all_nth nth_append)

lemma inserted_row_content:
  "activityRowContent (inserted_row stored c i s p) = c\<lparr>c_refs := map_option stored (c_refs c)\<rparr>"
  "r_id (inserted_row stored c i s p) = i" "r_signature (inserted_row stored c i s p) = s" "r_prev (inserted_row stored c i s p) = p"
  by (simp_all add: activityRowContent_def inserted_row_def)

lemma appended_row:
  assumes run: "appendActivityRow (hmacSign hmac key) sha stored gap now params rows = Return rows'"
    and law: "\<And>kvs. stringify (sortValue (JObj (stored kvs))) = stringify (sortValue (JObj kvs))"
  obtains r where "rows' = rows @ [r]" "r_id r \<ge> next_id rows" "r_prev r = tail_hash sha rows"
    "hmacSign hmac key (activityRowContent r) (r_prev r) = Return (r_signature r)" "\<exists>t. r_signature r = hmac key t"
proof -
  obtain actor where actor: "validateRecordParams (snapshotRecordParams params now) = Return actor"
    using run by (cases "validateRecordParams (snapshotRecordParams params now)") (auto simp: appendActivityRow_def Let_def)
  define c where "c = recorded_content (snapshotRecordParams params now) (fst actor) (snd actor)"
  obtain s where s: "hmacSign hmac key c (tail_hash sha rows) = Return s"
    and rows': "rows' = rows @ [inserted_row stored c (next_id rows + int gap) s (tail_hash sha rows)]"
    using run actor by (cases "hmacSign hmac key c (tail_hash sha rows)")
      (auto simp: appendActivityRow_def Let_def c_def case_prod_unfold)
  have "hmacSign hmac key (c\<lparr>c_refs := map_option stored (c_refs c)\<rparr>) (tail_hash sha rows) = Return s"
    using s canonical_stored [OF law] by (simp add: hmacSign_def)
  moreover have "\<exists>t. s = hmac key t" using s by (auto simp: hmac_accepts_iff)
  ultimately show ?thesis using that [OF rows'] by (simp add: inserted_row_content)
qed

lemma keyring_last: "ks \<noteq> [] \<Longrightarrow> keyring hmac ks ! (length (keyring hmac ks) - 1)
    = \<lparr>ke_id = fst (last ks), ke_signer = hmacSign hmac (snd (last ks))\<rparr>"
  by (simp add: keyring_def last_conv_nth case_prod_unfold)

lemma ascending_snoc: "ascending rows \<Longrightarrow> r_id r \<ge> next_id rows \<Longrightarrow> ascending (rows @ [r])"
  using last_greatest by (fastforce simp: ascending_def sorted_wrt_append next_id_def split: if_splits)

lemma recorder_run_valid:
  assumes "recorder_run hmac sha stored ks rows"
    and law: "\<And>kvs. stringify (sortValue (JObj (stored kvs))) = stringify (sortValue (JObj kvs))"
    and ne: "\<And>k t. hmac k t \<noteq> []"
  shows "ks \<noteq> [] \<and> ascending rows \<and> valid_chain sha (keyring hmac ks) rows \<and> (\<forall>r\<in>set rows. r_signature r \<noteq> [])"
  using assms(1)
proof (induction rule: recorder_run.induct)
  case (recording ks)
  then show ?case by (simp add: ascending_def valid_chain_def epochs_ok_def)
next
  case (appended ks rows gap now params rows')
  obtain r where r: "rows' = rows @ [r]" "r_id r \<ge> next_id rows" "r_prev r = tail_hash sha rows"
    "hmacSign hmac (snd (last ks)) (activityRowContent r) (r_prev r) = Return (r_signature r)" "\<exists>t. r_signature r = hmac (snd (last ks)) t"
    by (rule appended_row [OF appended.hyps(2) law])
  obtain es where es: "epochs_ok (keyring hmac ks) 0 rows es" "linked sha None rows"
    using appended.IH by (auto simp: valid_chain_def)
  have "linked sha None (rows @ [r])"
    using es(2) appended.IH r(3) by (auto simp: linked_append tail_hash_def)
  moreover have "signed_in (keyring hmac ks) r (length (keyring hmac ks) - 1)"
    using r(4) appended.IH unfolding signed_in_def key_accepts_iff
    by (subst keyring_last) (auto simp: keyring_def)
  ultimately have "valid_chain sha (keyring hmac ks) (rows @ [r])"
    using epochs_append [OF es(1), of r] by (auto simp: valid_chain_def)
  moreover have "ascending (rows @ [r])" using ascending_snoc appended.IH r(2) by blast
  moreover have "r_signature r \<noteq> []" using r(5) ne by metis
  ultimately show ?case using appended.IH r(1) by simp
next
  case (rotated ks rows k)
  then show ?case by (auto simp: valid_chain_def keyring_def intro: epochs_ok_more)
qed

section \<open>A head pins the history before it\<close>

definition row_text :: "activity_row \<Rightarrow> string" where
  "row_text r = (case canonicalizeRowContent (activityRowContent r) of Inl _ \<Rightarrow> [] | Inr t \<Rightarrow> signed_text t (r_prev r))"

text \<open>
  Rows as the column types allow them: parsed references, and a predecessor hash in base64url.
\<close>

definition storable :: "activity_row \<Rightarrow> bool" where
  "storable r \<longleftrightarrow> clean_content (activityRowContent r) \<and> CHR ''|'' \<notin> set (r_prev r)"

definition same_row :: "activity_row \<Rightarrow> activity_row \<Rightarrow> bool" where
  "same_row r r' \<longleftrightarrow> same_content (activityRowContent r) (activityRowContent r')
     \<and> r_signature r = r_signature r' \<and> r_prev r = r_prev r'"

text \<open>
  An explicit collision between two histories: two different signatures with one hash, or two
  different (key, text) pairs of signed rows with one MAC.
\<close>

definition rows_collide ::
  "(bytes \<Rightarrow> string \<Rightarrow> string) \<Rightarrow> (string \<Rightarrow> string) \<Rightarrow> bytes list \<Rightarrow> activity_row list \<Rightarrow> activity_row list \<Rightarrow> bool" where
  "rows_collide hmac sha ks xs ys \<longleftrightarrow> (\<exists>r\<in>set xs. \<exists>r'\<in>set ys.
     (r_signature r \<noteq> r_signature r' \<and> sha (r_signature r) = sha (r_signature r'))
   \<or> (\<exists>k\<in>set ks. \<exists>k'\<in>set ks. (k, row_text r) \<noteq> (k', row_text r') \<and> hmac k (row_text r) = hmac k' (row_text r')))"

lemma rows_collideI:
  assumes "r \<in> set xs" "s \<in> set ys" "k \<in> set ks" "k' \<in> set ks"
    and "r_signature r = hmac k (row_text r)" "r_signature s = hmac k' (row_text s)" "sha (r_signature r) = sha (r_signature s)"
    and "\<not> (r_signature r = r_signature s \<and> (k, row_text r) = (k', row_text s))"
  shows "rows_collide hmac sha ks xs ys"
  unfolding rows_collide_def using assms by (metis (no_types, lifting))

lemma rows_collide_mono:
  "rows_collide hmac sha ks xs ys \<Longrightarrow> set xs \<subseteq> set xs' \<Longrightarrow> set ys \<subseteq> set ys' \<Longrightarrow> rows_collide hmac sha ks xs' ys'"
  unfolding rows_collide_def by blast

text \<open>The rows the two histories have in common, counted back from their ends, are the same.\<close>

definition agree_backwards :: "activity_row list \<Rightarrow> activity_row list \<Rightarrow> bool" where
  "agree_backwards xs ys \<longleftrightarrow> (\<forall>i < min (length xs) (length ys). same_row (rev xs ! i) (rev ys ! i))"

lemma valid_chain_snoc:
  assumes "valid_chain sha (keyring hmac ks) (xs @ [r])"
  shows "valid_chain sha (keyring hmac ks) xs" "xs \<noteq> [] \<Longrightarrow> r_prev r = sha (r_signature (last xs))"
    "\<exists>k\<in>set (map snd ks). \<exists>t. canonicalizeRowContent (activityRowContent r) = Return t \<and> r_signature r = hmac k (signed_text t (r_prev r))"
proof -
  obtain es where es: "epochs_ok (keyring hmac ks) 0 (xs @ [r]) es" and lk: "linked sha None (xs @ [r])"
    using assms by (auto simp: valid_chain_def)
  then obtain es' e where split: "es = es' @ [e]" "list_all2 (signed_in (keyring hmac ks)) xs es'" "signed_in (keyring hmac ks) r e"
    by (auto simp: epochs_ok_def list_all2_append1 list_all2_Cons1)
  show "valid_chain sha (keyring hmac ks) xs"
    using es lk split by (auto simp: valid_chain_def linked_append epochs_ok_def sorted_append)
  show "xs \<noteq> [] \<Longrightarrow> r_prev r = sha (r_signature (last xs))"
    using lk by (simp add: linked_append hashSignature_def)
  have "e < length ks" "hmacSign hmac (snd (ks ! e)) (activityRowContent r) (r_prev r) = Return (r_signature r)"
    using split(3) by (auto simp: signed_in_def key_accepts_iff keyring_def case_prod_unfold)
  then show "\<exists>k\<in>set (map snd ks). \<exists>t. canonicalizeRowContent (activityRowContent r) = Return t \<and> r_signature r = hmac k (signed_text t (r_prev r))"
    unfolding hmac_accepts_iff by (auto intro!: bexI [of _ "ks ! e"])
qed

lemma agree_backwards_snoc:
  "agree_backwards (xs @ [r]) (ys @ [s]) \<longleftrightarrow> same_row r s \<and> agree_backwards xs ys"
  by (auto simp: agree_backwards_def nth_Cons split: nat.splits)

lemma head_pins:
  assumes "valid_chain sha (keyring hmac ks) xs" "valid_chain sha (keyring hmac ks) ys"
    and "\<forall>r\<in>set xs. storable r" "\<forall>r\<in>set ys. storable r"
    and "xs \<noteq> []" "ys \<noteq> []" "sha (r_signature (last xs)) = sha (r_signature (last ys))"
  shows "agree_backwards xs ys \<or> rows_collide hmac sha (map snd ks) xs ys"
  using assms
proof (induction xs arbitrary: ys rule: rev_induct)
  case (snoc r xs)
  obtain ys' s where ys: "ys = ys' @ [s]" using snoc.prems(6) by (metis rev_exhaust)
  note vx = valid_chain_snoc [OF snoc.prems(1)] and vy = valid_chain_snoc [OF snoc.prems(2) [unfolded ys]]
  obtain k t where k: "k \<in> set (map snd ks)" "canonicalizeRowContent (activityRowContent r) = Return t" "r_signature r = hmac k (signed_text t (r_prev r))"
    using vx(3) by blast
  obtain k' t' where k': "k' \<in> set (map snd ks)" "canonicalizeRowContent (activityRowContent s) = Return t'" "r_signature s = hmac k' (signed_text t' (r_prev s))"
    using vy(3) by blast
  have texts: "row_text r = signed_text t (r_prev r)" "row_text s = signed_text t' (r_prev s)"
    using k(2) k'(2) by (simp_all add: row_text_def)
  show ?case
  proof (cases "r_signature r = r_signature s \<and> (k, row_text r) = (k', row_text s)")
    case False
    then have "rows_collide hmac sha (map snd ks) (xs @ [r]) ys"
      using k k' texts snoc.prems(7) ys by (intro rows_collideI [of r _ s _ k _ k']) auto
    then show ?thesis ..
  next
    case True
    have st: "storable r" "storable s" using snoc.prems(3,4) ys by auto
    then have "t = t' \<and> r_prev r = r_prev s"
      using True texts signed_text_inj [of t "r_prev r" t' "r_prev s"] by (simp add: storable_def)
    then have same: "same_row r s"
      using True st k(2) k'(2) canonical_inj by (auto simp: same_row_def storable_def)
    show ?thesis
    proof (cases "xs = [] \<or> ys' = []")
      case True
      then show ?thesis using same ys by (auto simp: agree_backwards_snoc) (auto simp: agree_backwards_def)
    next
      case False
      then have "sha (r_signature (last xs)) = sha (r_signature (last ys'))"
        using vx(2) vy(2) same by (simp add: same_row_def)
      then have "agree_backwards xs ys' \<or> rows_collide hmac sha (map snd ks) xs ys'"
        using snoc.IH [of ys'] False vx(1) vy(1) snoc.prems(3,4) ys by auto
      then show ?thesis
        using same ys rows_collide_mono [of hmac sha _ xs ys' "xs @ [r]" ys] by (auto simp: agree_backwards_snoc)
    qed
  qed
qed simp

section \<open>A small chain\<close>

definition demo_hmac :: "bytes \<Rightarrow> string \<Rightarrow> string" where
  "demo_hmac k t = ''m'' @ k @ t"

definition demo_params :: "string \<Rightarrow> record_params" where
  "demo_params what = \<lparr>p_kind = ''auth'', p_severity = ''ok'', p_icon = ''shield'', p_what = what, p_sub = None,
     p_refs = Some [(''b'', JBool True), (''a'', JNull)], p_actor = Some (''system'', None), p_at = Some 0\<rparr>"

definition demo_append :: "bytes \<Rightarrow> string \<Rightarrow> activity_row list \<Rightarrow> (record_error, activity_row list) result" where
  "demo_append k what rows = appendActivityRow (hmacSign demo_hmac k) (\<lambda>s. ''h'') id 0 7 (demo_params what) rows"

definition demo_rows1 :: "activity_row list" where
  "demo_rows1 = projr (demo_append ''old'' ''one'' [])"

definition demo_rows2 :: "activity_row list" where
  "demo_rows2 = projr (demo_append ''new'' ''two'' demo_rows1)"

definition demo_ring :: "(string \<times> bytes) list" where
  "demo_ring = [(''k1'', ''old''), (''k2'', ''new'')]"

text \<open>A valid request is always recorded: the recorder writes a schema version its signer knows.\<close>

lemma append_returns:
  assumes "validateRecordParams (snapshotRecordParams params now) = Return actor"
  obtains r where "appendActivityRow (hmacSign hmac key) sha stored gap now params rows = Return (rows @ [r])"
  using assms that
  by (cases actor) (auto simp: appendActivityRow_def Let_def hmacSign_def canonicalizeRowContent_def ordered_content_def
      recorded_content_def CURRENT_ACTIVITY_SCHEMA_VERSION_def)

lemma demo_valid: "validateRecordParams (snapshotRecordParams (demo_params what) 7) = Return (''system'', None)"
  by (simp add: validateRecordParams_def snapshotRecordParams_def demo_params_def KNOWN_KINDS_def KNOWN_SEVERITIES_def
      KNOWN_ACTOR_TYPES_def seq_def throw_if_def)

lemma demo_append_grows: "\<exists>r. demo_append k what rows = Return (rows @ [r])"
  unfolding demo_append_def by (rule append_returns [OF demo_valid]) blast

lemma demo_appends: "demo_append ''old'' ''one'' [] = Return demo_rows1" "demo_append ''new'' ''two'' demo_rows1 = Return demo_rows2"
  "length demo_rows2 = 2"
proof -
  obtain r where r: "demo_append ''old'' ''one'' [] = Return ([] @ [r])" using demo_append_grows by metis
  then show first: "demo_append ''old'' ''one'' [] = Return demo_rows1" by (simp only: demo_rows1_def sum.sel)
  then have one: "demo_rows1 = [r]" using r by (metis append_Nil sum.inject(2))
  obtain s where s: "demo_append ''new'' ''two'' demo_rows1 = Return (demo_rows1 @ [s])" using demo_append_grows by metis
  then show second: "demo_append ''new'' ''two'' demo_rows1 = Return demo_rows2" by (simp only: demo_rows2_def sum.sel)
  then have two: "demo_rows2 = demo_rows1 @ [s]" using s by (metis sum.inject(2))
  show "length demo_rows2 = 2" unfolding two one by simp
qed

lemma demo_recorder_run: "recorder_run demo_hmac (\<lambda>s. ''h'') id demo_ring demo_rows2"
proof -
  let ?first = "[(''k1'', ''old'')]"
  have keys: "snd (last ?first) = ''old''" "snd (last demo_ring) = ''new''" "?first @ [(''k2'', ''new'')] = demo_ring"
    by (simp_all add: demo_ring_def)
  have "recorder_run demo_hmac (\<lambda>s. ''h'') id ?first []" by (rule recorder_run.recording) simp
  then have "recorder_run demo_hmac (\<lambda>s. ''h'') id ?first demo_rows1"
    by (rule recorder_run.appended, unfold keys(1)) (rule demo_appends(1) [unfolded demo_append_def])
  from recorder_run.rotated [OF this, of "(''k2'', ''new'')"]
  have "recorder_run demo_hmac (\<lambda>s. ''h'') id demo_ring demo_rows1" by (simp only: keys(3))
  then show ?thesis
    by (rule recorder_run.appended, unfold keys(2)) (rule demo_appends(2) [unfolded demo_append_def])
qed

lemma demo_run_valid: "ascending demo_rows2" "valid_chain (\<lambda>s. ''h'') (keyring demo_hmac demo_ring) demo_rows2"
  using recorder_run_valid [OF demo_recorder_run] by (simp_all add: demo_hmac_def)

section \<open>Properties\<close>

text \<open>
  C7.  The paged verification accepts exactly the chains in which every row points at its
  predecessor and the rows are signed by keys that never go back to an older one; it then counts
  every row.  Otherwise it names the first row that ends a prefix with that property.
\<close>

theorem verification_walk_exact:
  assumes "ascending rows"
  shows "let v = verifyActivityChain sha keys None rows in
     (v_ok v \<longleftrightarrow> (\<forall>i. Suc i < length rows \<longrightarrow> r_prev (rows ! Suc i) = hashSignature sha (r_signature (rows ! i)))
        \<and> (\<exists>es. sorted es \<and> list_all2 (signed_in keys) rows es))
   \<and> (v_ok v \<longrightarrow> v_checked v = length rows \<and> v_broken v = None)
   \<and> (\<not> v_ok v \<longrightarrow> (\<exists>n < length rows. v_checked v = Suc n \<and> v_broken v = Some (r_id (rows ! n))
        \<and> v_ok (verifyActivityChain sha keys None (take n rows)) \<and> \<not> v_ok (verifyActivityChain sha keys None (take (Suc n) rows))))"
proof -
  let ?w = "\<lparr>w_epoch = 0, w_prev = None, w_checked = 0\<rparr> :: walk_state"
  have links: "linked sha p rs \<longleftrightarrow>
      (rs = [] \<or> (case p of None \<Rightarrow> True | Some s \<Rightarrow> r_prev (hd rs) = hashSignature sha s))
      \<and> (\<forall>i. Suc i < length rs \<longrightarrow> r_prev (rs ! Suc i) = hashSignature sha (r_signature (rs ! i)))" for p rs
  proof (induction rs arbitrary: p)
    case (Cons r rs)
    show ?case using Cons.IH [of "Some (r_signature r)"]
      by (cases rs) (auto simp: nth_Cons split: nat.splits option.splits)
  qed simp
  have asc: "ascending (take n rows)" for n using assms by (simp add: ascending_def sorted_wrt_take)
  have ok: "v_ok (verifyActivityChain sha keys None rows) \<longleftrightarrow> (\<forall>i. Suc i < length rows \<longrightarrow> r_prev (rows ! Suc i) = hashSignature sha (r_signature (rows ! i)))
        \<and> (\<exists>es. sorted es \<and> list_all2 (signed_in keys) rows es)"
    by (simp add: verify_ok_iff [OF assms] valid_chain_def links epochs_ok_def)
  show ?thesis
  proof (cases "walk_page sha keys ?w rows")
    case (Inl b)
    obtain k i where b: "b = (k, i)" by (cases b)
    from walk_page_broken [OF Inl [unfolded b]] show ?thesis
      using ok Inl b unfolding verify_ok_iff [OF asc] valid_chain_walk
      by (auto simp: verify_walk [OF assms] walk_result_def Let_def)
  next
    case (Inr w')
    with ok walk_page_checked [OF Inr] show ?thesis
      by (auto simp: verify_walk [OF assms] walk_result_def Let_def)
  qed
qed

theorem verification_walk_exact_witness:
  "v_ok (verifyActivityChain (\<lambda>s. ''h'') (keyring demo_hmac demo_ring) None demo_rows2) \<and> length demo_rows2 = 2
   \<and> v_checked (verifyActivityChain (\<lambda>s. ''h'') (keyring demo_hmac demo_ring) None demo_rows2) = length demo_rows2"
proof -
  have "v_ok (verifyActivityChain (\<lambda>s. ''h'') (keyring demo_hmac demo_ring) None demo_rows2)" "length demo_rows2 = 2"
    using verify_ok_iff demo_run_valid demo_appends(3) by blast+
  with verification_walk_exact [OF demo_run_valid(1), of "\<lambda>s. ''h''" "keyring demo_hmac demo_ring"] show ?thesis
    by (simp add: Let_def)
qed

text \<open>
  C5.  Whatever is recorded, through any number of key rotations, the resulting table verifies
  against the keyring and every row is counted.  The hypotheses: a document read back from the
  \<^verbatim>\<open>jsonb\<close> column canonicalises as the one written, and a MAC is never the empty text.
\<close>

theorem recorder_chain_verifies:
  assumes "recorder_run hmac sha stored ks rows"
    and stored_roundtrip: "\<And>kvs. stringify (sortValue (JObj (stored kvs))) = stringify (sortValue (JObj kvs))"
    and mac_nonempty: "\<And>k t. hmac k t \<noteq> []"
  shows "verifyActivityChain sha (keyring hmac ks) None rows = \<lparr>v_ok = True, v_checked = length rows, v_broken = None\<rparr>"
proof -
  have asc: "ascending rows" and "valid_chain sha (keyring hmac ks) rows"
    using recorder_run_valid [OF assms] by blast+
  then obtain w' where "walk_page sha (keyring hmac ks) \<lparr>w_epoch = 0, w_prev = None, w_checked = 0\<rparr> rows = Inr w'"
    by (auto simp: valid_chain_walk)
  with walk_page_checked [OF this] verify_walk [OF asc] show ?thesis by (simp add: walk_result_def)
qed

theorem recorder_chain_verifies_witness:
  "verifyActivityChain (\<lambda>s. ''h'') (keyring demo_hmac demo_ring) None demo_rows2
     = \<lparr>v_ok = True, v_checked = length demo_rows2, v_broken = None\<rparr>"
  by (rule recorder_chain_verifies [OF demo_recorder_run]) (simp_all add: demo_hmac_def)

text \<open>
   In a table that verifies, once a row is signed by a key no older than number \<open>e\<close> (no older
  key accepts it), every later row is accepted by key \<open>e\<close> or a newer one: whoever holds only the
  keys retired before it cannot have appended after it.
\<close>

theorem retired_key_cannot_append:
  assumes "ascending rows" "v_ok (verifyActivityChain sha keys None rows)" "i < j" "j < length rows"
    and "\<And>d. d < e \<Longrightarrow> \<not> key_accepts (keys ! d) (activityRowContent (rows ! i)) (r_prev (rows ! i)) (r_signature (rows ! i))"
  shows "\<exists>d. e \<le> d \<and> d < length keys
     \<and> key_accepts (keys ! d) (activityRowContent (rows ! j)) (r_prev (rows ! j)) (r_signature (rows ! j))"
proof -
  obtain es where es: "sorted es" "list_all2 (signed_in keys) rows es"
    using verify_ok_iff [OF assms(1)] assms(2) by (auto simp: valid_chain_def epochs_ok_def)
  have "e \<le> es ! i"
    using assms(3-5) es(2) unfolding list_all2_conv_all_nth signed_in_def
    by (metis less_trans not_less)
  also have "\<dots> \<le> es ! j"
    using es assms(3,4) by (auto simp: list_all2_conv_all_nth intro!: sorted_nth_mono)
  finally have "e \<le> es ! j" .
  with es(2) assms(4) show ?thesis by (auto simp: list_all2_conv_all_nth signed_in_def)
qed

definition demo_rows3 :: "activity_row list" where
  "demo_rows3 = projr (demo_append ''new'' ''three'' demo_rows2)"

lemma demo_append_row:
  assumes "demo_append k what rows = Return rows'"
  obtains r where "rows' = rows @ [r]" "hmacSign demo_hmac k (activityRowContent r) (r_prev r) = Return (r_signature r)"
proof -
  obtain r where "rows' = rows @ [r]" "hmacSign demo_hmac k (activityRowContent r) (r_prev r) = Return (r_signature r)"
    by (rule appended_row [OF assms [unfolded demo_append_def]]) simp
  with that show ?thesis by blast
qed

lemma demo_rows3: "demo_append ''new'' ''three'' demo_rows2 = Return demo_rows3" "length demo_rows3 = 3" "demo_rows3 ! 1 = demo_rows2 ! 1"
proof -
  obtain r where r: "demo_append ''new'' ''three'' demo_rows2 = Return (demo_rows2 @ [r])" using demo_append_grows by metis
  then show "demo_append ''new'' ''three'' demo_rows2 = Return demo_rows3" by (simp only: demo_rows3_def sum.sel)
  have three: "demo_rows3 = demo_rows2 @ [r]" unfolding demo_rows3_def r by simp
  show "length demo_rows3 = 3" "demo_rows3 ! 1 = demo_rows2 ! 1" unfolding three using demo_appends(3) by (simp_all add: nth_append)
qed

lemma demo_first_key_rejects:
  "\<not> key_accepts (keyring demo_hmac demo_ring ! 0) (activityRowContent (demo_rows3 ! 1)) (r_prev (demo_rows3 ! 1)) (r_signature (demo_rows3 ! 1))"
proof -
  obtain r where r: "demo_rows2 = demo_rows1 @ [r]" "hmacSign demo_hmac ''new'' (activityRowContent r) (r_prev r) = Return (r_signature r)"
    by (rule demo_append_row [OF demo_appends(2)])
  have "length (demo_rows1 @ [r]) = 2" using demo_appends(3) unfolding r(1) .
  then have "demo_rows3 ! 1 = r" unfolding demo_rows3(3) r(1) by (simp add: nth_append)
  with r(2) show ?thesis
    by (auto simp: key_accepts_iff keyring_def demo_ring_def hmac_accepts_iff demo_hmac_def)
qed

lemma demo_recorder_run3: "recorder_run demo_hmac (\<lambda>s. ''h'') id demo_ring demo_rows3"
proof -
  have key: "snd (last demo_ring) = ''new''" by (simp add: demo_ring_def)
  show ?thesis
    using demo_recorder_run by (rule recorder_run.appended, unfold key) (rule demo_rows3(1) [unfolded demo_append_def])
qed

lemma demo_run3_valid: "ascending demo_rows3" "valid_chain (\<lambda>s. ''h'') (keyring demo_hmac demo_ring) demo_rows3"
  using recorder_run_valid [OF demo_recorder_run3] by (simp_all add: demo_hmac_def)

theorem retired_key_cannot_append_witness:
  "\<exists>d. 1 \<le> d \<and> d < length (keyring demo_hmac demo_ring)
     \<and> key_accepts (keyring demo_hmac demo_ring ! d) (activityRowContent (demo_rows3 ! 2)) (r_prev (demo_rows3 ! 2)) (r_signature (demo_rows3 ! 2))"
proof (rule retired_key_cannot_append [OF demo_run3_valid(1), of "\<lambda>s. ''h''" _ 1])
  show "v_ok (verifyActivityChain (\<lambda>s. ''h'') (keyring demo_hmac demo_ring) None demo_rows3)"
    using verify_ok_iff demo_run3_valid by blast
qed (use demo_rows3(2) demo_first_key_rejects in auto)


lemma demo_storable: "\<forall>r\<in>set demo_rows2. storable r"
proof -
  have app: "storable (inserted_row id (recorded_content (snapshotRecordParams (demo_params what) 7) t a) i s (tail_hash (\<lambda>s. ''h'') rows))"
    for what t a i s rows
    by (simp add: storable_def inserted_row_content clean_content_def recorded_content_def snapshotRecordParams_def demo_params_def
        tail_hash_def hashSignature_def Let_def)
  have new: "\<forall>r\<in>set rows'. storable r" if "demo_append k what rows = Return rows'" "\<forall>r\<in>set rows. storable r" for k what rows rows'
    using that app by (auto simp: demo_append_def appendActivityRow_def demo_valid Let_def split: sum.splits)
  show ?thesis by (rule new [OF demo_appends(2) new [OF demo_appends(1)]]) simp
qed


end
