(* ===== verification/Audit_Roots.thy ===== *)
theory Audit_Roots
  imports Audit_Chain
begin

text \<open>
  The signed daily roots of \<^verbatim>\<open>apps/orchestrator/src/services/audit-daily-root.service.ts\<close>.  A date is
  its UTC day number; the strings of the code are its rendering \<open>date_part\<close>, which for four-digit
  years is the first ten characters of the ISO text and sorts like the number.  The device key is a
  parameter.
\<close>

section \<open>Roots\<close>

record daily_root =
  d_date :: int
  d_first :: int
  d_last :: int
  d_count :: nat
  d_tail :: string
  d_prev :: string
  d_hash :: string
  d_signature :: string

definition show_int :: "int \<Rightarrow> string" where
  "show_int n = (if n < 0 then ''-'' @ show_nat (nat (- n)) else show_nat (nat n))"

definition root_content :: "int \<Rightarrow> int \<Rightarrow> int \<Rightarrow> string \<Rightarrow> nat \<Rightarrow> string \<Rightarrow> json" where
  "root_content date first lst prevRootHash count tailHash = JObj [
     (''date'', JStr (date_part date)), (''firstRowId'', JStr (show_int first)), (''lastRowId'', JStr (show_int lst)),
     (''prevRootHash'', JStr prevRootHash), (''rowCount'', JNum (show_nat count)), (''tailSignatureHash'', JStr tailHash)]"

definition canonicalizeDailyRoot :: "int \<Rightarrow> int \<Rightarrow> int \<Rightarrow> string \<Rightarrow> nat \<Rightarrow> string \<Rightarrow> string" where
  "canonicalizeDailyRoot date first lst prevRootHash count tailHash =
     stringify (root_content date first lst prevRootHash count tailHash)"

definition dailyRootHash :: "(string \<Rightarrow> string) \<Rightarrow> int \<Rightarrow> int \<Rightarrow> int \<Rightarrow> string \<Rightarrow> nat \<Rightarrow> string \<Rightarrow> string" where
  "dailyRootHash sha date first lst prevRootHash count tailHash =
     sha (canonicalizeDailyRoot date first lst prevRootHash count tailHash)"

definition utcDateString :: "int \<Rightarrow> string" where
  "utcDateString t = take 10 (toISOString t)"

definition endOfUtcDay :: "int \<Rightarrow> int" where
  "endOfUtcDay date = date * day_ms + day_ms"

text \<open>\<^verbatim>\<open>findFirst\<close> ordered by date, descending.\<close>

definition latest_root :: "daily_root list \<Rightarrow> daily_root option" where
  "latest_root roots = (if roots = [] then None
     else Some (fold (\<lambda>r best. if d_date r > d_date best then r else best) (tl roots) (hd roots)))"

definition last_before :: "int \<Rightarrow> activity_row list \<Rightarrow> activity_row option" where
  "last_before t rows = (let early = filter (\<lambda>r. c_at r < t) rows in if early = [] then None else Some (last early))"

text \<open>The span and the tail hash of the root of a date, or nothing when there is nothing to attest.\<close>

definition root_span ::
  "(string \<Rightarrow> string) \<Rightarrow> activity_row list \<Rightarrow> daily_root option \<Rightarrow> int \<Rightarrow> (int \<times> int \<times> string) option" where
  "root_span sha rows prevRoot date =
     (let tailRow = last_before (endOfUtcDay date) rows
      in case prevRoot of
           Some p \<Rightarrow>
             (let first = d_last p + 1
              in case tailRow of
                   Some t \<Rightarrow> if r_id t \<ge> first then Some (first, r_id t, hashSignature sha (r_signature t))
                             else Some (first, d_last p, d_tail p)
                 | None \<Rightarrow> Some (first, d_last p, d_tail p))
         | None \<Rightarrow>
             (case tailRow of None \<Rightarrow> None
              | Some t \<Rightarrow> Some (r_id (hd rows), r_id t, hashSignature sha (r_signature t))))"

definition count_between :: "int \<Rightarrow> int \<Rightarrow> activity_row list \<Rightarrow> nat" where
  "count_between first lst rows =
     (if lst \<ge> first then length (filter (\<lambda>r. first \<le> r_id r \<and> r_id r \<le> lst) rows) else 0)"

definition signDailyRootForDate ::
  "(string \<Rightarrow> string) \<Rightarrow> (string \<Rightarrow> string) \<Rightarrow> activity_row list \<Rightarrow> int \<Rightarrow> daily_root list \<Rightarrow> bool \<times> daily_root list" where
  "signDailyRootForDate sha deviceKey rows date roots =
     (if \<exists>r\<in>set roots. d_date r = date then (False, roots)
      else let prevRoot = latest_root roots in
        case root_span sha rows prevRoot date of
          None \<Rightarrow> (False, roots)
        | Some (first, lst, tailHash) \<Rightarrow>
            (let count = count_between first lst rows;
                 prevHash = (case prevRoot of None \<Rightarrow> [] | Some p \<Rightarrow> d_hash p)
             in (True, roots @ [\<lparr>d_date = date, d_first = first, d_last = lst, d_count = count, d_tail = tailHash,
                   d_prev = prevHash, d_hash = dailyRootHash sha date first lst prevHash count tailHash,
                   d_signature = deviceKey (canonicalizeDailyRoot date first lst prevHash count tailHash)\<rparr>])))"

definition MAX_CATCHUP_DAYS :: nat where
  "MAX_CATCHUP_DAYS = 60"

definition job_dates :: "int \<Rightarrow> daily_root list \<Rightarrow> int list" where
  "job_dates now roots =
     (let yesterday = (now - day_ms) div day_ms;
          start = (case latest_root roots of None \<Rightarrow> yesterday | Some r \<Rightarrow> d_date r + 1)
      in take MAX_CATCHUP_DAYS [start .. yesterday])"

fun sign_dates ::
  "(string \<Rightarrow> string) \<Rightarrow> (string \<Rightarrow> string) \<Rightarrow> activity_row list \<Rightarrow> int list \<Rightarrow> daily_root list
     \<Rightarrow> int list \<times> nat \<times> daily_root list" where
  "sign_dates sha deviceKey rows [] roots = ([], 0, roots)"
| "sign_dates sha deviceKey rows (d # ds) roots =
     (let (created, roots1) = signDailyRootForDate sha deviceKey rows d roots;
          (signed, skipped, roots2) = sign_dates sha deviceKey rows ds roots1
      in if created then (d # signed, skipped, roots2) else (signed, skipped + 1, roots2))"

definition runDailyRootJob ::
  "(string \<Rightarrow> string) \<Rightarrow> (string \<Rightarrow> string) \<Rightarrow> activity_row list \<Rightarrow> int \<Rightarrow> daily_root list
     \<Rightarrow> int list \<times> nat \<times> daily_root list" where
  "runDailyRootJob sha deviceKey rows now roots = sign_dates sha deviceKey rows (job_dates now roots) roots"

section \<open>Roots tile the table\<close>

text \<open>
  Roots in date order, each starting right after the previous one, linked by its hash, and with a
  hash of its own content.
\<close>

definition follows :: "daily_root \<Rightarrow> daily_root \<Rightarrow> bool" where
  "follows p r \<longleftrightarrow> d_date p < d_date r \<and> d_first r = d_last p + 1 \<and> d_last p \<le> d_last r \<and> d_prev r = d_hash p"

definition root_sealed :: "(string \<Rightarrow> string) \<Rightarrow> (string \<Rightarrow> string) \<Rightarrow> daily_root \<Rightarrow> bool" where
  "root_sealed sha deviceKey r \<longleftrightarrow>
     d_hash r = dailyRootHash sha (d_date r) (d_first r) (d_last r) (d_prev r) (d_count r) (d_tail r)
   \<and> d_signature r = deviceKey (canonicalizeDailyRoot (d_date r) (d_first r) (d_last r) (d_prev r) (d_count r) (d_tail r))"

definition tiled :: "(string \<Rightarrow> string) \<Rightarrow> (string \<Rightarrow> string) \<Rightarrow> daily_root list \<Rightarrow> bool" where
  "tiled sha deviceKey roots \<longleftrightarrow> (\<forall>i. Suc i < length roots \<longrightarrow> follows (roots ! i) (roots ! Suc i))
     \<and> (\<forall>r\<in>set roots. root_sealed sha deviceKey r)"

lemma tiled_dates: "tiled sha key roots \<Longrightarrow> i < j \<Longrightarrow> j < length roots \<Longrightarrow> d_date (roots ! i) < d_date (roots ! j)"
proof (induction j)
  case (Suc j)
  have "d_date (roots ! j) < d_date (roots ! Suc j)" using Suc.prems by (auto simp: tiled_def follows_def)
  then show ?case using Suc by (cases "i = j") fastforce+
qed simp

lemma fold_latest:
  "(\<And>i j. i < j \<Longrightarrow> j < length (b # rs) \<Longrightarrow> d_date ((b # rs) ! i) < d_date ((b # rs) ! j)) \<Longrightarrow>
     fold (\<lambda>r best. if d_date r > d_date best then r else best) rs b = last (b # rs)"
proof (induction rs arbitrary: b)
  case (Cons r rs)
  have "d_date b < d_date r" using Cons.prems [of 0 1] by simp
  moreover have "fold (\<lambda>r best. if d_date r > d_date best then r else best) rs r = last (r # rs)"
    using Cons.prems [of "Suc _" "Suc _"] by (intro Cons.IH) auto
  ultimately show ?case by simp
qed simp

lemma latest_root_last:
  assumes "tiled sha key roots"
  shows "latest_root roots = (if roots = [] then None else Some (last roots))"
proof (cases roots)
  case (Cons b rs)
  have "fold (\<lambda>r best. if d_date r > d_date best then r else best) rs b = last (b # rs)"
    by (rule fold_latest) (rule tiled_dates [OF assms [unfolded Cons]])
  with Cons show ?thesis by (simp add: latest_root_def)
qed (simp add: latest_root_def)

lemma tiled_snoc:
  assumes "tiled sha key roots" "root_sealed sha key r" "roots \<noteq> [] \<Longrightarrow> follows (last roots) r"
  shows "tiled sha key (roots @ [r])"
proof -
  have "follows ((roots @ [r]) ! i) ((roots @ [r]) ! Suc i)" if "Suc i < length (roots @ [r])" for i
  proof (cases "Suc i < length roots")
    case True
    then show ?thesis using assms(1) by (simp add: tiled_def nth_append)
  next
    case False
    then have "Suc i = length roots" using that by simp
    then show ?thesis using assms(3) by (cases roots rule: rev_cases) (auto simp: nth_append)
  qed
  with assms(1,2) show ?thesis by (auto simp: tiled_def)
qed

lemma root_span_prev:
  "root_span sha rows (Some p) date = Some (first, lst, h) \<Longrightarrow> first = d_last p + 1 \<and> d_last p \<le> lst"
  by (auto simp: root_span_def Let_def split: option.splits if_splits)

lemma signDailyRoot_tiled:
  assumes "tiled sha key roots" "\<And>r. r \<in> set roots \<Longrightarrow> d_date r < date"
  shows "tiled sha key (snd (signDailyRootForDate sha key rows date roots))"
proof (cases "root_span sha rows (latest_root roots) date")
  case (Some x)
  obtain first lst h where x: "x = (first, lst, h)" by (cases x)
  have nodate: "\<not> (\<exists>r\<in>set roots. d_date r = date)" using assms(2) by fastforce
  show ?thesis
    using Some x nodate assms root_span_prev [of sha rows "last roots" date first lst h]
    by (cases "roots = []") (auto simp: signDailyRootForDate_def Let_def latest_root_last root_sealed_def follows_def tiled_def [of _ _ "[_]"]
        intro!: tiled_snoc)
qed (use assms in \<open>auto simp: signDailyRootForDate_def\<close>)

lemma signDailyRoot_dates:
  "set (map d_date (snd (signDailyRootForDate sha key rows date roots))) \<subseteq> insert date (set (map d_date roots))"
  by (auto simp: signDailyRootForDate_def Let_def split: option.splits)

lemma sign_dates_tiled:
  assumes "tiled sha key roots" "sorted_wrt (<) ds" "\<And>r d. r \<in> set roots \<Longrightarrow> d \<in> set ds \<Longrightarrow> d_date r < d"
  shows "tiled sha key (snd (snd (sign_dates sha key rows ds roots)))"
  using assms
proof (induction ds arbitrary: roots)
  case (Cons d ds)
  define roots1 where "roots1 = snd (signDailyRootForDate sha key rows d roots)"
  have "tiled sha key roots1" unfolding roots1_def by (rule signDailyRoot_tiled) (use Cons.prems in auto)
  moreover have "d_date r < d'" if "r \<in> set roots1" "d' \<in> set ds" for r d'
    using that Cons.prems signDailyRoot_dates [of sha key rows d roots] unfolding roots1_def by fastforce
  ultimately have "tiled sha key (snd (snd (sign_dates sha key rows ds roots1)))"
    using Cons.prems by (intro Cons.IH) auto
  then show ?case by (simp add: roots1_def Let_def case_prod_unfold)
qed simp

lemma job_dates_sorted: "sorted_wrt (<) (job_dates now roots)"
  unfolding job_dates_def Let_def by (rule sorted_wrt_take) (rule sorted_wrt_upto)

lemma tiled_last_date: "tiled sha key roots \<Longrightarrow> r \<in> set roots \<Longrightarrow> d_date r \<le> d_date (last roots)"
proof -
  assume t: "tiled sha key roots" and r: "r \<in> set roots"
  then obtain i where i: "i < length roots" "r = roots ! i" by (auto simp: in_set_conv_nth)
  have "roots \<noteq> []" using r by auto
  then have "last roots = roots ! (length roots - 1)" by (rule last_conv_nth)
  then show ?thesis using tiled_dates [OF t, of i "length roots - 1"] i by (cases "i = length roots - 1") fastforce+
qed

lemma job_tiled: "tiled sha key roots \<Longrightarrow> tiled sha key (snd (snd (runDailyRootJob sha key rows now roots)))"
  unfolding runDailyRootJob_def
proof (rule sign_dates_tiled [OF _ job_dates_sorted])
  fix r d assume t: "tiled sha key roots" and r: "r \<in> set roots" and d: "d \<in> set (job_dates now roots)"
  then have "roots \<noteq> []" by auto
  then have "d_date (last roots) + 1 \<le> d"
    using d in_set_takeD by (fastforce simp: job_dates_def Let_def latest_root_last [OF t])
  with tiled_last_date [OF t r] show "d_date r < d" by simp
qed simp

text \<open>The roots over the life of the box: the job runs at any times, over whatever the table then holds.\<close>

inductive root_run :: "(string \<Rightarrow> string) \<Rightarrow> (string \<Rightarrow> string) \<Rightarrow> daily_root list \<Rightarrow> bool" for sha key where
  no_roots: "root_run sha key []"
| job_ran: "root_run sha key roots \<Longrightarrow> root_run sha key (snd (snd (runDailyRootJob sha key rows now roots)))"

lemma root_run_tiled: "root_run sha key roots \<Longrightarrow> tiled sha key roots"
  by (induction rule: root_run.induct) (simp add: tiled_def, rule job_tiled)

lemma tiled_follows: "tiled sha key roots \<Longrightarrow> Suc i < length roots \<Longrightarrow> follows (roots ! i) (roots ! Suc i)"
  by (simp add: tiled_def)

lemma tiled_last_mono:
  "tiled sha key roots \<Longrightarrow> i \<le> j \<Longrightarrow> j < length roots \<Longrightarrow> d_last (roots ! i) \<le> d_last (roots ! j)"
proof (induction j)
  case (Suc j)
  then show ?case using tiled_follows [OF Suc.prems(1), of j] by (cases "i = Suc j") (auto simp: follows_def)
qed simp

lemma span_exists:
  "tiled sha key roots \<Longrightarrow> n < length roots \<Longrightarrow> d_first (roots ! 0) \<le> k \<Longrightarrow> k \<le> d_last (roots ! n) \<Longrightarrow>
     \<exists>i \<le> n. d_first (roots ! i) \<le> k \<and> k \<le> d_last (roots ! i)"
proof (induction n)
  case (Suc n)
  show ?case
  proof (cases "k \<le> d_last (roots ! n)")
    case True
    with Suc obtain i where "i \<le> n" "d_first (roots ! i) \<le> k" "k \<le> d_last (roots ! i)" by auto
    then show ?thesis by (intro exI [of _ i]) simp
  next
    case False
    then show ?thesis
      using tiled_follows [OF Suc.prems(1), of n] Suc.prems by (intro exI [of _ "Suc n"]) (simp add: follows_def)
  qed
qed auto

lemma spans_disjoint:
  assumes "tiled sha key roots" "i < j" "j < length roots" "k \<le> d_last (roots ! i)"
  shows "k < d_first (roots ! j)"
proof -
  obtain j' where j': "j = Suc j'" "i \<le> j'" using assms(2) by (cases j) auto
  have "d_last (roots ! i) \<le> d_last (roots ! j')" using tiled_last_mono [OF assms(1) j'(2)] assms(3) j'(1) by simp
  with tiled_follows [OF assms(1), of j'] assms(3,4) j'(1) show ?thesis by (simp add: follows_def)
qed

lemma sign_dates_all:
  assumes "tiled sha key roots" "roots \<noteq> []" "sorted_wrt (<) ds" "\<And>r d. r \<in> set roots \<Longrightarrow> d \<in> set ds \<Longrightarrow> d_date r < d"
  shows "fst (sign_dates sha key rows ds roots) = ds \<and> fst (snd (sign_dates sha key rows ds roots)) = 0
     \<and> map d_date (snd (snd (sign_dates sha key rows ds roots))) = map d_date roots @ ds"
  using assms
proof (induction ds arbitrary: roots)
  case (Cons d ds)
  have nodate: "\<not> (\<exists>r\<in>set roots. d_date r = d)" using Cons.prems(4) by fastforce
  have "root_span sha rows (Some p) d \<noteq> None" for p
    by (auto simp: root_span_def Let_def split: option.splits if_splits)
  then obtain first lst h where span: "root_span sha rows (latest_root roots) d = Some (first, lst, h)"
    using Cons.prems(2) latest_root_last [OF Cons.prems(1)] by fastforce
  define roots1 where "roots1 = snd (signDailyRootForDate sha key rows d roots)"
  have step: "fst (signDailyRootForDate sha key rows d roots)" "map d_date roots1 = map d_date roots @ [d]"
    using nodate span by (auto simp: roots1_def signDailyRootForDate_def Let_def)
  have "tiled sha key roots1" unfolding roots1_def by (rule signDailyRoot_tiled) (use Cons.prems in auto)
  moreover have "roots1 \<noteq> []" using step(2) by auto
  moreover have "d_date r < d'" if "r \<in> set roots1" "d' \<in> set ds" for r d'
    using that Cons.prems signDailyRoot_dates [of sha key rows d roots] unfolding roots1_def by fastforce
  ultimately have "fst (sign_dates sha key rows ds roots1) = ds \<and> fst (snd (sign_dates sha key rows ds roots1)) = 0
     \<and> map d_date (snd (snd (sign_dates sha key rows ds roots1))) = map d_date roots1 @ ds"
    using Cons.prems(3) by (intro Cons.IH) auto
  with step show ?case by (simp add: roots1_def Let_def case_prod_unfold)
qed simp

section \<open>Properties\<close>

text \<open>
  C8.  The daily roots tile the table: every row id from the first root's start to the last root's
  end lies in the span of exactly one root; each root commits to the hash of the one before it.
\<close>

theorem daily_roots_tile:
  assumes "root_run sha key roots" "roots \<noteq> []" "d_first (hd roots) \<le> k" "k \<le> d_last (last roots)"
  shows "(\<exists>!i. i < length roots \<and> d_first (roots ! i) \<le> k \<and> k \<le> d_last (roots ! i))
     \<and> (\<forall>i. Suc i < length roots \<longrightarrow> d_prev (roots ! Suc i) = d_hash (roots ! i) \<and> d_date (roots ! i) < d_date (roots ! Suc i))"
proof (intro conjI)
  have t: "tiled sha key roots" by (rule root_run_tiled [OF assms(1)])
  obtain i where "i \<le> length roots - 1" and i: "d_first (roots ! i) \<le> k" "k \<le> d_last (roots ! i)"
    using span_exists [OF t, of "length roots - 1" k] assms(2-4) by (auto simp: hd_conv_nth last_conv_nth)
  then have len: "i < length roots" using assms(2) by (cases roots) auto
  show "\<exists>!i. i < length roots \<and> d_first (roots ! i) \<le> k \<and> k \<le> d_last (roots ! i)"
  proof (intro ex1I [of _ i])
    fix j assume j: "j < length roots \<and> d_first (roots ! j) \<le> k \<and> k \<le> d_last (roots ! j)"
    show "j = i"
      using spans_disjoint [OF t, of i j k] spans_disjoint [OF t, of j i k] len i j by (cases i j rule: linorder_cases) auto
  qed (use len i in auto)
  show "\<forall>i. Suc i < length roots \<longrightarrow> d_prev (roots ! Suc i) = d_hash (roots ! i) \<and> d_date (roots ! i) < d_date (roots ! Suc i)"
    using tiled_follows [OF t] by (auto simp: follows_def)
qed

definition demo_row_at :: "int \<Rightarrow> int \<Rightarrow> activity_row" where
  "demo_row_at i t = \<lparr>c_at = t, c_severity = ''ok'', c_icon = [], c_what = [], c_sub = None, c_kind = ''auth'', c_refs = None,
     c_actor_type = Some ''system'', c_actor_id = None, c_version = 2, r_id = i, r_signature = ''s'', r_prev = []\<rparr>"

definition demo_roots1 :: "daily_root list" where
  "demo_roots1 = snd (snd (runDailyRootJob (\<lambda>s. ''h'') (\<lambda>s. ''k'') [demo_row_at 1 0, demo_row_at 2 5] (2 * day_ms) []))"

definition demo_roots2 :: "daily_root list" where
  "demo_roots2 = snd (snd (runDailyRootJob (\<lambda>s. ''h'') (\<lambda>s. ''k'')
     [demo_row_at 1 0, demo_row_at 2 5, demo_row_at 4 (2 * day_ms + 1)] (3 * day_ms) demo_roots1))"

lemma demo_root_run: "root_run (\<lambda>s. ''h'') (\<lambda>s. ''k'') demo_roots1" "root_run (\<lambda>s. ''h'') (\<lambda>s. ''k'') demo_roots2"
  unfolding demo_roots2_def demo_roots1_def by (intro root_run.job_ran root_run.no_roots)+

lemma demo_roots_value: "map (\<lambda>r. (d_date r, d_first r, d_last r, d_count r)) demo_roots2 = [(1, 1, 2, 2), (2, 3, 4, 1)]"
  by (simp add: demo_roots2_def demo_roots1_def runDailyRootJob_def job_dates_def MAX_CATCHUP_DAYS_def latest_root_def day_ms_def Let_def
      signDailyRootForDate_def root_span_def last_before_def endOfUtcDay_def demo_row_at_def count_between_def upto.simps dailyRootHash_def)

theorem daily_roots_tile_witness:
  "\<exists>!i. i < length demo_roots2 \<and> d_first (demo_roots2 ! i) \<le> 3 \<and> 3 \<le> d_last (demo_roots2 ! i)"
proof -
  obtain a b where ab: "demo_roots2 = [a, b]" using demo_roots_value by auto
  have v: "d_first a = 1" "d_last b = 4" using demo_roots_value unfolding ab by auto
  have "demo_roots2 \<noteq> []" "d_first (hd demo_roots2) \<le> 3" "3 \<le> d_last (last demo_roots2)" unfolding ab using v by auto
  from daily_roots_tile [OF demo_root_run(2) this] show ?thesis by blast
qed

text \<open>
   Once there is a root, a run of the job signs every missing day up to yesterday, oldest first
  and at most sixty of them, and skips none: the dates of the roots are exactly extended by them.
\<close>

theorem root_job_catches_up:
  assumes "root_run sha key roots" "roots \<noteq> []" "runDailyRootJob sha key rows now roots = (signed, skipped, roots')"
  shows "signed = take 60 [d_date (last roots) + 1 .. (now - day_ms) div day_ms] \<and> skipped = 0
     \<and> map d_date roots' = map d_date roots @ signed"
proof -
  have t: "tiled sha key roots" by (rule root_run_tiled [OF assms(1)])
  have dates: "job_dates now roots = take 60 [d_date (last roots) + 1 .. (now - day_ms) div day_ms]"
    using assms(2) by (simp add: job_dates_def Let_def latest_root_last [OF t] MAX_CATCHUP_DAYS_def)
  have later: "d_date r < d" if "r \<in> set roots" "d \<in> set (job_dates now roots)" for r d
    using tiled_last_date [OF t that(1)] that(2) in_set_takeD unfolding dates by fastforce
  have all: "fst (sign_dates sha key rows (job_dates now roots) roots) = job_dates now roots"
    "fst (snd (sign_dates sha key rows (job_dates now roots) roots)) = 0"
    "map d_date (snd (snd (sign_dates sha key rows (job_dates now roots) roots))) = map d_date roots @ job_dates now roots"
    using sign_dates_all [OF t assms(2) job_dates_sorted [of now roots], of rows] later by blast+
  show ?thesis
    using all assms(3) unfolding runDailyRootJob_def dates by simp
qed

theorem root_job_catches_up_witness:
  "\<exists>skipped roots'. runDailyRootJob (\<lambda>s. ''h'') (\<lambda>s. ''k'') [] (5 * day_ms) demo_roots2 = ([3, 4], skipped, roots') \<and> skipped = 0"
proof -
  obtain signed skipped roots' where run: "runDailyRootJob (\<lambda>s. ''h'') (\<lambda>s. ''k'') [] (5 * day_ms) demo_roots2 = (signed, skipped, roots')"
    by (metis prod_cases3)
  obtain a b where ab: "demo_roots2 = [a, b]" using demo_roots_value by auto
  have "d_date (last demo_roots2) = 2" "demo_roots2 \<noteq> []" using demo_roots_value unfolding ab by auto
  with root_job_catches_up [OF demo_root_run(2) _ run] have "signed = take 60 [3 .. 4]" "skipped = 0"
    by (simp_all add: day_ms_def)
  with run show ?thesis by (simp add: upto.simps)
qed

end
