(* ===== verification/Ota_Manifest.thy ===== *)
theory Ota_Manifest
  imports Json "HOL-Library.Monad_Syntax"
begin

text \<open>
  The two documents the release key signs, of
  \<open>apps/orchestrator/src/services/update-agent/\<close>: the release manifest (\<open>manifest.ts\<close>) and
  the channel pointer (\<open>channel-pointer.ts\<close>), each with the schema its parser enforces, and
  the download addresses built from them (\<open>download-urls.ts\<close>).

  A parser takes the document \<open>JSON.parse\<close> gave it, or \<open>None\<close> when that threw.  \<open>Date.parse\<close>
  is a parameter: outside the ISO format its answer is up to the engine.  The wording of a
  refusal is left out, its reason is kept.
\<close>

section \<open>The zod combinators the schemas use\<close>

definition need :: "bool \<Rightarrow> unit option" where
  "need b = (if b then Some () else None)"

fun as_string :: "json \<Rightarrow> string option" where
  "as_string (JStr s) = Some s"
| "as_string _ = None"

fun as_object :: "json \<Rightarrow> (string \<times> json) list option" where
  "as_object (JObj kvs) = Some kvs"
| "as_object _ = None"

fun as_array :: "json \<Rightarrow> json list option" where
  "as_array (JArr xs) = Some xs"
| "as_array _ = None"

text \<open>
  The value of a number whose text is integral: plain digits, or the exponent form that
  ECMAScript prints from \<open>10 ^ 21\<close> on.
\<close>

definition digits_value :: "string \<Rightarrow> int option" where
  "digits_value s =
     (if s \<noteq> [] \<and> list_all is_digit s then Some (int (nat_of_digits s))
      else
        (let m = takeWhile (\<lambda>c. c \<noteq> CHR ''e'') s; e = dropWhile (\<lambda>c. c \<noteq> CHR ''e'') s;
             i = takeWhile (\<lambda>c. c \<noteq> CHR ''.'') m; f = drop 1 (dropWhile (\<lambda>c. c \<noteq> CHR ''.'') m)
         in if starts_with ''e+'' e
            then Some (int (nat_of_digits (i @ f) * 10 ^ (nat_of_digits (drop 2 e) - length f)))
            else None))"

definition num_int :: "string \<Rightarrow> int option" where
  "num_int s = (case s of CHR ''-'' # r \<Rightarrow> map_option uminus (digits_value r) | _ \<Rightarrow> digits_value s)"

fun as_int :: "json \<Rightarrow> int option" where
  "as_int (JNum t) = num_int t"
| "as_int _ = None"

lemma need_Some [simp]: "need b = Some u \<longleftrightarrow> b" "need True = Some ()" "need False = None"
  by (simp_all add: need_def)

lemma need_bind [simp]: "need b \<bind> f = (if b then f () else None)"
  by (simp add: need_def)

lemma as_string_Some [simp]: "as_string v = Some s \<longleftrightarrow> v = JStr s"
  by (cases v) auto

lemma as_object_Some [simp]: "as_object v = Some kvs \<longleftrightarrow> v = JObj kvs"
  by (cases v) auto

lemma as_array_Some [simp]: "as_array v = Some xs \<longleftrightarrow> v = JArr xs"
  by (cases v) auto

lemma show_nat_nonempty [simp]: "show_nat n \<noteq> []"
  by (simp add: show_nat.simps [of n])

lemma show_nat_not_minus: "show_nat n \<noteq> CHR ''-'' # r"
  using show_nat_digits [of "CHR ''-''" n] by (auto simp: is_digit_def)

lemma num_int_show_nat [simp]: "num_int (show_nat n) = Some (int n)"
proof -
  have "list_all is_digit (show_nat n)"
    using show_nat_digits by (auto simp: list_all_iff)
  then have "digits_value (show_nat n) = Some (int n)"
    by (simp add: digits_value_def)
  moreover have "num_int (show_nat n) = digits_value (show_nat n)"
    using show_nat_not_minus [of n] by (auto simp: num_int_def split: list.splits char.splits bool.splits)
  ultimately show ?thesis by simp
qed

section \<open>The patterns\<close>

definition hex_lower :: "char \<Rightarrow> bool" where
  "hex_lower c \<longleftrightarrow> is_digit c \<or> (97 \<le> (of_char c :: nat) \<and> of_char c \<le> (102 :: nat))"

definition low_letter :: "char \<Rightarrow> bool" where
  "low_letter c \<longleftrightarrow> 97 \<le> (of_char c :: nat) \<and> of_char c \<le> (122 :: nat)"

definition cap_letter :: "char \<Rightarrow> bool" where
  "cap_letter c \<longleftrightarrow> 65 \<le> (of_char c :: nat) \<and> of_char c \<le> (90 :: nat)"

definition GIT_SHA_RE :: "string \<Rightarrow> bool" where
  "GIT_SHA_RE s \<longleftrightarrow> length s = 40 \<and> list_all hex_lower s"

definition SHA256_HEX_RE :: "string \<Rightarrow> bool" where
  "SHA256_HEX_RE s \<longleftrightarrow> length s = 64 \<and> list_all hex_lower s"

definition DIGEST_RE :: "string \<Rightarrow> bool" where
  "DIGEST_RE s \<longleftrightarrow> starts_with ''sha256:'' s \<and> SHA256_HEX_RE (drop 7 s)"

text \<open>\<^verbatim>\<open>/^[a-z0-9][a-z0-9-]*$/\<close> and \<^verbatim>\<open>/^[A-Za-z0-9][A-Za-z0-9._+-]*$/\<close>.\<close>

definition SERVICE_NAME_RE :: "string \<Rightarrow> bool" where
  "SERVICE_NAME_RE s \<longleftrightarrow>
     (case s of [] \<Rightarrow> False
      | c # r \<Rightarrow> (low_letter c \<or> is_digit c) \<and> list_all (\<lambda>d. low_letter d \<or> is_digit d \<or> d = CHR ''-'') r)"

definition ASSET_FILE_RE :: "string \<Rightarrow> bool" where
  "ASSET_FILE_RE s \<longleftrightarrow>
     (case s of [] \<Rightarrow> False
      | c # r \<Rightarrow> (low_letter c \<or> cap_letter c \<or> is_digit c) \<and>
          list_all (\<lambda>d. low_letter d \<or> cap_letter d \<or> is_digit d \<or> d \<in> set ''._+-'') r)"

text \<open>\<^verbatim>\<open>(0|[1-9][0-9]*)\<close>, and three of them joined by dots.\<close>

definition decimal :: "string \<Rightarrow> bool" where
  "decimal s \<longleftrightarrow> s \<noteq> [] \<and> list_all is_digit s \<and> (s = ''0'' \<or> hd s \<noteq> CHR ''0'')"

definition split_dot :: "string \<Rightarrow> string \<times> string" where
  "split_dot s = (takeWhile (\<lambda>c. c \<noteq> CHR ''.'') s, dropWhile (\<lambda>c. c \<noteq> CHR ''.'') s)"

definition VERSION_RE :: "string \<Rightarrow> bool" where
  "VERSION_RE s =
     (let (a, r) = split_dot s; (b, r') = split_dot (drop 1 r)
      in decimal a \<and> r \<noteq> [] \<and> decimal b \<and> r' \<noteq> [] \<and> decimal (drop 1 r'))"

text \<open>
  \<^verbatim>\<open>/^ota-([a-z0-9]+)-[0-9]+-g[0-9a-f]{7}$/\<close> and its group: the channel class has no dash, so
  the group is the text up to the next one.
\<close>

definition tag_channel :: "string \<Rightarrow> string option" where
  "tag_channel tag =
     (let body = drop 4 tag;
          ch = takeWhile (\<lambda>c. low_letter c \<or> is_digit c) body; r = drop (length ch) body;
          run = takeWhile is_digit (drop 1 r); r' = drop (length run) (drop 1 r)
      in if starts_with ''ota-'' tag \<and> ch \<noteq> [] \<and> starts_with ''-'' r \<and> run \<noteq> [] \<and>
            starts_with ''-g'' r' \<and> length (drop 2 r') = 7 \<and> list_all hex_lower (drop 2 r')
         then Some ch else None)"

definition TAG_RE :: "string \<Rightarrow> bool" where
  "TAG_RE tag \<longleftrightarrow> tag_channel tag \<noteq> None"

section \<open>The release manifest\<close>

datatype update_failure_reason =
    trust_anchor_placeholder | cosign_unavailable | signature_failed | malformed_manifest
  | schema_invalid | schema_downgrade | schema_unsupported | orchestrator_schema_unsupported
  | extension_kind_missing | key_usage_mismatch | extension_key_changed | extension_schema_invalid
  | extension_digest_mismatch | pointer_invalid | pointer_mismatch

definition SUPPORTED_SCHEMA_VERSION :: int where
  "SUPPORTED_SCHEMA_VERSION = 1"

definition SUPPORTED_ORCHESTRATOR_SCHEMA :: int where
  "SUPPORTED_ORCHESTRATOR_SCHEMA = 1"

datatype healthcheck = Http_check nat string | No_check

record release_service =
  rs_name :: string
  rs_image :: string
  rs_digest :: string
  rs_healthcheck :: healthcheck

record release_client =
  rc_platform :: string
  rc_version :: string
  rc_file :: string
  rc_size :: nat
  rc_sha256 :: string

record release_manifest =
  m_gitSha :: string
  m_builtAt :: string
  m_channel :: string
  m_minOrchestratorSchema :: nat
  m_services :: "release_service list"
  m_configs_file :: string
  m_configs_sha256 :: string
  m_clients :: "release_client list option"

definition CLIENT_PLATFORMS :: "string list" where
  "CLIENT_PLATFORMS = [''windows'', ''macos'', ''linux'', ''android'']"

definition pos_int :: "json \<Rightarrow> nat option" where
  "pos_int v = do { n \<leftarrow> as_int v; need (1 \<le> n); Some (nat n) }"

definition healthcheckSchema :: "json \<Rightarrow> healthcheck option" where
  "healthcheckSchema v = do {
     kvs \<leftarrow> as_object v;
     t \<leftarrow> map_of kvs ''type'' \<bind> as_string;
     if t = ''http'' then do {
       port \<leftarrow> map_of kvs ''port'' \<bind> pos_int;
       need (port \<le> 65535);
       path \<leftarrow> map_of kvs ''path'' \<bind> as_string;
       need (starts_with ''/'' path);
       Some (Http_check port path) }
     else if t = ''none'' then Some No_check
     else None }"

definition service_ok :: "release_service \<Rightarrow> bool" where
  "service_ok s \<longleftrightarrow> SERVICE_NAME_RE (rs_name s) \<and> rs_image s \<noteq> [] \<and> DIGEST_RE (rs_digest s)
     \<and> ends_with (''@'' @ rs_digest s) (rs_image s)"

definition serviceSchema :: "json \<Rightarrow> release_service option" where
  "serviceSchema v = do {
     kvs \<leftarrow> as_object v;
     name \<leftarrow> map_of kvs ''name'' \<bind> as_string;
     image \<leftarrow> map_of kvs ''image'' \<bind> as_string;
     digest \<leftarrow> map_of kvs ''digest'' \<bind> as_string;
     hc \<leftarrow> map_of kvs ''healthcheck'' \<bind> healthcheckSchema;
     let s = \<lparr>rs_name = name, rs_image = image, rs_digest = digest, rs_healthcheck = hc\<rparr>;
     need (service_ok s);
     Some s }"

definition client_ok :: "release_client \<Rightarrow> bool" where
  "client_ok c \<longleftrightarrow> rc_platform c \<in> set CLIENT_PLATFORMS \<and> VERSION_RE (rc_version c)
     \<and> ASSET_FILE_RE (rc_file c) \<and> 1 \<le> rc_size c \<and> SHA256_HEX_RE (rc_sha256 c)"

definition clientSchema :: "json \<Rightarrow> release_client option" where
  "clientSchema v = do {
     kvs \<leftarrow> as_object v;
     platform \<leftarrow> map_of kvs ''platform'' \<bind> as_string;
     version \<leftarrow> map_of kvs ''version'' \<bind> as_string;
     file \<leftarrow> map_of kvs ''file'' \<bind> as_string;
     size \<leftarrow> map_of kvs ''size'' \<bind> pos_int;
     sha \<leftarrow> map_of kvs ''sha256'' \<bind> as_string;
     let c = \<lparr>rc_platform = platform, rc_version = version, rc_file = file, rc_size = size, rc_sha256 = sha\<rparr>;
     need (client_ok c);
     Some c }"

definition clientsSchema :: "json option \<Rightarrow> release_client list option option" where
  "clientsSchema v =
     (case v of None \<Rightarrow> Some None
      | Some d \<Rightarrow> do {
          xs \<leftarrow> as_array d;
          cs \<leftarrow> those (map clientSchema xs);
          need (distinct (map rc_platform cs));
          Some (Some cs) })"

definition release_ok :: "(string \<Rightarrow> int option) \<Rightarrow> release_manifest \<Rightarrow> bool" where
  "release_ok date m \<longleftrightarrow> GIT_SHA_RE (m_gitSha m) \<and> date (m_builtAt m) \<noteq> None \<and> m_channel m \<noteq> []
     \<and> m_services m \<noteq> [] \<and> distinct (map rs_name (m_services m))
     \<and> m_configs_file m \<noteq> [] \<and> SHA256_HEX_RE (m_configs_sha256 m)"

definition manifestSchema :: "(string \<Rightarrow> int option) \<Rightarrow> (string \<times> json) list \<Rightarrow> release_manifest option" where
  "manifestSchema date kvs = do {
     v \<leftarrow> map_of kvs ''schemaVersion'' \<bind> as_int;
     need (v = SUPPORTED_SCHEMA_VERSION);
     rel \<leftarrow> map_of kvs ''release'' \<bind> as_object;
     gitSha \<leftarrow> map_of rel ''gitSha'' \<bind> as_string;
     builtAt \<leftarrow> map_of rel ''builtAt'' \<bind> as_string;
     channel \<leftarrow> map_of rel ''channel'' \<bind> as_string;
     mos \<leftarrow> map_of rel ''minOrchestratorSchema'' \<bind> pos_int;
     svcs \<leftarrow> map_of kvs ''services'' \<bind> as_array;
     services \<leftarrow> those (map serviceSchema svcs);
     cfg \<leftarrow> map_of kvs ''configs'' \<bind> as_object;
     file \<leftarrow> map_of cfg ''file'' \<bind> as_string;
     sha \<leftarrow> map_of cfg ''sha256'' \<bind> as_string;
     clients \<leftarrow> clientsSchema (map_of kvs ''clients'');
     let m = \<lparr>m_gitSha = gitSha, m_builtAt = builtAt, m_channel = channel, m_minOrchestratorSchema = mos,
              m_services = services, m_configs_file = file, m_configs_sha256 = sha, m_clients = clients\<rparr>;
     need (release_ok date m);
     Some m }"

definition EXTENSION_SIGNING_FIELDS :: "string list" where
  "EXTENSION_SIGNING_FIELDS = [''usage'', ''keyUsage'']"

text \<open>True when the document is refused as something other than a release.\<close>

definition nonReleaseKind :: "(string \<times> json) list \<Rightarrow> bool" where
  "nonReleaseKind kvs \<longleftrightarrow>
     (map_of kvs ''kind'' \<noteq> None \<and> map_of kvs ''kind'' \<noteq> Some (JStr ''release''))
     \<or> list_ex (\<lambda>f. map_of kvs f \<noteq> None) EXTENSION_SIGNING_FIELDS"

definition parseReleaseManifest ::
  "(string \<Rightarrow> int option) \<Rightarrow> json option \<Rightarrow> (update_failure_reason, release_manifest) result" where
  "parseReleaseManifest date doc =
     (case doc of
        None \<Rightarrow> Throw malformed_manifest
      | Some d \<Rightarrow>
          (case as_object d of
             None \<Rightarrow> Throw malformed_manifest
           | Some kvs \<Rightarrow>
               if nonReleaseKind kvs then Throw schema_invalid
               else (case map_of kvs ''schemaVersion'' \<bind> as_int of
                   None \<Rightarrow> Throw schema_invalid
                 | Some v \<Rightarrow>
                     if v < SUPPORTED_SCHEMA_VERSION then Throw schema_downgrade
                     else if v > SUPPORTED_SCHEMA_VERSION then Throw schema_unsupported
                     else (case manifestSchema date kvs of
                         None \<Rightarrow> Throw schema_invalid
                       | Some m \<Rightarrow>
                           if int (m_minOrchestratorSchema m) > SUPPORTED_ORCHESTRATOR_SCHEMA
                           then Throw orchestrator_schema_unsupported
                           else Return m))))"

section \<open>The channel pointer\<close>

definition CHANNEL_POINTER_KIND :: string where
  "CHANNEL_POINTER_KIND = ''droplet-ota-channel-pointer''"

definition SUPPORTED_POINTER_SCHEMA_VERSION :: int where
  "SUPPORTED_POINTER_SCHEMA_VERSION = 1"

record channel_pointer =
  cp_channel :: string
  cp_tag :: string
  cp_gitSha :: string
  cp_builtAt :: string
  cp_manifestSha256 :: string
  cp_publishedAt :: string

definition POINTER_KEYS :: "string list" where
  "POINTER_KEYS = [''schemaVersion'', ''kind'', ''channel'', ''tag'', ''gitSha'', ''builtAt'',
     ''manifestSha256'', ''publishedAt'']"

definition pointer_ok :: "(string \<Rightarrow> int option) \<Rightarrow> channel_pointer \<Rightarrow> bool" where
  "pointer_ok date p \<longleftrightarrow> cp_channel p \<noteq> [] \<and> TAG_RE (cp_tag p) \<and> GIT_SHA_RE (cp_gitSha p)
     \<and> date (cp_builtAt p) \<noteq> None \<and> SHA256_HEX_RE (cp_manifestSha256 p) \<and> date (cp_publishedAt p) \<noteq> None
     \<and> tag_channel (cp_tag p) = Some (cp_channel p)"

definition pointerSchema :: "(string \<Rightarrow> int option) \<Rightarrow> json \<Rightarrow> channel_pointer option" where
  "pointerSchema date d = do {
     kvs \<leftarrow> as_object d;
     need (list_all (\<lambda>e. fst e \<in> set POINTER_KEYS) kvs);
     v \<leftarrow> map_of kvs ''schemaVersion'' \<bind> as_int;
     need (v = SUPPORTED_POINTER_SCHEMA_VERSION);
     kind \<leftarrow> map_of kvs ''kind'' \<bind> as_string;
     need (kind = CHANNEL_POINTER_KIND);
     channel \<leftarrow> map_of kvs ''channel'' \<bind> as_string;
     tag \<leftarrow> map_of kvs ''tag'' \<bind> as_string;
     gitSha \<leftarrow> map_of kvs ''gitSha'' \<bind> as_string;
     builtAt \<leftarrow> map_of kvs ''builtAt'' \<bind> as_string;
     sha \<leftarrow> map_of kvs ''manifestSha256'' \<bind> as_string;
     publishedAt \<leftarrow> map_of kvs ''publishedAt'' \<bind> as_string;
     let p = \<lparr>cp_channel = channel, cp_tag = tag, cp_gitSha = gitSha, cp_builtAt = builtAt,
              cp_manifestSha256 = sha, cp_publishedAt = publishedAt\<rparr>;
     need (pointer_ok date p);
     Some p }"

definition parseChannelPointer ::
  "(string \<Rightarrow> int option) \<Rightarrow> json option \<Rightarrow> (update_failure_reason, channel_pointer) result" where
  "parseChannelPointer date doc = some_or pointer_invalid (doc \<bind> pointerSchema date)"

section \<open>The stored snapshot of a manifest\<close>

text \<open>
  The poller stores the parsed manifest, and the apply step parses the stored document again.
  The document of a manifest lists the schema's keys in order; an absent \<open>clients\<close> has none.
\<close>

fun healthcheck_json :: "healthcheck \<Rightarrow> json" where
  "healthcheck_json (Http_check port path) =
     JObj [(''type'', JStr ''http''), (''port'', JNum (show_nat port)), (''path'', JStr path)]"
| "healthcheck_json No_check = JObj [(''type'', JStr ''none'')]"

definition service_json :: "release_service \<Rightarrow> json" where
  "service_json s = JObj [(''name'', JStr (rs_name s)), (''image'', JStr (rs_image s)),
     (''digest'', JStr (rs_digest s)), (''healthcheck'', healthcheck_json (rs_healthcheck s))]"

definition client_json :: "release_client \<Rightarrow> json" where
  "client_json c = JObj [(''platform'', JStr (rc_platform c)), (''version'', JStr (rc_version c)),
     (''file'', JStr (rc_file c)), (''size'', JNum (show_nat (rc_size c))), (''sha256'', JStr (rc_sha256 c))]"

definition manifest_json :: "release_manifest \<Rightarrow> json" where
  "manifest_json m = JObj (
     [(''schemaVersion'', JNum ''1''),
      (''release'', JObj [(''gitSha'', JStr (m_gitSha m)), (''builtAt'', JStr (m_builtAt m)),
         (''channel'', JStr (m_channel m)),
         (''minOrchestratorSchema'', JNum (show_nat (m_minOrchestratorSchema m)))]),
      (''services'', JArr (map service_json (m_services m))),
      (''configs'', JObj [(''file'', JStr (m_configs_file m)), (''sha256'', JStr (m_configs_sha256 m))])]
     @ (case m_clients m of None \<Rightarrow> [] | Some cs \<Rightarrow> [(''clients'', JArr (map client_json cs))]))"

fun healthcheck_ok :: "healthcheck \<Rightarrow> bool" where
  "healthcheck_ok (Http_check port path) \<longleftrightarrow> 1 \<le> port \<and> port \<le> 65535 \<and> starts_with ''/'' path"
| "healthcheck_ok No_check \<longleftrightarrow> True"

text \<open>What the schemas and the version gates promise of a manifest that parsed.\<close>

definition wf_manifest :: "(string \<Rightarrow> int option) \<Rightarrow> release_manifest \<Rightarrow> bool" where
  "wf_manifest date m \<longleftrightarrow> release_ok date m
     \<and> list_all (\<lambda>s. service_ok s \<and> healthcheck_ok (rs_healthcheck s)) (m_services m)
     \<and> (case m_clients m of None \<Rightarrow> True | Some cs \<Rightarrow> list_all client_ok cs \<and> distinct (map rc_platform cs))
     \<and> m_minOrchestratorSchema m = 1"

lemma pos_int_Some: "pos_int v = Some n \<longleftrightarrow> as_int v = Some (int n) \<and> 1 \<le> n"
  by (cases "as_int v") (auto simp: pos_int_def split: if_splits)

lemma pos_int_show_nat [simp]: "pos_int (JNum (show_nat n)) = (if 1 \<le> n then Some n else None)"
  by (auto simp: pos_int_def)

lemma those_map_Some:
  "those (map f xs) = Some ys \<longleftrightarrow> list_all2 (\<lambda>x y. f x = Some y) xs ys"
proof (induction xs arbitrary: ys)
  case (Cons x xs)
  then show ?case by (cases ys) (auto split: option.splits)
qed auto

lemma those_map_valid:
  assumes "those (map f xs) = Some ys" and "\<And>x y. f x = Some y \<Longrightarrow> P y"
  shows "list_all P ys"
proof -
  have "list_all2 (\<lambda>x y. f x = Some y) xs ys" using assms(1) by (simp add: those_map_Some)
  then show ?thesis by (induction rule: list_all2_induct) (auto dest: assms(2))
qed

lemma those_map_back: "list_all (\<lambda>y. f (g y) = Some y) ys \<Longrightarrow> those (map f (map g ys)) = Some ys"
  by (induction ys) auto

lemma healthcheckSchema_ok: "healthcheckSchema v = Some h \<Longrightarrow> healthcheck_ok h"
  by (auto simp: healthcheckSchema_def bind_eq_Some_conv pos_int_Some split: if_splits)

lemma serviceSchema_ok: "serviceSchema v = Some s \<Longrightarrow> service_ok s \<and> healthcheck_ok (rs_healthcheck s)"
  by (auto simp: serviceSchema_def bind_eq_Some_conv Let_def split: if_splits dest: healthcheckSchema_ok)

lemma clientSchema_ok: "clientSchema v = Some c \<Longrightarrow> client_ok c"
  by (auto simp: clientSchema_def bind_eq_Some_conv Let_def split: if_splits)

lemma clientsSchema_ok:
  "clientsSchema v = Some (Some cs) \<Longrightarrow> list_all client_ok cs \<and> distinct (map rc_platform cs)"
  by (auto simp: clientsSchema_def bind_eq_Some_conv split: option.splits if_splits
      intro: those_map_valid [of clientSchema] dest: clientSchema_ok)

lemma manifestSchema_ok:
  assumes "manifestSchema date kvs = Some m"
  shows "release_ok date m"
    and "list_all (\<lambda>s. service_ok s \<and> healthcheck_ok (rs_healthcheck s)) (m_services m)"
    and "case m_clients m of None \<Rightarrow> True | Some cs \<Rightarrow> list_all client_ok cs \<and> distinct (map rc_platform cs)"
    and "1 \<le> m_minOrchestratorSchema m"
  using assms
  by (auto simp: manifestSchema_def bind_eq_Some_conv Let_def pos_int_Some split: option.splits if_splits
      dest: clientsSchema_ok intro: those_map_valid [of serviceSchema] dest: serviceSchema_ok)

lemma healthcheck_roundtrip [simp]: "healthcheck_ok h \<Longrightarrow> healthcheckSchema (healthcheck_json h) = Some h"
  by (cases h) (auto simp: healthcheckSchema_def)

lemma service_roundtrip:
  "service_ok s \<Longrightarrow> healthcheck_ok (rs_healthcheck s) \<Longrightarrow> serviceSchema (service_json s) = Some s"
  by (cases s) (simp add: serviceSchema_def service_json_def Let_def)

lemma client_roundtrip: "client_ok c \<Longrightarrow> clientSchema (client_json c) = Some c"
  by (simp add: clientSchema_def client_json_def Let_def client_ok_def)

lemma num_int_one [simp]: "num_int ''1'' = Some 1"
  by code_simp

lemma clients_roundtrip:
  "list_all client_ok cs \<Longrightarrow> distinct (map rc_platform cs) \<Longrightarrow>
     clientsSchema (Some (JArr (map client_json cs))) = Some (Some cs)"
  using those_map_back [of clientSchema client_json cs]
  by (simp add: clientsSchema_def list_all_iff client_roundtrip)

lemma manifest_json_fields:
  assumes "manifest_json m = JObj kvs"
  shows "map_of kvs ''schemaVersion'' = Some (JNum ''1'')"
    and "map_of kvs ''release'' = Some (JObj [(''gitSha'', JStr (m_gitSha m)), (''builtAt'', JStr (m_builtAt m)),
         (''channel'', JStr (m_channel m)),
         (''minOrchestratorSchema'', JNum (show_nat (m_minOrchestratorSchema m)))])"
    and "map_of kvs ''services'' = Some (JArr (map service_json (m_services m)))"
    and "map_of kvs ''configs'' = Some (JObj [(''file'', JStr (m_configs_file m)), (''sha256'', JStr (m_configs_sha256 m))])"
    and "map_of kvs ''clients'' = map_option (\<lambda>cs. JArr (map client_json cs)) (m_clients m)"
    and "map_of kvs ''kind'' = None" and "map_of kvs ''usage'' = None" and "map_of kvs ''keyUsage'' = None"
  using assms by (auto simp: manifest_json_def split: option.splits)

lemma manifestSchema_roundtrip:
  assumes wf: "wf_manifest date m" and doc: "manifest_json m = JObj kvs"
  shows "manifestSchema date kvs = Some m"
proof -
  have svcs: "those (map serviceSchema (map service_json (m_services m))) = Some (m_services m)"
    using wf by (intro those_map_back) (auto simp: wf_manifest_def list_all_iff service_roundtrip)
  have cl: "clientsSchema (map_of kvs ''clients'') = Some (m_clients m)"
    using wf clients_roundtrip manifest_json_fields(5) [OF doc]
    by (cases "m_clients m") (auto simp: clientsSchema_def wf_manifest_def)
  show ?thesis
    using wf svcs cl manifest_json_fields [OF doc]
    by (cases m) (simp add: manifestSchema_def wf_manifest_def Let_def SUPPORTED_SCHEMA_VERSION_def del: map_map)
qed

lemma parsed_manifest_wf: "parseReleaseManifest date d = Return m \<Longrightarrow> wf_manifest date m"
  using manifestSchema_ok [of date _ m]
  by (auto simp: parseReleaseManifest_def wf_manifest_def SUPPORTED_ORCHESTRATOR_SCHEMA_def
      split: option.splits if_splits)

lemma wf_manifest_parses:
  assumes "wf_manifest date m"
  shows "parseReleaseManifest date (Some (manifest_json m)) = Return m"
proof -
  obtain kvs where doc: "manifest_json m = JObj kvs" by (simp add: manifest_json_def)
  show ?thesis
    using manifestSchema_roundtrip [OF assms doc] assms
    by (simp add: parseReleaseManifest_def doc nonReleaseKind_def manifest_json_fields [OF doc]
        EXTENSION_SIGNING_FIELDS_def SUPPORTED_SCHEMA_VERSION_def SUPPORTED_ORCHESTRATOR_SCHEMA_def wf_manifest_def)
qed

section \<open>Download addresses\<close>

text \<open>
  \<open>encodeURIComponent\<close> on code units up to \<open>255\<close>: the unreserved marks stay, anything else is
  the percent form of its UTF-8 bytes (two from \<open>128\<close> on).
\<close>

definition uri_unreserved :: "char \<Rightarrow> bool" where
  "uri_unreserved c \<longleftrightarrow> low_letter c \<or> cap_letter c \<or> is_digit c \<or> c \<in> set ''-_.!~*()'' \<or> c = CHR 0x27"

definition hex_upper :: "nat \<Rightarrow> char" where
  "hex_upper d = (if d < 10 then char_of (48 + d) else char_of (55 + d))"

definition percent :: "nat \<Rightarrow> string" where
  "percent b = [CHR 0x25, hex_upper (b div 16), hex_upper (b mod 16)]"

definition uri_char :: "char \<Rightarrow> string" where
  "uri_char c =
     (let n = (of_char c :: nat) in
      if uri_unreserved c then [c]
      else if n < 128 then percent n
      else percent (192 + n div 64) @ percent (128 + n mod 64))"

definition encodeURIComponent :: "string \<Rightarrow> string" where
  "encodeURIComponent s = concat (map uri_char s)"

definition trimBase :: "string \<Rightarrow> string" where
  "trimBase base = rev (dropWhile (\<lambda>c. c = CHR ''/'') (rev base))"

definition channelPointerUrl :: "string \<Rightarrow> string \<Rightarrow> string" where
  "channelPointerUrl base channel =
     trimBase base @ ''/ota-index/channel-'' @ encodeURIComponent channel @ ''.json''"

definition releaseAssetDownloadUrl :: "string \<Rightarrow> string \<Rightarrow> string \<Rightarrow> string" where
  "releaseAssetDownloadUrl base tag name =
     trimBase base @ ''/'' @ encodeURIComponent tag @ ''/'' @ encodeURIComponent name"

lemma hex_upper_inj: "a < 16 \<Longrightarrow> b < 16 \<Longrightarrow> hex_upper a = hex_upper b \<longleftrightarrow> a = b"
proof
  assume "a < 16" "b < 16" "hex_upper a = hex_upper b"
  then have "(of_char (hex_upper a) :: nat) = of_char (hex_upper b)" by simp
  with \<open>a < 16\<close> \<open>b < 16\<close> show "a = b" by (auto simp: hex_upper_def split: if_splits)
qed simp

lemma percent_split:
  assumes "b < 256" "b' < 256"
  shows "percent b @ r = percent b' @ r' \<longleftrightarrow> b = b' \<and> r = r'"
proof -
  have "b div 16 = b' div 16 \<and> b mod 16 = b' mod 16 \<longleftrightarrow> b = b'"
    by (metis div_mult_mod_eq)
  with assms show ?thesis
    by (auto simp: percent_def hex_upper_inj less_mult_imp_div_less)
qed

lemma percent_not_unreserved: "\<not> uri_unreserved (CHR 0x25)"
  by code_simp

lemma percent_append_Cons: "percent b @ r = c # r' \<Longrightarrow> c = CHR 0x25"
  by (auto simp: percent_def)

lemma uri_char_split:
  assumes "uri_char c @ r = uri_char c' @ r'"
  shows "c = c' \<and> r = r'"
proof -
  let ?n = "of_char c :: nat" and ?n' = "of_char c' :: nat"
  have lt: "?n < 256" "?n' < 256" by simp_all
  have parts: "?n div 64 = ?n' div 64 \<Longrightarrow> ?n mod 64 = ?n' mod 64 \<Longrightarrow> c = c'"
    by (metis div_mult_mod_eq of_char_eq_iff)
  have high: "192 + m div 64 < 256 \<and> 128 + m mod 64 < 256 \<and> 128 \<le> 192 + m div 64" if "m < 256" for m :: nat
    using that by auto
  show ?thesis
  proof (cases "uri_unreserved c \<or> uri_unreserved c'")
    case True
    with assms show ?thesis
      using percent_not_unreserved
      by (auto simp: uri_char_def Let_def split: if_splits dest: percent_append_Cons sym [THEN percent_append_Cons])
  next
    case False
    with assms lt high [OF lt(1)] high [OF lt(2)] show ?thesis
      by (auto simp: uri_char_def Let_def percent_split split: if_splits intro: parts)
  qed
qed

lemma uri_char_nonempty [simp]: "uri_char c \<noteq> []"
  by (simp add: uri_char_def Let_def percent_def)

lemma encodeURIComponent_inj: "encodeURIComponent s = encodeURIComponent t \<Longrightarrow> s = t"
proof (induction s arbitrary: t)
  case Nil
  then show ?case by (cases t) (auto simp: encodeURIComponent_def)
next
  case (Cons c s)
  then show ?case
    by (cases t) (auto simp: encodeURIComponent_def dest!: uri_char_split)
qed

lemma hex_upper_unreserved: "d < 16 \<Longrightarrow> uri_unreserved (hex_upper d)"
  by (auto simp: hex_upper_def uri_unreserved_def is_digit_def cap_letter_def)

lemma set_percent: "b < 256 \<Longrightarrow> x \<in> set (percent b) \<Longrightarrow> uri_unreserved x \<or> x = CHR 0x25"
  by (auto simp: percent_def hex_upper_unreserved less_mult_imp_div_less)

lemma encoded_chars: "x \<in> set (encodeURIComponent s) \<Longrightarrow> uri_unreserved x \<or> x = CHR 0x25"
proof (induction s)
  case (Cons c s)
  have "uri_unreserved x \<or> x = CHR 0x25" if "x \<in> set (uri_char c)"
    using that set_percent [of "of_char c" x] set_percent [of "192 + of_char c div 64" x]
      set_percent [of "128 + of_char c mod 64" x] less_mult_imp_div_less [of "of_char c" 4 64]
    by (auto simp: uri_char_def Let_def split: if_splits)
  with Cons show ?case by (auto simp: encodeURIComponent_def)
qed (simp add: encodeURIComponent_def)

lemma no_separator_encoded [simp]: "CHR ''/'' \<notin> set (encodeURIComponent s)"
  "CHR ''?'' \<notin> set (encodeURIComponent s)" "CHR ''#'' \<notin> set (encodeURIComponent s)"
proof -
  have "\<not> uri_unreserved (CHR ''/'')" "\<not> uri_unreserved (CHR ''?'')" "\<not> uri_unreserved (CHR ''#'')"
    by code_simp+
  then show "CHR ''/'' \<notin> set (encodeURIComponent s)"
  "CHR ''?'' \<notin> set (encodeURIComponent s)" "CHR ''#'' \<notin> set (encodeURIComponent s)"
    by (auto dest: encoded_chars)
qed

section \<open>Properties\<close>

text \<open>
  The snapshot re-validates: a manifest that came out of the parser is well formed (images
  pinned by their own digest, unique service names, a schema this build supports), and parsing
  the document stored for it gives the same manifest back, so the apply step never refuses at
  re-validation a row the poller created.
\<close>

theorem snapshot_revalidates:
  assumes "parseReleaseManifest date doc = Return m"
  shows "parseReleaseManifest date (Some (manifest_json m)) = Return m \<and> wf_manifest date m"
  using assms wf_manifest_parses parsed_manifest_wf by blast

definition sample_service :: "string \<Rightarrow> healthcheck \<Rightarrow> release_service" where
  "sample_service name hc =
     \<lparr>rs_name = name, rs_image = ''reg/'' @ name @ ''@sha256:'' @ replicate 64 (CHR ''a''),
      rs_digest = ''sha256:'' @ replicate 64 (CHR ''a''), rs_healthcheck = hc\<rparr>"

definition sample_manifest :: "string \<Rightarrow> release_manifest" where
  "sample_manifest built =
     \<lparr>m_gitSha = replicate 40 (CHR ''b''), m_builtAt = built, m_channel = ''stable'', m_minOrchestratorSchema = 1,
      m_services = [sample_service ''orchestrator'' (Http_check 3000 ''/health''), sample_service ''web'' No_check],
      m_configs_file = ''configs.tar.gz'', m_configs_sha256 = replicate 64 (CHR ''c''), m_clients = None\<rparr>"

lemma sample_manifest_wf: "wf_manifest (\<lambda>_. Some 5) (sample_manifest b)"
  unfolding wf_manifest_def release_ok_def sample_manifest_def
  by (simp add: sample_service_def service_ok_def release_manifest.simps) code_simp

theorem snapshot_revalidates_witness:
  "parseReleaseManifest (\<lambda>_. Some 5) (Some (manifest_json (sample_manifest ''t''))) = Return (sample_manifest ''t'')
     \<and> wf_manifest (\<lambda>_. Some 5) (sample_manifest ''t'')"
  using snapshot_revalidates [OF wf_manifest_parses [OF sample_manifest_wf [of "''t''"]]] .

text \<open>
  The two signed documents are kept apart by their shape: no document parses both as a release
  manifest and as a channel pointer, whatever the engine's date parser says; a pointer handed to
  the manifest parser is refused as \<open>schema_invalid\<close>.
\<close>

theorem signed_documents_disjoint:
  assumes "parseChannelPointer date doc = Return p"
  shows "parseReleaseManifest date' doc = Throw schema_invalid"
proof -
  obtain d kvs where d: "doc = Some d" "d = JObj kvs" and kind: "map_of kvs ''kind'' = Some (JStr CHANNEL_POINTER_KIND)"
    using assms by (auto simp: parseChannelPointer_def pointerSchema_def bind_eq_Some_conv split: if_splits)
  then show ?thesis
    by (simp add: parseReleaseManifest_def nonReleaseKind_def CHANNEL_POINTER_KIND_def)
qed

definition sample_pointer :: channel_pointer where
  "sample_pointer = \<lparr>cp_channel = ''stage'', cp_tag = ''ota-stage-12-g0123abc'', cp_gitSha = replicate 40 (CHR ''b''),
     cp_builtAt = ''t'', cp_manifestSha256 = replicate 64 (CHR ''c''), cp_publishedAt = ''u''\<rparr>"

definition pointer_json :: "channel_pointer \<Rightarrow> json" where
  "pointer_json p = JObj [(''schemaVersion'', JNum ''1''), (''kind'', JStr CHANNEL_POINTER_KIND),
     (''channel'', JStr (cp_channel p)), (''tag'', JStr (cp_tag p)), (''gitSha'', JStr (cp_gitSha p)),
     (''builtAt'', JStr (cp_builtAt p)), (''manifestSha256'', JStr (cp_manifestSha256 p)),
     (''publishedAt'', JStr (cp_publishedAt p))]"

lemma pointer_ok_parses: "pointer_ok date p \<Longrightarrow> parseChannelPointer date (Some (pointer_json p)) = Return p"
  by (cases p) (simp add: parseChannelPointer_def pointerSchema_def pointer_json_def POINTER_KEYS_def
      SUPPORTED_POINTER_SCHEMA_VERSION_def Let_def)

lemma sample_pointer_ok: "pointer_ok (\<lambda>_. Some 5) sample_pointer"
  by code_simp

theorem signed_documents_disjoint_witness:
  "parseReleaseManifest (\<lambda>_. Some 7) (Some (pointer_json sample_pointer)) = Throw schema_invalid"
  by (rule signed_documents_disjoint [OF pointer_ok_parses [OF sample_pointer_ok]])

text \<open>
  A download address names exactly one asset: two assets under one base with the same address
  have the same tag and the same name, and neither encoded segment can hold a path separator, a
  query or a fragment.
\<close>

theorem asset_url_exact:
  "(releaseAssetDownloadUrl base t n = releaseAssetDownloadUrl base t' n' \<longleftrightarrow> t = t' \<and> n = n')
     \<and> set (encodeURIComponent t) \<inter> {CHR ''/'', CHR ''?'', CHR ''#''} = {}"
proof -
  have "t = t' \<and> n = n'" if "releaseAssetDownloadUrl base t n = releaseAssetDownloadUrl base t' n'"
  proof -
    from that have "encodeURIComponent t @ CHR ''/'' # encodeURIComponent n =
        encodeURIComponent t' @ CHR ''/'' # encodeURIComponent n'"
      by (simp add: releaseAssetDownloadUrl_def)
    then have "encodeURIComponent t = encodeURIComponent t' \<and> encodeURIComponent n = encodeURIComponent n'"
      by (intro delimiter_split) auto
    then show ?thesis by (auto dest: encodeURIComponent_inj)
  qed
  then show ?thesis by auto
qed

end
