(* ===== verification/Ota_Rows.thy ===== *)
theory Ota_Rows
  imports Ota_Manifest
begin

text \<open>
  The \<open>DeviceUpdate\<close> table of the update agent and every write to it:
  \<open>services/update-agent/transitions.ts\<close> (the advance-only status machine), the apply claim of
  \<open>apply.ts\<close>, and the operator settings of \<open>settings.ts\<close>.  A table is the list of its rows in
  insertion order; the clock is an argument of each write.  A status write takes the row as the
  code read it before (\<open>seen\<close>), so that a write on a stale read is part of the model.
  \<open>cron.validate\<close> (the node-cron package) is a parameter.
\<close>

section \<open>Settings\<close>

record update_agent_settings =
  us_channel :: string
  us_applyWindowCron :: string
  us_autoApply :: bool

definition RELEASE_CHANNELS :: "string list" where
  "RELEASE_CHANNELS = [''stable'', ''stage'']"

definition isReleaseChannel :: "string \<Rightarrow> bool" where
  "isReleaseChannel v \<longleftrightarrow> v \<in> set RELEASE_CHANNELS"

definition DEFAULT_UPDATE_AGENT_SETTINGS :: update_agent_settings where
  "DEFAULT_UPDATE_AGENT_SETTINGS = \<lparr>us_channel = ''stable'', us_applyWindowCron = ''0 3 * * *'', us_autoApply = True\<rparr>"

definition sanitizeStored :: "(string \<Rightarrow> bool) \<Rightarrow> json option \<Rightarrow> update_agent_settings" where
  "sanitizeStored cron stored =
     (case stored of
        Some (JObj rec) \<Rightarrow>
          \<lparr>us_channel = (case map_of rec ''channel'' of
              Some (JStr c) \<Rightarrow> if js_trim c \<noteq> [] then c else us_channel DEFAULT_UPDATE_AGENT_SETTINGS
            | _ \<Rightarrow> us_channel DEFAULT_UPDATE_AGENT_SETTINGS),
           us_applyWindowCron = (case map_of rec ''applyWindowCron'' of
              Some (JStr c) \<Rightarrow> if cron c then c else us_applyWindowCron DEFAULT_UPDATE_AGENT_SETTINGS
            | _ \<Rightarrow> us_applyWindowCron DEFAULT_UPDATE_AGENT_SETTINGS),
           us_autoApply = (case map_of rec ''autoApply'' of
              Some (JBool b) \<Rightarrow> b | _ \<Rightarrow> us_autoApply DEFAULT_UPDATE_AGENT_SETTINGS)\<rparr>
      | _ \<Rightarrow> DEFAULT_UPDATE_AGENT_SETTINGS)"

text \<open>The stored flag row; \<open>None\<close> when there is none yet.\<close>

definition getUpdateAgentSettings :: "(string \<Rightarrow> bool) \<Rightarrow> json option \<Rightarrow> update_agent_settings" where
  "getUpdateAgentSettings cron flag = sanitizeStored cron flag"

datatype settings_error = channel_empty | channel_unknown | cron_invalid | autoApply_not_boolean

record settings_patch =
  sp_channel :: "json option"
  sp_applyWindowCron :: "json option"
  sp_autoApply :: "json option"

definition check_channel :: "json option \<Rightarrow> (settings_error, unit) result" where
  "check_channel v =
     (case v of None \<Rightarrow> Return ()
      | Some (JStr c) \<Rightarrow>
          if js_trim c = [] then Throw channel_empty
          else throw_if (\<not> isReleaseChannel c) channel_unknown
      | Some _ \<Rightarrow> Throw channel_empty)"

definition check_cron :: "(string \<Rightarrow> bool) \<Rightarrow> json option \<Rightarrow> (settings_error, unit) result" where
  "check_cron cron v =
     (case v of None \<Rightarrow> Return ()
      | Some (JStr c) \<Rightarrow> throw_if (\<not> cron c) cron_invalid
      | Some _ \<Rightarrow> Throw cron_invalid)"

definition check_autoApply :: "json option \<Rightarrow> (settings_error, unit) result" where
  "check_autoApply v =
     (case v of None \<Rightarrow> Return () | Some (JBool b) \<Rightarrow> Return () | Some _ \<Rightarrow> Throw autoApply_not_boolean)"

definition settings_json :: "update_agent_settings \<Rightarrow> json" where
  "settings_json s = JObj [(''channel'', JStr (us_channel s)),
     (''applyWindowCron'', JStr (us_applyWindowCron s)), (''autoApply'', JBool (us_autoApply s))]"

definition patched :: "settings_patch \<Rightarrow> update_agent_settings \<Rightarrow> update_agent_settings" where
  "patched patch current =
     \<lparr>us_channel = (case sp_channel patch of Some (JStr c) \<Rightarrow> c | _ \<Rightarrow> us_channel current),
      us_applyWindowCron = (case sp_applyWindowCron patch of Some (JStr c) \<Rightarrow> c | _ \<Rightarrow> us_applyWindowCron current),
      us_autoApply = (case sp_autoApply patch of Some (JBool b) \<Rightarrow> b | _ \<Rightarrow> us_autoApply current)\<rparr>"

text \<open>The new settings and the flag row as stored.\<close>

definition saveUpdateAgentSettings ::
  "(string \<Rightarrow> bool) \<Rightarrow> json option \<Rightarrow> settings_patch \<Rightarrow> (settings_error, update_agent_settings \<times> json option) result" where
  "saveUpdateAgentSettings cron flag patch =
     seq (check_channel (sp_channel patch))
     (seq (check_cron cron (sp_applyWindowCron patch))
     (seq (check_autoApply (sp_autoApply patch))
       (let current = getUpdateAgentSettings cron flag; new = patched patch current
        in Return (new, Some (settings_json new)))))"

section \<open>Rows\<close>

datatype device_status =
    Pending | Superseded | Verifying | Applying | Committed | Rolled_back | Failed | Rejected

datatype device_outcome =
    Not_applied | Starting_services | Outcome_committed | Services_start_failed
  | Outcome_rolled_back | Rollback_failed

record device_update =
  du_id :: string
  du_status :: device_status
  du_channel :: string
  du_releaseTag :: "string option"
  du_gitSha :: string
  du_builtAt :: int
  du_manifestSha256 :: string
  du_manifestJson :: json
  du_failureReason :: "string option"
  du_outcome :: device_outcome
  du_claimed :: bool
  du_claimId :: "string option"
  du_claimedAt :: "int option"
  du_createdAt :: int
  du_updatedAt :: int

type_synonym table = "device_update list"

text \<open>
  Prisma's \<open>updateMany\<close>: the number of rows hit, and the table with them rewritten and their
  \<^verbatim>\<open>@updatedAt\<close> column set.
\<close>

definition updateMany :: "(device_update \<Rightarrow> bool) \<Rightarrow> (device_update \<Rightarrow> device_update) \<Rightarrow> int \<Rightarrow> table \<Rightarrow> nat \<times> table" where
  "updateMany p f now t =
     (length (filter p t), map (\<lambda>r. if p r then (f r)\<lparr>du_updatedAt := now\<rparr> else r) t)"

text \<open>\<^verbatim>\<open>findFirst\<close> ordered by a date column, newest first.\<close>

fun newest :: "('a \<Rightarrow> int) \<Rightarrow> 'a list \<Rightarrow> 'a option" where
  "newest key [] = None"
| "newest key (x # xs) =
     (case newest key xs of None \<Rightarrow> Some x | Some y \<Rightarrow> if key y < key x then Some x else Some y)"

definition findNewest :: "(device_update \<Rightarrow> int) \<Rightarrow> (device_update \<Rightarrow> bool) \<Rightarrow> table \<Rightarrow> device_update option" where
  "findNewest key p t = newest key (filter p t)"

section \<open>Status transitions\<close>

fun ALLOWED_TRANSITIONS :: "device_status \<Rightarrow> device_status list" where
  "ALLOWED_TRANSITIONS Pending = [Superseded, Verifying]"
| "ALLOWED_TRANSITIONS Verifying = [Applying, Rejected, Superseded]"
| "ALLOWED_TRANSITIONS Applying = [Committed, Rolled_back, Failed]"
| "ALLOWED_TRANSITIONS Superseded = []"
| "ALLOWED_TRANSITIONS Committed = []"
| "ALLOWED_TRANSITIONS Rolled_back = []"
| "ALLOWED_TRANSITIONS Failed = []"
| "ALLOWED_TRANSITIONS Rejected = []"

datatype transition_error = no_such_row | not_an_advance | changed_concurrently

definition assertTransitionAllowed :: "device_status \<Rightarrow> device_status \<Rightarrow> (transition_error, unit) result" where
  "assertTransitionAllowed from to = throw_if (to \<notin> set (ALLOWED_TRANSITIONS from)) not_an_advance"

definition status_change ::
  "device_status \<Rightarrow> string option \<Rightarrow> device_outcome option \<Rightarrow> device_update \<Rightarrow> device_update" where
  "status_change to reason outcome r =
     r\<lparr>du_status := to, du_failureReason := reason,
       du_outcome := (case outcome of None \<Rightarrow> du_outcome r | Some v \<Rightarrow> v)\<rparr>"

definition transitionDeviceUpdate ::
  "device_update option \<Rightarrow> string \<Rightarrow> device_status \<Rightarrow> string option \<Rightarrow> device_outcome option \<Rightarrow> int \<Rightarrow> table
     \<Rightarrow> (transition_error, unit) result \<times> table" where
  "transitionDeviceUpdate seen i to reason outcome now t =
     (case seen of
        None \<Rightarrow> (Throw no_such_row, t)
      | Some row \<Rightarrow>
          (case assertTransitionAllowed (du_status row) to of
             Inl e \<Rightarrow> (Throw e, t)
           | Inr _ \<Rightarrow>
               let (n, t') = updateMany (\<lambda>r. du_id r = i \<and> du_status r = du_status row)
                     (status_change to reason outcome) now t
               in if n \<noteq> 1 then (Throw changed_concurrently, t') else (Return (), t')))"

definition findRow :: "string \<Rightarrow> table \<Rightarrow> device_update option" where
  "findRow i t = find (\<lambda>r. du_id r = i) t"

definition recordCommittedOutcome :: "string \<Rightarrow> device_outcome \<Rightarrow> int \<Rightarrow> table \<Rightarrow> bool \<times> table" where
  "recordCommittedOutcome i outcome now t =
     (let (n, t') = updateMany (\<lambda>r. du_id r = i \<and> du_status r = Committed) (\<lambda>r. r\<lparr>du_outcome := outcome\<rparr>) now t
      in (n = 1, t'))"

definition supersedePendingUpdates :: "int \<Rightarrow> table \<Rightarrow> nat \<times> table" where
  "supersedePendingUpdates now t = updateMany (\<lambda>r. du_status r = Pending) (\<lambda>r. r\<lparr>du_status := Superseded\<rparr>) now t"

definition supersedeUnclaimedVerifyingUpdates :: "int \<Rightarrow> table \<Rightarrow> nat \<times> table" where
  "supersedeUnclaimedVerifyingUpdates now t =
     updateMany (\<lambda>r. du_status r = Verifying \<and> \<not> du_claimed r) (\<lambda>r. r\<lparr>du_status := Superseded\<rparr>) now t"

definition installedRelease :: "table \<Rightarrow> device_update option" where
  "installedRelease t = findNewest du_updatedAt (\<lambda>r. du_status r = Committed) t"

section \<open>The apply claim\<close>

definition claimable :: "device_update \<Rightarrow> bool" where
  "claimable r \<longleftrightarrow> du_status r \<in> {Pending, Verifying} \<and> \<not> du_claimed r"

definition claimDeviceUpdateForApply :: "string \<Rightarrow> string \<Rightarrow> int \<Rightarrow> table \<Rightarrow> bool \<times> table" where
  "claimDeviceUpdateForApply i claimId now t =
     (let (n, t') = updateMany (\<lambda>r. du_id r = i \<and> claimable r)
            (\<lambda>r. r\<lparr>du_claimed := True, du_claimId := Some claimId, du_claimedAt := Some now\<rparr>) now t
      in (n = 1, t'))"

definition clear_apply_claim :: "device_update \<Rightarrow> device_update" where
  "clear_apply_claim r = r\<lparr>du_claimed := False, du_claimId := None, du_claimedAt := None\<rparr>"

definition releaseDeviceUpdateClaim :: "string \<Rightarrow> string \<Rightarrow> int \<Rightarrow> table \<Rightarrow> table" where
  "releaseDeviceUpdateClaim i claimId now t =
     snd (updateMany (\<lambda>r. du_id r = i \<and> du_claimed r \<and> du_claimId r = Some claimId) clear_apply_claim now t)"

text \<open>The boot sweep of \<open>resumeInterruptedApply\<close>.\<close>

definition clearStaleClaims :: "int \<Rightarrow> table \<Rightarrow> table" where
  "clearStaleClaims now t = snd (updateMany du_claimed clear_apply_claim now t)"

section \<open>What every write keeps\<close>

text \<open>
  The audit contract of the table: rows are never removed or reordered, a row keeps the release it
  tracks, and its status only moves along the allowed transitions.
\<close>

definition same_release :: "device_update \<Rightarrow> device_update \<Rightarrow> bool" where
  "same_release r r' \<longleftrightarrow> du_id r = du_id r' \<and> du_channel r = du_channel r' \<and> du_releaseTag r = du_releaseTag r'
     \<and> du_gitSha r = du_gitSha r' \<and> du_builtAt r = du_builtAt r' \<and> du_manifestSha256 r = du_manifestSha256 r'
     \<and> du_manifestJson r = du_manifestJson r' \<and> du_createdAt r = du_createdAt r'"

definition advance_step :: "device_status \<Rightarrow> device_status \<Rightarrow> bool" where
  "advance_step from to \<longleftrightarrow> to \<in> set (ALLOWED_TRANSITIONS from)"

definition advances :: "device_update \<Rightarrow> device_update \<Rightarrow> bool" where
  "advances r r' \<longleftrightarrow> same_release r r' \<and> advance_step\<^sup>*\<^sup>* (du_status r) (du_status r')"

definition evolves :: "table \<Rightarrow> table \<Rightarrow> bool" where
  "evolves t t' \<longleftrightarrow> (\<exists>old new. t' = old @ new \<and> list_all2 advances t old)"

definition terminal :: "device_status \<Rightarrow> bool" where
  "terminal s \<longleftrightarrow> ALLOWED_TRANSITIONS s = []"

lemma advances_refl [simp]: "advances r r"
  by (simp add: advances_def same_release_def)

lemma advances_trans: "advances a b \<Longrightarrow> advances b c \<Longrightarrow> advances a c"
  by (auto simp: advances_def same_release_def)

lemma advances_stepI: "same_release r r' \<Longrightarrow> du_status r' = du_status r \<or> advance_step (du_status r) (du_status r') \<Longrightarrow> advances r r'"
  by (auto simp: advances_def)

lemma evolvesI: "t' = old @ new \<Longrightarrow> list_all2 advances t old \<Longrightarrow> evolves t t'"
  by (auto simp: evolves_def)

lemma evolves_refl [simp]: "evolves t t"
  by (rule evolvesI [of _ t "[]"]) (simp_all add: list_all2_refl)

lemma evolves_append [simp]: "evolves t (t @ new)"
  by (rule evolvesI [of _ t new]) (simp_all add: list_all2_refl)

lemma evolves_trans: "evolves a b \<Longrightarrow> evolves b c \<Longrightarrow> evolves a c"
proof -
  assume "evolves a b" "evolves b c"
  then obtain o1 n1 o2 n2 where b: "b = o1 @ n1" and ab: "list_all2 advances a o1"
    and c: "c = o2 @ n2" and bc: "list_all2 advances b o2"
    by (auto simp: evolves_def)
  from bc b obtain o3 n3 where o2: "o2 = o3 @ n3" and "list_all2 advances o1 o3"
    by (auto simp: list_all2_append1)
  with ab have "list_all2 advances a o3"
    by (auto intro: list_all2_trans [of advances advances advances] advances_trans)
  with c o2 show ?thesis by (intro evolvesI [of _ o3 "n3 @ n2"]) simp_all
qed

lemma terminal_reaches: "advance_step\<^sup>*\<^sup>* s s' \<Longrightarrow> terminal s \<Longrightarrow> s' = s"
  by (erule converse_rtranclpE) (auto simp: advance_step_def terminal_def)

lemma snd_updateMany [simp]:
  "snd (updateMany p f now t) = map (\<lambda>r. if p r then (f r)\<lparr>du_updatedAt := now\<rparr> else r) t"
  by (simp add: updateMany_def)

lemma fst_updateMany: "fst (updateMany p f now t) = length (filter p t)"
  by (simp add: updateMany_def)

lemma evolves_updateMany:
  assumes "\<And>r. p r \<Longrightarrow> advances r (f r)"
  shows "evolves t (snd (updateMany p f now t))"
proof -
  have "advances r (if p r then (f r)\<lparr>du_updatedAt := now\<rparr> else r)" for r
    using assms [of r] by (auto simp: advances_def same_release_def)
  then have "list_all2 advances t (snd (updateMany p f now t))"
    by (simp add: list_all2_map2 list_all2_refl)
  then show ?thesis by (intro evolvesI [of _ _ "[]"]) simp_all
qed

text \<open>The interface the histories rely on: an operation on the table that keeps the contract.\<close>

locale table_write =
  fixes run :: "table \<Rightarrow> table"
  assumes evolves_run: "evolves t (run t)"
begin

lemma row_stays: "r \<in> set t \<Longrightarrow> \<exists>r'\<in>set (run t). advances r r'"
proof -
  obtain old new where "run t = old @ new" and *: "list_all2 advances t old"
    using evolves_run [of t] by (auto simp: evolves_def)
  moreover assume "r \<in> set t"
  with * obtain r' where "r' \<in> set old" "advances r r'"
    by (metis in_set_conv_nth list_all2_conv_all_nth)
  ultimately show ?thesis by auto
qed

lemma terminal_stays: "r \<in> set t \<Longrightarrow> terminal (du_status r) \<Longrightarrow> \<exists>r'\<in>set (run t). same_release r r' \<and> du_status r' = du_status r"
  using row_stays [of r t] terminal_reaches by (force simp: advances_def)

lemma never_shrinks: "length t \<le> length (run t)"
  using evolves_run [of t] by (auto simp: evolves_def dest: list_all2_lengthD)

end

lemma advances_status_change: "to \<in> set (ALLOWED_TRANSITIONS (du_status r)) \<Longrightarrow> advances r (status_change to reason oc r)"
  by (rule advances_stepI) (auto simp: status_change_def same_release_def advance_step_def)

lemma advances_superseded: "du_status r \<in> {Pending, Verifying} \<Longrightarrow> advances r (r\<lparr>du_status := Superseded\<rparr>)"
  by (rule advances_stepI) (auto simp: same_release_def advance_step_def)

lemma advances_same_status: "same_release r r' \<Longrightarrow> du_status r' = du_status r \<Longrightarrow> advances r r'"
  by (rule advances_stepI) auto

interpretation tw_transition: table_write "\<lambda>t. snd (transitionDeviceUpdate seen i to reason oc now t)"
proof
  fix t
  show "evolves t (snd (transitionDeviceUpdate seen i to reason oc now t))"
  proof (cases seen)
    case (Some row)
    show ?thesis
    proof (cases "to \<in> set (ALLOWED_TRANSITIONS (du_status row))")
      case True
      then have "evolves t (snd (updateMany (\<lambda>r. du_id r = i \<and> du_status r = du_status row)
          (status_change to reason oc) now t))"
        by (intro evolves_updateMany advances_status_change) auto
      with True Some show ?thesis
        by (simp add: transitionDeviceUpdate_def assertTransitionAllowed_def throw_if_def Let_def
            case_prod_unfold)
    qed (simp add: transitionDeviceUpdate_def assertTransitionAllowed_def throw_if_def Some)
  qed (simp add: transitionDeviceUpdate_def)
qed

interpretation tw_outcome: table_write "\<lambda>t. snd (recordCommittedOutcome i oc now t)"
  by unfold_locales
    (simp add: recordCommittedOutcome_def case_prod_unfold Let_def del: snd_updateMany,
     auto intro!: evolves_updateMany advances_same_status simp: same_release_def simp del: snd_updateMany)

interpretation tw_pending: table_write "\<lambda>t. snd (supersedePendingUpdates now t)"
  by unfold_locales (auto simp: supersedePendingUpdates_def intro!: evolves_updateMany advances_superseded simp del: snd_updateMany)

interpretation tw_parked: table_write "\<lambda>t. snd (supersedeUnclaimedVerifyingUpdates now t)"
  by unfold_locales (auto simp: supersedeUnclaimedVerifyingUpdates_def intro!: evolves_updateMany advances_superseded simp del: snd_updateMany)

interpretation tw_claim: table_write "\<lambda>t. snd (claimDeviceUpdateForApply i claimId now t)"
  by unfold_locales
    (simp add: claimDeviceUpdateForApply_def case_prod_unfold Let_def del: snd_updateMany,
     auto intro!: evolves_updateMany advances_same_status simp: same_release_def simp del: snd_updateMany)

interpretation tw_release: table_write "\<lambda>t. releaseDeviceUpdateClaim i claimId now t"
  by unfold_locales (auto simp: releaseDeviceUpdateClaim_def same_release_def clear_apply_claim_def
      intro!: evolves_updateMany advances_same_status simp del: snd_updateMany)

interpretation tw_stale: table_write "\<lambda>t. clearStaleClaims now t"
  by unfold_locales (auto simp: clearStaleClaims_def same_release_def clear_apply_claim_def
      intro!: evolves_updateMany advances_same_status simp del: snd_updateMany)

lemmas table_writes = tw_transition.evolves_run tw_outcome.evolves_run tw_pending.evolves_run
  tw_parked.evolves_run tw_claim.evolves_run tw_release.evolves_run tw_stale.evolves_run


section \<open>Settings read back\<close>

definition settings_ok :: "(string \<Rightarrow> bool) \<Rightarrow> update_agent_settings \<Rightarrow> bool" where
  "settings_ok cron s \<longleftrightarrow> js_trim (us_channel s) \<noteq> [] \<and> cron (us_applyWindowCron s)"

lemma default_channel_nonblank: "js_trim ''stable'' \<noteq> []" "js_trim ''stage'' \<noteq> []"
  by code_simp+

lemma getUpdateAgentSettings_ok:
  assumes "cron (us_applyWindowCron DEFAULT_UPDATE_AGENT_SETTINGS)"
  shows "settings_ok cron (getUpdateAgentSettings cron flag)"
proof -
  have d: "settings_ok cron DEFAULT_UPDATE_AGENT_SETTINGS"
    using assms default_channel_nonblank by (simp add: settings_ok_def DEFAULT_UPDATE_AGENT_SETTINGS_def)
  show ?thesis
  proof (cases "\<exists>rec. flag = Some (JObj rec)")
    case True
    with d show ?thesis
      by (auto simp: getUpdateAgentSettings_def sanitizeStored_def settings_ok_def split: option.splits json.splits)
  next
    case False
    then have "getUpdateAgentSettings cron flag = DEFAULT_UPDATE_AGENT_SETTINGS"
      by (auto simp: getUpdateAgentSettings_def sanitizeStored_def split: option.splits json.splits)
    with d show ?thesis by simp
  qed
qed

lemma settings_json_read: "settings_ok cron s \<Longrightarrow> getUpdateAgentSettings cron (Some (settings_json s)) = s"
  by (simp add: getUpdateAgentSettings_def sanitizeStored_def settings_json_def settings_ok_def)

lemma saveUpdateAgentSettings_Return:
  assumes "saveUpdateAgentSettings cron flag patch = Return (new, flag')"
  shows "new = patched patch (getUpdateAgentSettings cron flag)" "flag' = Some (settings_json new)"
    "\<forall>v. sp_channel patch = Some v \<longrightarrow> (\<exists>c. v = JStr c \<and> isReleaseChannel c)"
    "\<forall>v. sp_applyWindowCron patch = Some v \<longrightarrow> (\<exists>c. v = JStr c \<and> cron c)"
  using assms
  by (auto simp: saveUpdateAgentSettings_def seq_eq_Return Let_def check_channel_def check_cron_def throw_if_def
      split: option.splits json.splits if_splits)

text \<open>
  Settings read back: what a save answers is what every later read returns, over any flag row however
  damaged; the window is a valid cron expression, and the channel is a known one unless this save left it
  alone (the default window being valid for the cron library).
\<close>

theorem settings_round_trip:
  assumes "saveUpdateAgentSettings cron flag patch = Return (new, flag')"
    and "cron (us_applyWindowCron DEFAULT_UPDATE_AGENT_SETTINGS)"
  shows "getUpdateAgentSettings cron flag' = new \<and> cron (us_applyWindowCron new)
    \<and> (isReleaseChannel (us_channel new) \<or> us_channel new = us_channel (getUpdateAgentSettings cron flag))"
proof -
  let ?cur = "getUpdateAgentSettings cron flag"
  note sv = saveUpdateAgentSettings_Return [OF assms(1)] and cur = getUpdateAgentSettings_ok [of cron flag, OF assms(2)]
  have ch: "isReleaseChannel (us_channel new) \<or> us_channel new = us_channel ?cur"
    using sv(1,3) by (auto simp: patched_def split: option.splits)
  have cr: "cron (us_applyWindowCron new)"
    using sv(1,4) cur by (auto simp: patched_def settings_ok_def split: option.splits)
  have "js_trim (us_channel new) \<noteq> []"
    using ch cur default_channel_nonblank by (auto simp: isReleaseChannel_def RELEASE_CHANNELS_def settings_ok_def)
  with ch cr sv(2) settings_json_read [of cron new] show ?thesis by (simp add: settings_ok_def)
qed

theorem settings_round_trip_witness:
  "getUpdateAgentSettings (\<lambda>c. c = ''0 3 * * *'') (Some (settings_json \<lparr>us_channel = ''stage'', us_applyWindowCron = ''0 3 * * *'', us_autoApply = True\<rparr>))
     = \<lparr>us_channel = ''stage'', us_applyWindowCron = ''0 3 * * *'', us_autoApply = True\<rparr>"
proof -
  have "saveUpdateAgentSettings (\<lambda>c. c = ''0 3 * * *'') (Some (JObj [(''channel'', JNull)]))
      \<lparr>sp_channel = Some (JStr ''stage''), sp_applyWindowCron = None, sp_autoApply = None\<rparr>
    = Return (\<lparr>us_channel = ''stage'', us_applyWindowCron = ''0 3 * * *'', us_autoApply = True\<rparr>,
        Some (settings_json \<lparr>us_channel = ''stage'', us_applyWindowCron = ''0 3 * * *'', us_autoApply = True\<rparr>))"
    by code_simp
  from settings_round_trip [OF this] show ?thesis by (simp add: DEFAULT_UPDATE_AGENT_SETTINGS_def)
qed

end
