(* ===== verification/Ota_Poller.thy ===== *)
theory Ota_Poller
  imports Ota_Rows
begin

text \<open>
  Discovery, the trust chain and the recording of a release: \<open>services/update-agent/verify.ts\<close>
  and \<open>poller.ts\<close>.  What lies outside is the record \<open>poll_env\<close>: the answers of the download
  host and of the GitHub releases API, the baked-in trust anchor file, the \<open>cosign\<close> binary,
  SHA-256, \<open>JSON.parse\<close> on downloaded bytes and \<open>Date.parse\<close>.  Headers, log lines and the wording
  of failures are left out; the observers of a finished check only watch.
\<close>

section \<open>Outside\<close>

type_synonym bytes = string

datatype http_answer = Http nat bytes | Unreachable

datatype 'a api_answer = Api nat 'a | Api_unreachable

datatype cosign_answer = Cosign_ok | Cosign_not_executable | Cosign_refused

record api_release =
  tag_name :: "string option"
  assets :: "(string \<times> string) list option"

record poll_env =
  pe_downloadBase :: string
  pe_fetch :: "string \<Rightarrow> http_answer"
  pe_latest :: "api_release api_answer"
  pe_listUrl :: "string option"
  pe_list :: "string \<Rightarrow> api_release list option api_answer"
  pe_anchor :: "string option"
  pe_cosign :: "string \<Rightarrow> bytes \<Rightarrow> bytes \<Rightarrow> cosign_answer"
  pe_sha256 :: "bytes \<Rightarrow> string"
  pe_json :: "bytes \<Rightarrow> json option"
  pe_date :: "string \<Rightarrow> int option"

definition res_ok :: "nat \<Rightarrow> bool" where
  "res_ok status \<longleftrightarrow> 200 \<le> status \<and> status < 300"

section \<open>The trust chain\<close>

fun js_includes :: "string \<Rightarrow> string \<Rightarrow> bool" where
  "js_includes p [] = (p = [])"
| "js_includes p (c # s) = (starts_with p (c # s) \<or> js_includes p s)"

definition TRUST_ANCHOR_PLACEHOLDER_MARKER :: string where
  "TRUST_ANCHOR_PLACEHOLDER_MARKER = ''DROPLET-OTA-PLACEHOLDER''"

definition checkTrustAnchor :: "string option \<Rightarrow> (update_failure_reason, string) result" where
  "checkTrustAnchor anchor =
     (case anchor of
        None \<Rightarrow> Throw trust_anchor_placeholder
      | Some content \<Rightarrow>
          if js_includes TRUST_ANCHOR_PLACEHOLDER_MARKER content then Throw trust_anchor_placeholder
          else if \<not> js_includes ''-----BEGIN PUBLIC KEY-----'' content then Throw trust_anchor_placeholder
          else Return content)"

definition verifyReleaseSignature :: "poll_env \<Rightarrow> bytes \<Rightarrow> bytes \<Rightarrow> (update_failure_reason, unit) result" where
  "verifyReleaseSignature env signature blob =
     andThen (checkTrustAnchor (pe_anchor env))
       (\<lambda>key. case pe_cosign env key signature blob of
           Cosign_ok \<Rightarrow> Return ()
         | Cosign_not_executable \<Rightarrow> Throw cosign_unavailable
         | Cosign_refused \<Rightarrow> Throw signature_failed)"

text \<open>The file is read once (\<open>None\<close> when that fails); the bytes handed back are the bytes verified.\<close>

definition verifySignedBytes :: "poll_env \<Rightarrow> bytes option \<Rightarrow> bytes \<Rightarrow> (update_failure_reason, bytes) result" where
  "verifySignedBytes env file signature =
     andThen (some_or malformed_manifest file)
       (\<lambda>raw. seq (verifyReleaseSignature env signature raw) (Return raw))"

definition verifyAndParseRelease ::
  "poll_env \<Rightarrow> bytes option \<Rightarrow> bytes \<Rightarrow> (update_failure_reason, release_manifest) result" where
  "verifyAndParseRelease env file signature =
     andThen (verifySignedBytes env file signature) (\<lambda>raw. parseReleaseManifest (pe_date env) (pe_json env raw))"

section \<open>Discovery\<close>

datatype check_result =
    No_release
  | Fetch_failed
  | Verify_failed update_failure_reason
  | Channel_mismatch string string
  | Already_known string
  | Not_newer string int int
  | Pending_created string string nat

datatype download_error = Download_status nat | Download_failed

record discovered =
  ds_tag :: "string option"
  ds_manifestBytes :: bytes
  ds_sigBytes :: bytes
  ds_pointer :: "channel_pointer option"

type_synonym discovery = "(check_result, discovered) result"

definition downloadAsset :: "poll_env \<Rightarrow> string \<Rightarrow> (download_error, bytes) result" where
  "downloadAsset env url =
     (case pe_fetch env url of
        Http status body \<Rightarrow> if res_ok status then Return body else Throw (Download_status status)
      | Unreachable \<Rightarrow> Throw Download_failed)"

definition downloadPair :: "poll_env \<Rightarrow> string option \<Rightarrow> channel_pointer option \<Rightarrow> string \<Rightarrow> string \<Rightarrow> discovery" where
  "downloadPair env tag pointer manifestUrl sigUrl =
     (case downloadAsset env manifestUrl of
        Inl _ \<Rightarrow> Throw Fetch_failed
      | Inr m \<Rightarrow>
          (case downloadAsset env sigUrl of
             Inl _ \<Rightarrow> Throw Fetch_failed
           | Inr s \<Rightarrow> Return \<lparr>ds_tag = tag, ds_manifestBytes = m, ds_sigBytes = s, ds_pointer = pointer\<rparr>))"

text \<open>The verified pointer for a channel, from the two files downloaded for it.\<close>

definition readPointer :: "poll_env \<Rightarrow> string \<Rightarrow> bytes \<Rightarrow> bytes \<Rightarrow> (check_result, channel_pointer) result" where
  "readPointer env channel pointerBytes pointerSig =
     (case andThen (verifySignedBytes env (Some pointerBytes) pointerSig)
             (\<lambda>raw. parseChannelPointer (pe_date env) (pe_json env raw)) of
        Inl reason \<Rightarrow> Throw (Verify_failed reason)
      | Inr p \<Rightarrow> if cp_channel p \<noteq> channel then Throw (Channel_mismatch (cp_channel p) channel) else Return p)"

text \<open>\<open>None\<close> only for a 404 on the pointer: the caller then asks the API.\<close>

definition discoverViaChannelPointer :: "poll_env \<Rightarrow> string \<Rightarrow> discovery option" where
  "discoverViaChannelPointer env channel =
     (let url = channelPointerUrl (pe_downloadBase env) channel
      in case downloadAsset env url of
           Inl e \<Rightarrow> (if e = Download_status 404 then None else Some (Throw Fetch_failed))
         | Inr pointerBytes \<Rightarrow>
             Some (case downloadAsset env (url @ ''.sig'') of
                 Inl _ \<Rightarrow> Throw Fetch_failed
               | Inr pointerSig \<Rightarrow>
                   andThen (readPointer env channel pointerBytes pointerSig)
                     (\<lambda>p. downloadPair env (Some (cp_tag p)) (Some p)
                        (releaseAssetDownloadUrl (pe_downloadBase env) (cp_tag p) ''release.json'')
                        (releaseAssetDownloadUrl (pe_downloadBase env) (cp_tag p) ''release.json.sig''))))"

definition channelTagPrefix :: "string \<Rightarrow> string" where
  "channelTagPrefix channel = ''ota-'' @ channel @ ''-''"

definition apiRelease :: "poll_env \<Rightarrow> string \<Rightarrow> (check_result, api_release) result" where
  "apiRelease env channel =
     (if channel = ''stable'' then
        (case pe_latest env of
           Api_unreachable \<Rightarrow> Throw Fetch_failed
         | Api status r \<Rightarrow>
             if status = 404 then Throw No_release
             else if \<not> res_ok status then Throw Fetch_failed else Return r)
      else
        (case pe_listUrl env of
           None \<Rightarrow> Throw Fetch_failed
         | Some url \<Rightarrow>
             (case pe_list env url of
                Api_unreachable \<Rightarrow> Throw Fetch_failed
              | Api status body \<Rightarrow>
                  if \<not> res_ok status then Throw Fetch_failed
                  else (case body of
                      None \<Rightarrow> Throw Fetch_failed
                    | Some listed \<Rightarrow>
                        some_or No_release (find (\<lambda>r. starts_with (channelTagPrefix channel)
                           (case tag_name r of None \<Rightarrow> [] | Some t \<Rightarrow> t)) listed)))))"

definition discoverViaReleasesApi :: "poll_env \<Rightarrow> string \<Rightarrow> discovery" where
  "discoverViaReleasesApi env channel =
     andThen (apiRelease env channel)
       (\<lambda>r. let as = (case assets r of None \<Rightarrow> [] | Some xs \<Rightarrow> xs)
            in case (map_of as ''release.json'', map_of as ''release.json.sig'') of
                 (Some m, Some s) \<Rightarrow> downloadPair env (tag_name r) None m s
               | _ \<Rightarrow> Throw Fetch_failed)"

definition discoverRelease :: "poll_env \<Rightarrow> string \<Rightarrow> discovery" where
  "discoverRelease env channel =
     (case discoverViaChannelPointer env channel of
        Some d \<Rightarrow> d
      | None \<Rightarrow> discoverViaReleasesApi env channel)"

definition pointerDisagrees :: "poll_env \<Rightarrow> channel_pointer \<Rightarrow> release_manifest \<Rightarrow> string \<Rightarrow> bool" where
  "pointerDisagrees env p m manifestSha256 \<longleftrightarrow>
     manifestSha256 \<noteq> cp_manifestSha256 p \<or> m_gitSha m \<noteq> cp_gitSha p
     \<or> pe_date env (m_builtAt m) \<noteq> pe_date env (cp_builtAt p)"

section \<open>One poll tick\<close>

record new_release =
  nr_manifest :: release_manifest
  nr_tag :: "string option"
  nr_sha256 :: string
  nr_builtAt :: int

text \<open>Steps 2 and 3; the schema has checked that \<open>builtAt\<close> is a date.\<close>

definition verifyDiscovered :: "poll_env \<Rightarrow> discovered \<Rightarrow> (check_result, new_release) result" where
  "verifyDiscovered env d =
     (case verifyAndParseRelease env (Some (ds_manifestBytes d)) (ds_sigBytes d) of
        Inl reason \<Rightarrow> Throw (Verify_failed reason)
      | Inr m \<Rightarrow>
          let sha = pe_sha256 env (ds_manifestBytes d)
          in if (case ds_pointer d of None \<Rightarrow> False | Some p \<Rightarrow> pointerDisagrees env p m sha)
             then Throw (Verify_failed pointer_mismatch)
             else Return \<lparr>nr_manifest = m, nr_tag = ds_tag d, nr_sha256 = sha,
                          nr_builtAt = (case pe_date env (m_builtAt m) of Some b \<Rightarrow> b | None \<Rightarrow> 0)\<rparr>)"

text \<open>Steps 4, 5 and 5b: the gates on the device's channel and on the table as read.\<close>

definition releaseGates :: "string \<Rightarrow> table \<Rightarrow> new_release \<Rightarrow> (check_result, new_release) result" where
  "releaseGates channel t nr =
     (let m = nr_manifest nr
      in if m_channel m \<noteq> channel then Throw (Channel_mismatch (m_channel m) channel)
         else if list_ex (\<lambda>r. du_gitSha r = m_gitSha m) t then Throw (Already_known (m_gitSha m))
         else case installedRelease t of
             Some inst \<Rightarrow>
               if nr_builtAt nr \<le> du_builtAt inst
               then Throw (Not_newer (m_gitSha m) (nr_builtAt nr) (du_builtAt inst)) else Return nr
           | None \<Rightarrow> Return nr)"

definition decideUpdate :: "poll_env \<Rightarrow> string \<Rightarrow> table \<Rightarrow> (check_result, new_release) result" where
  "decideUpdate env channel t =
     andThen (discoverRelease env channel) (\<lambda>d. andThen (verifyDiscovered env d) (releaseGates channel t))"

definition pending_row :: "string \<Rightarrow> new_release \<Rightarrow> int \<Rightarrow> device_update" where
  "pending_row i nr now =
     \<lparr>du_id = i, du_status = Pending, du_channel = m_channel (nr_manifest nr), du_releaseTag = nr_tag nr,
      du_gitSha = m_gitSha (nr_manifest nr), du_builtAt = nr_builtAt nr, du_manifestSha256 = nr_sha256 nr,
      du_manifestJson = manifest_json (nr_manifest nr), du_failureReason = None, du_outcome = Not_applied,
      du_claimed = False, du_claimId = None, du_claimedAt = None, du_createdAt = now, du_updatedAt = now\<rparr>"

text \<open>Step 6, one transaction: the superseded count and the table.\<close>

definition recordRelease :: "string \<Rightarrow> new_release \<Rightarrow> int \<Rightarrow> table \<Rightarrow> nat \<times> table" where
  "recordRelease i nr now t =
     (let (n1, t1) = supersedePendingUpdates now t;
          (n2, t2) = supersedeUnclaimedVerifyingUpdates now t1
      in (n1 + n2, t2 @ [pending_row i nr now]))"

definition runCheck :: "poll_env \<Rightarrow> string \<Rightarrow> string \<Rightarrow> int \<Rightarrow> table \<Rightarrow> check_result \<times> table" where
  "runCheck env channel i now t =
     (case decideUpdate env channel t of
        Inl r \<Rightarrow> (r, t)
      | Inr nr \<Rightarrow>
          let (n, t') = recordRelease i nr now t
          in (Pending_created i (m_gitSha (nr_manifest nr)) n, t'))"

section \<open>Laws of the tick\<close>

lemma evolves_recordRelease: "evolves t (snd (recordRelease i nr now t))"
proof -
  let ?t1 = "snd (supersedePendingUpdates now t)" and ?t2 = "snd (supersedeUnclaimedVerifyingUpdates now (snd (supersedePendingUpdates now t)))"
  have "evolves t ?t1" "evolves ?t1 ?t2" by (rule table_writes)+
  then have "evolves t (?t2 @ [pending_row i nr now])"
    using evolves_append evolves_trans by blast
  then show ?thesis by (simp add: recordRelease_def case_prod_unfold Let_def)
qed

interpretation tw_poll: table_write "\<lambda>t. snd (runCheck env channel i now t)"
  by unfold_locales (simp add: runCheck_def case_prod_unfold Let_def evolves_recordRelease split: sum.splits)

lemma last_recordRelease [simp]: "last (snd (recordRelease i nr now t)) = pending_row i nr now"
  by (simp add: recordRelease_def case_prod_unfold Let_def)

lemma runCheck_changed:
  assumes "runCheck env channel i now t = (r, t')" "t' \<noteq> t"
  obtains nr where "decideUpdate env channel t = Return nr" "t' = snd (recordRelease i nr now t)"
    and "r = Pending_created i (m_gitSha (nr_manifest nr)) (fst (recordRelease i nr now t))"
  using assms by (auto simp: runCheck_def case_prod_unfold Let_def split: sum.splits)

definition genuine_anchor :: "string \<Rightarrow> bool" where
  "genuine_anchor key \<longleftrightarrow> \<not> js_includes TRUST_ANCHOR_PLACEHOLDER_MARKER key \<and> js_includes ''-----BEGIN PUBLIC KEY-----'' key"

text \<open>Bytes that the release key vouches for.\<close>

definition signed_by_anchor :: "poll_env \<Rightarrow> bytes \<Rightarrow> bytes \<Rightarrow> bool" where
  "signed_by_anchor env signature raw \<longleftrightarrow>
     (\<exists>key. pe_anchor env = Some key \<and> genuine_anchor key \<and> pe_cosign env key signature raw = Cosign_ok)"

lemma verifySignedBytes_Return:
  "verifySignedBytes env file signature = Return raw \<longleftrightarrow> file = Some raw \<and> signed_by_anchor env signature raw"
  by (auto simp: verifySignedBytes_def andThen_eq_Return verifyReleaseSignature_def checkTrustAnchor_def
      signed_by_anchor_def genuine_anchor_def split: option.splits if_splits cosign_answer.splits)

lemma verifyAndParse_Return:
  "verifyAndParseRelease env (Some (ds_manifestBytes d)) (ds_sigBytes d) = Return m \<longleftrightarrow>
     signed_by_anchor env (ds_sigBytes d) (ds_manifestBytes d)
     \<and> parseReleaseManifest (pe_date env) (pe_json env (ds_manifestBytes d)) = Return m"
  by (auto simp: verifyAndParseRelease_def andThen_eq_Return verifySignedBytes_Return)

lemma verifyDiscovered_Return:
  "verifyDiscovered env d = Return nr \<longleftrightarrow>
     (\<exists>m. signed_by_anchor env (ds_sigBytes d) (ds_manifestBytes d)
        \<and> parseReleaseManifest (pe_date env) (pe_json env (ds_manifestBytes d)) = Return m
        \<and> (case ds_pointer d of None \<Rightarrow> True | Some p \<Rightarrow> \<not> pointerDisagrees env p m (pe_sha256 env (ds_manifestBytes d)))
        \<and> nr = \<lparr>nr_manifest = m, nr_tag = ds_tag d, nr_sha256 = pe_sha256 env (ds_manifestBytes d),
               nr_builtAt = (case pe_date env (m_builtAt m) of Some b \<Rightarrow> b | None \<Rightarrow> 0)\<rparr>)"
proof (cases "verifyAndParseRelease env (Some (ds_manifestBytes d)) (ds_sigBytes d)")
  case (Inl e)
  then have "\<not> (signed_by_anchor env (ds_sigBytes d) (ds_manifestBytes d)
      \<and> parseReleaseManifest (pe_date env) (pe_json env (ds_manifestBytes d)) = Return m)" for m
    using verifyAndParse_Return [of env d m] by auto
  with Inl show ?thesis by (auto simp: verifyDiscovered_def)
next
  case (Inr m)
  with verifyAndParse_Return [of env d m] show ?thesis
    by (cases "ds_pointer d") (auto simp: verifyDiscovered_def Let_def)
qed

lemma releaseGates_Return:
  "releaseGates channel t nr = Return nr' \<longleftrightarrow> nr' = nr \<and> m_channel (nr_manifest nr) = channel
     \<and> (\<forall>r\<in>set t. du_gitSha r \<noteq> m_gitSha (nr_manifest nr))
     \<and> (\<forall>inst. installedRelease t = Some inst \<longrightarrow> du_builtAt inst < nr_builtAt nr)"
  by (auto simp: releaseGates_def Let_def list_ex_iff split: option.splits if_splits)

lemma decideUpdate_Return:
  "decideUpdate env channel t = Return nr \<longleftrightarrow>
     (\<exists>d. discoverRelease env channel = Return d \<and> verifyDiscovered env d = Return nr \<and> releaseGates channel t nr = Return nr)"
  by (auto simp: decideUpdate_def andThen_eq_Return releaseGates_Return)

lemma parsed_builtAt: "parseReleaseManifest date doc = Return m \<Longrightarrow> \<exists>b. date (m_builtAt m) = Some b"
  using parsed_manifest_wf [of date doc m] by (auto simp: wf_manifest_def release_ok_def)

section \<open>Properties\<close>

text \<open>
  C31. Unverified data never touches the table.  A poll that changes the table adds one pending row, and
  for that row there are bytes the release key signed under a genuine trust anchor, whose manifest
  passed the schema, is for the device's channel, is not tracked yet and was built strictly after
  the installed release; the row records exactly that manifest, the hash of those bytes and the
  signed build time.
\<close>

theorem created_row_verified:
  assumes "runCheck env channel i now t = (r, t')" "t' \<noteq> t"
  shows "\<exists>signature raw m b. signed_by_anchor env signature raw
     \<and> parseReleaseManifest (pe_date env) (pe_json env raw) = Return m \<and> pe_date env (m_builtAt m) = Some b
     \<and> m_channel m = channel \<and> m_gitSha m \<notin> du_gitSha ` set t
     \<and> (case installedRelease t of None \<Rightarrow> True | Some inst \<Rightarrow> du_builtAt inst < b)
     \<and> du_id (last t') = i \<and> du_status (last t') = Pending \<and> du_channel (last t') = channel
     \<and> du_gitSha (last t') = m_gitSha m \<and> du_builtAt (last t') = b
     \<and> du_manifestSha256 (last t') = pe_sha256 env raw \<and> du_manifestJson (last t') = manifest_json m
     \<and> length t' = length t + 1"
proof -
  obtain nr where nr: "decideUpdate env channel t = Return nr" and t': "t' = snd (recordRelease i nr now t)"
    using runCheck_changed [OF assms] by metis
  obtain d where d: "verifyDiscovered env d = Return nr" and g: "releaseGates channel t nr = Return nr"
    using nr by (auto simp: decideUpdate_Return)
  obtain m where m: "signed_by_anchor env (ds_sigBytes d) (ds_manifestBytes d)"
      "parseReleaseManifest (pe_date env) (pe_json env (ds_manifestBytes d)) = Return m"
    and nr_eq: "nr = \<lparr>nr_manifest = m, nr_tag = ds_tag d, nr_sha256 = pe_sha256 env (ds_manifestBytes d),
               nr_builtAt = (case pe_date env (m_builtAt m) of Some b \<Rightarrow> b | None \<Rightarrow> 0)\<rparr>"
    using d by (auto simp: verifyDiscovered_Return)
  obtain b where b: "pe_date env (m_builtAt m) = Some b" using parsed_builtAt [OF m(2)] by blast
  have row: "last t' = pending_row i nr now" by (simp add: t')
  have len: "length t' = length t + 1"
    by (simp add: t' recordRelease_def case_prod_unfold Let_def supersedePendingUpdates_def
        supersedeUnclaimedVerifyingUpdates_def)
  have gates: "m_channel m = channel" "m_gitSha m \<notin> du_gitSha ` set t"
    "case installedRelease t of None \<Rightarrow> True | Some inst \<Rightarrow> du_builtAt inst < b"
    using g b by (auto simp: releaseGates_Return nr_eq split: option.splits)
  have fields: "du_id (last t') = i" "du_status (last t') = Pending" "du_channel (last t') = channel"
    "du_gitSha (last t') = m_gitSha m" "du_builtAt (last t') = b"
    "du_manifestSha256 (last t') = pe_sha256 env (ds_manifestBytes d)" "du_manifestJson (last t') = manifest_json m"
    using gates(1) by (simp_all add: row pending_row_def nr_eq b)
  from m b gates fields len show ?thesis by blast
qed

text \<open>A download host with one stable release and no channel pointer, and a box that trusts its key.\<close>

definition sample_env :: "release_manifest \<Rightarrow> int \<Rightarrow> poll_env" where
  "sample_env m built =
     \<lparr>pe_downloadBase = ''https://d'',
      pe_fetch = (\<lambda>url. if url = ''m'' then Http 200 ''doc'' else if url = ''s'' then Http 200 ''sig'' else Http 404 []),
      pe_latest = Api 200 \<lparr>tag_name = Some ''ota-1'', assets = Some [(''release.json'', ''m''), (''release.json.sig'', ''s'')]\<rparr>,
      pe_listUrl = None, pe_list = (\<lambda>_. Api_unreachable),
      pe_anchor = Some ''-----BEGIN PUBLIC KEY-----'', pe_cosign = (\<lambda>_ _ _. Cosign_ok), pe_sha256 = (\<lambda>b. b),
      pe_json = (\<lambda>_. Some (manifest_json m)), pe_date = (\<lambda>_. Some built)\<rparr>"

lemma sample_env_anchor: "checkTrustAnchor (Some ''-----BEGIN PUBLIC KEY-----'') = Return ''-----BEGIN PUBLIC KEY-----''"
  by code_simp

lemma sample_pointer_url: "channelPointerUrl ''https://d'' ''stable'' = ''https://d/ota-index/channel-stable.json''"
  by code_simp

definition sample_release :: "release_manifest \<Rightarrow> int \<Rightarrow> new_release" where
  "sample_release m built = \<lparr>nr_manifest = m, nr_tag = Some ''ota-1'', nr_sha256 = ''doc'', nr_builtAt = built\<rparr>"

lemma sample_env_sel:
  "pe_downloadBase (sample_env m b) = ''https://d''"
  "pe_fetch (sample_env m b) url = (if url = ''m'' then Http 200 ''doc'' else if url = ''s'' then Http 200 ''sig'' else Http 404 [])"
  "pe_latest (sample_env m b) = Api 200 \<lparr>tag_name = Some ''ota-1'', assets = Some [(''release.json'', ''m''), (''release.json.sig'', ''s'')]\<rparr>"
  "pe_anchor (sample_env m b) = Some ''-----BEGIN PUBLIC KEY-----''" "pe_cosign (sample_env m b) k s r = Cosign_ok"
  "pe_sha256 (sample_env m b) r = r" "pe_json (sample_env m b) r = Some (manifest_json m)" "pe_date (sample_env m b) x = Some b"
  by (simp_all add: sample_env_def)

lemma sample_discovery:
  "discoverRelease (sample_env m b) ''stable'' =
     Return \<lparr>ds_tag = Some ''ota-1'', ds_manifestBytes = ''doc'', ds_sigBytes = ''sig'', ds_pointer = None\<rparr>"
  by (simp add: discoverRelease_def discoverViaChannelPointer_def Let_def downloadAsset_def sample_env_sel
      sample_pointer_url res_ok_def discoverViaReleasesApi_def apiRelease_def downloadPair_def)

lemma sample_date: "pe_date (sample_env m b) = (\<lambda>_. Some b)"
  by (simp add: sample_env_def)

lemma sample_decision:
  assumes "wf_manifest (\<lambda>_. Some b) m" "m_channel m = ''stable''"
  shows "decideUpdate (sample_env m b) ''stable'' t = releaseGates ''stable'' t (sample_release m b)"
  using wf_manifest_parses [OF assms(1)]
  by (simp add: decideUpdate_def sample_discovery verifyDiscovered_def verifyAndParseRelease_def
      verifySignedBytes_def verifyReleaseSignature_def sample_env_sel sample_env_anchor sample_date
      sample_release_def Let_def)

lemma sample_runCheck:
  "runCheck (sample_env (sample_manifest ''t'') 5) ''stable'' ''u1'' now [] =
     (Pending_created ''u1'' (m_gitSha (sample_manifest ''t'')) 0, [pending_row ''u1'' (sample_release (sample_manifest ''t'') 5) now])"
  using sample_decision [OF sample_manifest_wf, of "''t''" "[]"]
  by (simp add: runCheck_def releaseGates_def installedRelease_def findNewest_def Let_def recordRelease_def
      supersedePendingUpdates_def supersedeUnclaimedVerifyingUpdates_def updateMany_def
      sample_manifest_def sample_release_def)

theorem created_row_verified_witness:
  "\<exists>signature raw m b. signed_by_anchor (sample_env (sample_manifest ''t'') 5) signature raw
     \<and> parseReleaseManifest (\<lambda>_. Some 5) (Some (manifest_json (sample_manifest ''t''))) = Return m
     \<and> m_channel m = ''stable'' \<and> b = 5
     \<and> runCheck (sample_env (sample_manifest ''t'') 5) ''stable'' ''u1'' 9 [] =
         (Pending_created ''u1'' (m_gitSha m) 0, [pending_row ''u1'' (sample_release m 5) 9])"
proof -
  let ?m = "sample_manifest ''t''" and ?env = "sample_env (sample_manifest ''t'') 5"
  note run = sample_runCheck [of 9]
  obtain signature raw m where m: "signed_by_anchor ?env signature raw"
      "parseReleaseManifest (pe_date ?env) (pe_json ?env raw) = Return m" "m_channel m = ''stable''"
    using created_row_verified [OF run] by auto
  then have "parseReleaseManifest (\<lambda>_. Some 5) (Some (manifest_json ?m)) = Return m"
    by (simp add: sample_env_sel sample_date)
  with wf_manifest_parses [OF sample_manifest_wf, of "''t''"] have "m = ?m" by simp
  with m run wf_manifest_parses [OF sample_manifest_wf, of "''t''"] show ?thesis by blast
qed

text \<open>What the pointer path reads does not include the API.\<close>

definition with_api :: "poll_env \<Rightarrow> api_release api_answer \<Rightarrow> string option \<Rightarrow> (string \<Rightarrow> api_release list option api_answer) \<Rightarrow> poll_env" where
  "with_api env latest listUrl lst = env\<lparr>pe_latest := latest, pe_listUrl := listUrl, pe_list := lst\<rparr>"

lemma with_api_sel [simp]:
  "pe_downloadBase (with_api env a b c) = pe_downloadBase env" "pe_fetch (with_api env a b c) = pe_fetch env"
  "pe_anchor (with_api env a b c) = pe_anchor env" "pe_cosign (with_api env a b c) = pe_cosign env"
  "pe_sha256 (with_api env a b c) = pe_sha256 env" "pe_json (with_api env a b c) = pe_json env"
  "pe_date (with_api env a b c) = pe_date env"
  by (simp_all add: with_api_def)

lemma with_api_verify [simp]:
  "verifySignedBytes (with_api env a b c) file sg = verifySignedBytes env file sg"
  "verifyDiscovered (with_api env a b c) d = verifyDiscovered env d"
  unfolding verifySignedBytes_def verifyReleaseSignature_def verifyDiscovered_def
      verifyAndParseRelease_def pointerDisagrees_def with_api_sel by (rule refl)+

lemma with_api_pointer [simp]:
  "discoverViaChannelPointer (with_api env a b c) channel = discoverViaChannelPointer env channel"
  unfolding discoverViaChannelPointer_def downloadAsset_def readPointer_def downloadPair_def
    with_api_sel with_api_verify by (rule refl)

lemma pointer_path_final:
  assumes "\<nexists>body. pe_fetch env (channelPointerUrl (pe_downloadBase env) channel) = Http 404 body"
  shows "discoverViaChannelPointer env channel = Some (discoverRelease env channel)"
  using assms
  by (auto simp: discoverRelease_def discoverViaChannelPointer_def downloadAsset_def Let_def
      split: option.splits sum.splits http_answer.splits)

lemma readPointer_Return:
  "readPointer env channel pb ps = Return p \<longleftrightarrow> signed_by_anchor env ps pb
     \<and> parseChannelPointer (pe_date env) (pe_json env pb) = Return p \<and> cp_channel p = channel"
proof -
  let ?r = "andThen (verifySignedBytes env (Some pb) ps) (\<lambda>raw. parseChannelPointer (pe_date env) (pe_json env raw))"
  have eq: "?r = Return q \<longleftrightarrow> signed_by_anchor env ps pb \<and> parseChannelPointer (pe_date env) (pe_json env pb) = Return q" for q
    by (auto simp: andThen_eq_Return verifySignedBytes_Return)
  show ?thesis
  proof (cases ?r)
    case (Inl e)
    with eq [of p] show ?thesis by (auto simp: readPointer_def)
  next
    case (Inr q)
    with eq [of q] show ?thesis by (auto simp: readPointer_def)
  qed
qed

lemma downloadPair_Return: "downloadPair env tag pointer mu su = Return d \<Longrightarrow> ds_tag d = tag \<and> ds_pointer d = pointer"
  by (auto simp: downloadPair_def split: sum.splits)

lemma discovered_via_pointer:
  assumes "discoverViaChannelPointer env channel = Some (Return d)"
  obtains p signature raw where "signed_by_anchor env signature raw"
    "parseChannelPointer (pe_date env) (pe_json env raw) = Return p" "cp_channel p = channel"
    "ds_pointer d = Some p" "ds_tag d = Some (cp_tag p)"
  using assms
  by (auto simp: discoverViaChannelPointer_def Let_def andThen_eq_Return readPointer_Return
      split: sum.splits if_splits dest!: downloadPair_Return)

text \<open>
  A pointer that fails is never replaced by the unsigned listing: unless the pointer file is
  absent (HTTP 404), the outcome of a poll does not depend on what the releases API would answer,
  and a row it creates was named by a pointer the release key signed for this channel, with the
  pointer's tag, commit and the manifest hash the pointer attests.
\<close>

theorem pointer_failure_final:
  assumes "\<nexists>body. pe_fetch env (channelPointerUrl (pe_downloadBase env) channel) = Http 404 body"
  shows "runCheck (with_api env latest listUrl lst) channel i now t = runCheck env channel i now t
    \<and> (snd (runCheck env channel i now t) = t \<or>
        (\<exists>p signature raw row. signed_by_anchor env signature raw
          \<and> parseChannelPointer (pe_date env) (pe_json env raw) = Return p \<and> cp_channel p = channel
          \<and> row = last (snd (runCheck env channel i now t)) \<and> du_releaseTag row = Some (cp_tag p)
          \<and> du_manifestSha256 row = cp_manifestSha256 p \<and> du_gitSha row = cp_gitSha p))"
proof
  have same: "discoverRelease (with_api env latest listUrl lst) channel = discoverRelease env channel"
    using pointer_path_final [OF assms] by (cases "discoverViaChannelPointer env channel") (simp_all add: discoverRelease_def)
  then show "runCheck (with_api env latest listUrl lst) channel i now t = runCheck env channel i now t"
    by (simp add: runCheck_def decideUpdate_def)
  show "snd (runCheck env channel i now t) = t \<or>
        (\<exists>p signature raw row. signed_by_anchor env signature raw
          \<and> parseChannelPointer (pe_date env) (pe_json env raw) = Return p \<and> cp_channel p = channel
          \<and> row = last (snd (runCheck env channel i now t)) \<and> du_releaseTag row = Some (cp_tag p)
          \<and> du_manifestSha256 row = cp_manifestSha256 p \<and> du_gitSha row = cp_gitSha p)"
  proof (cases "snd (runCheck env channel i now t) = t")
    case False
    then obtain nr where nr: "decideUpdate env channel t = Return nr"
      and t': "snd (runCheck env channel i now t) = snd (recordRelease i nr now t)"
      using runCheck_changed [of env channel i now t] by (metis prod.collapse)
    obtain d where d: "discoverRelease env channel = Return d" "verifyDiscovered env d = Return nr"
      using nr by (auto simp: decideUpdate_Return)
    with pointer_path_final [OF assms] have "discoverViaChannelPointer env channel = Some (Return d)" by simp
    then obtain p signature raw where p: "signed_by_anchor env signature raw"
      "parseChannelPointer (pe_date env) (pe_json env raw) = Return p" "cp_channel p = channel"
      "ds_pointer d = Some p" "ds_tag d = Some (cp_tag p)" by (rule discovered_via_pointer)
    with d(2) have "nr_tag nr = Some (cp_tag p) \<and> nr_sha256 nr = cp_manifestSha256 p \<and> m_gitSha (nr_manifest nr) = cp_gitSha p"
      by (auto simp: verifyDiscovered_Return pointerDisagrees_def)
    with p t' show ?thesis
      by (intro disjI2 exI [of _ p] exI [of _ signature] exI [of _ raw] exI [of _ "pending_row i nr now"])
        (auto simp: pending_row_def)
  qed simp
qed

text \<open>The witness: the pointer host is unreachable while the API lists a genuine release.\<close>

definition unreachable_env :: poll_env where
  "unreachable_env = (sample_env (sample_manifest ''t'') 5)\<lparr>pe_fetch := \<lambda>_. Unreachable\<rparr>"

theorem pointer_failure_final_witness:
  "runCheck (with_api unreachable_env Api_unreachable None (\<lambda>_. Api_unreachable)) ''stable'' ''u1'' 9 []
     = runCheck unreachable_env ''stable'' ''u1'' 9 []"
proof -
  have "\<nexists>body. pe_fetch unreachable_env (channelPointerUrl (pe_downloadBase unreachable_env) ''stable'') = Http 404 body"
    by (simp add: unreachable_env_def)
  from pointer_failure_final [OF this] show ?thesis by blast
qed

end
