(* ===== verification/Ota_Apply.thy ===== *)
theory Ota_Apply
  imports Ota_Poller
begin

text \<open>
  Applying a release: \<open>services/update-agent/apply.ts\<close> and the apply-now and skip handlers of
  \<open>routes/updates.ts\<close>.  The calls of the \<open>ApplyRunner\<close> port (the compose socket) are a log; whether
  a call throws, the running images, the health probes and the download of the configs are the
  record \<open>apply_world\<close>.  Time-outs and retry delays are not modelled: a probe answers per attempt.

  A run that holds a claim is a small machine: each step does the runner calls up to the next
  status write and then that write, so other runs, polls and operators act between the steps.
  Log lines, measured durations and the wording of details are left out.
\<close>

section \<open>The runner port\<close>

datatype recreate_target = To_release | To_previous

datatype runner_call =
    CurrentImageRefs "string list"
  | Snapshot string
  | PullImages "string list"
  | StageConfigs string
  | ReconcileEnv string string
  | StageClientApp string string
  | MigrateDeploy
  | RecreateServices string "string list" recreate_target
  | RestoreConfigs string
  | RecreateSelfDetached string recreate_target
  | EnabledServices string
  | StartServices string "string list"
  | NotifyOwners "string list"

record thrown =
  th_stderr :: "string option"
  th_message :: string
  th_unsupported :: bool

datatype gate_phase = Sidecars | Post_swap | Rollback_gate | Post_commit_start

record apply_world =
  aw_throws :: "runner_call \<Rightarrow> thrown option"
  aw_refs :: "string \<Rightarrow> string option"
  aw_probe :: "gate_phase \<Rightarrow> string \<Rightarrow> nat \<Rightarrow> bool"
  aw_attempts :: nat
  aw_listens :: bool
  aw_downloadBase :: string
  aw_fetch :: "string \<Rightarrow> http_answer"
  aw_sha256 :: "bytes \<Rightarrow> string"
  aw_enabled :: "string list"
  aw_started :: "string list"
  aw_seen :: "device_update option \<Rightarrow> device_update option"

text \<open>An action: the calls made, and the value or the exception.\<close>

type_synonym 'a act = "runner_call list \<times> (thrown, 'a) result"

definition act_return :: "'a \<Rightarrow> 'a act" where
  "act_return x = ([], Return x)"

definition perform :: "apply_world \<Rightarrow> runner_call \<Rightarrow> unit act" where
  "perform w c = ([c], case aw_throws w c of None \<Rightarrow> Return () | Some e \<Rightarrow> Throw e)"

definition act_then :: "'a act \<Rightarrow> ('a \<Rightarrow> 'b act) \<Rightarrow> 'b act" where
  "act_then a f = (case snd a of Inl e \<Rightarrow> (fst a, Throw e) | Inr x \<Rightarrow> (fst a @ fst (f x), snd (f x)))"

definition act_catch :: "'a act \<Rightarrow> (thrown \<Rightarrow> 'a act) \<Rightarrow> 'a act" where
  "act_catch a h = (case snd a of Inl e \<Rightarrow> (fst a @ fst (h e), snd (h e)) | Inr x \<Rightarrow> a)"

section \<open>Health gates\<close>

definition SELF_SERVICE_NAME :: string where
  "SELF_SERVICE_NAME = ''orchestrator''"

fun is_http :: "healthcheck \<Rightarrow> bool" where
  "is_http (Http_check port path) = True"
| "is_http No_check = False"

text \<open>The first service whose probe never answered within the attempts.\<close>

fun healthGate :: "(string \<Rightarrow> nat \<Rightarrow> bool) \<Rightarrow> nat \<Rightarrow> release_service list \<Rightarrow> string option" where
  "healthGate probe attempts [] = None"
| "healthGate probe attempts (s # ss) =
     (if \<not> is_http (rs_healthcheck s) then healthGate probe attempts ss
      else if list_ex (probe (rs_name s)) [0..<attempts] then healthGate probe attempts ss
      else Some (rs_name s))"

definition runHealthGate :: "apply_world \<Rightarrow> gate_phase \<Rightarrow> release_service list \<Rightarrow> string option" where
  "runHealthGate w phase services = healthGate (aw_probe w phase) (aw_attempts w) services"

definition imageRefMatchesDigest :: "string option \<Rightarrow> string \<Rightarrow> bool" where
  "imageRefMatchesDigest ref digest =
     (case ref of None \<Rightarrow> False | Some r \<Rightarrow> r \<noteq> [] \<and> (r = digest \<or> ends_with (''@'' @ digest) r))"

section \<open>Before the swap\<close>

datatype configs_answer = Configs_ok | Configs_transient | Configs_mismatch

definition fetchConfigsAsset :: "apply_world \<Rightarrow> device_update \<Rightarrow> release_manifest \<Rightarrow> configs_answer" where
  "fetchConfigsAsset w row m =
     (case du_releaseTag row of
        None \<Rightarrow> Configs_transient
      | Some tag \<Rightarrow>
          if tag = [] then Configs_transient
          else (case aw_fetch w (releaseAssetDownloadUrl (aw_downloadBase w) tag (m_configs_file m)) of
              Unreachable \<Rightarrow> Configs_transient
            | Http status body \<Rightarrow>
                if \<not> res_ok status then Configs_transient
                else if aw_sha256 w body \<noteq> m_configs_sha256 m then Configs_mismatch
                else Configs_ok))"

definition IMAGE_VERIFY_REFUSAL_MARKER :: string where
  "IMAGE_VERIFY_REFUSAL_MARKER = ''image-verify:''"

definition REGISTRY_AUTH_REFUSAL_MARKER :: string where
  "REGISTRY_AUTH_REFUSAL_MARKER = ''registry-auth:''"

fun lines_of :: "string \<Rightarrow> string list" where
  "lines_of [] = [[]]"
| "lines_of (c # s) =
     (if c = CHR 0x0A then [] # lines_of s
      else (case lines_of s of [] \<Rightarrow> [[c]] | l # ls \<Rightarrow> (c # l) # ls))"

definition helperRefusalDetail :: "thrown \<Rightarrow> string \<Rightarrow> string option" where
  "helperRefusalDetail e marker =
     (let src = (case th_stderr e of
            Some s \<Rightarrow> if js_includes marker s then Some s
                      else if js_includes marker (th_message e) then Some (th_message e) else None
          | None \<Rightarrow> if js_includes marker (th_message e) then Some (th_message e) else None)
      in case src of None \<Rightarrow> None
         | Some s \<Rightarrow>
             let line = (case find (js_includes marker) (lines_of s) of None \<Rightarrow> s | Some l \<Rightarrow> l)
             in Some (take 500 (js_trim line)))"

fun reason_name :: "update_failure_reason \<Rightarrow> string" where
  "reason_name trust_anchor_placeholder = ''trust_anchor_placeholder''"
| "reason_name cosign_unavailable = ''cosign_unavailable''"
| "reason_name signature_failed = ''signature_failed''"
| "reason_name malformed_manifest = ''malformed_manifest''"
| "reason_name schema_invalid = ''schema_invalid''"
| "reason_name schema_downgrade = ''schema_downgrade''"
| "reason_name schema_unsupported = ''schema_unsupported''"
| "reason_name orchestrator_schema_unsupported = ''orchestrator_schema_unsupported''"
| "reason_name extension_kind_missing = ''extension_kind_missing''"
| "reason_name key_usage_mismatch = ''key_usage_mismatch''"
| "reason_name extension_key_changed = ''extension_key_changed''"
| "reason_name extension_schema_invalid = ''extension_schema_invalid''"
| "reason_name extension_digest_mismatch = ''extension_digest_mismatch''"
| "reason_name pointer_invalid = ''pointer_invalid''"
| "reason_name pointer_mismatch = ''pointer_mismatch''"

datatype prepared = Reject string | Retry | Proceed "release_service list"

definition deployed_services :: "apply_world \<Rightarrow> release_manifest \<Rightarrow> release_service list" where
  "deployed_services w m = filter (\<lambda>s. aw_refs w (rs_name s) \<noteq> None) (m_services m)"

definition sidecars_of :: "release_service list \<Rightarrow> release_service list" where
  "sidecars_of services = filter (\<lambda>s. rs_name s \<noteq> SELF_SERVICE_NAME) services"

text \<open>Step 3b: \<open>True\<close> when the apply goes on, \<open>False\<close> when the reconcile refused the release.\<close>

definition reconcileStep :: "apply_world \<Rightarrow> string \<Rightarrow> release_manifest \<Rightarrow> bool act" where
  "reconcileStep w i m =
     (case find (\<lambda>s. rs_name s = SELF_SERVICE_NAME) (m_services m) of
        None \<Rightarrow> act_return False
      | Some self \<Rightarrow>
          act_catch (act_then (perform w (ReconcileEnv i (rs_image self))) (\<lambda>_. act_return True))
            (\<lambda>e. act_return (th_unsupported e)))"

text \<open>Step 3c: a client installer that fails is skipped.\<close>

fun stageClients :: "apply_world \<Rightarrow> string \<Rightarrow> release_client list \<Rightarrow> unit act" where
  "stageClients w i [] = act_return ()"
| "stageClients w i (c # cs) =
     act_then (act_catch (perform w (StageClientApp i (rc_platform c))) (\<lambda>_. act_return ()))
       (\<lambda>_. stageClients w i cs)"

definition stageClientApps :: "apply_world \<Rightarrow> string \<Rightarrow> release_manifest \<Rightarrow> unit act" where
  "stageClientApps w i m = stageClients w i (case m_clients m of None \<Rightarrow> [] | Some cs \<Rightarrow> cs)"

text \<open>Step 2, with the classification of its failure.\<close>

definition pullStep :: "apply_world \<Rightarrow> release_manifest \<Rightarrow> prepared act \<Rightarrow> prepared act" where
  "pullStep w m k =
     (let pull = perform w (PullImages (map rs_name (m_services m)))
      in case snd pull of
           Inr _ \<Rightarrow> act_then pull (\<lambda>_. k)
         | Inl e \<Rightarrow>
             if helperRefusalDetail e IMAGE_VERIFY_REFUSAL_MARKER \<noteq> None
             then (fst pull, Return (Reject ''image_signature_failed''))
             else if helperRefusalDetail e REGISTRY_AUTH_REFUSAL_MARKER \<noteq> None
             then (fst pull, Return Retry)
             else (fst pull, Throw e))"

definition stageStep :: "apply_world \<Rightarrow> string \<Rightarrow> release_manifest \<Rightarrow> prepared act" where
  "stageStep w i m =
     act_then (perform w (StageConfigs i)) (\<lambda>_.
     act_then (reconcileStep w i m) (\<lambda>reconciled.
       if \<not> reconciled
       then act_then (perform w (RestoreConfigs i)) (\<lambda>_. act_return (Reject ''env_reconcile_failed''))
       else act_then (stageClientApps w i m) (\<lambda>_.
            act_then (perform w MigrateDeploy) (\<lambda>_.
              act_return (Proceed (sidecars_of (deployed_services w m)))))))"

definition prepareRelease :: "(string \<Rightarrow> int option) \<Rightarrow> apply_world \<Rightarrow> device_update \<Rightarrow> prepared act" where
  "prepareRelease date w row =
     (case parseReleaseManifest date (Some (du_manifestJson row)) of
        Inl reason \<Rightarrow> act_return (Reject (reason_name reason))
      | Inr m \<Rightarrow>
          (case fetchConfigsAsset w row m of
             Configs_mismatch \<Rightarrow> act_return (Reject ''configs_mismatch'')
           | Configs_transient \<Rightarrow> act_return Retry
           | Configs_ok \<Rightarrow>
               act_then (perform w (CurrentImageRefs (map rs_name (m_services m)))) (\<lambda>_.
               act_then (perform w (Snapshot (du_id row))) (\<lambda>_.
                 pullStep w m (stageStep w (du_id row) m)))))"

section \<open>The swap\<close>

datatype swapped = Swap_started | Swap_rolled_back | Swap_degraded

definition swapSidecars :: "apply_world \<Rightarrow> string \<Rightarrow> release_service list \<Rightarrow> swapped act" where
  "swapSidecars w i sidecars =
     (let names = map rs_name sidecars
      in act_then (perform w (RecreateServices i names To_release)) (\<lambda>_.
           if runHealthGate w Sidecars sidecars = None
           then act_then (perform w (RecreateSelfDetached i To_release)) (\<lambda>_. act_return Swap_started)
           else act_then (perform w (RestoreConfigs i)) (\<lambda>_.
                act_then (perform w (RecreateServices i names To_previous)) (\<lambda>_.
                  act_return (if runHealthGate w Rollback_gate sidecars = None then Swap_rolled_back else Swap_degraded)))))"

section \<open>A run that holds a claim\<close>

datatype apply_result =
    Claimed_elsewhere
  | Deferred_setup_in_progress
  | Release_rejected string
  | Retry_later
  | Stale_superseded string
  | Run_rolled_back
  | Run_failed
  | Self_swap_started
  | Run_threw

datatype run_phase =
    At_lookup
  | At_gate
  | At_start
  | At_prepare
  | At_swap "release_service list"
  | Finished apply_result

record apply_run =
  ar_row :: device_update
  ar_claimId :: string
  ar_phase :: run_phase
  ar_applyNow :: bool

definition setStatus ::
  "apply_world \<Rightarrow> string \<Rightarrow> device_status \<Rightarrow> string option \<Rightarrow> device_outcome option \<Rightarrow> int \<Rightarrow> table
     \<Rightarrow> (transition_error, unit) result \<times> table" where
  "setStatus w i to reason outcome now t =
     transitionDeviceUpdate (aw_seen w (findRow i t)) i to reason outcome now t"

text \<open>The next phase after a status write: an exception ends the run.\<close>

definition after_write :: "(transition_error, unit) result \<times> table \<Rightarrow> run_phase \<Rightarrow> run_phase \<times> table" where
  "after_write res phase = (case fst res of Inl _ \<Rightarrow> Finished Run_threw | Inr _ \<Rightarrow> phase, snd res)"

definition staleReason :: "string \<Rightarrow> device_update \<Rightarrow> device_update option \<Rightarrow> string option" where
  "staleReason channel row installed =
     (if du_channel row \<noteq> channel then Some ''channel_mismatch''
      else (case installed of
          Some inst \<Rightarrow> if du_builtAt row \<le> du_builtAt inst then Some ''not_newer'' else None
        | None \<Rightarrow> None))"

text \<open>The lookup of an inherited claim (\<^verbatim>\<open>opts.claimed\<close>).\<close>

definition lookup_step :: "apply_run \<Rightarrow> table \<Rightarrow> apply_run" where
  "lookup_step run t =
     (case find (\<lambda>r. du_id r = du_id (ar_row run) \<and> du_status r \<in> {Pending, Verifying}
            \<and> du_claimed r \<and> du_claimId r = Some (ar_claimId run)) t of
        None \<Rightarrow> run\<lparr>ar_phase := Finished Claimed_elsewhere\<rparr>
      | Some row \<Rightarrow> run\<lparr>ar_row := row, ar_phase := At_gate\<rparr>)"

definition gate_step :: "apply_world \<Rightarrow> string \<Rightarrow> bool \<Rightarrow> int \<Rightarrow> device_update \<Rightarrow> table \<Rightarrow> run_phase \<times> table" where
  "gate_step w channel ready now row t =
     (case staleReason channel row (installedRelease t) of
        Some reason \<Rightarrow>
          after_write (setStatus w (du_id row) Superseded (Some reason) None now t) (Finished (Stale_superseded reason))
      | None \<Rightarrow> (if ready then At_start else Finished Deferred_setup_in_progress, t))"

definition start_step :: "apply_world \<Rightarrow> int \<Rightarrow> device_update \<Rightarrow> table \<Rightarrow> run_phase \<times> table" where
  "start_step w now row t =
     (if du_status row \<noteq> Verifying
      then after_write (setStatus w (du_id row) Verifying None None now t) At_prepare
      else (At_prepare, t))"

definition prepare_step ::
  "(string \<Rightarrow> int option) \<Rightarrow> apply_world \<Rightarrow> int \<Rightarrow> device_update \<Rightarrow> table \<Rightarrow> run_phase \<times> table \<times> runner_call list" where
  "prepare_step date w now row t =
     (let (calls, res) = prepareRelease date w row;
          (phase, t') =
            (case res of
               Inl _ \<Rightarrow> (Finished Run_threw, t)
             | Inr (Reject reason) \<Rightarrow>
                 after_write (setStatus w (du_id row) Rejected (Some reason) None now t) (Finished (Release_rejected reason))
             | Inr Retry \<Rightarrow> (Finished Retry_later, t)
             | Inr (Proceed sidecars) \<Rightarrow>
                 after_write (setStatus w (du_id row) Applying None None now t) (At_swap sidecars))
      in (phase, t', calls))"

definition swap_step ::
  "apply_world \<Rightarrow> int \<Rightarrow> device_update \<Rightarrow> release_service list \<Rightarrow> table \<Rightarrow> run_phase \<times> table \<times> runner_call list" where
  "swap_step w now row sidecars t =
     (let (calls, res) = swapSidecars w (du_id row) sidecars;
          (phase, t') =
            (case res of
               Inl _ \<Rightarrow> (Finished Run_threw, t)
             | Inr Swap_started \<Rightarrow> (Finished Self_swap_started, t)
             | Inr Swap_rolled_back \<Rightarrow>
                 after_write (setStatus w (du_id row) Rolled_back (Some ''health_gate_failed'') (Some Outcome_rolled_back) now t)
                   (Finished Run_rolled_back)
             | Inr Swap_degraded \<Rightarrow>
                 after_write (setStatus w (du_id row) Failed (Some ''degraded_health'') (Some Rollback_failed) now t)
                   (Finished Run_failed))
      in (phase, t', calls))"

definition run_step ::
  "(string \<Rightarrow> int option) \<Rightarrow> apply_world \<Rightarrow> string \<Rightarrow> bool \<Rightarrow> int \<Rightarrow> apply_run \<Rightarrow> table \<Rightarrow> apply_run \<times> table \<times> runner_call list" where
  "run_step date w channel ready now run t =
     (case ar_phase run of
        At_lookup \<Rightarrow> (lookup_step run t, t, [])
      | At_gate \<Rightarrow> (let (p, t') = gate_step w channel ready now (ar_row run) t in (run\<lparr>ar_phase := p\<rparr>, t', []))
      | At_start \<Rightarrow> (let (p, t') = start_step w now (ar_row run) t in (run\<lparr>ar_phase := p\<rparr>, t', []))
      | At_prepare \<Rightarrow> (let (p, t', calls) = prepare_step date w now (ar_row run) t in (run\<lparr>ar_phase := p\<rparr>, t', calls))
      | At_swap sidecars \<Rightarrow> (let (p, t', calls) = swap_step w now (ar_row run) sidecars t in (run\<lparr>ar_phase := p\<rparr>, t', calls))
      | Finished r \<Rightarrow> (run, t, []))"

section \<open>Starting a run\<close>

definition newestApplicable :: "table \<Rightarrow> device_update option" where
  "newestApplicable t = findNewest du_createdAt (\<lambda>r. du_status r \<in> {Pending, Verifying}) t"

datatype start_result = Nothing_pending | Not_claimed string | Started apply_run

definition applyPendingUpdate :: "string \<Rightarrow> int \<Rightarrow> table \<Rightarrow> start_result \<times> table" where
  "applyPendingUpdate claimId now t =
     (case newestApplicable t of
        None \<Rightarrow> (Nothing_pending, t)
      | Some row \<Rightarrow>
          let (ok, t') = claimDeviceUpdateForApply (du_id row) claimId now t
          in if ok
             then (Started \<lparr>ar_row = row, ar_claimId = claimId, ar_phase = At_gate, ar_applyNow = False\<rparr>, t')
             else (Not_claimed (du_id row), t'))"

definition applyWindowTick :: "bool \<Rightarrow> string \<Rightarrow> int \<Rightarrow> table \<Rightarrow> start_result option \<times> table" where
  "applyWindowTick autoApply claimId now t =
     (case newestApplicable t of
        None \<Rightarrow> (Some Nothing_pending, t)
      | Some _ \<Rightarrow>
          if \<not> autoApply then (None, t)
          else let (r, t') = applyPendingUpdate claimId now t in (Some r, t'))"

datatype apply_now_result = Apply_in_progress | Nothing_to_apply | Activity_failed | Apply_started apply_run

text \<open>The apply-now handler: refused while a row is applying or an earlier apply-now is in flight.\<close>

definition applyNow :: "bool \<Rightarrow> bool \<Rightarrow> string \<Rightarrow> int \<Rightarrow> table \<Rightarrow> apply_now_result \<times> table" where
  "applyNow inFlight activityFails claimId now t =
     (if list_ex (\<lambda>r. du_status r = Applying) t \<or> inFlight then (Apply_in_progress, t)
      else (case newestApplicable t of
          None \<Rightarrow> (Nothing_to_apply, t)
        | Some row \<Rightarrow>
            let (ok, t') = claimDeviceUpdateForApply (du_id row) claimId now t
            in if \<not> ok then (Apply_in_progress, t')
               else if activityFails then (Activity_failed, releaseDeviceUpdateClaim (du_id row) claimId now t')
               else (Apply_started \<lparr>ar_row = row, ar_claimId = claimId, ar_phase = At_lookup, ar_applyNow = True\<rparr>, t')))"

definition SKIPPED_BY_OPERATOR :: string where
  "SKIPPED_BY_OPERATOR = ''skipped_by_operator''"

datatype skip_result = Skipped string | Skip_refused_in_progress | Skip_nothing_pending

definition skipUpdate :: "device_update option \<Rightarrow> int \<Rightarrow> table \<Rightarrow> skip_result \<times> table" where
  "skipUpdate picked now t =
     (case picked of
        None \<Rightarrow>
          (if list_ex (\<lambda>r. du_status r \<in> {Verifying, Applying}) t then Skip_refused_in_progress else Skip_nothing_pending, t)
      | Some row \<Rightarrow>
          let (n, t') = updateMany (\<lambda>r. du_id r = du_id row \<and> du_status r = Pending)
                (\<lambda>r. r\<lparr>du_status := Superseded, du_failureReason := Some SKIPPED_BY_OPERATOR\<rparr>) now t
          in (if n = 0 then Skip_refused_in_progress else Skipped (du_id row), t'))"

section \<open>Resuming at boot\<close>

datatype resume_result =
    Resume_nothing
  | Resume_committed string release_manifest
  | Resume_rolled_back string
  | Resume_failed string
  | Self_rollback_started string
  | Resumed_apply string start_result
  | Resume_threw

definition after_verdict :: "(transition_error, unit) result \<times> table \<Rightarrow> resume_result \<Rightarrow> resume_result \<times> table" where
  "after_verdict res ok = (case fst res of Inl _ \<Rightarrow> Resume_threw | Inr _ \<Rightarrow> ok, snd res)"

text \<open>A gate that includes this process counts it as unhealthy when it never listened.\<close>

definition resumeGate :: "apply_world \<Rightarrow> gate_phase \<Rightarrow> release_service list \<Rightarrow> string option" where
  "resumeGate w phase services = (if aw_listens w then runHealthGate w phase services else Some SELF_SERVICE_NAME)"

definition runningTarget :: "apply_world \<Rightarrow> release_manifest \<Rightarrow> bool" where
  "runningTarget w m =
     (case find (\<lambda>s. rs_name s = SELF_SERVICE_NAME) (m_services m) of
        None \<Rightarrow> False
      | Some self \<Rightarrow> imageRefMatchesDigest (aw_refs w SELF_SERVICE_NAME) (rs_digest self))"

definition rollbackSwap :: "apply_world \<Rightarrow> string \<Rightarrow> release_service list \<Rightarrow> unit act" where
  "rollbackSwap w i deployed =
     act_then (perform w (RestoreConfigs i)) (\<lambda>_.
     act_then (perform w (RecreateServices i (map rs_name (sidecars_of deployed)) To_previous)) (\<lambda>_.
       perform w (RecreateSelfDetached i To_previous)))"

definition resumeApplying ::
  "(string \<Rightarrow> int option) \<Rightarrow> apply_world \<Rightarrow> int \<Rightarrow> device_update \<Rightarrow> table \<Rightarrow> resume_result \<times> table \<times> runner_call list" where
  "resumeApplying date w now row t =
     (let i = du_id row in
      case parseReleaseManifest date (Some (du_manifestJson row)) of
        Inl reason \<Rightarrow>
          (let (r, t') = after_verdict (setStatus w i Failed (Some (reason_name reason)) None now t) (Resume_failed i)
           in (r, t', []))
      | Inr m \<Rightarrow>
          (let refs = perform w (CurrentImageRefs (map rs_name (m_services m))); deployed = deployed_services w m
           in case snd refs of
                Inl _ \<Rightarrow> (Resume_threw, t, fst refs)
              | Inr _ \<Rightarrow>
                  if runningTarget w m then
                    (if resumeGate w Post_swap deployed = None then
                       (let (r, t') = after_verdict (setStatus w i Committed None (Some Starting_services) now t)
                              (Resume_committed i m)
                        in (r, t', fst refs))
                     else
                       (let roll = rollbackSwap w i deployed
                        in (case snd roll of Inl _ \<Rightarrow> Resume_threw | Inr _ \<Rightarrow> Self_rollback_started i,
                            t, fst refs @ fst roll)))
                  else if resumeGate w Rollback_gate deployed = None then
                    (let (r, t') = after_verdict (setStatus w i Rolled_back (Some ''health_gate_failed'')
                              (Some Outcome_rolled_back) now t) (Resume_rolled_back i)
                     in (r, t', fst refs))
                  else
                    (let (r, t') = after_verdict (setStatus w i Failed (Some ''degraded_health'')
                              (Some Rollback_failed) now t) (Resume_failed i)
                     in (r, t', fst refs))))"

definition resumeInterruptedApply ::
  "(string \<Rightarrow> int option) \<Rightarrow> apply_world \<Rightarrow> string \<Rightarrow> int \<Rightarrow> table \<Rightarrow> resume_result \<times> table \<times> runner_call list" where
  "resumeInterruptedApply date w claimId now t =
     (let t1 = clearStaleClaims now t
      in case findNewest du_createdAt (\<lambda>r. du_status r = Applying) t1 of
           Some row \<Rightarrow> resumeApplying date w now row t1
         | None \<Rightarrow>
             (case findNewest du_createdAt (\<lambda>r. du_status r = Verifying) t1 of
                None \<Rightarrow> (Resume_nothing, t1, [])
              | Some row \<Rightarrow>
                  let (r, t2) = applyPendingUpdate claimId now t1 in (Resumed_apply (du_id row) r, t2, [])))"

section \<open>After the commit\<close>

text \<open>The services the new compose file enables that have no container; the outcome and the calls.\<close>

definition startNewlyEnabledServices ::
  "apply_world \<Rightarrow> string \<Rightarrow> release_manifest \<Rightarrow> (string \<Rightarrow> string option) \<Rightarrow> device_outcome \<times> runner_call list" where
  "startNewlyEnabledServices w i m refs =
     (let enabled = perform w (EnabledServices i);
          missing = filter (\<lambda>s. refs (rs_name s) = None \<and> rs_name s \<in> set (aw_enabled w)) (m_services m);
          names = map rs_name missing;
          start = perform w (StartServices i names);
          begun = filter (\<lambda>s. rs_name s \<in> set (aw_started w)) missing
      in case snd enabled of
           Inl _ \<Rightarrow> (Services_start_failed, fst enabled @ [NotifyOwners []])
         | Inr _ \<Rightarrow>
             if missing = [] then (Outcome_committed, fst enabled)
             else (case snd start of
                 Inl _ \<Rightarrow> (Services_start_failed, fst enabled @ fst start @ [NotifyOwners names])
               | Inr _ \<Rightarrow>
                   if aw_started w = [] \<or> runHealthGate w Post_commit_start begun = None
                   then (Outcome_committed, fst enabled @ fst start)
                   else (Services_start_failed, fst enabled @ fst start @ [NotifyOwners (aw_started w)])))"

section \<open>Every step keeps the audit contract\<close>

interpretation tw_setStatus: table_write "\<lambda>t. snd (setStatus w i to reason oc now t)"
  by unfold_locales (simp add: setStatus_def table_writes)

lemma snd_after_write [simp]: "snd (after_write res phase) = snd res"
  by (simp add: after_write_def)

lemma snd_after_verdict [simp]: "snd (after_verdict res ok) = snd res"
  by (simp add: after_verdict_def)

lemmas run_step_defs = run_step_def gate_step_def start_step_def prepare_step_def swap_step_def

interpretation tw_run: table_write "\<lambda>t. fst (snd (run_step date w channel ready now run t))"
  by unfold_locales
    (auto simp: run_step_defs case_prod_unfold Let_def tw_setStatus.evolves_run
      split: run_phase.splits option.splits sum.splits prepared.splits swapped.splits)

interpretation tw_apply: table_write "\<lambda>t. snd (applyPendingUpdate claimId now t)"
  by unfold_locales (auto simp: applyPendingUpdate_def case_prod_unfold Let_def table_writes split: option.splits)

interpretation tw_window: table_write "\<lambda>t. snd (applyWindowTick auto claimId now t)"
  by unfold_locales (auto simp: applyWindowTick_def case_prod_unfold Let_def tw_apply.evolves_run split: option.splits)

interpretation tw_now: table_write "\<lambda>t. snd (applyNow inFlight fails claimId now t)"
proof
  fix t
  have "evolves t (releaseDeviceUpdateClaim i claimId now (snd (claimDeviceUpdateForApply i claimId now t)))" for i
    by (rule evolves_trans) (rule table_writes)+
  then show "evolves t (snd (applyNow inFlight fails claimId now t))"
    by (auto simp: applyNow_def case_prod_unfold Let_def table_writes split: option.splits)
qed

interpretation tw_skip: table_write "\<lambda>t. snd (skipUpdate picked now t)"
proof
  fix t
  show "evolves t (snd (skipUpdate picked now t))"
  proof (cases picked)
    case (Some row)
    have "evolves t (snd (updateMany (\<lambda>r. du_id r = du_id row \<and> du_status r = Pending)
        (\<lambda>r. r\<lparr>du_status := Superseded, du_failureReason := Some SKIPPED_BY_OPERATOR\<rparr>) now t))"
      by (rule evolves_updateMany, rule advances_stepI) (auto simp: same_release_def advance_step_def)
    with Some show ?thesis by (simp add: skipUpdate_def case_prod_unfold Let_def)
  qed (simp add: skipUpdate_def)
qed

interpretation tw_resume_applying: table_write "\<lambda>t. fst (snd (resumeApplying date w now row t))"
  by unfold_locales
    (auto simp: resumeApplying_def case_prod_unfold Let_def tw_setStatus.evolves_run split: sum.splits)

interpretation tw_resume: table_write "\<lambda>t. fst (snd (resumeInterruptedApply date w claimId now t))"
proof
  fix t
  let ?t1 = "clearStaleClaims now t"
  have "evolves t ?t1" by (rule table_writes)
  then have "evolves t (fst (snd (resumeApplying date w now row ?t1)))" "evolves t (snd (applyPendingUpdate claimId now ?t1))"
    for row
    using evolves_trans tw_resume_applying.evolves_run tw_apply.evolves_run by blast+
  with \<open>evolves t ?t1\<close> show "evolves t (fst (snd (resumeInterruptedApply date w claimId now t)))"
    by (auto simp: resumeInterruptedApply_def case_prod_unfold Let_def split: option.splits)
qed

end
