(* ===== verification/Ota_Run.thy ===== *)
theory Ota_Run
  imports Ota_Apply
begin

text \<open>
  Histories of the update agent: polls, apply windows, operators pressing apply-now and skip, the
  steps of any number of runs, settings changes and reboots, interleaved in any order.  A poll is one
  atomic event under the poll lock of \<open>index.ts\<close>; the check-now route takes no lock, so a poll may
  also be a decision on the table as read and, later, the recording transaction.  A reboot kills every
  run and every poll in flight and then runs the resume hook.

  The environment is constrained in three ways, each a premise of the rules: the clock of the writes
  moves on, and neither a row id (\<open>cuid\<close>) nor a claim id (\<open>randomUUID\<close>) is ever produced twice.
\<close>

section \<open>The system\<close>

record ota_state =
  os_table :: table
  os_flag :: "json option"
  os_ready :: bool
  os_runs :: "apply_run list"
  os_polls :: "new_release list"
  os_inFlight :: bool
  os_starting :: "(string \<times> release_manifest \<times> (string \<Rightarrow> string option)) option"
  os_log :: "runner_call list"
  os_claims :: "string list"
  os_now :: int

definition ota_init :: "json option \<Rightarrow> bool \<Rightarrow> ota_state" where
  "ota_init flag ready =
     \<lparr>os_table = [], os_flag = flag, os_ready = ready, os_runs = [], os_polls = [], os_inFlight = False,
      os_starting = None, os_log = [], os_claims = [], os_now = 0\<rparr>"

datatype ota_event =
    Poll check_result
  | Decide "(check_result, new_release) result"
  | Record nat
  | Window "start_result option"
  | Apply_now apply_now_result
  | Step nat apply_world "runner_call list"
  | Finish nat
  | Skip skip_result
  | Boot apply_world resume_result "runner_call list"
  | Services device_outcome "runner_call list"
  | Settings settings_patch
  | Setup bool

definition os_channel :: "(string \<Rightarrow> bool) \<Rightarrow> ota_state \<Rightarrow> string" where
  "os_channel cron s = us_channel (getUpdateAgentSettings cron (os_flag s))"

definition drop_nth :: "nat \<Rightarrow> 'a list \<Rightarrow> 'a list" where
  "drop_nth k xs = take k xs @ drop (Suc k) xs"

fun started_runs :: "start_result \<Rightarrow> apply_run list" where
  "started_runs (Started run) = [run]"
| "started_runs Nothing_pending = []"
| "started_runs (Not_claimed i) = []"

fun resumed_runs :: "resume_result \<Rightarrow> apply_run list" where
  "resumed_runs (Resumed_apply i r) = started_runs r"
| "resumed_runs Resume_nothing = []"
| "resumed_runs (Resume_committed i m) = []"
| "resumed_runs (Resume_rolled_back i) = []"
| "resumed_runs (Resume_failed i) = []"
| "resumed_runs (Self_rollback_started i) = []"
| "resumed_runs Resume_threw = []"

fun resumed_start :: "resume_result \<Rightarrow> (string \<Rightarrow> string option) \<Rightarrow> (string \<times> release_manifest \<times> (string \<Rightarrow> string option)) option" where
  "resumed_start (Resume_committed i m) refs = Some (i, m, refs)"
| "resumed_start (Resumed_apply i r) refs = None"
| "resumed_start Resume_nothing refs = None"
| "resumed_start (Resume_rolled_back i) refs = None"
| "resumed_start (Resume_failed i) refs = None"
| "resumed_start (Self_rollback_started i) refs = None"
| "resumed_start Resume_threw refs = None"

inductive ota_step :: "(string \<Rightarrow> int option) \<Rightarrow> (string \<Rightarrow> bool) \<Rightarrow> ota_state \<Rightarrow> ota_event \<Rightarrow> ota_state \<Rightarrow> bool"
  for date cron where
  poll:
    "os_now s < now \<Longrightarrow> i \<notin> du_id ` set (os_table s) \<Longrightarrow>
     runCheck env (os_channel cron s) i now (os_table s) = (r, t) \<Longrightarrow>
     ota_step date cron s (Poll r) (s\<lparr>os_table := t, os_now := now\<rparr>)"
| decide:
    "decideUpdate env (os_channel cron s) (os_table s) = r \<Longrightarrow>
     ota_step date cron s (Decide r) (s\<lparr>os_polls := (case r of Inl _ \<Rightarrow> os_polls s | Inr nr \<Rightarrow> os_polls s @ [nr])\<rparr>)"
| record_release:
    "os_now s < now \<Longrightarrow> i \<notin> du_id ` set (os_table s) \<Longrightarrow> k < length (os_polls s) \<Longrightarrow>
     recordRelease i (os_polls s ! k) now (os_table s) = (n, t) \<Longrightarrow>
     ota_step date cron s (Record k) (s\<lparr>os_table := t, os_polls := drop_nth k (os_polls s), os_now := now\<rparr>)"
| window:
    "os_now s < now \<Longrightarrow> c \<notin> set (os_claims s) \<Longrightarrow>
     applyWindowTick (us_autoApply (getUpdateAgentSettings cron (os_flag s))) c now (os_table s) = (r, t) \<Longrightarrow>
     ota_step date cron s (Window r)
       (s\<lparr>os_table := t, os_runs := os_runs s @ (case r of None \<Rightarrow> [] | Some x \<Rightarrow> started_runs x),
          os_claims := c # os_claims s, os_now := now\<rparr>)"
| apply_now:
    "os_now s < now \<Longrightarrow> c \<notin> set (os_claims s) \<Longrightarrow>
     applyNow (os_inFlight s) fails c now (os_table s) = (r, t) \<Longrightarrow>
     ota_step date cron s (Apply_now r)
       (s\<lparr>os_table := t, os_runs := os_runs s @ (case r of Apply_started run \<Rightarrow> [run] | _ \<Rightarrow> []),
          os_inFlight := (case r of Apply_started run \<Rightarrow> True | Activity_failed \<Rightarrow> False | _ \<Rightarrow> os_inFlight s),
          os_claims := c # os_claims s, os_now := now\<rparr>)"
| step:
    "os_now s < now \<Longrightarrow> k < length (os_runs s) \<Longrightarrow>
     run_step date w (os_channel cron s) (os_ready s) now (os_runs s ! k) (os_table s) = (run, t, calls) \<Longrightarrow>
     ota_step date cron s (Step k w calls)
       (s\<lparr>os_table := t, os_runs := (os_runs s)[k := run], os_log := os_log s @ calls, os_now := now\<rparr>)"
| finish:
    "os_now s < now \<Longrightarrow> k < length (os_runs s) \<Longrightarrow> ar_phase (os_runs s ! k) = Finished r \<Longrightarrow>
     t = (if released then releaseDeviceUpdateClaim (du_id (ar_row (os_runs s ! k))) (ar_claimId (os_runs s ! k)) now (os_table s)
          else os_table s) \<Longrightarrow>
     ota_step date cron s (Finish k)
       (s\<lparr>os_table := t, os_runs := drop_nth k (os_runs s),
          os_inFlight := (if ar_applyNow (os_runs s ! k) then False else os_inFlight s), os_now := now\<rparr>)"
| skip:
    "os_now s < now \<Longrightarrow> skipUpdate picked now (os_table s) = (r, t) \<Longrightarrow>
     ota_step date cron s (Skip r) (s\<lparr>os_table := t, os_now := now\<rparr>)"
| boot:
    "os_now s < now \<Longrightarrow> c \<notin> set (os_claims s) \<Longrightarrow>
     resumeInterruptedApply date w c now (os_table s) = (r, t, calls) \<Longrightarrow>
     ota_step date cron s (Boot w r calls)
       (s\<lparr>os_table := t, os_runs := resumed_runs r, os_polls := [], os_inFlight := False,
          os_starting := resumed_start r (aw_refs w), os_log := os_log s @ calls,
          os_claims := c # os_claims s, os_now := now\<rparr>)"
| services:
    "os_now s < now \<Longrightarrow> os_starting s = Some (i, m, refs) \<Longrightarrow>
     startNewlyEnabledServices w i m refs = (oc, calls) \<Longrightarrow>
     ota_step date cron s (Services oc calls)
       (s\<lparr>os_table := snd (recordCommittedOutcome i oc now (os_table s)), os_starting := None,
          os_log := os_log s @ calls, os_now := now\<rparr>)"
| settings:
    "saveUpdateAgentSettings cron (os_flag s) patch = Return (new, flag) \<Longrightarrow>
     ota_step date cron s (Settings patch) (s\<lparr>os_flag := flag\<rparr>)"
| appliance:
    "ota_step date cron s (Setup ready) (s\<lparr>os_ready := ready\<rparr>)"

inductive ota_run :: "(string \<Rightarrow> int option) \<Rightarrow> (string \<Rightarrow> bool) \<Rightarrow> ota_state \<Rightarrow> ota_event list \<Rightarrow> ota_state \<Rightarrow> bool"
  for date cron where
  run_nil: "ota_run date cron s [] s"
| run_snoc: "ota_run date cron s evs s' \<Longrightarrow> ota_step date cron s' ev s'' \<Longrightarrow> ota_run date cron s (evs @ [ev]) s''"

inductive_cases ota_stepE: "ota_step date cron s ev s'"

section \<open>The audit trail\<close>

lemma evolves_ota_step: "ota_step date cron s ev s' \<Longrightarrow> evolves (os_table s) (os_table s')"
proof (induction rule: ota_step.induct)
  case (poll s now i env r t)
  then show ?case using tw_poll.evolves_run [of "os_table s" env "os_channel cron s" i now] by simp
next
  case (record_release s now i k n t)
  then show ?case using evolves_recordRelease [of "os_table s" i "os_polls s ! k" now] by simp
next
  case (window s now c r t)
  then show ?case
    using tw_window.evolves_run [of "os_table s" "us_autoApply (getUpdateAgentSettings cron (os_flag s))" c now] by simp
next
  case (apply_now s now c fails r t)
  then show ?case using tw_now.evolves_run [of "os_table s" "os_inFlight s" fails c now] by simp
next
  case (step s now k w run t calls)
  then show ?case
    using tw_run.evolves_run [of "os_table s" date w "os_channel cron s" "os_ready s" now "os_runs s ! k"] by simp
next
  case (finish s now k r t released)
  then show ?case using tw_release.evolves_run by simp
next
  case (skip s now picked r t)
  then show ?case using tw_skip.evolves_run [of "os_table s" picked now] by simp
next
  case (boot s now c w r t calls)
  then show ?case using tw_resume.evolves_run [of "os_table s" date w c now] by simp
next
  case (services s now i m refs w oc calls)
  then show ?case using tw_outcome.evolves_run by simp
qed simp_all

lemma evolves_ota_run: "ota_run date cron s evs s' \<Longrightarrow> evolves (os_table s) (os_table s')"
  by (induction rule: ota_run.induct) (auto intro: evolves_trans evolves_ota_step)

section \<open>What other actors leave alone\<close>

text \<open>
  A claimed row keeps its claim, and its status once an apply owns it (verifying or applying),
  under every operation except those on the rows named in \<open>X\<close>.
\<close>

definition keeps_claim :: "device_update \<Rightarrow> device_update \<Rightarrow> bool" where
  "keeps_claim r r' \<longleftrightarrow> du_claimed r' \<and> du_claimId r' = du_claimId r \<and> same_release r r'
     \<and> (du_status r \<in> {Verifying, Applying} \<longrightarrow> du_status r' = du_status r)"

definition spares :: "string set \<Rightarrow> table \<Rightarrow> table \<Rightarrow> bool" where
  "spares X t t' \<longleftrightarrow>
     (\<forall>i r. i \<notin> X \<longrightarrow> findRow i t = Some r \<longrightarrow> du_claimed r \<longrightarrow> (\<exists>r'. findRow i t' = Some r' \<and> keeps_claim r r'))"

lemma keeps_claim_refl [simp]: "keeps_claim r r \<longleftrightarrow> du_claimed r"
  by (auto simp: keeps_claim_def same_release_def)

lemma keeps_claim_trans: "keeps_claim a b \<Longrightarrow> keeps_claim b c \<Longrightarrow> keeps_claim a c"
  by (auto simp: keeps_claim_def same_release_def)

lemma spares_refl [simp]: "spares X t t"
  by (auto simp: spares_def)

lemma spares_trans:
  assumes "spares X a b" "spares X b c"
  shows "spares X a c"
  unfolding spares_def
proof (intro allI impI)
  fix i r assume i: "i \<notin> X" and r: "findRow i a = Some r" "du_claimed r"
  then obtain r' where r': "findRow i b = Some r'" "keeps_claim r r'"
    using assms(1) by (auto simp: spares_def)
  then have "du_claimed r'" by (simp add: keeps_claim_def)
  with r'(1) i obtain r'' where "findRow i c = Some r''" "keeps_claim r' r''"
    using assms(2) by (auto simp: spares_def)
  with r'(2) show "\<exists>r'. findRow i c = Some r' \<and> keeps_claim r r'" by (auto intro: keeps_claim_trans)
qed

lemma spares_mono: "spares X t t' \<Longrightarrow> X \<subseteq> Y \<Longrightarrow> spares Y t t'"
  by (auto simp: spares_def)

lemma findRow_id: "findRow i t = Some r \<Longrightarrow> du_id r = i \<and> r \<in> set t"
  by (metis (mono_tags, lifting) find_Some_iff findRow_def nth_mem)

lemma findRow_append: "findRow i (t @ u) = (case findRow i t of None \<Rightarrow> findRow i u | Some r \<Rightarrow> Some r)"
  by (induction t) (auto simp: findRow_def)

lemma findRow_map:
  assumes "\<And>r. du_id (g r) = du_id r"
  shows "findRow i (map g t) = map_option g (findRow i t)"
  by (induction t) (auto simp: findRow_def assms)

lemma findRow_unique: "distinct (map du_id t) \<Longrightarrow> r \<in> set t \<Longrightarrow> findRow (du_id r) t = Some r"
  by (induction t) (auto simp: findRow_def)

lemma findRow_updateMany:
  assumes "\<And>r. du_id (f r) = du_id r"
  shows "findRow i (snd (updateMany p f now t)) = map_option (\<lambda>r. if p r then (f r)\<lparr>du_updatedAt := now\<rparr> else r) (findRow i t)"
  by (simp add: findRow_map assms)

lemma spares_updateMany:
  assumes "\<And>r. du_id (f r) = du_id r"
    and "\<And>r. p r \<Longrightarrow> du_claimed r \<Longrightarrow> du_id r \<notin> X \<Longrightarrow> keeps_claim r (f r)"
  shows "spares X t (snd (updateMany p f now t))"
proof -
  let ?g = "\<lambda>r. if p r then (f r)\<lparr>du_updatedAt := now\<rparr> else r"
  have kept: "keeps_claim r (?g r)" if "du_claimed r" "du_id r \<notin> X" for r
    using assms(2) [of r] that by (auto simp: keeps_claim_def same_release_def)
  show ?thesis
    unfolding spares_def findRow_updateMany [of f, OF assms(1)]
  proof (intro allI impI)
    fix i r assume "i \<notin> X" and r: "findRow i t = Some r" "du_claimed r"
    with kept [of r] findRow_id [OF r(1)] show "\<exists>r'. map_option ?g (findRow i t) = Some r' \<and> keeps_claim r r'"
      by simp
  qed
qed

lemma spares_append [simp]: "spares X t (t @ u)"
  by (auto simp: spares_def findRow_append)

lemma spares_transition: "spares {i} t (snd (transitionDeviceUpdate seen i to reason oc now t))"
proof (cases seen)
  case (Some row)
  have "spares {i} t (snd (updateMany (\<lambda>r. du_id r = i \<and> du_status r = du_status row) (status_change to reason oc) now t))"
    by (rule spares_updateMany) (auto simp: status_change_def)
  with Some show ?thesis
    by (auto simp: transitionDeviceUpdate_def Let_def case_prod_unfold split: sum.splits)
qed (simp add: transitionDeviceUpdate_def)

lemma spares_pending: "spares {} t (snd (supersedePendingUpdates now t))"
  unfolding supersedePendingUpdates_def by (rule spares_updateMany) (auto simp: keeps_claim_def same_release_def)

lemma spares_parked: "spares {} t (snd (supersedeUnclaimedVerifyingUpdates now t))"
  unfolding supersedeUnclaimedVerifyingUpdates_def by (rule spares_updateMany) (auto simp: keeps_claim_def)

lemma spares_record: "spares {} t (snd (recordRelease i nr now t))"
  using spares_trans [OF spares_trans [OF spares_pending spares_parked] spares_append]
  by (simp add: recordRelease_def case_prod_unfold Let_def)

lemma spares_poll: "spares {} t (snd (runCheck env channel i now t))"
  by (simp add: runCheck_def case_prod_unfold Let_def spares_record split: sum.splits)

lemma spares_claim: "spares {} t (snd (claimDeviceUpdateForApply i c now t))"
  unfolding claimDeviceUpdateForApply_def case_prod_unfold Let_def snd_conv
  by (rule spares_updateMany) (auto simp: claimable_def)

lemma spares_release: "spares {i} t (releaseDeviceUpdateClaim i c now t)"
  unfolding releaseDeviceUpdateClaim_def by (rule spares_updateMany) (auto simp: clear_apply_claim_def)

lemma spares_outcome: "spares {} t (snd (recordCommittedOutcome i oc now t))"
  unfolding recordCommittedOutcome_def case_prod_unfold Let_def snd_conv
  by (rule spares_updateMany) (auto simp: keeps_claim_def same_release_def)

lemma spares_skip: "spares {} t (snd (skipUpdate picked now t))"
proof (cases picked)
  case (Some row)
  have "spares {} t (snd (updateMany (\<lambda>r. du_id r = du_id row \<and> du_status r = Pending)
        (\<lambda>r. r\<lparr>du_status := Superseded, du_failureReason := Some SKIPPED_BY_OPERATOR\<rparr>) now t))"
    by (rule spares_updateMany) (auto simp: keeps_claim_def same_release_def)
  with Some show ?thesis by (simp add: skipUpdate_def case_prod_unfold Let_def)
qed (simp add: skipUpdate_def)

lemma spares_run:
  "spares {du_id (ar_row run)} t (fst (snd (run_step date w channel ready now run t)))"
  by (auto simp: run_step_defs case_prod_unfold Let_def setStatus_def spares_transition
      split: run_phase.splits option.splits sum.splits prepared.splits swapped.splits)

text \<open>A fresh claim id is on no row, so releasing it changes nothing else.\<close>

lemma spares_release_other:
  assumes "\<And>r. r \<in> set t \<Longrightarrow> du_claimId r = Some c \<Longrightarrow> \<not> du_claimed r"
  shows "releaseDeviceUpdateClaim i c now t = t"
  using assms by (auto simp: releaseDeviceUpdateClaim_def intro!: map_idI)

section \<open>Rewrites that leave the installed release alone\<close>

text \<open>
  A tame rewrite keeps the rows in place, stamps what it changes with the time of the write, brings
  in no claim id outside \<open>C\<close>, and neither touches nor creates a committed row.
\<close>

definition tame_row :: "int \<Rightarrow> string set \<Rightarrow> device_update \<Rightarrow> device_update \<Rightarrow> bool" where
  "tame_row now C r r' \<longleftrightarrow> du_id r' = du_id r \<and> (du_claimId r' = None \<or> du_claimId r' = du_claimId r \<or> du_claimId r' \<in> Some ` C)
     \<and> (du_updatedAt r' = du_updatedAt r \<or> du_updatedAt r' = now)
     \<and> (r' = r \<or> du_status r \<noteq> Committed \<and> du_status r' \<noteq> Committed)"

definition tame :: "int \<Rightarrow> string set \<Rightarrow> table \<Rightarrow> table \<Rightarrow> bool" where
  "tame now C t t' \<longleftrightarrow> list_all2 (tame_row now C) t t'"

lemma tame_row_refl [simp]: "tame_row now C r r"
  by (simp add: tame_row_def)

lemma tame_row_trans: "tame_row now C a b \<Longrightarrow> tame_row now C b c \<Longrightarrow> tame_row now C a c"
  by (auto simp: tame_row_def)

lemma tame_refl [simp]: "tame now C t t"
  by (simp add: tame_def list_all2_refl)

lemma tame_trans: "tame now C a b \<Longrightarrow> tame now C b c \<Longrightarrow> tame now C a c"
  unfolding tame_def by (rule list_all2_trans [of "tame_row now C" "tame_row now C" "tame_row now C"]) (auto intro: tame_row_trans)

lemma tame_updateMany:
  assumes "\<And>r. r \<in> set t \<Longrightarrow> p r \<Longrightarrow> tame_row now C r ((f r)\<lparr>du_updatedAt := now\<rparr>)"
  shows "tame now C t (snd (updateMany p f now t))"
  unfolding tame_def snd_updateMany list_all2_map2 using assms by (intro list_all2_same [THEN iffD2]) auto

definition committed_rows :: "table \<Rightarrow> table" where
  "committed_rows t = filter (\<lambda>r. du_status r = Committed) t"

definition claimIds :: "table \<Rightarrow> string set" where
  "claimIds t = {c. \<exists>r\<in>set t. du_claimId r = Some c}"

lemma tame_ids: "tame now C t t' \<Longrightarrow> map du_id t' = map du_id t"
  unfolding tame_def by (induction rule: list_all2_induct) (auto simp: tame_row_def)

lemma tame_committed: "tame now C t t' \<Longrightarrow> committed_rows t' = committed_rows t"
  unfolding tame_def by (induction rule: list_all2_induct) (auto simp: tame_row_def committed_rows_def)

lemma tame_claimIds: "tame now C t t' \<Longrightarrow> claimIds t' \<subseteq> C \<union> claimIds t"
  unfolding tame_def by (induction rule: list_all2_induct) (fastforce simp: tame_row_def claimIds_def)+

lemma tame_stamps: "tame now C t t' \<Longrightarrow> \<forall>r\<in>set t. du_updatedAt r \<le> now \<Longrightarrow> \<forall>r\<in>set t'. du_updatedAt r \<le> now"
  unfolding tame_def by (induction rule: list_all2_induct) (auto simp: tame_row_def)

lemma installedRelease_committed: "installedRelease t = newest du_updatedAt (committed_rows t)"
  by (simp add: installedRelease_def findNewest_def committed_rows_def)

lemma tame_transition:
  assumes "to \<noteq> Committed"
  shows "tame now C t (snd (transitionDeviceUpdate seen i to reason oc now t))"
proof (cases seen)
  case (Some row)
  show ?thesis
  proof (cases "to \<in> set (ALLOWED_TRANSITIONS (du_status row))")
    case True
    then have "du_status row \<noteq> Committed" by auto
    with assms have "tame now C t (snd (updateMany (\<lambda>r. du_id r = i \<and> du_status r = du_status row) (status_change to reason oc) now t))"
      by (intro tame_updateMany) (auto simp: tame_row_def status_change_def)
    with Some True show ?thesis
      by (simp add: transitionDeviceUpdate_def assertTransitionAllowed_def throw_if_def Let_def case_prod_unfold)
  qed (simp add: transitionDeviceUpdate_def assertTransitionAllowed_def throw_if_def Some)
qed (simp add: transitionDeviceUpdate_def)

lemma tame_setStatus: "to \<noteq> Committed \<Longrightarrow> tame now C t (snd (setStatus w i to reason oc now t))"
  by (simp add: setStatus_def tame_transition)

lemma tame_pending: "tame now C t (snd (supersedePendingUpdates now t))"
  unfolding supersedePendingUpdates_def by (rule tame_updateMany) (auto simp: tame_row_def)

lemma tame_parked: "tame now C t (snd (supersedeUnclaimedVerifyingUpdates now t))"
  unfolding supersedeUnclaimedVerifyingUpdates_def by (rule tame_updateMany) (auto simp: tame_row_def)

lemma tame_claim: "tame now {c} t (snd (claimDeviceUpdateForApply i c now t))"
  unfolding claimDeviceUpdateForApply_def case_prod_unfold Let_def snd_conv
  by (rule tame_updateMany) (auto simp: tame_row_def claimable_def)

definition committed_unclaimed :: "table \<Rightarrow> bool" where
  "committed_unclaimed t \<longleftrightarrow> (\<forall>r\<in>set (committed_rows t). \<not> du_claimed r)"

lemma tame_release: "committed_unclaimed t \<Longrightarrow> tame now C t (releaseDeviceUpdateClaim i c now t)"
  unfolding releaseDeviceUpdateClaim_def
  by (rule tame_updateMany) (auto simp: tame_row_def clear_apply_claim_def committed_unclaimed_def committed_rows_def)

lemma tame_clear: "committed_unclaimed t \<Longrightarrow> tame now C t (clearStaleClaims now t)"
  unfolding clearStaleClaims_def
  by (rule tame_updateMany) (auto simp: tame_row_def clear_apply_claim_def committed_unclaimed_def committed_rows_def)

lemma tame_unclaimed: "tame now C t t' \<Longrightarrow> committed_unclaimed t \<Longrightarrow> committed_unclaimed t'"
  by (simp add: committed_unclaimed_def tame_committed)

lemma tame_skip: "tame now C t (snd (skipUpdate picked now t))"
proof (cases picked)
  case (Some row)
  have "tame now C t (snd (updateMany (\<lambda>r. du_id r = du_id row \<and> du_status r = Pending)
        (\<lambda>r. r\<lparr>du_status := Superseded, du_failureReason := Some SKIPPED_BY_OPERATOR\<rparr>) now t))"
    by (rule tame_updateMany) (auto simp: tame_row_def)
  with Some show ?thesis by (simp add: skipUpdate_def case_prod_unfold Let_def)
qed (simp add: skipUpdate_def)

lemma tame_run: "tame now C t (fst (snd (run_step date w channel ready now run t)))"
  by (auto simp: run_step_defs case_prod_unfold Let_def tame_setStatus
      split: run_phase.splits option.splits sum.splits prepared.splits swapped.splits)

lemma tame_apply: "tame now {c} t (snd (applyPendingUpdate c now t))"
  by (auto simp: applyPendingUpdate_def case_prod_unfold Let_def tame_claim split: option.splits)

lemma tame_window: "tame now {c} t (snd (applyWindowTick auto c now t))"
  by (auto simp: applyWindowTick_def case_prod_unfold Let_def tame_apply split: option.splits)

lemma tame_now: "committed_unclaimed t \<Longrightarrow> tame now {c} t (snd (applyNow inFlight fails c now t))"
  using tame_claim tame_release [OF tame_unclaimed [OF tame_claim]]
  by (fastforce simp: applyNow_def case_prod_unfold Let_def intro: tame_trans split: option.splits)

text \<open>The poll is a tame rewrite followed by the new row.\<close>

lemma record_split:
  obtains u where "snd (recordRelease i nr now t) = u @ [pending_row i nr now]" "tame now C t u" "spares {} t u"
proof
  let ?u = "snd (supersedeUnclaimedVerifyingUpdates now (snd (supersedePendingUpdates now t)))"
  show "snd (recordRelease i nr now t) = ?u @ [pending_row i nr now]"
    by (simp add: recordRelease_def case_prod_unfold Let_def)
  show "tame now C t ?u" using tame_pending tame_parked by (rule tame_trans)
  show "spares {} t ?u" using spares_pending spares_parked by (rule spares_trans)
qed

section \<open>The invariant of the runs\<close>

fun phase_ok :: "run_phase \<Rightarrow> device_update \<Rightarrow> device_update \<Rightarrow> bool" where
  "phase_ok At_lookup slice r \<longleftrightarrow> True"
| "phase_ok At_gate slice r \<longleftrightarrow> (du_status slice = Verifying \<longrightarrow> du_status r = Verifying)"
| "phase_ok At_start slice r \<longleftrightarrow> (du_status slice = Verifying \<longrightarrow> du_status r = Verifying)"
| "phase_ok At_prepare slice r \<longleftrightarrow> du_status r = Verifying"
| "phase_ok (At_swap sidecars) slice r \<longleftrightarrow> du_status r = Applying"
| "phase_ok (Finished res) slice r \<longleftrightarrow> True"

text \<open>A run holds the claim on its row, and the row has the status its phase needs.\<close>

definition holds :: "table \<Rightarrow> apply_run \<Rightarrow> device_update \<Rightarrow> bool" where
  "holds t run r \<longleftrightarrow> findRow (du_id (ar_row run)) t = Some r \<and> du_claimed r \<and> du_claimId r = Some (ar_claimId run)
     \<and> same_release (ar_row run) r \<and> phase_ok (ar_phase run) (ar_row run) r"

definition run_ok :: "table \<Rightarrow> apply_run \<Rightarrow> bool" where
  "run_ok t run \<longleftrightarrow> (\<exists>r. holds t run r)"

fun past_gate :: "run_phase \<Rightarrow> bool" where
  "past_gate At_lookup = False"
| "past_gate At_gate = False"
| "past_gate At_start = True"
| "past_gate At_prepare = True"
| "past_gate (At_swap sidecars) = True"
| "past_gate (Finished res) = False"

definition above_floor :: "table \<Rightarrow> device_update \<Rightarrow> bool" where
  "above_floor t r \<longleftrightarrow> (case installedRelease t of None \<Rightarrow> True | Some inst \<Rightarrow> du_builtAt inst < du_builtAt r)"

text \<open>The row whose new services are being started is the installed one.\<close>

definition starting_ok :: "table \<Rightarrow> (string \<times> 'a) option \<Rightarrow> bool" where
  "starting_ok t st \<longleftrightarrow> (\<forall>i x. st = Some (i, x) \<longrightarrow> (\<exists>r. installedRelease t = Some r \<and> du_id r = i))"

definition ota_inv :: "ota_state \<Rightarrow> bool" where
  "ota_inv s \<longleftrightarrow> distinct (map du_id (os_table s))
     \<and> (\<forall>run\<in>set (os_runs s). run_ok (os_table s) run)
     \<and> distinct (map ar_claimId (os_runs s))
     \<and> set (map ar_claimId (os_runs s)) \<union> claimIds (os_table s) \<subseteq> set (os_claims s)
     \<and> committed_unclaimed (os_table s)
     \<and> (\<forall>r\<in>set (os_table s). du_updatedAt r \<le> os_now s)
     \<and> starting_ok (os_table s) (os_starting s)
     \<and> (\<forall>run\<in>set (os_runs s). past_gate (ar_phase run) \<longrightarrow> above_floor (os_table s) (ar_row run))"

lemma floor_cong:
  assumes "installedRelease t' = installedRelease t"
  shows "starting_ok t' st = starting_ok t st" "above_floor t' r = above_floor t r"
  using assms by (simp_all add: starting_ok_def above_floor_def)

lemma ota_inv_init: "ota_inv (ota_init flag ready)"
  by (simp add: ota_inv_def starting_ok_def ota_init_def claimIds_def committed_unclaimed_def committed_rows_def)

lemma phase_ok_keeps: "phase_ok p slice r \<Longrightarrow> keeps_claim r r' \<Longrightarrow> phase_ok p slice r'"
  by (cases p) (auto simp: keeps_claim_def)

lemma run_ok_spares:
  assumes "run_ok t run" "spares X t t'" "du_id (ar_row run) \<notin> X"
  shows "run_ok t' run"
proof -
  obtain r where r: "holds t run r" using assms(1) by (auto simp: run_ok_def)
  then obtain r' where r': "findRow (du_id (ar_row run)) t' = Some r'" "keeps_claim r r'"
    using assms(2,3) by (auto simp: spares_def holds_def)
  with r have "holds t' run r'"
    using phase_ok_keeps by (auto simp: holds_def keeps_claim_def same_release_def)
  then show ?thesis by (auto simp: run_ok_def)
qed

text \<open>Two runs with claims on one row are the same run.\<close>

lemma runs_exclusive:
  assumes "ota_inv s" "j < length (os_runs s)" "k < length (os_runs s)" "j \<noteq> k"
  shows "du_id (ar_row (os_runs s ! j)) \<noteq> du_id (ar_row (os_runs s ! k))"
proof
  assume same: "du_id (ar_row (os_runs s ! j)) = du_id (ar_row (os_runs s ! k))"
  have "run_ok (os_table s) (os_runs s ! j)" "run_ok (os_table s) (os_runs s ! k)"
    using assms(1-3) by (auto simp: ota_inv_def)
  with same have "ar_claimId (os_runs s ! j) = ar_claimId (os_runs s ! k)"
    by (auto simp: run_ok_def holds_def)
  moreover have "distinct (map ar_claimId (os_runs s))" using assms(1) by (simp add: ota_inv_def)
  ultimately show False using assms(2-4) by (auto simp: distinct_conv_nth)
qed

text \<open>An event that rewrites the table tamely and spares the claims keeps the invariant for the runs it leaves.\<close>

lemma inv_tame:
  assumes inv: "ota_inv s" and tame: "tame now C (os_table s) t" and now: "os_now s < now"
  shows "distinct (map du_id t)" "committed_unclaimed t" "\<forall>r\<in>set t. du_updatedAt r \<le> now"
    "installedRelease t = installedRelease (os_table s)" "claimIds t \<subseteq> C \<union> set (os_claims s)"
proof -
  show "distinct (map du_id t)" using inv tame_ids [OF tame] by (simp add: ota_inv_def)
  show "committed_unclaimed t" using inv tame_unclaimed [OF tame] by (simp add: ota_inv_def)
  have "\<forall>r\<in>set (os_table s). du_updatedAt r \<le> now" using inv now by (force simp: ota_inv_def)
  then show "\<forall>r\<in>set t. du_updatedAt r \<le> now" using tame_stamps [OF tame] by blast
  show "installedRelease t = installedRelease (os_table s)"
    by (simp add: installedRelease_committed tame_committed [OF tame])
  show "claimIds t \<subseteq> C \<union> set (os_claims s)" using inv tame_claimIds [OF tame] by (auto simp: ota_inv_def)
qed

lemma inv_row_appended:
  assumes inv: "ota_inv s" and i: "i \<notin> du_id ` set (os_table s)" and now: "os_now s < now"
    and t: "snd (recordRelease i nr now (os_table s)) = t" and polls: "s' = s\<lparr>os_table := t, os_polls := ps, os_now := now\<rparr>"
  shows "ota_inv s'"
proof -
  obtain u where u: "t = u @ [pending_row i nr now]" and tame: "tame now {} (os_table s) u" and sp: "spares {} (os_table s) u"
    using t record_split [of i nr now "os_table s" "{}"] by metis
  note k = inv_tame [OF inv tame now]
  have inst: "installedRelease t = installedRelease (os_table s)"
    using k(4) by (simp add: u installedRelease_committed committed_rows_def pending_row_def)
  have "spares {} (os_table s) t" unfolding u using sp spares_append by (rule spares_trans)
  then have runs: "\<forall>run\<in>set (os_runs s). run_ok t run"
    using inv by (auto simp: ota_inv_def intro: run_ok_spares)
  have "i \<notin> du_id ` set u" using i tame_ids [OF tame] by (metis list.set_map)
  then have ids: "distinct (map du_id t)" using k(1) by (simp add: u pending_row_def)
  have rest: "committed_unclaimed t" "\<forall>r\<in>set t. du_updatedAt r \<le> now" "claimIds t \<subseteq> set (os_claims s)"
    using k(2,3,5) by (auto simp: u committed_unclaimed_def committed_rows_def pending_row_def claimIds_def)
  with inv runs ids inst show ?thesis
    unfolding ota_inv_def polls by (simp add: floor_cong [OF inst])
qed

lemma inv_poll:
  assumes "ota_inv s" "os_now s < now" "i \<notin> du_id ` set (os_table s)" "runCheck env ch i now (os_table s) = (r, t)"
  shows "ota_inv (s\<lparr>os_table := t, os_now := now\<rparr>)"
proof (cases "decideUpdate env ch (os_table s)")
  case (Inl e)
  with assms have "t = os_table s" by (simp add: runCheck_def)
  moreover have "\<forall>r\<in>set (os_table s). du_updatedAt r \<le> now" using assms(1,2) by (force simp: ota_inv_def)
  ultimately show ?thesis using assms(1) by (simp add: ota_inv_def)
next
  case (Inr nr)
  with assms have t: "snd (recordRelease i nr now (os_table s)) = t"
    by (simp add: runCheck_def case_prod_unfold Let_def)
  show ?thesis
    by (rule inv_row_appended [OF assms(1,3,2) t, where ps = "os_polls s"]) simp
qed

subsection \<open>Starting runs\<close>

lemma newest_in: "newest key xs = Some x \<Longrightarrow> x \<in> set xs"
proof (induction xs)
  case (Cons y ys)
  then show ?case by (cases "newest key ys") (auto split: if_splits)
qed simp

lemma newestApplicable_row: "newestApplicable t = Some row \<Longrightarrow> row \<in> set t \<and> du_status row \<in> {Pending, Verifying}"
  by (auto simp: newestApplicable_def findNewest_def dest!: newest_in)

lemma findRow_claim:
  "findRow i (snd (claimDeviceUpdateForApply j c now t)) =
     map_option (\<lambda>r. if du_id r = j \<and> claimable r
        then r\<lparr>du_claimed := True, du_claimId := Some c, du_claimedAt := Some now, du_updatedAt := now\<rparr> else r) (findRow i t)"
  unfolding claimDeviceUpdateForApply_def case_prod_unfold Let_def snd_conv
  by (subst findRow_updateMany) (auto intro!: arg_cong2 [where f = map_option])

lemma claim_granted:
  assumes "distinct (map du_id t)" "row \<in> set t" "claimDeviceUpdateForApply (du_id row) c now t = (True, t')"
  shows "claimable row"
proof -
  have "length (filter (\<lambda>r. du_id r = du_id row \<and> claimable r) t) = 1"
    using assms(3) by (simp add: claimDeviceUpdateForApply_def updateMany_def)
  then have "filter (\<lambda>r. du_id r = du_id row \<and> claimable r) t \<noteq> []" by auto
  then obtain r where "r \<in> set t" "du_id r = du_id row" "claimable r" by (auto simp: filter_empty_conv)
  with assms(1,2) show ?thesis by (auto simp: distinct_map inj_on_def)
qed

lemma claimed_run_ok:
  assumes ids: "distinct (map du_id t)" and row: "row \<in> set t" and c: "claimDeviceUpdateForApply (du_id row) c now t = (True, t')"
    and run: "ar_row run = row" "ar_claimId run = c" "ar_phase run \<in> {At_gate, At_lookup}"
  shows "run_ok t' run"
proof -
  have "findRow (du_id row) t = Some row" using findRow_unique [OF ids row] .
  with claim_granted [OF ids row c] findRow_claim [of "du_id row" "du_id row" c now t] c
  have "findRow (du_id row) t' = Some (row\<lparr>du_claimed := True, du_claimId := Some c, du_claimedAt := Some now, du_updatedAt := now\<rparr>)"
    by simp
  with run show ?thesis
    by (auto simp: run_ok_def holds_def same_release_def)
qed

lemma inv_add_runs:
  assumes inv: "ota_inv s" and tame: "tame now {c} (os_table s) t" and sp: "spares {} (os_table s) t" and now: "os_now s < now"
    and c: "c \<notin> set (os_claims s)" and new: "new = [] \<or> (\<exists>run. new = [run] \<and> run_ok t run \<and> ar_claimId run = c \<and> \<not> past_gate (ar_phase run))"
  shows "ota_inv (s\<lparr>os_table := t, os_runs := os_runs s @ new, os_inFlight := b, os_claims := c # os_claims s, os_now := now\<rparr>)"
proof -
  note k = inv_tame [OF inv tame now]
  have "c \<notin> ar_claimId ` set (os_runs s)" using inv c by (auto simp: ota_inv_def)
  then have d: "distinct (map ar_claimId (os_runs s @ new))" "ar_claimId ` set new \<subseteq> {c}"
    using inv new by (auto simp: ota_inv_def) (metis image_eqI)
  have ok: "\<forall>run\<in>set (os_runs s @ new). run_ok t run"
    using inv new sp by (auto simp: ota_inv_def intro: run_ok_spares)
  have fl: "\<forall>run\<in>set (os_runs s @ new). past_gate (ar_phase run) \<longrightarrow> above_floor t (ar_row run)"
    using inv new by (auto simp: ota_inv_def floor_cong [OF k(4)])
  from inv k(1-3,5) d ok fl show ?thesis
    unfolding ota_inv_def by (auto simp: floor_cong [OF k(4)])
qed

lemma apply_starts:
  assumes "distinct (map du_id t)" "applyPendingUpdate c now t = (r, t')"
  shows "spares {} t t'" and "started_runs r = [] \<or> (\<exists>run. started_runs r = [run] \<and> run_ok t' run \<and> ar_claimId run = c \<and> \<not> past_gate (ar_phase run))"
proof -
  show "spares {} t t'"
    using assms(2) spares_claim [of t _ c now]
    by (auto simp: applyPendingUpdate_def case_prod_unfold Let_def split: option.splits if_splits)
  show "started_runs r = [] \<or> (\<exists>run. started_runs r = [run] \<and> run_ok t' run \<and> ar_claimId run = c \<and> \<not> past_gate (ar_phase run))"
  proof (cases "newestApplicable t")
    case (Some row)
    obtain ok u where u: "claimDeviceUpdateForApply (du_id row) c now t = (ok, u)" by fastforce
    with Some assms claimed_run_ok [OF assms(1), of row c now u
        "\<lparr>ar_row = row, ar_claimId = c, ar_phase = At_gate, ar_applyNow = False\<rparr>"] newestApplicable_row [OF Some]
    show ?thesis by (cases ok) (auto simp: applyPendingUpdate_def)
  qed (use assms in \<open>auto simp: applyPendingUpdate_def\<close>)
qed

lemma inv_window:
  assumes inv: "ota_inv s" and "os_now s < now" "c \<notin> set (os_claims s)" "applyWindowTick auto c now (os_table s) = (r, t)"
  shows "ota_inv (s\<lparr>os_table := t, os_runs := os_runs s @ (case r of None \<Rightarrow> [] | Some x \<Rightarrow> started_runs x),
      os_claims := c # os_claims s, os_now := now\<rparr>)"
proof -
  let ?new = "case r of None \<Rightarrow> [] | Some x \<Rightarrow> started_runs x"
  have ids: "distinct (map du_id (os_table s))" using inv by (simp add: ota_inv_def)
  have "(r = None \<or> r = Some Nothing_pending) \<and> t = os_table s \<or> (\<exists>x. r = Some x \<and> applyPendingUpdate c now (os_table s) = (x, t))"
    using assms(4) by (auto simp: applyWindowTick_def case_prod_unfold Let_def split: option.splits if_splits)
  then have *: "spares {} (os_table s) t \<and> (?new = [] \<or> (\<exists>run. ?new = [run] \<and> run_ok t run \<and> ar_claimId run = c \<and> \<not> past_gate (ar_phase run)))"
    using apply_starts [OF ids, of c now _ t] by fastforce
  have tm: "tame now {c} (os_table s) t" using tame_window [of now c "os_table s" auto] assms(4) by simp
  from * inv_add_runs [OF inv tm _ assms(2,3), of ?new "os_inFlight s"] show ?thesis by simp
qed

lemma claim_release_fresh:
  assumes "c \<notin> claimIds t"
  shows "spares {} t (releaseDeviceUpdateClaim i c now (snd (claimDeviceUpdateForApply i c now t)))"
  unfolding spares_def
proof (intro allI impI)
  fix j r assume r: "findRow j t = Some r" "du_claimed r"
  then have "findRow j (snd (claimDeviceUpdateForApply i c now t)) = Some r"
    by (simp add: findRow_claim claimable_def)
  moreover have "du_claimId r \<noteq> Some c" using assms findRow_id [OF r(1)] by (auto simp: claimIds_def)
  ultimately have "findRow j (releaseDeviceUpdateClaim i c now (snd (claimDeviceUpdateForApply i c now t))) = Some r"
    unfolding releaseDeviceUpdateClaim_def by (subst findRow_updateMany) (auto simp: clear_apply_claim_def)
  with r(2) show "\<exists>r'. findRow j (releaseDeviceUpdateClaim i c now (snd (claimDeviceUpdateForApply i c now t))) = Some r' \<and> keeps_claim r r'"
    by simp
qed

lemma inv_apply_now:
  assumes inv: "ota_inv s" and "os_now s < now" "c \<notin> set (os_claims s)" "applyNow (os_inFlight s) fails c now (os_table s) = (r, t)"
  shows "ota_inv (s\<lparr>os_table := t, os_runs := os_runs s @ (case r of Apply_started run \<Rightarrow> [run] | _ \<Rightarrow> []),
      os_inFlight := b, os_claims := c # os_claims s, os_now := now\<rparr>)"
proof (rule inv_add_runs [OF inv _ _ assms(2,3)])
  have ids: "distinct (map du_id (os_table s))" and cu: "committed_unclaimed (os_table s)" and fresh: "c \<notin> claimIds (os_table s)"
    using inv assms(3) by (auto simp: ota_inv_def)
  show "tame now {c} (os_table s) t" using tame_now [OF cu, of now c "os_inFlight s" fails] assms(4) by simp
  show "spares {} (os_table s) t"
    using assms(4) spares_claim [of "os_table s" _ c now] claim_release_fresh [OF fresh]
    by (auto simp: applyNow_def case_prod_unfold Let_def split: option.splits if_splits)
  show "(case r of Apply_started run \<Rightarrow> [run] | _ \<Rightarrow> []) = [] \<or>
      (\<exists>run. (case r of Apply_started run \<Rightarrow> [run] | _ \<Rightarrow> []) = [run] \<and> run_ok t run \<and> ar_claimId run = c \<and> \<not> past_gate (ar_phase run))"
  proof (cases "newestApplicable (os_table s)")
    case (Some row)
    obtain ok u where u: "claimDeviceUpdateForApply (du_id row) c now (os_table s) = (ok, u)" by fastforce
    with Some assms(4) claimed_run_ok [OF ids, of row c now u
        "\<lparr>ar_row = row, ar_claimId = c, ar_phase = At_lookup, ar_applyNow = True\<rparr>"] newestApplicable_row [OF Some]
    show ?thesis by (cases ok) (auto simp: applyNow_def split: if_splits)
  qed (use assms(4) in \<open>auto simp: applyNow_def split: if_splits\<close>)
qed

subsection \<open>Steps of a run\<close>

definition same_claim :: "device_update \<Rightarrow> device_update \<Rightarrow> bool" where
  "same_claim r r' \<longleftrightarrow> du_claimed r' = du_claimed r \<and> du_claimId r' = du_claimId r \<and> same_release r r'"

lemma same_claim_refl [simp]: "same_claim r r"
  by (simp add: same_claim_def same_release_def)

lemma setStatus_row:
  assumes ids: "distinct (map du_id t)" and r: "findRow i t = Some r"
  obtains r' where "findRow i (snd (setStatus w i to rs oc now t)) = Some r'" "same_claim r r'"
    "fst (setStatus w i to rs oc now t) = Return () \<Longrightarrow> du_status r' = to"
proof (cases "aw_seen w (findRow i t)")
  case None
  with r that [of r] show ?thesis by (simp add: setStatus_def transitionDeviceUpdate_def)
next
  case (Some row)
  let ?p = "\<lambda>x. du_id x = i \<and> du_status x = du_status row"
  show ?thesis
  proof (cases "to \<in> set (ALLOWED_TRANSITIONS (du_status row))")
    case False
    with Some r that [of r] show ?thesis
      by (simp add: setStatus_def transitionDeviceUpdate_def assertTransitionAllowed_def throw_if_def)
  next
    case True
    let ?r = "if ?p r then (status_change to rs oc r)\<lparr>du_updatedAt := now\<rparr> else r"
    have eq: "setStatus w i to rs oc now t =
        (if length (filter ?p t) \<noteq> 1 then Throw changed_concurrently else Return (), snd (updateMany ?p (status_change to rs oc) now t))"
      using True Some by (simp add: setStatus_def transitionDeviceUpdate_def assertTransitionAllowed_def
          throw_if_def Let_def case_prod_unfold fst_updateMany)
    have row: "findRow i (snd (updateMany ?p (status_change to rs oc) now t)) = Some ?r"
      by (subst findRow_updateMany) (simp_all add: r status_change_def)
    have hit: "?p r" if "length (filter ?p t) = 1"
    proof -
      from that have "filter ?p t \<noteq> []" by auto
      then obtain x where "x \<in> set t" "?p x" by (auto simp: filter_empty_conv)
      with findRow_unique [OF ids] r show ?thesis by force
    qed
    show ?thesis
    proof (rule that [of ?r])
      show "findRow i (snd (setStatus w i to rs oc now t)) = Some ?r" using row by (simp add: eq)
      show "same_claim r ?r" by (simp add: same_claim_def status_change_def same_release_def)
      show "fst (setStatus w i to rs oc now t) = Return () \<Longrightarrow> du_status ?r = to"
        using hit by (auto simp: eq status_change_def split: if_splits)
    qed
  qed
qed

lemma after_write_ok:
  assumes ids: "distinct (map du_id t)" and h: "holds t run r" and i: "i = du_id (ar_row run)"
    and res: "after_write (setStatus w i to rs oc now t) phase = (p, t')"
    and ok: "\<And>r'. du_status r' = to \<Longrightarrow> phase_ok phase (ar_row run) r'"
  shows "run_ok t' (run\<lparr>ar_phase := p\<rparr>) \<and> (p = phase \<or> p = Finished Run_threw)"
proof -
  obtain r' where r': "findRow i (snd (setStatus w i to rs oc now t)) = Some r'" "same_claim r r'"
    "fst (setStatus w i to rs oc now t) = Return () \<Longrightarrow> du_status r' = to"
    using h setStatus_row [OF ids] unfolding holds_def i by metis
  have t': "t' = snd (setStatus w i to rs oc now t)" using res by (auto simp: after_write_def)
  have p: "p = (case fst (setStatus w i to rs oc now t) of Inl _ \<Rightarrow> Finished Run_threw | Inr _ \<Rightarrow> phase)"
    using res by (auto simp: after_write_def)
  then have "phase_ok p (ar_row run) r'" using r'(3) ok by (cases "fst (setStatus w i to rs oc now t)") auto
  with h r'(1,2) t' i have "holds t' (run\<lparr>ar_phase := p\<rparr>) r'"
    by (auto simp: holds_def same_claim_def same_release_def)
  with p show ?thesis by (auto simp: run_ok_def split: sum.splits)
qed

lemma holds_phase: "holds t run r \<Longrightarrow> phase_ok p (ar_row run) r \<Longrightarrow> run_ok t (run\<lparr>ar_phase := p\<rparr>)"
  by (auto simp: holds_def run_ok_def)

lemma staleReason_None: "staleReason channel row (installedRelease t) = None \<longleftrightarrow> du_channel row = channel \<and> above_floor t row"
  by (auto simp: staleReason_def above_floor_def split: option.splits if_splits)

definition step_sound :: "table \<Rightarrow> apply_run \<Rightarrow> table \<Rightarrow> apply_run \<Rightarrow> bool" where
  "step_sound t run t' run' \<longleftrightarrow> run_ok t' run' \<and> ar_claimId run' = ar_claimId run \<and> du_id (ar_row run') = du_id (ar_row run)
     \<and> (past_gate (ar_phase run') \<longrightarrow> ar_row run' = ar_row run \<and> (past_gate (ar_phase run) \<or> above_floor t (ar_row run)))"

lemma lookup_sound:
  assumes ids: "distinct (map du_id t)" and h: "holds t run r"
  shows "step_sound t run t (lookup_step run t)"
proof (cases "find (\<lambda>r. du_id r = du_id (ar_row run) \<and> du_status r \<in> {Pending, Verifying}
            \<and> du_claimed r \<and> du_claimId r = Some (ar_claimId run)) t")
  case None
  with holds_phase [OF h, of "Finished Claimed_elsewhere"] show ?thesis by (simp add: lookup_step_def step_sound_def)
next
  case (Some row)
  then have row: "row \<in> set t" "du_id row = du_id (ar_row run)" "du_claimed row" "du_claimId row = Some (ar_claimId run)"
    by (auto simp: find_Some_iff)
  have "findRow (du_id (ar_row run)) t = Some row" using findRow_unique [OF ids row(1)] row(2) by simp
  with row have "holds t (run\<lparr>ar_row := row, ar_phase := At_gate\<rparr>) row" by (simp add: holds_def same_release_def)
  with Some row show ?thesis by (auto simp: lookup_step_def run_ok_def step_sound_def)
qed

lemma gate_sound:
  assumes ids: "distinct (map du_id t)" and h: "holds t run r" and ph: "ar_phase run = At_gate"
    and gate: "gate_step w channel ready now (ar_row run) t = (p, t')"
  shows "step_sound t run t' (run\<lparr>ar_phase := p\<rparr>)"
proof (cases "staleReason channel (ar_row run) (installedRelease t)")
  case None
  then have p: "p = (if ready then At_start else Finished Deferred_setup_in_progress)" "t' = t"
    using gate by (auto simp: gate_step_def)
  have "run_ok t (run\<lparr>ar_phase := p\<rparr>)"
    using h ph by (intro holds_phase [OF h]) (auto simp: p holds_def)
  with None p(2) show ?thesis by (auto simp: staleReason_None step_sound_def)
next
  case (Some reason)
  with gate have "after_write (setStatus w (du_id (ar_row run)) Superseded (Some reason) None now t) (Finished (Stale_superseded reason)) = (p, t')"
    by (simp add: gate_step_def)
  from after_write_ok [OF ids h refl this] show ?thesis by (auto simp: step_sound_def)
qed

lemma start_sound:
  assumes ids: "distinct (map du_id t)" and h: "holds t run r" and ph: "ar_phase run = At_start"
    and st: "start_step w now (ar_row run) t = (p, t')"
  shows "step_sound t run t' (run\<lparr>ar_phase := p\<rparr>)"
proof (cases "du_status (ar_row run) = Verifying")
  case True
  with st have p: "p = At_prepare" "t' = t" by (auto simp: start_step_def)
  have "run_ok t (run\<lparr>ar_phase := p\<rparr>)"
    using True h ph by (intro holds_phase [OF h]) (auto simp: p holds_def)
  with ph p show ?thesis by (simp add: step_sound_def)
next
  case False
  with st have "after_write (setStatus w (du_id (ar_row run)) Verifying None None now t) At_prepare = (p, t')"
    by (simp add: start_step_def)
  from after_write_ok [OF ids h refl this] ph show ?thesis by (auto simp: step_sound_def)
qed

text \<open>What the prepare and swap steps end with: no write, or one status write that fits the next phase.\<close>

definition phase_write :: "apply_world \<Rightarrow> int \<Rightarrow> device_update \<Rightarrow> table \<Rightarrow> run_phase \<Rightarrow> table \<Rightarrow> bool" where
  "phase_write w now row t p t' \<longleftrightarrow> (\<exists>x. p = Finished x) \<and> t' = t \<or>
      (\<exists>to rs oc phase. after_write (setStatus w (du_id row) to rs oc now t) phase = (p, t')
        \<and> (\<forall>r'. du_status r' = to \<longrightarrow> phase_ok phase row r'))"

lemma phase_writeI:
  "after_write (setStatus w (du_id row) to rs oc now t) phase = (p, t') \<Longrightarrow>
     (\<And>r'. du_status r' = to \<Longrightarrow> phase_ok phase row r') \<Longrightarrow> phase_write w now row t p t'"
  unfolding phase_write_def by blast

lemma write_sound:
  assumes ids: "distinct (map du_id t)" and h: "holds t run r" and ph: "past_gate (ar_phase run)"
    and cases: "phase_write w now (ar_row run) t p t'"
  shows "step_sound t run t' (run\<lparr>ar_phase := p\<rparr>)"
  using cases unfolding phase_write_def
proof (elim disjE exE conjE)
  fix x assume "p = Finished x" "t' = t"
  with holds_phase [OF h, of p] show ?thesis by (simp add: step_sound_def)
next
  fix to rs oc phase
  assume "after_write (setStatus w (du_id (ar_row run)) to rs oc now t) phase = (p, t')"
    and "\<forall>r'. du_status r' = to \<longrightarrow> phase_ok phase (ar_row run) r'"
  with after_write_ok [OF ids h refl this(1)] ph show ?thesis by (auto simp: step_sound_def)
qed

lemma prepare_phase_write:
  assumes "prepare_step date w now row t = (p, t', calls)"
  shows "phase_write w now row t p t'"
proof (cases "snd (prepareRelease date w row)")
  case (Inl e)
  with assms show ?thesis by (auto simp: prepare_step_def case_prod_unfold Let_def phase_write_def)
next
  case (Inr x)
  show ?thesis
  proof (cases x)
    case (Reject reason)
    with Inr assms have "after_write (setStatus w (du_id row) Rejected (Some reason) None now t) (Finished (Release_rejected reason)) = (p, t')"
      by (auto simp: prepare_step_def case_prod_unfold Let_def prod_eq_iff)
    then show ?thesis by (rule phase_writeI) simp
  next
    case (Proceed sidecars)
    with Inr assms have "after_write (setStatus w (du_id row) Applying None None now t) (At_swap sidecars) = (p, t')"
      by (auto simp: prepare_step_def case_prod_unfold Let_def prod_eq_iff)
    then show ?thesis by (rule phase_writeI) simp
  qed (use Inr assms in \<open>auto simp: prepare_step_def case_prod_unfold Let_def phase_write_def\<close>)
qed

lemma swap_phase_write:
  assumes "swap_step w now row sidecars t = (p, t', calls)"
  shows "phase_write w now row t p t'"
proof (cases "snd (swapSidecars w (du_id row) sidecars)")
  case (Inl e)
  with assms show ?thesis by (auto simp: swap_step_def case_prod_unfold Let_def phase_write_def)
next
  case (Inr x)
  show ?thesis
  proof (cases x)
    case Swap_rolled_back
    with Inr assms have "after_write (setStatus w (du_id row) Rolled_back (Some ''health_gate_failed'') (Some Outcome_rolled_back) now t)
        (Finished Run_rolled_back) = (p, t')"
      by (auto simp: swap_step_def case_prod_unfold Let_def prod_eq_iff)
    then show ?thesis by (rule phase_writeI) simp
  next
    case Swap_degraded
    with Inr assms have "after_write (setStatus w (du_id row) Failed (Some ''degraded_health'') (Some Rollback_failed) now t)
        (Finished Run_failed) = (p, t')"
      by (auto simp: swap_step_def case_prod_unfold Let_def prod_eq_iff)
    then show ?thesis by (rule phase_writeI) simp
  qed (use Inr assms in \<open>auto simp: swap_step_def case_prod_unfold Let_def phase_write_def\<close>)
qed

lemma run_step_sound:
  assumes ids: "distinct (map du_id t)" and ok: "run_ok t run"
    and step: "run_step date w channel ready now run t = (run', t', calls)"
  shows "step_sound t run t' run'"
proof -
  obtain r where h: "holds t run r" using ok by (auto simp: run_ok_def)
  show ?thesis
  proof (cases "ar_phase run")
    case At_lookup
    with step lookup_sound [OF ids h] show ?thesis by (auto simp: run_step_def)
  next
    case At_gate
    with step gate_sound [OF ids h At_gate] show ?thesis by (auto simp: run_step_def split: prod.splits)
  next
    case At_start
    with step start_sound [OF ids h At_start] show ?thesis by (auto simp: run_step_def split: prod.splits)
  next
    case At_prepare
    then obtain p where "prepare_step date w now (ar_row run) t = (p, t', calls)" "run' = run\<lparr>ar_phase := p\<rparr>"
      using step by (auto simp: run_step_def split: prod.splits)
    with write_sound [OF ids h _ prepare_phase_write] At_prepare show ?thesis by simp
  next
    case (At_swap sidecars)
    then obtain p where "swap_step w now (ar_row run) sidecars t = (p, t', calls)" "run' = run\<lparr>ar_phase := p\<rparr>"
      using step by (auto simp: run_step_def split: prod.splits)
    with write_sound [OF ids h _ swap_phase_write] At_swap show ?thesis by simp
  next
    case (Finished x)
    with step ok show ?thesis by (auto simp: run_step_def step_sound_def)
  qed
qed

lemma drop_nth_set: "set (drop_nth k xs) \<subseteq> set xs"
  by (auto simp: drop_nth_def dest: in_set_takeD in_set_dropD)

lemma drop_nth_distinct: "distinct xs \<Longrightarrow> distinct (drop_nth k xs)"
  unfolding drop_nth_def by (metis append_take_drop_id distinct_append distinct_drop distinct_take set_take_disj_set_drop_if_distinct order_refl le_SucI)

lemma map_drop_nth: "map f (drop_nth k xs) = drop_nth k (map f xs)"
  by (simp add: drop_nth_def take_map drop_map)

lemma in_drop_nth: "x \<in> set (drop_nth k xs) \<Longrightarrow> \<exists>j<length xs. j \<noteq> k \<and> x = xs ! j"
proof -
  assume "x \<in> set (drop_nth k xs)"
  then consider "x \<in> set (take k xs)" | "x \<in> set (drop (Suc k) xs)" by (auto simp: drop_nth_def)
  then show ?thesis
  proof cases
    case 1
    then obtain j where "j < length (take k xs)" "x = take k xs ! j" by (metis in_set_conv_nth)
    then show ?thesis by (intro exI [of _ j]) auto
  next
    case 2
    then obtain j where "j < length (drop (Suc k) xs)" "x = drop (Suc k) xs ! j" by (metis in_set_conv_nth)
    then show ?thesis by (intro exI [of _ "Suc k + j"]) auto
  qed
qed

lemma inv_step:
  assumes inv: "ota_inv s" and now: "os_now s < now" and k: "k < length (os_runs s)"
    and st: "run_step date w ch ready now (os_runs s ! k) (os_table s) = (run, t, calls)"
  shows "ota_inv (s\<lparr>os_table := t, os_runs := (os_runs s)[k := run], os_log := l, os_now := now\<rparr>)"
proof -
  have tm: "tame now {} (os_table s) t" using tame_run [of now "{}" "os_table s" date w ch ready "os_runs s ! k"] st by simp
  have sp: "spares {du_id (ar_row (os_runs s ! k))} (os_table s) t"
    using spares_run [of "os_runs s ! k" "os_table s" date w ch ready now] st by simp
  note m = inv_tame [OF inv tm now]
  have ids: "distinct (map du_id (os_table s))" and ok: "run_ok (os_table s) (os_runs s ! k)"
    using inv k by (auto simp: ota_inv_def)
  have own: "step_sound (os_table s) (os_runs s ! k) t run" by (rule run_step_sound [OF ids ok st])
  have other: "run_ok t (os_runs s ! j)" if "j < length (os_runs s)" "j \<noteq> k" for j
  proof (rule run_ok_spares [OF _ sp])
    show "run_ok (os_table s) (os_runs s ! j)" using inv that by (auto simp: ota_inv_def)
    show "du_id (ar_row (os_runs s ! j)) \<notin> {du_id (ar_row (os_runs s ! k))}"
      using runs_exclusive [OF inv that(1) k that(2)] by simp
  qed
  have runs: "\<forall>x\<in>set ((os_runs s)[k := run]). run_ok t x"
    using own other k by (auto simp: step_sound_def all_set_conv_all_nth nth_list_update)
  have claims: "map ar_claimId ((os_runs s)[k := run]) = map ar_claimId (os_runs s)"
    using own k by (auto simp: step_sound_def map_update list_update_same_conv)
  have "\<forall>x\<in>set (os_runs s). past_gate (ar_phase x) \<longrightarrow> above_floor t (ar_row x)"
    using inv by (simp add: ota_inv_def floor_cong [OF m(4)])
  moreover have "past_gate (ar_phase run) \<longrightarrow> above_floor t (ar_row run)"
    using own inv k by (auto simp: step_sound_def ota_inv_def floor_cong [OF m(4)])
  ultimately have fl: "\<forall>x\<in>set ((os_runs s)[k := run]). past_gate (ar_phase x) \<longrightarrow> above_floor t (ar_row x)"
    by (auto dest!: set_update_subset_insert [THEN subsetD])
  have "set (map ar_claimId ((os_runs s)[k := run])) \<subseteq> set (os_claims s)"
    using inv unfolding claims by (simp add: ota_inv_def)
  with inv m(1-3,5) runs claims fl show ?thesis
    unfolding ota_inv_def by (auto simp: floor_cong [OF m(4)])
qed

subsection \<open>Ending a run\<close>

lemma inv_finish:
  assumes inv: "ota_inv s" and now: "os_now s < now" and k: "k < length (os_runs s)"
    and t: "t = (if released then releaseDeviceUpdateClaim (du_id (ar_row (os_runs s ! k))) (ar_claimId (os_runs s ! k)) now (os_table s)
          else os_table s)"
  shows "ota_inv (s\<lparr>os_table := t, os_runs := drop_nth k (os_runs s), os_inFlight := b, os_now := now\<rparr>)"
proof -
  have cu: "committed_unclaimed (os_table s)" using inv by (simp add: ota_inv_def)
  have tm: "tame now {} (os_table s) t" unfolding t using tame_release [OF cu] by simp
  have sp: "spares {du_id (ar_row (os_runs s ! k))} (os_table s) t" unfolding t using spares_release by simp
  note m = inv_tame [OF inv tm now]
  have runs: "\<forall>x\<in>set (drop_nth k (os_runs s)). run_ok t x"
  proof
    fix x assume "x \<in> set (drop_nth k (os_runs s))"
    then obtain j where j: "j < length (os_runs s)" "j \<noteq> k" "x = os_runs s ! j" by (auto dest: in_drop_nth)
    have "du_id (ar_row x) \<notin> {du_id (ar_row (os_runs s ! k))}" using runs_exclusive [OF inv j(1) k j(2)] j(3) by simp
    moreover have "run_ok (os_table s) x" using inv j by (auto simp: ota_inv_def)
    ultimately show "run_ok t x" using run_ok_spares [OF _ sp] by blast
  qed
  have "distinct (map ar_claimId (drop_nth k (os_runs s)))"
    using inv by (simp add: ota_inv_def map_drop_nth drop_nth_distinct)
  moreover have "set (map ar_claimId (drop_nth k (os_runs s))) \<subseteq> set (os_claims s)"
    using inv drop_nth_set [of k "os_runs s"] by (auto simp: ota_inv_def)
  moreover have "\<forall>x\<in>set (drop_nth k (os_runs s)). past_gate (ar_phase x) \<longrightarrow> above_floor t (ar_row x)"
    using inv drop_nth_set [of k "os_runs s"] by (auto simp: ota_inv_def floor_cong [OF m(4)])
  ultimately show ?thesis
    using inv m(1-3,5) runs unfolding ota_inv_def by (auto simp: floor_cong [OF m(4)])
qed

lemma inv_skip:
  assumes inv: "ota_inv s" and now: "os_now s < now" and st: "skipUpdate picked now (os_table s) = (r, t)"
  shows "ota_inv (s\<lparr>os_table := t, os_now := now\<rparr>)"
proof -
  have tm: "tame now {} (os_table s) t" using tame_skip [of now "{}" "os_table s" picked] st by simp
  have sp: "spares {} (os_table s) t" using spares_skip [of "os_table s" picked now] st by simp
  note m = inv_tame [OF inv tm now]
  have "\<forall>x\<in>set (os_runs s). run_ok t x" using inv sp by (auto simp: ota_inv_def intro: run_ok_spares)
  with inv m(1-3,5) show ?thesis unfolding ota_inv_def by (auto simp: floor_cong [OF m(4)])
qed

subsection \<open>The reboot and the post-commit start\<close>

lemma newest_top:
  assumes "x \<in> set xs" "\<And>y. y \<in> set xs \<Longrightarrow> y = x \<or> key y < key x"
  shows "newest key xs = Some x"
  using assms
proof (induction xs)
  case (Cons y ys)
  show ?case
  proof (cases "x \<in> set ys")
    case True
    with Cons have "newest key ys = Some x" by auto
    moreover have "\<not> key x < key y" using Cons.prems(2) [of y] by auto
    ultimately show ?thesis by simp
  next
    case False
    then have y: "y = x" using Cons.prems(1) by simp
    have "key z < key x" if "z \<in> set ys" for z using Cons.prems(2) [of z] that False by auto
    then have "newest key ys = Some z \<Longrightarrow> key z < key x" for z by (auto dest: newest_in)
    with y show ?thesis by (cases "newest key ys") auto
  qed
qed simp

text \<open>Stamping one committed row with a new time makes it the installed one.\<close>

lemma installed_after_stamp:
  assumes ids: "distinct (map du_id t)" and old: "\<forall>x\<in>set t. du_status x = Committed \<longrightarrow> du_updatedAt x < now"
    and r: "r \<in> set t" "p r" and p: "\<And>x. p x \<Longrightarrow> du_id x = du_id r" and f: "du_status (f r) = Committed"
  shows "installedRelease (snd (updateMany p f now t)) = Some ((f r)\<lparr>du_updatedAt := now\<rparr>)"
  unfolding installedRelease_def findNewest_def
proof (rule newest_top)
  let ?g = "\<lambda>x. if p x then (f x)\<lparr>du_updatedAt := now\<rparr> else x"
  show "(f r)\<lparr>du_updatedAt := now\<rparr> \<in> set (filter (\<lambda>r. du_status r = Committed) (snd (updateMany p f now t)))"
    using r f by (force simp: image_iff)
  fix y assume "y \<in> set (filter (\<lambda>r. du_status r = Committed) (snd (updateMany p f now t)))"
  then obtain x where x: "x \<in> set t" "y = ?g x" and com: "du_status y = Committed" by auto
  show "y = (f r)\<lparr>du_updatedAt := now\<rparr> \<or> du_updatedAt y < du_updatedAt ((f r)\<lparr>du_updatedAt := now\<rparr>)"
  proof (cases "p x")
    case True
    then have "x = r" using p [of x] ids x(1) r(1) by (auto simp: distinct_map inj_on_def)
    with True x(2) show ?thesis by simp
  qed (use x old com in auto)
qed

lemma inv_services:
  assumes inv: "ota_inv s" and now: "os_now s < now" and st: "os_starting s = Some (i, m, refs)"
  shows "ota_inv (s\<lparr>os_table := snd (recordCommittedOutcome i oc now (os_table s)), os_starting := None, os_log := l, os_now := now\<rparr>)"
proof -
  let ?p = "\<lambda>r. du_id r = i \<and> du_status r = Committed" and ?f = "\<lambda>r. r\<lparr>du_outcome := oc\<rparr>"
  let ?t = "snd (recordCommittedOutcome i oc now (os_table s))"
  have t: "?t = snd (updateMany ?p ?f now (os_table s))"
    by (simp add: recordCommittedOutcome_def case_prod_unfold Let_def)
  have ids: "distinct (map du_id (os_table s))" and old: "\<forall>r\<in>set (os_table s). du_updatedAt r < now"
    using inv now by (force simp: ota_inv_def)+
  obtain r where r: "installedRelease (os_table s) = Some r" "du_id r = i"
    using inv st by (auto simp: ota_inv_def starting_ok_def)
  then have mem: "r \<in> set (os_table s)" "du_status r = Committed"
    by (auto simp: installedRelease_def findNewest_def dest!: newest_in)
  have inst: "installedRelease ?t = Some ((?f r)\<lparr>du_updatedAt := now\<rparr>)"
    unfolding t using r(2) mem old by (intro installed_after_stamp [OF ids _ mem(1)]) auto
  have "\<forall>x\<in>set (os_runs s). run_ok ?t x" using inv run_ok_spares [OF _ spares_outcome] by (auto simp: ota_inv_def)
  moreover have "\<forall>x\<in>set (os_runs s). past_gate (ar_phase x) \<longrightarrow> above_floor ?t (ar_row x)"
    using inv by (simp add: ota_inv_def above_floor_def inst r(1))
  moreover have "map du_id ?t = map du_id (os_table s)" "\<forall>x\<in>set ?t. du_updatedAt x \<le> now"
    using old by (auto simp: t)
  moreover have "claimIds ?t \<subseteq> claimIds (os_table s)" by (auto simp: t claimIds_def)
  moreover have "committed_unclaimed ?t"
    using inv by (auto simp: t ota_inv_def committed_unclaimed_def committed_rows_def)
  ultimately show ?thesis using inv unfolding ota_inv_def by (auto simp: starting_ok_def)
qed

lemma claims_cleared: "r \<in> set (clearStaleClaims now t) \<Longrightarrow> \<not> du_claimed r"
  by (auto simp: clearStaleClaims_def clear_apply_claim_def split: if_splits)

lemma resumeApplying_cases:
  assumes "resumeApplying date w now row t = (r, t', calls)"
  obtains (tame) "\<And>C. tame now C t t'" "resumed_runs r = []" "\<And>refs. resumed_start r refs = None"
    | (commit) m where "setStatus w (du_id row) Committed None (Some Starting_services) now t = (Return (), t')"
        "r = Resume_committed (du_id row) m"
    | (failed) e where "setStatus w (du_id row) Committed None (Some Starting_services) now t = (Throw e, t')" "r = Resume_threw"
proof -
  have tm: "tame now C t (snd (setStatus w i to rs oc now t))" if "to \<noteq> Committed" for C i to rs oc
    using tame_setStatus [OF that] .
  show thesis
    using assms tm
    by (auto simp: resumeApplying_def case_prod_unfold Let_def after_verdict_def prod_eq_iff
        split: sum.splits if_splits intro: that)
qed

lemma transition_threw_unchanged:
  assumes ids: "distinct (map du_id t)" and res: "setStatus w i to rs oc now t = (Throw e, t')"
  shows "t' = t"
proof (cases "aw_seen w (findRow i t)")
  case (Some row)
  let ?p = "\<lambda>x. du_id x = i \<and> du_status x = du_status row"
  show ?thesis
  proof (cases "to \<in> set (ALLOWED_TRANSITIONS (du_status row))")
    case True
    have "length (filter ?p t) \<le> 1"
      using ids by (induction t) (auto simp: filter_empty_conv image_iff)
    moreover have "length (filter ?p t) \<noteq> 1" and t': "t' = snd (updateMany ?p (status_change to rs oc) now t)"
      using True Some res by (auto simp: setStatus_def transitionDeviceUpdate_def assertTransitionAllowed_def throw_if_def Let_def
          case_prod_unfold fst_updateMany split: if_splits)
    ultimately have "filter ?p t = []" by (simp add: le_Suc_eq)
    with t' show ?thesis by (auto simp: filter_empty_conv intro!: map_idI)
  qed (use Some res in \<open>auto simp: setStatus_def transitionDeviceUpdate_def assertTransitionAllowed_def throw_if_def\<close>)
qed (use res in \<open>auto simp: setStatus_def transitionDeviceUpdate_def\<close>)

lemma commit_written:
  assumes ids: "distinct (map du_id t)" and old: "\<forall>x\<in>set t. du_status x = Committed \<longrightarrow> du_updatedAt x < now"
    and un: "\<forall>x\<in>set t. \<not> du_claimed x" and res: "setStatus w i Committed rs oc now t = (Return (), t')"
  shows "\<exists>r. installedRelease t' = Some r \<and> du_id r = i" "map du_id t' = map du_id t" "\<forall>x\<in>set t'. \<not> du_claimed x"
    "claimIds t' \<subseteq> claimIds t" "(\<forall>x\<in>set t. du_updatedAt x \<le> now) \<Longrightarrow> (\<forall>x\<in>set t'. du_updatedAt x \<le> now)"
proof -
  obtain row where row: "aw_seen w (findRow i t) = Some row" "Committed \<in> set (ALLOWED_TRANSITIONS (du_status row))"
    using res by (auto simp: setStatus_def transitionDeviceUpdate_def assertTransitionAllowed_def throw_if_def split: option.splits if_splits)
  let ?p = "\<lambda>x. du_id x = i \<and> du_status x = du_status row" and ?f = "status_change Committed rs oc"
  have t': "t' = snd (updateMany ?p ?f now t)" and one: "length (filter ?p t) = 1"
    using res row by (auto simp: setStatus_def transitionDeviceUpdate_def assertTransitionAllowed_def throw_if_def Let_def
        case_prod_unfold fst_updateMany split: if_splits)
  from one have "filter ?p t \<noteq> []" by auto
  then obtain r where r: "r \<in> set t" "?p r" by (auto simp: filter_empty_conv)
  have "installedRelease t' = Some ((?f r)\<lparr>du_updatedAt := now\<rparr>)"
    unfolding t' using r by (intro installed_after_stamp [OF ids old]) (auto simp: status_change_def)
  then show "\<exists>r. installedRelease t' = Some r \<and> du_id r = i" using r by (simp add: status_change_def)
  show "map du_id t' = map du_id t" by (simp add: t' status_change_def)
  show "\<forall>x\<in>set t'. \<not> du_claimed x" using un by (auto simp: t' status_change_def)
  show "claimIds t' \<subseteq> claimIds t" by (auto simp: t' claimIds_def status_change_def)
  show "(\<forall>x\<in>set t. du_updatedAt x \<le> now) \<Longrightarrow> (\<forall>x\<in>set t'. du_updatedAt x \<le> now)" by (auto simp: t')
qed

text \<open>The table right after the boot sweep.\<close>

lemma swept_table:
  assumes inv: "ota_inv s" and now: "os_now s < now" and t1: "t1 = clearStaleClaims now (os_table s)"
  shows "distinct (map du_id t1)" "committed_unclaimed t1" "\<forall>x\<in>set t1. du_updatedAt x \<le> now"
    "claimIds t1 \<subseteq> set (os_claims s)" "\<forall>x\<in>set t1. \<not> du_claimed x"
    "\<forall>x\<in>set t1. du_status x = Committed \<longrightarrow> du_updatedAt x < now"
proof -
  have cu: "committed_unclaimed (os_table s)" using inv by (simp add: ota_inv_def)
  have tm: "tame now {} (os_table s) t1" unfolding t1 by (rule tame_clear [OF cu])
  note m = inv_tame [OF inv tm now]
  show "distinct (map du_id t1)" "committed_unclaimed t1" "\<forall>x\<in>set t1. du_updatedAt x \<le> now" "claimIds t1 \<subseteq> set (os_claims s)"
    using m by auto
  show "\<forall>x\<in>set t1. \<not> du_claimed x" unfolding t1 by (simp add: claims_cleared)
  show "\<forall>x\<in>set t1. du_status x = Committed \<longrightarrow> du_updatedAt x < now"
  proof (intro ballI impI)
    fix x assume "x \<in> set t1" "du_status x = Committed"
    then have "x \<in> set (committed_rows t1)" by (simp add: committed_rows_def)
    then have "x \<in> set (committed_rows (os_table s))" by (simp add: tame_committed [OF tm])
    then show "du_updatedAt x < now" using inv now by (force simp: ota_inv_def committed_rows_def)
  qed
qed

definition after_boot :: "ota_state \<Rightarrow> table \<Rightarrow> apply_run list \<Rightarrow> (string \<times> release_manifest \<times> (string \<Rightarrow> string option)) option
    \<Rightarrow> runner_call list \<Rightarrow> string \<Rightarrow> int \<Rightarrow> ota_state" where
  "after_boot s t runs st l c now = s\<lparr>os_table := t, os_runs := runs, os_polls := [], os_inFlight := False,
     os_starting := st, os_log := l, os_claims := c # os_claims s, os_now := now\<rparr>"

lemma inv_after_boot:
  assumes "distinct (map du_id t)" "committed_unclaimed t" "\<forall>x\<in>set t. du_updatedAt x \<le> now"
    "claimIds t \<subseteq> insert c (set (os_claims s))" "starting_ok t st"
    "runs = [] \<or> (\<exists>run. runs = [run] \<and> run_ok t run \<and> ar_claimId run = c \<and> \<not> past_gate (ar_phase run))"
  shows "ota_inv (after_boot s t runs st l c now)"
  using assms unfolding ota_inv_def after_boot_def by auto

lemma inv_boot:
  assumes inv: "ota_inv s" and now: "os_now s < now"
    and res: "resumeInterruptedApply date w c now (os_table s) = (r, t, calls)"
  shows "ota_inv (after_boot s t (resumed_runs r) (resumed_start r (aw_refs w)) l c now)"
proof -
  define t1 where t1: "t1 = clearStaleClaims now (os_table s)"
  note sw = swept_table [OF inv now t1]
  have tame_case: "ota_inv (after_boot s u rs None l c now)"
    if tm: "tame now {c} t1 u"
      and rs: "rs = [] \<or> (\<exists>run. rs = [run] \<and> run_ok u run \<and> ar_claimId run = c \<and> \<not> past_gate (ar_phase run))" for u rs
  proof (rule inv_after_boot [OF _ _ _ _ _ rs])
    show "distinct (map du_id u)" "committed_unclaimed u" "\<forall>x\<in>set u. du_updatedAt x \<le> now"
      using sw tame_ids [OF tm] tame_unclaimed [OF tm] tame_stamps [OF tm] by auto
    show "claimIds u \<subseteq> insert c (set (os_claims s))" using tame_claimIds [OF tm] sw(4) by auto
  qed (simp add: starting_ok_def)
  show ?thesis
  proof (cases "findNewest du_createdAt (\<lambda>r. du_status r = Applying) t1")
    case (Some row)
    then have "resumeApplying date w now row t1 = (r, t, calls)"
      using res by (simp add: resumeInterruptedApply_def Let_def t1)
    then show ?thesis
    proof (cases rule: resumeApplying_cases)
      case tame
      then show ?thesis using tame_case [of t "[]"] by simp
    next
      case (commit m)
      note cw = commit_written [OF sw(1) sw(6) sw(5) commit(1)]
      have "starting_ok t (Some (du_id row, m, aw_refs w))" using cw(1) by (auto simp: starting_ok_def)
      moreover have "committed_unclaimed t" using cw(3) by (auto simp: committed_unclaimed_def committed_rows_def)
      ultimately show ?thesis
        using cw(2,4,5) sw by (intro inv_after_boot) (auto simp: commit(2))
    next
      case (failed e)
      then have "t = t1" using transition_threw_unchanged [OF sw(1)] by simp
      with failed tame_case [of t1 "[]"] show ?thesis by simp
    qed
  next
    case None
    show ?thesis
    proof (cases "findNewest du_createdAt (\<lambda>r. du_status r = Verifying) t1")
      case n: None
      with None res have "r = Resume_nothing" "t = t1" by (auto simp: resumeInterruptedApply_def Let_def t1)
      with tame_case [of t1 "[]"] show ?thesis by simp
    next
      case (Some row)
      obtain x where x: "applyPendingUpdate c now t1 = (x, t)" "r = Resumed_apply (du_id row) x"
        using None Some res by (auto simp: resumeInterruptedApply_def Let_def t1 split: prod.splits)
      with tame_case [of t "started_runs x"] tame_apply [of now c t1] apply_starts(2) [OF sw(1) x(1)] show ?thesis by simp
    qed
  qed
qed

lemma ota_inv_step: "ota_step date cron s ev s' \<Longrightarrow> ota_inv s \<Longrightarrow> ota_inv s'"
proof (induction rule: ota_step.induct)
  case (poll s now i env r t)
  then show ?case by (blast intro: inv_poll)
next
  case (decide env s r)
  then show ?case by (simp add: ota_inv_def)
next
  case (record_release s now i k n t)
  then show ?case
    using inv_row_appended [of s i now "os_polls s ! k" t _ "drop_nth k (os_polls s)"] by simp
next
  case (window s now c r t)
  then show ?case by (blast intro: inv_window)
next
  case (apply_now s now c fails r t)
  then show ?case by (blast intro: inv_apply_now)
next
  case (step s now k w run t calls)
  then show ?case by (blast intro: inv_step)
next
  case (finish s now k r t released)
  then show ?case by (blast intro: inv_finish)
next
  case (skip s now picked r t)
  then show ?case by (blast intro: inv_skip)
next
  case (boot s now c w r t calls)
  then show ?case using inv_boot [of s now date w c r t calls "os_log s @ calls"] by (simp add: after_boot_def)
next
  case (services s now i m refs w oc calls)
  then show ?case by (blast intro: inv_services)
qed (simp_all add: ota_inv_def)

lemma ota_inv_run: "ota_run date cron s evs s' \<Longrightarrow> ota_inv s \<Longrightarrow> ota_inv s'"
  by (induction rule: ota_run.induct) (auto intro: ota_inv_step)

section \<open>What the runner is asked to do\<close>

fun swaps_in :: "string \<Rightarrow> runner_call \<Rightarrow> bool" where
  "swaps_in i (RecreateServices j names To_release) \<longleftrightarrow> i = j"
| "swaps_in i (RecreateSelfDetached j To_release) \<longleftrightarrow> i = j"
| "swaps_in i (CurrentImageRefs names) \<longleftrightarrow> False"
| "swaps_in i (Snapshot j) \<longleftrightarrow> False"
| "swaps_in i (PullImages names) \<longleftrightarrow> False"
| "swaps_in i (StageConfigs j) \<longleftrightarrow> False"
| "swaps_in i (ReconcileEnv j img) \<longleftrightarrow> False"
| "swaps_in i (StageClientApp j platform) \<longleftrightarrow> False"
| "swaps_in i MigrateDeploy \<longleftrightarrow> False"
| "swaps_in i (RecreateServices j names To_previous) \<longleftrightarrow> False"
| "swaps_in i (RestoreConfigs j) \<longleftrightarrow> False"
| "swaps_in i (RecreateSelfDetached j To_previous) \<longleftrightarrow> False"
| "swaps_in i (EnabledServices j) \<longleftrightarrow> False"
| "swaps_in i (StartServices j names) \<longleftrightarrow> False"
| "swaps_in i (NotifyOwners names) \<longleftrightarrow> False"

lemma act_then_calls: "c \<in> set (fst (act_then a f)) \<Longrightarrow> c \<in> set (fst a) \<or> (\<exists>x. snd a = Inr x \<and> c \<in> set (fst (f x)))"
  by (auto simp: act_then_def split: sum.splits)

lemma act_catch_calls: "c \<in> set (fst (act_catch a h)) \<Longrightarrow> c \<in> set (fst a) \<or> (\<exists>e. c \<in> set (fst (h e)))"
  by (auto simp: act_catch_def split: sum.splits)

lemma perform_calls [simp]: "fst (perform w c) = [c]"
  by (simp add: perform_def)

lemma return_calls [simp]: "fst (act_return x) = []"
  by (simp add: act_return_def)

lemma stageClients_calls: "c \<in> set (fst (stageClients w i cs)) \<Longrightarrow> \<not> swaps_in j c"
  by (induction cs) (auto dest!: act_then_calls act_catch_calls)

lemma reconcile_calls: "c \<in> set (fst (reconcileStep w i m)) \<Longrightarrow> \<not> swaps_in j c"
  by (auto simp: reconcileStep_def split: option.splits dest!: act_catch_calls act_then_calls)

lemma stage_calls: "c \<in> set (fst (stageStep w i m)) \<Longrightarrow> \<not> swaps_in j c"
  by (auto simp: stageStep_def stageClientApps_def dest!: act_then_calls stageClients_calls reconcile_calls split: if_splits)

lemma pull_calls: "c \<in> set (fst (pullStep w m k)) \<Longrightarrow> \<not> swaps_in j c \<or> c \<in> set (fst k)"
  by (auto simp: pullStep_def Let_def split: sum.splits if_splits dest!: act_then_calls)

lemma prepare_calls: "c \<in> set (fst (prepareRelease date w row)) \<Longrightarrow> \<not> swaps_in j c"
  by (auto simp: prepareRelease_def split: sum.splits configs_answer.splits dest!: act_then_calls pull_calls stage_calls)

lemma swap_calls: "c \<in> set (fst (swapSidecars w i sidecars)) \<Longrightarrow> swaps_in j c \<Longrightarrow> j = i"
  by (auto simp: swapSidecars_def Let_def dest!: act_then_calls split: if_splits)

lemma run_step_swaps:
  assumes "run_step date w ch ready now run t = (run', t', calls)" "c \<in> set calls" "swaps_in i c"
  shows "i = du_id (ar_row run) \<and> (\<exists>sidecars. ar_phase run = At_swap sidecars)"
  using assms
  by (cases "ar_phase run")
    (auto simp: run_step_def prepare_step_def swap_step_def case_prod_unfold Let_def dest: prepare_calls swap_calls)

end
