(* ===== verification/Ota_Properties.thy ===== *)
theory Ota_Properties
  imports Ota_Run
begin

text \<open>
  What the histories of the update agent satisfy: the audit trail of the table, who may swap a
  release in, what a commit needs, how many rows a release gets, and the two places where runs and
  polls may meet.  The witnesses share one history: a release is polled, claimed by a window, prepared,
  swapped in and, after the reboot, committed.
\<close>

section \<open>A history for the witnesses\<close>

definition sample_world :: "string \<Rightarrow> apply_world" where
  "sample_world ref =
     \<lparr>aw_throws = (\<lambda>_. None), aw_refs = (\<lambda>_. Some ref), aw_probe = (\<lambda>_ _ _. True), aw_attempts = 1, aw_listens = True,
      aw_downloadBase = ''https://d'', aw_fetch = (\<lambda>_. Http 200 ''cfg''), aw_sha256 = (\<lambda>_. replicate 64 (CHR ''c'')),
      aw_enabled = [], aw_started = [], aw_seen = (\<lambda>r. r)\<rparr>"

definition sample_row :: "device_status \<Rightarrow> int \<Rightarrow> device_update" where
  "sample_row st now = (pending_row ''u1'' (sample_release (sample_manifest ''t'') 5) 1)
     \<lparr>du_status := st, du_claimed := True, du_claimId := Some ''c1'', du_claimedAt := Some 2, du_updatedAt := now\<rparr>"

definition sample_run :: "run_phase \<Rightarrow> apply_run" where
  "sample_run phase = \<lparr>ar_row = pending_row ''u1'' (sample_release (sample_manifest ''t'') 5) 1, ar_claimId = ''c1'',
     ar_phase = phase, ar_applyNow = False\<rparr>"

definition sample_state :: "device_status \<Rightarrow> int \<Rightarrow> run_phase \<Rightarrow> runner_call list \<Rightarrow> int \<Rightarrow> ota_state" where
  "sample_state st upd phase l now = (ota_init None True)
     \<lparr>os_table := [sample_row st upd], os_runs := [sample_run phase], os_log := l, os_claims := [''c1''], os_now := now\<rparr>"

definition sample_prepare_calls :: "runner_call list" where
  "sample_prepare_calls = [CurrentImageRefs [''orchestrator'', ''web''], Snapshot ''u1'', PullImages [''orchestrator'', ''web''],
     StageConfigs ''u1'', ReconcileEnv ''u1'' (rs_image (hd (m_services (sample_manifest ''t'')))), MigrateDeploy]"

definition sample_swap_calls :: "runner_call list" where
  "sample_swap_calls = [RecreateServices ''u1'' [''web''] To_release, RecreateSelfDetached ''u1'' To_release]"

abbreviation "any_date \<equiv> (\<lambda>_ :: string. Some (5 :: int))"
abbreviation "any_cron \<equiv> (\<lambda>_ :: string. True)"

lemma os_channel_default: "os_flag s = None \<Longrightarrow> os_channel cron s = ''stable''"
  by (simp add: os_channel_def getUpdateAgentSettings_def sanitizeStored_def DEFAULT_UPDATE_AGENT_SETTINGS_def)

lemma sample_sidecars:
  "sidecars_of (deployed_services (sample_world ref) (sample_manifest ''t'')) = [sample_service ''web'' No_check]"
  by (simp add: sidecars_of_def deployed_services_def sample_manifest_def sample_service_def SELF_SERVICE_NAME_def sample_world_def)

lemma sample_poll_step:
  "\<exists>r. ota_step any_date any_cron (ota_init None True) (Poll r)
     ((ota_init None True)\<lparr>os_table := [pending_row ''u1'' (sample_release (sample_manifest ''t'') 5) 1], os_now := 1\<rparr>)"
  using sample_runCheck [of 1] os_channel_default [of "ota_init None True" any_cron]
  by (intro exI, intro ota_step.poll) (auto simp: ota_init_def)

lemma sample_window_step:
  "\<exists>r. ota_step any_date any_cron
     ((ota_init None True)\<lparr>os_table := [pending_row ''u1'' (sample_release (sample_manifest ''t'') 5) 1], os_now := 1\<rparr>) (Window r)
     (sample_state Pending 2 At_gate [] 2)"
proof -
  let ?row = "pending_row ''u1'' (sample_release (sample_manifest ''t'') 5) 1"
  have tick: "applyWindowTick True ''c1'' 2 [?row] = (Some (Started (sample_run At_gate)), [sample_row Pending 2])"
    by (simp add: applyWindowTick_def applyPendingUpdate_def newestApplicable_def findNewest_def Let_def claimDeviceUpdateForApply_def
        updateMany_def claimable_def sample_run_def sample_row_def pending_row_def)
  have auto: "us_autoApply (getUpdateAgentSettings any_cron None)"
    by (simp add: getUpdateAgentSettings_def sanitizeStored_def DEFAULT_UPDATE_AGENT_SETTINGS_def)
  show ?thesis
    using ota_step.window [of "(ota_init None True)\<lparr>os_table := [?row], os_now := 1\<rparr>" 2 "''c1''" any_cron
        "Some (Started (sample_run At_gate))" "[sample_row Pending 2]" any_date]
    by (auto simp: tick auto ota_init_def sample_state_def)
qed

lemma sample_stepI:
  assumes "run_step any_date w ''stable'' True now (sample_run p) [sample_row st upd] = (sample_run p', [sample_row st' upd'], calls)" "t < now"
  shows "ota_step any_date any_cron (sample_state st upd p l t) (Step 0 w calls) (sample_state st' upd' p' (l @ calls) now)"
  using ota_step.step [of "sample_state st upd p l t" now 0 any_date w any_cron "sample_run p'" "[sample_row st' upd']" calls]
    os_channel_default [of "sample_state st upd p l t" any_cron] assms
  by (simp add: sample_state_def ota_init_def)

lemma sample_gate: "run_step any_date w ''stable'' True 3 (sample_run At_gate) [sample_row Pending 2] =
    (sample_run At_start, [sample_row Pending 2], [])"
  by (simp add: run_step_defs sample_run_def sample_row_def staleReason_def installedRelease_def findNewest_def
      pending_row_def sample_release_def sample_manifest_def)

lemma sample_setStatus:
  assumes "to \<in> set (ALLOWED_TRANSITIONS st)"
  shows "setStatus (sample_world ref) ''u1'' to None None now [sample_row st upd] = (Return (), [sample_row to now])"
  using assms by (simp add: setStatus_def transitionDeviceUpdate_def assertTransitionAllowed_def throw_if_def Let_def updateMany_def
      findRow_def sample_world_def sample_row_def status_change_def pending_row_def)

lemma sample_start: "run_step any_date (sample_world ref) ''stable'' True 4 (sample_run At_start) [sample_row Pending 2] =
    (sample_run At_prepare, [sample_row Verifying 4], [])"
  using sample_setStatus [of Verifying Pending ref 4 2]
  by (simp add: run_step_defs sample_run_def after_write_def pending_row_def)

lemma sample_row_sel:
  "du_manifestJson (ar_row (sample_run p)) = manifest_json (sample_manifest ''t'')" "du_id (ar_row (sample_run p)) = ''u1''"
  "du_releaseTag (ar_row (sample_run p)) = Some ''ota-1''" "ar_phase (sample_run p) = p" "(sample_run p)\<lparr>ar_phase := q\<rparr> = sample_run q"
  by (simp_all add: sample_run_def pending_row_def sample_release_def)

lemma sample_prepare_release:
  "prepareRelease any_date (sample_world ref) (ar_row (sample_run p)) =
     (sample_prepare_calls, Return (Proceed [sample_service ''web'' No_check]))"
proof -
  have "fetchConfigsAsset (sample_world ref) (ar_row (sample_run p)) (sample_manifest ''t'') = Configs_ok"
    by (simp add: fetchConfigsAsset_def sample_row_sel sample_world_def res_ok_def sample_manifest_def)
  then show ?thesis
    using wf_manifest_parses [OF sample_manifest_wf [of "''t''"]] sample_sidecars [of ref]
    by (simp add: prepareRelease_def sample_row_sel act_then_def act_return_def perform_def pullStep_def stageStep_def
        reconcileStep_def act_catch_def stageClientApps_def sample_world_def sample_manifest_def sample_service_def
        SELF_SERVICE_NAME_def sample_prepare_calls_def Let_def)
qed

lemma sample_prepare: "run_step any_date (sample_world ref) ''stable'' True 5 (sample_run At_prepare) [sample_row Verifying 4] =
    (sample_run (At_swap [sample_service ''web'' No_check]), [sample_row Applying 5], sample_prepare_calls)"
  using sample_setStatus [of Applying Verifying ref 5 4]
  by (simp add: run_step_def prepare_step_def sample_prepare_release sample_row_sel after_write_def)

lemma sample_swap: "run_step any_date (sample_world ref) ''stable'' True 6 (sample_run (At_swap [sample_service ''web'' No_check])) [sample_row Applying 5] =
    (sample_run (Finished Self_swap_started), [sample_row Applying 5], sample_swap_calls)"
  by (simp add: run_step_def swap_step_def swapSidecars_def act_then_def act_return_def perform_def sample_world_def sample_row_sel
      runHealthGate_def sample_service_def sample_swap_calls_def Let_def)

lemma sample_history:
  "\<exists>a b. ota_run any_date any_cron (ota_init None True)
     [Poll a, Window b, Step 0 (sample_world ref) [], Step 0 (sample_world ref) [], Step 0 (sample_world ref) sample_prepare_calls]
     (sample_state Applying 5 (At_swap [sample_service ''web'' No_check]) sample_prepare_calls 5)"
proof -
  obtain a where a: "ota_step any_date any_cron (ota_init None True) (Poll a)
     ((ota_init None True)\<lparr>os_table := [pending_row ''u1'' (sample_release (sample_manifest ''t'') 5) 1], os_now := 1\<rparr>)"
    using sample_poll_step by blast
  obtain b where b: "ota_step any_date any_cron
     ((ota_init None True)\<lparr>os_table := [pending_row ''u1'' (sample_release (sample_manifest ''t'') 5) 1], os_now := 1\<rparr>) (Window b)
     (sample_state Pending 2 At_gate [] 2)"
    using sample_window_step by blast
  note st = run_snoc [OF run_snoc [OF run_snoc [OF run_snoc [OF run_snoc [OF run_nil a] b] sample_stepI [OF sample_gate]] sample_stepI [OF sample_start]]
      sample_stepI [OF sample_prepare]]
  show ?thesis using st [of "sample_world ref" ref ref] by auto
qed

lemma sample_swap_step:
  "ota_step any_date any_cron (sample_state Applying 5 (At_swap [sample_service ''web'' No_check]) l 5)
     (Step 0 (sample_world ref) sample_swap_calls) (sample_state Applying 5 (Finished Self_swap_started) (l @ sample_swap_calls) 6)"
  by (rule sample_stepI [OF sample_swap]) simp

section \<open>Properties\<close>

text \<open>
  C32. The table is an audit trail: whatever polls, windows, operators, runs and reboots do, a row is
  never removed, keeps the release it tracks, and its status only moves forward along the allowed
  transitions; once superseded, committed, rolled back, failed or rejected it never changes again.
\<close>

theorem ota_audit_trail:
  assumes "ota_run date cron s evs s'" "r \<in> set (os_table s)"
  shows "\<exists>r'\<in>set (os_table s'). same_release r r' \<and> advance_step\<^sup>*\<^sup>* (du_status r) (du_status r')
    \<and> (terminal (du_status r) \<longrightarrow> du_status r' = du_status r)"
proof -
  obtain old new where "os_table s' = old @ new" and l: "list_all2 advances (os_table s) old"
    using evolves_ota_run [OF assms(1)] by (auto simp: evolves_def)
  moreover obtain r' where "r' \<in> set old" "advances r r'"
    using l assms(2) by (metis in_set_conv_nth list_all2_conv_all_nth)
  ultimately show ?thesis using terminal_reaches by (fastforce simp: advances_def)
qed

theorem ota_audit_trail_witness:
  "\<exists>r'\<in>set (os_table (sample_state Applying 5 (At_swap [sample_service ''web'' No_check]) sample_prepare_calls 5)).
     same_release (sample_row Pending 2) r' \<and> advance_step\<^sup>*\<^sup>* Pending (du_status r')"
proof -
  have "ota_run any_date any_cron (sample_state Pending 2 At_gate [] 2)
      [Step 0 (sample_world ref) [], Step 0 (sample_world ref) [], Step 0 (sample_world ref) sample_prepare_calls]
      (sample_state Applying 5 (At_swap [sample_service ''web'' No_check]) sample_prepare_calls 5)" for ref
  proof -
    note st = run_snoc [OF run_snoc [OF run_snoc [OF run_nil sample_stepI [OF sample_gate]] sample_stepI [OF sample_start]]
        sample_stepI [OF sample_prepare]]
    show ?thesis using st [of 2 "[]" "sample_world ref" ref ref] by simp
  qed
  from ota_audit_trail [OF this, of "sample_row Pending 2"] show ?thesis
    by (auto simp: sample_state_def ota_init_def sample_row_def pending_row_def)
qed

text \<open>
  C9. A release is swapped in only by its owner, only forward.  In any history from an empty table, a
  step that recreates services on the images of release \<open>i\<close> finds that row applying and claimed by
  this very run, no other run works on it, and at that moment it was built strictly after the
  installed release.
\<close>

theorem release_swap_authorised:
  assumes "ota_run date cron (ota_init flag ready) evs s" "ota_step date cron s (Step k w calls) s'"
    and "c \<in> set calls" "swaps_in i c"
  shows "\<exists>r. findRow i (os_table s) = Some r \<and> du_status r = Applying \<and> du_claimed r
      \<and> du_claimId r = Some (ar_claimId (os_runs s ! k)) \<and> above_floor (os_table s) r
      \<and> (\<forall>j<length (os_runs s). j = k \<or> du_id (ar_row (os_runs s ! j)) \<noteq> i)"
proof -
  have inv: "ota_inv s" using ota_inv_run [OF assms(1) ota_inv_init] .
  obtain now run t where k: "k < length (os_runs s)"
    and st: "run_step date w (os_channel cron s) (os_ready s) now (os_runs s ! k) (os_table s) = (run, t, calls)"
    using assms(2) by (auto elim: ota_step.cases)
  let ?run = "os_runs s ! k"
  from run_step_swaps [OF st assms(3,4)] obtain sidecars where i: "i = du_id (ar_row ?run)" and ph: "ar_phase ?run = At_swap sidecars"
    by auto
  have "run_ok (os_table s) ?run" and fl: "above_floor (os_table s) (ar_row ?run)"
    using inv k ph by (auto simp: ota_inv_def)
  then obtain r where h: "holds (os_table s) ?run r" by (auto simp: run_ok_def)
  with fl have "above_floor (os_table s) r" by (auto simp: holds_def same_release_def above_floor_def split: option.splits)
  with h ph i runs_exclusive [OF inv _ k] show ?thesis by (auto simp: holds_def)
qed

theorem release_swap_authorised_witness:
  "\<exists>r. findRow ''u1'' (os_table (sample_state Applying 5 (At_swap [sample_service ''web'' No_check]) sample_prepare_calls 5)) = Some r
     \<and> du_status r = Applying \<and> du_claimed r \<and> du_claimId r = Some ''c1''"
proof -
  obtain a b where "ota_run any_date any_cron (ota_init None True)
     [Poll a, Window b, Step 0 (sample_world []) [], Step 0 (sample_world []) [], Step 0 (sample_world []) sample_prepare_calls]
     (sample_state Applying 5 (At_swap [sample_service ''web'' No_check]) sample_prepare_calls 5)"
    using sample_history by blast
  from release_swap_authorised [OF this sample_swap_step, of "RecreateSelfDetached ''u1'' To_release" "''u1''"]
  show ?thesis by (auto simp: sample_swap_calls_def sample_state_def sample_run_def)
qed


section \<open>Commits\<close>

lemma healthGate_passed:
  "healthGate probe n services = None \<longleftrightarrow>
     (\<forall>sv\<in>set services. is_http (rs_healthcheck sv) \<longrightarrow> (\<exists>k<n. probe (rs_name sv) k))"
  by (induction services) (auto simp: list_ex_iff)

text \<open>Where the commit verdict of a resume comes from.\<close>

lemma resumeApplying_commit:
  assumes "resumeApplying date w now row t = (Resume_committed i m, t', calls)"
  shows "i = du_id row \<and> parseReleaseManifest date (Some (du_manifestJson row)) = Return m \<and> runningTarget w m \<and> aw_listens w
    \<and> healthGate (aw_probe w Post_swap) (aw_attempts w) (deployed_services w m) = None
    \<and> setStatus w i Committed None (Some Starting_services) now t = (Return (), t')"
  using assms
  by (auto simp: resumeApplying_def case_prod_unfold Let_def after_verdict_def resumeGate_def runHealthGate_def prod_eq_iff
      split: sum.splits if_splits)

definition committed_ids :: "table \<Rightarrow> string set" where
  "committed_ids t = du_id ` set (committed_rows t)"

lemma tame_committed_ids: "tame now C t t' \<Longrightarrow> committed_ids t' = committed_ids t"
  by (simp add: committed_ids_def tame_committed)

lemma record_committed_ids: "committed_ids (snd (recordRelease i nr now t)) = committed_ids t"
proof -
  obtain u where "snd (recordRelease i nr now t) = u @ [pending_row i nr now]" "tame now {} t u"
    using record_split [of i nr now t "{}"] by metis
  with tame_committed_ids show ?thesis by (simp add: committed_ids_def committed_rows_def pending_row_def)
qed

lemma outcome_committed_ids: "committed_ids (snd (recordCommittedOutcome i oc now t)) = committed_ids t"
proof -
  have "map du_id (committed_rows (map (\<lambda>r. if du_id r = i \<and> du_status r = Committed then r\<lparr>du_outcome := oc, du_updatedAt := now\<rparr> else r) t))
      = map du_id (committed_rows t)"
    by (induction t) (auto simp: committed_rows_def)
  then show ?thesis
    unfolding committed_ids_def set_map [symmetric] by (simp add: recordCommittedOutcome_def case_prod_unfold Let_def)
qed

lemma committed_ids_unique:
  "distinct (map du_id t) \<Longrightarrow> findRow i t = Some r \<Longrightarrow> i \<in> committed_ids t \<longleftrightarrow> du_status r = Committed"
proof -
  assume ids: "distinct (map du_id t)" and r: "findRow i t = Some r"
  have "x = r" if "x \<in> set t" "du_id x = i" for x using findRow_unique [OF ids that(1)] that(2) r by simp
  with findRow_id [OF r] show ?thesis by (fastforce simp: committed_ids_def committed_rows_def)
qed

text \<open>Only a resume that commits adds to the committed rows.\<close>

lemma boot_committed_ids:
  assumes "ota_inv s" "os_now s < now" "resumeInterruptedApply date w c now (os_table s) = (r, t, calls)"
  shows "committed_ids t = committed_ids (os_table s)
    \<or> (\<exists>row m. r = Resume_committed (du_id row) m \<and> row \<in> set (clearStaleClaims now (os_table s)) \<and> du_status row = Applying
        \<and> resumeApplying date w now row (clearStaleClaims now (os_table s)) = (r, t, calls)
        \<and> committed_ids t \<subseteq> insert (du_id row) (committed_ids (os_table s)))"
proof -
  define t1 where t1: "t1 = clearStaleClaims now (os_table s)"
  note sw = swept_table [OF assms(1,2) t1]
  have "committed_unclaimed (os_table s)" using assms(1) by (simp add: ota_inv_def)
  then have c1: "committed_ids t1 = committed_ids (os_table s)" unfolding t1 by (rule tame_committed_ids [OF tame_clear])
  show ?thesis
  proof (cases "findNewest du_createdAt (\<lambda>r. du_status r = Applying) t1")
    case (Some row)
    then have res: "resumeApplying date w now row t1 = (r, t, calls)"
      using assms(3) by (simp add: resumeInterruptedApply_def Let_def t1)
    then show ?thesis
    proof (cases rule: resumeApplying_cases)
      case tame
      then show ?thesis using tame_committed_ids [of now "{}" t1 t] c1 by simp
    next
      case (commit m)
      have "committed_ids t \<subseteq> insert (du_id row) (committed_ids t1)"
        using commit(1) by (auto simp: setStatus_def transitionDeviceUpdate_def Let_def case_prod_unfold updateMany_def
            committed_ids_def committed_rows_def status_change_def split: option.splits sum.splits if_splits)
      with commit(2) Some res c1 show ?thesis
        unfolding t1 [symmetric] by (auto simp: findNewest_def dest!: newest_in)
    next
      case (failed e)
      then have "t = t1" by (intro transition_threw_unchanged [OF sw(1)])
      with c1 show ?thesis by simp
    qed
  next
    case None
    then have "t = t1 \<or> t = snd (applyPendingUpdate c now t1)"
      using assms(3) by (auto simp: resumeInterruptedApply_def Let_def t1 case_prod_unfold split: option.splits)
    with c1 tame_committed_ids [OF tame_apply [of now c t1]] show ?thesis by auto
  qed
qed

lemma step_committed_ids:
  assumes "ota_step date cron s ev s'" "ota_inv s" "\<nexists>w r calls. ev = Boot w r calls"
  shows "committed_ids (os_table s') = committed_ids (os_table s)"
  using assms
proof (induction rule: ota_step.induct)
  case (poll s now i env r t)
  then show ?case using record_committed_ids by (auto simp: runCheck_def case_prod_unfold Let_def split: sum.splits)
next
  case (record_release s now i k n t)
  then show ?case using record_committed_ids [of i "os_polls s ! k" now "os_table s"] by simp
next
  case (window s now c r t)
  then show ?case
    using tame_committed_ids [OF tame_window [of now c "os_table s" "us_autoApply (getUpdateAgentSettings cron (os_flag s))"]] by simp
next
  case (apply_now s now c fails r t)
  then have "committed_unclaimed (os_table s)" by (simp add: ota_inv_def)
  with apply_now show ?case using tame_committed_ids [OF tame_now [of "os_table s" now c "os_inFlight s" fails]] by simp
next
  case (step s now k w run t calls)
  then show ?case
    using tame_committed_ids [OF tame_run [of now "{}" "os_table s" date w "os_channel cron s" "os_ready s" "os_runs s ! k"]] by simp
next
  case (finish s now k r t released)
  then have "committed_unclaimed (os_table s)" by (simp add: ota_inv_def)
  with finish show ?case using tame_committed_ids [OF tame_release] by simp
next
  case (skip s now picked r t)
  then show ?case using tame_committed_ids [OF tame_skip [of now "{}" "os_table s" picked]] by simp
qed (simp_all add: outcome_committed_ids)

text \<open>
  C10. A release is committed only after it proved healthy.  In any history from an empty table, the only
  event that turns a row into a committed one is the boot hook answering \<open>committed\<close> for it: the row was
  applying, its snapshot parses, the orchestrator now runs the image digest the release names, the process
  listens, and every deployed service with an HTTP health check answered a probe.
\<close>

theorem commit_needs_health:
  assumes "ota_run date cron (ota_init flag ready) evs s" "ota_step date cron s ev s'"
    and "findRow i (os_table s) = Some r" "du_status r \<noteq> Committed"
    and "findRow i (os_table s') = Some r'" "du_status r' = Committed"
  shows "\<exists>w m calls. ev = Boot w (Resume_committed i m) calls \<and> du_status r = Applying
    \<and> parseReleaseManifest date (Some (du_manifestJson r)) = Return m \<and> runningTarget w m \<and> aw_listens w
    \<and> (\<forall>sv\<in>set (deployed_services w m). is_http (rs_healthcheck sv) \<longrightarrow> (\<exists>k<aw_attempts w. aw_probe w Post_swap (rs_name sv) k))"
proof -
  have inv: "ota_inv s" using ota_inv_run [OF assms(1) ota_inv_init] .
  then have ids: "distinct (map du_id (os_table s))" "distinct (map du_id (os_table s'))"
    using ota_inv_step [OF assms(2)] by (simp_all add: ota_inv_def)
  have new: "i \<in> committed_ids (os_table s')" "i \<notin> committed_ids (os_table s)"
    using committed_ids_unique [OF ids(1) assms(3)] committed_ids_unique [OF ids(2) assms(5)] assms(4,6) by simp_all
  then obtain w x calls where ev: "ev = Boot w x calls" using step_committed_ids [OF assms(2) inv] by blast
  then obtain now c t where b: "os_now s < now" "resumeInterruptedApply date w c now (os_table s) = (x, t, calls)" "os_table s' = t"
    using assms(2) by (auto elim: ota_step.cases)
  let ?t1 = "clearStaleClaims now (os_table s)"
  obtain row m where row: "x = Resume_committed (du_id row) m" "row \<in> set ?t1" "du_status row = Applying" "du_id row = i"
      "resumeApplying date w now row ?t1 = (x, t, calls)"
    using boot_committed_ids [OF inv b(1,2)] new b(3) by auto
  have "findRow i ?t1 = Some row" using findRow_unique [OF swept_table(1) [OF inv b(1) refl]] row(2,4) by blast
  moreover have "findRow i ?t1 = map_option (\<lambda>r. if du_claimed r then (clear_apply_claim r)\<lparr>du_updatedAt := now\<rparr> else r) (findRow i (os_table s))"
    unfolding clearStaleClaims_def by (rule findRow_updateMany) (simp add: clear_apply_claim_def)
  ultimately have "du_status row = du_status r" "du_manifestJson row = du_manifestJson r"
    using assms(3) by (auto simp: clear_apply_claim_def)
  with resumeApplying_commit [of date w now row ?t1 "du_id row" m t calls] row ev show ?thesis
    by (auto simp: healthGate_passed)
qed


text \<open>The witness: the sample history goes on with the swap and a reboot into the new image.\<close>

definition sample_digest :: string where
  "sample_digest = rs_digest (hd (m_services (sample_manifest ''t'')))"

lemma sample_boot_step:
  "\<exists>s'. ota_step any_date any_cron (sample_state Applying 5 (Finished Self_swap_started) l 6)
      (Boot (sample_world sample_digest) (Resume_committed ''u1'' (sample_manifest ''t'')) [CurrentImageRefs [''orchestrator'', ''web'']]) s'
    \<and> (\<exists>r'. findRow ''u1'' (os_table s') = Some r' \<and> du_status r' = Committed)"
proof -
  let ?w = "sample_world sample_digest" and ?m = "sample_manifest ''t''"
  let ?row = "(clear_apply_claim (sample_row Applying 5))\<lparr>du_updatedAt := 7\<rparr>"
  let ?done = "(status_change Committed None (Some Starting_services) ?row)\<lparr>du_updatedAt := 7\<rparr>"
  let ?s = "sample_state Applying 5 (Finished Self_swap_started) l 6"
  have parse: "parseReleaseManifest any_date (Some (du_manifestJson ?row)) = Return ?m"
    using wf_manifest_parses [OF sample_manifest_wf [of "''t''"]]
    by (simp add: clear_apply_claim_def sample_row_def pending_row_def sample_release_def)
  have wr: "setStatus ?w ''u1'' Committed None (Some Starting_services) 7 [?row] = (Return (), [?done])"
    by (simp add: setStatus_def transitionDeviceUpdate_def assertTransitionAllowed_def throw_if_def Let_def updateMany_def
      findRow_def sample_world_def sample_row_def clear_apply_claim_def pending_row_def)
  have id: "du_id ?row = ''u1''" and st: "du_status ?row = Applying"
    by (simp_all add: clear_apply_claim_def sample_row_def pending_row_def)
  have names: "map rs_name (m_services ?m) = [''orchestrator'', ''web'']"
    by (simp add: sample_manifest_def sample_service_def)
  have tgt: "runningTarget ?w ?m"
    by (simp add: runningTarget_def sample_manifest_def sample_service_def SELF_SERVICE_NAME_def imageRefMatchesDigest_def
        sample_world_def sample_digest_def)
  have gate: "resumeGate ?w Post_swap (deployed_services ?w ?m) = None"
    by (simp add: resumeGate_def runHealthGate_def healthGate_passed sample_world_def)
  have thr: "perform ?w c = ([c], Return ())" for c by (simp add: perform_def sample_world_def)
  have clear: "clearStaleClaims 7 (os_table ?s) = [?row]"
    by (simp add: clearStaleClaims_def sample_state_def sample_row_def)
  have "resumeApplying any_date ?w 7 ?row [?row] = (Resume_committed ''u1'' ?m, [?done], [CurrentImageRefs [''orchestrator'', ''web'']])"
    unfolding resumeApplying_def Let_def parse id thr by (simp add: names tgt gate wr after_verdict_def)
  with st have res: "resumeInterruptedApply any_date ?w ''c2'' 7 (os_table ?s)
      = (Resume_committed ''u1'' ?m, [?done], [CurrentImageRefs [''orchestrator'', ''web'']])"
    by (simp add: resumeInterruptedApply_def clear findNewest_def)
  have "findRow ''u1'' [?done] = Some ?done" "du_status ?done = Committed"
    using id by (simp_all add: findRow_def status_change_def)
  then have "\<exists>r'. findRow ''u1'' [?done] = Some r' \<and> du_status r' = Committed" by blast
  moreover define s' where "s' = ?s\<lparr>os_table := [?done], os_runs := [], os_polls := [], os_inFlight := False,
        os_starting := Some (''u1'', ?m, aw_refs ?w), os_log := l @ [CurrentImageRefs [''orchestrator'', ''web'']],
        os_claims := ''c2'' # os_claims ?s, os_now := 7\<rparr>"
  have "ota_step any_date any_cron ?s (Boot ?w (Resume_committed ''u1'' ?m) [CurrentImageRefs [''orchestrator'', ''web'']]) s'"
    using ota_step.boot [OF _ _ res, of any_cron] by (simp add: sample_state_def s'_def)
  moreover have "os_table s' = [?done]" by (simp add: s'_def)
  ultimately show ?thesis by (intro exI [of _ s']) simp
qed

theorem commit_needs_health_witness:
  "\<exists>m. parseReleaseManifest any_date (Some (du_manifestJson (sample_row Applying 5))) = Return m
     \<and> runningTarget (sample_world sample_digest) m \<and> aw_listens (sample_world sample_digest)"
proof -
  obtain a b where h: "ota_run any_date any_cron (ota_init None True)
     [Poll a, Window b, Step 0 (sample_world []) [], Step 0 (sample_world []) [], Step 0 (sample_world []) sample_prepare_calls]
     (sample_state Applying 5 (At_swap [sample_service ''web'' No_check]) sample_prepare_calls 5)"
    using sample_history by blast
  note h' = run_snoc [OF h sample_swap_step]
  obtain s' r' where "ota_step any_date any_cron (sample_state Applying 5 (Finished Self_swap_started) (sample_prepare_calls @ sample_swap_calls) 6)
      (Boot (sample_world sample_digest) (Resume_committed ''u1'' (sample_manifest ''t'')) [CurrentImageRefs [''orchestrator'', ''web'']]) s'"
    "findRow ''u1'' (os_table s') = Some r'" "du_status r' = Committed"
    using sample_boot_step by blast
  with commit_needs_health [OF h', of _ s' "''u1''" "sample_row Applying 5" r'] show ?thesis
    by (fastforce simp: sample_state_def findRow_def sample_row_def pending_row_def)
qed


section \<open>One row per release\<close>

lemma evolves_same_ids:
  assumes "evolves t t'" "map du_id t' = map du_id t"
  shows "list_all2 advances t t'"
proof -
  obtain old new where t': "t' = old @ new" and old: "list_all2 advances t old" using assms(1) by (auto simp: evolves_def)
  have "length t' = length t" using map_eq_imp_length_eq [OF assms(2)] .
  with t' list_all2_lengthD [OF old] have "new = []" by simp
  with t' old show ?thesis by simp
qed

lemma reaches_Pending: "advance_step\<^sup>*\<^sup>* s Pending \<Longrightarrow> s = Pending"
proof (erule rtranclp.cases)
  fix a b c assume "s = a" "Pending = c" "advance_step b c"
  then show ?thesis by (cases b) (simp_all add: advance_step_def)
qed simp

lemma advances_shas: "list_all2 advances t t' \<Longrightarrow> map du_gitSha t' = map du_gitSha t"
  by (induction rule: list_all2_induct) (auto simp: advances_def same_release_def)

definition pending_rows :: "table \<Rightarrow> table" where
  "pending_rows t = filter (\<lambda>r. du_status r = Pending) t"

lemma advances_pending: "list_all2 advances t t' \<Longrightarrow> length (pending_rows t') \<le> length (pending_rows t)"
proof (induction rule: list_all2_induct)
  case (Cons x xs y ys)
  then have "du_status y = Pending \<Longrightarrow> du_status x = Pending" using reaches_Pending by (auto simp: advances_def)
  with Cons show ?case by (auto simp: pending_rows_def)
qed simp

lemma record_pending: "length (pending_rows (snd (recordRelease i nr now t))) = 1"
  by (simp add: recordRelease_def case_prod_unfold Let_def supersedePendingUpdates_def supersedeUnclaimedVerifyingUpdates_def
      pending_rows_def pending_row_def filter_empty_conv)

lemma record_shas: "map du_gitSha (snd (recordRelease i nr now t)) = map du_gitSha t @ [m_gitSha (nr_manifest nr)]"
  by (simp add: recordRelease_def case_prod_unfold Let_def supersedePendingUpdates_def supersedeUnclaimedVerifyingUpdates_def
      pending_row_def)

text \<open>Every event other than a poll keeps the rows there are.\<close>

lemma boot_ids:
  assumes "ota_inv s" "os_now s < now" "resumeInterruptedApply date w c now (os_table s) = (r, t, calls)"
  shows "map du_id t = map du_id (os_table s)"
proof -
  define t1 where t1: "t1 = clearStaleClaims now (os_table s)"
  note sw = swept_table [OF assms(1,2) t1]
  have "map du_id t1 = map du_id (os_table s)"
    using tame_ids [OF tame_clear] assms(1) by (simp add: t1 ota_inv_def)
  moreover have "map du_id t = map du_id t1"
  proof (cases "findNewest du_createdAt (\<lambda>r. du_status r = Applying) t1")
    case (Some row)
    then have "resumeApplying date w now row t1 = (r, t, calls)"
      using assms(3) by (simp add: resumeInterruptedApply_def Let_def t1)
    then show ?thesis
      by (cases rule: resumeApplying_cases)
        (use tame_ids [of now "{}" t1 t] commit_written(2) [OF sw(1,6,5)] transition_threw_unchanged [OF sw(1)] in blast)+
  next
    case None
    then have "t = t1 \<or> t = snd (applyPendingUpdate c now t1)"
      using assms(3) by (auto simp: resumeInterruptedApply_def Let_def t1 case_prod_unfold split: option.splits)
    with tame_ids [OF tame_apply [of now c t1]] show ?thesis by auto
  qed
  ultimately show ?thesis by simp
qed

lemma step_ids:
  assumes "ota_step date cron s ev s'" "ota_inv s" "\<nexists>r. ev = Poll r" "\<nexists>k. ev = Record k"
  shows "map du_id (os_table s') = map du_id (os_table s)"
  using assms
proof (induction rule: ota_step.induct)
  case (window s now c r t)
  then show ?case
    using tame_ids [OF tame_window [of now c "os_table s" "us_autoApply (getUpdateAgentSettings cron (os_flag s))"]] by simp
next
  case (apply_now s now c fails r t)
  then have "committed_unclaimed (os_table s)" by (simp add: ota_inv_def)
  with apply_now show ?case using tame_ids [OF tame_now [of "os_table s" now c "os_inFlight s" fails]] by simp
next
  case (step s now k w run t calls)
  then show ?case
    using tame_ids [OF tame_run [of now "{}" "os_table s" date w "os_channel cron s" "os_ready s" "os_runs s ! k"]] by simp
next
  case (finish s now k r t released)
  then have "committed_unclaimed (os_table s)" by (simp add: ota_inv_def)
  with finish show ?case using tame_ids [OF tame_release] by simp
next
  case (skip s now picked r t)
  then show ?case using tame_ids [OF tame_skip [of now "{}" "os_table s" picked]] by simp
next
  case (boot s now c w r t calls)
  then show ?case using boot_ids by simp
next
  case (services s now i m refs w oc calls)
  then show ?case by (auto simp: recordCommittedOutcome_def case_prod_unfold Let_def)
qed simp_all

lemma poll_new_sha:
  assumes "runCheck env ch i now t = (r, t')"
  shows "t' = t \<or> length (pending_rows t') = 1 \<and> (\<exists>sha. map du_gitSha t' = map du_gitSha t @ [sha] \<and> sha \<notin> set (map du_gitSha t))"
proof (cases "t' = t")
  case False
  then obtain nr where nr: "decideUpdate env ch t = Return nr" and t': "t' = snd (recordRelease i nr now t)"
    using runCheck_changed [OF assms] by metis
  from nr have "m_gitSha (nr_manifest nr) \<notin> du_gitSha ` set t"
    by (auto simp: decideUpdate_Return releaseGates_Return)
  then show ?thesis by (auto simp: t' record_pending record_shas)
qed simp

lemma step_one_row:
  assumes "ota_step date cron s ev s'" "ota_inv s" "length (pending_rows (os_table s)) \<le> 1"
  shows "length (pending_rows (os_table s')) \<le> 1
    \<and> (distinct (map du_gitSha (os_table s)) \<longrightarrow> (\<nexists>k. ev = Record k) \<longrightarrow> distinct (map du_gitSha (os_table s')))"
proof (cases "(\<exists>r. ev = Poll r) \<or> (\<exists>k. ev = Record k)")
  case False
  with step_ids [OF assms(1,2)] evolves_ota_step [OF assms(1)]
  have "list_all2 advances (os_table s) (os_table s')" by (blast intro: evolves_same_ids)
  with advances_shas advances_pending assms(3) show ?thesis by fastforce
next
  case True
  then show ?thesis
  proof
    assume "\<exists>r. ev = Poll r"
    then obtain env i now r t where "runCheck env (os_channel cron s) i now (os_table s) = (r, t)" "os_table s' = t"
      using assms(1) by (auto elim: ota_step.cases)
    with poll_new_sha [of env "os_channel cron s" i now "os_table s" r t] assms(3) show ?thesis by auto
  next
    assume "\<exists>k. ev = Record k"
    then obtain k i now n t where "recordRelease i (os_polls s ! k) now (os_table s) = (n, t)" "os_table s' = t" "ev = Record k"
      using assms(1) by (auto elim: ota_step.cases)
    with record_pending [of i "os_polls s ! k" now "os_table s"] show ?thesis by simp
  qed
qed

text \<open>
  At most one row is pending, whatever happens; and while every poll runs under the poll lock (no
  poll is split into a decision and a later recording) a release gets at most one row.
\<close>

theorem one_row_per_release:
  assumes "ota_run date cron (ota_init flag ready) evs s"
  shows "length (pending_rows (os_table s)) \<le> 1 \<and> ((\<forall>k. Record k \<notin> set evs) \<longrightarrow> distinct (map du_gitSha (os_table s)))"
  using assms
proof (induction "ota_init flag ready" evs s rule: ota_run.induct)
  case run_nil
  then show ?case by (simp add: ota_init_def pending_rows_def)
next
  case (run_snoc evs s' ev s'')
  have "ota_inv s'" using ota_inv_run [OF run_snoc(1) ota_inv_init] .
  with step_one_row [OF run_snoc(3)] run_snoc(2) show ?case by auto
qed

theorem one_row_per_release_witness:
  "length (pending_rows (os_table (sample_state Applying 5 (At_swap [sample_service ''web'' No_check]) sample_prepare_calls 5))) \<le> 1
   \<and> distinct (map du_gitSha (os_table (sample_state Applying 5 (At_swap [sample_service ''web'' No_check]) sample_prepare_calls 5)))"
proof -
  obtain a b where h: "ota_run any_date any_cron (ota_init None True)
     [Poll a, Window b, Step 0 (sample_world []) [], Step 0 (sample_world []) [], Step 0 (sample_world []) sample_prepare_calls]
     (sample_state Applying 5 (At_swap [sample_service ''web'' No_check]) sample_prepare_calls 5)"
    using sample_history by blast
  from one_row_per_release [OF h] show ?thesis by simp
qed

text \<open>Two polls that decide before either records: the forced check of an operator runs without the poll lock.\<close>

lemma decide_gives:
  "decideUpdate env (os_channel cron s) (os_table s) = Return nr \<Longrightarrow>
     ota_step date cron s (Decide (Return nr)) (s\<lparr>os_polls := os_polls s @ [nr]\<rparr>)"
  using ota_step.decide [of env cron s "Return nr" date] by simp

lemma record_gives:
  "os_polls s = nr # nrs \<Longrightarrow> os_now s < now \<Longrightarrow> i \<notin> du_id ` set (os_table s) \<Longrightarrow>
     ota_step date cron s (Record 0) (s\<lparr>os_table := snd (recordRelease i nr now (os_table s)), os_polls := nrs, os_now := now\<rparr>)"
  using ota_step.record_release [of s now i 0 _ _ date cron]
  by (metis append_Nil drop_nth_def drop0 drop_Suc_Cons length_greater_0_conv list.distinct(1) nth_Cons_0 prod.collapse take0)

text \<open>
  Without the lock a release can get two rows: two polls decide on the table as it is, then both record.
\<close>

theorem racing_polls_duplicate:
  "\<exists>r s. ota_run any_date any_cron (ota_init None True) [Decide r, Decide r, Record 0, Record 0] s
     \<and> \<not> distinct (map du_gitSha (os_table s))"
proof -
  define nr where "nr = sample_release (sample_manifest ''t'') 5"
  let ?s0 = "ota_init None True"
  let ?s1 = "?s0\<lparr>os_polls := [nr]\<rparr>"
  let ?s2 = "?s0\<lparr>os_polls := [nr, nr]\<rparr>"
  let ?s3 = "?s0\<lparr>os_table := snd (recordRelease ''u1'' nr 1 []), os_polls := [nr], os_now := 1\<rparr>"
  let ?s4 = "?s0\<lparr>os_table := snd (recordRelease ''u2'' nr 2 (os_table ?s3)), os_polls := [], os_now := 2\<rparr>"
  let ?env = "sample_env (sample_manifest ''t'') 5"
  have d: "decideUpdate ?env ''stable'' [] = Return nr"
    unfolding nr_def using sample_decision [OF sample_manifest_wf, of "''t''" "[]"]
    by (simp add: releaseGates_def installedRelease_def findNewest_def sample_manifest_def sample_release_def)
  have "ota_step any_date any_cron ?s0 (Decide (Return nr)) ?s1"
    using decide_gives [of ?env any_cron ?s0 nr any_date] d os_channel_default [of ?s0] by (simp add: ota_init_def)
  moreover have "ota_step any_date any_cron ?s1 (Decide (Return nr)) ?s2"
    using decide_gives [of ?env any_cron ?s1 nr any_date] d os_channel_default [of ?s1] by (simp add: ota_init_def)
  moreover have "ota_step any_date any_cron ?s2 (Record 0) ?s3"
    using record_gives [of ?s2 nr "[nr]" 1 "''u1''" any_date any_cron] by (simp add: ota_init_def)
  moreover have "ota_step any_date any_cron ?s3 (Record 0) ?s4"
    using record_gives [of ?s3 nr "[]" 2 "''u2''" any_date any_cron]
    by (simp add: ota_init_def recordRelease_def case_prod_unfold Let_def supersedePendingUpdates_def
        supersedeUnclaimedVerifyingUpdates_def pending_row_def)
  ultimately have "ota_run any_date any_cron ?s0 [Decide (Return nr), Decide (Return nr), Record 0, Record 0] ?s4"
    using run_snoc [OF run_snoc [OF run_snoc [OF run_snoc [OF run_nil]]], of any_date any_cron ?s0 _ ?s1 _ ?s2 _ ?s3 _ ?s4] by simp
  moreover have "\<not> distinct (map du_gitSha (os_table ?s4))" by (simp add: record_shas)
  ultimately show ?thesis by blast
qed


section \<open>Who settles an interrupted swap\<close>

text \<open>Rewrites that leave every applying row applying, except those named in \<open>X\<close>.\<close>

definition applying_kept :: "string set \<Rightarrow> table \<Rightarrow> table \<Rightarrow> bool" where
  "applying_kept X t t' \<longleftrightarrow> (\<forall>i r. i \<notin> X \<longrightarrow> findRow i t = Some r \<longrightarrow> du_status r = Applying
     \<longrightarrow> (\<exists>r'. findRow i t' = Some r' \<and> du_status r' = Applying))"

lemma applying_kept_refl [simp]: "applying_kept X t t"
  by (auto simp: applying_kept_def)

lemma applying_kept_trans: "applying_kept X a b \<Longrightarrow> applying_kept X b c \<Longrightarrow> applying_kept X a c"
  unfolding applying_kept_def by meson

lemma applying_kept_append [simp]: "applying_kept X t (t @ u)"
  by (auto simp: applying_kept_def findRow_append)

lemma applying_kept_updateMany:
  assumes "\<And>r. du_id (f r) = du_id r" "\<And>r. p r \<Longrightarrow> du_id r \<notin> X \<Longrightarrow> du_status r = Applying \<Longrightarrow> du_status (f r) = Applying"
  shows "applying_kept X t (snd (updateMany p f now t))"
  unfolding applying_kept_def findRow_updateMany [of f, OF assms(1)]
  using assms(2) by (auto dest!: findRow_id)

lemma applying_kept_record: "applying_kept X t (snd (recordRelease i nr now t))"
proof -
  have "applying_kept X t (snd (supersedePendingUpdates now t))" for t
    unfolding supersedePendingUpdates_def by (rule applying_kept_updateMany) auto
  moreover have "applying_kept X t (snd (supersedeUnclaimedVerifyingUpdates now t))" for t
    unfolding supersedeUnclaimedVerifyingUpdates_def by (rule applying_kept_updateMany) auto
  ultimately have "applying_kept X t (snd (supersedeUnclaimedVerifyingUpdates now (snd (supersedePendingUpdates now t))))"
    by (blast intro: applying_kept_trans)
  then show ?thesis using applying_kept_trans [OF _ applying_kept_append]
    by (simp add: recordRelease_def case_prod_unfold Let_def)
qed

lemma applying_kept_claim: "applying_kept X t (snd (claimDeviceUpdateForApply i c now t))"
  unfolding claimDeviceUpdateForApply_def case_prod_unfold Let_def snd_conv by (rule applying_kept_updateMany) auto

lemma applying_kept_release: "applying_kept X t (releaseDeviceUpdateClaim i c now t)"
  unfolding releaseDeviceUpdateClaim_def by (rule applying_kept_updateMany) (auto simp: clear_apply_claim_def)

lemma applying_kept_outcome: "applying_kept X t (snd (recordCommittedOutcome i oc now t))"
  unfolding recordCommittedOutcome_def case_prod_unfold Let_def snd_conv by (rule applying_kept_updateMany) auto

lemma applying_kept_skip: "applying_kept X t (snd (skipUpdate picked now t))"
proof (cases picked)
  case (Some row)
  have "applying_kept X t (snd (updateMany (\<lambda>r. du_id r = du_id row \<and> du_status r = Pending)
        (\<lambda>r. r\<lparr>du_status := Superseded, du_failureReason := Some SKIPPED_BY_OPERATOR\<rparr>) now t))"
    by (rule applying_kept_updateMany) auto
  with Some show ?thesis by (simp add: skipUpdate_def case_prod_unfold Let_def)
qed (simp add: skipUpdate_def)

lemma applying_kept_setStatus: "applying_kept {i} t (snd (setStatus w i to reason oc now t))"
proof (cases "aw_seen w (findRow i t)")
  case (Some row)
  have "applying_kept {i} t (snd (updateMany (\<lambda>r. du_id r = i \<and> du_status r = du_status row) (status_change to reason oc) now t))"
    by (rule applying_kept_updateMany) (auto simp: status_change_def)
  with Some show ?thesis
    by (auto simp: setStatus_def transitionDeviceUpdate_def Let_def case_prod_unfold split: sum.splits)
qed (simp add: setStatus_def transitionDeviceUpdate_def)

lemma applying_kept_run: "applying_kept {du_id (ar_row run)} t (fst (snd (run_step date w channel ready now run t)))"
  by (auto simp: run_step_defs case_prod_unfold Let_def applying_kept_setStatus
      split: run_phase.splits option.splits sum.splits prepared.splits swapped.splits)

lemmas applying_keepers = applying_kept_record applying_kept_claim applying_kept_release applying_kept_outcome applying_kept_skip

lemma step_applying_kept:
  assumes "ota_step date cron s ev s'" "\<nexists>w r calls. ev = Boot w r calls"
  shows "applying_kept (case ev of Step k w calls \<Rightarrow> {du_id (ar_row (os_runs s ! k))} | _ \<Rightarrow> {}) (os_table s) (os_table s')"
  using assms
proof (induction rule: ota_step.induct)
  case (poll s now i env r t)
  then show ?case by (auto simp: runCheck_def case_prod_unfold Let_def applying_keepers split: sum.splits)
next
  case (record_release s now i k n t)
  then show ?case using applying_kept_record [of "{}" "os_table s" i "os_polls s ! k" now] by simp
next
  case (window s now c r t)
  then show ?case
    by (auto simp: applyWindowTick_def applyPendingUpdate_def case_prod_unfold Let_def applying_keepers split: option.splits if_splits)
next
  case (apply_now s now c fails r t)
  have "applying_kept {} (os_table s) (releaseDeviceUpdateClaim i c now (snd (claimDeviceUpdateForApply i c now (os_table s))))" for i
    by (rule applying_kept_trans [OF applying_kept_claim applying_kept_release])
  with apply_now show ?case
    by (auto simp: applyNow_def case_prod_unfold Let_def applying_keepers split: option.splits if_splits)
next
  case (step s now k w run t calls)
  then show ?case
    using applying_kept_run [of "os_runs s ! k" "os_table s" date w "os_channel cron s" "os_ready s" now] by simp
next
  case (skip s now picked r t)
  then show ?case using applying_kept_skip [of "{}" "os_table s" picked now] by simp
qed (simp_all add: applying_keepers)

text \<open>
  A release caught mid-swap is settled by its own run or by a reboot, and by nothing else: in any
  history, an event that ends the applying status of a row is either a step of the run that holds
  its claim or the boot hook.  Later windows do not retry it, so an applying row left behind by a boot
  hook that threw stays applying until the next boot.
\<close>

theorem interrupted_swap_waits_for_boot:
  assumes "ota_run date cron (ota_init flag ready) evs s" "ota_step date cron s ev s'"
    and "findRow i (os_table s) = Some r" "du_status r = Applying"
    and "findRow i (os_table s') = Some r'" "du_status r' \<noteq> Applying"
  shows "(\<exists>w res calls. ev = Boot w res calls)
    \<or> (\<exists>k w calls. ev = Step k w calls \<and> k < length (os_runs s) \<and> du_id (ar_row (os_runs s ! k)) = i
        \<and> du_claimed r \<and> du_claimId r = Some (ar_claimId (os_runs s ! k)))"
proof (cases "\<exists>w res calls. ev = Boot w res calls")
  case False
  then have "i \<in> (case ev of Step k w calls \<Rightarrow> {du_id (ar_row (os_runs s ! k))} | _ \<Rightarrow> {})"
    using step_applying_kept [OF assms(2)] assms(3-6) unfolding applying_kept_def by (metis option.inject)
  then obtain k w calls where ev: "ev = Step k w calls" and i: "i = du_id (ar_row (os_runs s ! k))"
    by (auto split: ota_event.splits)
  then have k: "k < length (os_runs s)" using assms(2) by (auto elim: ota_step.cases)
  have "ota_inv s" using ota_inv_run [OF assms(1) ota_inv_init] .
  with k have "run_ok (os_table s) (os_runs s ! k)" by (auto simp: ota_inv_def)
  with i assms(3) have "du_claimed r \<and> du_claimId r = Some (ar_claimId (os_runs s ! k))" by (auto simp: run_ok_def holds_def)
  with ev i k show ?thesis by blast
qed simp

theorem interrupted_swap_waits_for_boot_witness:
  "\<exists>s' w res calls. ota_step any_date any_cron (sample_state Applying 5 (Finished Self_swap_started) (sample_prepare_calls @ sample_swap_calls) 6)
     (Boot w res calls) s' \<and> (\<exists>r'. findRow ''u1'' (os_table s') = Some r' \<and> du_status r' = Committed)"
proof -
  obtain a b where h: "ota_run any_date any_cron (ota_init None True)
     [Poll a, Window b, Step 0 (sample_world []) [], Step 0 (sample_world []) [], Step 0 (sample_world []) sample_prepare_calls]
     (sample_state Applying 5 (At_swap [sample_service ''web'' No_check]) sample_prepare_calls 5)"
    using sample_history by blast
  note h' = run_snoc [OF h sample_swap_step]
  obtain s' r' ev where "ota_step any_date any_cron (sample_state Applying 5 (Finished Self_swap_started) (sample_prepare_calls @ sample_swap_calls) 6) ev s'"
    and ev: "ev = Boot (sample_world sample_digest) (Resume_committed ''u1'' (sample_manifest ''t'')) [CurrentImageRefs [''orchestrator'', ''web'']]"
    and "findRow ''u1'' (os_table s') = Some r'" "du_status r' = Committed"
    using sample_boot_step by blast
  with interrupted_swap_waits_for_boot [OF h', of ev s' "''u1''" "sample_row Applying 5" r'] show ?thesis
    by (fastforce simp: sample_state_def findRow_def sample_row_def pending_row_def)
qed

end
