(* ===== verification/Zoned_Time.thy ===== *)
theory Zoned_Time
  imports Dates
begin

text \<open>
  Wall clocks in named time zones: \<open>lib/zoned-time.ts\<close>.  The time-zone data of the runtime
  (\<open>Intl.DateTimeFormat\<close>) is the record \<open>zone_db\<close>: the canonical name of a zone it resolves, and the
  offset of a zone at an instant.  What the code reads of it are the fields of the wall clock, as the
  formatter prints them: seconds and coarser, and a year counted within its era.

  An instant is its time value in milliseconds; a wall clock is the instant that shows the same fields in UTC.
\<close>

section \<open>The runtime\<close>

record zone_db =
  zd_resolve :: "string \<Rightarrow> string option"
  zd_offset :: "string \<Rightarrow> int \<Rightarrow> int"

datatype zoned_error =
    Unresolvable_zone
  | Not_iana_zone
  | Not_ymd
  | Not_calendar_date
  | Minute_out_of_range

type_synonym wall_fields = "int \<times> int \<times> int \<times> int \<times> int \<times> int"

definition shown_year :: "int \<Rightarrow> int" where
  "shown_year y = (if y \<le> 0 then 1 - y else y)"

definition zone_fields :: "zone_db \<Rightarrow> string \<Rightarrow> int \<Rightarrow> wall_fields" where
  "zone_fields db tz t =
     (let w = t + zd_offset db tz t; r = w mod day_ms
      in case civil_from_days (w div day_ms) of
           (y, m, d) \<Rightarrow> (shown_year y, m, d, r div 3600000, r div 60000 mod 60, r div 1000 mod 60))"

text \<open>\<^verbatim>\<open>Date.UTC\<close>, which reads the years 0 to 99 as 1900 to 1999.\<close>

definition date_UTC :: "int \<Rightarrow> int \<Rightarrow> int \<Rightarrow> int \<Rightarrow> int \<Rightarrow> int \<Rightarrow> int" where
  "date_UTC y mo d h mi s =
     days_from_civil (if 0 \<le> y \<and> y \<le> 99 then 1900 + y else y) mo d * day_ms + h * 3600000 + mi * 60000 + s * 1000"

definition timeZoneOffsetMs :: "zone_db \<Rightarrow> int \<Rightarrow> string \<Rightarrow> (zoned_error, int) result" where
  "timeZoneOffsetMs db t tz =
     (case zd_resolve db tz of
        None \<Rightarrow> Throw Unresolvable_zone
      | Some _ \<Rightarrow> (case zone_fields db tz t of (y, mo, d, h, mi, s) \<Rightarrow> Return (date_UTC y mo d h mi s - t)))"

section \<open>Wall clock to instant\<close>

text \<open>The instant of the wall clock \<open>wall\<close>; \<open>None\<close> is the invalid date.\<close>

definition wallClockToUtc :: "zone_db \<Rightarrow> int \<Rightarrow> string \<Rightarrow> int option" where
  "wallClockToUtc db wall tz =
     (case (timeZoneOffsetMs db (wall - day_ms) tz, timeZoneOffsetMs db (wall + day_ms) tz) of
        (Inr before, Inr after) \<Rightarrow>
          (let valid = filter (\<lambda>i. timeZoneOffsetMs db i tz = Return (wall - i))
                 (map (\<lambda>off. wall - off) (if before = after then [before] else [before, after]))
           in Some (if valid \<noteq> [] then Min (set valid) else wall - before))
      | _ \<Rightarrow> None)"

definition zonedWallClockToUtc :: "zone_db \<Rightarrow> int \<Rightarrow> int \<Rightarrow> int \<Rightarrow> int \<Rightarrow> int \<Rightarrow> int \<Rightarrow> string \<Rightarrow> int option" where
  "zonedWallClockToUtc db y mo d h mi s tz = wallClockToUtc db (date_UTC y mo d h mi s) tz"

section \<open>Zone names\<close>

definition is_letter :: "char \<Rightarrow> bool" where
  "is_letter c \<longleftrightarrow> (let n = (of_char c :: nat) in 65 \<le> n \<and> n \<le> 90 \<or> 97 \<le> n \<and> n \<le> 122)"

fun letter_first :: "string \<Rightarrow> bool" where
  "letter_first [] = False"
| "letter_first (c # s) = is_letter c"

definition isValidIanaZone :: "zone_db \<Rightarrow> string \<Rightarrow> bool" where
  "isValidIanaZone db tz =
     (if length tz = 0 \<or> 64 < length tz then False
      else (case zd_resolve db tz of
          None \<Rightarrow> False
        | Some resolved \<Rightarrow> letter_first resolved \<and> letter_first tz))"

definition canonicalZone :: "zone_db \<Rightarrow> string \<Rightarrow> (zoned_error, string) result" where
  "canonicalZone db tz =
     seq (throw_if (\<not> isValidIanaZone db tz) Not_iana_zone)
       (some_or Unresolvable_zone (zd_resolve db tz))"

section \<open>Calendar dates as text\<close>

definition padStart :: "nat \<Rightarrow> string \<Rightarrow> string" where
  "padStart w s = replicate (w - length s) (CHR ''0'') @ s"

definition show_int :: "int \<Rightarrow> string" where
  "show_int n = (if n < 0 then ''-'' @ show_nat (nat (- n)) else show_nat (nat n))"

definition ymd_text :: "int \<Rightarrow> int \<Rightarrow> int \<Rightarrow> string" where
  "ymd_text y m d = padStart 4 (show_int y) @ ''-'' @ padStart 2 (show_int m) @ ''-'' @ padStart 2 (show_int d)"

text \<open>The text of the UTC date of a day number.\<close>

definition ymdOfUtcDate :: "int \<Rightarrow> string" where
  "ymdOfUtcDate days = (case civil_from_days days of (y, m, d) \<Rightarrow> ymd_text y m d)"

definition num_of :: "string \<Rightarrow> int" where
  "num_of s = int (nat_of_digits s)"

text \<open>The pattern of four, two and two digits.\<close>

definition YMD :: "string \<Rightarrow> (int \<times> int \<times> int) option" where
  "YMD s =
     (if length s = 10 \<and> list_all is_digit (take 4 s) \<and> s ! 4 = CHR ''-'' \<and> list_all is_digit (take 2 (drop 5 s))
         \<and> s ! 7 = CHR ''-'' \<and> list_all is_digit (drop 8 s)
      then Some (num_of (take 4 s), num_of (take 2 (drop 5 s)), num_of (drop 8 s)) else None)"

definition isCalendarYmd :: "string \<Rightarrow> bool" where
  "isCalendarYmd ymd =
     (case YMD ymd of
        None \<Rightarrow> False
      | Some (y, mo, d) \<Rightarrow>
          if y < 1 \<or> mo < 1 \<or> 12 < mo \<or> d < 1 \<or> 31 < d then False
          else ymdOfUtcDate (days_from_civil y mo d) = ymd)"

definition parseYmd :: "string \<Rightarrow> (zoned_error, int \<times> int \<times> int) result" where
  "parseYmd ymd =
     (case YMD ymd of
        None \<Rightarrow> Throw Not_ymd
      | Some p \<Rightarrow> seq (throw_if (\<not> isCalendarYmd ymd) Not_calendar_date) (Return p))"

definition isoWeekdayOf :: "string \<Rightarrow> (zoned_error, int) result" where
  "isoWeekdayOf ymd =
     andThen (parseYmd ymd) (\<lambda>(y, m, d).
       let js = (days_from_civil y m d + 4) mod 7 in Return (if js = 0 then 7 else js))"

definition ymdAddDays :: "string \<Rightarrow> int \<Rightarrow> (zoned_error, string) result" where
  "ymdAddDays ymd n = andThen (parseYmd ymd) (\<lambda>(y, m, d). Return (ymdOfUtcDate (days_from_civil y m (d + n))))"

section \<open>Instants and local dates\<close>

record local_parts =
  lp_ymd :: string
  lp_isoWeekday :: int
  lp_minuteOfDay :: int

definition localPartsOf :: "zone_db \<Rightarrow> int \<Rightarrow> string \<Rightarrow> (zoned_error, local_parts) result" where
  "localPartsOf db t tz =
     (case zd_resolve db tz of
        None \<Rightarrow> Throw Unresolvable_zone
      | Some _ \<Rightarrow>
          (case zone_fields db tz t of (y, mo, d, h, mi, s) \<Rightarrow>
             let ymd = ymd_text y mo d
             in andThen (isoWeekdayOf ymd)
                  (\<lambda>wd. Return \<lparr>lp_ymd = ymd, lp_isoWeekday = wd, lp_minuteOfDay = h * 60 + mi\<rparr>)))"

definition zonedDateMinuteToUtc :: "zone_db \<Rightarrow> string \<Rightarrow> int \<Rightarrow> string \<Rightarrow> (zoned_error, int) result" where
  "zonedDateMinuteToUtc db ymd minute tz =
     seq (throw_if (minute < 0 \<or> 1440 < minute) Minute_out_of_range)
       (andThen (if minute = 1440 then ymdAddDays ymd 1 else Return ymd)
         (\<lambda>day. let m = (if minute = 1440 then 0 else minute)
           in andThen (parseYmd day) (\<lambda>(y, mo, d).
                some_or Unresolvable_zone (zonedWallClockToUtc db y mo d (m div 60) (m mod 60) 0 tz))))"


section \<open>Dates read back\<close>

lemma padStart_pad: "0 \<le> n \<Longrightarrow> padStart w (show_int n) = pad w n"
  by (simp add: padStart_def show_int_def pad_def)

definition year_of :: "int \<Rightarrow> int" where
  "year_of n = fst (civil_from_days n)"

text \<open>The day numbers whose dates the four-digit form can write.\<close>

definition four_digit :: "int \<Rightarrow> bool" where
  "four_digit n \<longleftrightarrow> 1 \<le> year_of n \<and> year_of n \<le> 9999"

lemma ymdOfUtcDate_parts:
  assumes "civil_from_days n = (y, m, d)" "four_digit n"
  shows "ymdOfUtcDate n = pad 4 y @ ''-'' @ pad 2 m @ ''-'' @ pad 2 d"
    "length (pad 4 y) = 4" "length (pad 2 m) = 2" "length (pad 2 d) = 2"
  using assms civil_from_days_ranges [OF assms(1)]
  by (auto simp: ymdOfUtcDate_def ymd_text_def padStart_pad four_digit_def year_of_def length_pad)

lemma pad_all_digits: "list_all is_digit (pad w n)"
  by (auto simp: list_all_iff dest: pad_digits)

lemma num_of_pad: "0 \<le> n \<Longrightarrow> num_of (pad w n) = n"
  by (simp add: num_of_def)

lemma nth_middle: "length a = n \<Longrightarrow> (a @ c # b) ! n = c"
  by (metis nth_append_length)

lemma YMD_ymdOfUtcDate:
  assumes "four_digit n"
  shows "YMD (ymdOfUtcDate n) = Some (civil_from_days n)"
proof -
  obtain y m d where c: "civil_from_days n = (y, m, d)" by (metis prod_cases3)
  note p = ymdOfUtcDate_parts [OF c assms]
  let ?y = "pad 4 y" and ?m = "pad 2 m" and ?d = "pad 2 d"
  let ?s = "?y @ CHR ''-'' # ?m @ CHR ''-'' # ?d"
  have cut: "take 4 ?s = ?y" "take 2 (drop 5 ?s) = ?m" "drop 8 ?s = ?d" "length ?s = 10"
    using p(2-4) by simp_all
  have "?s ! 4 = CHR ''-''" using nth_middle [OF p(2)] .
  moreover have "?s ! 7 = CHR ''-''"
    using nth_middle [of "?y @ CHR ''-'' # ?m" 7 "CHR ''-''" ?d] p(2,3) by simp
  moreover have "0 \<le> y" "0 \<le> m" "0 \<le> d"
    using assms civil_from_days_ranges [OF c] by (auto simp: four_digit_def year_of_def c)
  ultimately have "YMD ?s = Some (y, m, d)"
    unfolding YMD_def cut by (simp add: pad_all_digits num_of_pad)
  then show ?thesis using p(1) c by simp
qed

lemma isCalendarYmd_ymdOfUtcDate: "four_digit n \<Longrightarrow> isCalendarYmd (ymdOfUtcDate n)"
proof -
  assume f: "four_digit n"
  obtain y m d where c: "civil_from_days n = (y, m, d)" by (metis prod_cases3)
  with f civil_from_days_ranges [OF c] days_from_civil_from_days [OF c] YMD_ymdOfUtcDate [OF f]
  show ?thesis by (simp add: isCalendarYmd_def four_digit_def year_of_def)
qed

lemma isCalendarYmd_iff: "isCalendarYmd s \<longleftrightarrow> (\<exists>n. four_digit n \<and> s = ymdOfUtcDate n)"
proof
  assume s: "isCalendarYmd s"
  then obtain y m d where y: "YMD s = Some (y, m, d)" "1 \<le> y" "ymdOfUtcDate (days_from_civil y m d) = s"
    by (auto simp: isCalendarYmd_def split: option.splits if_splits)
  let ?n = "days_from_civil y m d"
  obtain y' m' d' where c: "civil_from_days ?n = (y', m', d')" by (metis prod_cases3)
  have len: "length s = 10" and dig: "list_all is_digit (take 4 s)" and yv: "y = num_of (take 4 s)"
    using y(1) by (auto simp: YMD_def split: if_splits)
  have sv: "s = padStart 4 (show_int y') @ CHR ''-'' # pad 2 m' @ CHR ''-'' # pad 2 d'"
    using y(3) civil_from_days_ranges [OF c] by (simp add: ymdOfUtcDate_def c ymd_text_def padStart_pad)
  have "length (pad 2 m') = 2" "length (pad 2 d') = 2" using civil_from_days_ranges [OF c] by (simp_all add: length_pad)
  with len sv have four: "length (padStart 4 (show_int y')) = 4" by simp
  with sv have t4: "take 4 s = padStart 4 (show_int y')" by simp
  have pos: "0 \<le> y'"
  proof (rule ccontr)
    assume "\<not> 0 \<le> y'"
    then have "CHR ''-'' \<in> set (take 4 s)" by (simp add: t4 padStart_def show_int_def)
    with dig show False by (auto simp: list_all_iff is_digit_def)
  qed
  then have "y = y'" using yv t4 by (simp add: padStart_pad num_of_pad)
  moreover have "y' \<le> 9999"
  proof (rule ccontr)
    assume "\<not> y' \<le> 9999"
    moreover have "nat_of_digits u < 10 ^ length u" if "list_all is_digit u" for u
      using that
    proof (induction u rule: rev_induct)
      case (snoc c u)
      then have "nat_of_digits u + 1 \<le> 10 ^ length u" "digit_val c \<le> 9" by (auto simp: digit_val_def is_digit_def)
      then show ?case by (simp add: nat_of_digits_snoc)
    qed (simp add: nat_of_digits_def)
    from this [OF dig] four have "y < 10000" by (simp add: yv num_of_def t4)
    ultimately show False using \<open>y = y'\<close> by simp
  qed
  moreover have "year_of ?n = y'" by (simp add: year_of_def c)
  ultimately have "four_digit ?n" using y(2) by (simp only: four_digit_def)
  with y(3) show "\<exists>n. four_digit n \<and> s = ymdOfUtcDate n" by metis
qed (auto simp: isCalendarYmd_ymdOfUtcDate)

lemma parseYmd_ymdOfUtcDate: "four_digit n \<Longrightarrow> parseYmd (ymdOfUtcDate n) = Return (civil_from_days n)"
  by (simp add: parseYmd_def YMD_ymdOfUtcDate isCalendarYmd_ymdOfUtcDate throw_if_def)

lemma parseYmd_Return:
  assumes "parseYmd s = Return (y, m, d)"
  obtains n where "four_digit n" "s = ymdOfUtcDate n" "civil_from_days n = (y, m, d)" "days_from_civil y m d = n"
proof -
  have "isCalendarYmd s" using assms by (auto simp: parseYmd_def split: option.splits)
  then obtain n where n: "four_digit n" "s = ymdOfUtcDate n" by (auto simp: isCalendarYmd_iff)
  with assms parseYmd_ymdOfUtcDate [OF n(1)] have "civil_from_days n = (y, m, d)" by simp
  with n days_from_civil_from_days that show thesis by blast
qed

lemma days_from_civil_shift: "days_from_civil y m (d + k) = days_from_civil y m d + k"
  by (simp add: days_from_civil_def Let_def)

lemma ymdAddDays_ymdOfUtcDate: "four_digit n \<Longrightarrow> ymdAddDays (ymdOfUtcDate n) k = Return (ymdOfUtcDate (n + k))"
  using parseYmd_ymdOfUtcDate [of n]
  by (cases "civil_from_days n") (simp add: ymdAddDays_def days_from_civil_shift days_from_civil_from_days)

lemma isoWeekdayOf_ymdOfUtcDate:
  "four_digit n \<Longrightarrow> isoWeekdayOf (ymdOfUtcDate n) = Return (if (n + 4) mod 7 = 0 then 7 else (n + 4) mod 7)"
  using parseYmd_ymdOfUtcDate [of n]
  by (cases "civil_from_days n") (simp add: isoWeekdayOf_def days_from_civil_from_days Let_def)


section \<open>The converter\<close>

text \<open>From March 1600 on the formatter's year is the civil year and \<^verbatim>\<open>Date.UTC\<close> takes it as it is.\<close>

definition modern :: "int \<Rightarrow> bool" where
  "modern day \<longleftrightarrow> -135080 \<le> day"

lemma modern_year: "modern n \<Longrightarrow> 1600 \<le> year_of n"
proof -
  assume "modern n"
  define z where "z = n + 719468"
  have "4 \<le> z div 146097" using \<open>modern n\<close> by (simp add: modern_def z_def zdiv_mono1 [of "4 * 146097", simplified])
  moreover have "0 \<le> era_year (z mod 146097)" using era_year_bounds [of "z mod 146097"] by simp
  ultimately show ?thesis
    unfolding year_of_def civil_from_days_def Let_def z_def [symmetric] by auto
qed

text \<open>
  What the code relies on of a zone's data: it is resolvable, its offsets are whole seconds and shorter than a
  day.
\<close>

definition zone_sane :: "zone_db \<Rightarrow> string \<Rightarrow> bool" where
  "zone_sane db tz \<longleftrightarrow> zd_resolve db tz \<noteq> None \<and> (\<forall>t. zd_offset db tz t mod 1000 = 0 \<and> \<bar>zd_offset db tz t\<bar> < day_ms)"

definition wall_of :: "zone_db \<Rightarrow> string \<Rightarrow> int \<Rightarrow> int" where
  "wall_of db tz t = t + zd_offset db tz t"

lemma day_clock: "r = time_of (r div 3600000) (r div 60000 mod 60) (r div 1000 mod 60) (r mod 1000)" for r :: int
  by (simp add: time_split)

lemma zone_fields_modern:
  assumes "modern (wall_of db tz t div day_ms)" "civil_from_days (wall_of db tz t div day_ms) = (y, m, d)"
  shows "zone_fields db tz t = (y, m, d, wall_of db tz t mod day_ms div 3600000, wall_of db tz t mod day_ms div 60000 mod 60,
      wall_of db tz t mod day_ms div 1000 mod 60)"
    "date_UTC y m d h mi s = wall_of db tz t div day_ms * day_ms + h * 3600000 + mi * 60000 + s * 1000"
proof -
  have y: "1600 \<le> y" using modern_year [OF assms(1)] assms(2) by (simp add: year_of_def)
  with assms(2) show "zone_fields db tz t = (y, m, d, wall_of db tz t mod day_ms div 3600000,
      wall_of db tz t mod day_ms div 60000 mod 60, wall_of db tz t mod day_ms div 1000 mod 60)"
    by (simp add: zone_fields_def wall_of_def Let_def shown_year_def)
  show "date_UTC y m d h mi s = wall_of db tz t div day_ms * day_ms + h * 3600000 + mi * 60000 + s * 1000"
    using y days_from_civil_from_days [OF assms(2)] by (simp add: date_UTC_def)
qed

lemma timeZoneOffsetMs_exact:
  assumes "zone_sane db tz" "t mod 1000 = 0" "modern (wall_of db tz t div day_ms)"
  shows "timeZoneOffsetMs db t tz = Return (zd_offset db tz t)"
proof -
  let ?w = "wall_of db tz t"
  obtain y m d where c: "civil_from_days (?w div day_ms) = (y, m, d)" by (metis prod_cases3)
  note f = zone_fields_modern [OF assms(3) c]
  define r where "r = ?w mod day_ms"
  have "?w mod 1000 = 0"
    using assms(1,2) mod_add_eq [of t 1000 "zd_offset db tz t"] by (simp add: zone_sane_def wall_of_def)
  moreover have "r mod 1000 = ?w mod 1000" unfolding r_def by (rule mod_mod_cancel) (simp add: day_ms_def)
  ultimately have r: "r = time_of (r div 3600000) (r div 60000 mod 60) (r div 1000 mod 60) 0" using day_clock [of r] by simp
  have "date_UTC y m d (r div 3600000) (r div 60000 mod 60) (r div 1000 mod 60) = ?w div day_ms * day_ms + r"
    unfolding f(2) by (subst (4) r) (simp only: time_of_def ac_simps add_0_right)
  then have "date_UTC y m d (r div 3600000) (r div 60000 mod 60) (r div 1000 mod 60) = ?w"
    unfolding r_def by (simp only: div_mult_mod_eq)
  then show ?thesis
    using assms(1) unfolding timeZoneOffsetMs_def f(1) zone_sane_def r_def by (auto simp: wall_of_def split: option.splits)
qed

lemma div_day_mono: "a \<le> b \<Longrightarrow> modern (a div day_ms) \<Longrightarrow> modern (b div day_ms)"
  unfolding modern_def using zdiv_mono1 [of a b day_ms] by (simp add: day_ms_def)

lemma day_shift: "(t - k * day_ms) div day_ms = t div day_ms - k"
  using div_mult_self1 [of day_ms t "- k"] by (simp add: day_ms_def)

lemma zone_sane_modern:
  assumes "zone_sane db tz" "modern (t div day_ms - 1)"
  shows "modern (wall_of db tz t div day_ms)"
proof (rule div_day_mono)
  show "t - day_ms \<le> wall_of db tz t" using assms(1) unfolding zone_sane_def wall_of_def by (smt (verit))
  show "modern ((t - day_ms) div day_ms)" using assms(2) day_shift [of t 1] by simp
qed

text \<open>Between a day before and a day after the wall clock the zone changes its offset at most once.\<close>

definition one_change :: "zone_db \<Rightarrow> string \<Rightarrow> int \<Rightarrow> bool" where
  "one_change db tz wall \<longleftrightarrow> (\<forall>t. wall - day_ms \<le> t \<and> t \<le> wall + day_ms \<longrightarrow>
     zd_offset db tz t \<in> {zd_offset db tz (wall - day_ms), zd_offset db tz (wall + day_ms)})"

lemma wallClockToUtc_exact:
  assumes sane: "zone_sane db tz" and whole: "wall mod 1000 = 0" and m: "modern (wall div day_ms - 3)"
  shows "wallClockToUtc db wall tz =
    (let before = zd_offset db tz (wall - day_ms); after = zd_offset db tz (wall + day_ms);
         valid = filter (\<lambda>i. wall_of db tz i = wall) (map (\<lambda>off. wall - off) (if before = after then [before] else [before, after]))
     in Some (if valid \<noteq> [] then Min (set valid) else wall - before))"
proof -
  have exact: "timeZoneOffsetMs db t tz = Return (zd_offset db tz t)" if "t mod 1000 = 0" "wall - 2 * day_ms \<le> t" for t
  proof (rule timeZoneOffsetMs_exact [OF sane that(1) zone_sane_modern [OF sane]])
    have "modern ((wall - 2 * day_ms) div day_ms - 1)" using m by (simp add: day_shift)
    moreover have "(wall - 2 * day_ms) div day_ms \<le> t div day_ms" using that(2) by (intro zdiv_mono1) (simp_all add: day_ms_def)
    ultimately show "modern (t div day_ms - 1)" by (simp add: modern_def)
  qed
  have off: "(wall - zd_offset db tz u) mod 1000 = 0 \<and> wall - 2 * day_ms \<le> wall - zd_offset db tz u" for u
    using sane whole mod_diff_eq [of wall 1000 "zd_offset db tz u"] unfolding zone_sane_def by (auto, smt (verit))
  have probes: "timeZoneOffsetMs db (wall - day_ms) tz = Return (zd_offset db tz (wall - day_ms))"
    "timeZoneOffsetMs db (wall + day_ms) tz = Return (zd_offset db tz (wall + day_ms))"
    using whole mod_diff_eq [of wall 1000 day_ms] mod_add_eq [of wall 1000 day_ms] by (auto intro!: exact simp: day_ms_def)
  have fx: "timeZoneOffsetMs db (wall - zd_offset db tz u) tz = Return (wall - (wall - zd_offset db tz u))
      \<longleftrightarrow> wall_of db tz (wall - zd_offset db tz u) = wall" for u
    using exact off [of u] by (auto simp: wall_of_def)
  let ?b = "zd_offset db tz (wall - day_ms)" and ?a = "zd_offset db tz (wall + day_ms)"
  have "filter (\<lambda>i. timeZoneOffsetMs db i tz = Return (wall - i)) (map (\<lambda>off. wall - off) (if ?b = ?a then [?b] else [?b, ?a]))
      = filter (\<lambda>i. wall_of db tz i = wall) (map (\<lambda>off. wall - off) (if ?b = ?a then [?b] else [?b, ?a]))"
    by (intro filter_cong refl) (use fx [of "wall - day_ms"] fx [of "wall + day_ms"] in \<open>auto split: if_splits\<close>)
  then show ?thesis unfolding wallClockToUtc_def probes Let_def by simp
qed

text \<open>
  The wall-clock converter follows RFC 5545 section 3.3.5: where the zone changes its offset at most once
  around a wall clock, the result is the first instant that shows it, and when no instant shows it (the clocks
  were put forward over it) it is read at the offset before the gap.
\<close>

theorem converter_first_occurrence:
  assumes "zone_sane db tz" "one_change db tz wall" "wall mod 1000 = 0" "modern (wall div day_ms - 3)"
  shows "\<exists>t. wallClockToUtc db wall tz = Some t
    \<and> (if \<exists>u. wall_of db tz u = wall then wall_of db tz t = wall \<and> (\<forall>u. wall_of db tz u = wall \<longrightarrow> t \<le> u)
       else t = wall - zd_offset db tz (wall - day_ms))"
proof -
  let ?b = "zd_offset db tz (wall - day_ms)" and ?a = "zd_offset db tz (wall + day_ms)"
  define offs where "offs = (if ?b = ?a then [?b] else [?b, ?a])"
  define valid where "valid = filter (\<lambda>i. wall_of db tz i = wall) (map (\<lambda>off. wall - off) offs)"
  have res: "wallClockToUtc db wall tz = Some (if valid \<noteq> [] then Min (set valid) else wall - ?b)"
    unfolding wallClockToUtc_exact [OF assms(1,3,4)] Let_def valid_def offs_def by simp
  have all: "u \<in> set valid \<longleftrightarrow> wall_of db tz u = wall" for u
  proof
    assume u: "wall_of db tz u = wall"
    moreover have "\<bar>zd_offset db tz u\<bar> < day_ms" using assms(1) by (simp add: zone_sane_def)
    ultimately have "wall - day_ms \<le> u \<and> u \<le> wall + day_ms" by (auto simp: wall_of_def)
    with assms(2) have "zd_offset db tz u \<in> {?b, ?a}" by (auto simp: one_change_def)
    with u show "u \<in> set valid" by (auto simp: valid_def offs_def wall_of_def)
  qed (simp add: valid_def)
  show ?thesis
  proof (cases "valid = []")
    case True
    with all have "\<nexists>u. wall_of db tz u = wall" by auto
    with True res show ?thesis by simp
  next
    case False
    then have "Min (set valid) \<in> set valid" "\<And>u. u \<in> set valid \<Longrightarrow> Min (set valid) \<le> u" by simp_all
    with all False res show ?thesis by auto
  qed
qed

text \<open>The witness: Central European time around the spring change of 2026, at half past two, which no clock shows.\<close>

definition spring_zone :: zone_db where
  "spring_zone = \<lparr>zd_resolve = Some, zd_offset = (\<lambda>tz t. if t < 1774746000000 then 3600000 else 7200000)\<rparr>"

theorem converter_first_occurrence_witness:
  "wallClockToUtc spring_zone 1774751400000 ''Europe/Berlin'' = Some 1774747800000"
proof -
  have "zone_sane spring_zone ''Europe/Berlin''" by (simp add: zone_sane_def spring_zone_def day_ms_def)
  moreover have "one_change spring_zone ''Europe/Berlin'' 1774751400000"
    by (simp add: one_change_def spring_zone_def day_ms_def)
  moreover have "\<nexists>u. wall_of spring_zone ''Europe/Berlin'' u = 1774751400000"
    by (auto simp: wall_of_def spring_zone_def)
  ultimately show ?thesis
    using converter_first_occurrence [of spring_zone "''Europe/Berlin''" 1774751400000]
    by (simp add: modern_def day_ms_def) (simp add: spring_zone_def)
qed

end
