(* ===== verification/Business_Time.thy ===== *)
theory Business_Time
  imports Zoned_Time Json
begin

text \<open>
  Business time: \<open>services/support/business-time.ts\<close>.  A calendar is a time zone, weekly windows and
  holidays; business time is the union of the windows' extents on the line of instants.  The two
  operations walk the days from the day before the start; here the walk is a recursion on the days
  left to scan, which is the bound of the loop.  The caches of compiled calendars and days only save
  work and are left out.  Lengths are whole milliseconds, as every caller passes them; an instant is
  \<open>None\<close> when the date is invalid.
\<close>

section \<open>Calendars\<close>

record business_window =
  bw_day :: int
  bw_start :: string
  bw_end :: string

record business_calendar =
  bc_timezone :: string
  bc_windows :: "business_window list"
  bc_holidays :: "string list"

definition MAX_WINDOWS :: nat where
  "MAX_WINDOWS = 100"

definition MAX_HOLIDAYS :: nat where
  "MAX_HOLIDAYS = 2000"

definition MAX_SCAN_DAYS :: nat where
  "MAX_SCAN_DAYS = 3660"

definition MINUTE_MS :: int where
  "MINUTE_MS = 60000"

datatype range_error =
    Not_a_time
  | Calendar_not_object
  | Not_a_zone
  | Windows_not_list
  | Too_many_windows
  | Holidays_not_list
  | Too_many_holidays
  | Window_not_object nat
  | Bad_day nat
  | Bad_holiday
  | No_windows
  | Empty_window string
  | Invalid_instant
  | Negative_length
  | No_business_hours
  | Out_of_scan
  | Span_too_long
  | Zoned zoned_error

definition parseClock :: "string \<Rightarrow> bool \<Rightarrow> (range_error, int) result" where
  "parseClock value allow24 =
     (if length value = 5 \<and> list_all is_digit (take 2 value) \<and> value ! 2 = CHR '':'' \<and> list_all is_digit (drop 3 value)
      then (let hours = num_of (take 2 value); minutes = num_of (drop 3 value)
            in if 59 < minutes then Throw Not_a_time
               else if hours = 24 \<and> minutes = 0 \<and> allow24 then Return 1440
               else if 23 < hours then Throw Not_a_time
               else Return (hours * 60 + minutes))
      else Throw Not_a_time)"

text \<open>A clock that may not be a string at all.\<close>

definition parseClockValue :: "json option \<Rightarrow> bool \<Rightarrow> (range_error, int) result" where
  "parseClockValue v allow24 = (case v of Some (JStr s) \<Rightarrow> parseClock s allow24 | _ \<Rightarrow> Throw Not_a_time)"

definition day_number :: "json option \<Rightarrow> int option" where
  "day_number v =
     (case v of Some (JNum s) \<Rightarrow> if s \<in> set (map show_nat [0..<7]) then Some (num_of s) else None | _ \<Rightarrow> None)"

definition string_of :: "json option \<Rightarrow> string" where
  "string_of v = (case v of Some (JStr s) \<Rightarrow> s | _ \<Rightarrow> [])"

definition checkWindow :: "nat \<Rightarrow> json \<Rightarrow> (range_error, business_window) result" where
  "checkWindow i w =
     (case w of
        JObj kvs \<Rightarrow>
          (case day_number (map_of kvs ''day'') of
             None \<Rightarrow> Throw (Bad_day (i + 1))
           | Some day \<Rightarrow>
               andThen (parseClockValue (map_of kvs ''start'') False) (\<lambda>_.
               andThen (parseClockValue (map_of kvs ''end'') True) (\<lambda>_.
                 Return \<lparr>bw_day = day, bw_start = string_of (map_of kvs ''start''), bw_end = string_of (map_of kvs ''end'')\<rparr>)))
      | _ \<Rightarrow> Throw (Window_not_object (i + 1)))"

fun checkWindows :: "nat \<Rightarrow> json list \<Rightarrow> (range_error, business_window list) result" where
  "checkWindows i [] = Return []"
| "checkWindows i (w # ws) =
     andThen (checkWindow i w) (\<lambda>x. andThen (checkWindows (i + 1) ws) (\<lambda>xs. Return (x # xs)))"

fun checkHolidays :: "json list \<Rightarrow> (range_error, string list) result" where
  "checkHolidays [] = Return []"
| "checkHolidays (h # hs) =
     (case h of
        JStr s \<Rightarrow> if isCalendarYmd s then andThen (checkHolidays hs) (\<lambda>xs. Return (s # xs)) else Throw Bad_holiday
      | _ \<Rightarrow> Throw Bad_holiday)"

definition checkShape :: "zone_db \<Rightarrow> json \<Rightarrow> (range_error, business_calendar) result" where
  "checkShape db input =
     (case input of
        JObj kvs \<Rightarrow>
          (case map_of kvs ''timezone'' of
             Some (JStr tz) \<Rightarrow>
               if \<not> isValidIanaZone db tz then Throw Not_a_zone
               else (case map_of kvs ''windows'' of
                   Some (JArr ws) \<Rightarrow>
                     if MAX_WINDOWS < length ws then Throw Too_many_windows
                     else (case map_of kvs ''holidays'' of
                         Some (JArr hs) \<Rightarrow>
                           if MAX_HOLIDAYS < length hs then Throw Too_many_holidays
                           else andThen (checkWindows 0 ws) (\<lambda>windows.
                                andThen (checkHolidays hs) (\<lambda>holidays.
                                  Return \<lparr>bc_timezone = tz, bc_windows = windows, bc_holidays = holidays\<rparr>))
                       | _ \<Rightarrow> Throw Holidays_not_list)
                 | _ \<Rightarrow> Throw Windows_not_list)
           | _ \<Rightarrow> Throw Not_a_zone)
      | _ \<Rightarrow> Throw Calendar_not_object)"

text \<open>The minutes of a clock already checked.\<close>

definition clock_minutes :: "string \<Rightarrow> bool \<Rightarrow> int" where
  "clock_minutes s allow24 = (case parseClock s allow24 of Inr m \<Rightarrow> m | Inl _ \<Rightarrow> 0)"

definition window_order :: "business_window \<Rightarrow> int" where
  "window_order w = bw_day w * 10000000 + clock_minutes (bw_start w) False * 2000 + clock_minutes (bw_end w) True"

definition validateCalendarForSave :: "zone_db \<Rightarrow> json \<Rightarrow> (range_error, business_calendar) result" where
  "validateCalendarForSave db input =
     andThen (checkShape db input) (\<lambda>cal.
       if bc_windows cal = [] then Throw No_windows
       else (case find (\<lambda>w. clock_minutes (bw_start w) False = clock_minutes (bw_end w) True) (bc_windows cal) of
           Some w \<Rightarrow> Throw (Empty_window (bw_start w))
         | None \<Rightarrow>
             (case canonicalZone db (bc_timezone cal) of
                Inl e \<Rightarrow> Throw (Zoned e)
              | Inr tz \<Rightarrow> Return \<lparr>bc_timezone = tz, bc_windows = sort_key window_order (bc_windows cal),
                  bc_holidays = sort (remdups (bc_holidays cal))\<rparr>)))"

section \<open>Compilation\<close>

type_synonym segment = "int \<times> int"

record compiled =
  co_tz :: string
  co_byWeekday :: "int \<Rightarrow> segment list"
  co_holidays :: "string list"
  co_empty :: bool

definition window_segment :: "business_window \<Rightarrow> segment list" where
  "window_segment w =
     (let s = clock_minutes (bw_start w) False; e = clock_minutes (bw_end w) True
      in if e = s then [] else [(s, if e < s then e + 1440 else e)])"

definition segments_of :: "business_window list \<Rightarrow> int \<Rightarrow> segment list" where
  "segments_of ws day = concat (map window_segment (filter (\<lambda>w. bw_day w = day) ws))"

text \<open>The merge loop, on the merged list from its last segment back.\<close>

fun merge_step :: "segment list \<Rightarrow> segment \<Rightarrow> segment list" where
  "merge_step [] (s, e) = [(s, e)]"
| "merge_step ((ls, le) # rest) (s, e) =
     (if s \<le> le then (ls, max le e) # rest else (s, e) # (ls, le) # rest)"

definition merge_segments :: "segment list \<Rightarrow> segment list" where
  "merge_segments segs = rev (foldl merge_step [] (sort_key fst (sort_key snd segs)))"

text \<open>A typed calendar is checked again as the object it is.\<close>

definition calendar_json :: "business_calendar \<Rightarrow> json" where
  "calendar_json cal =
     JObj [(''timezone'', JStr (bc_timezone cal)),
       (''windows'', JArr (map (\<lambda>w. JObj [(''day'', JNum (show_int (bw_day w))), (''start'', JStr (bw_start w)), (''end'', JStr (bw_end w))])
          (bc_windows cal))),
       (''holidays'', JArr (map JStr (bc_holidays cal)))]"

definition compile :: "zone_db \<Rightarrow> business_calendar \<Rightarrow> (range_error, compiled) result" where
  "compile db calendar =
     andThen (checkShape db (calendar_json calendar)) (\<lambda>cal.
       let byWeekday = (\<lambda>d. merge_segments (segments_of (bc_windows cal) d))
       in Return \<lparr>co_tz = bc_timezone cal, co_byWeekday = byWeekday, co_holidays = bc_holidays cal,
          co_empty = list_all (\<lambda>d. byWeekday d = []) [0..6]\<rparr>)"

section \<open>Days and intervals\<close>

definition dayNumberOf :: "string \<Rightarrow> (zoned_error, int) result" where
  "dayNumberOf ymd = andThen (parseYmd ymd) (\<lambda>(y, m, d). Return (days_from_civil y m d))"

definition ymdOfDay :: "int \<Rightarrow> string" where
  "ymdOfDay n = take 10 (toISOString (n * day_ms))"

definition weekdayOfDay :: "int \<Rightarrow> int" where
  "weekdayOfDay n = (n + 4) mod 7"

definition instantAt :: "zone_db \<Rightarrow> compiled \<Rightarrow> int \<Rightarrow> int \<Rightarrow> (zoned_error, int) result" where
  "instantAt db c n minute =
     (if 1440 \<le> minute then zonedDateMinuteToUtc db (ymdOfDay (n + 1)) (minute - 1440) (co_tz c)
      else zonedDateMinuteToUtc db (ymdOfDay n) minute (co_tz c))"

fun window_intervals :: "zone_db \<Rightarrow> compiled \<Rightarrow> int \<Rightarrow> segment list \<Rightarrow> (zoned_error, (int \<times> int) list) result" where
  "window_intervals db c n [] = Return []"
| "window_intervals db c n ((s, e) # segs) =
     andThen (instantAt db c n s) (\<lambda>from.
     andThen (instantAt db c n e) (\<lambda>to.
     andThen (window_intervals db c n segs) (\<lambda>rest.
       Return (if from < to then (from, to) # rest else rest))))"

definition intervalsOf :: "zone_db \<Rightarrow> compiled \<Rightarrow> int \<Rightarrow> (zoned_error, (int \<times> int) list) result" where
  "intervalsOf db c n =
     (if ymdOfDay n \<in> set (co_holidays c) then Return []
      else andThen (window_intervals db c n (co_byWeekday c (weekdayOfDay n))) (\<lambda>ivs. Return (sort_key fst ivs)))"

section \<open>Adding business time\<close>

text \<open>The intervals of one day: the instant found, or what is left and the position reached.\<close>

fun spend :: "(int \<times> int) list \<Rightarrow> int \<Rightarrow> int \<Rightarrow> int + (int \<times> int)" where
  "spend [] remaining pos = Inr (remaining, pos)"
| "spend ((s, e) # ivs) remaining pos =
     (let lo = max s pos
      in if e \<le> lo then spend ivs remaining pos
         else if remaining \<le> e - lo then Inl (lo + remaining)
         else spend ivs (remaining - (e - lo)) e)"

fun add_scan :: "zone_db \<Rightarrow> compiled \<Rightarrow> nat \<Rightarrow> int \<Rightarrow> int \<Rightarrow> int \<Rightarrow> (range_error, int) result" where
  "add_scan db c 0 n remaining pos = Throw Out_of_scan"
| "add_scan db c (Suc k) n remaining pos =
     (case intervalsOf db c n of
        Inl e \<Rightarrow> Throw (Zoned e)
      | Inr ivs \<Rightarrow>
          (case spend ivs remaining pos of
             Inl t \<Rightarrow> Return t
           | Inr (remaining', pos') \<Rightarrow> add_scan db c k (n + 1) remaining' pos'))"

definition first_day :: "zone_db \<Rightarrow> compiled \<Rightarrow> int \<Rightarrow> (range_error, int) result" where
  "first_day db c from =
     (case andThen (localPartsOf db from (co_tz c)) (\<lambda>p. dayNumberOf (lp_ymd p)) of
        Inl e \<Rightarrow> Throw (Zoned e) | Inr n \<Rightarrow> Return (n - 1))"

definition addBusinessMs :: "zone_db \<Rightarrow> int option \<Rightarrow> int \<Rightarrow> business_calendar option \<Rightarrow> (range_error, int) result" where
  "addBusinessMs db start ms calendar =
     andThen (some_or Invalid_instant start) (\<lambda>from.
       if ms < 0 then Throw Negative_length
       else if ms = 0 then Return from
       else (case calendar of
           None \<Rightarrow> Return (from + ms)
         | Some cal \<Rightarrow>
             andThen (compile db cal) (\<lambda>c.
               if co_empty c then Throw No_business_hours
               else andThen (first_day db c from) (\<lambda>n. add_scan db c (MAX_SCAN_DAYS + 1) n ms from))))"

section \<open>Measuring business time\<close>

fun measure_day :: "(int \<times> int) list \<Rightarrow> int \<Rightarrow> int \<Rightarrow> int \<Rightarrow> int + (int \<times> int)" where
  "measure_day [] to acc pos = Inr (acc, pos)"
| "measure_day ((s, e) # ivs) to acc pos =
     (if to \<le> s then Inl acc
      else let lo = max s pos; hi = min e to; acc' = (if lo < hi then acc + (hi - lo) else acc); pos' = max pos e
           in if to \<le> pos' then Inl acc' else measure_day ivs to acc' pos')"

fun measure_scan :: "zone_db \<Rightarrow> compiled \<Rightarrow> nat \<Rightarrow> int \<Rightarrow> int \<Rightarrow> int \<Rightarrow> int \<Rightarrow> (range_error, int) result" where
  "measure_scan db c 0 n to acc pos = Throw Span_too_long"
| "measure_scan db c (Suc k) n to acc pos =
     (case intervalsOf db c n of
        Inl e \<Rightarrow> Throw (Zoned e)
      | Inr ivs \<Rightarrow>
          (case measure_day ivs to acc pos of
             Inl acc' \<Rightarrow> Return acc'
           | Inr (acc', pos') \<Rightarrow> measure_scan db c k (n + 1) to acc' pos'))"

definition business_span :: "zone_db \<Rightarrow> int \<Rightarrow> int \<Rightarrow> business_calendar option \<Rightarrow> (range_error, int) result" where
  "business_span db from to calendar =
     (case calendar of
        None \<Rightarrow> Return (to - from)
      | Some cal \<Rightarrow>
          andThen (compile db cal) (\<lambda>c.
            if co_empty c then Return 0
            else andThen (first_day db c from) (\<lambda>n. measure_scan db c (MAX_SCAN_DAYS + 1) n to 0 from)))"

definition businessMsBetween :: "zone_db \<Rightarrow> int option \<Rightarrow> int option \<Rightarrow> business_calendar option \<Rightarrow> (range_error, int) result" where
  "businessMsBetween db a b calendar =
     andThen (some_or Invalid_instant a) (\<lambda>from.
     andThen (some_or Invalid_instant b) (\<lambda>to.
       if from = to then Return 0
       else if to < from then andThen (business_span db to from calendar) (\<lambda>ms. Return (- ms))
       else business_span db from to calendar))"

definition addBusinessMinutes :: "zone_db \<Rightarrow> int option \<Rightarrow> int \<Rightarrow> business_calendar option \<Rightarrow> (range_error, int) result" where
  "addBusinessMinutes db start minutes calendar =
     seq (throw_if (minutes < 0) Negative_length) (addBusinessMs db start (minutes * MINUTE_MS) calendar)"


section \<open>Merging windows\<close>

text \<open>The minutes of the day a list of segments covers.\<close>

definition covered :: "(int \<times> int) list \<Rightarrow> int set" where
  "covered segs = (\<Union>(s, e)\<in>set segs. {s..<e})"

lemma covered_simps [simp]:
  "covered [] = {}" "covered ((s, e) # segs) = {s..<e} \<union> covered segs" "covered (a @ b) = covered a \<union> covered b"
  "covered (rev a) = covered a"
  by (auto simp: covered_def)

lemma covered_set: "set a = set b \<Longrightarrow> covered a = covered b"
  by (simp add: covered_def)

fun apart :: "(int \<times> int) list \<Rightarrow> bool" where
  "apart [] = True"
| "apart [(s, e)] = (s < e)"
| "apart ((s, e) # (s', e') # segs) = (s < e \<and> e < s' \<and> apart ((s', e') # segs))"

text \<open>What the rest of the file relies on of a merge: the same minutes, in separate segments, in order.\<close>

locale segment_merge =
  fixes merge :: "(int \<times> int) list \<Rightarrow> (int \<times> int) list"
  assumes merge_covers: "\<forall>(s, e)\<in>set segs. s < e \<Longrightarrow> covered (merge segs) = covered segs"
    and merge_apart: "\<forall>(s, e)\<in>set segs. s < e \<Longrightarrow> apart (merge segs)"
    and merge_starts: "fst ` set (merge segs) \<subseteq> fst ` set segs"
begin

lemma apart_pos: "apart segs \<Longrightarrow> (s, e) \<in> set segs \<Longrightarrow> s < e"
  by (induction segs rule: apart.induct) auto

lemma merged_pos: "\<forall>(s, e)\<in>set segs. s < e \<Longrightarrow> (s, e) \<in> set (merge segs) \<Longrightarrow> s < e"
  using merge_apart apart_pos by blast

lemma merged_end: "\<forall>(s, e)\<in>set segs. s < e \<Longrightarrow> (s, e) \<in> set (merge segs) \<Longrightarrow> e - 1 \<in> covered segs"
proof -
  assume pos: "\<forall>(s, e)\<in>set segs. s < e" and m: "(s, e) \<in> set (merge segs)"
  from merged_pos [OF pos m] m have "e - 1 \<in> covered (merge segs)"
    unfolding covered_def by (auto intro!: bexI [of _ "(s, e)"])
  with merge_covers [OF pos] show ?thesis by simp
qed

lemma merged_start: "(s, e) \<in> set (merge segs) \<Longrightarrow> \<exists>e'. (s, e') \<in> set segs"
  using merge_starts [of segs] by force

end

fun apart_back :: "(int \<times> int) list \<Rightarrow> bool" where
  "apart_back [] = True"
| "apart_back [(s, e)] = (s < e)"
| "apart_back ((s, e) # (s', e') # segs) = (s < e \<and> e' < s \<and> apart_back ((s', e') # segs))"

lemma apart_snoc: "apart (segs @ [(a, b)]) \<Longrightarrow> b < s \<Longrightarrow> s < e \<Longrightarrow> apart (segs @ [(a, b), (s, e)])"
  by (induction segs rule: apart.induct) auto

lemma apart_rev: "apart_back segs \<Longrightarrow> apart (rev segs)"
proof (induction segs rule: apart_back.induct)
  case (3 s e s' e' segs)
  then show ?case using apart_snoc [of "rev segs" s' e' s e] by simp
qed auto

lemma merge_step_inv:
  assumes "apart_back acc" "s < e" "\<forall>(a, b)\<in>set acc. a \<le> s"
  shows "apart_back (merge_step acc (s, e))" "covered (merge_step acc (s, e)) = covered acc \<union> {s..<e}"
    "\<forall>(a, b)\<in>set (merge_step acc (s, e)). a \<le> s"
proof -
  show "apart_back (merge_step acc (s, e))"
    using assms by (cases acc rule: apart_back.cases) auto
  show "covered (merge_step acc (s, e)) = covered acc \<union> {s..<e}"
    using assms by (cases acc) (auto split: if_splits)
  show "\<forall>(a, b)\<in>set (merge_step acc (s, e)). a \<le> s"
    using assms by (cases acc) (auto split: if_splits)
qed

lemma foldl_merge:
  assumes "apart_back acc" "\<forall>(s, e)\<in>set segs. s < e \<and> (\<forall>(a, b)\<in>set acc. a \<le> s)" "sorted (map fst segs)"
  shows "apart_back (foldl merge_step acc segs) \<and> covered (foldl merge_step acc segs) = covered acc \<union> covered segs"
  using assms
proof (induction segs arbitrary: acc)
  case (Cons p segs)
  obtain s e where p: "p = (s, e)" by fastforce
  with Cons.prems have pre: "apart_back acc" "s < e" "\<forall>(a, b)\<in>set acc. a \<le> s" by auto
  note m = merge_step_inv [OF pre]
  have "\<forall>(x, y)\<in>set segs. x < y \<and> (\<forall>(a, b)\<in>set (merge_step acc (s, e)). a \<le> x)"
    using Cons.prems(2,3) m(3) by (fastforce simp: p)
  from Cons.IH [OF m(1) this] Cons.prems(3) m(2) show ?case by (simp add: p Un_assoc)
qed simp

lemma foldl_merge_starts: "fst ` set (foldl merge_step acc segs) \<subseteq> fst ` set acc \<union> fst ` set segs"
proof (induction segs arbitrary: acc)
  case (Cons p segs)
  have "fst ` set (merge_step acc p) \<subseteq> insert (fst p) (fst ` set acc)"
    by (cases p; cases acc) (auto split: if_splits)
  with Cons.IH [of "merge_step acc p"] show ?case by auto
qed simp

interpretation segs: segment_merge merge_segments
proof
  fix segs :: "(int \<times> int) list"
  assume pos: "\<forall>(s, e)\<in>set segs. s < e"
  let ?l = "sort_key fst (sort_key snd segs)"
  have *: "apart_back (foldl merge_step [] ?l) \<and> covered (foldl merge_step [] ?l) = covered [] \<union> covered ?l"
    by (rule foldl_merge) (use pos in auto)
  then show "covered (merge_segments segs) = covered segs"
    using covered_set [of ?l segs] by (simp add: merge_segments_def)
  show "apart (merge_segments segs)" using * apart_rev by (simp add: merge_segments_def)
next
  fix segs :: "(int \<times> int) list"
  show "fst ` set (merge_segments segs) \<subseteq> fst ` set segs"
    using foldl_merge_starts [of "[]" "sort_key fst (sort_key snd segs)"] by (simp add: merge_segments_def)
qed

section \<open>The segments of a compiled calendar\<close>

lemma nat_of_digits_bound: "list_all is_digit u \<Longrightarrow> nat_of_digits u < 10 ^ length u"
proof (induction u rule: rev_induct)
  case (snoc c u)
  then have "nat_of_digits u + 1 \<le> 10 ^ length u" "digit_val c \<le> 9" by (auto simp: digit_val_def is_digit_def)
  then show ?case by (simp add: nat_of_digits_snoc)
qed (simp add: nat_of_digits_def)

lemma parseClock_range: "parseClock v a = Return m \<Longrightarrow> 0 \<le> m \<and> m \<le> 1440 \<and> (m < 1440 \<or> a)"
  by (auto simp: parseClock_def Let_def num_of_def split: if_splits)

lemma clock_minutes_range: "0 \<le> clock_minutes s a" "clock_minutes s a \<le> 1440" "clock_minutes s False < 1440"
  using parseClock_range [of s a] parseClock_range [of s False]
  by (auto simp: clock_minutes_def split: sum.splits)

lemma segments_of_range:
  "(s, e) \<in> set (segments_of ws d) \<Longrightarrow> 0 \<le> s \<and> s < 1440 \<and> s < e \<and> e < 2880"
proof -
  assume "(s, e) \<in> set (segments_of ws d)"
  then obtain w where "(s, e) \<in> set (window_segment w)" by (auto simp: segments_of_def)
  with clock_minutes_range(1,3) [of "bw_start w"] clock_minutes_range(1,2) [of "bw_end w" True] show ?thesis
    by (auto simp: window_segment_def Let_def split: if_splits)
qed

lemma segments_pos: "\<forall>(s, e)\<in>set (segments_of ws d). s < e"
  using segments_of_range by blast

lemma compile_Return:
  "compile db cal = Return c \<Longrightarrow> \<exists>x. checkShape db (calendar_json cal) = Return x \<and> co_tz c = bc_timezone x
     \<and> (\<forall>d. co_byWeekday c d = merge_segments (segments_of (bc_windows x) d)) \<and> co_holidays c = bc_holidays x"
  by (auto simp: compile_def andThen_eq_Return Let_def)

lemma byWeekday_range:
  assumes "compile db cal = Return c" "(s, e) \<in> set (co_byWeekday c d)"
  shows "0 \<le> s \<and> s < 1440 \<and> s < e \<and> e < 2880"
proof -
  obtain cal' :: business_calendar where c: "co_byWeekday c d = merge_segments (segments_of (bc_windows cal') d)"
    using compile_Return [OF assms(1)] by metis
  have m: "(s, e) \<in> set (merge_segments (segments_of (bc_windows cal') d))" using assms(2) c by simp
  obtain e' where "(s, e') \<in> set (segments_of (bc_windows cal') d)" using segs.merged_start [OF m] by blast
  moreover from segs.merged_end [OF segments_pos m] obtain x y where "(x, y) \<in> set (segments_of (bc_windows cal') d)" "e - 1 < y"
    by (auto simp: covered_def)
  ultimately show ?thesis using segs.merged_pos [OF segments_pos m] segments_of_range by fastforce
qed

text \<open>
  Compiling a calendar loses and adds no minute: on each weekday the merged segments cover exactly the
  minutes of the windows that start on it (an end before its start runs past midnight), they are in order,
  and no two touch.
\<close>

theorem compiled_minutes_exact:
  assumes "compile db cal = Return c"
  shows "\<exists>ws. checkShape db (calendar_json cal) = Return ws \<and> apart (co_byWeekday c d)
    \<and> covered (co_byWeekday c d) = (\<Union>w\<in>{w \<in> set (bc_windows ws). bw_day w = d}.
        let s = clock_minutes (bw_start w) False; e = clock_minutes (bw_end w) True
        in if e < s then {s..<e + 1440} else {s..<e})"
proof -
  obtain ws where ws: "checkShape db (calendar_json cal) = Return ws"
    and c: "co_byWeekday c d = merge_segments (segments_of (bc_windows ws) d)"
    using compile_Return [OF assms] by metis
  have one: "covered (window_segment w) = (let s = clock_minutes (bw_start w) False; e = clock_minutes (bw_end w) True
        in if e < s then {s..<e + 1440} else {s..<e})" for w
    by (auto simp: window_segment_def Let_def)
  have "covered (segments_of (bc_windows ws) d) = (\<Union>w\<in>{w \<in> set (bc_windows ws). bw_day w = d}. covered (window_segment w))"
    by (auto simp: segments_of_def covered_def)
  with ws c segs.merge_covers [OF segments_pos] segs.merge_apart [OF segments_pos] show ?thesis by (simp add: one)
qed

definition sample_calendar :: business_calendar where
  "sample_calendar = \<lparr>bc_timezone = ''UTC'', bc_windows = [\<lparr>bw_day = 4, bw_start = ''09:00'', bw_end = ''13:00''\<rparr>,
     \<lparr>bw_day = 4, bw_start = ''12:00'', bw_end = ''17:00''\<rparr>, \<lparr>bw_day = 5, bw_start = ''22:00'', bw_end = ''06:00''\<rparr>],
     bc_holidays = [''1970-01-09'']\<rparr>"

definition utc_db :: zone_db where
  "utc_db = \<lparr>zd_resolve = (\<lambda>tz. if tz = ''UTC'' then Some tz else None), zd_offset = (\<lambda>_ _. 0)\<rparr>"

lemma sample_compiles: "\<exists>c. compile utc_db sample_calendar = Return c \<and> co_tz c = ''UTC'' \<and> \<not> co_empty c
    \<and> co_byWeekday c 4 = [(540, 1020)] \<and> co_byWeekday c 5 = [(1320, 1800)] \<and> co_holidays c = [''1970-01-09'']"
proof -
  have "checkShape utc_db (calendar_json sample_calendar) = Return sample_calendar" by code_simp
  moreover have "merge_segments (segments_of (bc_windows sample_calendar) 4) = [(540, 1020)]"
    "merge_segments (segments_of (bc_windows sample_calendar) 5) = [(1320, 1800)]" by code_simp+
  ultimately show ?thesis by (simp add: compile_def Let_def sample_calendar_def upto.simps)
qed

theorem compiled_minutes_exact_witness:
  "\<exists>c. compile utc_db sample_calendar = Return c \<and> covered (co_byWeekday c 5) = {1320..<1800} \<and> apart (co_byWeekday c 5)"
proof -
  obtain c where c: "compile utc_db sample_calendar = Return c" "co_byWeekday c 5 = [(1320, 1800)]" using sample_compiles by blast
  from compiled_minutes_exact [OF c(1), of 5] c show ?thesis by auto
qed

end
