(* ===== verification/Business_Measure.thy ===== *)
theory Business_Measure
  imports Business_Time
begin

text \<open>
  Business time measured.  The specification is a set of instants, the business time of a calendar, and its
  measure: \<open>bm S a b\<close> counts the milliseconds of \<open>S\<close> from \<open>a\<close> up to \<open>b\<close>.  The scans of
  \<open>business-time.ts\<close> are shown to compute it: \<open>businessMsBetween\<close> is the measure, \<open>addBusinessMs\<close> is the
  least instant by which it has grown by the length asked for.
\<close>

section \<open>The measure\<close>

definition bm :: "int set \<Rightarrow> int \<Rightarrow> int \<Rightarrow> int" where
  "bm S a b = int (card (S \<inter> {a..<b}))"

lemma bm_empty [simp]: "b \<le> a \<Longrightarrow> bm S a b = 0"
  by (simp add: bm_def)

lemma bm_nonneg [simp]: "0 \<le> bm S a b"
  by (simp add: bm_def)

lemma bm_cong: "S \<inter> {a..<b} = S' \<inter> {a..<b} \<Longrightarrow> bm S a b = bm S' a b"
  by (simp add: bm_def)

lemma bm_split: "a \<le> b \<Longrightarrow> b \<le> c \<Longrightarrow> bm S a c = bm S a b + bm S b c"
proof -
  assume "a \<le> b" "b \<le> c"
  then have "S \<inter> {a..<c} = (S \<inter> {a..<b}) \<union> (S \<inter> {b..<c})" "(S \<inter> {a..<b}) \<inter> (S \<inter> {b..<c}) = {}" by auto
  then have "card (S \<inter> {a..<c}) = card (S \<inter> {a..<b}) + card (S \<inter> {b..<c})" by (simp add: card_Un_disjoint)
  then show ?thesis by (simp add: bm_def)
qed

lemma bm_mono: "b \<le> c \<Longrightarrow> bm S a b \<le> bm S a c"
  unfolding bm_def by (auto intro!: card_mono)

lemma bm_last: "t - 1 \<in> S \<Longrightarrow> a < t \<Longrightarrow> bm S a t = bm S a (t - 1) + 1"
proof -
  assume "t - 1 \<in> S" "a < t"
  moreover from this have "S \<inter> {t - 1..<t} = {t - 1}" by auto
  ultimately show ?thesis using bm_split [of a "t - 1" t S] by (simp add: bm_def)
qed

text \<open>One interval in front of later time: nothing of \<open>T\<close> comes before the interval's start.\<close>

lemma bm_interval:
  assumes "\<forall>x\<in>T. s \<le> x"
  shows "bm ({s..<e} \<union> T) pos t = max 0 (min e t - max s pos) + bm T (max pos e) t"
proof -
  have eq: "({s..<e} \<union> T) \<inter> {pos..<t} = {max s pos..<min e t} \<union> (T \<inter> {max pos e..<t})" (is "?l = ?a \<union> ?b")
    using assms by auto
  have "?a \<inter> ?b = {}" by auto
  then have "card ?l = card ?a + card ?b" unfolding eq by (rule card_Un_disjoint [rotated 2]) auto
  then show ?thesis by (simp add: bm_def) (simp add: max_def)
qed

definition in_order :: "(int \<times> int) list \<Rightarrow> bool" where
  "in_order ivs \<longleftrightarrow> sorted (map fst ivs) \<and> (\<forall>(s, e)\<in>set ivs. s < e)"

text \<open>\<open>T\<close> is time that comes after the starts of \<open>ivs\<close>.\<close>

definition after_starts :: "(int \<times> int) list \<Rightarrow> int set \<Rightarrow> bool" where
  "after_starts ivs T \<longleftrightarrow> (\<forall>(s, e)\<in>set ivs. \<forall>x\<in>T. s \<le> x)"

lemma bm_Cons:
  assumes "in_order ((s, e) # ivs)" "after_starts ((s, e) # ivs) T"
  shows "bm (covered ((s, e) # ivs) \<union> T) pos t = max 0 (min e t - max s pos) + bm (covered ivs \<union> T) (max pos e) t"
proof -
  have "\<forall>x\<in>covered ivs \<union> T. s \<le> x"
    using assms by (fastforce simp: in_order_def after_starts_def covered_def)
  from bm_interval [OF this] show ?thesis by (simp add: Un_assoc)
qed

section \<open>The walk over one day\<close>

lemma spend_Cons: "lo = max s pos \<Longrightarrow> spend ((s, e) # ivs) rem pos =
    (if e \<le> lo then spend ivs rem pos else if rem \<le> e - lo then Inl (lo + rem) else spend ivs (rem - (e - lo)) e)"
  by (simp add: Let_def)

lemma spend_found:
  assumes "in_order ivs" "after_starts ivs T" "0 < rem" "spend ivs rem pos = Inl t"
  shows "pos < t \<and> bm (covered ivs \<union> T) pos t = rem \<and> t - 1 \<in> covered ivs"
  using assms
proof (induction ivs arbitrary: rem pos)
  case (Cons p ivs)
  obtain s e where p: "p = (s, e)" by fastforce
  define lo where "lo = max s pos"
  have lo: "s \<le> lo" "pos \<le> lo" "lo = s \<or> lo = pos" by (auto simp: lo_def)
  note step = bm_Cons [OF Cons.prems(1,2) [unfolded p], of pos t, folded lo_def]
  note sp = Cons.prems(4) [unfolded p spend_Cons [OF lo_def]]
  have pre: "in_order ivs" "after_starts ivs T" "s < e" using Cons.prems(1,2) by (auto simp: p in_order_def after_starts_def)
  consider (skip) "e \<le> lo" | (here) "lo < e" "rem \<le> e - lo" | (on) "lo < e" "e - lo < rem" by linarith
  then show ?case
  proof cases
    case skip
    then have "e \<le> pos" using pre(3) lo by auto
    with skip sp Cons.IH [OF pre(1,2) Cons.prems(3), of pos] step lo show ?thesis by (auto simp: p max_absorb1)
  next
    case here
    then have t: "t = lo + rem" using sp by simp
    with here step Cons.prems(3) lo show ?thesis by (auto simp: p min_def max_def)
  next
    case on
    then have sp': "spend ivs (rem - (e - lo)) e = Inl t" and "0 < rem - (e - lo)" "max pos e = e" using sp lo by auto
    from Cons.IH [OF pre(1,2) this(2) sp'] this(3) on step lo show ?thesis by (auto simp: p min_def max_def)
  qed
qed simp

lemma spend_on:
  assumes "in_order ivs" "after_starts ivs T" "0 < rem" "spend ivs rem pos = Inr (rem', pos')"
  shows "0 < rem' \<and> pos \<le> pos' \<and> (\<forall>t\<ge>pos'. bm (covered ivs \<union> T) pos t = (rem - rem') + bm T pos' t)"
  using assms
proof (induction ivs arbitrary: rem pos)
  case (Cons p ivs)
  obtain s e where p: "p = (s, e)" by fastforce
  define lo where "lo = max s pos"
  have lo: "s \<le> lo" "pos \<le> lo" "lo = s \<or> lo = pos" by (auto simp: lo_def)
  note step = bm_Cons [OF Cons.prems(1,2) [unfolded p], of pos, folded lo_def]
  note sp = Cons.prems(4) [unfolded p spend_Cons [OF lo_def]]
  have pre: "in_order ivs" "after_starts ivs T" "s < e" using Cons.prems(1,2) by (auto simp: p in_order_def after_starts_def)
  show ?case
  proof (cases "e \<le> lo")
    case True
    then have "e \<le> pos" using pre(3) lo by auto
    with True sp Cons.IH [OF pre(1,2) Cons.prems(3), of pos] step lo show ?thesis by (auto simp: p max_absorb1)
  next
    case False
    then have sp': "spend ivs (rem - (e - lo)) e = Inr (rem', pos')" and "0 < rem - (e - lo)" "max pos e = e"
      using sp lo by (auto split: if_splits)
    from Cons.IH [OF pre(1,2) this(2) sp'] this(3) False step lo show ?thesis by (auto simp: p min_def max_def)
  qed
qed simp

lemma measure_Cons: "lo = max s pos \<Longrightarrow> q = max pos e \<Longrightarrow> measure_day ((s, e) # ivs) to acc pos =
    (if to \<le> s then Inl acc else if to \<le> q then Inl (acc + max 0 (min e to - lo))
     else measure_day ivs to (acc + max 0 (min e to - lo)) q)"
  by (auto simp: Let_def max_def)

lemma measure_found:
  assumes "in_order ivs" "after_starts ivs T" "measure_day ivs to acc pos = Inl r"
  shows "r = acc + bm (covered ivs \<union> T) pos to"
  using assms
proof (induction ivs arbitrary: acc pos)
  case (Cons p ivs)
  obtain s e where p: "p = (s, e)" by fastforce
  define lo q where "lo = max s pos" and "q = max pos e"
  note step = bm_Cons [OF Cons.prems(1,2) [unfolded p], of pos to, folded lo_def q_def]
  note ms = Cons.prems(3) [unfolded p measure_Cons [OF lo_def q_def]]
  have pre: "in_order ivs" "after_starts ivs T" using Cons.prems(1,2) by (auto simp: p in_order_def after_starts_def)
  show ?case
  proof (cases "to \<le> s")
    case True
    have "\<forall>x\<in>covered (p # ivs) \<union> T. s \<le> x"
      using Cons.prems(1,2) by (fastforce simp: p in_order_def after_starts_def covered_def)
    with True have "x \<notin> {pos..<to}" if "x \<in> covered (p # ivs) \<union> T" for x using that by (auto dest!: bspec)
    then have "(covered (p # ivs) \<union> T) \<inter> {pos..<to} = {}" by blast
    then have "bm (covered (p # ivs) \<union> T) pos to = 0" by (simp add: bm_def)
    with True ms show ?thesis by simp
  next
    case False
    show ?thesis
    proof (cases "to \<le> q")
      case True
      with False ms step show ?thesis by (simp add: p)
    next
      case on: False
      with False ms have "measure_day ivs to (acc + max 0 (min e to - lo)) q = Inl r" by simp
      from Cons.IH [OF pre this] step show ?thesis by (simp add: p)
    qed
  qed
qed simp

lemma measure_on:
  assumes "in_order ivs" "after_starts ivs T" "pos < to" "measure_day ivs to acc pos = Inr (acc', pos')"
  shows "pos' < to \<and> pos \<le> pos' \<and> acc' + bm T pos' to = acc + bm (covered ivs \<union> T) pos to"
  using assms
proof (induction ivs arbitrary: acc pos)
  case (Cons p ivs)
  obtain s e where p: "p = (s, e)" by fastforce
  define lo q where "lo = max s pos" and "q = max pos e"
  note step = bm_Cons [OF Cons.prems(1,2) [unfolded p], of pos to, folded lo_def q_def]
  note ms = Cons.prems(4) [unfolded p measure_Cons [OF lo_def q_def]]
  have pre: "in_order ivs" "after_starts ivs T" using Cons.prems(1,2) by (auto simp: p in_order_def after_starts_def)
  have on: "q < to" "measure_day ivs to (acc + max 0 (min e to - lo)) q = Inr (acc', pos')"
    using ms by (auto split: if_splits)
  have "pos \<le> q" by (simp add: q_def)
  with Cons.IH [OF pre on] step show ?case by (auto simp: p)
qed simp

text \<open>A walk that adds up to an instant is one that measures up to it.\<close>

lemma spend_measures:
  assumes "in_order ivs" "0 < rem"
  shows "spend ivs rem pos = Inl t \<Longrightarrow> \<exists>r. measure_day ivs t acc pos = Inl r"
    and "spend ivs rem pos = Inr (rem', pos') \<Longrightarrow>
      (\<exists>r. measure_day ivs t acc pos = Inl r) \<or> (\<exists>acc'. measure_day ivs t acc pos = Inr (acc', pos'))"
  using assms
proof (induction ivs arbitrary: rem pos acc)
  case (Cons p ivs)
  obtain s e where p: "p = (s, e)" by fastforce
  have pre: "in_order ivs" "s < e" if "in_order (p # ivs)" using that by (auto simp: p in_order_def)
  { case 1
  define lo q where "lo = max s pos" and "q = max pos e"
  have lo: "s \<le> lo" "pos \<le> lo" "lo = s \<or> lo = pos" by (auto simp: lo_def)
    note sp = 1(1) [unfolded p spend_Cons [OF lo_def]]
    consider (skip) "e \<le> lo" | (here) "lo < e" "t \<le> e" | (on) "lo < e" "spend ivs (rem - (e - lo)) e = Inl t" "0 < rem - (e - lo)"
      using sp by (auto split: if_splits)
    then show ?case
    proof cases
      case skip
      with pre(2) [OF 1(2)] lo have "q = pos" by (auto simp: q_def)
      with skip sp Cons.IH(1) [of rem pos] pre(1) [OF 1(2)] 1(3) show ?thesis
        by (auto simp: p measure_Cons [OF lo_def q_def] simp del: measure_day.simps)
    next
      case here
      then have "t \<le> q" by (simp add: q_def)
      then show ?thesis by (simp add: p measure_Cons [OF lo_def q_def] del: measure_day.simps)
    next
      case on
      then have "q = e" using lo by (auto simp: q_def)
      with on Cons.IH(1) [of "rem - (e - lo)" e] pre(1) [OF 1(2)] show ?thesis
        by (auto simp: p measure_Cons [OF lo_def q_def] simp del: measure_day.simps)
    qed
  next
    case 2
  define lo q where "lo = max s pos" and "q = max pos e"
  have lo: "s \<le> lo" "pos \<le> lo" "lo = s \<or> lo = pos" by (auto simp: lo_def)
    note sp = 2(1) [unfolded p spend_Cons [OF lo_def]]
    show ?case
    proof (cases "e \<le> lo")
      case True
      with pre(2) [OF 2(2)] lo have "q = pos" by (auto simp: q_def)
      with True sp Cons.IH(2) [of rem pos] pre(1) [OF 2(2)] 2(3) show ?thesis
        by (auto simp: p measure_Cons [OF lo_def q_def] simp del: measure_day.simps)
    next
      case False
      then have "q = e" "spend ivs (rem - (e - lo)) e = Inr (rem', pos')" "0 < rem - (e - lo)"
        using sp lo by (auto simp: q_def split: if_splits)
      with Cons.IH(2) [of "rem - (e - lo)" e] pre(1) [OF 2(2)] show ?thesis
        by (auto simp: p measure_Cons [OF lo_def q_def] simp del: measure_day.simps)
    qed
  }
qed auto


section \<open>The intervals of a day\<close>

text \<open>The days the measure is taken over: from 1900 on.\<close>

definition charted :: "int \<Rightarrow> bool" where
  "charted n \<longleftrightarrow> -25567 \<le> n"

lemma charted_modern: "charted n \<Longrightarrow> modern (n - 3)" "charted n \<Longrightarrow> modern n"
  by (simp_all add: charted_def modern_def)

lemma ymdOfDay_iff:
  assumes "charted n"
  shows "four_digit n \<Longrightarrow> ymdOfDay n = ymdOfUtcDate n" and "\<not> four_digit n \<Longrightarrow> \<not> isCalendarYmd (ymdOfDay n)"
proof -
  obtain y m d where c: "civil_from_days n = (y, m, d)" by (metis prod_cases3)
  have y: "1600 \<le> y" using modern_year [OF charted_modern(2) [OF assms]] c by (simp add: year_of_def)
  have day: "ymdOfDay n = take 10 (year_text y @ ''-'' @ pad 2 m @ ''-'' @ pad 2 d @ ''T'' @ clock_part 0 @ ''Z'')"
    by (simp add: ymdOfDay_def toISOString_def date_part_def c day_ms_def)
  show "ymdOfDay n = ymdOfUtcDate n" if f: "four_digit n"
  proof -
    note p = ymdOfUtcDate_parts [OF c f]
    have "y \<le> 9999" using f by (simp add: four_digit_def year_of_def c)
    with y have "year_text y = pad 4 y" by (simp add: year_text_def)
    with p show ?thesis unfolding day by simp
  qed
  assume "\<not> four_digit n"
  then have "9999 < y" using y by (simp add: four_digit_def year_of_def c)
  then have "year_text y = CHR ''+'' # pad 6 y" by (simp add: year_text_def)
  then have hd: "ymdOfDay n \<noteq> []" "hd (ymdOfDay n) = CHR ''+''" unfolding day by simp_all
  show "\<not> isCalendarYmd (ymdOfDay n)"
  proof
    assume "isCalendarYmd (ymdOfDay n)"
    then have "YMD (ymdOfDay n) \<noteq> None" by (auto simp: isCalendarYmd_def split: option.splits)
    then have "length (ymdOfDay n) = 10" "list_all is_digit (take 4 (ymdOfDay n))" by (auto simp: YMD_def split: if_splits)
    then have "is_digit (hd (ymdOfDay n))" by (cases "ymdOfDay n") auto
    with hd show False by (simp add: is_digit_def)
  qed
qed

lemma date_minute_exact:
  assumes "charted n" "four_digit n" "0 \<le> m" "m < 1440"
  shows "zonedDateMinuteToUtc db (ymdOfDay n) m tz = some_or Unresolvable_zone (wallClockToUtc db (n * day_ms + m * MINUTE_MS) tz)"
proof -
  obtain y mo d where c: "civil_from_days n = (y, mo, d)" by (metis prod_cases3)
  have p: "parseYmd (ymdOfDay n) = Return (y, mo, d)"
    using ymdOfDay_iff(1) [OF assms(1,2)] parseYmd_ymdOfUtcDate [OF assms(2)] c by simp
  have "1600 \<le> y" using modern_year [OF charted_modern(2) [OF assms(1)]] c by (simp add: year_of_def)
  then have "date_UTC y mo d (m div 60) (m mod 60) 0 = n * day_ms + (m div 60 * 3600000 + m mod 60 * 60000)"
    using days_from_civil_from_days [OF c] by (simp add: date_UTC_def)
  also have "m div 60 * 3600000 + m mod 60 * 60000 = (m div 60 * 60 + m mod 60) * MINUTE_MS"
    unfolding MINUTE_MS_def distrib_right by simp
  also have "\<dots> = m * MINUTE_MS" by (simp only: div_mult_mod_eq)
  finally show ?thesis using p assms(3,4) by (simp add: zonedDateMinuteToUtc_def zonedWallClockToUtc_def throw_if_def Let_def)
qed

lemma date_minute_wall:
  assumes "charted n" "0 \<le> m" "m < 1440" "zonedDateMinuteToUtc db (ymdOfDay n) m tz = Return t"
  shows "wallClockToUtc db (n * day_ms + m * MINUTE_MS) tz = Some t"
proof -
  obtain p where "parseYmd (ymdOfDay n) = Return p"
    using assms(3,4) by (auto simp: zonedDateMinuteToUtc_def andThen_eq_Return Let_def split: if_splits)
  then have "isCalendarYmd (ymdOfDay n)" by (auto simp: parseYmd_def split: option.splits)
  then have "four_digit n" using ymdOfDay_iff(2) [OF assms(1)] by blast
  with assms date_minute_exact [of n m db tz] show ?thesis by (auto simp: some_or_def split: option.splits)
qed

lemma instantAt_wall:
  assumes "charted n" "0 \<le> m" "m < 2880" "instantAt db c n m = Return t"
  shows "wallClockToUtc db (n * day_ms + m * MINUTE_MS) (co_tz c) = Some t"
proof (cases "1440 \<le> m")
  case True
  then have "zonedDateMinuteToUtc db (ymdOfDay (n + 1)) (m - 1440) (co_tz c) = Return t" using assms(4) by (simp add: instantAt_def)
  from date_minute_wall [OF _ _ _ this] True assms(1,3) show ?thesis
    by (simp add: charted_def day_ms_def MINUTE_MS_def algebra_simps)
next
  case False
  with assms date_minute_wall show ?thesis by (simp add: instantAt_def)
qed

lemma minute_day: "0 \<le> m \<Longrightarrow> m < 1440 \<Longrightarrow> (n * day_ms + m * MINUTE_MS) div day_ms = n"
  by (simp add: day_ms_def MINUTE_MS_def)

lemma next_day_minute: "1440 \<le> m \<Longrightarrow> m < 2880 \<Longrightarrow> (n * day_ms + m * MINUTE_MS) div day_ms = n + 1"
  using minute_day [of "m - 1440" "n + 1"] by (simp add: day_ms_def MINUTE_MS_def algebra_simps)

lemma whole_minute: "(n * day_ms + m * MINUTE_MS) mod MINUTE_MS = 0"
proof -
  have "n * day_ms + m * MINUTE_MS = (n * 1440 + m) * MINUTE_MS" by (simp add: day_ms_def MINUTE_MS_def algebra_simps)
  then show ?thesis by simp
qed

lemma window_intervals_mem:
  "window_intervals db c n segs = Return ivs \<Longrightarrow> (a, b) \<in> set ivs \<Longrightarrow>
     a < b \<and> (\<exists>s e. (s, e) \<in> set segs \<and> instantAt db c n s = Return a \<and> instantAt db c n e = Return b)"
proof (induction segs arbitrary: ivs)
  case (Cons p segs)
  then show ?case
    by (cases p) (fastforce simp: andThen_eq_Return split: if_splits)
qed simp

definition day_intervals :: "zone_db \<Rightarrow> compiled \<Rightarrow> int \<Rightarrow> (int \<times> int) list" where
  "day_intervals db c n = (case intervalsOf db c n of Inr ivs \<Rightarrow> ivs | Inl _ \<Rightarrow> [])"

lemma intervalsOf_mem:
  assumes "compile db cal = Return c" "charted n" "(a, b) \<in> set (day_intervals db c n)"
  shows "a < b \<and> (\<exists>s e. 0 \<le> s \<and> s < 1440 \<and> s < e \<and> e < 2880
    \<and> wallClockToUtc db (n * day_ms + s * MINUTE_MS) (co_tz c) = Some a
    \<and> wallClockToUtc db (n * day_ms + e * MINUTE_MS) (co_tz c) = Some b)"
proof -
  obtain ivs where w: "window_intervals db c n (co_byWeekday c (weekdayOfDay n)) = Return ivs" "(a, b) \<in> set ivs"
    using assms(3) by (auto simp: day_intervals_def intervalsOf_def andThen_def split: sum.splits if_splits)
  obtain s e where se: "a < b" "(s, e) \<in> set (co_byWeekday c (weekdayOfDay n))" "instantAt db c n s = Return a" "instantAt db c n e = Return b"
    using window_intervals_mem [OF w] by blast
  note r = byWeekday_range [OF assms(1) se(2)]
  have "wallClockToUtc db (n * day_ms + s * MINUTE_MS) (co_tz c) = Some a"
    by (rule instantAt_wall [OF assms(2) _ _ se(3)]) (use r in auto)
  moreover have "wallClockToUtc db (n * day_ms + e * MINUTE_MS) (co_tz c) = Some b"
    by (rule instantAt_wall [OF assms(2) _ _ se(4)]) (use r in auto)
  ultimately show ?thesis using se(1) r by blast
qed

lemma day_intervals_in_order:
  assumes "compile db cal = Return c" "charted n"
  shows "in_order (day_intervals db c n)"
proof -
  have "sorted (map fst (day_intervals db c n))"
    by (auto simp: day_intervals_def intervalsOf_def andThen_def split: sum.splits)
  with intervalsOf_mem [OF assms] show ?thesis by (auto simp: in_order_def)
qed

section \<open>Days in order\<close>

text \<open>
  What the scans rely on of the time zone: wall clocks of one day come before those of any later
  day, and before every instant whose local day is later.  A zone breaks this only where a change of
  offset skips over midnight itself.
\<close>

definition days_in_order :: "zone_db \<Rightarrow> string \<Rightarrow> bool" where
  "days_in_order db tz \<longleftrightarrow>
     (\<forall>w w' t t'. w mod MINUTE_MS = 0 \<longrightarrow> w' mod MINUTE_MS = 0 \<longrightarrow> charted (w div day_ms) \<longrightarrow> w div day_ms < w' div day_ms \<longrightarrow>
        wallClockToUtc db w tz = Some t \<longrightarrow> wallClockToUtc db w' tz = Some t' \<longrightarrow> t \<le> t')
   \<and> (\<forall>w t from. w mod MINUTE_MS = 0 \<longrightarrow> charted (w div day_ms) \<longrightarrow> w div day_ms < wall_of db tz from div day_ms \<longrightarrow>
        wallClockToUtc db w tz = Some t \<longrightarrow> t \<le> from)"

text \<open>The business time of a calendar from 1900 on, and its part on the days from \<open>n\<close>.\<close>

definition business_time :: "zone_db \<Rightarrow> compiled \<Rightarrow> int set" where
  "business_time db c = (\<Union>n\<in>{n. charted n}. covered (day_intervals db c n))"

definition time_from_day :: "zone_db \<Rightarrow> compiled \<Rightarrow> int \<Rightarrow> int set" where
  "time_from_day db c n = (\<Union>n'\<in>{n..}. covered (day_intervals db c n'))"

lemma time_from_day_unfold: "time_from_day db c n = covered (day_intervals db c n) \<union> time_from_day db c (n + 1)"
proof -
  have "{n..} = insert n {n + 1..}" by auto
  then show ?thesis by (simp add: time_from_day_def)
qed

lemma later_days_after:
  assumes "compile db cal = Return c" "days_in_order db (co_tz c)" "charted n"
  shows "after_starts (day_intervals db c n) (time_from_day db c (n + 1))"
proof -
  have "s \<le> x" if se: "(s, e) \<in> set (day_intervals db c n)" and ab: "(a, b) \<in> set (day_intervals db c n')" "n < n'" "a \<le> x" for s e a b n' x
  proof -
    have m': "charted n'" using assms(3) ab(2) by (simp add: charted_def)
    obtain u where u: "0 \<le> u" "u < 1440" "wallClockToUtc db (n * day_ms + u * MINUTE_MS) (co_tz c) = Some s"
      using intervalsOf_mem [OF assms(1,3) se] by blast
    obtain v where v: "0 \<le> v" "v < 1440" "wallClockToUtc db (n' * day_ms + v * MINUTE_MS) (co_tz c) = Some a"
      using intervalsOf_mem [OF assms(1) m' ab(1)] by blast
    have "s \<le> a"
      using assms(2,3) u v ab(2) minute_day [OF u(1,2), of n] minute_day [OF v(1,2), of n'] whole_minute unfolding days_in_order_def by metis
    with ab(3) show ?thesis by simp
  qed
  then show ?thesis by (fastforce simp: after_starts_def time_from_day_def covered_def)
qed

lemma earlier_days_over:
  assumes "compile db cal = Return c" "days_in_order db (co_tz c)" "charted n" "n + 1 < wall_of db (co_tz c) from div day_ms"
    and "(a, b) \<in> set (day_intervals db c n)"
  shows "b \<le> from"
proof -
  obtain s e where "0 \<le> s" "s < e" and e: "e < 2880" "wallClockToUtc db (n * day_ms + e * MINUTE_MS) (co_tz c) = Some b"
    using intervalsOf_mem [OF assms(1,3,5)] by blast
  have "(n * day_ms + e * MINUTE_MS) div day_ms = n \<or> (n * day_ms + e * MINUTE_MS) div day_ms = n + 1"
    using minute_day [of e n] next_day_minute [of e n] e(1) \<open>0 \<le> s\<close> \<open>s < e\<close> by fastforce
  with assms(2-4) e(2) whole_minute [of n e] show ?thesis unfolding days_in_order_def charted_def by (smt (verit))
qed


section \<open>The scans\<close>

lemma day_intervals_Return: "intervalsOf db c n = Return ivs \<Longrightarrow> day_intervals db c n = ivs"
  by (simp add: day_intervals_def)

lemma add_scan_exact:
  assumes "compile db cal = Return c" "days_in_order db (co_tz c)" "charted n" "0 < rem" "add_scan db c k n rem pos = Return t"
  shows "pos < t \<and> bm (time_from_day db c n) pos t = rem \<and> t - 1 \<in> time_from_day db c n"
  using assms(3-5)
proof (induction k arbitrary: n rem pos)
  case (Suc k)
  obtain ivs where ivs: "intervalsOf db c n = Return ivs" using Suc.prems(3) by (auto split: sum.splits)
  note di = day_intervals_Return [OF ivs]
  have io: "in_order ivs" "after_starts ivs (time_from_day db c (n + 1))"
    using day_intervals_in_order [OF assms(1) Suc.prems(1)] later_days_after [OF assms(1,2) Suc.prems(1)] di by simp_all
  have split: "time_from_day db c n = covered ivs \<union> time_from_day db c (n + 1)"
    using time_from_day_unfold [of db c n] di by simp
  show ?case
  proof (cases "spend ivs rem pos")
    case (Inl u)
    with Suc.prems(3) ivs have "u = t" by simp
    with spend_found [OF io Suc.prems(2)] Inl show ?thesis by (simp add: split)
  next
    case (Inr q)
    obtain rem' pos' where q: "q = (rem', pos')" by fastforce
    note on = spend_on [OF io Suc.prems(2) Inr [unfolded q]]
    have "charted (n + 1)" using Suc.prems(1) by (simp add: charted_def)
    moreover have "add_scan db c k (n + 1) rem' pos' = Return t" using Suc.prems(3) ivs Inr q by simp
    ultimately have "pos' < t \<and> bm (time_from_day db c (n + 1)) pos' t = rem' \<and> t - 1 \<in> time_from_day db c (n + 1)"
      using Suc.IH on by blast
    with on show ?thesis by (auto simp: split)
  qed
qed simp

lemma measure_scan_exact:
  assumes "compile db cal = Return c" "days_in_order db (co_tz c)" "charted n" "pos < to" "measure_scan db c k n to acc pos = Return r"
  shows "r = acc + bm (time_from_day db c n) pos to"
  using assms(3-5)
proof (induction k arbitrary: n acc pos)
  case (Suc k)
  obtain ivs where ivs: "intervalsOf db c n = Return ivs" using Suc.prems(3) by (auto split: sum.splits)
  note di = day_intervals_Return [OF ivs]
  have io: "in_order ivs" "after_starts ivs (time_from_day db c (n + 1))"
    using day_intervals_in_order [OF assms(1) Suc.prems(1)] later_days_after [OF assms(1,2) Suc.prems(1)] di by simp_all
  have split: "time_from_day db c n = covered ivs \<union> time_from_day db c (n + 1)"
    using time_from_day_unfold [of db c n] di by simp
  show ?case
  proof (cases "measure_day ivs to acc pos")
    case (Inl u)
    with Suc.prems(3) ivs have "u = r" by simp
    with measure_found [OF io Inl] show ?thesis by (simp add: split)
  next
    case (Inr q)
    obtain acc' pos' where q: "q = (acc', pos')" by fastforce
    note on = measure_on [OF io Suc.prems(2) Inr [unfolded q]]
    have "charted (n + 1)" using Suc.prems(1) by (simp add: charted_def)
    moreover have "measure_scan db c k (n + 1) to acc' pos' = Return r" using Suc.prems(3) ivs Inr q by simp
    ultimately have "r = acc' + bm (time_from_day db c (n + 1)) pos' to" using Suc.IH on by blast
    with on show ?thesis by (simp add: split)
  qed
qed simp

lemma scans_agree:
  assumes "compile db cal = Return c" "days_in_order db (co_tz c)" "charted n" "0 < rem" "add_scan db c k n rem pos = Return t"
  shows "\<exists>r. measure_scan db c k n t acc pos = Return r"
  using assms(3-5)
proof (induction k arbitrary: n rem pos acc)
  case (Suc k)
  obtain ivs where ivs: "intervalsOf db c n = Return ivs" using Suc.prems(3) by (auto split: sum.splits)
  have io: "in_order ivs" "after_starts ivs (time_from_day db c (n + 1))"
    using day_intervals_in_order [OF assms(1) Suc.prems(1)] later_days_after [OF assms(1,2) Suc.prems(1)] day_intervals_Return [OF ivs] by simp_all
  show ?case
  proof (cases "spend ivs rem pos")
    case (Inl u)
    with Suc.prems(3) ivs have "u = t" by simp
    with spend_measures(1) [OF io(1) Suc.prems(2), of pos t acc] Inl ivs show ?thesis by auto
  next
    case (Inr q)
    obtain rem' pos' where q: "q = (rem', pos')" by fastforce
    note on = spend_on [OF io Suc.prems(2) Inr [unfolded q]]
    have "charted (n + 1)" using Suc.prems(1) by (simp add: charted_def)
    moreover have "add_scan db c k (n + 1) rem' pos' = Return t" using Suc.prems(3) ivs Inr q by simp
    ultimately have "\<exists>r. measure_scan db c k (n + 1) t acc' pos' = Return r" for acc' using Suc.IH on by blast
    with spend_measures(2) [OF io(1) Suc.prems(2) Inr [unfolded q], of t acc] ivs show ?thesis by auto
  qed
qed simp

section \<open>Where a scan starts\<close>

lemma localPartsOf_day:
  assumes "zone_sane db tz" "0 \<le> from" "andThen (localPartsOf db from tz) (\<lambda>p. dayNumberOf (lp_ymd p)) = Return n"
  shows "n = wall_of db tz from div day_ms"
proof -
  let ?n = "wall_of db tz from div day_ms"
  have "0 \<le> from div day_ms" using assms(2) by (simp add: day_ms_def pos_imp_zdiv_nonneg_iff)
  then have m: "modern ?n" by (intro zone_sane_modern [OF assms(1)]) (simp add: modern_def)
  obtain y mo d where c: "civil_from_days ?n = (y, mo, d)" by (metis prod_cases3)
  obtain p where p: "localPartsOf db from tz = Return p" "dayNumberOf (lp_ymd p) = Return n"
    using assms(3) by (auto simp: andThen_eq_Return)
  have ymd: "lp_ymd p = ymdOfUtcDate ?n"
    using p(1) zone_fields_modern(1) [OF m c]
    by (auto simp: localPartsOf_def andThen_eq_Return Let_def ymdOfUtcDate_def c split: option.splits)
  obtain y' mo' d' where parse: "parseYmd (ymdOfUtcDate ?n) = Return (y', mo', d')" "n = days_from_civil y' mo' d'"
    using p(2) ymd by (auto simp: dayNumberOf_def andThen_eq_Return)
  from parseYmd_Return [OF parse(1)] obtain n' where n': "four_digit n'" "ymdOfUtcDate ?n = ymdOfUtcDate n'" "days_from_civil y' mo' d' = n'"
    by metis
  have "YMD (ymdOfUtcDate ?n) = Some (civil_from_days n')" using YMD_ymdOfUtcDate [OF n'(1)] n'(2) by simp
  moreover have "1600 \<le> y" using modern_year [OF m] c by (simp add: year_of_def)
  ultimately have "length (ymdOfUtcDate ?n) = 10" by (auto simp: YMD_def split: if_splits)
  moreover have "ymdOfUtcDate ?n = pad 4 y @ ''-'' @ pad 2 mo @ ''-'' @ pad 2 d"
    using c \<open>1600 \<le> y\<close> civil_from_days_ranges [OF c] by (simp add: ymdOfUtcDate_def ymd_text_def padStart_pad)
  moreover have "length (pad 2 mo) = 2" "length (pad 2 d) = 2" using civil_from_days_ranges [OF c] by (simp_all add: length_pad)
  ultimately have "length (pad 4 y) = 4" by simp
  then have "num_of (pad 4 y) < 10 ^ 4" using nat_of_digits_bound [OF pad_all_digits, of 4 y] by (simp add: num_of_def)
  then have "y \<le> 9999" using num_of_pad [of y 4] \<open>1600 \<le> y\<close> by simp
  with \<open>1600 \<le> y\<close> have "four_digit ?n" by (simp add: four_digit_def year_of_def c)
  with parse parseYmd_ymdOfUtcDate c days_from_civil_from_days [OF c] show ?thesis by simp
qed

lemma first_day_Return:
  assumes "zone_sane db (co_tz c)" "0 \<le> from" "first_day db c from = Return n"
  shows "n = wall_of db (co_tz c) from div day_ms - 1" "charted n"
proof -
  show n: "n = wall_of db (co_tz c) from div day_ms - 1"
    using assms(3) localPartsOf_day [OF assms(1,2)] by (auto simp: first_day_def split: sum.splits)
  have "from - day_ms \<le> wall_of db (co_tz c) from" using assms(1) unfolding zone_sane_def wall_of_def by (smt (verit))
  then have "- day_ms \<le> wall_of db (co_tz c) from" using assms(2) by simp
  then have "- day_ms div day_ms \<le> wall_of db (co_tz c) from div day_ms" by (intro zdiv_mono1) (simp_all add: day_ms_def)
  then show "charted n" by (simp add: n charted_def day_ms_def)
qed

lemma time_from_first_day:
  assumes "compile db cal = Return c" "days_in_order db (co_tz c)" "zone_sane db (co_tz c)" "0 \<le> from" "first_day db c from = Return n"
  shows "bm (time_from_day db c n) from t = bm (business_time db c) from t"
proof (rule bm_cong)
  note fd = first_day_Return [OF assms(3-5)]
  have "x \<in> time_from_day db c n" if x: "x \<in> business_time db c" "from \<le> x" for x
  proof -
    obtain n' a b where n': "charted n'" "(a, b) \<in> set (day_intervals db c n')" "a \<le> x" "x < b"
      using x(1) by (auto simp: business_time_def covered_def)
    have "\<not> n' < n"
    proof
      assume "n' < n"
      then have "n' + 1 < wall_of db (co_tz c) from div day_ms" using fd(1) by simp
      from earlier_days_over [OF assms(1,2) n'(1) this n'(2)] n'(4) x(2) show False by simp
    qed
    with n' show ?thesis by (force simp: time_from_day_def covered_def)
  qed
  moreover have "time_from_day db c n \<subseteq> business_time db c"
    using fd(2) unfolding time_from_day_def business_time_def by (intro UN_mono) (auto simp: charted_def)
  ultimately show "time_from_day db c n \<inter> {from..<t} = business_time db c \<inter> {from..<t}" by auto
qed


text \<open>A calendar the code accepts, in a zone whose days come in order, and the business time it denotes.\<close>

definition calendar_ok :: "zone_db \<Rightarrow> business_calendar \<Rightarrow> compiled \<Rightarrow> bool" where
  "calendar_ok db cal c \<longleftrightarrow> compile db cal = Return c \<and> zone_sane db (co_tz c) \<and> days_in_order db (co_tz c)"

section \<open>A calendar for the witnesses\<close>

lemma utc_sane: "zone_sane utc_db ''UTC''"
  by (simp add: zone_sane_def utc_db_def day_ms_def)

lemma utc_wall:
  assumes "w mod MINUTE_MS = 0" "charted (w div day_ms)"
  shows "wallClockToUtc utc_db w ''UTC'' = Some w"
proof -
  have "w mod MINUTE_MS mod 1000 = w mod 1000" by (rule mod_mod_cancel) (simp add: MINUTE_MS_def)
  with assms have "w mod 1000 = 0" by simp
  from wallClockToUtc_exact [OF utc_sane this charted_modern(1) [OF assms(2)]] show ?thesis
    by (simp add: utc_db_def wall_of_def)
qed

lemma utc_in_order: "days_in_order utc_db ''UTC''"
proof -
  have less: "w \<le> w'" if "w div day_ms < w' div day_ms" for w w' :: int
    using that zdiv_mono1 [of w' w day_ms] by (force simp: day_ms_def)
  have later: "charted (w' div day_ms)" if "charted (w div day_ms)" "w div day_ms < w' div day_ms" for w w' :: int
    using that by (simp add: charted_def)
  have wall: "wall_of utc_db ''UTC'' t0 = t0" for t0 by (simp add: wall_of_def utc_db_def)
  show ?thesis unfolding days_in_order_def wall
  proof (intro conjI allI impI)
    fix w w' t t' :: int
    assume "w mod MINUTE_MS = 0" "w' mod MINUTE_MS = 0" "charted (w div day_ms)" and lt: "w div day_ms < w' div day_ms"
      and "wallClockToUtc utc_db w ''UTC'' = Some t" "wallClockToUtc utc_db w' ''UTC'' = Some t'"
    with later [of w w'] have "t = w" "t' = w'" by (simp_all add: utc_wall)
    with less [OF lt] show "t \<le> t'" by simp
  next
    fix w t t0 :: int
    assume "w mod MINUTE_MS = 0" "charted (w div day_ms)" and lt: "w div day_ms < t0 div day_ms" and "wallClockToUtc utc_db w ''UTC'' = Some t"
    with less [OF lt] show "t \<le> t0" by (simp add: utc_wall)
  qed
qed

definition sample_compiled :: compiled where
  "sample_compiled = \<lparr>co_tz = ''UTC'', co_byWeekday = (\<lambda>d. merge_segments (segments_of (bc_windows sample_calendar) d)),
     co_holidays = [''1970-01-09''], co_empty = False\<rparr>"

lemma sample_calendar_ok: "calendar_ok utc_db sample_calendar sample_compiled"
proof -
  have "checkShape utc_db (calendar_json sample_calendar) = Return sample_calendar" by code_simp
  moreover have "merge_segments (segments_of (bc_windows sample_calendar) 4) \<noteq> []" by code_simp
  ultimately have "compile utc_db sample_calendar = Return sample_compiled"
    by (auto simp: compile_def Let_def sample_compiled_def list_all_iff) (simp_all add: sample_calendar_def)
  then show ?thesis using utc_sane utc_in_order by (simp add: calendar_ok_def sample_compiled_def)
qed

text \<open>From ten o'clock on Thursday 1 January 1970, one hour.\<close>

lemma sample_thursday: "intervalsOf utc_db sample_compiled 0 = Return [(32400000, 61200000)]"
proof -
  have "charted 0" by (simp add: charted_def)
  have "four_digit 0" unfolding four_digit_def year_of_def by code_simp
  note at = date_minute_exact [OF \<open>charted 0\<close> \<open>four_digit 0\<close>, of _ utc_db "''UTC''"]
  have "instantAt utc_db sample_compiled 0 540 = Return 32400000" "instantAt utc_db sample_compiled 0 1020 = Return 61200000"
    using at [of 540] at [of 1020] \<open>charted 0\<close>
    by (simp_all add: instantAt_def sample_compiled_def utc_wall some_or_def MINUTE_MS_def day_ms_def)
  moreover have "co_byWeekday sample_compiled 4 = [(540, 1020)]" "ymdOfDay 0 = ''1970-01-01''" by code_simp+
  moreover have "co_holidays sample_compiled = [''1970-01-09'']" by (simp add: sample_compiled_def)
  ultimately show ?thesis by (simp add: intervalsOf_def weekdayOfDay_def)
qed

lemma sample_days: "compile utc_db sample_calendar = Return sample_compiled" "\<not> co_empty sample_compiled"
  "intervalsOf utc_db sample_compiled (- 1) = Return []" "MAX_SCAN_DAYS + 1 = Suc (Suc 3659)"
proof -
  show "compile utc_db sample_calendar = Return sample_compiled" using sample_calendar_ok by (simp add: calendar_ok_def)
  show "\<not> co_empty sample_compiled" by (simp add: sample_compiled_def)
  show "intervalsOf utc_db sample_compiled (- 1) = Return []" by code_simp
  show "MAX_SCAN_DAYS + 1 = Suc (Suc 3659)" by (simp add: MAX_SCAN_DAYS_def)
qed

lemma sample_between_on:
  assumes "first_day utc_db sample_compiled a = Return (- 1)" "32400000 \<le> a" "a < b" "b \<le> 61200000"
  shows "businessMsBetween utc_db (Some a) (Some b) (Some sample_calendar) = Return (b - a)"
proof -
  have "measure_scan utc_db sample_compiled (Suc (Suc k)) (- 1) b 0 a = Return (b - a)" for k
    using assms(2-4) by (simp add: sample_thursday sample_days(3))
  then have "measure_scan utc_db sample_compiled (MAX_SCAN_DAYS + 1) (- 1) b 0 a = Return (b - a)" unfolding sample_days(4) .
  with assms(1,3) sample_days(1,2) show ?thesis by (simp add: businessMsBetween_def business_span_def some_or_def)
qed

lemma sample_add_on:
  assumes "first_day utc_db sample_compiled a = Return (- 1)" "32400000 \<le> a" "0 < ms" "a + ms \<le> 61200000"
  shows "addBusinessMs utc_db (Some a) ms (Some sample_calendar) = Return (a + ms)"
proof -
  have "add_scan utc_db sample_compiled (Suc (Suc k)) (- 1) ms a = Return (a + ms)" for k
    using assms(2-4) by (simp add: sample_thursday sample_days(3))
  then have "add_scan utc_db sample_compiled (MAX_SCAN_DAYS + 1) (- 1) ms a = Return (a + ms)" unfolding sample_days(4) .
  with assms(1,3) sample_days(1,2) show ?thesis by (simp add: addBusinessMs_def some_or_def)
qed

lemma sample_first_day: "first_day utc_db sample_compiled 36000000 = Return (- 1)"
  by code_simp

lemma sample_between: "businessMsBetween utc_db (Some 36000000) (Some 39600000) (Some sample_calendar) = Return 3600000"
  using sample_between_on [OF sample_first_day, of 39600000] by simp

lemma sample_add: "addBusinessMs utc_db (Some 36000000) 3600000 (Some sample_calendar) = Return 39600000"
  using sample_add_on [OF sample_first_day, of 3600000] by simp

section \<open>Properties\<close>

lemma empty_no_time:
  assumes "compile db cal = Return c" "co_empty c"
  shows "business_time db c = {}"
proof -
  have "list_all (\<lambda>d. co_byWeekday c d = []) [0..6]"
    using assms by (auto simp: compile_def andThen_eq_Return Let_def)
  then have "co_byWeekday c (weekdayOfDay n) = []" for n
    by (auto simp: list_all_iff weekdayOfDay_def)
  then have "day_intervals db c n = []" for n by (simp add: day_intervals_def intervalsOf_def)
  then show ?thesis by (simp add: business_time_def)
qed

lemma business_span_measure:
  assumes "calendar_ok db cal c" "0 \<le> from" "from < to" "business_span db from to (Some cal) = Return r"
  shows "r = bm (business_time db c) from to"
proof (cases "co_empty c")
  case True
  with assms empty_no_time [of db cal c] show ?thesis by (simp add: business_span_def calendar_ok_def bm_def)
next
  case False
  with assms obtain n where n: "first_day db c from = Return n" "measure_scan db c (MAX_SCAN_DAYS + 1) n to 0 from = Return r"
    by (auto simp: business_span_def calendar_ok_def andThen_eq_Return)
  have ok: "compile db cal = Return c" "days_in_order db (co_tz c)" "zone_sane db (co_tz c)" using assms(1) by (simp_all add: calendar_ok_def)
  show ?thesis
    using measure_scan_exact [OF ok(1,2) first_day_Return(2) [OF ok(3) assms(2) n(1)] assms(3) n(2)]
      time_from_first_day [OF ok assms(2) n(1)] by simp
qed

lemma between_is_measure_spec:
  assumes "calendar_ok db cal c" "0 \<le> a" "0 \<le> b" "businessMsBetween db (Some a) (Some b) (Some cal) = Return r"
  shows "r = (if a \<le> b then bm (business_time db c) a b else - bm (business_time db c) b a)"
proof -
  consider "a = b" | "a < b" | "b < a" by linarith
  then show ?thesis
    using assms business_span_measure [OF assms(1,2)] business_span_measure [OF assms(1,3)]
    by cases (auto simp: businessMsBetween_def some_or_def andThen_eq_Return)
qed



lemma add_exact:
  assumes "calendar_ok db cal c" "0 \<le> from" "0 < ms" "addBusinessMs db (Some from) ms (Some cal) = Return t"
  obtains n where "first_day db c from = Return n" "add_scan db c (MAX_SCAN_DAYS + 1) n ms from = Return t"
    "from < t" "bm (business_time db c) from t = ms" "t - 1 \<in> business_time db c" "\<not> co_empty c"
proof -
  have ok: "compile db cal = Return c" "days_in_order db (co_tz c)" "zone_sane db (co_tz c)" using assms(1) by (simp_all add: calendar_ok_def)
  obtain n where n: "first_day db c from = Return n" "add_scan db c (MAX_SCAN_DAYS + 1) n ms from = Return t" "\<not> co_empty c"
    using assms(3,4) ok(1) by (auto simp: addBusinessMs_def some_or_def andThen_eq_Return split: if_splits)
  note fd = first_day_Return(2) [OF ok(3) assms(2) n(1)]
  note ex = add_scan_exact [OF ok(1,2) fd assms(3) n(2)]
  have "time_from_day db c n \<subseteq> business_time db c"
    using fd unfolding time_from_day_def business_time_def by (intro UN_mono) (auto simp: charted_def)
  with ex n time_from_first_day [OF ok assms(2) n(1), of t] that show thesis by auto
qed

lemma add_least_spec:
  assumes "calendar_ok db cal c" "0 \<le> start" "addBusinessMs db (Some start) ms (Some cal) = Return t"
  shows "start \<le> t \<and> bm (business_time db c) start t = ms \<and> (\<forall>u\<ge>start. ms \<le> bm (business_time db c) start u \<longrightarrow> t \<le> u)"
proof (cases "0 < ms")
  case True
  from add_exact [OF assms(1,2) True assms(3)] obtain n where
    ex: "start < t" "bm (business_time db c) start t = ms" "t - 1 \<in> business_time db c" by blast
  have "t \<le> u" if "ms \<le> bm (business_time db c) start u" for u
  proof (rule ccontr)
    assume "\<not> t \<le> u"
    then have "bm (business_time db c) start u \<le> bm (business_time db c) start (t - 1)" by (intro bm_mono) simp
    with that bm_last [OF ex(3,1)] ex(2) show False by simp
  qed
  with ex show ?thesis by simp
next
  case False
  then have "ms = 0" "t = start" using assms(3) by (auto simp: addBusinessMs_def some_or_def split: if_splits)
  then show ?thesis by simp
qed



text \<open>
  Adding and measuring are inverse: the business time from a start to the instant reached by adding a
  length is that length, and the measuring scan does find it; and adding in two steps is adding the sum, whenever
  the sum is within the scan.
\<close>

theorem add_between_round_trip:
  assumes "calendar_ok db cal c" "0 \<le> start" "addBusinessMs db (Some start) ms (Some cal) = Return t"
  shows "businessMsBetween db (Some start) (Some t) (Some cal) = Return ms
    \<and> (\<forall>ms' t' t''. addBusinessMs db (Some t) ms' (Some cal) = Return t' \<longrightarrow>
         addBusinessMs db (Some start) (ms + ms') (Some cal) = Return t'' \<longrightarrow> t'' = t')"
proof
  have ok: "compile db cal = Return c" "days_in_order db (co_tz c)" "zone_sane db (co_tz c)" using assms(1) by (simp_all add: calendar_ok_def)
  show "businessMsBetween db (Some start) (Some t) (Some cal) = Return ms"
  proof (cases "0 < ms")
    case True
    from add_exact [OF assms(1,2) True assms(3)] obtain n where
      n: "first_day db c start = Return n" "add_scan db c (MAX_SCAN_DAYS + 1) n ms start = Return t" and lt: "start < t" and ne: "\<not> co_empty c"
      by blast
    obtain r where "measure_scan db c (MAX_SCAN_DAYS + 1) n t 0 start = Return r"
      using scans_agree [OF ok(1,2) first_day_Return(2) [OF ok(3) assms(2) n(1)] True n(2)] by blast
    then have ret: "businessMsBetween db (Some start) (Some t) (Some cal) = Return r"
      using n(1) lt ne ok(1) by (simp add: businessMsBetween_def business_span_def some_or_def)
    from between_is_measure_spec [OF assms(1,2) _ this] add_least_spec [OF assms] lt assms(2) have "r = ms" by auto
    with ret show ?thesis by simp
  next
    case False
    then have "ms = 0" "t = start" using assms(3) by (auto simp: addBusinessMs_def some_or_def split: if_splits)
    then show ?thesis by (simp add: businessMsBetween_def some_or_def)
  qed
  show "\<forall>ms' t' t''. addBusinessMs db (Some t) ms' (Some cal) = Return t' \<longrightarrow>
         addBusinessMs db (Some start) (ms + ms') (Some cal) = Return t'' \<longrightarrow> t'' = t'"
  proof (intro allI impI)
    fix ms' t' t'' assume a: "addBusinessMs db (Some t) ms' (Some cal) = Return t'" and b: "addBusinessMs db (Some start) (ms + ms') (Some cal) = Return t''"
    let ?S = "business_time db c"
    note l = add_least_spec [OF assms]
    have "0 \<le> t" using l assms(2) by simp
    note l' = add_least_spec [OF assms(1) this a] and l'' = add_least_spec [OF assms(1,2) b]
    have "bm ?S start t' = ms + ms'" using bm_split [of start t t' ?S] l l' by simp
    then have "t'' \<le> t'" using l'' l l' by simp
    moreover have "t' \<le> t''"
    proof -
      have "t \<le> t''" using l l'' bm_nonneg [of ?S t t'] l' by auto
      then have "ms' \<le> bm ?S t t''" using bm_split [of start t t'' ?S] l l'' by simp
      with l' \<open>t \<le> t''\<close> show ?thesis by blast
    qed
    ultimately show "t'' = t'" by simp
  qed
qed

theorem add_between_round_trip_witness:
  "businessMsBetween utc_db (Some 36000000) (Some 39600000) (Some sample_calendar) = Return 3600000"
  using add_between_round_trip [OF sample_calendar_ok _ sample_add] by simp


section \<open>A deadline within reach is found\<close>

definition scanned_time :: "zone_db \<Rightarrow> compiled \<Rightarrow> nat \<Rightarrow> int \<Rightarrow> int set" where
  "scanned_time db c k n = (\<Union>n'\<in>{n..<n + int k}. covered (day_intervals db c n'))"

lemma scanned_time_Suc: "scanned_time db c (Suc k) n = covered (day_intervals db c n) \<union> scanned_time db c k (n + 1)"
proof -
  have "{n..<n + int (Suc k)} = insert n {n + 1..<(n + 1) + int k}" by auto
  then show ?thesis by (simp add: scanned_time_def)
qed

lemma add_scan_short:
  assumes "compile db cal = Return c" "days_in_order db (co_tz c)" "charted n" "0 < rem"
    and "\<forall>n'\<in>{n..<n + int k}. \<exists>ivs. intervalsOf db c n' = Return ivs" "add_scan db c k n rem pos = Throw e"
  shows "e = Out_of_scan \<and> (\<forall>u. bm (scanned_time db c k n) pos u < rem)"
  using assms(3-6)
proof (induction k arbitrary: n rem pos)
  case 0
  then show ?case by (simp add: scanned_time_def bm_def)
next
  case (Suc k)
  obtain ivs where ivs: "intervalsOf db c n = Return ivs" using Suc.prems(3) by force
  note di = day_intervals_Return [OF ivs]
  let ?T = "scanned_time db c k (n + 1)"
  have "?T \<subseteq> time_from_day db c (n + 1)" unfolding scanned_time_def time_from_day_def by (intro UN_mono) auto
  then have io: "in_order ivs" "after_starts ivs ?T"
    using day_intervals_in_order [OF assms(1) Suc.prems(1)] later_days_after [OF assms(1,2) Suc.prems(1)] di
    by (simp_all add: after_starts_def) fastforce
  obtain rem' pos' where sp: "spend ivs rem pos = Inr (rem', pos')" and sc: "add_scan db c k (n + 1) rem' pos' = Throw e"
    using Suc.prems(4) ivs by (auto split: sum.splits)
  note on = spend_on [OF io Suc.prems(2) sp]
  have "charted (n + 1)" using Suc.prems(1) by (simp add: charted_def)
  moreover have "\<forall>n'\<in>{n + 1..<n + 1 + int k}. \<exists>ivs. intervalsOf db c n' = Return ivs" using Suc.prems(3) by auto
  ultimately have ih: "e = Out_of_scan" "bm ?T pos' v < rem'" for v using Suc.IH [of "n + 1" rem' pos'] on sc by auto
  have "bm (covered ivs \<union> ?T) pos u < rem" for u
  proof -
    have "bm (covered ivs \<union> ?T) pos u \<le> bm (covered ivs \<union> ?T) pos (max u pos')" by (rule bm_mono) simp
    also have "\<dots> = (rem - rem') + bm ?T pos' (max u pos')" using on by simp
    also have "\<dots> < rem" using ih(2) by simp
    finally show ?thesis .
  qed
  then show ?case using ih(1) by (simp add: scanned_time_Suc di)
qed

text \<open>
  A deadline within reach is found: when the days of the scan can be resolved and hold enough business time
  after the start, \<open>addBusinessMs\<close> returns.
\<close>

theorem deadline_found:
  assumes "calendar_ok db cal c" "0 \<le> start" "0 \<le> ms" "first_day db c start = Return n"
    and "\<forall>n'\<in>{n..n + int MAX_SCAN_DAYS}. \<exists>ivs. intervalsOf db c n' = Return ivs"
    and "ms \<le> bm (scanned_time db c (MAX_SCAN_DAYS + 1) n) start u"
  shows "\<exists>t. addBusinessMs db (Some start) ms (Some cal) = Return t"
proof (cases "0 < ms")
  case True
  have ok: "compile db cal = Return c" "days_in_order db (co_tz c)" "zone_sane db (co_tz c)" using assms(1) by (simp_all add: calendar_ok_def)
  note ch = first_day_Return(2) [OF ok(3) assms(2,4)]
  have "scanned_time db c (MAX_SCAN_DAYS + 1) n \<subseteq> business_time db c"
    using ch unfolding scanned_time_def business_time_def by (intro UN_mono) (auto simp: charted_def)
  then have ne: "\<not> co_empty c" using True assms(6) empty_no_time [OF ok(1)] by (auto simp: bm_def)
  have days: "\<forall>n'\<in>{n..<n + int (MAX_SCAN_DAYS + 1)}. \<exists>ivs. intervalsOf db c n' = Return ivs" using assms(5) by auto
  have "\<exists>t. add_scan db c (MAX_SCAN_DAYS + 1) n ms start = Return t"
  proof (cases "add_scan db c (MAX_SCAN_DAYS + 1) n ms start")
    case (Inl e)
    from add_scan_short [OF ok(1,2) ch True days Inl] assms(6) show ?thesis by (metis not_le)
  qed blast
  with True assms(4) ok(1) ne show ?thesis by (simp add: addBusinessMs_def some_or_def)
next
  case False
  with assms(3) show ?thesis by (simp add: addBusinessMs_def some_or_def)
qed

text \<open>The witness: from the same Thursday morning, one hour; every day of the scan resolves in UTC.\<close>

lemma near_four_digit: "charted n \<Longrightarrow> n \<le> 2000000 \<Longrightarrow> four_digit n"
proof -
  assume n: "charted n" "n \<le> 2000000"
  define z where "z = n + 719468"
  have "z div 146097 \<le> 2719468 div 146097" using n by (intro zdiv_mono1) (simp_all add: z_def)
  then have "z div 146097 \<le> 18" by simp
  moreover have "era_year (z mod 146097) \<le> 399" using era_year_bounds [of "z mod 146097"] by simp
  ultimately have "year_of n \<le> 9999"
    unfolding year_of_def civil_from_days_def Let_def z_def [symmetric] by auto
  with modern_year [OF charted_modern(2) [OF n(1)]] show ?thesis by (simp add: four_digit_def)
qed

lemma utc_instantAt:
  assumes "charted n" "n < 2000000" "0 \<le> m" "m < 2880" "co_tz c = ''UTC''"
  shows "\<exists>t. instantAt utc_db c n m = Return t"
proof -
  have at: "\<exists>t. zonedDateMinuteToUtc utc_db (ymdOfDay n') m' ''UTC'' = Return t" if "charted n'" "n' \<le> 2000000" "0 \<le> m'" "m' < 1440" for n' m'
  proof -
    have "wallClockToUtc utc_db (n' * day_ms + m' * MINUTE_MS) ''UTC'' = Some (n' * day_ms + m' * MINUTE_MS)"
      by (rule utc_wall) (use that minute_day [OF that(3,4), of n'] whole_minute in simp_all)
    with date_minute_exact [OF that(1) near_four_digit [OF that(1,2)] that(3,4), of utc_db "''UTC''"] show ?thesis
      by (simp add: some_or_def)
  qed
  show ?thesis
    using at [of n m] at [of "n + 1" "m - 1440"] assms by (cases "1440 \<le> m") (simp_all add: instantAt_def charted_def)
qed

lemma utc_intervalsOf:
  assumes "compile utc_db cal = Return c" "charted n" "n < 2000000" "co_tz c = ''UTC''"
  shows "\<exists>ivs. intervalsOf utc_db c n = Return ivs"
proof -
  have "\<exists>ivs. window_intervals utc_db c n segs = Return ivs"
    if "\<forall>(s, e)\<in>set segs. 0 \<le> s \<and> s < 1440 \<and> s < e \<and> e < 2880" for segs
    using that
  proof (induction segs)
    case (Cons p segs)
    obtain s e where p: "p = (s, e)" by fastforce
    with Cons utc_instantAt [OF assms(2,3) _ _ assms(4), of s] utc_instantAt [OF assms(2,3) _ _ assms(4), of e] show ?case by auto
  qed simp
  then have "\<exists>ivs. window_intervals utc_db c n (co_byWeekday c (weekdayOfDay n)) = Return ivs"
    using byWeekday_range [OF assms(1)] by blast
  then show ?thesis by (auto simp: intervalsOf_def)
qed

theorem deadline_found_witness: "\<exists>t. addBusinessMs utc_db (Some 36000000) 3600000 (Some sample_calendar) = Return t"
proof (rule deadline_found [OF sample_calendar_ok, where n = "- 1" and u = 39600000])
  have c: "compile utc_db sample_calendar = Return sample_compiled" using sample_calendar_ok by (simp add: calendar_ok_def)
  show "first_day utc_db sample_compiled 36000000 = Return (- 1)" by code_simp
  show "\<forall>n'\<in>{- 1..- 1 + int MAX_SCAN_DAYS}. \<exists>ivs. intervalsOf utc_db sample_compiled n' = Return ivs"
    by (intro ballI utc_intervalsOf [OF c]) (simp_all add: charted_def MAX_SCAN_DAYS_def, simp add: sample_compiled_def)
  have "{36000000..<39600000} \<subseteq> scanned_time utc_db sample_compiled (MAX_SCAN_DAYS + 1) (- 1)"
    using day_intervals_Return [OF sample_thursday]
    by (auto simp: scanned_time_def MAX_SCAN_DAYS_def intro!: bexI [of _ 0])
  then have "scanned_time utc_db sample_compiled (MAX_SCAN_DAYS + 1) (- 1) \<inter> {36000000..<39600000} = {36000000..<39600000}" by auto
  then show "3600000 \<le> bm (scanned_time utc_db sample_compiled (MAX_SCAN_DAYS + 1) (- 1)) 36000000 39600000"
    by (simp add: bm_def)
qed simp_all

end
