(* ===== verification/Sla_Engine.thy ===== *)
theory Sla_Engine
  imports Business_Measure
begin

text \<open>
  The clock of a support ticket: \<open>services/support/sla-engine.ts\<close>.  The terms of a ticket carry their
  calendar; an evaluation is a function of the terms, the ticket's stamps and \<open>now\<close>.  Stamps are instants;
  an exception of the calendar arithmetic ends the evaluation.  The threshold \<open>mins * 60000 * atRiskPercent / 100\<close>
  is a whole number of milliseconds, so it is computed on integers.
\<close>

section \<open>Terms and input\<close>

datatype sla_metric = FirstResponse | NextResponse | Resolution

datatype sla_status = NONE | ON_TRACK | AT_RISK | BREACHED | MET | PAUSED

datatype sla_clock = Running | Clock_paused | Stopped

datatype priority = P_none | P_low | P_medium | P_high | P_urgent

record sla_terms =
  st_priority :: "priority option"
  st_firstResponseMins :: "int option"
  st_nextResponseMins :: "int option"
  st_resolutionMins :: "int option"
  st_atRiskPercent :: int
  st_calendar :: "business_calendar option"
  st_nextResponseStartedAt :: "int option"
  st_nextResponsePausedMs :: int
  st_notified :: "sla_status list"

record sla_clock_input =
  ci_createdAt :: int
  ci_now :: int
  ci_clock :: sla_clock
  ci_firstRespondedAt :: "int option"
  ci_solvedAt :: "int option"
  ci_pausedMs :: int
  ci_pausedAt :: "int option"
  ci_terms :: sla_terms
  ci_previousStatus :: sla_status

record sla_clock_result =
  cr_firstResponseDueAt :: "int option"
  cr_nextResponseDueAt :: "int option"
  cr_resolutionDueAt :: "int option"
  cr_slaPausedMs :: int
  cr_slaPausedAt :: "int option"
  cr_slaStatus :: sla_status
  cr_metric :: "sla_metric option"
  cr_remainingBusinessMs :: "int option"

datatype sla_error = Invalid_sla_clock | Invalid_terms | Range range_error

definition MAX_SAFE_INTEGER :: int where
  "MAX_SAFE_INTEGER = 9007199254740991"

fun rank :: "sla_status \<Rightarrow> int" where
  "rank NONE = -1"
| "rank ON_TRACK = 0"
| "rank AT_RISK = 1"
| "rank BREACHED = 2"
| "rank MET = 0"
| "rank PAUSED = 0"

definition minutes_ok :: "int option \<Rightarrow> bool" where
  "minutes_ok v = (case v of None \<Rightarrow> True | Some m \<Rightarrow> 1 \<le> m \<and> m \<le> 525600)"

text \<open>Terms read back from the ticket row: the bounds of every field, and the calendar validated anew.\<close>

definition parseSlaTerms :: "zone_db \<Rightarrow> sla_terms \<Rightarrow> (sla_error, sla_terms) result" where
  "parseSlaTerms db terms =
     (if minutes_ok (st_firstResponseMins terms) \<and> minutes_ok (st_nextResponseMins terms) \<and> minutes_ok (st_resolutionMins terms)
         \<and> 1 \<le> st_atRiskPercent terms \<and> st_atRiskPercent terms \<le> 99
         \<and> 0 \<le> st_nextResponsePausedMs terms \<and> st_nextResponsePausedMs terms \<le> MAX_SAFE_INTEGER
         \<and> set (st_notified terms) \<subseteq> {AT_RISK, BREACHED} \<and> length (st_notified terms) \<le> 2
      then (case st_calendar terms of
          None \<Rightarrow> Return terms
        | Some cal \<Rightarrow>
            (case validateCalendarForSave db (calendar_json cal) of
               Inl e \<Rightarrow> Throw (Range e)
             | Inr cal' \<Rightarrow> Return (terms\<lparr>st_calendar := Some cal'\<rparr>)))
      else Throw Invalid_terms)"

definition calendar_call :: "(range_error, 'a) result \<Rightarrow> (sla_error, 'a) result" where
  "calendar_call r = (case r of Inl e \<Rightarrow> Throw (Range e) | Inr x \<Rightarrow> Return x)"

section \<open>The evaluation\<close>

text \<open>One target of the loop: its name, where it starts, its minutes, its pause and whether it is still open.\<close>

record sla_target =
  tg_name :: sla_metric
  tg_start :: int
  tg_mins :: int
  tg_paused :: int
  tg_active :: bool

record sla_loop =
  lo_status :: sla_status
  lo_metric :: "sla_metric option"
  lo_remaining :: "int option"
  lo_dues :: "sla_metric \<Rightarrow> int option"

definition pause_end :: "sla_clock_input \<Rightarrow> int" where
  "pause_end input =
     (if ci_clock input = Stopped then (case ci_solvedAt input of Some t \<Rightarrow> t | None \<Rightarrow> ci_now input) else ci_now input)"

definition accrued_pause :: "zone_db \<Rightarrow> sla_clock_input \<Rightarrow> (sla_error, int) result" where
  "accrued_pause db input =
     (case ci_pausedAt input of
        None \<Rightarrow> Return 0
      | Some p \<Rightarrow>
          andThen (calendar_call (businessMsBetween db (Some p) (Some (pause_end input)) (st_calendar (ci_terms input))))
            (\<lambda>ms. Return (max 0 ms)))"

definition paused_at :: "sla_clock_input \<Rightarrow> int option" where
  "paused_at input =
     (if ci_clock input = Clock_paused then Some (case ci_pausedAt input of Some p \<Rightarrow> p | None \<Rightarrow> ci_now input) else None)"

definition effective_at :: "sla_clock_input \<Rightarrow> int" where
  "effective_at input =
     (case ci_clock input of
        Clock_paused \<Rightarrow> (case ci_pausedAt input of Some p \<Rightarrow> p | None \<Rightarrow> ci_now input)
      | Stopped \<Rightarrow> (case ci_solvedAt input of Some t \<Rightarrow> t | None \<Rightarrow> ci_now input)
      | Running \<Rightarrow> ci_now input)"

definition mins_of :: "int option \<Rightarrow> int" where
  "mins_of v = (case v of Some m \<Rightarrow> m | None \<Rightarrow> 0)"

definition sla_targets :: "sla_clock_input \<Rightarrow> int \<Rightarrow> sla_target list" where
  "sla_targets input deadlinePaused =
     (let terms = ci_terms input in
      [\<lparr>tg_name = FirstResponse, tg_start = ci_createdAt input, tg_mins = mins_of (st_firstResponseMins terms),
        tg_paused = deadlinePaused, tg_active = (ci_firstRespondedAt input = None)\<rparr>,
       \<lparr>tg_name = NextResponse,
        tg_start = (case st_nextResponseStartedAt terms of Some t \<Rightarrow> t | None \<Rightarrow> ci_createdAt input),
        tg_mins = mins_of (st_nextResponseMins terms),
        tg_paused = max 0 (deadlinePaused - st_nextResponsePausedMs terms),
        tg_active = (st_nextResponseStartedAt terms \<noteq> None)\<rparr>,
       \<lparr>tg_name = Resolution, tg_start = ci_createdAt input, tg_mins = mins_of (st_resolutionMins terms),
        tg_paused = deadlinePaused, tg_active = (ci_solvedAt input = None)\<rparr>])"

definition completion_of :: "sla_clock_input \<Rightarrow> sla_metric \<Rightarrow> int option" where
  "completion_of input name =
     (case name of FirstResponse \<Rightarrow> ci_firstRespondedAt input | Resolution \<Rightarrow> ci_solvedAt input | NextResponse \<Rightarrow> None)"

text \<open>The pause a metric does not count: all of it, or the part since its own start.\<close>

definition pause_credit :: "sla_terms \<Rightarrow> int \<Rightarrow> sla_metric \<Rightarrow> int" where
  "pause_credit terms pausedMs name =
     max 0 (pausedMs - (if name = NextResponse then st_nextResponsePausedMs terms else 0))"

definition elapsed_ms :: "zone_db \<Rightarrow> sla_terms \<Rightarrow> int \<Rightarrow> sla_target \<Rightarrow> int \<Rightarrow> (sla_error, int) result" where
  "elapsed_ms db terms pausedMs tg t =
     andThen (calendar_call (businessMsBetween db (Some (tg_start tg)) (Some t) (st_calendar terms)))
       (\<lambda>ms. Return (max 0 (ms - pause_credit terms pausedMs (tg_name tg))))"

definition candidate_status :: "sla_terms \<Rightarrow> sla_target \<Rightarrow> int \<Rightarrow> sla_status" where
  "candidate_status terms tg elapsed =
     (if tg_mins tg * 60000 \<le> elapsed then BREACHED
      else if tg_active tg \<and> tg_mins tg * 60000 * st_atRiskPercent terms div 100 \<le> elapsed then AT_RISK
      else ON_TRACK)"

definition sla_target_step ::
  "zone_db \<Rightarrow> sla_clock_input \<Rightarrow> int \<Rightarrow> sla_loop \<Rightarrow> sla_target \<Rightarrow> (sla_error, sla_loop) result" where
  "sla_target_step db input pausedMs l tg =
     (let terms = ci_terms input; completion = completion_of input (tg_name tg) in
      if tg_mins tg = 0 then Return l
      else if \<not> tg_active tg \<and> completion = None then Return l
      else andThen (calendar_call (addBusinessMs db (Some (tg_start tg)) (tg_mins tg * 60000 + tg_paused tg) (st_calendar terms))) (\<lambda>due.
           andThen (elapsed_ms db terms pausedMs tg (case completion of Some t \<Rightarrow> t | None \<Rightarrow> effective_at input)) (\<lambda>elapsed.
             let candidate = candidate_status terms tg elapsed;
                 l' = (if rank (lo_status l) < rank candidate then l\<lparr>lo_status := candidate, lo_metric := Some (tg_name tg)\<rparr> else l)
             in if \<not> tg_active tg then Return l'
                else andThen (elapsed_ms db terms pausedMs tg (effective_at input)) (\<lambda>spent.
                     let left = max 0 (tg_mins tg * 60000 - spent)
                     in Return (l'\<lparr>lo_dues := (lo_dues l')(tg_name tg := Some due),
                           lo_remaining := Some (case lo_remaining l' of None \<Rightarrow> left | Some r \<Rightarrow> min r left)\<rparr>)))))"

fun sla_loop_run :: "zone_db \<Rightarrow> sla_clock_input \<Rightarrow> int \<Rightarrow> sla_loop \<Rightarrow> sla_target list \<Rightarrow> (sla_error, sla_loop) result" where
  "sla_loop_run db input pausedMs l [] = Return l"
| "sla_loop_run db input pausedMs l (tg # tgs) =
     andThen (sla_target_step db input pausedMs l tg) (\<lambda>l'. sla_loop_run db input pausedMs l' tgs)"

definition settled_status :: "sla_clock_input \<Rightarrow> sla_status \<Rightarrow> sla_status" where
  "settled_status input status =
     (if ci_previousStatus input = BREACHED then BREACHED
      else if status \<noteq> BREACHED \<and> ci_clock input = Clock_paused then PAUSED
      else if status \<noteq> BREACHED \<and> ci_clock input = Stopped then MET
      else status)"

definition loop_start :: sla_loop where
  "loop_start = \<lparr>lo_status = ON_TRACK, lo_metric = None, lo_remaining = None, lo_dues = (\<lambda>_. None)\<rparr>"

definition evaluateSla :: "zone_db \<Rightarrow> sla_clock_input \<Rightarrow> (sla_error, sla_clock_result) result" where
  "evaluateSla db input =
     (if ci_pausedMs input < 0 \<or> MAX_SAFE_INTEGER < ci_pausedMs input then Throw Invalid_sla_clock
      else andThen (accrued_pause db input) (\<lambda>accrued.
        let isPaused = (ci_clock input = Clock_paused);
            pausedMs = ci_pausedMs input + (if isPaused then 0 else accrued);
            deadlinePaused = pausedMs + (if isPaused then accrued else 0)
        in andThen (sla_loop_run db input pausedMs loop_start (sla_targets input deadlinePaused)) (\<lambda>l.
             Return \<lparr>cr_firstResponseDueAt = lo_dues l FirstResponse, cr_nextResponseDueAt = lo_dues l NextResponse,
               cr_resolutionDueAt = lo_dues l Resolution, cr_slaPausedMs = pausedMs, cr_slaPausedAt = paused_at input,
               cr_slaStatus = settled_status input (lo_status l), cr_metric = lo_metric l,
               cr_remainingBusinessMs = lo_remaining l\<rparr>)))"


section \<open>The measure behind the terms\<close>

text \<open>The business time the terms count: all time without a calendar.\<close>

definition terms_time :: "zone_db \<Rightarrow> business_calendar option \<Rightarrow> int set \<Rightarrow> bool" where
  "terms_time db cal S \<longleftrightarrow>
     (case cal of None \<Rightarrow> S = UNIV | Some k \<Rightarrow> \<exists>c. calendar_ok db k c \<and> S = business_time db c)"

lemma bm_UNIV: "a \<le> b \<Longrightarrow> bm UNIV a b = b - a"
  by (simp add: bm_def)

definition signed_bm :: "int set \<Rightarrow> int \<Rightarrow> int \<Rightarrow> int" where
  "signed_bm S a b = (if a \<le> b then bm S a b else - bm S b a)"

lemma terms_between:
  assumes "terms_time db cal S" "0 \<le> a" "0 \<le> b" "businessMsBetween db (Some a) (Some b) cal = Return r"
  shows "r = signed_bm S a b"
proof (cases cal)
  case None
  with assms show ?thesis
    by (auto simp: terms_time_def businessMsBetween_def business_span_def some_or_def andThen_eq_Return signed_bm_def bm_UNIV split: if_splits)
next
  case (Some k)
  with assms between_is_measure_spec [of db k _ a b r] show ?thesis by (auto simp: terms_time_def signed_bm_def)
qed

lemma terms_add:
  assumes "terms_time db cal S" "0 \<le> start" "addBusinessMs db (Some start) ms cal = Return t"
  shows "start \<le> t \<and> bm S start t = ms \<and> (\<forall>u\<ge>start. ms \<le> bm S start u \<longrightarrow> t \<le> u)"
proof (cases cal)
  case None
  with assms have t: "t = start + ms" "0 \<le> ms" by (auto simp: addBusinessMs_def some_or_def split: if_splits)
  with None assms(1) show ?thesis by (auto simp: terms_time_def bm_UNIV)
next
  case (Some k)
  with assms add_least_spec [of db k _ start ms t] show ?thesis by (auto simp: terms_time_def)
qed

lemma due_reached:
  assumes "terms_time db cal S" "0 \<le> start" "0 \<le> t" "0 < ms" "addBusinessMs db (Some start) ms cal = Return due"
  shows "ms \<le> signed_bm S start t \<longleftrightarrow> due \<le> t"
proof -
  note l = terms_add [OF assms(1,2,5)]
  show ?thesis
  proof (cases "start \<le> t")
    case True
    have "due \<le> t \<Longrightarrow> bm S start due \<le> bm S start t" by (rule bm_mono)
    with True l show ?thesis by (auto simp: signed_bm_def)
  next
    case False
    then have "signed_bm S start t \<le> 0" by (simp add: signed_bm_def)
    with False l assms(4) show ?thesis by simp
  qed
qed


section \<open>One evaluation\<close>

text \<open>A ticket that is open: neither answered nor solved, stamped after 1970, with sane terms.\<close>

definition open_ticket :: "zone_db \<Rightarrow> sla_clock_input \<Rightarrow> int set \<Rightarrow> bool" where
  "open_ticket db input S \<longleftrightarrow>
     ci_firstRespondedAt input = None \<and> ci_solvedAt input = None
     \<and> 0 \<le> ci_createdAt input \<and> 0 \<le> ci_now input
     \<and> (case st_nextResponseStartedAt (ci_terms input) of None \<Rightarrow> True | Some t \<Rightarrow> 0 \<le> t)
     \<and> minutes_ok (st_firstResponseMins (ci_terms input)) \<and> minutes_ok (st_nextResponseMins (ci_terms input))
     \<and> minutes_ok (st_resolutionMins (ci_terms input)) \<and> terms_time db (st_calendar (ci_terms input)) S"

lemma calendar_call_Return [simp]: "calendar_call r = Return x \<longleftrightarrow> r = Return x"
  by (simp add: calendar_call_def split: sum.splits)

lemma elapsed_ms_Return:
  assumes "terms_time db (st_calendar terms) S" "0 \<le> tg_start tg" "0 \<le> t" "elapsed_ms db terms pausedMs tg t = Return e"
  shows "e = max 0 (signed_bm S (tg_start tg) t - pause_credit terms pausedMs (tg_name tg))"
  using assms terms_between [OF assms(1-3)] by (auto simp: elapsed_ms_def andThen_eq_Return)

text \<open>What a target contributes: breached, at risk, nothing.\<close>

definition overdue :: "sla_terms \<Rightarrow> int set \<Rightarrow> int \<Rightarrow> int \<Rightarrow> sla_target \<Rightarrow> bool" where
  "overdue terms S pausedMs t tg \<longleftrightarrow>
     tg_mins tg \<noteq> 0 \<and> tg_active tg \<and>
     tg_mins tg * 60000 \<le> max 0 (signed_bm S (tg_start tg) t - pause_credit terms pausedMs (tg_name tg))"

lemma candidate_breached: "candidate_status terms tg e = BREACHED \<longleftrightarrow> tg_mins tg * 60000 \<le> e"
  by (simp add: candidate_status_def)

lemma rank_worse:
  "s \<in> {ON_TRACK, AT_RISK, BREACHED} \<Longrightarrow> c \<in> {ON_TRACK, AT_RISK, BREACHED} \<Longrightarrow>
     (if rank s < rank c then c else s) \<in> {ON_TRACK, AT_RISK, BREACHED}
     \<and> ((if rank s < rank c then c else s) = BREACHED \<longleftrightarrow> s = BREACHED \<or> c = BREACHED)"
  by auto

definition graded :: "sla_loop \<Rightarrow> bool" where
  "graded l \<longleftrightarrow> lo_status l \<in> {ON_TRACK, AT_RISK, BREACHED}"

lemma candidate_graded: "candidate_status terms tg e \<in> {ON_TRACK, AT_RISK, BREACHED}"
  by (simp add: candidate_status_def)

text \<open>A step on a metric with no completion stamp, with the two measurements at one instant.\<close>

lemma open_step:
  assumes "completion_of input (tg_name tg) = None"
  shows "tg_mins tg = 0 \<or> \<not> tg_active tg \<Longrightarrow> sla_target_step db input pausedMs l tg = Return l"
    and "tg_mins tg \<noteq> 0 \<Longrightarrow> tg_active tg \<Longrightarrow> sla_target_step db input pausedMs l tg = Return l' \<Longrightarrow>
      \<exists>due e. addBusinessMs db (Some (tg_start tg)) (tg_mins tg * 60000 + tg_paused tg) (st_calendar (ci_terms input)) = Return due
        \<and> elapsed_ms db (ci_terms input) pausedMs tg (effective_at input) = Return e
        \<and> lo_status l' = (if rank (lo_status l) < rank (candidate_status (ci_terms input) tg e)
            then candidate_status (ci_terms input) tg e else lo_status l)
        \<and> lo_remaining l' = Some (case lo_remaining l of None \<Rightarrow> max 0 (tg_mins tg * 60000 - e) | Some r \<Rightarrow> min r (max 0 (tg_mins tg * 60000 - e)))
        \<and> lo_dues l' = (lo_dues l)(tg_name tg := Some due)"
proof -
  show "tg_mins tg = 0 \<or> \<not> tg_active tg \<Longrightarrow> sla_target_step db input pausedMs l tg = Return l"
    unfolding sla_target_step_def Let_def assms by auto
next
  assume "tg_mins tg \<noteq> 0" "tg_active tg" and res: "sla_target_step db input pausedMs l tg = Return l'"
  then have "sla_target_step db input pausedMs l tg =
      andThen (calendar_call (addBusinessMs db (Some (tg_start tg)) (tg_mins tg * 60000 + tg_paused tg) (st_calendar (ci_terms input)))) (\<lambda>due.
        andThen (elapsed_ms db (ci_terms input) pausedMs tg (effective_at input)) (\<lambda>e.
          let candidate = candidate_status (ci_terms input) tg e;
              l1 = (if rank (lo_status l) < rank candidate then l\<lparr>lo_status := candidate, lo_metric := Some (tg_name tg)\<rparr> else l);
              left = max 0 (tg_mins tg * 60000 - e)
          in Return (l1\<lparr>lo_dues := (lo_dues l1)(tg_name tg := Some due),
                lo_remaining := Some (case lo_remaining l1 of None \<Rightarrow> left | Some r \<Rightarrow> min r left)\<rparr>)))"
    by (cases "elapsed_ms db (ci_terms input) pausedMs tg (effective_at input)") (simp_all add: sla_target_step_def Let_def assms)
  with res show "\<exists>due e. addBusinessMs db (Some (tg_start tg)) (tg_mins tg * 60000 + tg_paused tg) (st_calendar (ci_terms input)) = Return due
        \<and> elapsed_ms db (ci_terms input) pausedMs tg (effective_at input) = Return e
        \<and> lo_status l' = (if rank (lo_status l) < rank (candidate_status (ci_terms input) tg e)
            then candidate_status (ci_terms input) tg e else lo_status l)
        \<and> lo_remaining l' = Some (case lo_remaining l of None \<Rightarrow> max 0 (tg_mins tg * 60000 - e) | Some r \<Rightarrow> min r (max 0 (tg_mins tg * 60000 - e)))
        \<and> lo_dues l' = (lo_dues l)(tg_name tg := Some due)"
    by (auto simp: andThen_eq_Return Let_def)
qed

lemma step_open:
  assumes op: "open_ticket db input S" and g: "graded l" and tg: "0 \<le> tg_start tg" "completion_of input (tg_name tg) = None"
    and at: "0 \<le> effective_at input" and res: "sla_target_step db input pausedMs l tg = Return l'"
  shows "graded l' \<and> (lo_status l' = BREACHED \<longleftrightarrow> lo_status l = BREACHED \<or> overdue (ci_terms input) S pausedMs (effective_at input) tg)"
proof (cases "tg_mins tg = 0 \<or> \<not> tg_active tg")
  case True
  with res open_step(1) [OF tg(2), of db pausedMs l] have "l' = l" by simp
  with True g show ?thesis by (auto simp: overdue_def)
next
  case False
  have S: "terms_time db (st_calendar (ci_terms input)) S" using op by (simp add: open_ticket_def)
  obtain e where e: "elapsed_ms db (ci_terms input) pausedMs tg (effective_at input) = Return e"
    and l': "lo_status l' = (if rank (lo_status l) < rank (candidate_status (ci_terms input) tg e)
        then candidate_status (ci_terms input) tg e else lo_status l)"
    using open_step(2) [OF tg(2) _ _ res] False by blast
  have val: "overdue (ci_terms input) S pausedMs (effective_at input) tg \<longleftrightarrow> tg_mins tg * 60000 \<le> e"
    using False elapsed_ms_Return [OF S tg(1) at e] by (simp add: overdue_def)
  from rank_worse [OF g [unfolded graded_def] candidate_graded [of "ci_terms input" tg e]] candidate_breached [of "ci_terms input" tg e] val
  show ?thesis unfolding graded_def l' by blast
qed

lemma loop_open:
  assumes "open_ticket db input S" "0 \<le> effective_at input" "graded l" "sla_loop_run db input pausedMs l tgs = Return l'"
    and "\<forall>tg\<in>set tgs. 0 \<le> tg_start tg \<and> completion_of input (tg_name tg) = None"
  shows "lo_status l' = BREACHED \<longleftrightarrow> lo_status l = BREACHED \<or> (\<exists>tg\<in>set tgs. overdue (ci_terms input) S pausedMs (effective_at input) tg)"
  using assms(3-5)
proof (induction tgs arbitrary: l)
  case (Cons tg tgs)
  then obtain l1 where l1: "sla_target_step db input pausedMs l tg = Return l1" "sla_loop_run db input pausedMs l1 tgs = Return l'"
    by (auto simp: andThen_eq_Return)
  with step_open [OF assms(1) Cons.prems(1) _ _ assms(2) l1(1)] Cons show ?case by auto
qed simp

lemma open_targets:
  assumes "open_ticket db input S" "tg \<in> set (sla_targets input d)"
  shows "0 \<le> tg_start tg \<and> completion_of input (tg_name tg) = None \<and> 0 \<le> tg_mins tg
    \<and> tg_paused tg = (if tg_name tg = NextResponse then max 0 (d - st_nextResponsePausedMs (ci_terms input)) else d)"
  using assms by (auto simp: open_ticket_def sla_targets_def Let_def completion_of_def mins_of_def minutes_ok_def split: option.splits)


lemma evaluate_parts:
  assumes "evaluateSla db input = Return r"
  obtains accrued l where "accrued_pause db input = Return accrued"
    "cr_slaPausedMs r = ci_pausedMs input + (if ci_clock input = Clock_paused then 0 else accrued)"
    "sla_loop_run db input (cr_slaPausedMs r) loop_start (sla_targets input (ci_pausedMs input + accrued)) = Return l"
    "cr_slaStatus r = settled_status input (lo_status l)" "cr_remainingBusinessMs r = lo_remaining l"
    "cr_firstResponseDueAt r = lo_dues l FirstResponse" "cr_nextResponseDueAt r = lo_dues l NextResponse"
    "cr_resolutionDueAt r = lo_dues l Resolution" "0 \<le> ci_pausedMs input"
  using assms
  by (auto simp: evaluateSla_def andThen_eq_Return Let_def split: if_splits)

text \<open>The deadlines a loop leaves behind are those of its open targets.\<close>

lemma loop_dues:
  assumes "\<forall>tg\<in>set tgs. completion_of input (tg_name tg) = None" "distinct (map tg_name tgs)"
    and "sla_loop_run db input pausedMs l tgs = Return l'"
  shows "lo_dues l' m = Some due \<longleftrightarrow>
    (if \<exists>tg\<in>set tgs. tg_name tg = m \<and> tg_mins tg \<noteq> 0 \<and> tg_active tg
     then \<exists>tg\<in>set tgs. tg_name tg = m \<and> tg_mins tg \<noteq> 0 \<and> tg_active tg
       \<and> addBusinessMs db (Some (tg_start tg)) (tg_mins tg * 60000 + tg_paused tg) (st_calendar (ci_terms input)) = Return due
     else lo_dues l m = Some due)"
  using assms
proof (induction tgs arbitrary: l)
  case (Cons tg tgs)
  then obtain l1 where l1: "sla_target_step db input pausedMs l tg = Return l1" "sla_loop_run db input pausedMs l1 tgs = Return l'"
    by (auto simp: andThen_eq_Return)
  have comp: "completion_of input (tg_name tg) = None" and other: "\<forall>t\<in>set tgs. tg_name t \<noteq> tg_name tg"
    using Cons.prems(1,2) by (auto simp: image_iff)
  note IH = Cons.IH [OF _ _ l1(2)]
  show ?case
  proof (cases "tg_mins tg = 0 \<or> \<not> tg_active tg")
    case True
    then have "l1 = l" using l1(1) open_step(1) [OF comp] by simp
    with IH Cons.prems(1,2) True show ?thesis by auto
  next
    case False
    then obtain d where "addBusinessMs db (Some (tg_start tg)) (tg_mins tg * 60000 + tg_paused tg) (st_calendar (ci_terms input)) = Return d"
      "lo_dues l1 = (lo_dues l)(tg_name tg := Some d)"
      using open_step(2) [OF comp _ _ l1(1)] by blast
    with IH Cons.prems(1,2) False other show ?thesis by auto
  qed
qed simp

text \<open>A loop that returned computed the deadline of each open target.\<close>

lemma loop_ran:
  assumes "sla_loop_run db input pausedMs l tgs = Return l'" "tg \<in> set tgs" "completion_of input (tg_name tg) = None"
    "tg_mins tg \<noteq> 0" "tg_active tg"
  shows "\<exists>due. addBusinessMs db (Some (tg_start tg)) (tg_mins tg * 60000 + tg_paused tg) (st_calendar (ci_terms input)) = Return due"
  using assms
proof (induction tgs arbitrary: l)
  case (Cons t tgs)
  then obtain l1 where l1: "sla_target_step db input pausedMs l t = Return l1" "sla_loop_run db input pausedMs l1 tgs = Return l'"
    by (auto simp: andThen_eq_Return)
  with Cons open_step(2) [OF Cons.prems(3-5), of db pausedMs l l1] show ?case by auto
qed simp



text \<open>The witness: the Thursday calendar, a ticket of ten o'clock with a first response within the hour.\<close>

definition sample_terms :: sla_terms where
  "sample_terms = \<lparr>st_priority = Some P_high, st_firstResponseMins = Some 60, st_nextResponseMins = None, st_resolutionMins = None,
     st_atRiskPercent = 80, st_calendar = Some sample_calendar, st_nextResponseStartedAt = None, st_nextResponsePausedMs = 0, st_notified = []\<rparr>"

definition sample_input :: "sla_clock \<Rightarrow> int \<Rightarrow> int option \<Rightarrow> sla_clock_input" where
  "sample_input clock now pausedAt = \<lparr>ci_createdAt = 36000000, ci_now = now, ci_clock = clock, ci_firstRespondedAt = None, ci_solvedAt = None,
     ci_pausedMs = 0, ci_pausedAt = pausedAt, ci_terms = sample_terms, ci_previousStatus = ON_TRACK\<rparr>"

lemma sample_open: "0 \<le> now \<Longrightarrow> open_ticket utc_db (sample_input clock now p) (business_time utc_db sample_compiled)"
  using sample_calendar_ok
  by (auto simp: open_ticket_def sample_input_def sample_terms_def minutes_ok_def terms_time_def)

lemma sample_evaluation:
  "\<exists>r. evaluateSla utc_db (sample_input Running 39600000 None) = Return r \<and> cr_firstResponseDueAt r = Some 39600000"
  using sample_add sample_between
  by (simp add: evaluateSla_def accrued_pause_def sample_input_def sample_terms_def MAX_SAFE_INTEGER_def sla_targets_def Let_def mins_of_def
      sla_target_step_def completion_of_def elapsed_ms_def effective_at_def pause_credit_def calendar_call_def loop_start_def)


section \<open>Pausing\<close>

text \<open>Two evaluations whose targets have spent the same time agree on status and remaining time.\<close>

definition same_spent :: "zone_db \<Rightarrow> sla_clock_input \<Rightarrow> int \<Rightarrow> sla_clock_input \<Rightarrow> int \<Rightarrow> sla_target \<Rightarrow> sla_target \<Rightarrow> bool" where
  "same_spent db input pausedMs input' pausedMs' tg tg' \<longleftrightarrow>
     tg_name tg' = tg_name tg \<and> tg_mins tg' = tg_mins tg \<and> tg_active tg' = tg_active tg
     \<and> completion_of input (tg_name tg) = None \<and> completion_of input' (tg_name tg) = None
     \<and> (\<forall>e e'. elapsed_ms db (ci_terms input) pausedMs tg (effective_at input) = Return e \<longrightarrow>
          elapsed_ms db (ci_terms input') pausedMs' tg' (effective_at input') = Return e' \<longrightarrow> e' = e)"

lemma loops_agree:
  assumes "list_all2 (same_spent db input pausedMs input' pausedMs') tgs tgs'" "ci_terms input' = ci_terms input"
    and "lo_status l' = lo_status l" "lo_remaining l' = lo_remaining l"
    and "sla_loop_run db input pausedMs l tgs = Return m" "sla_loop_run db input' pausedMs' l' tgs' = Return m'"
  shows "lo_status m' = lo_status m \<and> lo_remaining m' = lo_remaining m"
  using assms(1,3-6)
proof (induction arbitrary: l l' rule: list_all2_induct)
  case (Cons tg tgs tg' tgs')
  obtain l1 l1' where s: "sla_target_step db input pausedMs l tg = Return l1" "sla_loop_run db input pausedMs l1 tgs = Return m"
    "sla_target_step db input' pausedMs' l' tg' = Return l1'" "sla_loop_run db input' pausedMs' l1' tgs' = Return m'"
    using Cons.prems(3,4) by (auto simp: andThen_eq_Return)
  have sp: "tg_name tg' = tg_name tg" "tg_mins tg' = tg_mins tg" "tg_active tg' = tg_active tg"
    "completion_of input (tg_name tg) = None" "completion_of input' (tg_name tg') = None"
    using Cons.hyps(1) by (auto simp: same_spent_def)
  have "lo_status l1' = lo_status l1 \<and> lo_remaining l1' = lo_remaining l1"
  proof (cases "tg_mins tg = 0 \<or> \<not> tg_active tg")
    case True
    with open_step(1) [OF sp(4), of db pausedMs l] open_step(1) [OF sp(5), of db pausedMs' l'] s(1,3) sp Cons.prems(1,2) show ?thesis by auto
  next
    case False
    obtain e where e: "elapsed_ms db (ci_terms input) pausedMs tg (effective_at input) = Return e"
      "lo_status l1 = (if rank (lo_status l) < rank (candidate_status (ci_terms input) tg e) then candidate_status (ci_terms input) tg e else lo_status l)"
      "lo_remaining l1 = Some (case lo_remaining l of None \<Rightarrow> max 0 (tg_mins tg * 60000 - e) | Some r \<Rightarrow> min r (max 0 (tg_mins tg * 60000 - e)))"
      using open_step(2) [OF sp(4) _ _ s(1)] False by blast
    obtain e' where e': "elapsed_ms db (ci_terms input') pausedMs' tg' (effective_at input') = Return e'"
      "lo_status l1' = (if rank (lo_status l') < rank (candidate_status (ci_terms input') tg' e') then candidate_status (ci_terms input') tg' e' else lo_status l')"
      "lo_remaining l1' = Some (case lo_remaining l' of None \<Rightarrow> max 0 (tg_mins tg' * 60000 - e') | Some r \<Rightarrow> min r (max 0 (tg_mins tg' * 60000 - e')))"
      using open_step(2) [OF sp(5) _ _ s(3)] False sp(2,3) by metis
    have ee: "e' = e" using Cons.hyps(1) e(1) e'(1) by (simp add: same_spent_def)
    have "candidate_status (ci_terms input') tg' e = candidate_status (ci_terms input) tg e"
      by (simp add: candidate_status_def sp(2,3) assms(2))
    then show ?thesis unfolding e(2,3) e'(2,3) sp(2) Cons.prems(1,2) ee by simp
  qed
  with Cons.IH s show ?case by blast
qed simp

lemma signed_bm_pause:
  assumes "start \<le> p" "p \<le> q" "np \<le> pausedMs"
  shows "signed_bm S start q - max 0 (pausedMs + bm S p q - np) = signed_bm S start p - max 0 (pausedMs - np)"
proof -
  have "np \<le> pausedMs + bm S p q" using assms(3) bm_nonneg [of S p q] by linarith
  with assms bm_split [of start p q S] show ?thesis by (simp add: signed_bm_def)
qed


lemma accrued_open:
  assumes "terms_time db (st_calendar (ci_terms input)) S" "ci_pausedAt input = Some p" "0 \<le> p" "p \<le> pause_end input" "accrued_pause db input = Return a"
  shows "a = bm S p (pause_end input)"
proof -
  obtain ms where ms: "businessMsBetween db (Some p) (Some (pause_end input)) (st_calendar (ci_terms input)) = Return ms" "a = max 0 ms"
    using assms(2,5) by (auto simp: accrued_pause_def andThen_eq_Return)
  with terms_between [OF assms(1,3) _ ms(1)] assms(3,4) show ?thesis by (simp add: signed_bm_def)
qed


text \<open>The witness: paused at eleven for an hour, evaluated on resuming at noon.\<close>

definition sample_paused :: sla_clock_input where
  "sample_paused = sample_input Clock_paused 39600000 (Some 39600000)"

lemmas evaluate_sample = evaluateSla_def accrued_pause_def pause_end_def sample_paused_def sample_input_def sample_terms_def
  MAX_SAFE_INTEGER_def sla_targets_def Let_def mins_of_def sla_target_step_def completion_of_def elapsed_ms_def
  effective_at_def pause_credit_def calendar_call_def loop_start_def

lemma sample_resumed:
  "businessMsBetween utc_db (Some 39600000) (Some 43200000) (Some sample_calendar) = Return 3600000"
  "businessMsBetween utc_db (Some 36000000) (Some 43200000) (Some sample_calendar) = Return 7200000"
  "addBusinessMs utc_db (Some 36000000) 7200000 (Some sample_calendar) = Return 43200000"
  "businessMsBetween utc_db (Some 39600000) (Some 39600000) (Some sample_calendar) = Return 0"
proof -
  have "first_day utc_db sample_compiled 36000000 = Return (- 1)" "first_day utc_db sample_compiled 39600000 = Return (- 1)"
    by code_simp+
  then show "businessMsBetween utc_db (Some 39600000) (Some 43200000) (Some sample_calendar) = Return 3600000"
    "businessMsBetween utc_db (Some 36000000) (Some 43200000) (Some sample_calendar) = Return 7200000"
    "addBusinessMs utc_db (Some 36000000) 7200000 (Some sample_calendar) = Return 43200000"
    using sample_between_on [of 39600000 43200000] sample_between_on [of 36000000 43200000] sample_add_on [of 36000000 7200000]
    by simp_all
qed (simp add: businessMsBetween_def some_or_def)


end
