(* ===== verification/Sla_Clock.thy ===== *)
theory Sla_Clock
  imports Sla_Engine
begin

text \<open>
  Keeping the clock of a ticket: \<open>services/support/sla-clock.service.ts\<close>.  \<open>syncTicketSla\<close> runs in the
  ticket's transaction, so it is a function of the ticket; a throw undoes it.  An escalation that raises the
  priority makes it call itself, which is why its termination is proved here.  The policy of the desk is taken as
  parsed; whether a user may be assigned (\<open>assertAgents\<close>) is part of the environment.  \<open>sweepTicketSlas\<close>
  is the minute tick over all tickets, in the order of their ids.
\<close>

section \<open>Tickets and policies\<close>

datatype activity =
    Sla_transition sla_status "sla_metric option" sla_status
  | Priority_updated priority priority
  | Assigned string

record ticket =
  tk_id :: string
  tk_live :: bool
  tk_createdAt :: int
  tk_priority :: priority
  tk_assignees :: "string list"
  tk_clock :: "sla_clock option"
  tk_firstRespondedAt :: "int option"
  tk_solvedAt :: "int option"
  tk_slaPausedMs :: int
  tk_slaPausedAt :: "int option"
  tk_slaStatus :: sla_status
  tk_slaTargets :: "sla_terms option"
  tk_firstResponseDueAt :: "int option"
  tk_nextResponseDueAt :: "int option"
  tk_resolutionDueAt :: "int option"
  tk_activities :: "activity list"

record policy_target =
  pt_firstResponseMins :: "int option"
  pt_nextResponseMins :: "int option"
  pt_resolutionMins :: "int option"

datatype sla_action = Raise_priority | Reassign string | Notify "string list"

record escalation =
  es_on :: sla_status
  es_metric :: "sla_metric option"
  es_actions :: "sla_action list"

record sla_policy =
  po_targets :: "priority \<Rightarrow> policy_target option"
  po_atRiskPercent :: int
  po_calendar :: "business_calendar option"
  po_escalation :: "escalation list"

datatype agent_check = Agent_ok | Agent_invalid | Agent_failed

datatype sync_error = Sla sla_error | Agents_failed

record sla_env =
  se_db :: zone_db
  se_policy :: "sla_policy option"
  se_agent :: "string \<Rightarrow> agent_check"

datatype sync_event = Tick | Create | Priority | Escalation_priority | State | Reply | Requester

definition sla_call :: "(sla_error, 'a) result \<Rightarrow> (sync_error, 'a) result" where
  "sla_call r = (case r of Inl e \<Rightarrow> Throw (Sla e) | Inr x \<Rightarrow> Return x)"

section \<open>Terms\<close>

definition stored_terms :: "sla_env \<Rightarrow> ticket \<Rightarrow> (sync_error, sla_terms option) result" where
  "stored_terms env tk =
     (case tk_slaTargets tk of
        None \<Rightarrow> Return None
      | Some t \<Rightarrow> andThen (sla_call (parseSlaTerms (se_db env) t)) (\<lambda>t'. Return (Some t')))"

definition needs_terms :: "sync_event \<Rightarrow> ticket \<Rightarrow> sla_terms option \<Rightarrow> bool" where
  "needs_terms event tk terms \<longleftrightarrow>
     event = Create \<and> terms = None
     \<or> (event = Priority \<or> event = Escalation_priority)
       \<and> (case terms of None \<Rightarrow> True | Some t \<Rightarrow> st_priority t \<noteq> Some (tk_priority tk))"

definition terms_calendar :: "sla_env \<Rightarrow> sla_policy \<Rightarrow> sla_terms option \<Rightarrow> (sync_error, business_calendar option) result" where
  "terms_calendar env policy terms =
     (case terms of
        Some t \<Rightarrow> Return (st_calendar t)
      | None \<Rightarrow>
          (case po_calendar policy of
             None \<Rightarrow> Return None
           | Some cal \<Rightarrow>
               (case validateCalendarForSave (se_db env) (calendar_json cal) of
                  Inl e \<Rightarrow> Throw (Sla (Range e)) | Inr cal' \<Rightarrow> Return (Some cal'))))"

definition retarget :: "sla_env \<Rightarrow> sync_event \<Rightarrow> ticket \<Rightarrow> sla_terms option \<Rightarrow> (sync_error, sla_terms option) result" where
  "retarget env event tk terms =
     (if needs_terms event tk terms
      then (case se_policy env of
          None \<Rightarrow> Return None
        | Some policy \<Rightarrow>
            (case po_targets policy (tk_priority tk) of
               None \<Rightarrow> Return None
             | Some target \<Rightarrow>
                 andThen (terms_calendar env policy terms) (\<lambda>cal.
                   Return (Some \<lparr>st_priority = Some (tk_priority tk), st_firstResponseMins = pt_firstResponseMins target,
                     st_nextResponseMins = pt_nextResponseMins target, st_resolutionMins = pt_resolutionMins target,
                     st_atRiskPercent = po_atRiskPercent policy, st_calendar = cal,
                     st_nextResponseStartedAt = (case terms of None \<Rightarrow> None | Some t \<Rightarrow> st_nextResponseStartedAt t),
                     st_nextResponsePausedMs = (case terms of None \<Rightarrow> 0 | Some t \<Rightarrow> st_nextResponsePausedMs t),
                     st_notified = (case terms of None \<Rightarrow> [] | Some t \<Rightarrow>
                        if event = Escalation_priority then st_notified t else filter (\<lambda>s. s = BREACHED) (st_notified t))\<rparr>))))
      else Return terms)"

section \<open>The clock\<close>

definition clock_input :: "ticket \<Rightarrow> int \<Rightarrow> sla_terms \<Rightarrow> sla_clock_input" where
  "clock_input tk now terms =
     \<lparr>ci_createdAt = tk_createdAt tk, ci_now = now, ci_clock = (case tk_clock tk of Some c \<Rightarrow> c | None \<Rightarrow> Running),
      ci_firstRespondedAt = tk_firstRespondedAt tk, ci_solvedAt = tk_solvedAt tk, ci_pausedMs = tk_slaPausedMs tk,
      ci_pausedAt = tk_slaPausedAt tk, ci_terms = terms, ci_previousStatus = tk_slaStatus tk\<rparr>"

definition before_reply :: "sla_env \<Rightarrow> int \<Rightarrow> sync_event \<Rightarrow> ticket \<Rightarrow> sla_terms \<Rightarrow> (sync_error, sla_clock_result option) result" where
  "before_reply env now event tk terms =
     (if event = Reply then andThen (sla_call (evaluateSla (se_db env) (clock_input tk now terms))) (\<lambda>r. Return (Some r))
      else Return None)"

text \<open>The next-response promise: a reply ends it, a requester's message starts it.\<close>

definition next_response :: "sla_env \<Rightarrow> int \<Rightarrow> sync_event \<Rightarrow> ticket \<Rightarrow> sla_terms \<Rightarrow> (sync_error, sla_terms) result" where
  "next_response env now event tk terms =
     (let terms1 = (if event = Reply then terms\<lparr>st_nextResponseStartedAt := None\<rparr> else terms) in
      if event = Requester \<and> tk_firstRespondedAt tk \<noteq> None \<and> st_nextResponseStartedAt terms1 = None
      then (case tk_slaPausedAt tk of
          None \<Rightarrow> Return (terms1\<lparr>st_nextResponseStartedAt := Some now, st_nextResponsePausedMs := tk_slaPausedMs tk\<rparr>)
        | Some p \<Rightarrow>
            andThen (sla_call (calendar_call (businessMsBetween (se_db env) (Some p) (Some now) (st_calendar terms1)))) (\<lambda>ms.
              Return (terms1\<lparr>st_nextResponseStartedAt := Some now, st_nextResponsePausedMs := tk_slaPausedMs tk + max 0 ms\<rparr>)))
      else Return terms1)"

definition reply_result :: "sla_clock_result option \<Rightarrow> sla_clock_result \<Rightarrow> sla_clock_result" where
  "reply_result before r =
     (case before of
        None \<Rightarrow> r
      | Some b \<Rightarrow> if cr_slaStatus b = BREACHED then r\<lparr>cr_slaStatus := BREACHED, cr_metric := cr_metric b\<rparr> else r)"

definition reply_terms :: "sync_event \<Rightarrow> sla_clock_result \<Rightarrow> sla_terms \<Rightarrow> sla_terms" where
  "reply_terms event r terms =
     (if event = Reply \<and> cr_slaStatus r = ON_TRACK then terms\<lparr>st_notified := filter (\<lambda>s. s = BREACHED) (st_notified terms)\<rparr> else terms)"

definition is_transition :: "sla_clock_result \<Rightarrow> sla_terms \<Rightarrow> bool" where
  "is_transition r terms \<longleftrightarrow> cr_slaStatus r \<in> {AT_RISK, BREACHED} \<and> cr_slaStatus r \<notin> set (st_notified terms)"

definition write_clock :: "ticket \<Rightarrow> sla_clock_result \<Rightarrow> sla_terms \<Rightarrow> ticket" where
  "write_clock tk r terms =
     tk\<lparr>tk_firstResponseDueAt := cr_firstResponseDueAt r, tk_nextResponseDueAt := cr_nextResponseDueAt r,
        tk_resolutionDueAt := cr_resolutionDueAt r, tk_slaPausedMs := cr_slaPausedMs r, tk_slaPausedAt := cr_slaPausedAt r,
        tk_slaStatus := cr_slaStatus r, tk_slaTargets := Some terms\<rparr>"

definition add_activity :: "activity \<Rightarrow> ticket \<Rightarrow> ticket" where
  "add_activity a tk = tk\<lparr>tk_activities := tk_activities tk @ [a]\<rparr>"

section \<open>Escalations\<close>

fun raised_priority :: "priority \<Rightarrow> priority" where
  "raised_priority P_none = P_low"
| "raised_priority P_low = P_medium"
| "raised_priority P_medium = P_high"
| "raised_priority P_high = P_urgent"
| "raised_priority P_urgent = P_urgent"

text \<open>One action; the assignees it compares with are those read at the start.\<close>

definition run_action ::
  "sla_env \<Rightarrow> string list \<Rightarrow> ticket \<times> bool \<times> priority \<Rightarrow> sla_action \<Rightarrow> (sync_error, ticket \<times> bool \<times> priority) result" where
  "run_action env assignees st action =
     (case st of (tk, raised, effective) \<Rightarrow>
      (case action of
         Raise_priority \<Rightarrow>
           (let p = raised_priority effective in
            if p \<noteq> effective
            then Return (add_activity (Priority_updated effective p) (tk\<lparr>tk_priority := p\<rparr>), True, p)
            else Return st)
       | Reassign u \<Rightarrow>
           (case se_agent env u of
              Agent_invalid \<Rightarrow> Return st
            | Agent_failed \<Rightarrow> Throw Agents_failed
            | Agent_ok \<Rightarrow>
                if u \<notin> set assignees then Return (add_activity (Assigned u) (tk\<lparr>tk_assignees := [u]\<rparr>), raised, effective)
                else Return st)
       | Notify us \<Rightarrow> Return st))"

fun run_actions ::
  "sla_env \<Rightarrow> string list \<Rightarrow> ticket \<times> bool \<times> priority \<Rightarrow> sla_action list \<Rightarrow> (sync_error, ticket \<times> bool \<times> priority) result" where
  "run_actions env assignees st [] = Return st"
| "run_actions env assignees st (a # as) = andThen (run_action env assignees st a) (\<lambda>st'. run_actions env assignees st' as)"

definition matching_actions :: "sla_env \<Rightarrow> sla_clock_result \<Rightarrow> sla_action list" where
  "matching_actions env r =
     concat (map es_actions (filter (\<lambda>e. es_on e = cr_slaStatus r \<and> (es_metric e = None \<or> es_metric e = cr_metric r))
       (case se_policy env of None \<Rightarrow> [] | Some policy \<Rightarrow> po_escalation policy)))"

section \<open>One synchronisation\<close>

text \<open>Everything before the call of itself: the ticket, and whether an escalation raised its priority.\<close>

definition sync_once :: "sla_env \<Rightarrow> int \<Rightarrow> sync_event \<Rightarrow> ticket \<Rightarrow> (sync_error, ticket \<times> bool) result" where
  "sync_once env now event tk =
     (if \<not> tk_live tk then Return (tk, False)
      else andThen (stored_terms env tk) (\<lambda>stored. andThen (retarget env event tk stored) (\<lambda>terms0.
        case terms0 of
          None \<Rightarrow> Return (tk\<lparr>tk_slaTargets := None, tk_slaStatus := NONE, tk_firstResponseDueAt := None,
                     tk_nextResponseDueAt := None, tk_resolutionDueAt := None\<rparr>, False)
        | Some terms \<Rightarrow>
            andThen (before_reply env now event tk terms) (\<lambda>before.
            andThen (next_response env now event tk terms) (\<lambda>terms2.
            andThen (sla_call (evaluateSla (se_db env) (clock_input tk now terms2))) (\<lambda>result.
              let r = reply_result before result; terms3 = reply_terms event r terms2
              in if \<not> is_transition r terms3 then Return (write_clock tk r terms3, False)
                 else let terms4 = terms3\<lparr>st_notified := st_notified terms3 @ [cr_slaStatus r]\<rparr>;
                          tk1 = add_activity (Sla_transition (cr_slaStatus r) (cr_metric r) (tk_slaStatus tk)) (write_clock tk r terms4)
                      in andThen (run_actions env (tk_assignees tk) (tk1, False, tk_priority tk) (matching_actions env r))
                           (\<lambda>(tk2, raised, _). Return (tk2, raised))))))))"

definition notified_of :: "ticket \<Rightarrow> sla_status set" where
  "notified_of tk = (case tk_slaTargets tk of None \<Rightarrow> {} | Some t \<Rightarrow> set (st_notified t))"

definition sync_rank :: "sync_event \<Rightarrow> ticket \<Rightarrow> nat" where
  "sync_rank event tk = (if event = Escalation_priority then 0 else 3) + (2 - card (notified_of tk \<inter> {AT_RISK, BREACHED}))"


section \<open>The recursion\<close>

lemma sla_call_Return [simp]: "sla_call r = Return x \<longleftrightarrow> r = Return x"
  by (simp add: sla_call_def split: sum.splits)

lemma sla_call_of_Return [simp]: "sla_call (Return x) = Return x"
  by simp

text \<open>Columns of the clock, untouched by the actions; the actions only add entries that are not transitions.\<close>

definition other_entries :: "activity list \<Rightarrow> bool" where
  "other_entries as \<longleftrightarrow> (\<forall>a\<in>set as. case a of Sla_transition _ _ _ \<Rightarrow> False | _ \<Rightarrow> True)"

definition same_clock :: "ticket \<Rightarrow> ticket \<Rightarrow> bool" where
  "same_clock tk tk' \<longleftrightarrow> tk_slaStatus tk' = tk_slaStatus tk \<and> tk_slaTargets tk' = tk_slaTargets tk \<and> tk_id tk' = tk_id tk
     \<and> (\<exists>as. tk_activities tk' = tk_activities tk @ as \<and> other_entries as)"

lemma same_clock_refl [simp]: "same_clock tk tk"
  by (simp add: same_clock_def other_entries_def)

lemma same_clock_trans: "same_clock a b \<Longrightarrow> same_clock b c \<Longrightarrow> same_clock a c"
  by (force simp: same_clock_def other_entries_def)

lemma run_action_same_clock:
  assumes "run_action env assignees (tk, raised, p) a = Return (tk', raised', p')"
  shows "same_clock tk tk'"
  using assms by (cases a) (auto simp: run_action_def Let_def add_activity_def same_clock_def other_entries_def split: if_splits agent_check.splits)

lemma run_actions_same_clock:
  "run_actions env assignees st as = Return st' \<Longrightarrow> same_clock (fst st) (fst st')"
proof (induction env assignees st as rule: run_actions.induct)
  case (2 env assignees st a as)
  then obtain s where s: "run_action env assignees st a = Return s" "run_actions env assignees s as = Return st'"
    by (auto simp: andThen_eq_Return)
  have "same_clock (fst s) (fst st')" by (rule "2.IH" [OF s(2)])
  with s(1) run_action_same_clock [of env assignees "fst st" "fst (snd st)" "snd (snd st)" a "fst s" "fst (snd s)" "snd (snd s)"]
  show ?case by (auto intro: same_clock_trans)
qed simp

text \<open>The three ways a synchronisation ends: not a live ticket, no terms, or a clock written.\<close>

lemma sync_once_cases:
  assumes "sync_once env now event tk = Return (tk', raised)"
  obtains (dead) "\<not> tk_live tk" "tk' = tk" "\<not> raised"
  | (dropped) "tk_live tk" "tk_slaTargets tk' = None" "tk_slaStatus tk' = NONE" "tk_activities tk' = tk_activities tk" "tk_id tk' = tk_id tk" "\<not> raised"
  | (quiet) stored terms before terms2 result where "tk_live tk" "stored_terms env tk = Return stored"
      "retarget env event tk stored = Return (Some terms)" "before_reply env now event tk terms = Return before"
      "next_response env now event tk terms = Return terms2" "evaluateSla (se_db env) (clock_input tk now terms2) = Return result"
      "\<not> is_transition (reply_result before result) (reply_terms event (reply_result before result) terms2)"
      "tk' = write_clock tk (reply_result before result) (reply_terms event (reply_result before result) terms2)" "\<not> raised"
  | (reported) stored terms before terms2 result r terms3 tk1 where "tk_live tk" "stored_terms env tk = Return stored"
      "retarget env event tk stored = Return (Some terms)" "before_reply env now event tk terms = Return before"
      "next_response env now event tk terms = Return terms2" "evaluateSla (se_db env) (clock_input tk now terms2) = Return result"
      "r = reply_result before result" "terms3 = reply_terms event r terms2" "is_transition r terms3"
      "tk1 = add_activity (Sla_transition (cr_slaStatus r) (cr_metric r) (tk_slaStatus tk))
         (write_clock tk r (terms3\<lparr>st_notified := st_notified terms3 @ [cr_slaStatus r]\<rparr>))"
      "same_clock tk1 tk'"
proof (cases "tk_live tk")
  case False
  with assms show ?thesis by (intro that(1)) (simp_all add: sync_once_def)
next
  case True
  with assms have "\<exists>stored terms0. stored_terms env tk = Return stored \<and> retarget env event tk stored = Return terms0"
    by (auto simp: sync_once_def andThen_eq_Return)
  then obtain stored terms0 where t: "stored_terms env tk = Return stored" "retarget env event tk stored = Return terms0" by blast
  show ?thesis
  proof (cases terms0)
    case None
    with assms True t show ?thesis by (intro that(2)) (auto simp: sync_once_def)
  next
    case (Some terms)
    with assms True t have "\<exists>before terms2 result. before_reply env now event tk terms = Return before
      \<and> next_response env now event tk terms = Return terms2 \<and> evaluateSla (se_db env) (clock_input tk now terms2) = Return result"
      by (auto simp: sync_once_def andThen_eq_Return)
    then obtain before terms2 result where s: "before_reply env now event tk terms = Return before"
      "next_response env now event tk terms = Return terms2" "evaluateSla (se_db env) (clock_input tk now terms2) = Return result"
      by blast
    let ?r = "reply_result before result"
    let ?t = "reply_terms event ?r terms2"
    show ?thesis
    proof (cases "is_transition ?r ?t")
      case False
      with assms True t Some s show ?thesis by (intro that(3) [of stored terms before terms2 result]) (auto simp: sync_once_def Let_def)
    next
      case True
      let ?tk1 = "add_activity (Sla_transition (cr_slaStatus ?r) (cr_metric ?r) (tk_slaStatus tk))
         (write_clock tk ?r (?t\<lparr>st_notified := st_notified ?t @ [cr_slaStatus ?r]\<rparr>))"
      from assms True \<open>tk_live tk\<close> t Some s obtain p where
        "run_actions env (tk_assignees tk) (?tk1, False, tk_priority tk) (matching_actions env ?r) = Return (tk', raised, p)"
        by (auto simp: sync_once_def Let_def andThen_eq_Return)
      from run_actions_same_clock [OF this] True \<open>tk_live tk\<close> t Some s show ?thesis by (intro that(4) [of stored terms before terms2 result]) simp_all
    qed
  qed
qed

text \<open>What the terms of one run keep of the statuses already reported.\<close>

lemma stored_terms_notified:
  "stored_terms env tk = Return stored \<Longrightarrow> notified_of tk = (case stored of None \<Rightarrow> {} | Some t \<Rightarrow> set (st_notified t))"
  by (auto simp: stored_terms_def notified_of_def parseSlaTerms_def andThen_eq_Return split: option.splits if_splits sum.splits)

lemma retarget_notified:
  assumes "retarget env event tk stored = Return (Some terms)" "stored_terms env tk = Return stored"
  shows "set (st_notified terms) \<subseteq> notified_of tk" "BREACHED \<in> notified_of tk \<Longrightarrow> BREACHED \<in> set (st_notified terms)"
    "event = Escalation_priority \<Longrightarrow> set (st_notified terms) = notified_of tk"
  using assms by (auto simp: retarget_def stored_terms_notified andThen_eq_Return split: if_splits option.splits)

lemma next_response_notified:
  "next_response env now event tk terms = Return terms2 \<Longrightarrow> st_notified terms2 = st_notified terms"
  by (auto simp: next_response_def Let_def andThen_eq_Return split: if_splits option.splits)

lemma reply_terms_notified:
  "set (st_notified (reply_terms event r terms)) \<subseteq> set (st_notified terms)"
  "BREACHED \<in> set (st_notified terms) \<Longrightarrow> BREACHED \<in> set (st_notified (reply_terms event r terms))"
  "event \<noteq> Reply \<Longrightarrow> reply_terms event r terms = terms"
  by (auto simp: reply_terms_def)

lemma notified_after [simp]:
  "notified_of (add_activity a tk) = notified_of tk"
  "notified_of (write_clock tk r terms) = set (st_notified terms)"
  by (simp_all add: notified_of_def add_activity_def write_clock_def)

lemma same_clock_notified: "same_clock tk tk' \<Longrightarrow> notified_of tk' = notified_of tk"
  by (simp add: same_clock_def notified_of_def)

lemma sync_once_rank:
  assumes "sync_once env now event tk = Return (tk', True)"
  shows "sync_rank Escalation_priority tk' < sync_rank event tk"
  using assms
proof (cases rule: sync_once_cases)
  case (reported stored terms before terms2 result r terms3 tk1)
  have new: "notified_of tk' = insert (cr_slaStatus r) (set (st_notified terms3))"
    using reported(10,11) same_clock_notified [of tk1 tk'] by simp
  show ?thesis
  proof (cases "event = Escalation_priority")
    case True
    then have old: "set (st_notified terms3) = notified_of tk"
      using reported retarget_notified(3) [of env event tk stored terms] next_response_notified [of env now event tk terms terms2]
      by (simp add: reply_terms_notified(3))
    let ?A = "notified_of tk \<inter> {AT_RISK, BREACHED}"
    have "notified_of tk' \<inter> {AT_RISK, BREACHED} = insert (cr_slaStatus r) ?A" "cr_slaStatus r \<notin> ?A"
      using reported(9) new old by (auto simp: is_transition_def)
    moreover have "card (insert (cr_slaStatus r) ?A) \<le> card {AT_RISK, BREACHED}"
      using reported(9) by (intro card_mono) (auto simp: is_transition_def)
    ultimately show ?thesis using True by (simp add: sync_rank_def)
  next
    case False
    then show ?thesis by (simp add: sync_rank_def)
  qed
qed simp_all

function syncTicketSla :: "sla_env \<Rightarrow> int \<Rightarrow> sync_event \<Rightarrow> ticket \<Rightarrow> (sync_error, ticket) result" where
  "syncTicketSla env now event tk =
     (case sync_once env now event tk of
        Inl e \<Rightarrow> Throw e
      | Inr (tk', raised) \<Rightarrow> if raised then syncTicketSla env now Escalation_priority tk' else Return tk')"
  by pat_completeness auto
termination
  by (relation "measure (\<lambda>(env, now, event, tk). sync_rank event tk)") (auto simp: sync_once_rank)

declare syncTicketSla.simps [simp del]


section \<open>Breaches\<close>

definition is_breach :: "activity \<Rightarrow> bool" where
  "is_breach a = (case a of Sla_transition s _ _ \<Rightarrow> s = BREACHED | _ \<Rightarrow> False)"

definition breach_entries :: "ticket \<Rightarrow> nat" where
  "breach_entries tk = length (filter is_breach (tk_activities tk))"

definition breach_known :: "ticket \<Rightarrow> nat" where
  "breach_known tk = (if BREACHED \<in> notified_of tk then 1 else 0)"

text \<open>What a synchronisation does to the entries of the ticket's history that report a breach.\<close>

definition sync_effect :: "ticket \<Rightarrow> ticket \<Rightarrow> bool" where
  "sync_effect tk tk' \<longleftrightarrow>
     (if tk_slaTargets tk' = None then breach_entries tk' + breach_known tk \<le> breach_entries tk + 1
      else breach_entries tk' + breach_known tk = breach_entries tk + breach_known tk'
        \<and> (tk_slaStatus tk = BREACHED \<longrightarrow> tk_slaStatus tk' = BREACHED))
     \<and> breach_entries tk \<le> breach_entries tk'
     \<and> ((tk_slaStatus tk = BREACHED \<longrightarrow> BREACHED \<in> notified_of tk) \<longrightarrow> tk_slaStatus tk' = BREACHED \<longrightarrow> BREACHED \<in> notified_of tk')"

lemma sync_effect_trans:
  assumes "sync_effect a b" "sync_effect b c" "tk_slaTargets b \<noteq> None"
  shows "sync_effect a c"
  using assms by (auto simp: sync_effect_def split: if_splits)

lemma other_entries_breach: "other_entries as \<Longrightarrow> filter is_breach as = []"
  by (induction as) (auto simp: other_entries_def is_breach_def split: activity.splits)

lemma same_clock_entries: "same_clock tk tk' \<Longrightarrow> breach_entries tk' = breach_entries tk"
  by (auto simp: same_clock_def breach_entries_def other_entries_breach)

lemma breach_known_None: "tk_slaTargets tk = None \<Longrightarrow> breach_known tk = 0"
  by (simp add: breach_known_def notified_of_def)

lemma evaluate_keeps_breach:
  "evaluateSla db input = Return r \<Longrightarrow> ci_previousStatus input = BREACHED \<Longrightarrow> cr_slaStatus r = BREACHED"
  by (auto simp: evaluateSla_def andThen_eq_Return Let_def settled_status_def split: if_splits)

lemma clock_keeps_breach:
  assumes "evaluateSla db (clock_input tk now terms) = Return r" "tk_slaStatus tk = BREACHED"
  shows "cr_slaStatus (reply_result before r) = BREACHED"
  using evaluate_keeps_breach [OF assms(1)] assms(2) by (simp add: clock_input_def reply_result_def split: option.splits)

lemma breach_known_terms:
  assumes "stored_terms env tk = Return stored" "retarget env event tk stored = Return (Some terms)"
    "next_response env now event tk terms = Return terms2"
  shows "BREACHED \<in> set (st_notified (reply_terms event r terms2)) \<longleftrightarrow> BREACHED \<in> notified_of tk"
  using assms retarget_notified(1,2) [OF assms(2,1)] next_response_notified [OF assms(3)] reply_terms_notified(1,2) by fastforce

lemma written_ticket [simp]:
  "tk_slaTargets (write_clock tk r terms) = Some terms" "tk_slaStatus (write_clock tk r terms) = cr_slaStatus r"
  "tk_activities (write_clock tk r terms) = tk_activities tk" "tk_activities (add_activity a tk) = tk_activities tk @ [a]"
  "tk_slaStatus (add_activity a tk) = tk_slaStatus tk" "tk_slaTargets (add_activity a tk) = tk_slaTargets tk"
  "tk_id (write_clock tk r terms) = tk_id tk" "tk_id (add_activity a tk) = tk_id tk"
  by (simp_all add: write_clock_def add_activity_def)

lemma sync_once_effect:
  assumes "sync_once env now event tk = Return (tk', raised)"
  shows "sync_effect tk tk' \<and> (raised \<longrightarrow> tk_slaTargets tk' \<noteq> None)"
  using assms
proof (cases rule: sync_once_cases)
  case dead
  then show ?thesis by (simp add: sync_effect_def breach_known_def)
next
  case dropped
  then show ?thesis by (simp add: sync_effect_def breach_known_def breach_entries_def)
next
  case (quiet stored terms before terms2 result)
  have "BREACHED \<in> notified_of tk' \<longleftrightarrow> BREACHED \<in> notified_of tk"
    using breach_known_terms [OF quiet(2,3,5)] quiet(8) by simp
  moreover have "tk_slaStatus tk' = BREACHED \<Longrightarrow> BREACHED \<in> notified_of tk'"
    using quiet(7,8) by (auto simp: is_transition_def)
  moreover have "tk_slaStatus tk = BREACHED \<Longrightarrow> tk_slaStatus tk' = BREACHED"
    using clock_keeps_breach [OF quiet(6)] quiet(8) by simp
  ultimately show ?thesis using quiet(8,9) by (simp add: sync_effect_def breach_known_def breach_entries_def)
next
  case (reported stored terms before terms2 result r terms3 tk1)
  have n: "notified_of tk' = insert (cr_slaStatus r) (set (st_notified terms3))"
    using reported(10,11) same_clock_notified [of tk1 tk'] by simp
  have k: "BREACHED \<in> set (st_notified terms3) \<longleftrightarrow> BREACHED \<in> notified_of tk"
    using breach_known_terms [OF reported(2,3,5)] reported(8) by simp
  have e: "breach_entries tk' = breach_entries tk + (if cr_slaStatus r = BREACHED then 1 else 0)"
    using same_clock_entries [OF reported(11)] reported(10) by (simp add: breach_entries_def is_breach_def)
  have s: "tk_slaStatus tk' = cr_slaStatus r" "tk_slaTargets tk' \<noteq> None" using reported(10,11) by (auto simp: same_clock_def)
  have f: "tk_slaStatus tk = BREACHED \<Longrightarrow> cr_slaStatus r = BREACHED"
    using clock_keeps_breach [OF reported(6)] reported(7) by simp
  from n k e s f reported(9) show ?thesis by (auto simp: sync_effect_def breach_known_def is_transition_def)
qed

lemma syncTicketSla_effect: "syncTicketSla env now event tk = Return tk' \<Longrightarrow> sync_effect tk tk'"
proof (induction env now event tk rule: syncTicketSla.induct)
  case (1 env now event tk)
  obtain tk1 raised where once: "sync_once env now event tk = Return (tk1, raised)"
    using "1.prems" by (subst (asm) syncTicketSla.simps) (auto split: sum.splits)
  note eff = sync_once_effect [OF once]
  show ?case
  proof (cases raised)
    case True
    then have "syncTicketSla env now Escalation_priority tk1 = Return tk'"
      using "1.prems" once by (subst (asm) syncTicketSla.simps) simp
    from "1.IH" [OF once refl True this] eff True show ?thesis by (blast intro: sync_effect_trans)
  next
    case False
    with "1.prems" once eff show ?thesis by (subst (asm) syncTicketSla.simps) simp
  qed
qed

section \<open>The history of a ticket\<close>

text \<open>
  What happens to a ticket: synchronisations, and the edits of other code, none of which writes a column of the
  clock.  A synchronisation that throws leaves the ticket as it was.
\<close>

datatype ticket_op =
    Sync sla_env int sync_event
  | Edit bool priority "string list" "sla_clock option" "int option" "int option"

fun ticket_step :: "ticket \<Rightarrow> ticket_op \<Rightarrow> ticket" where
  "ticket_step tk (Sync env now event) = (case syncTicketSla env now event tk of Inl _ \<Rightarrow> tk | Inr tk' \<Rightarrow> tk')"
| "ticket_step tk (Edit live p as clock responded solved) =
     tk\<lparr>tk_live := live, tk_priority := p, tk_assignees := as, tk_clock := clock,
        tk_firstRespondedAt := responded, tk_solvedAt := solved\<rparr>"

fun ticket_run :: "ticket \<Rightarrow> ticket_op list \<Rightarrow> ticket" where
  "ticket_run tk [] = tk"
| "ticket_run tk (op # ops) = ticket_run (ticket_step tk op) ops"

fun terms_dropped :: "ticket \<Rightarrow> ticket_op list \<Rightarrow> nat" where
  "terms_dropped tk [] = 0"
| "terms_dropped tk (op # ops) =
     (if tk_slaTargets (ticket_step tk op) = None then 1 else 0) + terms_dropped (ticket_step tk op) ops"

definition new_ticket :: "ticket \<Rightarrow> bool" where
  "new_ticket tk \<longleftrightarrow> tk_slaTargets tk = None \<and> tk_slaStatus tk = NONE \<and> tk_activities tk = []"

lemma ticket_step_effect: "sync_effect tk (ticket_step tk op)"
proof (cases op)
  case (Sync env now event)
  then show ?thesis
    by (auto split: sum.splits simp: syncTicketSla_effect) (simp add: sync_effect_def breach_known_def)
next
  case (Edit live p as clock responded solved)
  then show ?thesis by (simp add: sync_effect_def breach_known_def notified_of_def breach_entries_def)
qed

lemma ticket_run_entries:
  "breach_entries (ticket_run tk ops) + breach_known tk \<le> breach_entries tk + terms_dropped tk ops + breach_known (ticket_run tk ops)"
proof (induction ops arbitrary: tk)
  case (Cons op ops)
  from Cons [of "ticket_step tk op"] ticket_step_effect [of tk op] breach_known_None [of "ticket_step tk op"]
  show ?case by (auto simp: sync_effect_def split: if_splits)
qed simp

lemma ticket_run_known:
  assumes "tk_slaStatus tk = BREACHED \<Longrightarrow> BREACHED \<in> notified_of tk"
  shows "tk_slaStatus (ticket_run tk ops) = BREACHED \<Longrightarrow> BREACHED \<in> notified_of (ticket_run tk ops)"
  using assms
proof (induction ops arbitrary: tk)
  case (Cons op ops)
  with ticket_step_effect [of tk op] show ?case by (auto simp: sync_effect_def)
qed simp


lemma ticket_run_known_entry:
  "breach_known tk \<le> breach_entries tk \<Longrightarrow> breach_known (ticket_run tk ops) \<le> breach_entries (ticket_run tk ops)"
proof (induction ops arbitrary: tk)
  case (Cons op ops)
  with ticket_step_effect [of tk op] breach_known_None [of "ticket_step tk op"]
  show ?case by (auto simp: sync_effect_def split: if_splits)
qed simp

lemma ticket_run_breached:
  assumes "terms_dropped tk ops = 0" "tk_slaStatus tk = BREACHED" "breach_known tk = 1"
  shows "tk_slaStatus (ticket_run tk ops) = BREACHED \<and> breach_entries (ticket_run tk ops) = breach_entries tk"
  using assms
proof (induction ops arbitrary: tk)
  case (Cons op ops)
  let ?t = "ticket_step tk op"
  have t: "tk_slaTargets ?t \<noteq> None" "terms_dropped ?t ops = 0" using Cons.prems(1) by (simp_all split: if_splits)
  have k: "BREACHED \<in> notified_of tk" using Cons.prems(3) by (simp add: breach_known_def split: if_splits)
  note e = ticket_step_effect [of tk op, unfolded sync_effect_def]
  have st: "tk_slaStatus ?t = BREACHED" using e t(1) Cons.prems(2) by simp
  have "breach_known ?t = 1" using e k st by (simp add: breach_known_def)
  moreover from this have "breach_entries ?t = breach_entries tk" using e t(1) Cons.prems(3) by simp
  ultimately show ?case using Cons.IH [of ?t] t(2) st by simp
qed simp

lemma ticket_run_append: "ticket_run tk (ops @ ops') = ticket_run (ticket_run tk ops) ops'"
  by (induction ops arbitrary: tk) simp_all

text \<open>
  C37. A breach is reported once for the terms it breaks: in every history of a ticket, of synchronisations for any
  event, at any time and under any policy, and of edits between them, there are at most as many \<open>sla_breached\<close>
  entries as there were terms, one more than the synchronisations that left the ticket without terms; and a ticket
  whose status is BREACHED has had its breach reported.
\<close>

theorem breach_reported_once:
  assumes "new_ticket tk"
  shows "breach_entries (ticket_run tk ops) \<le> terms_dropped tk ops + 1
    \<and> (tk_slaStatus (ticket_run tk ops) = BREACHED \<longrightarrow> 0 < breach_entries (ticket_run tk ops))"
proof -
  have n: "breach_entries tk = 0" "breach_known tk = 0" "tk_slaStatus tk \<noteq> BREACHED"
    using assms by (simp_all add: new_ticket_def breach_entries_def breach_known_None)
  have k: "breach_known (ticket_run tk ops) \<le> 1" by (simp add: breach_known_def)
  have "0 < breach_entries (ticket_run tk ops)" if "tk_slaStatus (ticket_run tk ops) = BREACHED"
    using ticket_run_known [of tk ops] ticket_run_known_entry [of tk ops] n that by (simp add: breach_known_def)
  with ticket_run_entries [of tk ops] n k show ?thesis by simp
qed

text \<open>
  A breach is final: once a ticket is BREACHED, no history of synchronisations and edits that leaves it with
  terms (a reply, a solve, a pause, a change of priority) makes it anything else, and none reports it again.
\<close>

theorem breach_is_final:
  assumes "new_ticket tk" "tk_slaStatus (ticket_run tk ops) = BREACHED" "terms_dropped (ticket_run tk ops) ops' = 0"
  shows "tk_slaStatus (ticket_run tk (ops @ ops')) = BREACHED
    \<and> breach_entries (ticket_run tk (ops @ ops')) = breach_entries (ticket_run tk ops)"
proof -
  have "tk_slaStatus tk \<noteq> BREACHED" using assms(1) by (simp add: new_ticket_def)
  then have "breach_known (ticket_run tk ops) = 1" using ticket_run_known [of tk ops] assms(2) by (simp add: breach_known_def)
  then show ?thesis using ticket_run_breached [OF assms(3,2)] by (simp add: ticket_run_append)
qed

text \<open>The witnesses: a policy of one hour to the first response, without a calendar, that raises the priority on a breach.\<close>

definition sample_policy :: sla_policy where
  "sample_policy =
     \<lparr>po_targets = (\<lambda>p. Some \<lparr>pt_firstResponseMins = Some 60, pt_nextResponseMins = None, pt_resolutionMins = None\<rparr>),
      po_atRiskPercent = 80, po_calendar = None,
      po_escalation = [\<lparr>es_on = BREACHED, es_metric = None, es_actions = [Raise_priority, Reassign ''lead'']\<rparr>]\<rparr>"

definition sample_env :: sla_env where
  "sample_env = \<lparr>se_db = utc_db, se_policy = Some sample_policy, se_agent = (\<lambda>_. Agent_ok)\<rparr>"

definition sample_ticket :: ticket where
  "sample_ticket =
     \<lparr>tk_id = ''t1'', tk_live = True, tk_createdAt = 0, tk_priority = P_low, tk_assignees = [], tk_clock = Some Running,
      tk_firstRespondedAt = None, tk_solvedAt = None, tk_slaPausedMs = 0, tk_slaPausedAt = None, tk_slaStatus = NONE,
      tk_slaTargets = None, tk_firstResponseDueAt = None, tk_nextResponseDueAt = None, tk_resolutionDueAt = None,
      tk_activities = []\<rparr>"

lemma sample_created:
  "syncTicketSla sample_env 0 Create sample_ticket = Return (sample_ticket
     \<lparr>tk_firstResponseDueAt := Some 3600000, tk_slaStatus := ON_TRACK,
      tk_slaTargets := Some \<lparr>st_priority = Some P_low, st_firstResponseMins = Some 60, st_nextResponseMins = None,
        st_resolutionMins = None, st_atRiskPercent = 80, st_calendar = None, st_nextResponseStartedAt = None,
        st_nextResponsePausedMs = 0, st_notified = []\<rparr>\<rparr>)"
  by code_simp

definition sample_ops :: "ticket_op list" where
  "sample_ops = [Sync sample_env 0 Create, Sync sample_env 7200000 Tick]"

lemma sample_run:
  "tk_slaStatus (ticket_run sample_ticket sample_ops) = BREACHED"
  "tk_priority (ticket_run sample_ticket sample_ops) = P_medium"
  "breach_entries (ticket_run sample_ticket sample_ops) = 1"
  "terms_dropped sample_ticket sample_ops = 0"
  "terms_dropped (ticket_run sample_ticket sample_ops)
     [Edit True P_medium [''lead''] (Some Running) (Some 7500000) None, Sync sample_env 7500000 Reply] = 0"
  by code_simp+

lemma sample_ticket_new: "new_ticket sample_ticket"
  by (simp add: new_ticket_def sample_ticket_def)

theorem breach_reported_once_witness:
  "new_ticket sample_ticket \<and> tk_slaStatus (ticket_run sample_ticket sample_ops) = BREACHED
     \<and> breach_entries (ticket_run sample_ticket sample_ops) \<le> 1"
  using breach_reported_once [OF sample_ticket_new, of sample_ops] sample_run sample_ticket_new by simp

theorem breach_is_final_witness:
  "tk_slaStatus (ticket_run sample_ticket (sample_ops @
     [Edit True P_medium [''lead''] (Some Running) (Some 7500000) None, Sync sample_env 7500000 Reply])) = BREACHED"
  using breach_is_final [OF sample_ticket_new sample_run(1,5)] by blast

end
