(* ===== verification/Sla_Sweep.thy ===== *)
theory Sla_Sweep
  imports Sla_Clock Json
begin

text \<open>
  The minute sweep over the clocks of all tickets: \<open>sweepTicketSlas\<close> of
  \<open>services/support/sla-clock.service.ts\<close>, five pages of a hundred tickets behind a stored cursor.
\<close>

section \<open>The minute sweep\<close>

text \<open>
  All tickets, in the ascending order of their ids, and the cursor flag.  The order of ids is the database's
  (\<open>sw_after c i\<close>: \<open>i\<close> is greater than \<open>c\<close>); \<open>sw_env\<close> gives a ticket the policy of its desk,
  \<open>sw_open\<close> tells that the desk is not archived.  Each ticket has a transaction of its own, so a throw keeps
  what was committed before it; it ends the sweep before the cursor of the page is stored.
\<close>

record sweep_env =
  sw_env :: "string \<Rightarrow> sla_env"
  sw_after :: "string \<Rightarrow> string \<Rightarrow> bool"
  sw_open :: "string \<Rightarrow> bool"

record desk =
  dk_tickets :: "ticket list"
  dk_flag :: "json option"

datatype sweep_error = Unreadable_sla_cursor | Sync_failed sync_error

definition due_ticket :: "sweep_env \<Rightarrow> string \<Rightarrow> ticket \<Rightarrow> bool" where
  "due_ticket sw cursor tk \<longleftrightarrow>
     sw_after sw cursor (tk_id tk) \<and> tk_slaStatus tk \<notin> {NONE, MET} \<and> tk_live tk \<and> sw_open sw (tk_id tk)"

definition due_rows :: "sweep_env \<Rightarrow> string \<Rightarrow> ticket list \<Rightarrow> string list" where
  "due_rows sw cursor tickets = take 100 (map tk_id (filter (due_ticket sw cursor) tickets))"

definition sync_row :: "sweep_env \<Rightarrow> int \<Rightarrow> ticket list \<Rightarrow> string \<Rightarrow> (sync_error, ticket list) result" where
  "sync_row sw now tickets i =
     (case find (\<lambda>t. tk_id t = i) tickets of
        None \<Rightarrow> Return tickets
      | Some t \<Rightarrow> andThen (syncTicketSla (sw_env sw i) now Tick t) (\<lambda>t'. Return (map (\<lambda>u. if tk_id u = i then t' else u) tickets)))"

fun sweep_rows :: "sweep_env \<Rightarrow> int \<Rightarrow> ticket list \<Rightarrow> nat \<Rightarrow> string list \<Rightarrow> ticket list \<times> (sync_error, nat) result" where
  "sweep_rows sw now tickets checked [] = (tickets, Return checked)"
| "sweep_rows sw now tickets checked (i # is) =
     (case sync_row sw now tickets i of
        Inl e \<Rightarrow> (tickets, Throw e)
      | Inr tickets' \<Rightarrow> sweep_rows sw now tickets' (checked + 1) is)"

fun sweep_pages :: "sweep_env \<Rightarrow> int \<Rightarrow> nat \<Rightarrow> string \<Rightarrow> nat \<Rightarrow> desk \<Rightarrow> desk \<times> (sweep_error, nat) result" where
  "sweep_pages sw now 0 cursor checked d = (d, Return checked)"
| "sweep_pages sw now (Suc pages) cursor checked d =
     (let rows = due_rows sw cursor (dk_tickets d) in
      case sweep_rows sw now (dk_tickets d) checked rows of
        (tickets, Inl e) \<Rightarrow> (d\<lparr>dk_tickets := tickets\<rparr>, Throw (Sync_failed e))
      | (tickets, Inr checked') \<Rightarrow>
          let cursor' = (if length rows < 100 then '''' else last rows);
              d' = d\<lparr>dk_tickets := tickets, dk_flag := Some (JStr cursor')\<rparr>
          in if length rows < 100 then (d', Return checked') else sweep_pages sw now pages cursor' checked' d')"

definition sweepTicketSlas :: "sweep_env \<Rightarrow> int \<Rightarrow> desk \<Rightarrow> desk \<times> (sweep_error, nat) result" where
  "sweepTicketSlas sw now d =
     (case dk_flag d of
        None \<Rightarrow> sweep_pages sw now 5 '''' 0 d
      | Some (JStr cursor) \<Rightarrow> sweep_pages sw now 5 cursor 0 d
      | Some _ \<Rightarrow> (d, Throw Unreadable_sla_cursor))"

text \<open>The rows of a page are a prefix of what is due; a ticket whose terms cannot be read stops them.\<close>

lemma syncTicketSla_id: "syncTicketSla env now event tk = Return tk' \<Longrightarrow> tk_id tk' = tk_id tk"
proof (induction env now event tk rule: syncTicketSla.induct)
  case (1 env now event tk)
  obtain tk1 raised where once: "sync_once env now event tk = Return (tk1, raised)"
    using "1.prems" by (subst (asm) syncTicketSla.simps) (auto split: sum.splits)
  then have "tk_id tk1 = tk_id tk" by (cases rule: sync_once_cases) (auto simp: same_clock_def)
  with "1.prems" once "1.IH" [OF once refl] show ?case
    by (subst (asm) syncTicketSla.simps) (auto split: if_splits)
qed

lemma unreadable_terms_throw:
  assumes "tk_live tk" "tk_slaTargets tk = Some t" "parseSlaTerms (se_db env) t = Throw e"
  shows "syncTicketSla env now event tk = Throw (Sla e)"
  using assms by (subst syncTicketSla.simps) (simp add: sync_once_def stored_terms_def sla_call_def)

text \<open>The order of ids: strict, and the tickets are listed along it.\<close>

definition listed :: "sweep_env \<Rightarrow> ticket list \<Rightarrow> bool" where
  "listed sw tickets \<longleftrightarrow> sorted_wrt (\<lambda>a b. sw_after sw (tk_id a) (tk_id b)) tickets \<and> distinct (map tk_id tickets)"

lemma sync_row_other:
  assumes "sync_row sw now (front @ x # behind) i = Return tickets" "i \<in> set (map tk_id front)"
    "distinct (map tk_id (front @ x # behind))"
  shows "\<exists>front'. tickets = front' @ x # behind \<and> map tk_id front' = map tk_id front"
proof -
  obtain t where t: "find (\<lambda>t. tk_id t = i) (front @ x # behind) = Some t"
    using assms(2) by (cases "find (\<lambda>t. tk_id t = i) (front @ x # behind)") (auto simp: find_None_iff)
  then have ti: "tk_id t = i" by (auto simp: find_Some_iff)
  with t assms(1) obtain t' where t': "syncTicketSla (sw_env sw i) now Tick t = Return t'"
    "tickets = map (\<lambda>u. if tk_id u = i then t' else u) (front @ x # behind)"
    by (auto simp: sync_row_def andThen_eq_Return)
  have "map (\<lambda>u. if tk_id u = i then t' else u) (x # behind) = x # behind"
    using assms(2,3) by (intro map_idI) auto
  moreover have "map tk_id (map (\<lambda>u. if tk_id u = i then t' else u) front) = map tk_id front"
    using syncTicketSla_id [OF t'(1)] ti by simp
  ultimately show ?thesis using t'(2) by auto
qed

lemma sync_row_stuck:
  assumes "i \<notin> set (map tk_id front)" "tk_id x = i" "syncTicketSla (sw_env sw i) now Tick x = Throw e"
  shows "sync_row sw now (front @ x # behind) i = Throw e"
proof -
  have "find (\<lambda>t. tk_id t = i) (front @ x # behind) = Some x"
    using assms(1,2) by (induction front) auto
  with assms(3) show ?thesis by (simp add: sync_row_def)
qed

lemma sweep_rows_stuck:
  assumes "distinct (map tk_id (front @ x # behind))" "syncTicketSla (sw_env sw (tk_id x)) now Tick x = Throw e"
    "set is1 \<subseteq> set (map tk_id front)"
  shows "\<exists>front' e'. sweep_rows sw now (front @ x # behind) n (is1 @ tk_id x # is2) = (front' @ x # behind, Throw e')
    \<and> map tk_id front' = map tk_id front"
  using assms
proof (induction is1 arbitrary: front n)
  case Nil
  then show ?case using sync_row_stuck [of "tk_id x" front x sw now e behind] by auto
next
  case (Cons i is1)
  show ?case
  proof (cases "sync_row sw now (front @ x # behind) i")
    case (Inl e')
    then show ?thesis by auto
  next
    case (Inr tickets)
    with Cons.prems sync_row_other [of sw now front x behind i tickets] obtain front1
      where f: "tickets = front1 @ x # behind" "map tk_id front1 = map tk_id front" by auto
    then have "distinct (map tk_id (front1 @ x # behind))" "set is1 \<subseteq> set (map tk_id front1)" using Cons.prems(1,3) by simp_all
    from Cons.IH [OF this(1) Cons.prems(2) this(2), of "n + 1"] Inr f show ?thesis by auto
  qed
qed

lemma sweep_rows_front:
  assumes "distinct (map tk_id (front @ x # behind))" "set is \<subseteq> set (map tk_id front)"
  shows "\<exists>front' r. sweep_rows sw now (front @ x # behind) n is = (front' @ x # behind, r) \<and> map tk_id front' = map tk_id front"
  using assms
proof (induction "is" arbitrary: front n)
  case (Cons i "is")
  show ?case
  proof (cases "sync_row sw now (front @ x # behind) i")
    case (Inl e')
    then show ?thesis by auto
  next
    case (Inr tickets)
    with Cons.prems sync_row_other [of sw now front x behind i tickets] obtain front1
      where f: "tickets = front1 @ x # behind" "map tk_id front1 = map tk_id front" by auto
    then have "distinct (map tk_id (front1 @ x # behind))" "set is \<subseteq> set (map tk_id front1)" using Cons.prems by simp_all
    from Cons.IH [OF this, of "n + 1"] Inr f show ?thesis by auto
  qed
qed auto

text \<open>A page from a cursor before \<open>x\<close>: it reaches \<open>x\<close>, or it is full and ends before \<open>x\<close>.\<close>

lemma page_before:
  assumes "due_ticket sw cursor x"
  shows "(\<exists>is1 is2. due_rows sw cursor (front @ x # behind) = is1 @ tk_id x # is2 \<and> set is1 \<subseteq> set (map tk_id front))
    \<or> (length (due_rows sw cursor (front @ x # behind)) = 100 \<and> set (due_rows sw cursor (front @ x # behind)) \<subseteq> set (map tk_id front))"
proof -
  let ?f = "map tk_id (filter (due_ticket sw cursor) front)"
  let ?b = "map tk_id (filter (due_ticket sw cursor) behind)"
  have page: "due_rows sw cursor (front @ x # behind) = take 100 (?f @ tk_id x # ?b)" using assms by (simp add: due_rows_def)
  have sub: "set ?f \<subseteq> set (map tk_id front)" by auto
  show ?thesis
  proof (cases "length ?f < 100")
    case True
    then have "take 100 (?f @ tk_id x # ?b) = ?f @ tk_id x # take (99 - length ?f) ?b"
      by (simp add: take_Cons')
    then have "due_rows sw cursor (front @ x # behind) = ?f @ tk_id x # take (99 - length ?f) ?b" using page by (rule trans [rotated])
    with sub show ?thesis by blast
  next
    case False
    then have "take 100 (?f @ tk_id x # ?b) = take 100 ?f" by simp
    with page have p: "due_rows sw cursor (front @ x # behind) = take 100 ?f" by simp
    have "set (take 100 ?f) \<subseteq> set (map tk_id front)" by (rule subset_trans [OF set_take_subset sub])
    with p False show ?thesis by (intro disjI2) simp
  qed
qed

lemma listed_same_ids: "map tk_id a = map tk_id b \<Longrightarrow> listed sw a \<Longrightarrow> listed sw b"
  unfolding listed_def by (metis sorted_wrt_map)

definition stuck_at :: "sweep_env \<Rightarrow> int \<Rightarrow> ticket \<Rightarrow> bool" where
  "stuck_at sw now x \<longleftrightarrow> (\<exists>e. syncTicketSla (sw_env sw (tk_id x)) now Tick x = Throw e)"

lemma sweep_pages_stuck:
  assumes "listed sw (front @ x # behind)" "stuck_at sw now x" "due_ticket sw cursor x" "dk_tickets d = front @ x # behind"
    and "\<And>c. dk_flag d = Some (JStr c) \<Longrightarrow> sw_after sw c (tk_id x)"
    and "dk_flag d = None \<or> (\<exists>c. dk_flag d = Some (JStr c))"
  shows "\<exists>front'. dk_tickets (fst (sweep_pages sw now pages cursor n d)) = front' @ x # behind \<and> map tk_id front' = map tk_id front
    \<and> (\<forall>c. dk_flag (fst (sweep_pages sw now pages cursor n d)) = Some (JStr c) \<longrightarrow> sw_after sw c (tk_id x))
    \<and> (dk_flag (fst (sweep_pages sw now pages cursor n d)) = None \<or> (\<exists>c. dk_flag (fst (sweep_pages sw now pages cursor n d)) = Some (JStr c)))"
  using assms
proof (induction pages arbitrary: cursor n d front)
  case 0
  then show ?case by auto
next
  case (Suc pages)
  obtain e where e: "syncTicketSla (sw_env sw (tk_id x)) now Tick x = Throw e" using Suc.prems(2) by (auto simp: stuck_at_def)
  have dist: "distinct (map tk_id (front @ x # behind))" using Suc.prems(1) by (simp add: listed_def)
  let ?rows = "due_rows sw cursor (front @ x # behind)"
  from page_before [OF Suc.prems(3), of front behind] show ?case
  proof (elim disjE exE conjE)
    fix is1 is2 assume page: "?rows = is1 @ tk_id x # is2" and sub: "set is1 \<subseteq> set (map tk_id front)"
    from sweep_rows_stuck [OF dist e sub, of n is2] obtain front' e'
      where "sweep_rows sw now (front @ x # behind) n ?rows = (front' @ x # behind, Throw e')" "map tk_id front' = map tk_id front"
      unfolding page by blast
    with Suc.prems(4-6) show ?thesis by (simp add: Let_def)
  next
    assume len: "length ?rows = 100" and sub: "set ?rows \<subseteq> set (map tk_id front)"
    from sweep_rows_front [OF dist sub, of sw now n] obtain front' r
      where run: "sweep_rows sw now (front @ x # behind) n ?rows = (front' @ x # behind, r)" and ids: "map tk_id front' = map tk_id front"
      by blast
    show ?thesis
    proof (cases r)
      case (Inl e')
      with run ids Suc.prems(4-6) show ?thesis by (simp add: Let_def)
    next
      case (Inr m)
      let ?d = "d\<lparr>dk_tickets := front' @ x # behind, dk_flag := Some (JStr (last ?rows))\<rparr>"
      have "last ?rows \<in> set (map tk_id front)" using sub len last_in_set [of ?rows] by fastforce
      then have after: "sw_after sw (last ?rows) (tk_id x)" using Suc.prems(1) by (auto simp: listed_def sorted_wrt_append)
      have l: "listed sw (front' @ x # behind)" using listed_same_ids [OF _ Suc.prems(1), of "front' @ x # behind"] ids by simp
      have due: "due_ticket sw (last ?rows) x" using Suc.prems(3) after by (simp add: due_ticket_def)
      have "sweep_pages sw now (Suc pages) cursor n d = sweep_pages sw now pages (last ?rows) m ?d"
        using run Inr Suc.prems(4) len by (simp add: Let_def)
      with Suc.IH [OF l Suc.prems(2) due, of ?d m] after ids show ?thesis by simp
    qed
  qed
qed

fun sweep_times :: "sweep_env \<Rightarrow> int list \<Rightarrow> desk \<Rightarrow> desk" where
  "sweep_times sw [] d = d"
| "sweep_times sw (now # nows) d = sweep_times sw nows (fst (sweepTicketSlas sw now d))"

text \<open>
  C40. One ticket whose terms cannot be read stops the clocks of all tickets behind it: while the stored cursor is
  before it, no number of sweeps, at any times, changes a ticket with a greater id.  The comment above the sweep
  says that later tickets cannot be starved.
\<close>

theorem unreadable_ticket_starves:
  assumes "dk_tickets d = front @ x # behind" "listed sw (dk_tickets d)"
    and "tk_live x" "sw_open sw (tk_id x)" "tk_slaStatus x = ON_TRACK" "tk_slaTargets x = Some t"
    and "parseSlaTerms (se_db (sw_env sw (tk_id x))) t = Throw e"
    and "dk_flag d = None \<or> dk_flag d = Some (JStr c) \<and> sw_after sw c (tk_id x)" "sw_after sw '''' (tk_id x)"
  shows "\<exists>front'. dk_tickets (sweep_times sw nows d) = front' @ x # behind"
proof -
  have stuck: "stuck_at sw now x" for now
    using unreadable_terms_throw [OF assms(3,6,7)] by (auto simp: stuck_at_def)
  have "\<exists>front'. dk_tickets (sweep_times sw nows d) = front' @ x # behind"
    if "listed sw (front @ x # behind)" "dk_tickets d = front @ x # behind"
      "\<And>c. dk_flag d = Some (JStr c) \<Longrightarrow> sw_after sw c (tk_id x)" "dk_flag d = None \<or> (\<exists>c. dk_flag d = Some (JStr c))"
    for d :: desk and front
    using that
  proof (induction nows arbitrary: d front)
    case (Cons now nows)
    have "\<exists>cur. due_ticket sw cur x \<and> sweepTicketSlas sw now d = sweep_pages sw now 5 cur 0 d"
      using Cons.prems(3,4) assms(3-5,9) by (auto simp: due_ticket_def sweepTicketSlas_def)
    then obtain cur where cur: "due_ticket sw cur x" "sweepTicketSlas sw now d = sweep_pages sw now 5 cur 0 d" by blast
    from sweep_pages_stuck [OF Cons.prems(1) stuck cur(1) Cons.prems(2-4), of now 5 0] obtain front'
      where f: "dk_tickets (fst (sweepTicketSlas sw now d)) = front' @ x # behind" "map tk_id front' = map tk_id front"
        "\<forall>c. dk_flag (fst (sweepTicketSlas sw now d)) = Some (JStr c) \<longrightarrow> sw_after sw c (tk_id x)"
        "dk_flag (fst (sweepTicketSlas sw now d)) = None \<or> (\<exists>c. dk_flag (fst (sweepTicketSlas sw now d)) = Some (JStr c))"
      unfolding cur(2) by blast
    have "listed sw (front' @ x # behind)" using listed_same_ids [OF _ Cons.prems(1), of "front' @ x # behind"] f(2) by simp
    from Cons.IH [OF this f(1) f(3) [rule_format] f(4)] show ?case by simp
  qed auto
  from this [of front d] assms(1,2,8) show ?thesis by auto
qed

text \<open>The witness: a ticket whose stored terms promise nothing below a minute, and one behind it that is overdue.\<close>

definition sample_unreadable :: ticket where
  "sample_unreadable = sample_ticket\<lparr>tk_id := ''t0'', tk_slaStatus := ON_TRACK,
     tk_slaTargets := Some \<lparr>st_priority = Some P_low, st_firstResponseMins = Some 0, st_nextResponseMins = None,
       st_resolutionMins = None, st_atRiskPercent = 80, st_calendar = None, st_nextResponseStartedAt = None,
       st_nextResponsePausedMs = 0, st_notified = []\<rparr>\<rparr>"

definition sample_behind :: ticket where
  "sample_behind = ticket_run sample_ticket [Sync sample_env 0 Create]"

definition sample_desk :: desk where
  "sample_desk = \<lparr>dk_tickets = [sample_unreadable, sample_behind], dk_flag = None\<rparr>"

definition sample_sweep :: sweep_env where
  "sample_sweep = \<lparr>sw_env = (\<lambda>_. sample_env), sw_after = (\<lambda>c i. c \<noteq> i \<and> (c = '''' \<or> i = ''t1'')), sw_open = (\<lambda>_. True)\<rparr>"

lemma sample_desk_ids: "tk_id sample_behind = ''t1''" "tk_slaStatus sample_behind = ON_TRACK" "tk_firstResponseDueAt sample_behind = Some 3600000"
  by code_simp+

theorem unreadable_ticket_starves_witness:
  "tk_firstResponseDueAt sample_behind = Some 3600000 \<and> tk_slaStatus sample_behind = ON_TRACK \<and>
   (\<exists>front. dk_tickets (sweep_times sample_sweep [3600000, 7200000, 86400000] sample_desk) = front @ [sample_unreadable, sample_behind])"
proof -
  have x: "tk_id sample_unreadable = ''t0''" "tk_live sample_unreadable" "tk_slaStatus sample_unreadable = ON_TRACK"
    "tk_slaTargets sample_unreadable = Some (the (tk_slaTargets sample_unreadable))"
    by (simp_all add: sample_unreadable_def sample_ticket_def)
  have throw: "parseSlaTerms (se_db (sw_env sample_sweep (tk_id sample_unreadable))) (the (tk_slaTargets sample_unreadable)) = Throw Invalid_terms"
    by (simp add: parseSlaTerms_def sample_unreadable_def sample_ticket_def minutes_ok_def)
  have desk: "dk_tickets sample_desk = [] @ sample_unreadable # [sample_behind]" "listed sample_sweep (dk_tickets sample_desk)"
    "sw_open sample_sweep (tk_id sample_unreadable)" "sw_after sample_sweep '''' (tk_id sample_unreadable)"
    using x sample_desk_ids by (simp_all add: sample_desk_def listed_def sample_sweep_def)
  have flag: "dk_flag sample_desk = None \<or> dk_flag sample_desk = Some (JStr c) \<and> sw_after sample_sweep c (tk_id sample_unreadable)" for c
    by (simp add: sample_desk_def)
  from unreadable_ticket_starves [OF desk(1,2) x(2) desk(3) x(3,4) throw flag desk(4)] sample_desk_ids
  show ?thesis by blast
qed

end
