(* ===== verification/Effects.thy ===== *)
theory Effects
  imports Role_Guard
begin

text \<open>
  Code that talks to Redis, the clock and the database, one request at a time, while other code does the same.  A
  program is a tree of actions: what it does next depends on the answer to the action before.  The log of the
  whole system interleaves the actions of any number of programs; a program's own part of the log decides how
  far it has come.  What the code relies on of Redis is \<open>redis_does\<close>, the documented effect of each command, and a
  command may also fail, with or without having had its effect.

  Values that Redis stores as text are kept as what \<^verbatim>\<open>JSON.parse\<close> reads in them.
\<close>

section \<open>Actions and answers\<close>

record session_record =
  sr_userId :: string
  sr_role :: role
  sr_createdAt :: int
  sr_lastSeenAt :: int

datatype redis_text = Session_text session_record | True_text | One_text | Other_text string

datatype command =
    GET string
  | SET_EX string redis_text int
  | SET_NX_EX string redis_text int
  | SET_KEEPTTL string redis_text
  | DEL string
  | EXISTS string
  | EXPIRE_NX string int
  | EXPIRE_GT string int
  | ZADD string int string
  | ZRANGE string
  | ZREM string string
  | SADD string string
  | SREM string string
  | SMEMBERS string

datatype session_audit =
    Session_evicted string string int
  | Session_absolute_timeout string string int
  | Session_idle_timeout string string int role
  | Signed_out "string option"

record user_row =
  ur_role :: "role option"
  ur_deactivated :: bool
  ur_accessRoleId :: "string option"

record token_claims =
  tc_type :: string
  tc_sub :: string
  tc_username :: string
  tc_displayName :: string
  tc_role :: role
  tc_sid :: "string option"
  tc_accessRoleId :: "string option option"

datatype action =
    Redis command
  | Clock
  | Random_id
  | Activity session_audit
  | Find_user string
  | Sign token_claims
  | Touch_nc_token string
  | Oauth2_refresh string
  | Revoke_app_password string

datatype answer =
    Failed
  | Nil_reply
  | Text redis_text
  | Count int
  | Names "string list"
  | Ok_reply
  | Time int
  | Fresh string
  | Row "user_row option"
  | Token string

datatype 'a io = Pure 'a | Do action "answer \<Rightarrow> 'a io"

primrec bind :: "'a io \<Rightarrow> ('a \<Rightarrow> 'b io) \<Rightarrow> 'b io" where
  "bind (Pure x) f = f x"
| "bind (Do a k) f = Do a (\<lambda>r. bind (k r) f)"

lemma bind_assoc: "bind (bind m f) g = bind m (\<lambda>x. bind (f x) g)"
  by (induction m) simp_all

text \<open>A rejected promise is a left value; \<open>attempt\<close> is \<^verbatim>\<open>try\<close>, \<open>on_throw\<close> is \<^verbatim>\<open>catch\<close>.\<close>

definition next_try :: "('e, 'a) result io \<Rightarrow> ('a \<Rightarrow> ('e, 'b) result io) \<Rightarrow> ('e, 'b) result io" where
  "next_try m f = bind m (\<lambda>r. case r of Inl e \<Rightarrow> Pure (Throw e) | Inr x \<Rightarrow> f x)"

definition on_throw :: "('e, 'a) result io \<Rightarrow> ('e \<Rightarrow> 'a io) \<Rightarrow> 'a io" where
  "on_throw m h = bind m (\<lambda>r. case r of Inl e \<Rightarrow> h e | Inr x \<Rightarrow> Pure x)"

definition redis :: "command \<Rightarrow> (unit, answer) result io" where
  "redis c = Do (Redis c) (\<lambda>r. Pure (if r = Failed then Throw () else Return r))"

definition now_seconds :: "int io" where
  "now_seconds = Do Clock (\<lambda>r. Pure (case r of Time t \<Rightarrow> t | _ \<Rightarrow> 0))"

definition record_activity :: "session_audit \<Rightarrow> unit io" where
  "record_activity a = Do (Activity a) (\<lambda>_. Pure ())"

section \<open>Programs and their part of the log\<close>

type_synonym trace = "(action \<times> answer) list"

text \<open>What is left of a program after its actions were answered.\<close>

fun rest_of :: "'a io \<Rightarrow> trace \<Rightarrow> 'a io option" where
  "rest_of p [] = Some p"
| "rest_of (Pure x) (e # tr) = None"
| "rest_of (Do a k) ((a', r) # tr) = (if a' = a then rest_of (k r) tr else None)"

definition result_of :: "'a io \<Rightarrow> trace \<Rightarrow> 'a option" where
  "result_of p tr = (case rest_of p tr of Some (Pure x) \<Rightarrow> Some x | _ \<Rightarrow> None)"

text \<open>
  \<open>always P Q h p\<close>: continuing the trace \<open>h\<close>, every action of \<open>p\<close> satisfies \<open>P\<close> of the trace before it, and
  a result satisfies \<open>Q\<close> of the whole trace, whatever the answers.
\<close>

primrec always :: "(trace \<Rightarrow> action \<Rightarrow> bool) \<Rightarrow> (trace \<Rightarrow> 'a \<Rightarrow> bool) \<Rightarrow> trace \<Rightarrow> 'a io \<Rightarrow> bool" where
  "always P Q h (Pure x) = Q h x"
| "always P Q h (Do a k) = (P h a \<and> (\<forall>r. always P Q (h @ [(a, r)]) (k r)))"

lemma always_bind [simp]: "always P Q h (bind m f) = always P (\<lambda>h' x. always P Q h' (f x)) h m"
  by (induction m arbitrary: h) simp_all

lemma always_mono:
  "always P Q h m \<Longrightarrow> (\<And>h a. P h a \<Longrightarrow> P' h a) \<Longrightarrow> (\<And>h x. Q h x \<Longrightarrow> Q' h x) \<Longrightarrow> always P' Q' h m"
  by (induction m arbitrary: h) auto

lemma always_next_try [simp]:
  "always P Q h (next_try m f) = always P (\<lambda>h' r. case r of Inl e \<Rightarrow> Q h' (Throw e) | Inr x \<Rightarrow> always P Q h' (f x)) h m"
  by (simp add: next_try_def sum.case_distrib [of "always P Q _"] cong: sum.case_cong)

lemma always_on_throw [simp]:
  "always P Q h (on_throw m g) = always P (\<lambda>h' r. case r of Inl e \<Rightarrow> always P Q h' (g e) | Inr x \<Rightarrow> Q h' x) h m"
  by (simp add: on_throw_def sum.case_distrib [of "always P Q _"] cong: sum.case_cong)

lemma always_redis [simp]:
  "always P Q h (redis c) =
     (P h (Redis c) \<and> Q (h @ [(Redis c, Failed)]) (Throw ()) \<and> (\<forall>r. r \<noteq> Failed \<longrightarrow> Q (h @ [(Redis c, r)]) (Return r)))"
  by (auto simp: redis_def)

lemma rest_of_append: "rest_of p (tr @ tr') = (case rest_of p tr of None \<Rightarrow> None | Some q \<Rightarrow> rest_of q tr')"
  by (induction p tr rule: rest_of.induct) auto

lemma always_rest:
  "always P Q h p \<Longrightarrow> rest_of p tr = Some q \<Longrightarrow> always P Q (h @ tr) q"
proof (induction p tr arbitrary: h rule: rest_of.induct)
  case (3 a k a' r tr)
  then have a: "a' = a" "rest_of (k r) tr = Some q" "always P Q (h @ [(a, r)]) (k r)" by (simp_all split: if_splits)
  from "3.IH" [OF a(1) a(3) a(2)] a(1) show ?case by simp
qed simp_all

lemma always_action:
  assumes "always P Q [] p" "rest_of p (tr @ (a, r) # tr') \<noteq> None"
  shows "P tr a"
proof -
  obtain q where q: "rest_of p tr = Some q" "rest_of q ((a, r) # tr') \<noteq> None"
    using assms(2) by (auto simp: rest_of_append split: option.splits)
  with always_rest [OF assms(1) q(1)] show ?thesis by (cases q) (auto split: if_splits)
qed

lemma always_result: "always P Q [] p \<Longrightarrow> result_of p tr = Some x \<Longrightarrow> Q tr x"
  by (auto simp: result_of_def split: option.splits io.splits dest: always_rest)


section \<open>Redis\<close>

text \<open>The keys, their values and their expiry (epoch seconds).  A sorted set is kept in the order of scores.\<close>

record keyspace =
  ks_text :: "string \<Rightarrow> redis_text option"
  ks_zset :: "string \<Rightarrow> (int \<times> string) list"
  ks_set :: "string \<Rightarrow> string list"
  ks_expiry :: "string \<Rightarrow> int option"

definition no_keys :: keyspace where
  "no_keys = \<lparr>ks_text = (\<lambda>_. None), ks_zset = (\<lambda>_. []), ks_set = (\<lambda>_. []), ks_expiry = (\<lambda>_. None)\<rparr>"

definition live_at :: "int \<Rightarrow> keyspace \<Rightarrow> string \<Rightarrow> bool" where
  "live_at t ks k \<longleftrightarrow> (case ks_expiry ks k of None \<Rightarrow> True | Some e \<Rightarrow> t < e)"

definition clear_key :: "string \<Rightarrow> keyspace \<Rightarrow> keyspace" where
  "clear_key k ks = \<lparr>ks_text = (ks_text ks)(k := None), ks_zset = (ks_zset ks)(k := []), ks_set = (ks_set ks)(k := []),
     ks_expiry = (ks_expiry ks)(k := None)\<rparr>"

definition expire_key :: "int \<Rightarrow> string \<Rightarrow> keyspace \<Rightarrow> keyspace" where
  "expire_key t k ks = (if live_at t ks k then ks else clear_key k ks)"

definition has_key :: "keyspace \<Rightarrow> string \<Rightarrow> bool" where
  "has_key ks k \<longleftrightarrow> ks_text ks k \<noteq> None \<or> ks_zset ks k \<noteq> [] \<or> ks_set ks k \<noteq> []"

fun key_of :: "command \<Rightarrow> string" where
  "key_of (GET k) = k" | "key_of (SET_EX k v n) = k" | "key_of (SET_NX_EX k v n) = k" | "key_of (SET_KEEPTTL k v) = k"
| "key_of (DEL k) = k" | "key_of (EXISTS k) = k" | "key_of (EXPIRE_NX k n) = k" | "key_of (EXPIRE_GT k n) = k"
| "key_of (ZADD k s m) = k" | "key_of (ZRANGE k) = k" | "key_of (ZREM k m) = k" | "key_of (SADD k m) = k"
| "key_of (SREM k m) = k" | "key_of (SMEMBERS k) = k"

definition put_text :: "string \<Rightarrow> redis_text \<Rightarrow> int option \<Rightarrow> keyspace \<Rightarrow> keyspace" where
  "put_text k v e ks = (clear_key k ks)\<lparr>ks_text := (ks_text ks)(k := Some v), ks_expiry := (ks_expiry ks)(k := e)\<rparr>"

definition drop_empty :: "string \<Rightarrow> keyspace \<Rightarrow> keyspace" where
  "drop_empty k ks = (if has_key ks k then ks else clear_key k ks)"

fun command_effect :: "int \<Rightarrow> command \<Rightarrow> keyspace \<Rightarrow> answer \<times> keyspace" where
  "command_effect t (GET k) ks = (case ks_text ks k of None \<Rightarrow> Nil_reply | Some v \<Rightarrow> Text v, ks)"
| "command_effect t (SET_EX k v n) ks = (Ok_reply, put_text k v (Some (t + n)) ks)"
| "command_effect t (SET_NX_EX k v n) ks = (if has_key ks k then (Nil_reply, ks) else (Ok_reply, put_text k v (Some (t + n)) ks))"
| "command_effect t (SET_KEEPTTL k v) ks = (Ok_reply, put_text k v (ks_expiry ks k) ks)"
| "command_effect t (DEL k) ks = (Count (if has_key ks k then 1 else 0), clear_key k ks)"
| "command_effect t (EXISTS k) ks = (Count (if has_key ks k then 1 else 0), ks)"
| "command_effect t (EXPIRE_NX k n) ks =
     (if has_key ks k \<and> ks_expiry ks k = None then (Count 1, ks\<lparr>ks_expiry := (ks_expiry ks)(k := Some (t + n))\<rparr>) else (Count 0, ks))"
| "command_effect t (EXPIRE_GT k n) ks =
     (case ks_expiry ks k of
        Some e \<Rightarrow> if has_key ks k \<and> e < t + n then (Count 1, ks\<lparr>ks_expiry := (ks_expiry ks)(k := Some (t + n))\<rparr>) else (Count 0, ks)
      | None \<Rightarrow> (Count 0, ks))"
| "command_effect t (ZADD k s m) ks =
     (Count (if m \<in> snd ` set (ks_zset ks k) then 0 else 1),
      ks\<lparr>ks_zset := (ks_zset ks)(k := insort_key fst (s, m) (filter (\<lambda>e. snd e \<noteq> m) (ks_zset ks k)))\<rparr>)"
| "command_effect t (ZRANGE k) ks = (Names (map snd (ks_zset ks k)), ks)"
| "command_effect t (ZREM k m) ks =
     (Count (if m \<in> snd ` set (ks_zset ks k) then 1 else 0),
      drop_empty k (ks\<lparr>ks_zset := (ks_zset ks)(k := filter (\<lambda>e. snd e \<noteq> m) (ks_zset ks k))\<rparr>))"
| "command_effect t (SADD k m) ks =
     (if m \<in> set (ks_set ks k) then (Count 0, ks) else (Count 1, ks\<lparr>ks_set := (ks_set ks)(k := ks_set ks k @ [m])\<rparr>))"
| "command_effect t (SREM k m) ks =
     (Count (if m \<in> set (ks_set ks k) then 1 else 0),
      drop_empty k (ks\<lparr>ks_set := (ks_set ks)(k := filter (\<lambda>e. e \<noteq> m) (ks_set ks k))\<rparr>))"
| "command_effect t (SMEMBERS k) ks = (Names (ks_set ks k), ks)"

text \<open>The command on the keyspace whose key, if its time has passed, is gone.\<close>

definition redis_does :: "int \<Rightarrow> command \<Rightarrow> keyspace \<Rightarrow> answer \<times> keyspace" where
  "redis_does t c ks = command_effect t c (expire_key t (key_of c) ks)"

definition redis_answers :: "int \<Rightarrow> command \<Rightarrow> keyspace \<Rightarrow> answer \<Rightarrow> keyspace \<Rightarrow> bool" where
  "redis_answers t c ks r ks' \<longleftrightarrow> redis_does t c ks = (r, ks') \<or> (r = Failed \<and> (ks' = ks \<or> ks' = snd (redis_does t c ks)))"

section \<open>The log\<close>

type_synonym entry = "nat \<times> int \<times> action \<times> answer"

definition own :: "nat \<Rightarrow> entry list \<Rightarrow> trace" where
  "own i log = map (snd \<circ> snd) (filter (\<lambda>e. fst e = i) log)"

fun answered :: "int \<Rightarrow> action \<Rightarrow> entry list \<Rightarrow> keyspace \<Rightarrow> answer \<Rightarrow> keyspace \<Rightarrow> bool" where
  "answered t (Redis c) log ks r ks' = redis_answers t c ks r ks'"
| "answered t Clock log ks r ks' = (r = Time t \<and> ks' = ks)"
| "answered t Random_id log ks r ks' = ((\<exists>s. r = Fresh s \<and> (\<forall>e\<in>set log. snd (snd e) \<noteq> (Random_id, Fresh s))) \<and> ks' = ks)"
| "answered t a log ks r ks' = (ks' = ks)"

inductive world :: "entry list \<Rightarrow> int \<Rightarrow> keyspace \<Rightarrow> bool" where
  world_start: "world [] t no_keys"
| world_step: "world log t ks \<Longrightarrow> t \<le> t' \<Longrightarrow> answered t' a log ks r ks' \<Longrightarrow> world (log @ [(i, t', a, r)]) t' ks'"

text \<open>Request \<open>i\<close> runs \<open>prog i\<close>; all of them are somewhere in their programs.\<close>

definition follows :: "(nat \<Rightarrow> unit io) \<Rightarrow> entry list \<Rightarrow> bool" where
  "follows prog log \<longleftrightarrow> (\<forall>i. rest_of (prog i) (own i log) \<noteq> None)"

lemma own_append [simp]: "own i (log @ log') = own i log @ own i log'"
  by (simp add: own_def)

lemma own_single [simp]: "own i [(j, t, a, r)] = (if i = j then [(a, r)] else [])"
  by (simp add: own_def)

lemma own_Cons: "own i ((j, t, a, r) # log) = (if i = j then (a, r) # own i log else own i log)"
  by (simp add: own_def)

lemma rest_of_prefix: "rest_of p (tr @ tr') \<noteq> None \<Longrightarrow> rest_of p tr \<noteq> None"
  by (auto simp: rest_of_append split: option.splits)

lemma follows_prefix: "follows prog (log @ log') \<Longrightarrow> follows prog log"
  unfolding follows_def own_append using rest_of_prefix by metis

lemma follows_action:
  assumes "follows prog (log @ [(i, t, a, r)])" "always P Q [] (prog i)"
  shows "P (own i log) a"
proof (rule always_action [OF assms(2)])
  show "rest_of (prog i) (own i log @ (a, r) # []) \<noteq> None"
    using assms(1) [unfolded follows_def, rule_format, of i] by simp
qed

end
