(* ===== verification/Session.thy ===== *)
theory Session
  imports Effects
begin

text \<open>
  The server-side sessions of \<^verbatim>\<open>apps/orchestrator/src/services/session.service.ts\<close>, as programs over Redis.  The
  limits come from the configuration; \<^verbatim>\<open>recordActivity\<close> swallows its failures, so its answer is not
  looked at.  Times are epoch seconds.  Under a record's key Redis holds a record or a text \<^verbatim>\<open>JSON.parse\<close>
  refuses; the values of the denylists (\<open>True_text\<close>, \<open>One_text\<close>) are never written there.
\<close>

section \<open>Limits\<close>

definition SESSION_KEY_PREFIX :: string where
  "SESSION_KEY_PREFIX = ''sess:rec:''"

definition SESSION_INDEX_PREFIX :: string where
  "SESSION_INDEX_PREFIX = ''sess:user:''"

definition SESSION_TOUCH_INTERVAL_SECONDS :: int where
  "SESSION_TOUCH_INTERVAL_SECONDS = 30"

definition RECORD_GC_GRACE_SECONDS :: int where
  "RECORD_GC_GRACE_SECONDS = 24 * 60 * 60"

definition DEFAULT_IDLE_TIMEOUT_SECONDS :: int where
  "DEFAULT_IDLE_TIMEOUT_SECONDS = 30 * 60"

definition DEFAULT_ABSOLUTE_TIMEOUT_SECONDS :: int where
  "DEFAULT_ABSOLUTE_TIMEOUT_SECONDS = 12 * 60 * 60"

definition DEFAULT_MAX_CONCURRENT_SESSIONS :: int where
  "DEFAULT_MAX_CONCURRENT_SESSIONS = 5"

record session_config =
  sc_idleAdmin :: "int option"
  sc_idleUser :: "int option"
  sc_absoluteAdmin :: "int option"
  sc_absoluteUser :: "int option"
  sc_maxConcurrent :: "int option"

definition cfgNum :: "int option \<Rightarrow> int \<Rightarrow> int" where
  "cfgNum value fallback = (case value of Some v \<Rightarrow> if 0 < v then v else fallback | None \<Rightarrow> fallback)"

definition idleLimitSecondsForRole :: "session_config \<Rightarrow> role \<Rightarrow> int" where
  "idleLimitSecondsForRole cfg r =
     (if r = owner \<or> r = admin then cfgNum (sc_idleAdmin cfg) DEFAULT_IDLE_TIMEOUT_SECONDS
      else cfgNum (sc_idleUser cfg) DEFAULT_IDLE_TIMEOUT_SECONDS)"

definition absoluteLimitSecondsForRole :: "session_config \<Rightarrow> role \<Rightarrow> int" where
  "absoluteLimitSecondsForRole cfg r =
     (if r = owner \<or> r = admin then cfgNum (sc_absoluteAdmin cfg) DEFAULT_ABSOLUTE_TIMEOUT_SECONDS
      else cfgNum (sc_absoluteUser cfg) DEFAULT_ABSOLUTE_TIMEOUT_SECONDS)"

definition maxConcurrentSessions :: "session_config \<Rightarrow> int" where
  "maxConcurrentSessions cfg = cfgNum (sc_maxConcurrent cfg) DEFAULT_MAX_CONCURRENT_SESSIONS"

definition rec_key :: "string \<Rightarrow> string" where
  "rec_key sid = SESSION_KEY_PREFIX @ sid"

definition idx_key :: "string \<Rightarrow> string" where
  "idx_key userId = SESSION_INDEX_PREFIX @ userId"

section \<open>Reading answers\<close>

definition count_of :: "answer \<Rightarrow> int" where
  "count_of r = (case r of Count n \<Rightarrow> n | _ \<Rightarrow> 0)"

definition names_of :: "answer \<Rightarrow> string list" where
  "names_of r = (case r of Names xs \<Rightarrow> xs | _ \<Rightarrow> [])"

section \<open>Creating a session\<close>

definition destroyRecord :: "string \<Rightarrow> string \<Rightarrow> bool io" where
  "destroyRecord userId sid =
     on_throw
       (next_try (redis (DEL (rec_key sid))) (\<lambda>removed.
        next_try (redis (ZREM (idx_key userId) sid)) (\<lambda>_.
          Pure (Return (0 < count_of removed)))))
       (\<lambda>_. Pure False)"

text \<open>The members whose record still exists; the others leave the index.\<close>

fun live_members :: "string \<Rightarrow> string list \<Rightarrow> string list \<Rightarrow> (unit, string list) result io" where
  "live_members idx [] acc = Pure (Return acc)"
| "live_members idx (m # ms) acc =
     next_try (redis (EXISTS (rec_key m))) (\<lambda>r.
       if count_of r \<noteq> 0 then live_members idx ms (acc @ [m])
       else next_try (redis (ZREM idx m)) (\<lambda>_. live_members idx ms acc))"

text \<open>
  Evicting the oldest beyond the cap, never the session being created.  What was evicted before a failure stays in
  \<^verbatim>\<open>evictedSids\<close>, so the list is returned beside the failure.
\<close>

fun evict_oldest :: "string \<Rightarrow> string \<Rightarrow> int \<Rightarrow> string list \<Rightarrow> string list \<Rightarrow> (string list \<times> bool) io" where
  "evict_oldest idx sid cap [] evicted = Pure (evicted, True)"
| "evict_oldest idx sid cap (oldest # live) evicted =
     (if int (length live) + 1 \<le> cap \<or> oldest = [] \<or> oldest = sid then Pure (evicted, True)
      else Do (Redis (DEL (rec_key oldest))) (\<lambda>r. if r = Failed then Pure (evicted, False)
           else Do (Redis (ZREM idx oldest)) (\<lambda>r'. if r' = Failed then Pure (evicted, False)
           else evict_oldest idx sid cap live (evicted @ [oldest]))))"

fun audit_evictions :: "string \<Rightarrow> int \<Rightarrow> string list \<Rightarrow> unit io" where
  "audit_evictions userId cap [] = Pure ()"
| "audit_evictions userId cap (s # ss) = bind (record_activity (Session_evicted userId s cap)) (\<lambda>_. audit_evictions userId cap ss)"

definition createSession :: "session_config \<Rightarrow> string \<Rightarrow> role \<Rightarrow> (string \<times> string list) io" where
  "createSession cfg userId r =
     Do Random_id (\<lambda>answer. let sid = (case answer of Fresh s \<Rightarrow> s | _ \<Rightarrow> []) in
     bind now_seconds (\<lambda>now.
     let rec = \<lparr>sr_userId = userId, sr_role = r, sr_createdAt = now, sr_lastSeenAt = now\<rparr>;
         idxKey = idx_key userId;
         gcTtl = absoluteLimitSecondsForRole cfg r + RECORD_GC_GRACE_SECONDS
     in on_throw
          (next_try (redis (SET_EX (rec_key sid) (Session_text rec) gcTtl)) (\<lambda>_.
           next_try (redis (ZADD idxKey now sid)) (\<lambda>_.
           next_try (redis (EXPIRE_NX idxKey gcTtl)) (\<lambda>_.
           next_try (redis (EXPIRE_GT idxKey gcTtl)) (\<lambda>_.
           next_try (redis (ZRANGE idxKey)) (\<lambda>members.
           next_try (live_members idxKey (names_of members) []) (\<lambda>live.
             let cap = maxConcurrentSessions cfg in
             bind (evict_oldest idxKey sid cap live []) (\<lambda>(evicted, finished).
               if finished then bind (audit_evictions userId cap evicted) (\<lambda>_. Pure (Return (sid, evicted)))
               else Pure (Return (sid, evicted))))))))))
          (\<lambda>_. Pure (sid, []))))"

section \<open>Checking a session\<close>

datatype session_check = Ok session_record | Expired_idle | Expired_absolute | Missing | Check_error

definition checkSession :: "session_config \<Rightarrow> string \<Rightarrow> bool \<Rightarrow> session_check io" where
  "checkSession cfg sid touch =
     Do (Redis (GET (rec_key sid))) (\<lambda>raw.
       case raw of
         Failed \<Rightarrow> Pure Check_error
       | Text (Session_text rec) \<Rightarrow>
           bind now_seconds (\<lambda>now.
             let absoluteLimit = absoluteLimitSecondsForRole cfg (sr_role rec);
                 idleLimit = idleLimitSecondsForRole cfg (sr_role rec)
             in if absoluteLimit \<le> now - sr_createdAt rec
                then bind (destroyRecord (sr_userId rec) sid) (\<lambda>_.
                     bind (record_activity (Session_absolute_timeout (sr_userId rec) sid absoluteLimit)) (\<lambda>_.
                       Pure Expired_absolute))
                else if idleLimit \<le> now - sr_lastSeenAt rec
                then bind (destroyRecord (sr_userId rec) sid) (\<lambda>_.
                     bind (record_activity (Session_idle_timeout (sr_userId rec) sid idleLimit (sr_role rec))) (\<lambda>_.
                       Pure Expired_idle))
                else if touch \<and> SESSION_TOUCH_INTERVAL_SECONDS \<le> now - sr_lastSeenAt rec
                then Do (Redis (SET_KEEPTTL (rec_key sid) (Session_text (rec\<lparr>sr_lastSeenAt := now\<rparr>)))) (\<lambda>_. Pure (Ok rec))
                else Pure (Ok rec))
       | _ \<Rightarrow> Pure Missing)"

definition readSessionDeadline :: "session_config \<Rightarrow> string \<Rightarrow> int option io" where
  "readSessionDeadline cfg sid =
     Do (Redis (GET (rec_key sid))) (\<lambda>raw. Pure
       (case raw of
          Text (Session_text rec) \<Rightarrow> Some ((sr_createdAt rec + absoluteLimitSecondsForRole cfg (sr_role rec)) * 1000)
        | _ \<Rightarrow> None))"

definition deleteSession :: "string \<Rightarrow> string \<Rightarrow> unit io" where
  "deleteSession userId sid = bind (destroyRecord userId sid) (\<lambda>_. Pure ())"

section \<open>The sessions of a person\<close>

definition countLiveSessions :: "string \<Rightarrow> int option io" where
  "countLiveSessions userId =
     on_throw
       (next_try (redis (ZRANGE (idx_key userId))) (\<lambda>members.
        next_try (live_members (idx_key userId) (names_of members) []) (\<lambda>live. Pure (Return (Some (int (length live)))))))
       (\<lambda>_. Pure None)"

fun session_summaries :: "string \<Rightarrow> string list \<Rightarrow> (role \<times> int \<times> int) list \<Rightarrow> (unit, (role \<times> int \<times> int) list) result io" where
  "session_summaries idx [] out = Pure (Return out)"
| "session_summaries idx (sid # sids) out =
     next_try (redis (GET (rec_key sid))) (\<lambda>raw.
       case raw of
         Text (Session_text rec) \<Rightarrow> session_summaries idx sids (out @ [(sr_role rec, sr_createdAt rec, sr_lastSeenAt rec)])
       | Text _ \<Rightarrow> session_summaries idx sids out
       | _ \<Rightarrow> next_try (redis (ZREM idx sid)) (\<lambda>_. session_summaries idx sids out))"

definition listUserSessions :: "string \<Rightarrow> (role \<times> int \<times> int) list option io" where
  "listUserSessions userId =
     on_throw
       (next_try (redis (ZRANGE (idx_key userId))) (\<lambda>members.
        next_try (session_summaries (idx_key userId) (names_of members) []) (\<lambda>out.
          Pure (Return (Some (sort_key (\<lambda>(_, created, _). - created) out))))))
       (\<lambda>_. Pure None)"

section \<open>Revoking all sessions of a person\<close>

fun revoke_records :: "string \<Rightarrow> string option \<Rightarrow> string list \<Rightarrow> int \<Rightarrow> (unit, int) result io" where
  "revoke_records idx except [] revoked = Pure (Return revoked)"
| "revoke_records idx except (sid # sids) revoked =
     (if (case except of Some x \<Rightarrow> x \<noteq> [] \<and> sid = x | None \<Rightarrow> False) then revoke_records idx except sids revoked
      else next_try (redis (DEL (rec_key sid))) (\<lambda>removed.
           next_try (redis (ZREM idx sid)) (\<lambda>_.
             revoke_records idx except sids (if 0 < count_of removed then revoked + 1 else revoked))))"

end
