(* ===== verification/Refresh_Tokens.thy ===== *)
theory Refresh_Tokens
  imports Session Dates
begin

text \<open>
  Refresh tokens and their rotation: the denylist and the token index of
  \<^verbatim>\<open>services/jwt.service.ts\<close> over the helpers of \<^verbatim>\<open>services/cache.service.ts\<close>, the access denylist of
  \<^verbatim>\<open>services/auth-denylist.service.ts\<close>, \<^verbatim>\<open>revokeAllSessions\<close>, the refresh and logout routes of
  \<^verbatim>\<open>routes/auth.ts\<close> and the session check of \<^verbatim>\<open>middleware/auth.ts\<close>.

  Signing and verifying are the \<^verbatim>\<open>jsonwebtoken\<close> library: \<open>je_verify\<close> gives the claims of a token whose signature
  and expiry it accepts at a time, signing is an action that answers with the token.  SHA-256 is \<open>je_sha\<close>.
\<close>

section \<open>Tokens\<close>

record jwt_decoded =
  jd_type :: "string option"
  jd_sub :: "string option"
  jd_username :: "string option"
  jd_displayName :: "string option"
  jd_role :: "role option"
  jd_sid :: "string option"
  jd_exp :: "int option"

record jwt_env =
  je_verify :: "string \<Rightarrow> int \<Rightarrow> jwt_decoded option"
  je_sha :: "string \<Rightarrow> string"
  je_prisma :: bool
  je_oauth2 :: bool

definition ACCESS_TOKEN_TTL_SECONDS :: int where
  "ACCESS_TOKEN_TTL_SECONDS = 15 * 60"

definition REFRESH_TOKEN_TTL_SECONDS :: int where
  "REFRESH_TOKEN_TTL_SECONDS = 7 * 24 * 60 * 60"

definition REFRESH_DENYLIST_PREFIX :: string where
  "REFRESH_DENYLIST_PREFIX = ''jwt:deny:''"

definition deny_hash_key :: "string \<Rightarrow> string" where
  "deny_hash_key h = REFRESH_DENYLIST_PREFIX @ h"

definition deny_key :: "jwt_env \<Rightarrow> string \<Rightarrow> string" where
  "deny_key env token = deny_hash_key (je_sha env token)"

definition sessions_key :: "string \<Rightarrow> string" where
  "sessions_key userId = ''jwt:sessions:'' @ userId"

definition denylistKey :: "string \<Rightarrow> string" where
  "denylistKey userId = ''auth:denylist:user:'' @ userId"

definition verify_jwt :: "jwt_env \<Rightarrow> string \<Rightarrow> jwt_decoded option io" where
  "verify_jwt env token = bind now_seconds (\<lambda>now. Pure (je_verify env token now))"

text \<open>The claims every kind of token needs; an empty text counts as absent.\<close>

definition present :: "string option \<Rightarrow> bool" where
  "present v \<longleftrightarrow> v \<noteq> None \<and> v \<noteq> Some []"

definition usable_claims :: "string \<Rightarrow> jwt_decoded \<Rightarrow> token_claims option" where
  "usable_claims kind d =
     (case (jd_sub d, jd_username d, jd_role d) of
        (Some sub, Some username, Some r) \<Rightarrow>
          if jd_type d = Some kind \<and> sub \<noteq> [] \<and> username \<noteq> []
          then Some \<lparr>tc_type = kind, tc_sub = sub, tc_username = username,
            tc_displayName = (case jd_displayName d of Some n \<Rightarrow> n | None \<Rightarrow> username), tc_role = r, tc_sid = jd_sid d, tc_accessRoleId = None\<rparr>
          else None
      | _ \<Rightarrow> None)"

section \<open>The cache helpers\<close>

definition cacheGet :: "string \<Rightarrow> redis_text option io" where
  "cacheGet key =
     Do (Redis (GET key)) (\<lambda>r. Pure (case r of Text (Other_text _) \<Rightarrow> None | Text v \<Rightarrow> Some v | _ \<Rightarrow> None))"

definition cacheSet :: "string \<Rightarrow> redis_text \<Rightarrow> int \<Rightarrow> unit io" where
  "cacheSet key v ttl = Do (Redis (SET_EX key v ttl)) (\<lambda>_. Pure ())"

definition cacheSetStrict :: "string \<Rightarrow> redis_text \<Rightarrow> int \<Rightarrow> (unit, answer) result io" where
  "cacheSetStrict key v ttl = redis (SET_EX key v ttl)"

definition cacheDelStrict :: "string \<Rightarrow> (unit, answer) result io" where
  "cacheDelStrict key = redis (DEL key)"

definition cacheSetNx :: "string \<Rightarrow> redis_text \<Rightarrow> int \<Rightarrow> bool io" where
  "cacheSetNx key v ttl = Do (Redis (SET_NX_EX key v ttl)) (\<lambda>r. Pure (r = Ok_reply))"

definition cacheSetAdd :: "string \<Rightarrow> string \<Rightarrow> int \<Rightarrow> unit io" where
  "cacheSetAdd key member ttl =
     on_throw
       (next_try (redis (SADD key member)) (\<lambda>_.
         if 0 < ttl
         then next_try (redis (EXPIRE_NX key ttl)) (\<lambda>_. next_try (redis (EXPIRE_GT key ttl)) (\<lambda>_. Pure (Return ())))
         else Pure (Return ())))
       (\<lambda>_. Pure ())"

definition cacheSetRemove :: "string \<Rightarrow> string \<Rightarrow> unit io" where
  "cacheSetRemove key member = Do (Redis (SREM key member)) (\<lambda>_. Pure ())"

definition cacheSetMembers :: "string \<Rightarrow> string list io" where
  "cacheSetMembers key = Do (Redis (SMEMBERS key)) (\<lambda>r. Pure (names_of r))"

section \<open>The refresh-token denylist\<close>

definition verifyRefreshToken :: "jwt_env \<Rightarrow> string \<Rightarrow> token_claims option io" where
  "verifyRefreshToken env token =
     bind (verify_jwt env token) (\<lambda>d.
       case Option.bind d (usable_claims ''refresh'') of
         None \<Rightarrow> Pure None
       | Some c \<Rightarrow> bind (cacheGet (deny_key env token)) (\<lambda>denied. Pure (if denied \<noteq> None then None else Some c)))"

datatype revocation_error = Revocation_unavailable

definition denyRefreshToken :: "jwt_env \<Rightarrow> string \<Rightarrow> (revocation_error, unit) result io" where
  "denyRefreshToken env token =
     bind (verify_jwt env token) (\<lambda>d.
       case d of
         None \<Rightarrow> Pure (Return ())
       | Some d \<Rightarrow>
           (case jd_exp d of
              None \<Rightarrow> Pure (Return ())
            | Some e \<Rightarrow>
                if e = 0 then Pure (Return ())
                else bind now_seconds (\<lambda>now.
                  if e - now \<le> 0 then Pure (Return ())
                  else bind (cacheSetStrict (deny_key env token) True_text (e - now)) (\<lambda>r.
                    Pure (case r of Inl _ \<Rightarrow> Throw Revocation_unavailable | Inr _ \<Rightarrow> Return ())))))"

definition claimRefreshRotation :: "jwt_env \<Rightarrow> string \<Rightarrow> bool io" where
  "claimRefreshRotation env token = cacheSetNx (deny_key env token) True_text 30"

section \<open>The index of refresh tokens\<close>

definition member_text :: "jwt_env \<Rightarrow> string \<Rightarrow> int \<Rightarrow> string" where
  "member_text env token e = je_sha env token @ '':'' @ show_nat (nat e)"

definition registerRefreshSession :: "jwt_env \<Rightarrow> string \<Rightarrow> string \<Rightarrow> unit io" where
  "registerRefreshSession env userId token =
     bind (verify_jwt env token) (\<lambda>d.
       case d of
         Some d \<Rightarrow>
           (case jd_exp d of
              Some e \<Rightarrow>
                if jd_type d = Some ''refresh'' \<and> e \<noteq> 0
                then bind now_seconds (\<lambda>now.
                  if e - now \<le> 0 then Pure () else cacheSetAdd (sessions_key userId) (member_text env token e) (e - now))
                else Pure ()
            | None \<Rightarrow> Pure ())
       | None \<Rightarrow> Pure ())"

definition unregisterRefreshSession :: "jwt_env \<Rightarrow> string \<Rightarrow> string \<Rightarrow> unit io" where
  "unregisterRefreshSession env userId token =
     bind (verify_jwt env token) (\<lambda>d.
       case d of
         Some d \<Rightarrow>
           (case jd_exp d of
              Some e \<Rightarrow>
                if jd_type d = Some ''refresh'' \<and> e \<noteq> 0 then cacheSetRemove (sessions_key userId) (member_text env token e) else Pure ()
            | None \<Rightarrow> Pure ())
       | None \<Rightarrow> Pure ())"

text \<open>The text before and after the last colon.\<close>

fun split_last_colon :: "string \<Rightarrow> (string \<times> string) option" where
  "split_last_colon [] = None"
| "split_last_colon (c # cs) =
     (case split_last_colon cs of
        Some (a, b) \<Rightarrow> Some (c # a, b)
      | None \<Rightarrow> if c = CHR '':'' then Some ([], cs) else None)"

text \<open>\<^verbatim>\<open>Number\<close> of the decimal digits the index holds; the empty text is zero.\<close>

definition number_text :: "string \<Rightarrow> int option" where
  "number_text s = (if list_all is_digit s then Some (int (nat_of_digits s)) else None)"

definition parse_member :: "string \<Rightarrow> (string \<times> int) option" where
  "parse_member m =
     (case split_last_colon m of
        Some (h, e) \<Rightarrow> if h = [] then None else (case number_text e of Some n \<Rightarrow> Some (h, n) | None \<Rightarrow> None)
      | None \<Rightarrow> None)"

fun deny_members :: "string list \<Rightarrow> int \<Rightarrow> int \<Rightarrow> (revocation_error, int) result io" where
  "deny_members [] now revoked = Pure (Return revoked)"
| "deny_members (m # ms) now revoked =
     (case parse_member m of
        None \<Rightarrow> deny_members ms now revoked
      | Some (h, e) \<Rightarrow>
          if e - now \<le> 0 then deny_members ms now revoked
          else bind (cacheSetStrict (deny_hash_key h) True_text (e - now)) (\<lambda>r.
            case r of Inl _ \<Rightarrow> Pure (Throw Revocation_unavailable) | Inr _ \<Rightarrow> deny_members ms now (revoked + 1)))"

definition revokeUserSessions :: "string \<Rightarrow> (revocation_error, int) result io" where
  "revokeUserSessions userId =
     bind (cacheSetMembers (sessions_key userId)) (\<lambda>members.
     bind now_seconds (\<lambda>now.
     next_try (deny_members members now 0) (\<lambda>revoked.
     bind (cacheDelStrict (sessions_key userId)) (\<lambda>r.
       Pure (case r of Inl _ \<Rightarrow> Throw Revocation_unavailable | Inr _ \<Rightarrow> Return revoked)))))"

section \<open>Revoking everything a person holds\<close>

definition revokeAllSessions :: "string \<Rightarrow> string option \<Rightarrow> (revocation_error, int) result io" where
  "revokeAllSessions userId except =
     bind (next_try (redis (ZRANGE (idx_key userId))) (\<lambda>members. revoke_records (idx_key userId) except (names_of members) 0)) (\<lambda>sweep.
     bind (if present except then Pure (Return 0) else revokeUserSessions userId) (\<lambda>denied.
       Pure (case (sweep, denied) of (Inr revoked, Inr _) \<Rightarrow> Return revoked | _ \<Rightarrow> Throw Revocation_unavailable)))"

definition denylistUser :: "string \<Rightarrow> int \<Rightarrow> unit io" where
  "denylistUser userId ttl = cacheSet (denylistKey userId) One_text ttl"

definition isUserDenied :: "string \<Rightarrow> bool io" where
  "isUserDenied userId = bind (cacheGet (denylistKey userId)) (\<lambda>hit. Pure (hit \<noteq> None))"

end
