(* ===== verification/Session_Routes.thy ===== *)
theory Session_Routes
  imports Refresh_Tokens
begin

text \<open>
  The places that ask whether a session is alive: the refresh and logout handlers of \<^verbatim>\<open>routes/auth.ts\<close>, and the part
  of \<^verbatim>\<open>authMiddleware\<close> and \<^verbatim>\<open>validateTokenForWs\<close> (\<^verbatim>\<open>middleware/auth.ts\<close>) that admits a verified access token.
  A reply says what the client is told and what happens to its cookies.  Rate limits, logging and the cookies'
  attributes are left out; the Nextcloud token slot is an action.
\<close>

section \<open>Refresh\<close>

datatype refresh_outcome =
    No_refresh_token
  | Session_expired string
  | Rotation_in_flight
  | User_not_provisioned
  | Rotated string string
  | Oauth2_rotated
  | Oauth2_refused
  | Invalid_refresh_token
  | Forwarded_error

datatype cookies = Cookies_kept | Cookies_cleared | Cookies_set

record refresh_reply =
  rr_outcome :: refresh_outcome
  rr_cookies :: cookies
  rr_in_body :: bool

definition reply :: "refresh_outcome \<Rightarrow> cookies \<Rightarrow> refresh_reply io" where
  "reply out c = Pure \<lparr>rr_outcome = out, rr_cookies = c, rr_in_body = False\<rparr>"

text \<open>Burning the presented token before an answer; a refused write is forwarded as an error.\<close>

definition burn_then :: "jwt_env \<Rightarrow> string \<Rightarrow> refresh_reply io \<Rightarrow> refresh_reply io" where
  "burn_then env token k =
     bind (denyRefreshToken env token) (\<lambda>r. case r of Inl _ \<Rightarrow> reply Forwarded_error Cookies_kept | Inr _ \<Rightarrow> k)"

definition token_text :: "answer \<Rightarrow> string" where
  "token_text r = (case r of Token s \<Rightarrow> s | _ \<Rightarrow> [])"

text \<open>The rotation itself, for a usable user row.\<close>

definition rotate :: "jwt_env \<Rightarrow> string \<Rightarrow> token_claims \<Rightarrow> user_row \<Rightarrow> bool \<Rightarrow> refresh_reply io" where
  "rotate env token c row wantBody =
     (let effectiveRole = (case ur_role row of Some r \<Rightarrow> r | None \<Rightarrow> tc_role c) in
      burn_then env token
        (bind (unregisterRefreshSession env (tc_sub c) token) (\<lambda>_.
         Do (Sign (c\<lparr>tc_type := ''refresh'', tc_role := effectiveRole, tc_accessRoleId := None\<rparr>)) (\<lambda>new.
         Do (Sign (c\<lparr>tc_type := ''access'', tc_role := effectiveRole, tc_accessRoleId := Some (ur_accessRoleId row)\<rparr>)) (\<lambda>access.
         bind (registerRefreshSession env (tc_sub c) (token_text new)) (\<lambda>_.
         Do (Touch_nc_token (tc_sub c)) (\<lambda>_.
           Pure \<lparr>rr_outcome = Rotated (token_text access) (token_text new),
                 rr_cookies = (if wantBody then Cookies_kept else Cookies_set), rr_in_body = wantBody\<rparr>)))))))"

definition claim_and_rotate :: "jwt_env \<Rightarrow> string \<Rightarrow> token_claims \<Rightarrow> bool \<Rightarrow> refresh_reply io" where
  "claim_and_rotate env token c wantBody =
     bind (claimRefreshRotation env token) (\<lambda>claimed.
       if \<not> claimed then reply Rotation_in_flight Cookies_kept
       else if \<not> je_prisma env then burn_then env token (reply User_not_provisioned Cookies_cleared)
       else Do (Find_user (tc_sub c)) (\<lambda>found.
         case found of
           Row (Some row) \<Rightarrow>
             if ur_deactivated row then burn_then env token (reply User_not_provisioned Cookies_cleared)
             else rotate env token c row wantBody
         | Row None \<Rightarrow> burn_then env token (reply User_not_provisioned Cookies_cleared)
         | _ \<Rightarrow> reply Forwarded_error Cookies_kept))"

text \<open>The check of the session behind the token; an automatic refresh does not slide the idle clock.\<close>

definition refresh_check :: "session_config \<Rightarrow> token_claims \<Rightarrow> session_check io" where
  "refresh_check cfg c =
     (case tc_sid c of Some sid \<Rightarrow> if sid = [] then Pure Missing else checkSession cfg sid False | None \<Rightarrow> Pure Missing)"

definition refresh_session :: "jwt_env \<Rightarrow> session_config \<Rightarrow> string \<Rightarrow> token_claims \<Rightarrow> bool \<Rightarrow> refresh_reply io" where
  "refresh_session env cfg token c wantBody =
     bind (refresh_check cfg c) (\<lambda>check.
       if check \<in> {Missing, Expired_idle, Expired_absolute}
       then burn_then env token (reply (Session_expired
              (case check of Expired_idle \<Rightarrow> ''idle_timeout'' | Expired_absolute \<Rightarrow> ''absolute_timeout'' | _ \<Rightarrow> ''revoked'')) Cookies_cleared)
       else claim_and_rotate env token c wantBody)"

definition postRefresh :: "jwt_env \<Rightarrow> session_config \<Rightarrow> string option \<Rightarrow> string option \<Rightarrow> bool \<Rightarrow> refresh_reply io" where
  "postRefresh env cfg body cookie browser =
     (case (case body of Some t \<Rightarrow> Some t | None \<Rightarrow> cookie) of
        None \<Rightarrow> reply No_refresh_token Cookies_kept
      | Some token \<Rightarrow>
          if token = [] then reply No_refresh_token Cookies_kept
          else bind (verifyRefreshToken env token) (\<lambda>c.
            case c of
              Some c \<Rightarrow> refresh_session env cfg token c (body \<noteq> None \<and> \<not> browser)
            | None \<Rightarrow>
                if je_oauth2 env
                then Do (Oauth2_refresh token) (\<lambda>r. case r of Token _ \<Rightarrow> reply Oauth2_rotated Cookies_set | _ \<Rightarrow> reply Oauth2_refused Cookies_cleared)
                else reply Invalid_refresh_token Cookies_cleared))"

section \<open>Admitting an access token\<close>

datatype admission = Admitted bool | Session_revoked | Session_ended string

text \<open>A verified access token of \<open>sub\<close>; the flag tells whether its session was confirmed.\<close>

definition admitAccess :: "session_config \<Rightarrow> string \<Rightarrow> string option \<Rightarrow> admission io" where
  "admitAccess cfg sub sid =
     bind (isUserDenied sub) (\<lambda>denied.
       if denied then Pure Session_revoked
       else (case sid of
           None \<Rightarrow> Pure (Admitted False)
         | Some s \<Rightarrow>
             if s = [] then Pure (Admitted False)
             else bind (checkSession cfg s True) (\<lambda>check. Pure
               (case check of
                  Ok _ \<Rightarrow> Admitted True
                | Check_error \<Rightarrow> Admitted False
                | Expired_idle \<Rightarrow> Session_ended ''idle_timeout''
                | Expired_absolute \<Rightarrow> Session_ended ''absolute_timeout''
                | Missing \<Rightarrow> Session_ended ''revoked''))))"

definition validateForWs :: "session_config \<Rightarrow> string \<Rightarrow> string option \<Rightarrow> bool \<Rightarrow> bool io" where
  "validateForWs cfg sub sid touch =
     bind (isUserDenied sub) (\<lambda>denied.
       if denied then Pure False
       else (case sid of
           None \<Rightarrow> Pure True
         | Some s \<Rightarrow>
             if s = [] then Pure True
             else bind (checkSession cfg s touch) (\<lambda>check. Pure (case check of Ok _ \<Rightarrow> True | Check_error \<Rightarrow> True | _ \<Rightarrow> False))))"

section \<open>Logout\<close>

text \<open>The caller's id and session id, the refresh cookie, its session token and whether that is a verified JWT.\<close>

definition postLogout ::
  "jwt_env \<Rightarrow> string option \<Rightarrow> string option \<Rightarrow> string option \<Rightarrow> string option \<Rightarrow> bool \<Rightarrow> (revocation_error, unit) result io" where
  "postLogout env userId sid refreshToken sessionToken isJwt =
     next_try
       (if present refreshToken
        then next_try (denyRefreshToken env (the refreshToken)) (\<lambda>_.
             if present userId then bind (unregisterRefreshSession env (the userId) (the refreshToken)) (\<lambda>_. Pure (Return ())) else Pure (Return ()))
        else Pure (Return ())) (\<lambda>_.
     bind (if present userId \<and> present sid then deleteSession (the userId) (the sid) else Pure ()) (\<lambda>_.
     bind (if present sessionToken \<and> isJwt \<and> present userId
           then bind (countLiveSessions (the userId)) (\<lambda>remaining.
                if remaining = None \<or> remaining = Some 0 then Do (Revoke_app_password (the userId)) (\<lambda>_. Pure ()) else Pure ())
           else if present sessionToken then Do (Revoke_app_password (the sessionToken)) (\<lambda>_. Pure ())
           else Pure ()) (\<lambda>_.
     bind (record_activity (Signed_out userId)) (\<lambda>_. Pure (Return ())))))"

end
