(* ===== verification/Session_Log.thy ===== *)
theory Session_Log
  imports Session_Routes
begin

text \<open>
  What any interleaving of the session programs keeps true of Redis: a session record is written first by the login
  that drew its id, later only by requests that read it, and never loses its person, role and time of login; a
  record that was deleted stays away until it is written again.
\<close>

section \<open>The system\<close>

datatype session_op =
    Op_login string role
  | Op_admit string "string option"
  | Op_ws string "string option" bool
  | Op_refresh "string option" "string option" bool
  | Op_logout "string option" "string option" "string option" "string option" bool
  | Op_revoke string "string option"
  | Op_denylist string int
  | Op_register string string
  | Op_deadline string
  | Op_list string

definition discard :: "'a io \<Rightarrow> unit io" where
  "discard p = bind p (\<lambda>_. Pure ())"

fun program_of :: "jwt_env \<Rightarrow> session_config \<Rightarrow> session_op \<Rightarrow> unit io" where
  "program_of env cfg (Op_login userId r) = discard (createSession cfg userId r)"
| "program_of env cfg (Op_admit sub sid) = discard (admitAccess cfg sub sid)"
| "program_of env cfg (Op_ws sub sid touch) = discard (validateForWs cfg sub sid touch)"
| "program_of env cfg (Op_refresh body cookie browser) = discard (postRefresh env cfg body cookie browser)"
| "program_of env cfg (Op_logout userId sid token session isJwt) = discard (postLogout env userId sid token session isJwt)"
| "program_of env cfg (Op_revoke userId except) = discard (revokeAllSessions userId except)"
| "program_of env cfg (Op_denylist userId ttl) = discard (denylistUser userId ttl)"
| "program_of env cfg (Op_register userId token) = discard (registerRefreshSession env userId token)"
| "program_of env cfg (Op_deadline sid) = discard (readSessionDeadline cfg sid)"
| "program_of env cfg (Op_list userId) = discard (listUserSessions userId)"

section \<open>Which actions a program may take\<close>

definition id_of :: "answer \<Rightarrow> string" where
  "id_of r = (case r of Fresh s \<Rightarrow> s | _ \<Rightarrow> [])"

definition time_of :: "answer \<Rightarrow> int" where
  "time_of r = (case r of Time t \<Rightarrow> t | _ \<Rightarrow> 0)"

definition same_login :: "session_record \<Rightarrow> session_record \<Rightarrow> bool" where
  "same_login a b \<longleftrightarrow> sr_userId a = sr_userId b \<and> sr_role a = sr_role b \<and> sr_createdAt a = sr_createdAt b"

definition is_create :: "string \<Rightarrow> action \<Rightarrow> bool" where
  "is_create sid a = (case a of Redis (SET_EX k v n) \<Rightarrow> k = rec_key sid | _ \<Rightarrow> False)"

definition is_touch :: "string \<Rightarrow> action \<Rightarrow> bool" where
  "is_touch sid a = (case a of Redis (SET_KEEPTTL k v) \<Rightarrow> k = rec_key sid | _ \<Rightarrow> False)"

definition session_write :: "trace \<Rightarrow> action \<Rightarrow> bool" where
  "session_write h a =
     (case a of
        Redis (SET_KEEPTTL k v) \<Rightarrow>
          (\<exists>r t sid. k = rec_key sid \<and> v = Session_text (r\<lparr>sr_lastSeenAt := t\<rparr>) \<and> (Redis (GET k), Text (Session_text r)) \<in> set h)
      | Redis (SET_EX k v n) \<Rightarrow>
          (\<forall>sid. k = rec_key sid \<longrightarrow> (\<exists>r y. v = Session_text r \<and> (Clock, y) \<in> set h \<and> sr_createdAt r = time_of y) \<and> (\<exists>x. (Random_id, x) \<in> set h \<and> sid = id_of x)
             \<and> (\<forall>e\<in>set h. \<not> is_create sid (fst e)))
      | Redis (SET_NX_EX k v n) \<Rightarrow> (\<forall>sid. k \<noteq> rec_key sid)
      | Redis (ZADD k s m) \<Rightarrow> (\<exists>e\<in>set h. is_create m (fst e))
      | _ \<Rightarrow> True)"

text \<open>The expiry of a token, as the program learnt it: from the token itself, or from the index.\<close>

definition token_expiry :: "jwt_env \<Rightarrow> trace \<Rightarrow> string \<Rightarrow> int \<Rightarrow> bool" where
  "token_expiry env h token e \<longleftrightarrow> (\<exists>y d. (Clock, y) \<in> set h \<and> je_verify env token (time_of y) = Some d \<and> jd_exp d = Some e)"

definition known_expiry :: "jwt_env \<Rightarrow> trace \<Rightarrow> string \<Rightarrow> int \<Rightarrow> bool" where
  "known_expiry env h x e \<longleftrightarrow>
     (\<exists>token. x = je_sha env token \<and> token_expiry env h token e)
     \<or> (\<exists>k a m. (Redis (SMEMBERS k), a) \<in> set h \<and> m \<in> set (names_of a) \<and> parse_member m = Some (x, e))"

definition token_write :: "jwt_env \<Rightarrow> trace \<Rightarrow> action \<Rightarrow> bool" where
  "token_write env h a =
     (case a of
        Redis (SET_EX k v n) \<Rightarrow>
          (\<forall>x. k = deny_hash_key x \<longrightarrow> (\<exists>e y. (Clock, y) \<in> set h \<and> n = e - time_of y \<and> known_expiry env h x e))
      | Redis (SET_NX_EX k v n) \<Rightarrow> (\<exists>token. k = deny_key env token) \<and> n = 30
      | Redis (SET_KEEPTTL k v) \<Rightarrow> (\<forall>x. k \<noteq> deny_hash_key x)
      | Redis (DEL k) \<Rightarrow> (\<forall>x. k \<noteq> deny_hash_key x)
      | Redis (EXPIRE_NX k n) \<Rightarrow> (\<forall>x. k \<noteq> deny_hash_key x)
      | Redis (EXPIRE_GT k n) \<Rightarrow> (\<forall>x. k \<noteq> deny_hash_key x)
      | Redis (SADD k m) \<Rightarrow> (\<exists>token e. m = member_text env token e \<and> token_expiry env h token e)
      | _ \<Rightarrow> True)"

definition may :: "jwt_env \<Rightarrow> trace \<Rightarrow> action \<Rightarrow> bool" where
  "may env h a \<longleftrightarrow> session_write h a \<and> token_write env h a"

abbreviation allowed :: "jwt_env \<Rightarrow> trace \<Rightarrow> 'a io \<Rightarrow> bool" where
  "allowed env h p \<equiv> always (may env) (\<lambda>_ _. True) h p"

lemma always_anyI:
  assumes "\<And>h. allowed env h m" "\<And>h x. Q h x"
  shows "always (may env) Q h m"
  by (rule always_mono [OF assms(1)]) (use assms(2) in simp_all)

lemma rec_key_inj [simp]: "rec_key a = rec_key b \<longleftrightarrow> a = b"
  by (simp add: rec_key_def)

lemma other_keys [simp]:
  "deny_hash_key x \<noteq> rec_key s" "denylistKey u \<noteq> rec_key s" "sessions_key u \<noteq> rec_key s" "idx_key u \<noteq> rec_key s"
  "rec_key s \<noteq> idx_key u" "rec_key s \<noteq> deny_hash_key x" "sessions_key u \<noteq> deny_hash_key x" "idx_key u \<noteq> deny_hash_key x"
  "denylistKey u \<noteq> deny_hash_key x" "deny_hash_key x = deny_hash_key y \<longleftrightarrow> x = y"
  by (simp_all add: deny_hash_key_def REFRESH_DENYLIST_PREFIX_def rec_key_def denylistKey_def sessions_key_def idx_key_def
      SESSION_KEY_PREFIX_def SESSION_INDEX_PREFIX_def)

lemma other_deny_keys [simp]: "deny_key env t \<noteq> rec_key s"
  by (simp add: deny_key_def)

lemma harmless [simp]:
  "may env h (Redis (GET k))" "may env h (Redis (DEL (rec_key s)))" "may env h (Redis (DEL (sessions_key u)))" "may env h (Redis (EXISTS k))"
  "may env h (Redis (EXPIRE_NX (idx_key u) n))" "may env h (Redis (EXPIRE_GT (idx_key u) n))" "may env h (Redis (ZRANGE k))"
  "may env h (Redis (EXPIRE_NX (sessions_key u) n))" "may env h (Redis (EXPIRE_GT (sessions_key u) n))"
  "may env h (Redis (ZREM k m))" "may env h (Redis (SREM k m))"
  "may env h (Redis (SMEMBERS k))" "may env h Clock" "may env h Random_id" "may env h (Activity a)"
  "may env h (Find_user u)" "may env h (Sign c)" "may env h (Touch_nc_token u)" "may env h (Oauth2_refresh u)"
  "may env h (Revoke_app_password u)" "may env h (Redis (SET_NX_EX (deny_key env t) v 30))" "may env h (Redis (SET_EX (denylistKey u) v n))"
  by (auto simp: may_def session_write_def token_write_def)

lemma may_deny:
  assumes "(Clock, y) \<in> set h" "known_expiry env h x e" "n = e - time_of y"
  shows "may env h (Redis (SET_EX (deny_hash_key x) v n))"
  using assms by (auto simp: may_def session_write_def token_write_def)

lemma may_index: "token_expiry env h token e \<Longrightarrow> may env h (Redis (SADD k (member_text env token e)))"
  by (auto simp: may_def session_write_def token_write_def)

lemma known_expiry_more: "known_expiry env h x e \<Longrightarrow> set h \<subseteq> set h' \<Longrightarrow> known_expiry env h' x e"
  unfolding known_expiry_def token_expiry_def by blast

lemma always_now [simp]: "always P Q h now_seconds = (P h Clock \<and> (\<forall>r. Q (h @ [(Clock, r)]) (time_of r)))"
  by (simp add: now_seconds_def time_of_def)

lemma always_activity [simp]: "always P Q h (record_activity a) = (P h (Activity a) \<and> (\<forall>r. Q (h @ [(Activity a, r)]) ()))"
  by (simp add: record_activity_def)

lemma allowed_live_members: "allowed env h (live_members idx ms acc)"
  by (induction idx ms acc arbitrary: h rule: live_members.induct) (auto split: sum.splits)

lemma allowed_evict: "allowed env h (evict_oldest idx sid cap live evicted)"
  by (induction idx sid cap live evicted arbitrary: h rule: evict_oldest.induct) auto

lemma allowed_audit: "allowed env h (audit_evictions userId cap sids)"
  by (induction userId cap sids arbitrary: h rule: audit_evictions.induct) auto

lemma allowed_summaries: "allowed env h (session_summaries idx sids out)"
  by (induction idx sids out arbitrary: h rule: session_summaries.induct) (auto split: answer.splits redis_text.splits)

lemma allowed_revoke_records: "allowed env h (revoke_records idx except sids n)"
  by (induction idx except sids n arbitrary: h rule: revoke_records.induct) auto

lemma allowed_deny_members:
  "(Clock, y) \<in> set h \<Longrightarrow> now = time_of y \<Longrightarrow> (Redis (SMEMBERS k), a) \<in> set h \<Longrightarrow> set ms \<subseteq> set (names_of a)
   \<Longrightarrow> allowed env h (deny_members ms now n)"
proof (induction ms arbitrary: h n)
  case (Cons m ms)
  have "may env h (Redis (SET_EX (deny_hash_key x) v (e - now)))" if "parse_member m = Some (x, e)" for x e v
    using Cons.prems that by (intro may_deny [of y]) (auto simp: known_expiry_def)
  with Cons show ?case by (simp add: cacheSetStrict_def split: option.splits)
qed simp

lemma always_option: "always P Q h (case x of None \<Rightarrow> p | Some y \<Rightarrow> f y) = (case x of None \<Rightarrow> always P Q h p | Some y \<Rightarrow> always P Q h (f y))"
  by (simp split: option.splits)

lemma always_if: "always P Q h (if b then p else q) = (if b then always P Q h p else always P Q h q)"
  by simp

lemma allowed_destroy [simp]: "allowed env h (destroyRecord userId sid)"
  by (simp add: destroyRecord_def)

lemma allowed_check: "allowed env h (checkSession cfg sid touch)"
proof -
  have "may env (h @ [(Redis (GET (rec_key sid)), Text (Session_text r)), (Clock, x)])
      (Redis (SET_KEEPTTL (rec_key sid) (Session_text (r\<lparr>sr_lastSeenAt := t\<rparr>))))" for r x t
    by (auto simp: may_def session_write_def token_write_def)
  then show ?thesis
    by (auto simp: checkSession_def Let_def intro!: always_anyI [OF allowed_destroy] split: answer.splits redis_text.splits)
qed

lemma allowed_verify [simp]: "allowed env h (verify_jwt env token)"
  by (simp add: verify_jwt_def)

lemma allowed_cacheGet [simp]: "allowed env h (cacheGet k)"
  by (simp add: cacheGet_def)

lemma allowed_deny [simp]: "allowed env h (denyRefreshToken env token)"
proof -
  have "may env (h @ [(Clock, x), (Clock, y)]) (Redis (SET_EX (deny_key env token) v (e - time_of y)))"
    if "je_verify env token (time_of x) = Some d" "jd_exp d = Some e" for x y v e d
    unfolding deny_key_def using that by (intro may_deny [of y]) (auto simp: known_expiry_def token_expiry_def)
  then show ?thesis
    by (auto simp: denyRefreshToken_def verify_jwt_def cacheSetStrict_def split: option.splits sum.splits)
qed

lemma allowed_verifyRefresh [simp]: "allowed env h (verifyRefreshToken env token)"
  by (auto simp: verifyRefreshToken_def verify_jwt_def cacheGet_def split: option.splits)

lemma allowed_claim [simp]: "allowed env h (claimRefreshRotation env token)"
  by (simp add: claimRefreshRotation_def cacheSetNx_def)

lemma allowed_register [simp]: "allowed env h (registerRefreshSession env userId token)"
proof -
  have "may env (h @ [(Clock, x), (Clock, y)]) (Redis (SADD k (member_text env token e)))"
    if "je_verify env token (time_of x) = Some d" "jd_exp d = Some e" for x y k e d
    using that by (intro may_index) (auto simp: token_expiry_def)
  then show ?thesis
    by (auto simp: registerRefreshSession_def verify_jwt_def cacheSetAdd_def split: option.splits)
qed

lemma allowed_unregister [simp]: "allowed env h (unregisterRefreshSession env userId token)"
  by (auto simp: unregisterRefreshSession_def verify_jwt_def cacheSetRemove_def split: option.splits)

lemma allowed_revokeUser [simp]: "allowed env h (revokeUserSessions userId)"
proof -
  have "allowed env (h @ [(Redis (SMEMBERS (sessions_key userId)), a), (Clock, y)]) (deny_members (names_of a) (time_of y) 0)" for a y
    by (rule allowed_deny_members) auto
  then have "always (may env) (\<lambda>h r. case r of Inl e \<Rightarrow> True | Inr x \<Rightarrow> True)
      (h @ [(Redis (SMEMBERS (sessions_key userId)), a), (Clock, y)]) (deny_members (names_of a) (time_of y) 0)" for a y
    by (rule always_mono) (auto split: sum.splits)
  then show ?thesis
    by (simp add: revokeUserSessions_def cacheSetMembers_def cacheDelStrict_def)
qed

lemma allowed_revokeAll: "allowed env h (revokeAllSessions userId except)"
  by (auto simp: revokeAllSessions_def intro!: always_anyI [OF allowed_revoke_records] always_anyI [OF allowed_revokeUser] split: sum.splits)

lemma allowed_burn: "(\<And>h. allowed env h k) \<Longrightarrow> allowed env h (burn_then env token k)"
  by (auto simp: burn_then_def reply_def intro!: always_anyI [OF allowed_deny] split: sum.splits)

lemma allowed_reply [simp]: "allowed env h (reply out c)"
  by (simp add: reply_def)

lemma allowed_rotate: "allowed env h (rotate env token c row wantBody)"
  unfolding rotate_def Let_def
  by (intro allowed_burn) (auto intro!: always_anyI [OF allowed_unregister] always_anyI [OF allowed_register])

lemma allowed_claim_and_rotate: "allowed env h (claim_and_rotate env token c wantBody)"
  unfolding claim_and_rotate_def always_bind
  by (intro always_anyI [OF allowed_claim]) (auto intro!: allowed_burn allowed_rotate split: answer.splits option.splits)

lemma allowed_refresh_check: "allowed env h (refresh_check cfg c)"
  by (simp add: refresh_check_def allowed_check split: option.splits)

lemma allowed_refresh_session: "allowed env h (refresh_session env cfg token c wantBody)"
  unfolding refresh_session_def always_bind
  by (rule always_anyI [OF allowed_refresh_check]) (simp only: always_if allowed_claim_and_rotate allowed_burn allowed_reply if_cancel)

lemma allowed_postRefresh: "allowed env h (postRefresh env cfg body cookie browser)"
  by (auto simp: postRefresh_def intro!: always_anyI [OF allowed_verifyRefresh] allowed_refresh_session split: option.splits answer.splits)

lemma allowed_denied [simp]: "allowed env h (isUserDenied u)"
  by (simp add: isUserDenied_def cacheGet_def)

lemma allowed_admit: "allowed env h (admitAccess cfg sub sid)"
  by (auto simp: admitAccess_def intro!: always_anyI [OF allowed_denied] always_anyI [OF allowed_check] split: option.splits)

lemma allowed_ws: "allowed env h (validateForWs cfg sub sid touch)"
  by (auto simp: validateForWs_def intro!: always_anyI [OF allowed_denied] always_anyI [OF allowed_check] split: option.splits)

lemma allowed_count [simp]: "allowed env h (countLiveSessions u)"
  by (auto simp: countLiveSessions_def intro!: always_anyI [OF allowed_live_members] split: sum.splits)

lemma allowed_list: "allowed env h (listUserSessions u)"
  by (auto simp: listUserSessions_def intro!: always_anyI [OF allowed_summaries] split: sum.splits)

lemma allowed_create: "allowed env [] (createSession cfg userId r)"
proof -
  let ?v = "\<lambda>x y. Session_text \<lparr>sr_userId = userId, sr_role = r, sr_createdAt = time_of y, sr_lastSeenAt = time_of y\<rparr>"
  have 1: "may env [(Random_id, x), (Clock, y)] (Redis (SET_EX (rec_key (id_of x)) (?v x y) n))" for x y n
    by (auto simp: may_def session_write_def token_write_def is_create_def)
  have 2: "may env [(Random_id, x), (Clock, y), (Redis (SET_EX (rec_key (id_of x)) v n), z)] (Redis (ZADD k s (id_of x)))" for x y z v n k s
    by (auto simp: may_def session_write_def token_write_def is_create_def)
  show ?thesis
    unfolding createSession_def id_of_def [symmetric] Let_def
    by (auto intro!: 1 2 always_anyI [OF allowed_live_members] always_anyI [OF allowed_evict] always_anyI [OF allowed_audit] split: sum.splits)
qed


lemma program_allowed: "allowed env [] (program_of env cfg op)"
proof (cases op)
  case (Op_logout userId sid token session isJwt)
  have "allowed env h (postLogout env userId sid token session isJwt)" for h
    unfolding postLogout_def deleteSession_def
    by (auto intro!: always_anyI [OF allowed_deny] always_anyI [OF allowed_unregister] always_anyI [OF allowed_destroy]
        always_anyI [OF allowed_count] split: sum.splits)
  then show ?thesis using Op_logout by (simp add: discard_def)
qed (simp_all add: discard_def allowed_create allowed_admit allowed_ws allowed_postRefresh allowed_revokeAll allowed_list
    denylistUser_def cacheSet_def readSessionDeadline_def)

section \<open>Facts of the log\<close>

lemma world_prefix: "world (log @ log') t ks \<Longrightarrow> \<exists>t0 ks0. world log t0 ks0"
proof (induction log' arbitrary: t ks rule: rev_induct)
  case (snoc e log')
  from snoc.prems show ?case
    by (cases rule: world.cases) (auto simp flip: append_assoc intro: snoc.IH)
qed auto

lemma world_entry:
  assumes "world (log @ (i, t, a, r) # log') t1 ks1"
  shows "\<exists>t0 ks0 ks. world log t0 ks0 \<and> t0 \<le> t \<and> answered t a log ks0 r ks \<and> world (log @ [(i, t, a, r)]) t ks"
proof -
  have "world ((log @ [(i, t, a, r)]) @ log') t1 ks1" using assms by simp
  from world_prefix [OF this] obtain t0 ks0 where w: "world (log @ [(i, t, a, r)]) t0 ks0" by blast
  then show ?thesis by (cases rule: world.cases) (auto intro: w world_step)
qed

lemma own_member: "(a, r) \<in> set (own i log) \<longleftrightarrow> (\<exists>t. (i, t, a, r) \<in> set log)"
  by (force simp: own_def)

lemma random_is_fresh:
  "world log t ks \<Longrightarrow> (i, t', Random_id, r) \<in> set log \<Longrightarrow> \<exists>s. r = Fresh s"
  by (induction rule: world.induct) auto

lemma fresh_is_unique:
  "world log t ks \<Longrightarrow> (i, t1, Random_id, Fresh s) \<in> set log \<Longrightarrow> (j, t2, Random_id, Fresh s) \<in> set log \<Longrightarrow> i = j"
  by (induction rule: world.induct) force+

lemma clock_is_time: "world log t ks \<Longrightarrow> (i, t', Clock, r) \<in> set log \<Longrightarrow> r = Time t'"
  by (induction rule: world.induct) auto

lemma world_time: "world log t ks \<Longrightarrow> (i, t', a, r) \<in> set log \<Longrightarrow> t' \<le> t"
  by (induction rule: world.induct) fastforce+

section \<open>The effect of a command on a record\<close>

lemma expire_text: "ks_text (expire_key t k ks) k' = (if k' = k \<and> \<not> live_at t ks k then None else ks_text ks k')"
  by (simp add: expire_key_def clear_key_def)

lemma effect_text:
  "ks_text (snd (command_effect t c ks)) k =
     (case c of
        SET_EX k' v n \<Rightarrow> if k' = k then Some v else ks_text ks k
      | SET_KEEPTTL k' v \<Rightarrow> if k' = k then Some v else ks_text ks k
      | SET_NX_EX k' v n \<Rightarrow> if k' = k \<and> \<not> has_key ks k then Some v else ks_text ks k
      | DEL k' \<Rightarrow> if k' = k then None else ks_text ks k
      | _ \<Rightarrow> ks_text ks k)"
  by (cases c) (auto simp: put_text_def clear_key_def drop_empty_def has_key_def split: option.splits)

lemma redis_text_after:
  assumes "redis_answers t c ks r ks'"
  shows "ks_text ks' k = ks_text ks k \<or> ks_text ks' k = None
    \<or> (\<exists>v n. c = SET_EX k v n \<and> ks_text ks' k = Some v) \<or> (\<exists>v. c = SET_KEEPTTL k v \<and> ks_text ks' k = Some v)
    \<or> (\<exists>v n. c = SET_NX_EX k v n \<and> ks_text ks' k = Some v)"
proof -
  have "ks' = ks \<or> ks' = snd (redis_does t c ks)"
    using assms unfolding redis_answers_def by (metis snd_conv)
  then show ?thesis
  proof
    assume "ks' = snd (redis_does t c ks)"
    then have "ks_text ks' k = ks_text (snd (command_effect t c (expire_key t (key_of c) ks))) k" by (simp add: redis_does_def)
    then show ?thesis
      unfolding effect_text expire_text by (cases c) (simp_all split: if_splits)
  qed simp
qed

lemma redis_get:
  assumes "redis_answers t (GET k) ks r ks'"
  shows "r = Failed \<or> r = Nil_reply \<or> (\<exists>v. r = Text v \<and> ks_text ks k = Some v)"
  using assms by (auto simp: redis_answers_def redis_does_def expire_text split: option.splits if_splits)


section \<open>Every record goes back to its login\<close>

abbreviation system :: "jwt_env \<Rightarrow> session_config \<Rightarrow> (nat \<Rightarrow> session_op) \<Rightarrow> entry list \<Rightarrow> bool" where
  "system env cfg ops log \<equiv> follows (\<lambda>i. program_of env cfg (ops i)) log"

abbreviation action_of :: "entry \<Rightarrow> action" where
  "action_of e \<equiv> fst (snd (snd e))"

definition created :: "entry list \<Rightarrow> string \<Rightarrow> session_record \<Rightarrow> bool" where
  "created log sid r0 \<longleftrightarrow> (\<exists>i t n x. (i, t, Redis (SET_EX (rec_key sid) (Session_text r0) n), x) \<in> set log)"

lemma created_append [simp]: "created log sid r0 \<Longrightarrow> created (log @ log') sid r0"
  by (auto simp: created_def)

lemma system_may: "system env cfg ops (log @ [(i, t, a, r)]) \<Longrightarrow> may env (own i log) a"
  by (rule follows_action [OF _ program_allowed]) simp

lemma system_write: "system env cfg ops (log @ [(i, t, a, r)]) \<Longrightarrow> session_write (own i log) a"
  using system_may unfolding may_def by blast

lemma is_createE:
  assumes "is_create sid a"
  obtains v n where "a = Redis (SET_EX (rec_key sid) v n)"
  using assms by (auto simp: is_create_def split: action.splits command.splits)

lemma create_write:
  assumes "session_write h a" "is_create sid a"
  shows "(\<exists>r n y. a = Redis (SET_EX (rec_key sid) (Session_text r) n) \<and> (Clock, y) \<in> set h \<and> sr_createdAt r = time_of y)
    \<and> (\<exists>x. (Random_id, x) \<in> set h \<and> sid = id_of x)
    \<and> (\<forall>e\<in>set h. \<not> is_create sid (fst e))"
  using assms by (elim is_createE) (auto simp: session_write_def)

lemma create_drew_id:
  "world log t ks \<Longrightarrow> system env cfg ops log \<Longrightarrow> (i, t1, a, r) \<in> set log \<Longrightarrow> is_create sid a
   \<Longrightarrow> \<exists>t0. (i, t0, Random_id, Fresh sid) \<in> set log"
proof (induction arbitrary: i t1 a r rule: world.induct)
  case (world_step log t ks t' a' r' ks' j)
  note pre = follows_prefix [OF world_step.prems(1)]
  show ?case
  proof (cases "(i, t1, a, r) \<in> set log")
    case True
    with world_step.IH [OF pre True world_step.prems(3)] show ?thesis by auto
  next
    case False
    then have e: "i = j" "a = a'" using world_step.prems(2) by auto
    have "is_create sid a'" using world_step.prems(3) e(2) by simp
    from create_write [OF system_write [OF world_step.prems(1)] this] e(1)
    have "\<exists>x. (Random_id, x) \<in> set (own i log) \<and> sid = id_of x" by simp
    then obtain x where x: "(Random_id, x) \<in> set (own i log)" "sid = id_of x" by blast
    then obtain t0 where "(i, t0, Random_id, x) \<in> set log" by (auto simp: own_member)
    moreover from random_is_fresh [OF world_step.hyps(1) this] x(2) have "x = Fresh sid" by (auto simp: id_of_def)
    ultimately show ?thesis by auto
  qed
qed simp

lemma created_once:
  "world log t ks \<Longrightarrow> system env cfg ops log \<Longrightarrow> length (filter (\<lambda>e. is_create sid (action_of e)) log) \<le> 1"
proof (induction rule: world.induct)
  case (world_step log t ks t' a r ks' i)
  note pre = follows_prefix [OF world_step.prems]
  show ?case
  proof (cases "is_create sid a")
    case True
    note w = create_write [OF system_write [OF world_step.prems] True]
    then obtain x where x: "(Random_id, x) \<in> set (own i log)" "sid = id_of x" by blast
    then obtain t0 where t0: "(i, t0, Random_id, x) \<in> set log" by (auto simp: own_member)
    from random_is_fresh [OF world_step.hyps(1) t0] x(2) have "x = Fresh sid" by (auto simp: id_of_def)
    with t0 have fresh: "(i, t0, Random_id, Fresh sid) \<in> set log" by simp
    have "\<not> is_create sid (action_of e)" if e: "e \<in> set log" for e
    proof
      assume c: "is_create sid (action_of e)"
      obtain j t1 b r1 where j: "e = (j, t1, b, r1)" by (cases e)
      with create_drew_id [OF world_step.hyps(1) pre, of j t1 b r1 sid] e c obtain t2 where "(j, t2, Random_id, Fresh sid) \<in> set log" by auto
      with fresh_is_unique [OF world_step.hyps(1) fresh] have "j = i" by blast
      with e j have "(b, r1) \<in> set (own i log)" by (auto simp: own_member)
      with w c j show False by fastforce
    qed
    then have "filter (\<lambda>e. is_create sid (action_of e)) log = []" by (simp add: filter_empty_conv)
    then show ?thesis by simp
  next
    case False
    with world_step.IH [OF pre] show ?thesis by simp
  qed
qed simp

lemma created_unique:
  assumes "world log t ks" "system env cfg ops log" "created log sid r0" "created log sid r1"
  shows "r0 = r1"
proof -
  let ?P = "\<lambda>e. is_create sid (action_of e)"
  obtain e0 e1 where e: "e0 \<in> set (filter ?P log)" "e1 \<in> set (filter ?P log)"
    "\<exists>n. action_of e0 = Redis (SET_EX (rec_key sid) (Session_text r0) n)" "\<exists>n. action_of e1 = Redis (SET_EX (rec_key sid) (Session_text r1) n)"
    using assms(3,4) unfolding created_def is_create_def by fastforce
  then have "e0 = e1" using created_once [OF assms(1,2), of sid]
    by (cases "filter ?P log" rule: remdups_adj.cases) auto
  with e(3,4) show ?thesis by auto
qed

definition from_login :: "entry list \<Rightarrow> string \<Rightarrow> redis_text \<Rightarrow> bool" where
  "from_login log sid v \<longleftrightarrow> (\<exists>r r0. v = Session_text r \<and> created log sid r0 \<and> same_login r r0)"

lemma from_login_append [simp]: "from_login log sid v \<Longrightarrow> from_login (log @ log') sid v"
  unfolding from_login_def using created_append by blast

lemma records_from_login:
  "world log t ks \<Longrightarrow> system env cfg ops log \<Longrightarrow>
     (\<forall>sid v. ks_text ks (rec_key sid) = Some v \<longrightarrow> from_login log sid v)
   \<and> (\<forall>i t1 sid v. (i, t1, Redis (GET (rec_key sid)), Text v) \<in> set log \<longrightarrow> from_login log sid v)"
proof (induction rule: world.induct)
  case (world_start t)
  then show ?case by (simp add: no_keys_def)
next
  case (world_step log t ks t' a r ks' i)
  note IH = world_step.IH [OF follows_prefix [OF world_step.prems]]
  note w = system_write [OF world_step.prems]
  let ?log = "log @ [(i, t', a, r)]"
  have stored: "from_login ?log sid v" if v: "ks_text ks' (rec_key sid) = Some v" for sid v
  proof (cases "ks_text ks (rec_key sid) = Some v")
    case True
    with IH show ?thesis by simp
  next
    case False
    then obtain c where c: "a = Redis c" using world_step.hyps(3) v by (cases a) auto
    from redis_text_after [of t' c ks r ks' "rec_key sid"] world_step.hyps(3) c False v
    consider (ex) n where "c = SET_EX (rec_key sid) v n" | (keep) "c = SET_KEEPTTL (rec_key sid) v" | (nx) n where "c = SET_NX_EX (rec_key sid) v n"
      by (auto split: if_splits)
    then show ?thesis
    proof cases
      case ex
      with w c obtain r0 where "v = Session_text r0" by (auto simp: session_write_def)
      moreover have "created ?log sid r0" if "v = Session_text r0" for r0
        using c ex that unfolding created_def by auto
      ultimately show ?thesis unfolding from_login_def same_login_def by blast
    next
      case keep
      with w c obtain r0 t0 where r0: "v = Session_text (r0\<lparr>sr_lastSeenAt := t0\<rparr>)" "(Redis (GET (rec_key sid)), Text (Session_text r0)) \<in> set (own i log)"
        by (auto simp: session_write_def)
      then have "from_login log sid (Session_text r0)" using IH by (auto simp: own_member)
      then have "from_login ?log sid (Session_text r0)" by simp
      with r0(1) show ?thesis by (simp add: from_login_def same_login_def)
    next
      case nx
      with w c show ?thesis by (auto simp: session_write_def)
    qed
  qed
  have read: "from_login ?log sid v" if "(j, t1, Redis (GET (rec_key sid)), Text v) \<in> set ?log" for j t1 sid v
  proof (cases "(j, t1, Redis (GET (rec_key sid)), Text v) \<in> set log")
    case True
    with IH show ?thesis by simp
  next
    case False
    with that have "a = Redis (GET (rec_key sid))" "r = Text v" by auto
    with redis_get [of t' "rec_key sid" ks r ks'] world_step.hyps(3) IH show ?thesis by auto
  qed
  from stored read show ?case by blast
qed


text \<open>The time in a new record is the time of its login.\<close>

lemma created_when:
  assumes "world log t ks" "system env cfg ops log" "created log sid r0"
  shows "\<exists>i. (i, sr_createdAt r0, Clock, Time (sr_createdAt r0)) \<in> set log"
proof -
  obtain i t1 n x where e: "(i, t1, Redis (SET_EX (rec_key sid) (Session_text r0) n), x) \<in> set log" using assms(3) by (auto simp: created_def)
  then obtain l1 l2 where l: "log = l1 @ (i, t1, Redis (SET_EX (rec_key sid) (Session_text r0) n), x) # l2" by (auto simp: in_set_conv_decomp)
  have "system env cfg ops (l1 @ [(i, t1, Redis (SET_EX (rec_key sid) (Session_text r0) n), x)])"
    using assms(2) follows_prefix [of _ "l1 @ [(i, t1, Redis (SET_EX (rec_key sid) (Session_text r0) n), x)]" l2] l by simp
  from create_write [OF system_write [OF this], of sid] obtain y where y: "(Clock, y) \<in> set (own i l1)" "sr_createdAt r0 = time_of y"
    by (auto simp: is_create_def)
  then obtain t2 where t2: "(i, t2, Clock, y) \<in> set log" using l by (auto simp: own_member)
  with clock_is_time [OF assms(1) t2] y(2) show ?thesis by (auto simp: time_of_def)
qed

section \<open>A deleted record stays away\<close>

definition sets_text :: "string \<Rightarrow> action \<Rightarrow> bool" where
  "sets_text k a =
     (case a of
        Redis (SET_EX k' v n) \<Rightarrow> k' = k
      | Redis (SET_KEEPTTL k' v) \<Rightarrow> k' = k
      | Redis (SET_NX_EX k' v n) \<Rightarrow> k' = k
      | _ \<Rightarrow> False)"

lemma redis_del: "redis_answers t (DEL k) ks r ks' \<Longrightarrow> r \<noteq> Failed \<Longrightarrow> ks_text ks' k = None"
  by (auto simp: redis_answers_def redis_does_def clear_key_def)

lemma text_stays_gone:
  assumes "answered t a log ks r ks'" "ks_text ks k = None" "\<not> sets_text k a"
  shows "ks_text ks' k = None"
proof (cases a)
  case (Redis c)
  with assms redis_text_after [of t c ks r ks' k] show ?thesis by (auto simp: sets_text_def)
qed (use assms in auto)

lemma deleted_stays_away:
  "world log t ks \<Longrightarrow> log = pre @ (i, t1, Redis (DEL k), x) # post \<Longrightarrow> x \<noteq> Failed
   \<Longrightarrow> (\<forall>e\<in>set post. \<not> sets_text k (action_of e)) \<Longrightarrow> ks_text ks k = None"
proof (induction arbitrary: post rule: world.induct)
  case (world_step log t ks t' a r ks' j)
  show ?case
  proof (cases post rule: rev_cases)
    case Nil
    with world_step redis_del [of t' k ks r ks'] show ?thesis by auto
  next
    case (snoc post' e)
    with world_step.prems(1) have l: "log = pre @ (i, t1, Redis (DEL k), x) # post'" "e = (j, t', a, r)" by auto
    with world_step.IH [OF l(1) world_step.prems(2)] world_step.prems(3) snoc have "ks_text ks k = None" "\<not> sets_text k a" by auto
    with text_stays_gone [OF world_step.hyps(3)] show ?thesis by blast
  qed
qed simp

lemma get_after_delete:
  assumes "world (pre @ (i, t1, Redis (DEL k), x) # mid @ (j, t2, Redis (GET k), r) # post) t ks" "x \<noteq> Failed"
    and "\<forall>e\<in>set mid. \<not> sets_text k (action_of e)"
  shows "r = Nil_reply \<or> r = Failed"
proof -
  let ?log = "pre @ (i, t1, Redis (DEL k), x) # mid"
  have "world (?log @ (j, t2, Redis (GET k), r) # post) t ks" using assms(1) by simp
  from world_entry [OF this] obtain t0 ks0 ks1 where w: "world ?log t0 ks0" "answered t2 (Redis (GET k)) ?log ks0 r ks1" by blast
  from deleted_stays_away [OF w(1) refl assms(2,3)] have "ks_text ks0 k = None" .
  with redis_get [of t2 k ks0 r ks1] w(2) show ?thesis by auto
qed

section \<open>Members of the index were logins\<close>

lemma effect_zset:
  "set (ks_zset (snd (command_effect t c ks)) k) \<subseteq> set (ks_zset ks k) \<union> {(s, m). c = ZADD k s m}"
  by (cases c) (auto simp: put_text_def clear_key_def drop_empty_def set_insort_key split: option.splits)

lemma expire_zset: "set (ks_zset (expire_key t k ks) k') \<subseteq> set (ks_zset ks k')"
  by (auto simp: expire_key_def clear_key_def)

lemma redis_zset_after:
  assumes "redis_answers t c ks r ks'" "(s, m) \<in> set (ks_zset ks' k)"
  shows "(s, m) \<in> set (ks_zset ks k) \<or> c = ZADD k s m"
proof -
  have "ks' = ks \<or> ks' = snd (command_effect t c (expire_key t (key_of c) ks))"
    using assms(1) unfolding redis_answers_def redis_does_def by (metis snd_conv)
  with assms(2) effect_zset [of t c "expire_key t (key_of c) ks" k] expire_zset [of t "key_of c" ks k] show ?thesis by blast
qed

lemma member_created:
  "world log t ks \<Longrightarrow> system env cfg ops log \<Longrightarrow> (s, m) \<in> set (ks_zset ks k) \<Longrightarrow> \<exists>e\<in>set log. is_create m (action_of e)"
proof (induction arbitrary: s rule: world.induct)
  case (world_step log t ks t' a r ks' i)
  show ?case
  proof (cases "(s, m) \<in> set (ks_zset ks k)")
    case True
    with world_step.IH [OF follows_prefix [OF world_step.prems(1)]] show ?thesis by auto
  next
    case False
    then obtain c where c: "a = Redis c" using world_step.hyps(3) world_step.prems(2) by (cases a) auto
    with redis_zset_after [of t' c ks r ks' s m k] world_step.hyps(3) world_step.prems(2) False have "a = Redis (ZADD k s m)" by simp
    with system_write [OF world_step.prems(1)] have "\<exists>e\<in>set (own i log). is_create m (fst e)" by (simp add: session_write_def)
    then show ?thesis by (force simp: own_def)
  qed
qed (simp add: no_keys_def)

lemma redis_zrange:
  assumes "redis_answers t (ZRANGE k) ks (Names ms) ks'" "m \<in> set ms"
  shows "\<exists>s. (s, m) \<in> set (ks_zset ks k)"
  using assms expire_zset [of t k ks k] by (fastforce simp: redis_answers_def redis_does_def)

end
