(* ===== verification/Session_Properties.thy ===== *)
theory Session_Properties
  imports Session_Log
begin

text \<open>
  What the sessions guarantee under every interleaving of logins, requests, refreshes, logouts and revocations:
  the limits of a login cannot be moved, a revoked session is dead unless a request is just writing it back,
  and a refresh token is spent once.
\<close>

section \<open>What an answer of the session check rests on\<close>

definition ok_evidence :: "session_config \<Rightarrow> string \<Rightarrow> trace \<Rightarrow> session_record \<Rightarrow> bool" where
  "ok_evidence cfg sid h r \<longleftrightarrow>
     (Redis (GET (rec_key sid)), Text (Session_text r)) \<in> set h
     \<and> (\<exists>x. (Clock, x) \<in> set h \<and> time_of x - sr_createdAt r < absoluteLimitSecondsForRole cfg (sr_role r)
           \<and> time_of x - sr_lastSeenAt r < idleLimitSecondsForRole cfg (sr_role r))"

definition check_evidence :: "session_config \<Rightarrow> string \<Rightarrow> trace \<Rightarrow> session_check \<Rightarrow> bool" where
  "check_evidence cfg sid h c =
     (case c of
        Ok r \<Rightarrow> ok_evidence cfg sid h r
      | Check_error \<Rightarrow> (Redis (GET (rec_key sid)), Failed) \<in> set h
      | _ \<Rightarrow> True)"

lemma always_TrueI: "(\<And>h. Q h = (\<lambda>_. True)) \<Longrightarrow> always (\<lambda>_ _. True) Q h p"
  by (induction p arbitrary: h) simp_all

lemma checkSession_evidence: "always (\<lambda>_ _. True) (check_evidence cfg sid) h (checkSession cfg sid touch)"
proof -
  have 1: "check_evidence cfg sid h' Expired_idle" "check_evidence cfg sid h' Expired_absolute" "check_evidence cfg sid h' Missing" for h'
    by (simp_all add: check_evidence_def)
  have 2: "check_evidence cfg sid (h @ [(Redis (GET (rec_key sid)), Failed)]) Check_error"
    by (simp add: check_evidence_def)
  have 3: "check_evidence cfg sid (h @ (Redis (GET (rec_key sid)), Text (Session_text r)) # (Clock, x) # h') (Ok r)"
    if "\<not> absoluteLimitSecondsForRole cfg (sr_role r) \<le> time_of x - sr_createdAt r"
      "\<not> idleLimitSecondsForRole cfg (sr_role r) \<le> time_of x - sr_lastSeenAt r" for r x h'
    using that by (auto simp: check_evidence_def ok_evidence_def intro!: exI [of _ x])
  show ?thesis
    using 3 [where h' = "[]"] 3 [where h' = "[_]"]
    by (auto simp: checkSession_def Let_def 1 2 intro!: always_TrueI split: answer.splits redis_text.splits)
qed

definition admit_evidence :: "session_config \<Rightarrow> string \<Rightarrow> trace \<Rightarrow> admission \<Rightarrow> bool" where
  "admit_evidence cfg sid h a =
     (case a of
        Admitted confirmed \<Rightarrow> if confirmed then (\<exists>r. ok_evidence cfg sid h r) else (Redis (GET (rec_key sid)), Failed) \<in> set h
      | _ \<Rightarrow> True)"

lemma admitAccess_evidence:
  assumes "sid \<noteq> []"
  shows "always (\<lambda>_ _. True) (admit_evidence cfg sid) h (admitAccess cfg sub (Some sid))"
proof -
  have "always (\<lambda>_ _. True) (\<lambda>h c. admit_evidence cfg sid h (case c of Ok _ \<Rightarrow> Admitted True | Check_error \<Rightarrow> Admitted False
      | Expired_idle \<Rightarrow> Session_ended ''idle_timeout'' | Expired_absolute \<Rightarrow> Session_ended ''absolute_timeout''
      | Missing \<Rightarrow> Session_ended ''revoked'')) h (checkSession cfg sid True)" for h
    by (rule always_mono [OF checkSession_evidence]) (auto simp: check_evidence_def admit_evidence_def split: session_check.splits)
  then show ?thesis using assms by (simp add: admitAccess_def isUserDenied_def cacheGet_def admit_evidence_def)
qed

section \<open>The limits of a login\<close>

text \<open>
  C12. No request is let in on a confirmed session past the absolute limit of its login: under every interleaving of
  logins, requests, refreshes, logouts and revocations, with Redis failing at any point, the session id of an admitted
  request was drawn by exactly one login, and the clock the request read is before the time of that login plus
  the absolute limit of the role the login had; no touch, refresh or later role moves it.
\<close>

theorem session_within_login:
  assumes "world log t ks" "system env cfg ops log" "ops i = Op_admit sub (Some sid)" "sid \<noteq> []"
    and "result_of (admitAccess cfg sub (Some sid)) (own i log) = Some (Admitted True)"
  shows "\<exists>r0 now. created log sid r0 \<and> (\<forall>r1. created log sid r1 \<longrightarrow> r1 = r0)
    \<and> (\<exists>j. (j, sr_createdAt r0, Clock, Time (sr_createdAt r0)) \<in> set log) \<and> (i, now, Clock, Time now) \<in> set log
    \<and> now < sr_createdAt r0 + absoluteLimitSecondsForRole cfg (sr_role r0)"
proof -
  from always_result [OF admitAccess_evidence [OF assms(4)] assms(5)] obtain r where "ok_evidence cfg sid (own i log) r"
    by (auto simp: admit_evidence_def)
  then obtain x where r: "(Redis (GET (rec_key sid)), Text (Session_text r)) \<in> set (own i log)"
    and x: "(Clock, x) \<in> set (own i log)" "time_of x - sr_createdAt r < absoluteLimitSecondsForRole cfg (sr_role r)"
    unfolding ok_evidence_def by blast
  from r obtain t1 where "(i, t1, Redis (GET (rec_key sid)), Text (Session_text r)) \<in> set log" by (auto simp: own_member)
  then have "from_login log sid (Session_text r)" using records_from_login [OF assms(1,2)] by blast
  then obtain r0 where r0: "created log sid r0" "same_login r r0" by (auto simp: from_login_def)
  from x(1) obtain now where "(i, now, Clock, x) \<in> set log" by (auto simp: own_member)
  with clock_is_time [OF assms(1) this] have now: "(i, now, Clock, Time now) \<in> set log" "time_of x = now" by (simp_all add: time_of_def)
  have "now < sr_createdAt r0 + absoluteLimitSecondsForRole cfg (sr_role r0)"
    using x(2) now(2) r0(2) by (simp add: same_login_def)
  with r0(1) now(1) created_when [OF assms(1,2) r0(1)] created_unique [OF assms(1,2) _ r0(1)] show ?thesis by blast
qed


section \<open>Revocation\<close>

definition deletes :: "string \<Rightarrow> trace \<Rightarrow> bool" where
  "deletes sid h \<longleftrightarrow> (\<exists>x. x \<noteq> Failed \<and> (Redis (DEL (rec_key sid)), x) \<in> set h)"

lemma deletes_append [simp]: "deletes sid h \<Longrightarrow> deletes sid (h @ h')"
  by (auto simp: deletes_def)

lemma always_deletes: "deletes sid h \<Longrightarrow> always (\<lambda>_ _. True) (\<lambda>h' _. deletes sid h') h p"
  by (induction p arbitrary: h) simp_all

lemma revoke_records_deletes:
  "sid \<in> set sids \<or> deletes sid h \<Longrightarrow>
     always (\<lambda>_ _. True) (\<lambda>h' r. \<forall>n. r = Return n \<longrightarrow> deletes sid h') h (revoke_records idx None sids n0)"
proof (induction sids arbitrary: h n0)
  case (Cons x sids)
  have "sid \<in> set sids \<or> deletes sid (h @ [(Redis (DEL (rec_key x)), r), e])" if "r \<noteq> Failed" for r e
    using Cons.prems that by (auto simp: deletes_def)
  with Cons.IH show ?case by simp
qed simp

lemma always_result_at: "always P Q h p \<Longrightarrow> result_of p tr = Some x \<Longrightarrow> Q (h @ tr) x"
  by (auto simp: result_of_def split: option.splits io.splits dest: always_rest)

lemma revokeAll_deletes:
  assumes "result_of (revokeAllSessions userId None) ((Redis (ZRANGE (idx_key userId)), Names ms) # tr) = Some (Return n)" "sid \<in> set ms"
  shows "deletes sid tr"
proof -
  let ?rest = "bind (revoke_records (idx_key userId) None ms 0) (\<lambda>sweep. bind (revokeUserSessions userId) (\<lambda>denied.
       Pure (case (sweep, denied) of (Inr revoked, Inr _) \<Rightarrow> Return revoked | _ \<Rightarrow> Throw Revocation_unavailable)))"
  have "result_of ?rest tr = Some (Return n)"
    using assms(1) by (simp add: result_of_def revokeAllSessions_def next_try_def redis_def names_of_def present_def bind_assoc)
  moreover have "always (\<lambda>_ _. True) (\<lambda>h r. \<forall>n. r = Return n \<longrightarrow> deletes sid h) [] ?rest"
  proof -
    have "always (\<lambda>_ _. True) (\<lambda>h d. \<forall>n. (case (sweep, d) of (Inr revoked, Inr _) \<Rightarrow> Return revoked | _ \<Rightarrow> Throw Revocation_unavailable)
        = Return n \<longrightarrow> deletes sid h) h (revokeUserSessions userId)"
      if "\<forall>n. sweep = Return n \<longrightarrow> deletes sid h" for h sweep
    proof (cases sweep)
      case (Inl e)
      then show ?thesis by (intro always_TrueI) (simp add: fun_eq_iff)
    next
      case (Inr m)
      with that have "deletes sid h" by simp
      show ?thesis by (rule always_mono [OF always_deletes [OF \<open>deletes sid h\<close>]]) simp_all
    qed
    then show ?thesis
      unfolding always_bind using assms(2)
      by (intro always_mono [OF revoke_records_deletes [of sid ms "[]" "idx_key userId" 0]]) simp_all
  qed
  ultimately show ?thesis using always_result_at [of _ _ "[]"] by fastforce
qed

lemma system_sets:
  assumes "system env cfg ops (l1 @ e # l2)" "sets_text (rec_key sid) (action_of e)"
  shows "is_create sid (action_of e) \<or> is_touch sid (action_of e)"
proof -
  obtain i t a r where e: "e = (i, t, a, r)" by (cases e)
  have "system env cfg ops (l1 @ [(i, t, a, r)])" using assms(1) follows_prefix [of _ "l1 @ [(i, t, a, r)]" l2] e by simp
  from system_write [OF this] assms(2) e show ?thesis
    by (auto simp: sets_text_def is_create_def is_touch_def session_write_def split: action.splits command.splits)
qed


text \<open>Where an action of a program's trace stands in the log.\<close>

lemma own_split:
  assumes "own i log = tr1 @ (a, r) # tr2"
  shows "\<exists>l1 t l2. log = l1 @ (i, t, a, r) # l2 \<and> own i l1 = tr1"
  using assms
proof (induction log arbitrary: tr1)
  case (Cons e log)
  obtain j t b s where e: "e = (j, t, b, s)" by (cases e)
  show ?case
  proof (cases "j = i")
    case True
    show ?thesis
    proof (cases tr1)
      case Nil
      with Cons.prems e True have "e = (i, t, a, r)" by (simp add: own_Cons)
      with Nil show ?thesis by (intro exI [of _ "[]"]) (auto simp: own_def)
    next
      case (Cons x tr1')
      with Cons.prems e True have "own i log = tr1' @ (a, r) # tr2" "x = (b, s)" by (simp_all add: own_Cons)
      from Cons.IH [OF this(1)] obtain l1 t' l2 where "log = l1 @ (i, t', a, r) # l2" "own i l1 = tr1'" by blast
      with e True Cons \<open>x = (b, s)\<close> show ?thesis by (intro exI [of _ "e # l1"]) (auto simp: own_Cons)
    qed
  next
    case False
    with Cons.prems e have "own i log = tr1 @ (a, r) # tr2" by (simp add: own_Cons)
    from Cons.IH [OF this] obtain l1 t' l2 where "log = l1 @ (i, t', a, r) # l2" "own i l1 = tr1" by blast
    with e False show ?thesis by (intro exI [of _ "e # l1"]) (auto simp: own_Cons)
  qed
qed (simp add: own_def)

text \<open>Nothing creates the record of an indexed session a second time.\<close>

lemma no_second_create:
  assumes "world (l1 @ (i, t1, Redis (ZRANGE k), Names ms) # l2) t ks" "system env cfg ops (l1 @ (i, t1, Redis (ZRANGE k), Names ms) # l2)"
    and "sid \<in> set ms" "e \<in> set l2"
  shows "\<not> is_create sid (action_of e)"
proof
  assume c: "is_create sid (action_of e)"
  from world_entry [OF assms(1)] obtain t0 ks0 ks1 where w: "world l1 t0 ks0" "redis_answers t1 (ZRANGE k) ks0 (Names ms) ks1" by auto
  from redis_zrange [OF w(2) assms(3)] obtain s where "(s, sid) \<in> set (ks_zset ks0 k)" by blast
  from member_created [OF w(1) follows_prefix [OF assms(2)] this] obtain e' where e': "e' \<in> set l1" "is_create sid (action_of e')" by blast
  let ?P = "\<lambda>e. is_create sid (action_of e)"
  have "length (filter ?P l1) \<ge> 1" "length (filter ?P l2) \<ge> 1" using e' assms(4) c by (auto simp: Suc_le_eq filter_empty_conv)
  moreover have "length (filter ?P (l1 @ (i, t1, Redis (ZRANGE k), Names ms) # l2)) \<le> 1" by (rule created_once [OF assms(1,2)])
  ultimately show False by (simp add: is_create_def)
qed

text \<open>
  C13. Revocation is immediate: once \<^verbatim>\<open>revokeAllSessions\<close> has answered, no request that starts later is let in on a
  confirmed session that was in the person's index, provided no request that read the record earlier writes it
  back (a touch of the idle clock) after the revocation began; it is let in unconfirmed only when Redis fails.
\<close>

theorem revoked_session_dead:
  assumes "world (l0 @ l1 @ l2) t ks" "system env cfg ops (l0 @ l1 @ l2)"
    and "own i l0 = []" "own i l1 = (Redis (ZRANGE (idx_key userId)), Names ms) # tr" "sid \<in> set ms"
    and "result_of (revokeAllSessions userId None) (own i l1) = Some (Return n)"
    and "\<forall>e\<in>set (l1 @ l2). \<not> is_touch sid (action_of e)"
    and "own j (l0 @ l1) = []" "sid \<noteq> []" "result_of (admitAccess cfg sub (Some sid)) (own j l2) = Some a"
  shows "a \<noteq> Admitted True \<and> (a = Admitted False \<longrightarrow> (Redis (GET (rec_key sid)), Failed) \<in> set (own j l2))"
proof -
  from revokeAll_deletes [of userId ms tr n sid] assms(4-6) obtain x where x: "x \<noteq> Failed" "(Redis (DEL (rec_key sid)), x) \<in> set tr"
    by (auto simp: deletes_def)
  from own_split [of i l1 "[]"] assms(4) obtain p1 t1 q1 where p1: "l1 = p1 @ (i, t1, Redis (ZRANGE (idx_key userId)), Names ms) # q1" "own i p1 = []"
    by fastforce
  then have "own i q1 = tr" using assms(4) by (simp add: own_Cons)
  with x(2) obtain t2 where "(i, t2, Redis (DEL (rec_key sid)), x) \<in> set q1" by (auto simp: own_member)
  then obtain p2 q2 where p2: "q1 = p2 @ (i, t2, Redis (DEL (rec_key sid)), x) # q2" by (auto simp: in_set_conv_decomp)
  let ?pre = "(l0 @ p1) @ (i, t1, Redis (ZRANGE (idx_key userId)), Names ms) # p2"
  have log: "l0 @ l1 @ l2 = (l0 @ p1) @ (i, t1, Redis (ZRANGE (idx_key userId)), Names ms) # (q1 @ l2)" using p1(1) by simp
  have log': "l0 @ l1 @ l2 = ?pre @ (i, t2, Redis (DEL (rec_key sid)), x) # (q2 @ l2)" using p1(1) p2 by simp
  have quiet: "\<not> sets_text (rec_key sid) (action_of e)" if e: "e \<in> set (q2 @ l2)" for e
  proof
    assume s: "sets_text (rec_key sid) (action_of e)"
    obtain u v where "l0 @ l1 @ l2 = u @ e # v" using e log' by (metis Un_iff in_set_conv_decomp list.set_intros(2) set_append)
    with system_sets [of env cfg ops u e v sid] assms(2) s have "is_create sid (action_of e) \<or> is_touch sid (action_of e)" by simp
    moreover have "\<not> is_create sid (action_of e)"
      using no_second_create [OF assms(1) [unfolded log] assms(2) [unfolded log] assms(5), of e] e p2 by auto
    ultimately show False using assms(7) e p1(1) p2 by auto
  qed
  have get: "r = Nil_reply \<or> r = Failed" if r: "(Redis (GET (rec_key sid)), r) \<in> set (own j l2)" for r
  proof -
    from r obtain t3 where "(j, t3, Redis (GET (rec_key sid)), r) \<in> set l2" by (auto simp: own_member)
    then obtain u v where uv: "l2 = u @ (j, t3, Redis (GET (rec_key sid)), r) # v" by (auto simp: in_set_conv_decomp)
    with log' assms(1) have "world (?pre @ (i, t2, Redis (DEL (rec_key sid)), x) # (q2 @ u) @ (j, t3, Redis (GET (rec_key sid)), r) # v) t ks" by simp
    moreover have "\<forall>e\<in>set (q2 @ u). \<not> sets_text (rec_key sid) (action_of e)"
      using quiet unfolding uv set_append by blast
    ultimately show ?thesis by (rule get_after_delete [OF _ x(1)])
  qed
  have "admit_evidence cfg sid (own j l2) a" by (rule always_result [OF admitAccess_evidence [OF assms(9)] assms(10)])
  with get show ?thesis by (auto simp: admit_evidence_def ok_evidence_def split: admission.splits if_splits)
qed


section \<open>Replaying a log\<close>

text \<open>A log whose every answer is what Redis documents, computed.\<close>

fun replay :: "entry list \<Rightarrow> int \<Rightarrow> keyspace \<Rightarrow> entry list \<Rightarrow> (int \<times> keyspace) option" where
  "replay seen t ks [] = Some (t, ks)"
| "replay seen t ks ((i, t', a, r) # log) =
     (if t' < t then None
      else (case a of
          Redis c \<Rightarrow> (case redis_does t' c ks of (r', ks') \<Rightarrow> if r' = r then replay (seen @ [(i, t', a, r)]) t' ks' log else None)
        | Clock \<Rightarrow> if r = Time t' then replay (seen @ [(i, t', a, r)]) t' ks log else None
        | Random_id \<Rightarrow>
            (case r of
               Fresh s \<Rightarrow> if list_all (\<lambda>e. snd (snd e) \<noteq> (Random_id, Fresh s)) seen then replay (seen @ [(i, t', a, r)]) t' ks log else None
             | _ \<Rightarrow> None)
        | _ \<Rightarrow> replay (seen @ [(i, t', a, r)]) t' ks log))"

lemma replay_world: "replay seen t ks log = Some (t1, ks1) \<Longrightarrow> world seen t ks \<Longrightarrow> world (seen @ log) t1 ks1"
proof (induction seen t ks log rule: replay.induct)
  case (2 seen t ks i t' a r log)
  have step: "world (seen @ [(i, t', a, r)]) t' ks'" if "answered t' a seen ks r ks'" for ks'
    using world_step [OF "2.prems"(2) _ that] "2.prems"(1) by (auto split: if_splits)
  show ?case
  proof (cases a)
    case (Redis c)
    then obtain ks' where k: "redis_does t' c ks = (r, ks')" "replay (seen @ [(i, t', a, r)]) t' ks' log = Some (t1, ks1)"
      using "2.prems"(1) by (auto split: if_splits prod.splits)
    have "world (seen @ [(i, t', a, r)]) t' ks'" using step [of ks'] Redis k(1) by (simp add: redis_answers_def)
    from "2.IH"(1) [OF _ Redis k(1) [symmetric] refl k(2) this] "2.prems"(1) show ?thesis by (auto split: if_splits)
  next
    case Clock
    with "2.IH"(2) "2.prems"(1) step [of ks] show ?thesis by (auto split: if_splits)
  next
    case Random_id
    with "2.IH"(3) "2.prems"(1) step [of ks] show ?thesis by (auto split: if_splits answer.splits simp: list_all_iff)
  qed (use 2 step [of ks] in \<open>auto split: if_splits\<close>)
qed simp

lemma follows_check:
  assumes "\<forall>i<n. \<not> Option.is_none (rest_of (prog i) (own i log))" "\<forall>e\<in>set log. fst e < n"
  shows "follows prog log"
  unfolding follows_def
proof
  fix i
  show "rest_of (prog i) (own i log) \<noteq> None"
  proof (cases "i < n")
    case True
    with assms(1) show ?thesis by (simp add: Option.is_none_def)
  next
    case False
    with assms(2) have "own i log = []" by (auto simp: own_def filter_empty_conv)
    then show ?thesis by simp
  qed
qed


section \<open>A touch in flight\<close>

definition sample_jwt :: jwt_env where
  "sample_jwt = \<lparr>je_verify = (\<lambda>token now. None), je_sha = id, je_prisma = True, je_oauth2 = False\<rparr>"

definition default_limits :: session_config where
  "default_limits = \<lparr>sc_idleAdmin = None, sc_idleUser = None, sc_absoluteAdmin = None, sc_absoluteUser = None, sc_maxConcurrent = None\<rparr>"

definition sample_record :: session_record where
  "sample_record = \<lparr>sr_userId = ''ann'', sr_role = family, sr_createdAt = 0, sr_lastSeenAt = 0\<rparr>"

text \<open>Ann signs in with session \<open>s1\<close>.\<close>

definition login_log :: "entry list" where
  "login_log =
     [(0, 0, Random_id, Fresh ''s1''),
      (0, 0, Clock, Time 0),
      (0, 0, Redis (SET_EX (rec_key ''s1'') (Session_text sample_record) 129600), Ok_reply),
      (0, 0, Redis (ZADD (idx_key ''ann'') 0 ''s1''), Count 1),
      (0, 0, Redis (EXPIRE_NX (idx_key ''ann'') 129600), Count 1),
      (0, 0, Redis (EXPIRE_GT (idx_key ''ann'') 129600), Count 0),
      (0, 0, Redis (ZRANGE (idx_key ''ann'')), Names [''s1'']),
      (0, 0, Redis (EXISTS (rec_key ''s1'')), Count 1)]"

text \<open>All her sessions are revoked.\<close>

definition revoke_log :: "entry list" where
  "revoke_log =
     [(2, 60, Redis (ZRANGE (idx_key ''ann'')), Names [''s1'']),
      (2, 60, Redis (DEL (rec_key ''s1'')), Count 1),
      (2, 60, Redis (ZREM (idx_key ''ann'') ''s1''), Count 1),
      (2, 60, Redis (SMEMBERS (sessions_key ''ann'')), Names []),
      (2, 60, Clock, Time 60),
      (2, 60, Redis (DEL (sessions_key ''ann'')), Count 0)]"

text \<open>A request of hers read the record before and touches it after.\<close>

definition race_log :: "entry list" where
  "race_log = login_log
     @ [(1, 60, Redis (GET (denylistKey ''ann'')), Nil_reply), (1, 60, Redis (GET (rec_key ''s1'')), Text (Session_text sample_record))]
     @ revoke_log
     @ [(1, 60, Clock, Time 60), (1, 60, Redis (SET_KEEPTTL (rec_key ''s1'') (Session_text (sample_record\<lparr>sr_lastSeenAt := 60\<rparr>))), Ok_reply)]"

definition late_log :: "entry list" where
  "late_log =
     [(3, 61, Redis (GET (denylistKey ''ann'')), Nil_reply),
      (3, 61, Redis (GET (rec_key ''s1'')), Text (Session_text (sample_record\<lparr>sr_lastSeenAt := 60\<rparr>))),
      (3, 61, Clock, Time 61)]"

definition race_ops :: "nat \<Rightarrow> session_op" where
  "race_ops i = (if i = 0 then Op_login ''ann'' family else if i = 2 then Op_revoke ''ann'' None else Op_admit ''ann'' (Some ''s1''))"

lemma replay_from_start:
  assumes "case replay [] 0 no_keys log of None \<Rightarrow> False | Some (t, ks) \<Rightarrow> t = t1 \<and> P ks"
  shows "\<exists>ks. world log t1 ks \<and> P ks"
  using assms replay_world [OF _ world_start, of 0 log] by (auto split: option.splits)

lemma four_requests:
  assumes "\<not> Option.is_none (rest_of (prog 0) (own 0 log))" "\<not> Option.is_none (rest_of (prog 1) (own 1 log))"
    "\<not> Option.is_none (rest_of (prog 2) (own 2 log))" "\<not> Option.is_none (rest_of (prog 3) (own 3 log))"
    "list_all (\<lambda>e. fst e < 4) log"
  shows "follows prog log"
proof (rule follows_check [of 4])
  show "\<forall>i<4. \<not> Option.is_none (rest_of (prog i) (own i log))"
    using assms(1-4) by (auto simp: numeral_eq_Suc less_Suc_eq)
qed (use assms(5) in \<open>simp add: list_all_iff\<close>)

lemma race_system: "system sample_jwt default_limits race_ops (race_log @ late_log)"
  by (rule four_requests; code_simp)


definition dead_log :: "entry list" where
  "dead_log = [(3, 61, Redis (GET (denylistKey ''ann'')), Nil_reply), (3, 61, Redis (GET (rec_key ''s1'')), Nil_reply)]"

theorem revoked_session_dead_witness:
  "result_of (admitAccess default_limits ''ann'' (Some ''s1'')) (own 3 dead_log) = Some (Session_ended ''revoked'')
   \<and> Session_ended ''revoked'' \<noteq> Admitted True"
proof -
  have "\<exists>ks. world (login_log @ revoke_log @ dead_log) 61 ks \<and> True" by (rule replay_from_start) code_simp
  then obtain ks where w: "world (login_log @ revoke_log @ dead_log) 61 ks" by blast
  have s: "system sample_jwt default_limits race_ops (login_log @ revoke_log @ dead_log)" by (rule four_requests; code_simp)
  have i: "own 2 login_log = []" "own 2 revoke_log = (Redis (ZRANGE (idx_key ''ann'')), Names [''s1'']) # tl (own 2 revoke_log)"
    "''s1'' \<in> set [''s1'']" by code_simp+
  have r: "result_of (revokeAllSessions ''ann'' None) (own 2 revoke_log) = Some (Return 1)" by code_simp
  have q: "\<forall>e\<in>set (revoke_log @ dead_log). \<not> is_touch ''s1'' (action_of e)" by code_simp
  have j: "own 3 (login_log @ revoke_log) = []" "''s1'' \<noteq> []" by code_simp+
  have a: "result_of (admitAccess default_limits ''ann'' (Some ''s1'')) (own 3 dead_log) = Some (Session_ended ''revoked'')" by code_simp
  from revoked_session_dead [OF w s i r q j a] a show ?thesis by simp
qed

definition fresh_log :: "entry list" where
  "fresh_log = login_log
     @ [(1, 10, Redis (GET (denylistKey ''ann'')), Nil_reply), (1, 10, Redis (GET (rec_key ''s1'')), Text (Session_text sample_record)),
        (1, 10, Clock, Time 10)]"

theorem session_within_login_witness:
  "\<exists>r0 now. created fresh_log ''s1'' r0 \<and> (1, now, Clock, Time now) \<in> set fresh_log
     \<and> now < sr_createdAt r0 + absoluteLimitSecondsForRole default_limits (sr_role r0)"
proof -
  have "\<exists>ks. world fresh_log 10 ks \<and> True" by (rule replay_from_start) code_simp
  then obtain ks where w: "world fresh_log 10 ks" by blast
  have s: "system sample_jwt default_limits race_ops fresh_log" by (rule four_requests; code_simp)
  have i: "race_ops 1 = Op_admit ''ann'' (Some ''s1'')" "''s1'' \<noteq> []" by code_simp+
  have r: "result_of (admitAccess default_limits ''ann'' (Some ''s1'')) (own 1 fresh_log) = Some (Admitted True)" by code_simp
  from session_within_login [OF w s i r] show ?thesis by blast
qed

end
