(* ===== verification/Rotation.thy ===== *)
theory Rotation
  imports Session_Properties
begin

text \<open>
  A refresh token is spent once: of all requests that present it, at most one gets a new pair.  The claim
  (\<^verbatim>\<open>SET NX EX 30\<close>) covers the request that rotates, the denylist entry it writes covers the rest of the token's life.
\<close>

section \<open>The index holds what was registered\<close>

lemma split_last_colon_none: "CHR '':'' \<notin> set s \<Longrightarrow> split_last_colon s = None"
  by (induction s) auto

lemma split_last_colon_append: "CHR '':'' \<notin> set b \<Longrightarrow> split_last_colon (a @ CHR '':'' # b) = Some (a, b)"
  by (induction a) (simp_all add: split_last_colon_none)

lemma digits_no_colon: "list_all is_digit s \<Longrightarrow> CHR '':'' \<notin> set s"
  by (auto simp: list_all_iff is_digit_def)

lemma parse_member_text:
  assumes "parse_member (member_text env token e) = Some (x, e')"
  shows "x = je_sha env token \<and> e' = int (nat e)"
proof -
  have d: "list_all is_digit (show_nat (nat e))" by (auto simp: list_all_iff show_nat_digits)
  have "split_last_colon (member_text env token e) = Some (je_sha env token, show_nat (nat e))"
    using split_last_colon_append [OF digits_no_colon [OF d]] by (simp add: member_text_def)
  with assms d show ?thesis
    by (auto simp: parse_member_def number_text_def nat_of_digits_show_nat split: if_splits)
qed

lemma effect_set: "set (ks_set (snd (command_effect t c ks)) k) \<subseteq> set (ks_set ks k) \<union> {m. c = SADD k m}"
  by (cases c) (auto simp: put_text_def clear_key_def drop_empty_def split: option.splits)

lemma expire_set: "set (ks_set (expire_key t k ks) k') \<subseteq> set (ks_set ks k')"
  by (auto simp: expire_key_def clear_key_def)

lemma redis_set_after:
  assumes "redis_answers t c ks r ks'" "m \<in> set (ks_set ks' k)"
  shows "m \<in> set (ks_set ks k) \<or> c = SADD k m"
proof -
  have "ks' = ks \<or> ks' = snd (command_effect t c (expire_key t (key_of c) ks))"
    using assms(1) unfolding redis_answers_def redis_does_def by (metis snd_conv)
  with assms(2) effect_set [of t c "expire_key t (key_of c) ks" k] expire_set [of t "key_of c" ks k] show ?thesis by blast
qed

definition registered :: "jwt_env \<Rightarrow> string \<Rightarrow> bool" where
  "registered env m \<longleftrightarrow> (\<exists>token e now d. m = member_text env token e \<and> je_verify env token now = Some d \<and> jd_exp d = Some e)"

lemma system_token: "system env cfg ops (log @ [(i, t, a, r)]) \<Longrightarrow> token_write env (own i log) a"
  using system_may unfolding may_def by blast

lemma member_registered:
  "world log t ks \<Longrightarrow> system env cfg ops log \<Longrightarrow> m \<in> set (ks_set ks k) \<Longrightarrow> registered env m"
proof (induction rule: world.induct)
  case (world_step log t ks t' a r ks' i)
  show ?case
  proof (cases "m \<in> set (ks_set ks k)")
    case True
    with world_step.IH [OF follows_prefix [OF world_step.prems(1)]] show ?thesis by blast
  next
    case False
    then obtain c where c: "a = Redis c" using world_step.hyps(3) world_step.prems(2) by (cases a) auto
    with redis_set_after [of t' c ks r ks' m k] world_step.hyps(3) world_step.prems(2) False have "a = Redis (SADD k m)" by simp
    with system_token [OF world_step.prems(1)] show ?thesis
      by (auto simp: token_write_def registered_def token_expiry_def)
  qed
qed (simp add: no_keys_def)

lemma smembers_registered:
  assumes "world log t ks" "system env cfg ops log" "(i, t1, Redis (SMEMBERS k), a) \<in> set log" "m \<in> set (names_of a)"
  shows "registered env m"
proof -
  obtain l1 l2 where l: "log = l1 @ (i, t1, Redis (SMEMBERS k), a) # l2" using assms(3) by (auto simp: in_set_conv_decomp)
  with world_entry assms(1) obtain t0 ks0 ks1 where w: "world l1 t0 ks0" "redis_answers t1 (SMEMBERS k) ks0 a ks1" by fastforce
  then have "m \<in> set (ks_set ks0 k)"
    using assms(4) expire_set [of t1 k ks0 k] by (auto simp: redis_answers_def redis_does_def names_of_def)
  with member_registered [OF w(1)] follows_prefix assms(2) l show ?thesis by blast
qed

section \<open>A denylist entry outlives its token\<close>

text \<open>
  What the rotation relies on of the token library and of the hash: the token verifies exactly until its expiry, with
  the same claims, and no other text has its hash.
\<close>

definition lives_until :: "jwt_env \<Rightarrow> string \<Rightarrow> int \<Rightarrow> bool" where
  "lives_until env token e \<longleftrightarrow> 0 < e
     \<and> (\<exists>d. jd_exp d = Some e \<and> (\<forall>now. je_verify env token now = (if now < e then Some d else None)))
     \<and> (\<forall>other. je_sha env other = je_sha env token \<longrightarrow> other = token)"

lemma lives_expiry: "lives_until env token e \<Longrightarrow> je_verify env token now = Some d \<Longrightarrow> jd_exp d = Some e"
  unfolding lives_until_def by (metis option.inject option.distinct(1))

lemma lives_late: "lives_until env token e \<Longrightarrow> je_verify env token now = None \<Longrightarrow> e \<le> now"
  unfolding lives_until_def by (metis linorder_not_less option.distinct(1))

lemma lives_hash: "lives_until env token e \<Longrightarrow> je_sha env other = je_sha env token \<Longrightarrow> other = token"
  by (simp add: lives_until_def)

lemma deny_reaches:
  assumes "world log t ks" "system env cfg ops log" "lives_until env token e"
    "(i, t1, Redis (SET_EX (deny_key env token) v n), r) \<in> set log"
  shows "e \<le> t1 + n"
proof -
  let ?e = "(i, t1, Redis (SET_EX (deny_key env token) v n), r)"
  obtain l1 l2 where l: "log = l1 @ ?e # l2" using assms(4) by (auto simp: in_set_conv_decomp)
  have s: "system env cfg ops (l1 @ [?e])" using assms(2) follows_prefix [of _ "l1 @ [?e]" l2] l by simp
  from world_entry [of l1 i t1 "Redis (SET_EX (deny_key env token) v n)" r l2] assms(1) l
  obtain t0 ks0 where w: "world l1 t0 ks0" "t0 \<le> t1" by blast
  from system_token [OF s] obtain e' y where y: "(Clock, y) \<in> set (own i l1)" "n = e' - time_of y"
      and k: "known_expiry env (own i l1) (je_sha env token) e'"
    by (auto simp: token_write_def deny_key_def)
  from y(1) obtain t2 where t2: "(i, t2, Clock, y) \<in> set l1" by (auto simp: own_member)
  then have "time_of y = t2" "t2 \<le> t1" using clock_is_time [OF w(1) t2] world_time [OF w(1) t2] w(2) by (auto simp: time_of_def)
  moreover have "e' = e"
    using k unfolding known_expiry_def
  proof (elim disjE exE conjE)
    fix tok assume "je_sha env token = je_sha env tok" "token_expiry env (own i l1) tok e'"
    then show ?thesis
      using lives_hash [OF assms(3), of tok] lives_expiry [OF assms(3)] by (auto simp: token_expiry_def)
  next
    fix k a m assume m: "(Redis (SMEMBERS k), a) \<in> set (own i l1)" "m \<in> set (names_of a)" "parse_member m = Some (je_sha env token, e')"
    then obtain t3 where "(i, t3, Redis (SMEMBERS k), a) \<in> set l1" by (auto simp: own_member)
    from smembers_registered [OF w(1) follows_prefix [OF s] this m(2)] obtain tok e'' now d
      where g: "m = member_text env tok e''" "je_verify env tok now = Some d" "jd_exp d = Some e''" by (auto simp: registered_def)
    from parse_member_text [of env tok e''] m(3) g(1) have "je_sha env tok = je_sha env token" "e' = int (nat e'')" by auto
    moreover from this(1) lives_hash [OF assms(3)] have "tok = token" by simp
    moreover from this g(2,3) lives_expiry [OF assms(3)] have "e'' = e" by simp
    ultimately show ?thesis using assms(3) by (simp add: lives_until_def)
  qed
  ultimately show ?thesis using y(2) by simp
qed


section \<open>A key that is held\<close>

definition held :: "keyspace \<Rightarrow> string \<Rightarrow> int \<Rightarrow> bool" where
  "held ks k x \<longleftrightarrow> ks_text ks k \<noteq> None \<and> (\<exists>E. ks_expiry ks k = Some E \<and> x \<le> E)"

fun keeps :: "string \<Rightarrow> int \<Rightarrow> int \<Rightarrow> action \<Rightarrow> bool" where
  "keeps k x t (Redis (SET_EX k' v n)) \<longleftrightarrow> k' = k \<longrightarrow> x \<le> t + n"
| "keeps k x t (Redis (SET_KEEPTTL k' v)) \<longleftrightarrow> k' \<noteq> k"
| "keeps k x t (Redis (DEL k')) \<longleftrightarrow> k' \<noteq> k"
| "keeps k x t (Redis (EXPIRE_NX k' n)) \<longleftrightarrow> k' \<noteq> k"
| "keeps k x t (Redis (EXPIRE_GT k' n)) \<longleftrightarrow> k' \<noteq> k"
| "keeps k x t a \<longleftrightarrow> True"

lemma held_expire: "held ks k x \<Longrightarrow> t < x \<Longrightarrow> held (expire_key t k' ks) k x"
  by (auto simp: held_def expire_key_def clear_key_def live_at_def)

lemma held_effect:
  assumes "held ks k x" "keeps k x t (Redis c)"
  shows "held (snd (command_effect t c ks)) k x"
  using assms
  by (cases c) (auto simp: held_def put_text_def clear_key_def drop_empty_def has_key_def split: option.splits)

lemma held_step:
  assumes "answered t a log ks r ks'" "held ks k x" "t < x" "keeps k x t a"
  shows "held ks' k x"
proof (cases a)
  case (Redis c)
  from assms(1) Redis have "redis_answers t c ks r ks'" by simp
  then have "ks' = ks \<or> ks' = snd (command_effect t c (expire_key t (key_of c) ks))"
    unfolding redis_answers_def redis_does_def by (metis snd_conv)
  with held_effect [OF held_expire [OF assms(2,3)]] assms(2,4) Redis show ?thesis by blast
qed (use assms in auto)

lemma set_holds:
  "world log t ks \<Longrightarrow> log = pre @ (i, t1, a, Ok_reply) # post \<Longrightarrow> a = Redis (SET_EX k v n) \<or> a = Redis (SET_NX_EX k v n) \<Longrightarrow> x \<le> t1 + n
   \<Longrightarrow> (\<forall>(j, t2, b, r)\<in>set post. t2 < x \<and> keeps k x t2 b) \<Longrightarrow> held ks k x"
proof (induction arbitrary: post rule: world.induct)
  case (world_step log t ks t' b r ks' j)
  show ?case
  proof (cases post rule: rev_cases)
    case Nil
    with world_step.prems(1) have e: "b = a" "r = Ok_reply" "t' = t1" by auto
    with world_step.hyps(3) world_step.prems(2,3) show ?thesis
      by (auto simp: redis_answers_def redis_does_def held_def put_text_def clear_key_def split: if_splits)
  next
    case (snoc post' e)
    with world_step.prems(1) have l: "log = pre @ (i, t1, a, Ok_reply) # post'" "e = (j, t', b, r)" by auto
    with world_step.IH [OF l(1) world_step.prems(2,3)] world_step.prems(4) snoc have "held ks k x" "t' < x" "keeps k x t' b" by auto
    with held_step [OF world_step.hyps(3)] show ?thesis by blast
  qed
qed simp

lemma claim_refused:
  assumes "world (pre @ (i, t1, a, Ok_reply) # mid @ (j, t2, Redis (SET_NX_EX k v' n'), r) # post) t ks"
    and "a = Redis (SET_EX k v n) \<or> a = Redis (SET_NX_EX k v n)" "x \<le> t1 + n" "t2 < x"
    and "\<forall>(j, t', b, r)\<in>set mid. keeps k x t' b"
  shows "r \<noteq> Ok_reply"
proof -
  let ?log = "pre @ (i, t1, a, Ok_reply) # mid"
  have "world (?log @ (j, t2, Redis (SET_NX_EX k v' n'), r) # post) t ks" using assms(1) by simp
  from world_entry [OF this] obtain t0 ks0 ks1 where w: "world ?log t0 ks0" "t0 \<le> t2" "redis_answers t2 (SET_NX_EX k v' n') ks0 r ks1" by auto
  have "t' < x" if "(j', t', b, r') \<in> set mid" for j' t' b r'
    using world_time [OF w(1), of j' t' b r'] that w(2) assms(4) by auto
  with assms(5) have "\<forall>(j, t', b, r)\<in>set mid. t' < x \<and> keeps k x t' b" by fastforce
  from set_holds [OF w(1) refl assms(2,3) this] have "held ks0 k x" .
  from held_expire [OF this assms(4)] w(3) show ?thesis
    by (auto simp: redis_answers_def redis_does_def held_def has_key_def)
qed

section \<open>What a rotation leaves in the log\<close>

definition claim_of :: "jwt_env \<Rightarrow> string \<Rightarrow> action" where
  "claim_of env token = Redis (SET_NX_EX (deny_key env token) True_text 30)"

definition spent_after :: "jwt_env \<Rightarrow> string \<Rightarrow> int \<Rightarrow> trace \<Rightarrow> bool" where
  "spent_after env token e h \<longleftrightarrow>
     (\<exists>v n r. (Redis (SET_EX (deny_key env token) v n), r) \<in> set h \<and> r \<noteq> Failed) \<or> (\<exists>y. (Clock, y) \<in> set h \<and> e \<le> time_of y)"

definition claimed :: "jwt_env \<Rightarrow> string \<Rightarrow> (trace \<Rightarrow> bool) \<Rightarrow> trace \<Rightarrow> bool" where
  "claimed env token P h \<longleftrightarrow> (\<exists>h1 h2. h = h1 @ (claim_of env token, Ok_reply) # h2 \<and> P h2)"

lemma claimed_append:
  assumes "claimed env token P h" "\<And>h2. P h2 \<Longrightarrow> Q (h2 @ h')"
  shows "claimed env token Q (h @ h')"
  using assms unfolding claimed_def by (metis append.assoc append_Cons)

lemma always_claimed:
  assumes "claimed env token P h" "\<And>h h'. P h \<Longrightarrow> P (h @ h')"
  shows "always (\<lambda>_ _. True) (\<lambda>h _. claimed env token P h) h p"
  using assms(1) by (induction p arbitrary: h) (auto intro: claimed_append assms(2))

lemma spent_more: "spent_after env token e h \<Longrightarrow> spent_after env token e (h @ h')"
  by (auto simp: spent_after_def)

lemma deny_spends:
  assumes "claimed env token (\<lambda>_. True) h" "lives_until env token e"
  shows "always (\<lambda>_ _. True) (\<lambda>h r. r = Return () \<longrightarrow> claimed env token (spent_after env token e) h) h (denyRefreshToken env token)"
proof -
  have late: "claimed env token (spent_after env token e) (h @ (Clock, x) # h')" if "je_verify env token (time_of x) = None" for x h'
    using lives_late [OF assms(2) that] by (intro claimed_append [OF assms(1)]) (auto simp: spent_after_def)
  have late2: "claimed env token (spent_after env token e) (h @ [(Clock, x), (Clock, y)])" if "e \<le> time_of y" for x y
    using that by (intro claimed_append [OF assms(1)]) (auto simp: spent_after_def)
  have written: "claimed env token (spent_after env token e) (h @ [(Clock, x), (Clock, y), (Redis (SET_EX (deny_key env token) v n), r)])"
    if "r \<noteq> Failed" for x y v n r
    using that by (intro claimed_append [OF assms(1)]) (auto simp: spent_after_def)
  have e: "e \<noteq> 0" using assms(2) by (simp add: lives_until_def)
  show ?thesis
    using late [where h' = "[]"] late2 written e lives_expiry [OF assms(2)]
    by (auto simp: denyRefreshToken_def verify_jwt_def cacheSetStrict_def split: option.splits sum.splits)
qed


definition rotation_spends :: "jwt_env \<Rightarrow> string \<Rightarrow> int \<Rightarrow> trace \<Rightarrow> refresh_reply \<Rightarrow> bool" where
  "rotation_spends env token e h rep \<longleftrightarrow>
     (\<exists>a n. rr_outcome rep = Rotated a n) \<longrightarrow> claimed env token (spent_after env token e) h"

definition not_rotated :: "refresh_reply io \<Rightarrow> bool" where
  "not_rotated p \<longleftrightarrow> (\<exists>out c. p = reply out c \<and> (\<forall>a n. out \<noteq> Rotated a n))"

lemma not_rotated_spends: "not_rotated p \<Longrightarrow> always (\<lambda>_ _. True) (rotation_spends env token e) h p"
  by (auto simp: not_rotated_def reply_def rotation_spends_def)

lemma not_rotated_burn: "not_rotated p \<Longrightarrow> always (\<lambda>_ _. True) (rotation_spends env token e) h (burn_then env token p)"
  unfolding burn_then_def always_bind
  by (rule always_TrueI) (auto simp: fun_eq_iff reply_def rotation_spends_def not_rotated_def split: sum.splits)

lemma not_rotated_replies [simp]:
  "not_rotated (reply User_not_provisioned c)" "not_rotated (reply (Session_expired s) c)" "not_rotated (reply Rotation_in_flight c)"
  "not_rotated (reply Forwarded_error c)" "not_rotated (reply No_refresh_token c)" "not_rotated (reply Invalid_refresh_token c)"
  "not_rotated (reply Oauth2_rotated c)" "not_rotated (reply Oauth2_refused c)"
  by (auto simp: not_rotated_def)

lemma burn_spends:
  assumes "claimed env token (\<lambda>_. True) h" "lives_until env token e"
  shows "always (\<lambda>_ _. True) (rotation_spends env token e) h (burn_then env token p)"
proof -
  have after: "always (\<lambda>_ _. True) (rotation_spends env token e) h p" if "claimed env token (spent_after env token e) h" for h p
    by (rule always_mono [OF always_claimed [OF that spent_more]]) (simp_all add: rotation_spends_def)
  show ?thesis
    unfolding burn_then_def always_bind
    by (rule always_mono [OF deny_spends [OF assms]]) (auto simp: reply_def rotation_spends_def intro!: after split: sum.splits)
qed

lemma rotate_claimed_spends:
  assumes "lives_until env token e"
  shows "always (\<lambda>_ _. True) (rotation_spends env token e) h (claim_and_rotate env token c wantBody)"
proof -
  have "claimed env token (\<lambda>_. True) (h @ (Redis (SET_NX_EX (deny_key env token) True_text 30), Ok_reply) # h')" for h'
    by (auto simp: claimed_def claim_of_def)
  note burn = burn_spends [OF this assms]
  show ?thesis
    using burn [of "[]"] burn [of "[_]"]
    by (auto simp: claim_and_rotate_def claimRefreshRotation_def cacheSetNx_def rotate_def Let_def intro!: not_rotated_spends
        split: answer.splits option.splits)
qed

lemma always_bindI: "(\<And>h x. always (\<lambda>_ _. True) Q h (f x)) \<Longrightarrow> always (\<lambda>_ _. True) Q h (bind m f)"
  by (simp add: always_TrueI)

lemma refresh_session_spends:
  assumes "lives_until env token e"
  shows "always (\<lambda>_ _. True) (rotation_spends env token e) h (refresh_session env cfg token c wantBody)"
  unfolding refresh_session_def
  by (rule always_bindI) (simp only: always_if not_rotated_burn not_rotated_replies rotate_claimed_spends [OF assms] if_cancel)

definition presented :: "string option \<Rightarrow> string option \<Rightarrow> string option" where
  "presented body cookie = (case body of Some t \<Rightarrow> Some t | None \<Rightarrow> cookie)"

lemma postRefresh_spends:
  assumes "lives_until env token e" "presented body cookie = Some token"
  shows "always (\<lambda>_ _. True) (rotation_spends env token e) h (postRefresh env cfg body cookie browser)"
proof -
  have oauth2: "always (\<lambda>_ _. True) (rotation_spends env token e) h (case r of Token _ \<Rightarrow> reply Oauth2_rotated Cookies_set
      | _ \<Rightarrow> reply Oauth2_refused Cookies_cleared)" for h r
    by (cases r) (simp_all add: not_rotated_spends)
  show ?thesis
    using assms(2) unfolding postRefresh_def presented_def [symmetric]
    by (auto simp: oauth2 not_rotated_spends refresh_session_spends [OF assms(1)] simp del: always_bind intro!: always_bindI split: option.splits)
qed


section \<open>The second claim is refused\<close>

lemma world_later:
  assumes "world (l1 @ (i, t1, a, r) # l2) t ks" "(j, t2, b, s) \<in> set l2"
  shows "t1 \<le> t2"
proof -
  obtain u v where "l2 = u @ (j, t2, b, s) # v" using assms(2) by (auto simp: in_set_conv_decomp)
  with assms(1) have "world ((l1 @ (i, t1, a, r) # u) @ (j, t2, b, s) # v) t ks" by simp
  from world_entry [OF this] obtain t0 ks0 where "world (l1 @ (i, t1, a, r) # u) t0 ks0" "t0 \<le> t2" by blast
  with world_time [of _ t0 ks0 i t1 a r] show ?thesis by fastforce
qed

lemma system_keeps:
  assumes "world log t ks" "system env cfg ops log" "lives_until env token e" "(j, t', b, r) \<in> set log" "x \<le> e"
  shows "keeps (deny_key env token) x t' b"
proof -
  obtain u v where l: "log = u @ (j, t', b, r) # v" using assms(4) by (auto simp: in_set_conv_decomp)
  have "system env cfg ops (u @ [(j, t', b, r)])" using assms(2) follows_prefix [of _ "u @ [(j, t', b, r)]" v] l by simp
  from system_token [OF this] have w: "token_write env (own j u) b" .
  have "x \<le> t' + n" if "b = Redis (SET_EX (deny_key env token) c n)" for c n
    using deny_reaches [OF assms(1-3)] assms(4,5) that by fastforce
  with w show ?thesis
    by (cases "(deny_key env token, x, t', b)" rule: keeps.cases) (auto simp: token_write_def deny_key_def)
qed

definition prompt :: "int \<Rightarrow> nat \<Rightarrow> entry list \<Rightarrow> bool" where
  "prompt e i log =
     list_all (\<lambda>(j, t, a, r). j = i \<longrightarrow> t < e \<and> list_all (\<lambda>(j', t', a', r'). j' = i \<longrightarrow> t' < t + 30) log) log"

lemma promptD:
  assumes "prompt e i log" "(i, t, a, r) \<in> set log"
  shows "t < e" "(i, t', a', r') \<in> set log \<Longrightarrow> t' < t + 30"
  using assms by (fastforce simp: prompt_def list_all_iff)+

lemma second_claim_refused:
  assumes "world log t ks" "system env cfg ops log" "lives_until env token e"
    and log: "log = l1 @ (i, t1, claim_of env token, Ok_reply) # mid @ (j, t2, claim_of env token, r) # l3"
    and spent: "spent_after env token e (own i (mid @ (j, t2, claim_of env token, r) # l3))" and "prompt e i log" "t2 < e"
  shows "r \<noteq> Ok_reply"
proof (cases "t2 < t1 + 30")
  case True
  have "\<forall>(j, t', b, r)\<in>set mid. keeps (deny_key env token) (min (t1 + 30) e) t' b"
    using system_keeps [OF assms(1-3)] log by fastforce
  moreover have "t2 < min (t1 + 30) e" using True assms(7) by simp
  ultimately show ?thesis
    using assms(1) log unfolding claim_of_def by (intro claim_refused [where x = "min (t1 + 30) e" and n = 30]) auto
next
  case False
  have in_log: "(i, t', a, x) \<in> set log" if "(i, t', a, x) \<in> set (mid @ (j, t2, claim_of env token, r) # l3)" for t' a x
    using that log by auto
  have "\<not> e \<le> time_of y" if "(Clock, y) \<in> set (own i (mid @ (j, t2, claim_of env token, r) # l3))" for y
  proof -
    from that obtain t' where "(i, t', Clock, y) \<in> set log" using in_log by (fastforce simp: own_member)
    with clock_is_time [OF assms(1) this] promptD(1) [OF assms(6)] show ?thesis by (fastforce simp: time_of_def)
  qed
  with spent obtain v n x where "(Redis (SET_EX (deny_key env token) v n), x) \<in> set (own i (mid @ (j, t2, claim_of env token, r) # l3))" "x \<noteq> Failed"
    unfolding spent_after_def by blast
  then obtain t' where t': "(i, t', Redis (SET_EX (deny_key env token) v n), x) \<in> set (mid @ (j, t2, claim_of env token, r) # l3)"
    by (auto simp: own_member)
  have "(i, t1, claim_of env token, Ok_reply) \<in> set log" using log by simp
  from promptD(2) [OF assms(6) this in_log [OF t']] have "t' < t1 + 30" .
  then have "(i, t', Redis (SET_EX (deny_key env token) v n), x) \<notin> set l3"
    using world_later [of "l1 @ (i, t1, claim_of env token, Ok_reply) # mid" j t2] assms(1) log False by fastforce
  with t' have "(i, t', Redis (SET_EX (deny_key env token) v n), x) \<in> set mid" by (auto simp: claim_of_def)
  then obtain m1 m2 where m: "mid = m1 @ (i, t', Redis (SET_EX (deny_key env token) v n), x) # m2" by (auto simp: in_set_conv_decomp)
  let ?pre = "l1 @ (i, t1, claim_of env token, Ok_reply) # m1"
  have w: "world (?pre @ (i, t', Redis (SET_EX (deny_key env token) v n), x) # m2 @ (j, t2, claim_of env token, r) # l3) t ks"
    using assms(1) log m by simp
  from world_entry [OF w] \<open>x \<noteq> Failed\<close> have x: "x = Ok_reply" by (auto simp: redis_answers_def redis_does_def)
  have "\<forall>(j, t', b, r)\<in>set m2. keeps (deny_key env token) e t' b"
    using system_keeps [OF assms(1-3)] log m by fastforce
  moreover have "e \<le> t' + n" using deny_reaches [OF assms(1-3)] in_log [OF t'] by blast
  ultimately show ?thesis
    using claim_refused [OF w [unfolded claim_of_def x] _ _ assms(7)] by blast
qed

section \<open>A refresh token is spent once\<close>

definition rotated :: "jwt_env \<Rightarrow> session_config \<Rightarrow> session_op \<Rightarrow> string \<Rightarrow> trace \<Rightarrow> bool" where
  "rotated env cfg op token h \<longleftrightarrow>
     (case op of
        Op_refresh body cookie browser \<Rightarrow> presented body cookie = Some token
          \<and> (case result_of (postRefresh env cfg body cookie browser) h of
               Some rep \<Rightarrow> (case rr_outcome rep of Rotated a n \<Rightarrow> True | _ \<Rightarrow> False)
             | None \<Rightarrow> False)
      | _ \<Rightarrow> False)"

lemma rotated_claimed:
  assumes "rotated env cfg op token h" "lives_until env token e"
  shows "claimed env token (spent_after env token e) h"
proof -
  obtain body cookie browser rep where "presented body cookie = Some token"
    and r: "result_of (postRefresh env cfg body cookie browser) h = Some rep" "\<exists>a n. rr_outcome rep = Rotated a n"
    using assms(1) by (auto simp: rotated_def split: session_op.splits option.splits refresh_outcome.splits)
  from always_result [OF postRefresh_spends [OF assms(2) this(1)] r(1)] r(2) show ?thesis by (simp add: rotation_spends_def)
qed

lemma rotated_claim_in_log:
  assumes "rotated env cfg op token (own i log)" "lives_until env token e"
  shows "\<exists>l1 t l2. log = l1 @ (i, t, claim_of env token, Ok_reply) # l2 \<and> spent_after env token e (own i l2)"
proof -
  obtain h1 h2 where h: "own i log = h1 @ (claim_of env token, Ok_reply) # h2" "spent_after env token e h2"
    using rotated_claimed [OF assms] unfolding claimed_def by blast
  from own_split [OF h(1)] obtain l1 t l2 where l: "log = l1 @ (i, t, claim_of env token, Ok_reply) # l2" "own i l1 = h1" by blast
  with h show ?thesis by (auto simp: own_Cons)
qed

text \<open>
  C11. A refresh token is spent once: under every interleaving of the session programs, of all refresh requests
  that present a token at most one gets a new pair, as long as these requests finish within the thirty seconds of
  their claim and before the token expires.  The token verifies until its expiry and no other text has its hash.
\<close>

theorem refresh_token_spent_once:
  assumes "world log t ks" "system env cfg ops log" "lives_until env token e"
    and "rotated env cfg (ops i) token (own i log)" "rotated env cfg (ops j) token (own j log)"
    and "prompt e i log" "prompt e j log"
  shows "i = j"
proof (rule ccontr)
  assume "i \<noteq> j"
  let ?c = "claim_of env token"
  from rotated_claim_in_log [OF assms(4,3)] obtain l1 ti l2
    where i: "log = l1 @ (i, ti, ?c, Ok_reply) # l2" "spent_after env token e (own i l2)" by blast
  from rotated_claim_in_log [OF assms(5,3)] obtain m1 tj m2
    where j: "log = m1 @ (j, tj, ?c, Ok_reply) # m2" "spent_after env token e (own j m2)" by blast
  have "(i, ti, ?c, Ok_reply) \<in> set log" "(j, tj, ?c, Ok_reply) \<in> set log" by (simp add: i(1)) (simp add: j(1))
  then have e: "ti < e" "tj < e" using promptD(1) assms(6,7) by blast+
  from i(1) j(1) \<open>i \<noteq> j\<close> consider mid where "l2 = mid @ (j, tj, ?c, Ok_reply) # m2" | mid where "m2 = mid @ (i, ti, ?c, Ok_reply) # l2"
    by (auto simp: append_eq_append_conv2 append_eq_Cons_conv Cons_eq_append_conv)
  then show False
  proof cases
    case 1
    with second_claim_refused [OF assms(1-3), of l1 i ti mid j tj Ok_reply m2] i assms(6) e show False by simp
  next
    case 2
    with second_claim_refused [OF assms(1-3), of m1 j tj mid i ti Ok_reply l2] j assms(7) e show False by simp
  qed
qed


text \<open>Ann's browser submits its refresh token twice at once.\<close>

definition sample_claims :: "int \<Rightarrow> jwt_decoded" where
  "sample_claims e = \<lparr>jd_type = Some ''refresh'', jd_sub = Some ''ann'', jd_username = Some ''ann'', jd_displayName = None,
     jd_role = Some family, jd_sid = Some ''s1'', jd_exp = Some e\<rparr>"

definition two_tokens :: jwt_env where
  "two_tokens = \<lparr>je_verify = (\<lambda>token now. if token = ''r1'' then (if now < 1000 then Some (sample_claims 1000) else None)
      else if token = ''r2'' then (if now < 2000 then Some (sample_claims 2000) else None) else None),
     je_sha = id, je_prisma = True, je_oauth2 = False\<rparr>"

definition new_claims :: "string \<Rightarrow> string option option \<Rightarrow> token_claims" where
  "new_claims kind access = \<lparr>tc_type = kind, tc_sub = ''ann'', tc_username = ''ann'', tc_displayName = ''ann'', tc_role = family,
     tc_sid = Some ''s1'', tc_accessRoleId = access\<rparr>"

definition submit_log :: "nat \<Rightarrow> entry list" where
  "submit_log i =
     [(i, 10, Clock, Time 10), (i, 10, Redis (GET (deny_key two_tokens ''r1'')), Nil_reply),
      (i, 10, Redis (GET (rec_key ''s1'')), Text (Session_text sample_record)), (i, 10, Clock, Time 10)]"

definition double_log :: "entry list" where
  "double_log = login_log @ submit_log 1 @ submit_log 2
     @ [(1, 10, claim_of two_tokens ''r1'', Ok_reply),
        (2, 10, claim_of two_tokens ''r1'', Nil_reply),
        (1, 10, Find_user ''ann'', Row (Some \<lparr>ur_role = Some family, ur_deactivated = False, ur_accessRoleId = None\<rparr>)),
        (1, 11, Clock, Time 11), (1, 11, Clock, Time 11),
        (1, 11, Redis (SET_EX (deny_key two_tokens ''r1'') True_text 989), Ok_reply),
        (1, 11, Clock, Time 11), (1, 11, Redis (SREM (sessions_key ''ann'') (member_text two_tokens ''r1'' 1000)), Count 0),
        (1, 11, Sign (new_claims ''refresh'' None), Token ''r2''), (1, 11, Sign (new_claims ''access'' (Some None)), Token ''a2''),
        (1, 11, Clock, Time 11), (1, 11, Clock, Time 11),
        (1, 11, Redis (SADD (sessions_key ''ann'') (member_text two_tokens ''r2'' 2000)), Count 1),
        (1, 11, Redis (EXPIRE_NX (sessions_key ''ann'') 1989), Count 1),
        (1, 11, Redis (EXPIRE_GT (sessions_key ''ann'') 1989), Count 0),
        (1, 11, Touch_nc_token ''ann'', Ok_reply)]"

definition double_ops :: "nat \<Rightarrow> session_op" where
  "double_ops i = (if i = 0 then Op_login ''ann'' family else Op_refresh None (Some ''r1'') True)"

theorem refresh_token_spent_once_witness:
  "Set.filter (\<lambda>j. rotated two_tokens default_limits (double_ops j) ''r1'' (own j double_log)) {1, 2} = {1}"
proof -
  have "\<exists>ks. world double_log 11 ks \<and> True" by (rule replay_from_start) code_simp
  then obtain ks where w: "world double_log 11 ks" by blast
  have s: "system two_tokens default_limits double_ops double_log" by (rule four_requests; code_simp)
  have l: "lives_until two_tokens ''r1'' 1000" 
    by (auto simp: lives_until_def two_tokens_def sample_claims_def intro!: exI [of _ "sample_claims 1000"])
  have r: "rotated two_tokens default_limits (double_ops 1) ''r1'' (own 1 double_log)" by code_simp
  have p: "prompt 1000 1 double_log" "prompt 1000 2 double_log" by code_simp+
  from refresh_token_spent_once [OF w s l _ r p(1) p(1)] refresh_token_spent_once [OF w s l _ r p(2) p(1)] r show ?thesis
    by auto
qed


text \<open>
  The loser of a double submission is told to retry only when it read the denylist before the winner's claim.  The
  claim is the denylist entry, so a request that arrives while the rotation is in flight is told that the token
  is invalid, and its cookies are cleared.
\<close>

definition late_submit_log :: "entry list" where
  "late_submit_log = login_log @ submit_log 1
     @ [(1, 10, claim_of two_tokens ''r1'', Ok_reply),
        (2, 10, Clock, Time 10), (2, 10, Redis (GET (deny_key two_tokens ''r1'')), Text True_text)]"

theorem late_submit_loses_cookies:
  "\<exists>ks. world late_submit_log 10 ks \<and> system two_tokens default_limits double_ops late_submit_log
     \<and> result_of (postRefresh two_tokens default_limits None (Some ''r1'') True) (own 1 late_submit_log) = None
     \<and> result_of (postRefresh two_tokens default_limits None (Some ''r1'') True) (own 2 late_submit_log)
       = Some \<lparr>rr_outcome = Invalid_refresh_token, rr_cookies = Cookies_cleared, rr_in_body = False\<rparr>"
proof -
  have "\<exists>ks. world late_submit_log 10 ks \<and> True" by (rule replay_from_start) code_simp
  moreover have "system two_tokens default_limits double_ops late_submit_log" by (rule four_requests; code_simp)
  moreover have "Option.is_none (result_of (postRefresh two_tokens default_limits None (Some ''r1'') True) (own 1 late_submit_log))" by code_simp
  moreover have "result_of (postRefresh two_tokens default_limits None (Some ''r1'') True) (own 2 late_submit_log)
       = Some \<lparr>rr_outcome = Invalid_refresh_token, rr_cookies = Cookies_cleared, rr_in_body = False\<rparr>" by code_simp
  ultimately show ?thesis by (simp add: Option.is_none_def)
qed

end
