(* ===== verification/Outbox.thy ===== *)
theory Outbox
  imports Prelude "HOL-Library.Char_ord" "HOL-Library.List_Lexorder" "HOL-Library.Product_Lexorder"
begin

text \<open>
  The outbox over the activity table of the work suite, \<^verbatim>\<open>apps/orchestrator/src/services/pm/pm-outbox.ts\<close>: a consumer's
  cursor, the batch it reads after it, and the sweep that handles the rows in order and dead-letters a row that keeps
  failing.  Rows are stamped when their \<^verbatim>\<open>INSERT\<close> is issued and become visible when their transaction commits, at most
  \<open>tx_limit\<close> milliseconds later; the order of ids is the order of texts.  Log lines, the registry and the timer of
  \<^verbatim>\<open>nudgeOutbox\<close> are left out: they only decide when a sweep starts.
\<close>

section \<open>Rows and cursors\<close>

record activity_row =
  ac_id :: string
  ac_createdAt :: int
  ac_verb :: string
  ac_workItemId :: "string option"
  ac_deletedWorkItemId :: "string option"

type_synonym cursor = "int \<times> string"

definition row_key :: "activity_row \<Rightarrow> cursor" where
  "row_key r = (ac_createdAt r, ac_id r)"

text \<open>The JSON value of the flag: a cursor, or a value \<^verbatim>\<open>parseCursor\<close> refuses.\<close>

datatype flag_value = Cursor cursor | Unreadable

datatype outbox_error = Unreadable_cursor | Bad_limit | Handler_failed

definition DEFAULT_OUTBOX_SETTLE_MS :: int where
  "DEFAULT_OUTBOX_SETTLE_MS = 6000"

definition DEFAULT_OUTBOX_BATCH :: nat where
  "DEFAULT_OUTBOX_BATCH = 100"

definition DEFAULT_OUTBOX_POISON_AFTER_MS :: int where
  "DEFAULT_OUTBOX_POISON_AFTER_MS = 5 * 60000"

definition MAX_BATCHES_PER_SWEEP :: nat where
  "MAX_BATCHES_PER_SWEEP = 50"

definition POISON_MIN_FAILURES :: nat where
  "POISON_MIN_FAILURES = 3"

definition loadCursor :: "int \<Rightarrow> flag_value option \<Rightarrow> (outbox_error, cursor) result \<times> flag_value option" where
  "loadCursor now flag =
     (let row = (case flag of Some v \<Rightarrow> v | None \<Rightarrow> Cursor (now, []))
      in (case row of Cursor c \<Rightarrow> Return c | Unreadable \<Rightarrow> Throw Unreadable_cursor, Some row))"

definition seen_by :: "string \<Rightarrow> activity_row \<Rightarrow> bool" where
  "seen_by consumer r \<longleftrightarrow>
     (if consumer = ''pm-live'' then ac_workItemId r \<noteq> None \<or> ac_deletedWorkItemId r \<noteq> None else ac_workItemId r \<noteq> None)"

definition batch_filter :: "string \<Rightarrow> cursor \<Rightarrow> int \<Rightarrow> activity_row \<Rightarrow> bool" where
  "batch_filter consumer cur settledBefore r \<longleftrightarrow>
     seen_by consumer r \<and> (fst cur < ac_createdAt r \<or> ac_createdAt r = fst cur \<and> snd cur < ac_id r) \<and> ac_createdAt r \<le> settledBefore"

definition next_rows :: "string \<Rightarrow> cursor \<Rightarrow> int \<Rightarrow> nat \<Rightarrow> activity_row list \<Rightarrow> activity_row list" where
  "next_rows consumer cur settledBefore limit rows = take limit (sort_key row_key (filter (batch_filter consumer cur settledBefore) rows))"

definition readOutboxBatch ::
  "string \<Rightarrow> nat \<Rightarrow> int \<Rightarrow> int \<Rightarrow> activity_row list \<Rightarrow> flag_value option \<Rightarrow> (outbox_error, activity_row list) result \<times> flag_value option" where
  "readOutboxBatch consumer limit settleMs now rows flag =
     (if limit < 1 then (Throw Bad_limit, flag)
      else (case loadCursor now flag of
          (Inl e, flag') \<Rightarrow> (Throw e, flag')
        | (Inr cur, flag') \<Rightarrow> (Return (next_rows consumer cur (now - settleMs) limit rows), flag')))"

definition advanceOutboxCursor :: "activity_row \<Rightarrow> flag_value option \<Rightarrow> flag_value option" where
  "advanceOutboxCursor row flag = Some (Cursor (row_key row))"

section \<open>The sweep\<close>

type_synonym tracked = "(string, int \<times> nat) jsmap"

definition note_failure :: "tracked \<Rightarrow> string \<Rightarrow> int \<Rightarrow> int \<times> nat" where
  "note_failure tr rowId at = (case map_of tr rowId of Some (firstAt, count) \<Rightarrow> (firstAt, count + 1) | None \<Rightarrow> (at, 1))"

definition is_poison :: "int \<Rightarrow> int \<Rightarrow> int \<times> nat \<Rightarrow> bool" where
  "is_poison poisonAfterMs at entry \<longleftrightarrow> POISON_MIN_FAILURES \<le> snd entry \<and> poisonAfterMs \<le> at - fst entry"

record 's sweep =
  sw_flag :: "flag_value option"
  sw_tracked :: tracked
  sw_clock :: "int list"
  sw_store :: 's
  sw_handled :: nat
  sw_deadLettered :: nat

text \<open>Each call of \<^verbatim>\<open>now()\<close> takes the next reading; when none is left the clock stands at the last one given.\<close>

definition read_clock :: "'s sweep \<Rightarrow> int \<times> 's sweep" where
  "read_clock s = (case sw_clock s of [] \<Rightarrow> (0, s) | t # ts \<Rightarrow> (t, s\<lparr>sw_clock := (if ts = [] then [t] else ts)\<rparr>))"

record 's consumer =
  oc_name :: string
  oc_batchSize :: nat
  oc_settleMs :: int
  oc_poisonAfterMs :: int
  oc_handle :: "activity_row \<Rightarrow> 's \<Rightarrow> bool \<times> 's"

definition finish_row :: "activity_row \<Rightarrow> 's sweep \<Rightarrow> 's sweep" where
  "finish_row row s = s\<lparr>sw_tracked := map_delete (ac_id row) (sw_tracked s), sw_flag := advanceOutboxCursor row (sw_flag s)\<rparr>"

fun sweep_rows :: "'s consumer \<Rightarrow> activity_row list \<Rightarrow> 's sweep \<Rightarrow> outbox_error option \<times> 's sweep" where
  "sweep_rows oc [] s = (None, s)"
| "sweep_rows oc (row # rows) s =
     (case oc_handle oc row (sw_store s) of
        (True, store) \<Rightarrow> sweep_rows oc rows (finish_row row (s\<lparr>sw_store := store, sw_handled := sw_handled s + 1\<rparr>))
      | (False, store) \<Rightarrow>
          (case read_clock (s\<lparr>sw_store := store\<rparr>) of
             (at, s1) \<Rightarrow>
               let entry = note_failure (sw_tracked s1) (ac_id row) at;
                   s2 = s1\<lparr>sw_tracked := map_set (ac_id row) entry (sw_tracked s1)\<rparr>
               in if is_poison (oc_poisonAfterMs oc) at entry
                  then sweep_rows oc rows (finish_row row (s2\<lparr>sw_deadLettered := sw_deadLettered s2 + 1\<rparr>))
                  else (Some Handler_failed, s2)))"

fun sweep_batches :: "nat \<Rightarrow> 's consumer \<Rightarrow> activity_row list \<Rightarrow> 's sweep \<Rightarrow> outbox_error option \<times> 's sweep" where
  "sweep_batches 0 oc table s = (None, s)"
| "sweep_batches (Suc n) oc table s =
     (case read_clock s of
        (now, s1) \<Rightarrow>
          (case readOutboxBatch (oc_name oc) (oc_batchSize oc) (oc_settleMs oc) now table (sw_flag s1) of
             (Inl e, flag) \<Rightarrow> (Some e, s1\<lparr>sw_flag := flag\<rparr>)
           | (Inr rows, flag) \<Rightarrow>
               (case sweep_rows oc rows (s1\<lparr>sw_flag := flag\<rparr>) of
                  (Some e, s2) \<Rightarrow> (Some e, s2)
                | (None, s2) \<Rightarrow> if length rows < oc_batchSize oc then (None, s2) else sweep_batches n oc table s2)))"

definition runOutboxSweep :: "'s consumer \<Rightarrow> activity_row list \<Rightarrow> 's sweep \<Rightarrow> outbox_error option \<times> 's sweep" where
  "runOutboxSweep oc table s = sweep_batches MAX_BATCHES_PER_SWEEP oc table (s\<lparr>sw_handled := 0, sw_deadLettered := 0\<rparr>)"

end
