(* ===== verification/Ip_Address.thy ===== *)
theory Ip_Address
  imports Prelude "HOL-Library.Word"
begin

text \<open>
  What \<^verbatim>\<open>lib/outbound-url-guard.ts\<close> uses of \<^verbatim>\<open>node:net\<close>: the texts \<^verbatim>\<open>isIP\<close> accepts, with the address they
  denote, and \<^verbatim>\<open>BlockList\<close>.  An IPv4 address is a 32-bit word, an IPv6 address a 128-bit word.  A block list compares
  addresses of both families: an IPv4 address is the IPv6 address that maps it, and an IPv4 subnet of prefix \<open>p\<close> is
  the subnet of prefix \<open>96 + p\<close> of the mapped addresses.
\<close>

section \<open>Texts\<close>

text \<open>\<^verbatim>\<open>s.split(c)\<close>; the result is never empty.\<close>

fun split_on :: "char \<Rightarrow> string \<Rightarrow> string list" where
  "split_on c [] = [[]]"
| "split_on c (x # xs) = (if x = c then [] # split_on c xs else (case split_on c xs of [] \<Rightarrow> [[x]] | w # ws \<Rightarrow> (x # w) # ws))"

definition before_first :: "char \<Rightarrow> string \<Rightarrow> string" where
  "before_first c s = takeWhile (\<lambda>x. x \<noteq> c) s"

lemma split_on_nonempty [simp]: "split_on c s \<noteq> []"
  by (cases s) (auto split: list.splits)

lemma hd_split_on: "hd (split_on c s) = before_first c s"
  by (induction s) (auto simp: before_first_def split: list.splits dest: split_on_nonempty [THEN notE])

lemma split_on_plain: "c \<notin> set s \<Longrightarrow> split_on c s = [s]"
  by (induction s) auto

lemma split_on_append: "c \<notin> set a \<Longrightarrow> split_on c (a @ c # b) = a # split_on c b"
  by (induction a) auto

section \<open>Addresses\<close>

datatype ip = V4 "32 word" | V6 "128 word"

definition digits_int :: "string \<Rightarrow> int" where
  "digits_int s = foldl (\<lambda>acc c. 10 * acc + (of_char c - 48)) 0 s"

definition octet :: "string \<Rightarrow> int option" where
  "octet s =
     (if s \<noteq> [] \<and> length s \<le> 3 \<and> list_all is_digit s \<and> (length s = 1 \<or> hd s \<noteq> CHR ''0'') \<and> digits_int s \<le> 255
      then Some (digits_int s) else None)"

definition quad :: "int \<Rightarrow> int \<Rightarrow> int \<Rightarrow> int \<Rightarrow> 32 word" where
  "quad a b c d = word_of_int (((a * 256 + b) * 256 + c) * 256 + d)"

definition parse_ipv4 :: "string \<Rightarrow> 32 word option" where
  "parse_ipv4 s =
     (case map octet (split_on CHR ''.'' s) of
        [Some a, Some b, Some c, Some d] \<Rightarrow> Some (quad a b c d)
      | _ \<Rightarrow> None)"

definition hex_val :: "char \<Rightarrow> int option" where
  "hex_val c =
     (let n = of_char c in
      if 48 \<le> n \<and> n \<le> 57 then Some (n - 48)
      else if 97 \<le> n \<and> n \<le> 102 then Some (n - 87)
      else if 65 \<le> n \<and> n \<le> 70 then Some (n - 55)
      else None)"

fun hex_digits :: "string \<Rightarrow> int \<Rightarrow> int option" where
  "hex_digits [] acc = Some acc"
| "hex_digits (c # cs) acc = (case hex_val c of None \<Rightarrow> None | Some v \<Rightarrow> hex_digits cs (16 * acc + v))"

definition hextet :: "string \<Rightarrow> int option" where
  "hextet s = (if s \<noteq> [] \<and> length s \<le> 4 then hex_digits s 0 else None)"

text \<open>The groups of a run of hextets; the last one of an address may be a dotted IPv4 address, two groups wide.\<close>

fun groups :: "bool \<Rightarrow> string list \<Rightarrow> int list option" where
  "groups tail [] = Some []"
| "groups tail [s] =
     (if tail \<and> CHR ''.'' \<in> set s
      then map_option (\<lambda>w. [uint w div 65536, uint w mod 65536]) (parse_ipv4 s)
      else map_option (\<lambda>v. [v]) (hextet s))"
| "groups tail (s # t # rest) =
     (case (hextet s, groups tail (t # rest)) of (Some v, Some vs) \<Rightarrow> Some (v # vs) | _ \<Rightarrow> None)"

definition group_run :: "bool \<Rightarrow> string \<Rightarrow> int list option" where
  "group_run tail s = (if s = [] then Some [] else groups tail (split_on CHR '':'' s))"

fun split_double :: "string \<Rightarrow> (string \<times> string) option" where
  "split_double (a # b # s) =
     (if a = CHR '':'' \<and> b = CHR '':'' then Some ([], s) else map_option (\<lambda>(l, r). (a # l, r)) (split_double (b # s)))"
| "split_double s = None"

definition of_groups :: "int list \<Rightarrow> 128 word" where
  "of_groups gs = word_of_int (foldl (\<lambda>acc g. 65536 * acc + g) 0 gs)"

definition zone_char :: "char \<Rightarrow> bool" where
  "zone_char c \<longleftrightarrow> is_digit c \<or> (let n = of_char c :: nat in 97 \<le> n \<and> n \<le> 122 \<or> 65 \<le> n \<and> n \<le> 90) \<or> c \<in> {CHR ''-'', CHR ''.'', CHR '':''}"

definition zone_ok :: "string \<Rightarrow> bool" where
  "zone_ok s = (case dropWhile (\<lambda>c. c \<noteq> CHR ''%'') s of [] \<Rightarrow> True | _ # z \<Rightarrow> z \<noteq> [] \<and> list_all zone_char z)"

definition parse_ipv6 :: "string \<Rightarrow> 128 word option" where
  "parse_ipv6 t =
     (let s = before_first CHR ''%'' t in
      if \<not> zone_ok t then None
      else (case split_double s of
          None \<Rightarrow> (case groups True (split_on CHR '':'' s) of Some gs \<Rightarrow> if length gs = 8 then Some (of_groups gs) else None | None \<Rightarrow> None)
        | Some (l, r) \<Rightarrow>
            (case (group_run False l, group_run True r) of
               (Some a, Some b) \<Rightarrow>
                 if length a + length b \<le> 7 then Some (of_groups (a @ replicate (8 - (length a + length b)) 0 @ b)) else None
             | _ \<Rightarrow> None)))"

text \<open>\<^verbatim>\<open>isIP\<close> is 4, 6 or 0; \<open>parse_ip\<close> is the address it found.\<close>

definition parse_ip :: "string \<Rightarrow> ip option" where
  "parse_ip s = (case parse_ipv4 s of Some w \<Rightarrow> Some (V4 w) | None \<Rightarrow> map_option V6 (parse_ipv6 s))"

definition isIP :: "string \<Rightarrow> nat" where
  "isIP s = (case parse_ip s of None \<Rightarrow> 0 | Some (V4 _) \<Rightarrow> 4 | Some (V6 _) \<Rightarrow> 6)"

section \<open>Block lists\<close>

definition wide :: "ip \<Rightarrow> 128 word" where
  "wide a = (case a of V4 w \<Rightarrow> word_of_int (0xffff * 2 ^ 32 + uint w) | V6 w \<Rightarrow> w)"

type_synonym block_list = "(128 word \<times> nat) list"

definition wide_prefix :: "ip \<Rightarrow> nat \<Rightarrow> nat" where
  "wide_prefix a p = (case a of V4 _ \<Rightarrow> 96 + p | V6 _ \<Rightarrow> p)"

definition addSubnet :: "ip \<Rightarrow> nat \<Rightarrow> block_list \<Rightarrow> block_list" where
  "addSubnet net p bl = bl @ [(wide net, wide_prefix net p)]"

definition addAddress :: "ip \<Rightarrow> block_list \<Rightarrow> block_list" where
  "addAddress a bl = bl @ [(wide a, 128)]"

definition in_subnet :: "128 word \<Rightarrow> 128 word \<times> nat \<Rightarrow> bool" where
  "in_subnet a s = (drop_bit (128 - snd s) a = drop_bit (128 - snd s) (fst s))"

definition bl_check :: "block_list \<Rightarrow> ip \<Rightarrow> bool" where
  "bl_check bl a = list_ex (in_subnet (wide a)) bl"

text \<open>A subnet as an interval of numbers.\<close>

lemma drop_bit_uint: "uint (drop_bit k (a :: 128 word)) = uint a div 2 ^ k"
proof -
  have "take_bit 128 (uint a) = uint a" by transfer simp
  then show ?thesis unfolding unsigned_drop_bit_eq by (simp add: drop_bit_eq_div)
qed

lemma div_is_iff:
  assumes "0 < (k :: int)"
  shows "a div k = q \<longleftrightarrow> k * q \<le> a \<and> a < k * q + k"
proof
  assume q: "a div k = q"
  have "a = k * q + a mod k" using mult_div_mod_eq [of k a] q by simp
  with pos_mod_sign [OF assms, of a] pos_mod_bound [OF assms, of a] show "k * q \<le> a \<and> a < k * q + k" by (intro conjI) linarith+
next
  assume "k * q \<le> a \<and> a < k * q + k"
  with int_div_pos_eq [of a k q "a - k * q"] show "a div k = q" by simp
qed

lemma in_subnet_interval:
  assumes "2 ^ (128 - p) dvd uint n"
  shows "in_subnet a (n, p) \<longleftrightarrow> uint n \<le> uint a \<and> uint a < uint n + 2 ^ (128 - p)"
proof -
  let ?k = "2 ^ (128 - p) :: int"
  obtain q where q: "uint n = ?k * q" using assms by (elim dvdE)
  have "in_subnet a (n, p) \<longleftrightarrow> uint a div ?k = uint n div ?k"
    unfolding in_subnet_def fst_conv snd_conv by (metis drop_bit_uint word_uint_eq_iff)
  also have "\<dots> \<longleftrightarrow> uint a div ?k = q" by (simp add: q)
  also have "\<dots> \<longleftrightarrow> ?k * q \<le> uint a \<and> uint a < ?k * q + ?k" by (rule div_is_iff) simp
  finally show ?thesis by (simp add: q)
qed


section \<open>The texts of addresses\<close>

definition address_char :: "char \<Rightarrow> bool" where
  "address_char c \<longleftrightarrow> hex_val c \<noteq> None \<or> c = CHR ''.'' \<or> c = CHR '':''"

lemma split_on_chars: "x \<in> set s \<Longrightarrow> x = c \<or> (\<exists>w\<in>set (split_on c s). x \<in> set w)"
  by (induction s) (auto split: list.splits if_splits)

lemma hex_val_iff: "hex_val c \<noteq> None \<longleftrightarrow> (let n = (of_char c :: nat) in 48 \<le> n \<and> n \<le> 57 \<or> 97 \<le> n \<and> n \<le> 102 \<or> 65 \<le> n \<and> n \<le> 70)"
proof -
  have "(of_char c :: int) = int (of_char c)" by (rule of_nat_of_char [symmetric])
  then show ?thesis by (simp add: hex_val_def Let_def)
qed

lemma digit_is_hex: "is_digit c \<Longrightarrow> hex_val c \<noteq> None"
  unfolding hex_val_iff by (simp add: is_digit_def Let_def)

lemma octet_digits: "octet s = Some v \<Longrightarrow> x \<in> set s \<Longrightarrow> is_digit x"
  by (auto simp: octet_def list_all_iff split: if_splits)

lemma parse_ipv4_chars:
  assumes "parse_ipv4 s = Some w" "x \<in> set s"
  shows "is_digit x \<or> x = CHR ''.''"
proof -
  have "\<exists>v. octet p = Some v" if "p \<in> set (split_on CHR ''.'' s)" for p
  proof -
    have "octet p \<in> set (map octet (split_on CHR ''.'' s))" using that by simp
    moreover have "None \<notin> set (map octet (split_on CHR ''.'' s))"
      using assms(1) by (auto simp: parse_ipv4_def split: list.splits option.splits)
    ultimately have "octet p \<noteq> None" by metis
    then show ?thesis by blast
  qed
  with split_on_chars [OF assms(2), of "CHR ''.''"] octet_digits show ?thesis by blast
qed

lemma hex_digits_chars: "hex_digits s acc = Some v \<Longrightarrow> x \<in> set s \<Longrightarrow> hex_val x \<noteq> None"
  by (induction s acc arbitrary: v rule: hex_digits.induct) (auto split: option.splits)

lemma hextet_chars: "hextet s = Some v \<Longrightarrow> x \<in> set s \<Longrightarrow> address_char x"
  by (auto simp: hextet_def address_char_def dest: hex_digits_chars split: if_splits)

lemma groups_chars: "groups tail ss = Some gs \<Longrightarrow> s \<in> set ss \<Longrightarrow> x \<in> set s \<Longrightarrow> address_char x"
proof (induction tail ss arbitrary: gs s rule: groups.induct)
  case (2 tail t)
  then show ?case
    by (auto simp: address_char_def dest: parse_ipv4_chars digit_is_hex hextet_chars split: if_splits)
next
  case (3 tail t u rest)
  then show ?case by (auto split: option.splits dest: hextet_chars)
qed simp

lemma split_groups_chars:
  assumes "groups tail (split_on CHR '':'' s) = Some gs" "x \<in> set s"
  shows "address_char x"
  using split_on_chars [OF assms(2), of "CHR '':''"] groups_chars [OF assms(1)] by (auto simp: address_char_def)

lemma group_run_chars: "group_run tail s = Some gs \<Longrightarrow> x \<in> set s \<Longrightarrow> address_char x"
  by (auto simp: group_run_def dest: split_groups_chars split: if_splits)

lemma split_double_text: "split_double s = Some (l, r) \<Longrightarrow> s = l @ '':'' @ '':'' @ r"
  by (induction s arbitrary: l rule: split_double.induct) (auto split: if_splits)

lemma parse_ipv6_chars:
  assumes "parse_ipv6 t = Some w" "x \<in> set (before_first CHR ''%'' t)"
  shows "address_char x"
proof (cases "split_double (before_first CHR ''%'' t)")
  case None
  with assms show ?thesis
    by (auto simp: parse_ipv6_def Let_def split: option.splits if_splits intro: split_groups_chars)
next
  case (Some lr)
  obtain l r where lr: "lr = (l, r)" by (cases lr)
  with assms(1) Some obtain a b where ab: "group_run False l = Some a" "group_run True r = Some b"
    by (auto simp: parse_ipv6_def Let_def split: option.splits if_splits)
  from split_double_text Some lr assms(2) have "x \<in> set l \<or> x = CHR '':'' \<or> x \<in> set r" by fastforce
  with group_run_chars [OF ab(1)] group_run_chars [OF ab(2)] show ?thesis by (auto simp: address_char_def)
qed

lemma address_not_space: "address_char c \<Longrightarrow> \<not> js_space c"
  unfolding address_char_def hex_val_iff js_space_def Let_def by auto

lemma trim_plain:
  assumes "\<forall>x\<in>set s. \<not> js_space x"
  shows "js_trim s = s"
proof -
  have d: "dropWhile js_space xs = xs" if "\<forall>x\<in>set xs. \<not> js_space x" for xs using that by (cases xs) auto
  from assms d [of s] d [of "rev s"] show ?thesis by (simp add: js_trim_def)
qed

lemma trim_address: "\<forall>x\<in>set s. address_char x \<Longrightarrow> js_trim s = s"
  using address_not_space by (intro trim_plain) blast

lemma before_first_id: "c \<notin> set s \<Longrightarrow> before_first c s = s"
  by (auto simp: before_first_def takeWhile_eq_all_conv)

lemma before_first_plain: "c \<notin> set (before_first c s)"
  by (auto simp: before_first_def dest: set_takeWhileD)

lemma no_percent: "\<not> address_char CHR ''%''"
  unfolding address_char_def hex_val_iff by (simp add: Let_def)

lemma parse_ipv6_colon:
  assumes "parse_ipv6 t = Some w"
  shows "CHR '':'' \<in> set (before_first CHR ''%'' t)"
proof (cases "split_double (before_first CHR ''%'' t)")
  case None
  show ?thesis
  proof (rule ccontr)
    assume "\<not> ?thesis"
    then have "split_on CHR '':'' (before_first CHR ''%'' t) = [before_first CHR ''%'' t]" by (rule split_on_plain)
    with assms None show False by (auto simp: parse_ipv6_def Let_def split: option.splits if_splits)
  qed
next
  case (Some lr)
  then have "split_double (before_first CHR ''%'' t) = Some (fst lr, snd lr)" by simp
  then have "before_first CHR ''%'' t = fst lr @ '':'' @ '':'' @ snd lr" by (rule split_double_text)
  then show ?thesis by simp
qed

lemma parse_ipv6_bare:
  assumes "parse_ipv6 t = Some w"
  shows "parse_ipv6 (before_first CHR ''%'' t) = Some w"
proof -
  let ?s = "before_first CHR ''%'' t"
  have "dropWhile (\<lambda>c. c \<noteq> CHR ''%'') ?s = []" using before_first_plain [of "CHR ''%''" t] by (simp add: dropWhile_eq_Nil_conv) metis
  then have z: "zone_ok ?s" unfolding zone_ok_def by (simp only: list.case)
  have "zone_ok t" using assms by (auto simp: parse_ipv6_def Let_def split: if_splits)
  with z have "parse_ipv6 ?s = parse_ipv6 t" by (simp only: parse_ipv6_def Let_def before_first_id [OF before_first_plain])
  with assms show ?thesis by simp
qed

text \<open>A text that is an address is the same address without its zone.\<close>

lemma parse_ip_bare:
  assumes "parse_ip p = Some a"
  shows "parse_ip (js_trim (before_first CHR ''%'' p)) = Some a"
proof (cases "parse_ipv4 p")
  case (Some w)
  then have c: "\<forall>x\<in>set p. address_char x" using parse_ipv4_chars digit_is_hex by (auto simp: address_char_def)
  with no_percent have "before_first CHR ''%'' p = p" by (intro before_first_id) blast
  with trim_address [OF c] assms show ?thesis by simp
next
  case None
  then obtain w where w: "parse_ipv6 p = Some w" "a = V6 w" using assms by (auto simp: parse_ip_def)
  let ?s = "before_first CHR ''%'' p"
  have "js_trim ?s = ?s" using parse_ipv6_chars [OF w(1)] by (intro trim_address) blast
  moreover have "parse_ipv4 ?s = None"
  proof (rule ccontr)
    assume "parse_ipv4 ?s \<noteq> None"
    with parse_ipv4_chars parse_ipv6_colon [OF w(1)] show False by (fastforce simp: is_digit_def)
  qed
  ultimately show ?thesis using parse_ipv6_bare [OF w(1)] w(2) by (simp add: parse_ip_def)
qed


lemma parse_ip_chars:
  assumes "parse_ip p = Some a" "x \<in> set p"
  shows "address_char x \<or> x = CHR ''%'' \<or> zone_char x"
proof (cases "parse_ipv4 p")
  case (Some w)
  with parse_ipv4_chars [OF Some assms(2)] digit_is_hex show ?thesis by (auto simp: address_char_def)
next
  case None
  then obtain w where w: "parse_ipv6 p = Some w" using assms(1) by (auto simp: parse_ip_def)
  have "p = before_first CHR ''%'' p @ dropWhile (\<lambda>c. c \<noteq> CHR ''%'') p" by (simp add: before_first_def)
  then have "x \<in> set (before_first CHR ''%'' p) \<or> x \<in> set (dropWhile (\<lambda>c. c \<noteq> CHR ''%'') p)" using assms(2) by (metis Un_iff set_append)
  then show ?thesis
  proof
    assume "x \<in> set (dropWhile (\<lambda>c. c \<noteq> CHR ''%'') p)"
    moreover have "zone_ok p" using w by (auto simp: parse_ipv6_def Let_def split: if_splits)
    moreover have "hd (dropWhile (\<lambda>c. c \<noteq> CHR ''%'') p) = CHR ''%''" if "dropWhile (\<lambda>c. c \<noteq> CHR ''%'') p \<noteq> []"
      using hd_dropWhile [OF that] by simp
    ultimately show ?thesis
      by (cases "dropWhile (\<lambda>c. c \<noteq> CHR ''%'') p") (auto simp: zone_ok_def list_all_iff)
  qed (use parse_ipv6_chars [OF w] in simp)
qed

lemma parse_ip_no_space:
  assumes "parse_ip p = Some a"
  shows "js_trim p = p"
proof (rule trim_plain, rule ballI)
  fix x assume "x \<in> set p"
  from parse_ip_chars [OF assms this] address_not_space show "\<not> js_space x"
    by (auto simp: js_space_def zone_char_def is_digit_def Let_def)
qed

end
