(* ===== verification/Outbound_Guard.thy ===== *)
theory Outbound_Guard
  imports Ip_Address
begin

text \<open>
  The gate an outbound URL passes before the box dials it, \<^verbatim>\<open>apps/orchestrator/src/lib/outbound-url-guard.ts\<close>, with the
  lookup of \<^verbatim>\<open>lib/outbound-pinned-fetch.ts\<close> that honours it.  \<^verbatim>\<open>new URL\<close> is the parameter \<open>parse_url\<close>, the
  resolver is \<open>resolve\<close> (\<open>None\<close> when it rejects), the interfaces of the box are \<open>local_facts\<close>.  A refusal carries
  the reason and the operator's detail.
\<close>

section \<open>Refusals\<close>

datatype rejection = malformed | scheme | userinfo | private_host | unresolvable

datatype guard_error = Blocked rejection string | Facts_unavailable | Range_error

record url =
  url_href :: string
  url_protocol :: string
  url_username :: string
  url_password :: string
  url_hostname :: string

section \<open>The address space inside the boundary\<close>

definition subnet :: "string \<Rightarrow> nat \<Rightarrow> block_list \<Rightarrow> block_list" where
  "subnet net p bl = (case parse_ip net of Some a \<Rightarrow> addSubnet a p bl | None \<Rightarrow> bl)"

definition address :: "string \<Rightarrow> block_list \<Rightarrow> block_list" where
  "address s bl = (case parse_ip s of Some a \<Rightarrow> addAddress a bl | None \<Rightarrow> bl)"

definition BLOCKED_RANGES :: block_list where
  "BLOCKED_RANGES = fold (\<lambda>f. f)
     [subnet ''0.0.0.0'' 8, subnet ''10.0.0.0'' 8, subnet ''100.64.0.0'' 10, subnet ''127.0.0.0'' 8, subnet ''169.254.0.0'' 16,
      subnet ''172.16.0.0'' 12, subnet ''192.0.0.0'' 24, subnet ''192.168.0.0'' 16, subnet ''198.18.0.0'' 15,
      subnet ''224.0.0.0'' 4, subnet ''240.0.0.0'' 4,
      address ''::'', address ''::1'', subnet ''fc00::'' 7, subnet ''fe80::'' 10, subnet ''ff00::'' 8,
      subnet ''2002::'' 16, subnet ''64:ff9b::'' 96] []"

definition LAN_RANGES :: block_list where
  "LAN_RANGES = fold (\<lambda>f. f) [subnet ''10.0.0.0'' 8, subnet ''172.16.0.0'' 12, subnet ''192.168.0.0'' 16, subnet ''fc00::'' 7] []"

definition METADATA_ADDRESSES :: block_list where
  "METADATA_ADDRESSES = fold (\<lambda>f. f) [address ''169.254.169.254'', address ''169.254.170.2'', address ''fd00:ec2::254''] []"

section \<open>The calendar gate\<close>

definition BLOCKED_HOST_SUFFIXES :: "string list" where
  "BLOCKED_HOST_SUFFIXES = [''.local'', ''.localhost'', ''.internal'', ''.home.arpa'']"

definition BLOCKED_HOST_EXACT :: "string list" where
  "BLOCKED_HOST_EXACT = [''localhost'', '''']"

definition stripBrackets :: "string \<Rightarrow> string" where
  "stripBrackets host =
     (if starts_with ''['' host \<and> ends_with '']'' host then butlast (tl host) else host)"

definition isBlockedAddress :: "string \<Rightarrow> bool" where
  "isBlockedAddress addr = (case parse_ip (stripBrackets (js_trim addr)) of None \<Rightarrow> True | Some a \<Rightarrow> bl_check BLOCKED_RANGES a)"

definition isBlockedHostname :: "string \<Rightarrow> bool" where
  "isBlockedHostname host =
     (let h = stripBrackets (js_lower (js_trim host)) in
      if h \<in> set BLOCKED_HOST_EXACT then True
      else if list_ex (\<lambda>suffix. ends_with suffix h) BLOCKED_HOST_SUFFIXES then True
      else if isIP h \<noteq> 0 then isBlockedAddress h
      else False)"

definition assertOutboundUrlAllowed :: "(string \<Rightarrow> url option) \<Rightarrow> string \<Rightarrow> bool \<Rightarrow> (guard_error, url) result" where
  "assertOutboundUrlAllowed parse_url raw allowPrivateHost =
     (case parse_url (js_trim raw) of
        None \<Rightarrow> Throw (Blocked malformed ''not a parseable URL'')
      | Some u \<Rightarrow>
          if url_protocol u \<noteq> ''http:'' \<and> url_protocol u \<noteq> ''https:'' then Throw (Blocked scheme (url_protocol u @ ''// is not http(s)''))
          else if url_username u \<noteq> [] \<or> url_password u \<noteq> [] then Throw (Blocked userinfo ''credentials in the URL authority'')
          else if \<not> allowPrivateHost \<and> isBlockedHostname (url_hostname u) then Throw (Blocked private_host (stripBrackets (url_hostname u)))
          else Return u)"

fun refuse_blocked :: "string list \<Rightarrow> (guard_error, unit) result" where
  "refuse_blocked [] = Return ()"
| "refuse_blocked (a # as) = (if isBlockedAddress a then Throw (Blocked private_host a) else refuse_blocked as)"

definition assertOutboundDestinationAllowed ::
  "(string \<Rightarrow> url option) \<Rightarrow> (string \<Rightarrow> string list option) \<Rightarrow> string \<Rightarrow> bool \<Rightarrow> (guard_error, url) result" where
  "assertOutboundDestinationAllowed parse_url lookup raw allowPrivateHost =
     andThen (assertOutboundUrlAllowed parse_url raw allowPrivateHost) (\<lambda>u.
       if allowPrivateHost then Return u
       else let host = stripBrackets (url_hostname u) in
         if isIP host \<noteq> 0 then Return u
         else (case lookup host of
             None \<Rightarrow> Throw (Blocked unresolvable host)
           | Some addresses \<Rightarrow>
               if addresses = [] then Throw (Blocked unresolvable host)
               else andThen (refuse_blocked addresses) (\<lambda>_. Return u)))"

section \<open>The LAN-aware, pinned gate\<close>

record local_facts =
  lf_addresses :: "string list"
  lf_cidrs :: "string list"

datatype outbound_scope = lan | public

datatype refusal_rule = unparseable | metadata | reserved | own_network

datatype verdict = In_scope outbound_scope | Refused_by refusal_rule

text \<open>\<^verbatim>\<open>Number\<close> of the decimal digits of a prefix; any other text is \<^verbatim>\<open>NaN\<close>.\<close>

definition prefix_number :: "string \<Rightarrow> nat option" where
  "prefix_number s = (if list_all is_digit s then Some (nat_of_digits s) else None)"

fun add_own_addresses :: "string list \<Rightarrow> block_list \<Rightarrow> block_list" where
  "add_own_addresses [] bl = bl"
| "add_own_addresses (a # as) bl =
     add_own_addresses as (case parse_ip (before_first CHR ''%'' a) of Some ip \<Rightarrow> addAddress ip bl | None \<Rightarrow> bl)"

definition max_prefix :: "ip \<Rightarrow> nat" where
  "max_prefix a = (case a of V4 _ \<Rightarrow> 32 | V6 _ \<Rightarrow> 128)"

fun add_own_networks :: "string list \<Rightarrow> block_list \<Rightarrow> (guard_error, block_list) result" where
  "add_own_networks [] bl = Return bl"
| "add_own_networks (cidr # cidrs) bl =
     (case split_on CHR ''/'' cidr of
        net # prefix # _ \<Rightarrow>
          (case (parse_ip (before_first CHR ''%'' net), prefix_number prefix) of
             (Some ip, Some bits) \<Rightarrow> if bits \<le> max_prefix ip then add_own_networks cidrs (addSubnet ip bits bl) else Throw Range_error
           | _ \<Rightarrow> add_own_networks cidrs bl)
      | _ \<Rightarrow> add_own_networks cidrs bl)"

definition localBlockList :: "local_facts \<Rightarrow> (guard_error, block_list) result" where
  "localBlockList lf = add_own_networks (lf_cidrs lf) (add_own_addresses (lf_addresses lf) [])"

definition bare_address :: "string \<Rightarrow> string" where
  "bare_address addr = js_trim (before_first CHR ''%'' (stripBrackets (js_trim addr)))"

definition classifyDestinationAddress :: "string \<Rightarrow> local_facts \<Rightarrow> (guard_error, verdict) result" where
  "classifyDestinationAddress addr lf =
     (case parse_ip (bare_address addr) of
        None \<Rightarrow> Return (Refused_by unparseable)
      | Some a \<Rightarrow>
          if bl_check METADATA_ADDRESSES a then Return (Refused_by metadata)
          else let isLan = bl_check LAN_RANGES a in
            if bl_check BLOCKED_RANGES a \<and> \<not> isLan then Return (Refused_by reserved)
            else andThen (localBlockList lf) (\<lambda>own.
              Return (if bl_check own a then Refused_by own_network else In_scope (if isLan then lan else public))))"

definition LAN_AWARE_BLOCKED_SUFFIXES :: "string list" where
  "LAN_AWARE_BLOCKED_SUFFIXES = [''.localhost'', ''.internal'']"

definition parseLanAwareUrl :: "(string \<Rightarrow> url option) \<Rightarrow> string \<Rightarrow> (guard_error, url \<times> string) result" where
  "parseLanAwareUrl parse_url raw =
     andThen (assertOutboundUrlAllowed parse_url raw True) (\<lambda>u.
       let host = js_lower (stripBrackets (url_hostname u)) in
       if host = [] \<or> host = ''localhost'' \<or> list_ex (\<lambda>suffix. ends_with suffix host) LAN_AWARE_BLOCKED_SUFFIXES
       then Throw (Blocked private_host host)
       else Return (u, host))"

definition rule_text :: "refusal_rule \<Rightarrow> string" where
  "rule_text r = (case r of unparseable \<Rightarrow> ''unparseable'' | metadata \<Rightarrow> ''metadata'' | reserved \<Rightarrow> ''reserved'' | own_network \<Rightarrow> ''own_network'')"

definition refusedAddress :: "string \<Rightarrow> refusal_rule \<Rightarrow> guard_error" where
  "refusedAddress a r = Blocked private_host (a @ '' ('' @ rule_text r @ '')'')"

definition assertLanOrPublicUrl :: "(string \<Rightarrow> url option) \<Rightarrow> string \<Rightarrow> local_facts \<Rightarrow> (guard_error, url) result" where
  "assertLanOrPublicUrl parse_url raw lf =
     andThen (parseLanAwareUrl parse_url raw) (\<lambda>(u, host).
       if isIP host \<noteq> 0
       then andThen (classifyDestinationAddress host lf) (\<lambda>v. case v of Refused_by r \<Rightarrow> Throw (refusedAddress host r) | In_scope _ \<Rightarrow> Return u)
       else Return u)"

record pinned_destination =
  pd_url :: url
  pd_hostname :: string
  pd_addresses :: "(string \<times> nat) list"
  pd_scope :: outbound_scope

fun vet_answers :: "local_facts \<Rightarrow> string list \<Rightarrow> outbound_scope \<Rightarrow> (string \<times> nat) list
    \<Rightarrow> (guard_error, outbound_scope \<times> (string \<times> nat) list) result" where
  "vet_answers lf [] sc pinned = Return (sc, pinned)"
| "vet_answers lf (a # as) sc pinned =
     andThen (classifyDestinationAddress a lf) (\<lambda>v.
       case v of
         Refused_by r \<Rightarrow> Throw (refusedAddress a r)
       | In_scope s \<Rightarrow>
           let bare = stripBrackets (js_trim a) in
           vet_answers lf as (if s = public then public else sc) (pinned @ [(bare, if isIP bare = 6 then 6 else 4)]))"

definition resolvePinnedDestination ::
  "(string \<Rightarrow> url option) \<Rightarrow> (string \<Rightarrow> string list option) \<Rightarrow> local_facts option \<Rightarrow> string \<Rightarrow> (guard_error, pinned_destination) result" where
  "resolvePinnedDestination parse_url resolve facts raw =
     andThen (parseLanAwareUrl parse_url raw) (\<lambda>(u, host).
       case facts of
         None \<Rightarrow> Throw Facts_unavailable
       | Some lf \<Rightarrow>
           andThen
             (if isIP host \<noteq> 0 then Return [host]
              else (case resolve host of
                  None \<Rightarrow> Throw (Blocked unresolvable host)
                | Some answers \<Rightarrow> if answers = [] then Throw (Blocked unresolvable host) else Return answers)) (\<lambda>answers.
             andThen (vet_answers lf answers lan []) (\<lambda>(sc, pinned).
               Return \<lparr>pd_url = u, pd_hostname = host, pd_addresses = pinned, pd_scope = sc\<rparr>)))"

text \<open>The lookup the socket is given: every vetted address, or the first; the name it is asked for is ignored.\<close>

definition pinnedLookup :: "(string \<times> nat) list \<Rightarrow> string \<Rightarrow> bool \<Rightarrow> (string \<times> nat) list option" where
  "pinnedLookup addresses hostname all =
     (if all then Some addresses else (case addresses of [] \<Rightarrow> None | first # _ \<Rightarrow> Some [first]))"


section \<open>The tables as intervals\<close>

text \<open>First and last address of each special-purpose block, as numbers; an IPv4 address is the number of its mapped address.\<close>

definition v4_num :: "int \<Rightarrow> int \<Rightarrow> int \<Rightarrow> int \<Rightarrow> int" where
  "v4_num a b c d = 0xffff * 2 ^ 32 + (((a * 256 + b) * 256 + c) * 256 + d)"

definition inside_boundary :: "(int \<times> int) list" where
  "inside_boundary =
     [(v4_num 0 0 0 0, v4_num 0 255 255 255), (v4_num 10 0 0 0, v4_num 10 255 255 255), (v4_num 100 64 0 0, v4_num 100 127 255 255),
      (v4_num 127 0 0 0, v4_num 127 255 255 255), (v4_num 169 254 0 0, v4_num 169 254 255 255), (v4_num 172 16 0 0, v4_num 172 31 255 255),
      (v4_num 192 0 0 0, v4_num 192 0 0 255), (v4_num 192 168 0 0, v4_num 192 168 255 255), (v4_num 198 18 0 0, v4_num 198 19 255 255),
      (v4_num 224 0 0 0, v4_num 255 255 255 255),
      (0, 1), (0xfc00 * 2 ^ 112, 0xfe00 * 2 ^ 112 - 1), (0xfe80 * 2 ^ 112, 0xfec0 * 2 ^ 112 - 1), (0xff00 * 2 ^ 112, 2 ^ 128 - 1),
      (0x2002 * 2 ^ 112, 0x2003 * 2 ^ 112 - 1), (0x64ff9b * 2 ^ 96, 0x64ff9b * 2 ^ 96 + 2 ^ 32 - 1)]"

definition lan_space :: "(int \<times> int) list" where
  "lan_space =
     [(v4_num 10 0 0 0, v4_num 10 255 255 255), (v4_num 172 16 0 0, v4_num 172 31 255 255),
      (v4_num 192 168 0 0, v4_num 192 168 255 255), (0xfc00 * 2 ^ 112, 0xfe00 * 2 ^ 112 - 1)]"

definition in_spans :: "(int \<times> int) list \<Rightarrow> ip \<Rightarrow> bool" where
  "in_spans spans a = list_ex (\<lambda>(lo, hi). lo \<le> uint (wide a) \<and> uint (wide a) \<le> hi) spans"

lemma BLOCKED_RANGES_values:
  "BLOCKED_RANGES =
     [(281470681743360, 104), (281470849515520, 104), (281472363659264, 106), (281472812449792, 104), (281473533739008, 112),
      (281473568473088, 108), (281473902968832, 120), (281473913978880, 112), (281474004811776, 111), (281474439839744, 100),
      (281474708275200, 100), (0, 128), (1, 128), (334965454937798799971759379190646833152, 7),
      (338288524927261089654018896841347694592, 10), (338953138925153547590470800371487866880, 8),
      (42545680458834377588178886921629466624, 16), (524413980667603649783483181312245760, 96)]"
  by code_simp

lemma LAN_RANGES_values:
  "LAN_RANGES = [(281470849515520, 104), (281473568473088, 108), (281473913978880, 112), (334965454937798799971759379190646833152, 7)]"
  by code_simp

lemma blocked_ranges_exact: "bl_check BLOCKED_RANGES a \<longleftrightarrow> in_spans inside_boundary a"
proof -
  have "uint (wide a) < 2 ^ 128" using uint_bounded [of "wide a"] by simp
  then show ?thesis
    unfolding bl_check_def BLOCKED_RANGES_values in_spans_def inside_boundary_def v4_num_def
    by (simp add: in_subnet_interval) presburger
qed

lemma lan_ranges_exact: "bl_check LAN_RANGES a \<longleftrightarrow> in_spans lan_space a"
  unfolding bl_check_def LAN_RANGES_values in_spans_def lan_space_def v4_num_def
  by (simp add: in_subnet_interval) presburger


section \<open>What a vetted destination guarantees\<close>

lemma check_add: "bl_check (bl @ [s]) a \<longleftrightarrow> bl_check bl a \<or> in_subnet (wide a) s"
  by (simp add: bl_check_def)

lemma own_addresses_kept: "bl_check bl a \<Longrightarrow> bl_check (add_own_addresses as bl) a"
  by (induction as arbitrary: bl) (auto simp: addAddress_def check_add split: option.splits)

lemma own_address_listed:
  "x \<in> set as \<Longrightarrow> parse_ip (before_first CHR ''%'' x) = Some b \<Longrightarrow> wide b = wide a \<Longrightarrow> bl_check (add_own_addresses as bl) a"
proof (induction as arbitrary: bl)
  case (Cons y as)
  show ?case
  proof (cases "x = y")
    case True
    have "bl_check (addAddress b bl) a" using Cons.prems(3) by (simp add: addAddress_def check_add in_subnet_def)
    with True Cons.prems(2) own_addresses_kept show ?thesis by simp
  next
    case False
    with Cons show ?thesis by simp
  qed
qed simp

lemma own_networks_kept: "add_own_networks cidrs bl = Return own \<Longrightarrow> bl_check bl a \<Longrightarrow> bl_check own a"
  by (induction cidrs arbitrary: bl) (auto simp: addSubnet_def check_add split: list.splits option.splits if_splits)

lemma own_network_listed:
  "add_own_networks cidrs bl = Return own \<Longrightarrow> net @ ''/'' @ prefix \<in> set cidrs \<Longrightarrow> CHR ''/'' \<notin> set net \<Longrightarrow> CHR ''/'' \<notin> set prefix
   \<Longrightarrow> parse_ip (before_first CHR ''%'' net) = Some b \<Longrightarrow> prefix_number prefix = Some n
   \<Longrightarrow> in_subnet (wide a) (wide b, wide_prefix b n) \<Longrightarrow> bl_check own a"
proof (induction cidrs arbitrary: bl)
  case (Cons c cidrs)
  show ?case
  proof (cases "c = net @ ''/'' @ prefix")
    case True
    then have "split_on CHR ''/'' c = [net, prefix]"
      using Cons.prems(3,4) by (simp add: split_on_append split_on_plain)
    with Cons.prems have "add_own_networks cidrs (addSubnet b n bl) = Return own" by (auto split: if_splits)
    moreover have "bl_check (addSubnet b n bl) a" using Cons.prems(7) by (simp add: addSubnet_def check_add)
    ultimately show ?thesis by (rule own_networks_kept)
  next
    case False
    with Cons show ?thesis by (auto split: list.splits option.splits if_splits)
  qed
qed simp

text \<open>This box: an address it holds, or one on a network it is attached to.\<close>

definition is_own :: "local_facts \<Rightarrow> ip \<Rightarrow> bool" where
  "is_own lf a \<longleftrightarrow>
     (\<exists>x\<in>set (lf_addresses lf). \<exists>b. parse_ip (before_first CHR ''%'' x) = Some b \<and> wide b = wide a)
     \<or> (\<exists>net prefix b n. net @ ''/'' @ prefix \<in> set (lf_cidrs lf) \<and> CHR ''/'' \<notin> set net \<and> CHR ''/'' \<notin> set prefix
          \<and> parse_ip (before_first CHR ''%'' net) = Some b \<and> prefix_number prefix = Some n \<and> in_subnet (wide a) (wide b, wide_prefix b n))"

lemma own_is_blocked: "localBlockList lf = Return own \<Longrightarrow> is_own lf a \<Longrightarrow> bl_check own a"
  unfolding localBlockList_def is_own_def
  using own_address_listed own_networks_kept own_network_listed by blast

definition reachable_scope :: "local_facts \<Rightarrow> outbound_scope \<Rightarrow> ip \<Rightarrow> bool" where
  "reachable_scope lf sc a \<longleftrightarrow>
     \<not> bl_check METADATA_ADDRESSES a \<and> \<not> is_own lf a
     \<and> (if sc = lan then in_spans lan_space a else \<not> in_spans inside_boundary a)"

lemma lan_inside: "in_spans lan_space a \<Longrightarrow> in_spans inside_boundary a"
  by (auto simp: in_spans_def lan_space_def inside_boundary_def)

lemma classify_in_scope:
  assumes "classifyDestinationAddress addr lf = Return (In_scope sc)"
  shows "\<exists>a. parse_ip (bare_address addr) = Some a \<and> reachable_scope lf sc a"
proof -
  obtain a where a: "parse_ip (bare_address addr) = Some a"
    using assms by (auto simp: classifyDestinationAddress_def split: option.splits)
  with assms obtain own where "localBlockList lf = Return own" "\<not> bl_check own a" "\<not> bl_check METADATA_ADDRESSES a"
    "sc = (if bl_check LAN_RANGES a then lan else public)" "bl_check LAN_RANGES a \<or> \<not> bl_check BLOCKED_RANGES a"
    by (auto simp: classifyDestinationAddress_def Let_def andThen_eq_Return split: if_splits)
  with own_is_blocked a show ?thesis
    by (auto simp: reachable_scope_def blocked_ranges_exact lan_ranges_exact split: if_splits)
qed

lemma vet_answers_Return:
  assumes "vet_answers lf answers sc0 pinned0 = Return (sc, pinned)"
  shows "\<exists>scopes. length scopes = length answers
    \<and> (\<forall>i<length answers. classifyDestinationAddress (answers ! i) lf = Return (In_scope (scopes ! i)))
    \<and> map fst pinned = map fst pinned0 @ map (\<lambda>a. stripBrackets (js_trim a)) answers
    \<and> (sc = public \<longleftrightarrow> sc0 = public \<or> public \<in> set scopes)"
  using assms
proof (induction answers arbitrary: sc0 pinned0)
  case (Cons a answers)
  from Cons.prems obtain v where v: "classifyDestinationAddress a lf = Return v" by (auto simp: andThen_eq_Return)
  with Cons.prems obtain s where s: "v = In_scope s" by (cases v) auto
  with v have c: "classifyDestinationAddress a lf = Return (In_scope s)" by simp
  with Cons.prems have r: "vet_answers lf answers (if s = public then public else sc0) (pinned0 @ [(stripBrackets (js_trim a), if isIP (stripBrackets (js_trim a)) = 6 then 6 else 4)]) = Return (sc, pinned)"
    by (simp add: Let_def)
  from Cons.IH [OF r] obtain scopes where scopes: "length scopes = length answers"
    "\<forall>i<length answers. classifyDestinationAddress (answers ! i) lf = Return (In_scope (scopes ! i))"
    "map fst pinned = map fst pinned0 @ stripBrackets (js_trim a) # map (\<lambda>a. stripBrackets (js_trim a)) answers"
    "sc = public \<longleftrightarrow> (if s = public then public else sc0) = public \<or> public \<in> set scopes"
    by auto
  then show ?case using c
    by (intro exI [of _ "s # scopes"]) (auto simp: less_Suc_eq_0_disj)
qed auto


lemma pinned_answers:
  assumes "resolvePinnedDestination parse_url resolve facts raw = Return d"
  shows "\<exists>lf answers scopes. facts = Some lf \<and> (answers = [pd_hostname d] \<or> resolve (pd_hostname d) = Some answers) \<and> answers \<noteq> []
    \<and> map fst (pd_addresses d) = map (\<lambda>a. stripBrackets (js_trim a)) answers \<and> length scopes = length answers
    \<and> (\<forall>i<length answers. classifyDestinationAddress (answers ! i) lf = Return (In_scope (scopes ! i)))
    \<and> (pd_scope d = public \<longleftrightarrow> public \<in> set scopes)"
proof -
  obtain u host where "parseLanAwareUrl parse_url raw = Return (u, host)"
    using assms by (auto simp: resolvePinnedDestination_def andThen_eq_Return)
  moreover obtain lf where lf: "facts = Some lf"
    using assms by (auto simp: resolvePinnedDestination_def andThen_eq_Return split: option.splits)
  ultimately have "\<exists>answers sc pinned. (answers = [host] \<or> resolve host = Some answers) \<and> answers \<noteq> []
      \<and> vet_answers lf answers lan [] = Return (sc, pinned) \<and> d = \<lparr>pd_url = u, pd_hostname = host, pd_addresses = pinned, pd_scope = sc\<rparr>"
    using assms by (auto simp: resolvePinnedDestination_def andThen_eq_Return split: option.splits if_splits)
  then obtain answers sc pinned where a: "answers = [host] \<or> resolve host = Some answers" "answers \<noteq> []"
    "vet_answers lf answers lan [] = Return (sc, pinned)" "d = \<lparr>pd_url = u, pd_hostname = host, pd_addresses = pinned, pd_scope = sc\<rparr>"
    by blast
  from vet_answers_Return [OF a(3)] lf a(1,2,4) show ?thesis by auto
qed

lemma pinned_text_address:
  assumes "parse_ip (stripBrackets (js_trim x)) = Some a"
  shows "parse_ip (bare_address x) = Some a"
  unfolding bare_address_def by (rule parse_ip_bare [OF assms])

lemma pinned_reachable:
  assumes "resolvePinnedDestination parse_url resolve (Some lf) raw = Return d"
    and "pinnedLookup (pd_addresses d) name every = Some given" "(p, f) \<in> set given" "parse_ip p = Some a"
  shows "(reachable_scope lf lan a \<or> reachable_scope lf public a) \<and> (pd_scope d = lan \<longrightarrow> reachable_scope lf lan a)
    \<and> (\<exists>answers. (answers = [pd_hostname d] \<or> resolve (pd_hostname d) = Some answers) \<and> length (pd_addresses d) = length answers)"
proof -
  from pinned_answers [OF assms(1)] obtain answers scopes where r: "answers = [pd_hostname d] \<or> resolve (pd_hostname d) = Some answers"
    "map fst (pd_addresses d) = map (\<lambda>a. stripBrackets (js_trim a)) answers" "length scopes = length answers"
    "\<forall>i<length answers. classifyDestinationAddress (answers ! i) lf = Return (In_scope (scopes ! i))"
    "pd_scope d = public \<longleftrightarrow> public \<in> set scopes"
    by auto
  have "set given \<subseteq> set (pd_addresses d)"
    using assms(2) by (auto simp: pinnedLookup_def split: if_splits list.splits)
  then have "p \<in> set (map fst (pd_addresses d))" using assms(3) by force
  then obtain i where i: "i < length answers" "p = stripBrackets (js_trim (answers ! i))"
    using r(2) by (auto simp: in_set_conv_nth)
  from classify_in_scope r(4) i(1) have "\<exists>b. parse_ip (bare_address (answers ! i)) = Some b \<and> reachable_scope lf (scopes ! i) b" by blast
  moreover from pinned_text_address assms(4) i(2) have "parse_ip (bare_address (answers ! i)) = Some a" by blast
  ultimately have s: "reachable_scope lf (scopes ! i) a" by simp
  have "scopes ! i \<in> set scopes" using i(1) r(3) by simp
  with s r(5) have "pd_scope d = lan \<longrightarrow> reachable_scope lf lan a" by (cases "scopes ! i") auto
  moreover from s have "reachable_scope lf lan a \<or> reachable_scope lf public a" by (cases "scopes ! i") auto
  moreover have "length (pd_addresses d) = length answers" using arg_cong [OF r(2), of length] by simp
  ultimately show ?thesis using r(1) by blast
qed

text \<open>
  Whatever address the socket of a pinned destination is given, for any name and either way of asking, it is one of the
  vetted answers: not a metadata endpoint, not this box or a network it is attached to, outside every special-purpose
  block unless in private LAN space, and when the destination counts as \<open>lan\<close>, which needs no egress switch, in
  private LAN space.  Every answer of the resolver was vetted: there are as many pinned addresses as answers.
\<close>

theorem dialled_addresses_vetted:
  assumes "resolvePinnedDestination parse_url resolve (Some lf) raw = Return d"
    and "pinnedLookup (pd_addresses d) name every = Some given" "(p, f) \<in> set given" "parse_ip p = Some a"
  shows "(reachable_scope lf lan a \<or> reachable_scope lf public a) \<and> (pd_scope d = lan \<longrightarrow> reachable_scope lf lan a)
    \<and> (\<exists>answers. (answers = [pd_hostname d] \<or> resolve (pd_hostname d) = Some answers) \<and> length (pd_addresses d) = length answers)"
  by (rule pinned_reachable [OF assms])

lemma blocked_answer: "\<not> isBlockedAddress x \<Longrightarrow> \<exists>a. parse_ip (stripBrackets (js_trim x)) = Some a \<and> \<not> in_spans inside_boundary a"
  by (auto simp: isBlockedAddress_def blocked_ranges_exact split: option.splits)

lemma refuse_blocked_Return: "refuse_blocked as = Return () \<Longrightarrow> a \<in> set as \<Longrightarrow> \<not> isBlockedAddress a"
  by (induction as) (auto split: if_splits)


lemma parse_ip_clean:
  assumes "parse_ip p = Some a"
  shows "stripBrackets (js_trim p) = p"
proof -
  have "CHR ''['' \<notin> set p"
    using parse_ip_chars [OF assms, of "CHR ''[''"] by (auto simp: address_char_def hex_val_def zone_char_def is_digit_def Let_def)
  then have "\<not> starts_with ''['' p" by (auto simp: starts_with_iff)
  with parse_ip_no_space [OF assms] show ?thesis by (simp add: stripBrackets_def)
qed


section \<open>Samples\<close>

definition sample_parse :: "string \<Rightarrow> url option" where
  "sample_parse s =
     (if s = ''https://hook.example/x'' then Some \<lparr>url_href = s, url_protocol = ''https:'', url_username = [], url_password = [], url_hostname = ''hook.example''\<rparr>
      else if s = ''http://localhost./'' then Some \<lparr>url_href = s, url_protocol = ''http:'', url_username = [], url_password = [], url_hostname = ''localhost.''\<rparr>
      else None)"

definition sample_resolve :: "string \<Rightarrow> string list option" where
  "sample_resolve h = (if h = ''hook.example'' then Some [''93.184.216.34'', ''2606:2800:220::1''] else None)"

definition sample_facts :: local_facts where
  "sample_facts = \<lparr>lf_addresses = [''172.18.0.5''], lf_cidrs = [''172.18.0.5/16'']\<rparr>"

definition sample_pinned :: pinned_destination where
  "sample_pinned = \<lparr>pd_url = \<lparr>url_href = ''https://hook.example/x'', url_protocol = ''https:'', url_username = [], url_password = [], url_hostname = ''hook.example''\<rparr>,
     pd_hostname = ''hook.example'', pd_addresses = [(''93.184.216.34'', 4), (''2606:2800:220::1'', 6)], pd_scope = public\<rparr>"

theorem dialled_addresses_vetted_witness:
  "reachable_scope sample_facts lan (V4 (quad 93 184 216 34)) \<or> reachable_scope sample_facts public (V4 (quad 93 184 216 34))"
proof -
  have "resolvePinnedDestination sample_parse sample_resolve (Some sample_facts) ''https://hook.example/x'' = Return sample_pinned" by code_simp
  moreover have "pinnedLookup (pd_addresses sample_pinned) ''anything'' False = Some [(''93.184.216.34'', 4)]" by code_simp
  moreover have "(''93.184.216.34'', 4) \<in> set [(''93.184.216.34'', 4)]" by simp
  moreover have "parse_ip ''93.184.216.34'' = Some (V4 (quad 93 184 216 34))" by code_simp
  ultimately show ?thesis using dialled_addresses_vetted by blast
qed


text \<open>
  A trailing dot hides a name from both lists of internal names: \<^verbatim>\<open>localhost.\<close> is the same host as \<^verbatim>\<open>localhost\<close>, and passes
  the gates that do no DNS.
\<close>

theorem trailing_dot_passes:
  "isBlockedHostname ''localhost'' \<and> \<not> isBlockedHostname ''localhost.'' \<and> \<not> isBlockedHostname ''nas.local.''
   \<and> assertOutboundUrlAllowed sample_parse ''http://localhost./'' False = Return \<lparr>url_href = ''http://localhost./'', url_protocol = ''http:'',
       url_username = [], url_password = [], url_hostname = ''localhost.''\<rparr>
   \<and> assertLanOrPublicUrl sample_parse ''http://localhost./'' sample_facts = Return \<lparr>url_href = ''http://localhost./'', url_protocol = ''http:'',
       url_username = [], url_password = [], url_hostname = ''localhost.''\<rparr>"
  by code_simp

end
