(* ===== verification/Webhooks.thy ===== *)
theory Webhooks
  imports Outbox Outbound_Guard
begin

text \<open>
  Work webhooks: the fan-out of an activity row (\<^verbatim>\<open>services/pm/webhook-fanout.ts\<close>, \<^verbatim>\<open>webhook-events.ts\<close>), one attempt at one
  delivery (\<^verbatim>\<open>webhook-delivery.service.ts\<close>, \<^verbatim>\<open>webhook-signature.ts\<close>) and the management of webhooks
  (\<^verbatim>\<open>pm-webhook.service.ts\<close>).  An attempt is a function of the answers it gets from outside, giving its outcome, the
  dial it made and the statements it issues one after the other; statements run on the two tables, each atomically.
  Sealing and opening secrets and URLs, the rendering of bodies, HMAC and the work items are parameters; a stored
  payload is a text.
\<close>

section \<open>Tables\<close>

datatype webhook_status = ACTIVE | PAUSED | DISABLED_FAILING

datatype delivery_status = PENDING | DELIVERED | FAILED | GIVEN_UP

datatype delivery_error =
    EGRESS_BLOCKED | DESTINATION_NOT_ALLOWED | UNRESOLVABLE | UNREACHABLE | CONNECTION_REFUSED | CONNECTION_RESET | TIMED_OUT
  | TLS | COULD_NOT_CONNECT | SECRET_UNREADABLE | EXPIRED | WEBHOOK_OFF | HTTP_STATUS int

record webhook =
  wh_id :: string
  wh_workspaceId :: string
  wh_projectId :: "string option"
  wh_name :: string
  wh_urlEnc :: string
  wh_format :: string
  wh_secretEnc :: string
  wh_events :: "string list"
  wh_enabled :: bool
  wh_status :: webhook_status
  wh_consecutiveFailures :: nat

record delivery =
  dv_id :: string
  dv_webhookId :: string
  dv_event :: string
  dv_sourceKey :: "string option"
  dv_payload :: string
  dv_status :: delivery_status
  dv_attempts :: nat
  dv_nextAttemptAt :: int
  dv_lastStatusCode :: "int option"
  dv_lastError :: "delivery_error option"
  dv_createdAt :: int
  dv_deliveredAt :: "int option"

record tables =
  wt_hooks :: "webhook list"
  wt_deliveries :: "delivery list"

definition OWED :: "delivery_status list" where
  "OWED = [PENDING, FAILED]"

definition new_delivery :: "string \<Rightarrow> string \<Rightarrow> string \<Rightarrow> string \<Rightarrow> string option \<Rightarrow> int \<Rightarrow> int \<Rightarrow> delivery" where
  "new_delivery i hook event payload sourceKey nextAt createdAt =
     \<lparr>dv_id = i, dv_webhookId = hook, dv_event = event, dv_sourceKey = sourceKey, dv_payload = payload, dv_status = PENDING, dv_attempts = 0,
      dv_nextAttemptAt = nextAt, dv_lastStatusCode = None, dv_lastError = None, dv_createdAt = createdAt, dv_deliveredAt = None\<rparr>"

section \<open>Constants\<close>

definition RETRY_DELAYS_MS :: "int list" where
  "RETRY_DELAYS_MS = [60000, 5 * 60000, 30 * 60000, 2 * 3600000, 6 * 3600000, 12 * 3600000, 24 * 3600000]"

definition MAX_ATTEMPTS :: nat where
  "MAX_ATTEMPTS = length RETRY_DELAYS_MS + 1"

definition DISABLE_AFTER_FAILURES :: nat where
  "DISABLE_AFTER_FAILURES = 20"

definition DELIVERY_EXPIRY_MS :: int where
  "DELIVERY_EXPIRY_MS = 48 * 3600000"

definition DELIVERY_LEASE_MS :: int where
  "DELIVERY_LEASE_MS = 5 * 60000"

definition BLOCKED_RECHECK_MS :: int where
  "BLOCKED_RECHECK_MS = 60000"

definition DELIVERY_BATCH :: nat where
  "DELIVERY_BATCH = 20"

definition DELIVERY_RETENTION_MS :: int where
  "DELIVERY_RETENTION_MS = 30 * 24 * 3600000"

section \<open>Events\<close>

definition WORK_ITEM_EVENTS :: "string list" where
  "WORK_ITEM_EVENTS = [''work_item.created'', ''work_item.updated'', ''work_item.state_changed'', ''work_item.assigned'', ''work_item.commented'', ''work_item.archived'']"

definition WEBHOOK_TEST_EVENT :: string where
  "WEBHOOK_TEST_EVENT = ''webhook.test''"

definition isSubscribableEvent :: "string \<Rightarrow> bool" where
  "isSubscribableEvent name \<longleftrightarrow> name \<in> set WORK_ITEM_EVENTS"

definition VERB_EVENT :: "(string \<times> string option) list" where
  "VERB_EVENT =
     [(''created'', Some ''work_item.created''), (''state_changed'', Some ''work_item.state_changed''), (''assigned'', Some ''work_item.assigned''),
      (''commented'', Some ''work_item.commented''), (''archived'', Some ''work_item.archived''), (''deleted'', None)]
     @ map (\<lambda>v. (v, Some ''work_item.updated''))
       [''updated'', ''unassigned'', ''priority_changed'', ''due_date_changed'', ''start_date_changed'', ''type_changed'', ''estimate_changed'',
        ''property_changed'', ''title_changed'', ''description_changed'', ''label_added'', ''label_removed'', ''restored'', ''cycle_added'',
        ''cycle_removed'', ''parent_removed'', ''module_added'', ''module_removed'', ''relation_added'', ''relation_removed'', ''sla_at_risk'',
        ''sla_breached'', ''macro_applied'', ''comment_edited'', ''comment_deleted'', ''watcher_added'', ''watcher_removed'', ''mentioned'',
        ''attachment_added'', ''attachment_removed'', ''external_link_added'', ''time_logged'', ''time_log_updated'', ''time_log_removed'']"

text \<open>The verbs are an enum: every row has one of the table.\<close>

definition eventForVerb :: "string \<Rightarrow> string option" where
  "eventForVerb verb = (case map_of VERB_EVENT verb of Some e \<Rightarrow> e | None \<Rightarrow> None)"

section \<open>Fan-out\<close>

definition subscribedTo :: "string \<Rightarrow> tables \<Rightarrow> webhook list" where
  "subscribedTo event t = filter (\<lambda>h. wh_enabled h \<and> event \<in> set (wh_events h)) (wt_hooks t)"

definition inScope :: "webhook \<Rightarrow> string \<Rightarrow> string option \<Rightarrow> bool" where
  "inScope h workspaceId projectId \<longleftrightarrow>
     (if wh_workspaceId h \<noteq> workspaceId then False else wh_projectId h = None \<or> wh_projectId h = projectId)"

definition has_source :: "string \<Rightarrow> string \<Rightarrow> tables \<Rightarrow> bool" where
  "has_source hook key t \<longleftrightarrow> list_ex (\<lambda>d. dv_webhookId d = hook \<and> dv_sourceKey d = Some key) (wt_deliveries t)"

text \<open>
  \<^verbatim>\<open>createMany\<close> with \<^verbatim>\<open>skipDuplicates\<close> on the unique pair of webhook and source; \<open>mint\<close> gives the row of a webhook its
  fresh id.
\<close>

definition createDeliveries ::
  "(string \<Rightarrow> string) \<Rightarrow> string list \<Rightarrow> string \<Rightarrow> string \<Rightarrow> string \<Rightarrow> int \<Rightarrow> tables \<Rightarrow> nat \<times> tables" where
  "createDeliveries mint hooks event payload sourceKey now t =
     (let new = map (\<lambda>h. new_delivery (mint h) h event payload (Some sourceKey) now now) (filter (\<lambda>h. \<not> has_source h sourceKey t) hooks)
      in (length new, t\<lparr>wt_deliveries := wt_deliveries t @ new\<rparr>))"

definition enqueueWebhookDeliveries ::
  "(string \<Rightarrow> string) \<Rightarrow> string \<Rightarrow> string option \<Rightarrow> string \<Rightarrow> string \<Rightarrow> string \<Rightarrow> int \<Rightarrow> tables \<Rightarrow> nat \<times> tables" where
  "enqueueWebhookDeliveries mint workspaceId projectId event payload sourceKey now t =
     createDeliveries mint (map wh_id (filter (\<lambda>h. inScope h workspaceId projectId) (subscribedTo event t))) event payload sourceKey now t"

text \<open>The work item of a row, when it is still there: its workspace, its project and the payload built from
  them for a row and its event.\<close>

record work_item_view =
  wi_workspaceId :: string
  wi_projectId :: string
  wi_payload :: "activity_row \<Rightarrow> string \<Rightarrow> string"

definition source_key :: "activity_row \<Rightarrow> string" where
  "source_key row = ''activity:'' @ ac_id row"

text \<open>Whom a row concerns, and what they will be told; the cheapest exits first.\<close>

definition activity_targets :: "(string \<Rightarrow> work_item_view option) \<Rightarrow> activity_row \<Rightarrow> tables \<Rightarrow> (webhook list \<times> string \<times> string) option" where
  "activity_targets findItem row t =
     (case ac_workItemId row of
        None \<Rightarrow> None
      | Some itemId \<Rightarrow>
          (case eventForVerb (ac_verb row) of
             None \<Rightarrow> None
           | Some event \<Rightarrow>
               (let candidates = subscribedTo event t in
                if candidates = [] then None
                else (case findItem itemId of
                    None \<Rightarrow> None
                  | Some item \<Rightarrow>
                      (let matched = filter (\<lambda>h. inScope h (wi_workspaceId item) (Some (wi_projectId item))) candidates in
                       if matched = [] then None else Some (matched, event, wi_payload item row event))))))"

definition fanOutActivity ::
  "(string \<Rightarrow> work_item_view option) \<Rightarrow> (string \<Rightarrow> string) \<Rightarrow> int \<Rightarrow> activity_row \<Rightarrow> tables \<Rightarrow> nat \<times> tables" where
  "fanOutActivity findItem mint now row t =
     (case activity_targets findItem row t of
        None \<Rightarrow> (0, t)
      | Some (matched, event, payload) \<Rightarrow> createDeliveries mint (map wh_id matched) event payload (source_key row) now t)"

section \<open>Failures of a dial\<close>

datatype thrown = By_guard guard_error | By_transport string string

fun contains :: "string \<Rightarrow> string \<Rightarrow> bool" where
  "contains p [] = (p = [])"
| "contains p (c # s) = (starts_with p (c # s) \<or> contains p s)"

definition describeFailure :: "thrown \<Rightarrow> delivery_error" where
  "describeFailure err =
     (case err of
        By_guard (Blocked reason _) \<Rightarrow> if reason = unresolvable then UNRESOLVABLE else DESTINATION_NOT_ALLOWED
      | By_guard _ \<Rightarrow> COULD_NOT_CONNECT
      | By_transport name code \<Rightarrow>
          if name = ''TimeoutError'' \<or> name = ''AbortError'' \<or> contains ''TIMEOUT'' code \<or> contains ''TIMEDOUT'' code then TIMED_OUT
          else if code = ''ECONNREFUSED'' then CONNECTION_REFUSED
          else if code = ''ECONNRESET'' \<or> code = ''UND_ERR_SOCKET'' then CONNECTION_RESET
          else if list_ex (\<lambda>p. contains p code) [''CERT'', ''TLS'', ''SSL'', ''SELF_SIGNED'', ''ALTNAME'', ''UNABLE_TO_VERIFY''] then TLS
          else if code = ''ENOTFOUND'' \<or> code = ''EAI_AGAIN'' then UNRESOLVABLE
          else if code = ''EHOSTUNREACH'' \<or> code = ''ENETUNREACH'' then UNREACHABLE
          else COULD_NOT_CONNECT)"

section \<open>Claiming\<close>

definition is_due :: "int \<Rightarrow> delivery \<Rightarrow> bool" where
  "is_due now d \<longleftrightarrow> dv_status d \<in> set OWED \<and> dv_nextAttemptAt d \<le> now"

definition hook_of :: "string \<Rightarrow> tables \<Rightarrow> webhook option" where
  "hook_of i t = find (\<lambda>h. wh_id h = i) (wt_hooks t)"

text \<open>The due rows, oldest due first, are leased; they come back with their webhook, as the transaction sees it.\<close>

definition due_ids :: "int \<Rightarrow> nat \<Rightarrow> tables \<Rightarrow> string list" where
  "due_ids now limit t = map dv_id (take limit (sort_key dv_nextAttemptAt (filter (is_due now) (wt_deliveries t))))"

definition lease :: "string list \<Rightarrow> int \<Rightarrow> delivery \<Rightarrow> delivery" where
  "lease ids now d = (if dv_id d \<in> set ids then d\<lparr>dv_nextAttemptAt := now + DELIVERY_LEASE_MS\<rparr> else d)"

definition with_hooks :: "string list \<Rightarrow> tables \<Rightarrow> (delivery \<times> webhook) list" where
  "with_hooks ids t =
     List.map_filter (\<lambda>d. map_option (\<lambda>h. (d, h)) (hook_of (dv_webhookId d) t))
       (sort_key (\<lambda>d. (dv_createdAt d, dv_id d)) (filter (\<lambda>d. dv_id d \<in> set ids) (wt_deliveries t)))"

definition claimDueDeliveries :: "int \<Rightarrow> nat \<Rightarrow> tables \<Rightarrow> (delivery \<times> webhook) list \<times> tables" where
  "claimDueDeliveries now limit t =
     (let ids = due_ids now limit t;
          t' = t\<lparr>wt_deliveries := map (lease ids now) (wt_deliveries t)\<rparr>
      in if ids = [] then ([], t) else (with_hooks ids t', t'))"

section \<open>Statements\<close>

datatype statement =
    Settle string "delivery \<Rightarrow> delivery"
  | Bump_failures string
  | Turn_off string
  | Reset_failures string

definition settle :: "string \<Rightarrow> (delivery \<Rightarrow> delivery) \<Rightarrow> tables \<Rightarrow> tables" where
  "settle i data t = t\<lparr>wt_deliveries := map (\<lambda>d. if dv_id d = i \<and> dv_status d \<in> set OWED then data d else d) (wt_deliveries t)\<rparr>"

definition update_hooks :: "(webhook \<Rightarrow> bool) \<Rightarrow> (webhook \<Rightarrow> webhook) \<Rightarrow> tables \<Rightarrow> nat \<times> tables" where
  "update_hooks P f t = (length (filter P (wt_hooks t)), t\<lparr>wt_hooks := map (\<lambda>h. if P h then f h else h) (wt_hooks t)\<rparr>)"

text \<open>The second statement of \<^verbatim>\<open>recordWebhookFailure\<close> notifies the admins when it changed one row.\<close>

definition turn_off_hooks :: "string \<Rightarrow> tables \<Rightarrow> nat \<times> tables" where
  "turn_off_hooks i t =
     update_hooks (\<lambda>h. wh_id h = i \<and> wh_status h = ACTIVE \<and> DISABLE_AFTER_FAILURES \<le> wh_consecutiveFailures h)
       (\<lambda>h. h\<lparr>wh_status := DISABLED_FAILING, wh_enabled := False\<rparr>) t"

fun run_statement :: "statement \<Rightarrow> tables \<Rightarrow> bool \<times> tables" where
  "run_statement (Settle i data) t = (False, settle i data t)"
| "run_statement (Bump_failures i) t =
     (False, snd (update_hooks (\<lambda>h. wh_id h = i) (\<lambda>h. h\<lparr>wh_consecutiveFailures := wh_consecutiveFailures h + 1\<rparr>) t))"
| "run_statement (Turn_off i) t = (case turn_off_hooks i t of (count, t') \<Rightarrow> (count = 1, t'))"
| "run_statement (Reset_failures i) t =
     (False, snd (update_hooks (\<lambda>h. wh_id h = i \<and> 0 < wh_consecutiveFailures h) (\<lambda>h. h\<lparr>wh_consecutiveFailures := 0\<rparr>) t))"

definition recordWebhookFailure :: "string \<Rightarrow> statement list" where
  "recordWebhookFailure hook = [Bump_failures hook, Turn_off hook]"

section \<open>One attempt\<close>

definition signWebhookBody :: "(string \<Rightarrow> string \<Rightarrow> string) \<Rightarrow> string \<Rightarrow> string \<Rightarrow> int \<Rightarrow> string" where
  "signWebhookBody hmac secret body ts = ''t='' @ show_nat (nat ts) @ '',v1='' @ hmac secret (show_nat (nat ts) @ ''.'' @ body)"

record dial =
  di_dest :: pinned_destination
  di_event :: string
  di_delivery :: string
  di_signature :: string
  di_body :: string

record attempt_env =
  ae_now :: int
  ae_openUrl :: "string \<Rightarrow> string \<Rightarrow> (thrown, string) result"
  ae_resolve :: "string \<Rightarrow> (thrown, pinned_destination) result"
  ae_gate :: bool
  ae_openSecret :: "string \<Rightarrow> string \<Rightarrow> string option"
  ae_render :: "string \<Rightarrow> string \<Rightarrow> string"
  ae_hmac :: "string \<Rightarrow> string \<Rightarrow> string"
  ae_send :: "dial \<Rightarrow> (thrown, int) result"

datatype outcome = delivered | retry | gave_up | blocked | expired | webhook_off

record attempt =
  at_outcome :: outcome
  at_dial :: "dial option"
  at_statements :: "statement list"

definition give_up :: "int \<Rightarrow> delivery_error \<Rightarrow> delivery \<Rightarrow> delivery" where
  "give_up now err d = d\<lparr>dv_status := GIVEN_UP, dv_lastError := Some err, dv_nextAttemptAt := now\<rparr>"

definition nth_or_zero :: "int list \<Rightarrow> nat \<Rightarrow> int" where
  "nth_or_zero xs i = (if i < length xs then xs ! i else 0)"

definition failed_attempt :: "int \<Rightarrow> bool \<Rightarrow> delivery \<Rightarrow> webhook \<Rightarrow> delivery_error \<Rightarrow> int option \<Rightarrow> dial option \<Rightarrow> attempt" where
  "failed_attempt now test row hook err code dialled =
     (let attempts = dv_attempts row + 1;
          exhausted = test \<or> MAX_ATTEMPTS \<le> attempts
      in \<lparr>at_outcome = (if exhausted then gave_up else retry), at_dial = dialled,
          at_statements =
            Settle (dv_id row) (\<lambda>d. d\<lparr>dv_attempts := attempts, dv_status := (if exhausted then GIVEN_UP else FAILED), dv_lastStatusCode := code,
              dv_lastError := Some err, dv_nextAttemptAt := (if exhausted then now else now + nth_or_zero RETRY_DELAYS_MS (attempts - 1))\<rparr>)
            # (if test then [] else recordWebhookFailure (wh_id hook))\<rparr>)"

definition attemptDelivery :: "attempt_env \<Rightarrow> delivery \<Rightarrow> webhook \<Rightarrow> bool \<Rightarrow> attempt" where
  "attemptDelivery env row hook test =
     (let now = ae_now env; fail = failed_attempt now test row hook in
      if \<not> test \<and> DELIVERY_EXPIRY_MS < now - dv_createdAt row
      then \<lparr>at_outcome = expired, at_dial = None, at_statements = [Settle (dv_id row) (give_up now EXPIRED)]\<rparr>
      else if \<not> test \<and> wh_status hook \<noteq> ACTIVE
      then \<lparr>at_outcome = webhook_off, at_dial = None, at_statements = [Settle (dv_id row) (give_up now WEBHOOK_OFF)]\<rparr>
      else (case andThen (ae_openUrl env (wh_id hook) (wh_urlEnc hook)) (ae_resolve env) of
          Inl err \<Rightarrow> fail (describeFailure err) None None
        | Inr dest \<Rightarrow>
            if pd_scope dest = public \<and> \<not> ae_gate env
            then \<lparr>at_outcome = blocked, at_dial = None, at_statements = [Settle (dv_id row)
                (if test then give_up now EGRESS_BLOCKED
                 else (\<lambda>d. d\<lparr>dv_lastError := Some EGRESS_BLOCKED, dv_nextAttemptAt := now + BLOCKED_RECHECK_MS\<rparr>))]\<rparr>
            else (case ae_openSecret env (wh_id hook) (wh_secretEnc hook) of
                None \<Rightarrow> fail SECRET_UNREADABLE None None
              | Some secret \<Rightarrow>
                  (let body = ae_render env (wh_format hook) (dv_payload row);
                       request = \<lparr>di_dest = dest, di_event = dv_event row, di_delivery = dv_id row,
                         di_signature = signWebhookBody (ae_hmac env) secret body (now div 1000), di_body = body\<rparr>
                   in case ae_send env request of
                     Inl err \<Rightarrow> fail (describeFailure err) None (Some request)
                   | Inr status \<Rightarrow>
                       if status < 200 \<or> 300 \<le> status then fail (HTTP_STATUS status) (Some status) (Some request)
                       else \<lparr>at_outcome = delivered, at_dial = Some request,
                         at_statements =
                           Settle (dv_id row) (\<lambda>d. d\<lparr>dv_status := DELIVERED, dv_attempts := dv_attempts row + 1, dv_deliveredAt := Some now,
                             dv_lastStatusCode := Some status, dv_lastError := None, dv_nextAttemptAt := now\<rparr>)
                           # (if test then [] else [Reset_failures (wh_id hook)])\<rparr>))))"

definition pruneWebhookDeliveries :: "int \<Rightarrow> tables \<Rightarrow> nat \<times> tables" where
  "pruneWebhookDeliveries now t =
     (let gone = (\<lambda>d. dv_status d \<in> {DELIVERED, GIVEN_UP} \<and> dv_createdAt d < now - DELIVERY_RETENTION_MS)
      in (length (filter gone (wt_deliveries t)), t\<lparr>wt_deliveries := filter (\<lambda>d. \<not> gone d) (wt_deliveries t)\<rparr>))"


section \<open>Management\<close>

datatype webhook_error =
    webhook_not_found | delivery_not_found | project_not_found | blocked_destination | invalid_events | webhook_limit_reached
  | guard_failure guard_error

definition PM_WEBHOOK_LIMIT :: nat where
  "PM_WEBHOOK_LIMIT = 50"

text \<open>
  What the service has around it: the URL parser and the interfaces of the box, the workspace of a project of kind
  \<^verbatim>\<open>PROJECT\<close>, the home workspace, which workspaces exist, and the sealing of an URL and of a secret for a webhook.
\<close>

record admin_env =
  ad_parse :: "string \<Rightarrow> url option"
  ad_local :: local_facts
  ad_project :: "string \<Rightarrow> string option"
  ad_home :: string
  ad_workspace :: "string \<Rightarrow> bool"
  ad_sealUrl :: "string \<Rightarrow> string \<Rightarrow> string"
  ad_sealSecret :: "string \<Rightarrow> string \<Rightarrow> string"

definition in_projects :: "admin_env \<Rightarrow> webhook \<Rightarrow> bool" where
  "in_projects env h \<longleftrightarrow> (case wh_projectId h of None \<Rightarrow> True | Some p \<Rightarrow> ad_project env p \<noteq> None)"

definition mustFind :: "admin_env \<Rightarrow> string \<Rightarrow> tables \<Rightarrow> (webhook_error, webhook) result" where
  "mustFind env i t = some_or webhook_not_found (find (\<lambda>h. wh_id h = i \<and> in_projects env h) (wt_hooks t))"

definition vetUrl :: "admin_env \<Rightarrow> string \<Rightarrow> (webhook_error, string) result" where
  "vetUrl env raw =
     (case assertLanOrPublicUrl (ad_parse env) raw (ad_local env) of
        Inr u \<Rightarrow> Return (url_href u)
      | Inl (Blocked _ _) \<Rightarrow> Throw blocked_destination
      | Inl e \<Rightarrow> Throw (guard_failure e))"

definition vetEvents :: "string list \<Rightarrow> (webhook_error, string list) result" where
  "vetEvents events =
     (let unique = rev (remdups (rev events)) in
      if unique = [] \<or> \<not> list_all isSubscribableEvent unique then Throw invalid_events else Return unique)"

definition workspaceForProject :: "admin_env \<Rightarrow> string \<Rightarrow> (webhook_error, string) result" where
  "workspaceForProject env p = some_or project_not_found (ad_project env p)"

record webhook_input =
  in_name :: string
  in_url :: string
  in_format :: string
  in_events :: "string list"
  in_projectId :: "string option"

definition createWebhook :: "admin_env \<Rightarrow> string \<Rightarrow> string \<Rightarrow> webhook_input \<Rightarrow> tables \<Rightarrow> (webhook_error, webhook \<times> tables) result" where
  "createWebhook env newId secret inp t =
     andThen (vetUrl env (in_url inp)) (\<lambda>u.
     andThen (vetEvents (in_events inp)) (\<lambda>events.
     andThen (case in_projectId inp of Some p \<Rightarrow> if p = [] then Return (ad_home env) else workspaceForProject env p | None \<Rightarrow> Return (ad_home env)) (\<lambda>ws.
       if PM_WEBHOOK_LIMIT \<le> length (filter (\<lambda>h. wh_workspaceId h = ws \<and> in_projects env h) (wt_hooks t)) then Throw webhook_limit_reached
       else let h = \<lparr>wh_id = newId, wh_workspaceId = ws, wh_projectId = in_projectId inp, wh_name = in_name inp, wh_urlEnc = ad_sealUrl env newId u,
                wh_format = in_format inp, wh_secretEnc = ad_sealSecret env newId secret, wh_events = events, wh_enabled = True,
                wh_status = ACTIVE, wh_consecutiveFailures = 0\<rparr>
            in Return (h, t\<lparr>wt_hooks := wt_hooks t @ [h]\<rparr>))))"

record webhook_patch =
  pt_name :: "string option"
  pt_url :: "string option"
  pt_format :: "string option"
  pt_events :: "string list option"
  pt_projectId :: "string option option"
  pt_enabled :: "bool option"

definition set_enabled :: "bool option \<Rightarrow> webhook \<Rightarrow> webhook" where
  "set_enabled e h =
     (case e of
        Some True \<Rightarrow> h\<lparr>wh_enabled := True, wh_status := ACTIVE, wh_consecutiveFailures := 0\<rparr>
      | Some False \<Rightarrow> h\<lparr>wh_enabled := False, wh_status := PAUSED\<rparr>
      | None \<Rightarrow> h)"

definition option_map2 :: "('a \<Rightarrow> ('e, 'b) result) \<Rightarrow> 'a option \<Rightarrow> ('e, 'b option) result" where
  "option_map2 f x = (case x of None \<Rightarrow> Return None | Some a \<Rightarrow> andThen (f a) (\<lambda>b. Return (Some b)))"

definition scope_patch :: "admin_env \<Rightarrow> webhook \<Rightarrow> string option \<Rightarrow> (webhook_error, string option) result" where
  "scope_patch env existing p =
     (case p of
        None \<Rightarrow> Return None
      | Some i \<Rightarrow> andThen (workspaceForProject env i) (\<lambda>ws. if ws \<noteq> wh_workspaceId existing then Throw project_not_found else Return (Some i)))"

definition or_old :: "'a option \<Rightarrow> 'a \<Rightarrow> 'a" where
  "or_old new old = (case new of Some x \<Rightarrow> x | None \<Rightarrow> old)"

definition updateWebhook :: "admin_env \<Rightarrow> string \<Rightarrow> webhook_patch \<Rightarrow> tables \<Rightarrow> (webhook_error, tables) result" where
  "updateWebhook env i p t =
     andThen (mustFind env i t) (\<lambda>existing.
     andThen (option_map2 (vetUrl env) (pt_url p)) (\<lambda>u.
     andThen (option_map2 vetEvents (pt_events p)) (\<lambda>events.
     andThen (option_map2 (scope_patch env existing) (pt_projectId p)) (\<lambda>scope.
       Return (snd (update_hooks (\<lambda>h. wh_id h = i)
         (\<lambda>h. set_enabled (pt_enabled p)
            (h\<lparr>wh_name := or_old (pt_name p) (wh_name h), wh_urlEnc := or_old (map_option (ad_sealUrl env i) u) (wh_urlEnc h),
               wh_format := or_old (pt_format p) (wh_format h), wh_events := or_old events (wh_events h),
               wh_projectId := or_old scope (wh_projectId h)\<rparr>)) t))))))"

text \<open>The deliveries of a webhook go with it.\<close>

definition deleteWebhook :: "admin_env \<Rightarrow> string \<Rightarrow> tables \<Rightarrow> (webhook_error, tables) result" where
  "deleteWebhook env i t =
     andThen (mustFind env i t) (\<lambda>_.
       Return \<lparr>wt_hooks = filter (\<lambda>h. wh_id h \<noteq> i) (wt_hooks t), wt_deliveries = filter (\<lambda>d. dv_webhookId d \<noteq> i) (wt_deliveries t)\<rparr>)"

definition rotateWebhookSecret :: "admin_env \<Rightarrow> string \<Rightarrow> string \<Rightarrow> tables \<Rightarrow> (webhook_error, tables) result" where
  "rotateWebhookSecret env i secret t =
     andThen (mustFind env i t) (\<lambda>_.
       Return (snd (update_hooks (\<lambda>h. wh_id h = i) (\<lambda>h. h\<lparr>wh_secretEnc := ad_sealSecret env i secret\<rparr>) t)))"

text \<open>The row of a test, leased at birth; the attempt that follows is \<open>attemptDelivery\<close> with \<open>test\<close>.\<close>

definition sendTestDelivery :: "admin_env \<Rightarrow> string \<Rightarrow> string \<Rightarrow> string \<Rightarrow> int \<Rightarrow> tables \<Rightarrow> (webhook_error, (delivery \<times> webhook) \<times> tables) result" where
  "sendTestDelivery env newId payload i now t =
     andThen (mustFind env i t) (\<lambda>hook.
       if \<not> ad_workspace env (wh_workspaceId hook) then Throw webhook_not_found
       else let d = new_delivery newId (wh_id hook) WEBHOOK_TEST_EVENT payload None (now + DELIVERY_LEASE_MS) now
         in Return ((d, hook), t\<lparr>wt_deliveries := wt_deliveries t @ [d]\<rparr>))"

definition redeliver :: "admin_env \<Rightarrow> string \<Rightarrow> string \<Rightarrow> string \<Rightarrow> int \<Rightarrow> tables \<Rightarrow> (webhook_error, tables) result" where
  "redeliver env newId i deliveryId now t =
     andThen (mustFind env i t) (\<lambda>_.
     andThen (some_or delivery_not_found (find (\<lambda>d. dv_id d = deliveryId \<and> dv_webhookId d = i) (wt_deliveries t))) (\<lambda>original.
       Return (t\<lparr>wt_deliveries := wt_deliveries t @ [new_delivery newId i (dv_event original) (dv_payload original) None now now]\<rparr>)))"

end
