(* ===== verification/Outbox_Run.thy ===== *)
theory Outbox_Run
  imports Outbox
begin

text \<open>
  Writers, sweeps and crashes in any order.  A writer's row is stamped at its insert and becomes visible at its
  commit; the sweep reads a batch, hands each row to the handler and moves the cursor behind it; a process may die
  anywhere, which drops the batch and the failure counts but neither table nor cursor.
\<close>

section \<open>The world of a consumer\<close>

record outbox_world =
  ow_now :: int
  ow_rows :: "activity_row list"
  ow_pending :: "activity_row list"
  ow_visible :: "activity_row list"
  ow_flag :: "flag_value option"
  ow_start :: "int option"
  ow_tracked :: tracked
  ow_batch :: "activity_row list"
  ow_done :: bool
  ow_handled :: "activity_row list"
  ow_failed :: "(string \<times> int) list"
  ow_dead :: "activity_row list"

definition outbox_init :: "int \<Rightarrow> outbox_world" where
  "outbox_init t = \<lparr>ow_now = t, ow_rows = [], ow_pending = [], ow_visible = [], ow_flag = None, ow_start = None, ow_tracked = [],
     ow_batch = [], ow_done = False, ow_handled = [], ow_failed = [], ow_dead = []\<rparr>"

definition sweep_read :: "'s consumer \<Rightarrow> outbox_world \<Rightarrow> (outbox_error, activity_row list) result \<times> flag_value option" where
  "sweep_read oc w = readOutboxBatch (oc_name oc) (oc_batchSize oc) (oc_settleMs oc) (ow_now w) (ow_visible w) (ow_flag w)"

definition row_failed :: "'s consumer \<Rightarrow> activity_row \<Rightarrow> outbox_world \<Rightarrow> outbox_world" where
  "row_failed oc r w =
     (let entry = note_failure (ow_tracked w) (ac_id r) (ow_now w);
          w1 = w\<lparr>ow_tracked := map_set (ac_id r) entry (ow_tracked w), ow_failed := (ac_id r, ow_now w) # ow_failed w\<rparr>
      in if is_poison (oc_poisonAfterMs oc) (ow_now w) entry then w1\<lparr>ow_dead := r # ow_dead w, ow_done := True\<rparr>
         else w1\<lparr>ow_batch := []\<rparr>)"

inductive outbox_step :: "'s consumer \<Rightarrow> int \<Rightarrow> outbox_world \<Rightarrow> outbox_world \<Rightarrow> bool" for oc :: "'s consumer" and tx_limit :: int where
  ob_tick: "ow_now w \<le> t \<Longrightarrow> \<forall>p\<in>set (ow_pending w). t \<le> ac_createdAt p + tx_limit \<Longrightarrow> outbox_step oc tx_limit w (w\<lparr>ow_now := t\<rparr>)"
| ob_insert: "ac_createdAt r = ow_now w \<Longrightarrow> ac_id r \<notin> ac_id ` set (ow_rows w)
    \<Longrightarrow> outbox_step oc tx_limit w (w\<lparr>ow_rows := r # ow_rows w, ow_pending := r # ow_pending w\<rparr>)"
| ob_commit: "r \<in> set (ow_pending w)
    \<Longrightarrow> outbox_step oc tx_limit w (w\<lparr>ow_pending := removeAll r (ow_pending w), ow_visible := r # ow_visible w\<rparr>)"
| ob_abort: "outbox_step oc tx_limit w (w\<lparr>ow_pending := removeAll r (ow_pending w)\<rparr>)"
| ob_delete: "outbox_step oc tx_limit w (w\<lparr>ow_visible := removeAll r (ow_visible w)\<rparr>)"
| ob_read: "ow_batch w = [] \<Longrightarrow> sweep_read oc w = (Inr rows, flag)
    \<Longrightarrow> outbox_step oc tx_limit w (w\<lparr>ow_batch := rows, ow_done := False, ow_flag := flag, ow_start := (if ow_flag w = None then Some (ow_now w) else ow_start w)\<rparr>)"
| ob_handle: "ow_batch w = r # rest \<Longrightarrow> \<not> ow_done w \<Longrightarrow> outbox_step oc tx_limit w (w\<lparr>ow_handled := r # ow_handled w, ow_done := True\<rparr>)"
| ob_fail: "ow_batch w = r # rest \<Longrightarrow> \<not> ow_done w \<Longrightarrow> outbox_step oc tx_limit w (row_failed oc r w)"
| ob_advance: "ow_batch w = r # rest \<Longrightarrow> ow_done w
    \<Longrightarrow> outbox_step oc tx_limit w (w\<lparr>ow_tracked := map_delete (ac_id r) (ow_tracked w), ow_flag := advanceOutboxCursor r (ow_flag w), ow_batch := rest, ow_done := False\<rparr>)"
| ob_advance_lost: "ow_batch w = r # rest \<Longrightarrow> ow_done w
    \<Longrightarrow> outbox_step oc tx_limit w (w\<lparr>ow_tracked := map_delete (ac_id r) (ow_tracked w), ow_batch := [], ow_done := False\<rparr>)"
| ob_crash: "outbox_step oc tx_limit w (w\<lparr>ow_tracked := [], ow_batch := [], ow_done := False\<rparr>)"

abbreviation outbox_run :: "'s consumer \<Rightarrow> int \<Rightarrow> outbox_world \<Rightarrow> outbox_world \<Rightarrow> bool" where
  "outbox_run oc tx_limit \<equiv> (outbox_step oc tx_limit)\<^sup>*\<^sup>*"

section \<open>The batch\<close>

lemma key_less: "cur < row_key r \<longleftrightarrow> fst cur < ac_createdAt r \<or> ac_createdAt r = fst cur \<and> snd cur < ac_id r"
  by (cases cur) (auto simp: row_key_def)

lemma batch_filter_key: "batch_filter name cur b r \<longleftrightarrow> seen_by name r \<and> cur < row_key r \<and> ac_createdAt r \<le> b"
  by (simp add: batch_filter_def key_less)

lemma next_rows_member:
  "r \<in> set (next_rows name cur b n rows) \<Longrightarrow> r \<in> set rows \<and> seen_by name r \<and> cur < row_key r \<and> ac_createdAt r \<le> b"
  unfolding next_rows_def by (drule in_set_takeD) (simp add: batch_filter_key)

lemma next_rows_sorted:
  assumes "inj_on row_key (set rows)" "distinct rows"
  shows "sorted_wrt (<) (map row_key (next_rows name cur b n rows))"
proof -
  let ?s = "sort_key row_key (filter (batch_filter name cur b) rows)"
  have "distinct (map row_key ?s)" using assms by (auto simp: distinct_map intro: inj_on_subset)
  moreover have "sorted (map row_key ?s)" by simp
  ultimately have "sorted_wrt (<) (map row_key ?s)" by (simp add: strict_sorted_iff)
  then have "sorted_wrt (<) (take n (map row_key ?s))" by (rule sorted_wrt_take)
  then show ?thesis by (simp add: next_rows_def take_map)
qed

text \<open>Nothing between the cursor and a row of the batch is left out.\<close>

lemma sorted_take_closed:
  fixes f :: "'a \<Rightarrow> 'b :: linorder"
  assumes "sorted_wrt (<) (map f xs)" "x \<in> set xs" "y \<in> set (take n xs)" "f x < f y"
  shows "x \<in> set (take n xs)"
proof -
  obtain i where i: "i < length xs" "xs ! i = x" using assms(2) by (auto simp: in_set_conv_nth)
  obtain j where j: "j < n" "j < length xs" "xs ! j = y" using assms(3) by (auto simp: in_set_conv_nth)
  have "i < j"
  proof (rule ccontr)
    assume "\<not> i < j"
    then have "i = j \<or> j < i" by auto
    with sorted_wrt_nth_less [OF assms(1), of j i] i j assms(4) show False by auto
  qed
  then have "take n xs ! i = x" "i < length (take n xs)" using i j by auto
  then show ?thesis by (metis nth_mem)
qed

lemma next_rows_closed:
  assumes "inj_on row_key (set rows)" "distinct rows" "r \<in> set rows" "seen_by name r" "cur < row_key r"
    and "q \<in> set (next_rows name cur b n rows)" "row_key r < row_key q"
  shows "r \<in> set (next_rows name cur b n rows)"
proof -
  let ?s = "sort_key row_key (filter (batch_filter name cur b) rows)"
  have "ac_createdAt r \<le> ac_createdAt q" using assms(7) by (auto simp: row_key_def)
  with next_rows_member [OF assms(6)] have r: "r \<in> set ?s" using assms(3-5) by (simp add: batch_filter_key)
  have s: "sorted_wrt (<) (map row_key ?s)"
    using next_rows_sorted [OF assms(1,2), of name cur b "length ?s"] by (simp add: next_rows_def)
  from sorted_take_closed [OF s r assms(6) [unfolded next_rows_def] assms(7)] show ?thesis by (simp only: next_rows_def)
qed


section \<open>Nothing is missed\<close>

abbreviation ended :: "outbox_world \<Rightarrow> activity_row set" where
  "ended w \<equiv> set (ow_handled w) \<union> set (ow_dead w)"

definition rows_inv :: "int \<Rightarrow> outbox_world \<Rightarrow> bool" where
  "rows_inv tx_limit w \<longleftrightarrow>
     inj_on ac_id (set (ow_rows w)) \<and> distinct (ow_visible w) \<and> set (ow_pending w) \<inter> set (ow_visible w) = {}
     \<and> set (ow_pending w) \<union> set (ow_visible w) \<union> set (ow_batch w) \<subseteq> set (ow_rows w)
     \<and> (\<forall>p\<in>set (ow_pending w). ow_now w \<le> ac_createdAt p + tx_limit)"

definition cursor_inv :: "'s consumer \<Rightarrow> outbox_world \<Rightarrow> bool" where
  "cursor_inv oc w \<longleftrightarrow>
     (case ow_flag w of
        None \<Rightarrow> ow_batch w = []
      | Some Unreadable \<Rightarrow> False
      | Some (Cursor cur) \<Rightarrow>
          (\<exists>t0. ow_start w = Some t0
             \<and> (cur = (t0, []) \<or> fst cur + oc_settleMs oc \<le> ow_now w)
             \<and> sorted_wrt (<) (map row_key (ow_batch w))
             \<and> (\<forall>b\<in>set (ow_batch w). cur < row_key b \<and> ac_createdAt b + oc_settleMs oc \<le> ow_now w)
             \<and> (\<forall>r\<in>set (ow_visible w). \<forall>b\<in>set (ow_batch w).
                  seen_by (oc_name oc) r \<longrightarrow> cur < row_key r \<longrightarrow> row_key r < row_key b \<longrightarrow> r \<in> set (ow_batch w))
             \<and> (\<forall>r\<in>set (ow_visible w). seen_by (oc_name oc) r \<longrightarrow> (t0, []) < row_key r \<longrightarrow> row_key r \<le> cur \<longrightarrow> r \<in> ended w)))
     \<and> (ow_done w \<longrightarrow> ow_batch w \<noteq> [] \<longrightarrow> hd (ow_batch w) \<in> ended w)"

lemma row_key_inj: "inj_on ac_id S \<Longrightarrow> inj_on row_key S"
  by (auto simp: inj_on_def row_key_def)

lemma rows_step:
  assumes "outbox_step oc tx w w'" "rows_inv tx w" "0 \<le> tx"
  shows "rows_inv tx w'"
  using assms(1,2)
proof cases
  case (ob_read rows flag)
  then have "set rows \<subseteq> set (ow_visible w)"
    by (auto simp: sweep_read_def readOutboxBatch_def dest: next_rows_member split: if_splits prod.splits sum.splits)
  with ob_read assms(2) show ?thesis by (auto simp: rows_inv_def)
next
  case (ob_insert r)
  with assms(2,3) show ?thesis by (auto simp: rows_inv_def)
next
  case (ob_fail r rest)
  with assms(2) show ?thesis by (auto simp: rows_inv_def row_failed_def Let_def)
qed (auto simp: rows_inv_def distinct_removeAll)

lemma cursor_invI:
  assumes "cursor_inv oc w" "ow_flag w' = ow_flag w" "ow_start w' = ow_start w" "ow_now w \<le> ow_now w'"
    "ow_batch w' = ow_batch w \<or> ow_batch w' = []" "set (ow_visible w') \<subseteq> set (ow_visible w)" "ended w \<subseteq> ended w'"
    "ow_done w' \<Longrightarrow> ow_batch w' \<noteq> [] \<Longrightarrow> hd (ow_batch w') \<in> ended w'"
  shows "cursor_inv oc w'"
proof (cases "ow_flag w")
  case None
  with assms show ?thesis by (auto simp: cursor_inv_def)
next
  case (Some v)
  with assms(1) obtain cur where v: "v = Cursor cur" by (cases v) (auto simp: cursor_inv_def)
  with Some assms(1) obtain t0 where t0: "ow_start w = Some t0" "cur = (t0, []) \<or> fst cur + oc_settleMs oc \<le> ow_now w"
    "sorted_wrt (<) (map row_key (ow_batch w))" "\<forall>b\<in>set (ow_batch w). cur < row_key b \<and> ac_createdAt b + oc_settleMs oc \<le> ow_now w"
    "\<forall>r\<in>set (ow_visible w). \<forall>b\<in>set (ow_batch w). seen_by (oc_name oc) r \<longrightarrow> cur < row_key r \<longrightarrow> row_key r < row_key b \<longrightarrow> r \<in> set (ow_batch w)"
    "\<forall>r\<in>set (ow_visible w). seen_by (oc_name oc) r \<longrightarrow> (t0, []) < row_key r \<longrightarrow> row_key r \<le> cur \<longrightarrow> r \<in> ended w"
    by (auto simp: cursor_inv_def)
  have s: "sorted_wrt (<) (map row_key (ow_batch w'))" "set (ow_batch w') \<subseteq> set (ow_batch w)" using t0(3) assms(5) by auto
  have c: "cur = (t0, []) \<or> fst cur + oc_settleMs oc \<le> ow_now w'" using t0(2) assms(4) by auto
  have b: "\<forall>b\<in>set (ow_batch w'). cur < row_key b \<and> ac_createdAt b + oc_settleMs oc \<le> ow_now w'" using t0(4) s(2) assms(4) by fastforce
  have g: "\<forall>r\<in>set (ow_visible w'). \<forall>b\<in>set (ow_batch w'). seen_by (oc_name oc) r \<longrightarrow> cur < row_key r \<longrightarrow> row_key r < row_key b \<longrightarrow> r \<in> set (ow_batch w')"
    using t0(5) assms(5,6) by auto
  have e: "\<forall>r\<in>set (ow_visible w'). seen_by (oc_name oc) r \<longrightarrow> (t0, []) < row_key r \<longrightarrow> row_key r \<le> cur \<longrightarrow> r \<in> ended w'"
    using t0(6) assms(6,7) by blast
  show ?thesis
    unfolding cursor_inv_def assms(2) Some v
    using assms(3,8) t0(1) c s(1) b g e by simp
qed


lemma cursor_commit:
  assumes "cursor_inv oc w" "rows_inv tx w" "tx < oc_settleMs oc" "r \<in> set (ow_pending w)"
  shows "cursor_inv oc (w\<lparr>ow_pending := removeAll r (ow_pending w), ow_visible := r # ow_visible w\<rparr>)"
proof -
  have "ow_now w < ac_createdAt r + oc_settleMs oc" using assms(2-4) by (fastforce simp: rows_inv_def)
  then have late: "\<not> row_key r < row_key b" if "ac_createdAt b + oc_settleMs oc \<le> ow_now w" for b
    using that by (auto simp: row_key_def)
  have after: "\<not> row_key r \<le> cur" if "cur = (t0, []) \<or> fst cur + oc_settleMs oc \<le> ow_now w" "(t0, []) < row_key r" for cur :: cursor and t0
    using that \<open>ow_now w < ac_createdAt r + oc_settleMs oc\<close> by (cases cur) (auto simp: row_key_def)
  show ?thesis
    using assms(1) late after unfolding cursor_inv_def
    by (auto split: option.splits flag_value.splits)
qed

lemma sweep_read_rows:
  assumes "sweep_read oc w = (Inr rows, flag)"
  shows "\<exists>cur. flag = Some (Cursor cur) \<and> rows = next_rows (oc_name oc) cur (ow_now w - oc_settleMs oc) (oc_batchSize oc) (ow_visible w)
      \<and> (if ow_flag w = None then cur = (ow_now w, []) else ow_flag w = flag)"
  using assms by (auto simp: sweep_read_def readOutboxBatch_def loadCursor_def Let_def split: if_splits prod.splits sum.splits option.splits flag_value.splits)

lemma cursor_read:
  assumes "cursor_inv oc w" "rows_inv tx w" "ow_batch w = []" "sweep_read oc w = (Inr rows, flag)"
  shows "cursor_inv oc (w\<lparr>ow_batch := rows, ow_done := False, ow_flag := flag, ow_start := (if ow_flag w = None then Some (ow_now w) else ow_start w)\<rparr>)"
proof -
  have inj: "inj_on row_key (set (ow_visible w))" "distinct (ow_visible w)"
    using assms(2) row_key_inj inj_on_subset unfolding rows_inv_def by (metis Un_subset_iff, blast)
  from sweep_read_rows [OF assms(4)] obtain cur where cur: "flag = Some (Cursor cur)"
    "rows = next_rows (oc_name oc) cur (ow_now w - oc_settleMs oc) (oc_batchSize oc) (ow_visible w)"
    "if ow_flag w = None then cur = (ow_now w, []) else ow_flag w = flag" by blast
  have m: "\<forall>b\<in>set rows. cur < row_key b \<and> ac_createdAt b + oc_settleMs oc \<le> ow_now w"
    using next_rows_member unfolding cur(2) by fastforce
  have s: "sorted_wrt (<) (map row_key rows)" unfolding cur(2) by (rule next_rows_sorted [OF inj])
  have g: "\<forall>r\<in>set (ow_visible w). \<forall>b\<in>set rows. seen_by (oc_name oc) r \<longrightarrow> cur < row_key r \<longrightarrow> row_key r < row_key b \<longrightarrow> r \<in> set rows"
    unfolding cur(2) using next_rows_closed [OF inj] by blast
  show ?thesis
  proof (cases "ow_flag w")
    case None
    with cur(3) have c: "cur = (ow_now w, [])" by simp
    then have "\<forall>r\<in>set (ow_visible w). (ow_now w, []) < row_key r \<longrightarrow> \<not> row_key r \<le> cur" by auto
    with None cur(1) c m s g show ?thesis by (simp add: cursor_inv_def)
  next
    case (Some v)
    with cur(1,3) have v: "ow_flag w = Some (Cursor cur)" by simp
    with assms(1,3) m s g cur(1) show ?thesis by (auto simp: cursor_inv_def)
  qed
qed

lemma cursor_advance:
  assumes "cursor_inv oc w" "rows_inv tx w" "ow_batch w = r # rest" "ow_done w"
  shows "cursor_inv oc (w\<lparr>ow_tracked := map_delete (ac_id r) (ow_tracked w), ow_flag := advanceOutboxCursor r (ow_flag w), ow_batch := rest, ow_done := False\<rparr>)"
proof -
  from assms(1,3) obtain cur where "ow_flag w = Some (Cursor cur)" by (auto simp: cursor_inv_def split: option.splits flag_value.splits)
  with assms(1,3,4) obtain t0 where t0: "ow_start w = Some t0" "sorted_wrt (<) (map row_key (r # rest))"
    "\<forall>b\<in>set (r # rest). cur < row_key b \<and> ac_createdAt b + oc_settleMs oc \<le> ow_now w"
    "\<forall>q\<in>set (ow_visible w). \<forall>b\<in>set (r # rest). seen_by (oc_name oc) q \<longrightarrow> cur < row_key q \<longrightarrow> row_key q < row_key b \<longrightarrow> q \<in> set (r # rest)"
    "\<forall>q\<in>set (ow_visible w). seen_by (oc_name oc) q \<longrightarrow> (t0, []) < row_key q \<longrightarrow> row_key q \<le> cur \<longrightarrow> q \<in> ended w" "r \<in> ended w"
    by (auto simp: cursor_inv_def)
  have keys: "inj_on row_key (set (ow_rows w))" "set (ow_visible w) \<subseteq> set (ow_rows w)" "r \<in> set (ow_rows w)"
    using assms(2,3) row_key_inj by (auto simp: rows_inv_def)
  have main: "q \<in> ended w" if q: "q \<in> set (ow_visible w)" "seen_by (oc_name oc) q" "(t0, []) < row_key q" "row_key q \<le> row_key r" for q
  proof (cases "row_key q \<le> cur")
    case True
    with t0(5) q show ?thesis by blast
  next
    case False
    have "q = r"
    proof (rule ccontr)
      assume "q \<noteq> r"
      with keys q(1) inj_onD [OF keys(1), of q r] have "row_key q \<noteq> row_key r" by blast
      with q(4) have "row_key q < row_key r" by simp
      with t0(4) q(1,2) False have "q \<in> set (r # rest)" by auto
      with t0(2) \<open>row_key q < row_key r\<close> show False by fastforce
    qed
    with t0(6) show ?thesis by simp
  qed
  have gap: "q \<in> set rest" if "q \<in> set (ow_visible w)" "b \<in> set rest" "seen_by (oc_name oc) q" "row_key r < row_key q" "row_key q < row_key b" for q b
  proof -
    have "cur < row_key q" using t0(3) that(4) by (meson less_trans list.set_intros(1))
    with t0(4) that have "q \<in> set (r # rest)" by (meson list.set_intros(2))
    with that(4) show ?thesis by auto
  qed
  have first: "fst (row_key r) + oc_settleMs oc \<le> ow_now w" using t0(3) by (simp add: row_key_def)
  have rest: "sorted_wrt (<) (map row_key rest)" "\<forall>b\<in>set rest. row_key r < row_key b \<and> ac_createdAt b + oc_settleMs oc \<le> ow_now w"
    using t0(2,3) by simp_all
  have m: "\<forall>q\<in>set (ow_visible w). seen_by (oc_name oc) q \<longrightarrow> (t0, []) < row_key q \<longrightarrow> row_key q \<le> row_key r \<longrightarrow> q \<in> ended w"
    using main by blast
  have g: "\<forall>q\<in>set (ow_visible w). \<forall>b\<in>set rest. seen_by (oc_name oc) q \<longrightarrow> row_key r < row_key q \<longrightarrow> row_key q < row_key b \<longrightarrow> q \<in> set rest"
    using gap by blast
  show ?thesis
    unfolding cursor_inv_def advanceOutboxCursor_def using t0(1) first rest m g by simp
qed


lemma cursor_step:
  assumes "outbox_step oc tx w w'" "cursor_inv oc w" "rows_inv tx w" "tx < oc_settleMs oc"
  shows "cursor_inv oc w'"
  using assms(1)
proof cases
  case (ob_commit r)
  with cursor_commit [OF assms(2-4)] show ?thesis by simp
next
  case (ob_read rows flag)
  with cursor_read [OF assms(2,3)] show ?thesis by simp
next
  case (ob_advance r rest)
  with cursor_advance [OF assms(2,3)] show ?thesis by simp
next
  case (ob_fail r rest)
  show ?thesis unfolding ob_fail(1) by (rule cursor_invI [OF assms(2)]) (use ob_fail in \<open>auto simp: row_failed_def Let_def\<close>)
next
  case (ob_tick t)
  show ?thesis unfolding ob_tick(1) by (rule cursor_invI [OF assms(2)]) (use ob_tick assms(2) in \<open>auto simp: cursor_inv_def\<close>)
next
  case (ob_insert r)
  show ?thesis unfolding ob_insert(1) by (rule cursor_invI [OF assms(2)]) (use ob_insert assms(2) in \<open>auto simp: cursor_inv_def\<close>)
next
  case (ob_abort r)
  show ?thesis unfolding ob_abort(1) by (rule cursor_invI [OF assms(2)]) (use assms(2) in \<open>auto simp: cursor_inv_def\<close>)
next
  case (ob_delete r)
  show ?thesis unfolding ob_delete(1) by (rule cursor_invI [OF assms(2)]) (use assms(2) in \<open>auto simp: cursor_inv_def\<close>)
next
  case (ob_handle r rest)
  show ?thesis unfolding ob_handle(1) by (rule cursor_invI [OF assms(2)]) (use ob_handle in auto)
next
  case (ob_advance_lost r rest)
  show ?thesis unfolding ob_advance_lost(1) by (rule cursor_invI [OF assms(2)]) auto
next
  case ob_crash
  show ?thesis unfolding ob_crash by (rule cursor_invI [OF assms(2)]) auto
qed

definition failures_of :: "outbox_world \<Rightarrow> string \<Rightarrow> nat" where
  "failures_of w rowId = length (filter (\<lambda>f. fst f = rowId) (ow_failed w))"

definition poisoned :: "'s consumer \<Rightarrow> outbox_world \<Rightarrow> activity_row \<Rightarrow> bool" where
  "poisoned oc w r \<longleftrightarrow> POISON_MIN_FAILURES \<le> failures_of w (ac_id r)
     \<and> (\<exists>t1 t2. (ac_id r, t1) \<in> set (ow_failed w) \<and> (ac_id r, t2) \<in> set (ow_failed w) \<and> oc_poisonAfterMs oc \<le> t2 - t1)"

definition failure_inv :: "'s consumer \<Rightarrow> outbox_world \<Rightarrow> bool" where
  "failure_inv oc w \<longleftrightarrow>
     (\<forall>rowId first n. map_of (ow_tracked w) rowId = Some (first, n) \<longrightarrow> (rowId, first) \<in> set (ow_failed w) \<and> n \<le> failures_of w rowId)
     \<and> (\<forall>r\<in>set (ow_dead w). poisoned oc w r)"

lemma failure_step:
  assumes "outbox_step oc tx w w'" "failure_inv oc w"
  shows "failure_inv oc w'"
  using assms(1)
proof cases
  case (ob_fail r rest)
  let ?e = "note_failure (ow_tracked w) (ac_id r) (ow_now w)"
  let ?w = "w\<lparr>ow_failed := (ac_id r, ow_now w) # ow_failed w\<rparr>"
  have more: "failures_of w x \<le> failures_of ?w x" for x by (simp add: failures_of_def)
  have e: "(ac_id r, fst ?e) \<in> set (ow_failed ?w)" "snd ?e \<le> failures_of ?w (ac_id r)"
    using assms(2) by (auto simp: note_failure_def failure_inv_def failures_of_def split: option.splits)
  have old: "poisoned oc ?w d" if "poisoned oc w d" for d
    using that more [of "ac_id d"] by (auto simp: poisoned_def)
  have new: "poisoned oc ?w r" if "is_poison (oc_poisonAfterMs oc) (ow_now w) ?e"
    using that e by (auto simp: poisoned_def is_poison_def)
  have kept: "(rowId, first) \<in> set (ow_failed ?w) \<and> n \<le> failures_of ?w rowId" if "map_of (ow_tracked w) rowId = Some (first, n)" for rowId first n
    using assms(2) that more [of rowId] by (fastforce simp: failure_inv_def)
  have "(\<forall>rowId first n. map_of (map_set (ac_id r) ?e (ow_tracked w)) rowId = Some (first, n)
      \<longrightarrow> (rowId, first) \<in> set (ow_failed ?w) \<and> n \<le> failures_of ?w rowId)"
    using kept e by (auto simp: map_of_map_set)
  moreover have "\<forall>d\<in>set (ow_dead w). poisoned oc ?w d" using assms(2) old by (simp add: failure_inv_def)
  ultimately show ?thesis
    unfolding ob_fail(1) row_failed_def Let_def using new by (auto simp: failure_inv_def poisoned_def failures_of_def)
qed (use assms(2) in \<open>auto simp: failure_inv_def poisoned_def failures_of_def map_of_map_delete split: if_splits\<close>)

lemma outbox_invariant:
  assumes "outbox_run oc tx (outbox_init t) w" "0 \<le> tx" "tx < oc_settleMs oc"
  shows "rows_inv tx w \<and> cursor_inv oc w \<and> failure_inv oc w"
  using assms(1)
proof (induction rule: rtranclp_induct)
  case base
  show ?case by (simp add: outbox_init_def rows_inv_def cursor_inv_def failure_inv_def)
next
  case (step w w')
  with rows_step [OF step.hyps(2) _ assms(2)] cursor_step [OF step.hyps(2) _ _ assms(3)] failure_step [OF step.hyps(2)] show ?case by blast
qed

lemma behind_cursor:
  assumes "outbox_run oc tx (outbox_init t) w" "0 \<le> tx" "tx < oc_settleMs oc"
    and "ow_flag w = Some (Cursor cur)" "ow_start w = Some t0"
    and "r \<in> set (ow_visible w)" "seen_by (oc_name oc) r" "(t0, []) < row_key r" "row_key r \<le> cur"
  shows "r \<in> set (ow_handled w) \<or> poisoned oc w r"
proof -
  from outbox_invariant [OF assms(1-3)] have "cursor_inv oc w" "failure_inv oc w" by blast+
  from this(1) assms(4-9) have "r \<in> ended w" by (simp add: cursor_inv_def)
  with \<open>failure_inv oc w\<close> show ?thesis by (auto simp: failure_inv_def)
qed

text \<open>
  C17. The outbox misses nothing: however writers, sweeps, failures and crashes interleave, every visible row the consumer
  sees that was stamped after the consumer's start and lies at or behind its cursor was handled, or its handler failed at
  least three times over at least the poison window.  A transaction commits within \<open>tx\<close> milliseconds of its
  insert, less than the settle window.
\<close>

theorem outbox_misses_nothing:
  assumes "outbox_run oc tx (outbox_init t) w" "0 \<le> tx" "tx < oc_settleMs oc"
    and "ow_flag w = Some (Cursor cur)" "ow_start w = Some t0"
    and "r \<in> set (ow_visible w)" "seen_by (oc_name oc) r" "(t0, []) < row_key r" "row_key r \<le> cur"
  shows "r \<in> set (ow_handled w) \<or> poisoned oc w r"
  by (rule behind_cursor [OF assms])


section \<open>In order\<close>


definition order_inv :: "'s consumer \<Rightarrow> outbox_world \<Rightarrow> bool" where
  "order_inv oc w \<longleftrightarrow>
     sorted (map row_key (rev (ow_handled w)))
     \<and> (\<forall>x\<in>set (ow_handled w). \<forall>b\<in>set (ow_batch w). row_key x \<le> row_key b)
     \<and> (case ow_flag w of
          Some (Cursor cur) \<Rightarrow>
            (\<forall>x\<in>set (ow_handled w). row_key x \<le> cur
               \<or> (ac_createdAt x + oc_settleMs oc \<le> ow_now w
                  \<and> (\<forall>r\<in>set (ow_visible w). seen_by (oc_name oc) r \<longrightarrow> cur < row_key r \<longrightarrow> row_key x \<le> row_key r)))
        | _ \<Rightarrow> ow_handled w = [])"

lemma order_invI:
  assumes "order_inv oc w" "ow_flag w' = ow_flag w" "ow_handled w' = ow_handled w" "ow_now w \<le> ow_now w'"
    "ow_batch w' = ow_batch w \<or> ow_batch w' = []" "set (ow_visible w') \<subseteq> set (ow_visible w)"
  shows "order_inv oc w'"
proof -
  have "set (ow_batch w') \<subseteq> set (ow_batch w)" using assms(5) by auto
  then show ?thesis
    using assms(1,2,3,4,6) unfolding order_inv_def
    by (fastforce split: option.splits flag_value.splits)
qed

lemma order_commit:
  assumes "order_inv oc w" "rows_inv tx w" "tx < oc_settleMs oc" "r \<in> set (ow_pending w)"
  shows "order_inv oc (w\<lparr>ow_pending := removeAll r (ow_pending w), ow_visible := r # ow_visible w\<rparr>)"
proof -
  have "ow_now w < ac_createdAt r + oc_settleMs oc" using assms(2-4) by (fastforce simp: rows_inv_def)
  then have "row_key x \<le> row_key r" if "ac_createdAt x + oc_settleMs oc \<le> ow_now w" for x
    using that by (auto simp: row_key_def)
  then show ?thesis
    using assms(1) unfolding order_inv_def by (fastforce split: option.splits flag_value.splits)
qed

lemma order_read:
  assumes "order_inv oc w" "ow_batch w = []" "sweep_read oc w = (Inr rows, flag)"
  shows "order_inv oc (w\<lparr>ow_batch := rows, ow_done := False, ow_flag := flag, ow_start := s\<rparr>)"
proof -
  from sweep_read_rows [OF assms(3)] obtain cur where cur: "flag = Some (Cursor cur)"
    "rows = next_rows (oc_name oc) cur (ow_now w - oc_settleMs oc) (oc_batchSize oc) (ow_visible w)"
    "if ow_flag w = None then cur = (ow_now w, []) else ow_flag w = flag" by blast
  show ?thesis
  proof (cases "ow_flag w")
    case None
    with assms(1) cur(1) show ?thesis by (simp add: order_inv_def)
  next
    case (Some v)
    with cur(1,3) have f: "ow_flag w = Some (Cursor cur)" by simp
    have "row_key x \<le> row_key b" if x: "x \<in> set (ow_handled w)" and b: "b \<in> set rows" for x b
    proof -
      from next_rows_member [OF b [unfolded cur(2)]] have "b \<in> set (ow_visible w)" "seen_by (oc_name oc) b" "cur < row_key b" by auto
      moreover from assms(1) f x have "row_key x \<le> cur \<or> (\<forall>r\<in>set (ow_visible w). seen_by (oc_name oc) r \<longrightarrow> cur < row_key r \<longrightarrow> row_key x \<le> row_key r)"
        by (auto simp: order_inv_def)
      ultimately show ?thesis by (meson less_imp_le order_trans)
    qed
    with assms(1) f cur(1) show ?thesis by (simp add: order_inv_def)
  qed
qed

lemma order_handle:
  assumes "order_inv oc w" "cursor_inv oc w" "ow_batch w = r # rest"
  shows "order_inv oc (w\<lparr>ow_handled := r # ow_handled w, ow_done := True\<rparr>)"
proof -
  from assms(2,3) obtain cur where f: "ow_flag w = Some (Cursor cur)" by (auto simp: cursor_inv_def split: option.splits flag_value.splits)
  with assms(2,3) have c: "sorted_wrt (<) (map row_key (r # rest))" "ac_createdAt r + oc_settleMs oc \<le> ow_now w"
    "\<forall>q\<in>set (ow_visible w). seen_by (oc_name oc) q \<longrightarrow> cur < row_key q \<longrightarrow> row_key q < row_key r \<longrightarrow> q \<in> set (r # rest)"
    by (auto simp: cursor_inv_def)
  have gap: "\<forall>q\<in>set (ow_visible w). seen_by (oc_name oc) q \<longrightarrow> cur < row_key q \<longrightarrow> row_key r \<le> row_key q"
  proof (intro ballI impI)
    fix q assume q: "q \<in> set (ow_visible w)" "seen_by (oc_name oc) q" "cur < row_key q"
    show "row_key r \<le> row_key q"
    proof (rule ccontr)
      assume "\<not> ?thesis"
      then have "row_key q < row_key r" by simp
      with c(3) q have "q \<in> set (r # rest)" by blast
      with c(1) \<open>row_key q < row_key r\<close> show False by fastforce
    qed
  qed
  have "\<forall>x\<in>set (ow_handled w). row_key x \<le> row_key r" using assms(1,3) by (simp add: order_inv_def)
  moreover have "\<forall>b\<in>set (r # rest). row_key r \<le> row_key b" using c(1) by (auto intro: less_imp_le)
  ultimately show ?thesis
    using assms(1,3) f gap c(2) by (simp add: order_inv_def sorted_append)
qed

lemma order_advance:
  assumes "order_inv oc w" "cursor_inv oc w" "ow_batch w = r # rest" "ow_done w"
  shows "order_inv oc (w\<lparr>ow_tracked := tr, ow_flag := advanceOutboxCursor r (ow_flag w), ow_batch := rest, ow_done := False\<rparr>)"
  using assms(1,3) by (simp add: order_inv_def advanceOutboxCursor_def)

lemma order_step:
  assumes "outbox_step oc tx w w'" "order_inv oc w" "cursor_inv oc w" "rows_inv tx w" "tx < oc_settleMs oc"
  shows "order_inv oc w'"
  using assms(1)
proof cases
  case (ob_commit r)
  with order_commit [OF assms(2,4,5)] show ?thesis by simp
next
  case (ob_read rows flag)
  with order_read [OF assms(2)] show ?thesis by simp
next
  case (ob_handle r rest)
  with order_handle [OF assms(2,3)] show ?thesis by simp
next
  case (ob_advance r rest)
  with order_advance [OF assms(2,3)] show ?thesis by simp
qed (auto intro!: order_invI [OF assms(2)] simp: row_failed_def Let_def)

text \<open>
  The handler sees the rows in the order of the cursor, whatever is lost and replayed: along every run the keys of the
  rows handed over never go down, so a replay repeats a row directly after itself and nothing overtakes it.
\<close>

theorem handled_in_order:
  assumes "outbox_run oc tx (outbox_init t) w" "0 \<le> tx" "tx < oc_settleMs oc"
  shows "sorted (map row_key (rev (ow_handled w)))"
proof -
  from assms(1) have "order_inv oc w"
  proof (induction rule: rtranclp_induct)
    case base
    show ?case by (simp add: outbox_init_def order_inv_def)
  next
    case (step w w')
    with order_step [OF step.hyps(2)] outbox_invariant [OF step.hyps(1) assms(2,3)] assms(3) show ?case by blast
  qed
  then show ?thesis by (simp add: order_inv_def)
qed

section \<open>Replays\<close>

text \<open>
  Handling is at least once: a lost advance hands a row over again, in other circumstances \<open>e\<close> (a later clock, other
  fresh ids).  A handler that recognises a row it has finished makes that exactly once.
\<close>

definition handle_log :: "('e \<Rightarrow> activity_row \<Rightarrow> 's \<Rightarrow> 's) \<Rightarrow> ('e \<times> activity_row) list \<Rightarrow> 's \<Rightarrow> 's" where
  "handle_log handle log s = fold (\<lambda>(e, r). handle e r) log s"

fun first_times :: "activity_row list \<Rightarrow> ('e \<times> activity_row) list \<Rightarrow> ('e \<times> activity_row) list" where
  "first_times seen [] = []"
| "first_times seen ((e, r) # log) = (if r \<in> set seen then first_times seen log else (e, r) # first_times (r # seen) log)"

locale replay_tolerant =
  fixes handle :: "'e \<Rightarrow> activity_row \<Rightarrow> 's \<Rightarrow> 's"
    and finished :: "activity_row \<Rightarrow> 's \<Rightarrow> bool"
  assumes handle_finishes: "finished r (handle e r s)"
    and handle_keeps: "finished r s \<Longrightarrow> finished r (handle e q s)"
    and handle_finished: "finished r s \<Longrightarrow> handle e r s = s"
begin

lemma replays_harmless:
  "\<forall>r\<in>set seen. finished r s \<Longrightarrow> handle_log handle log s = handle_log handle (first_times seen log) s"
proof (induction log arbitrary: seen s)
  case Nil
  show ?case by simp
next
  case (Cons x log)
  obtain e r where x: "x = (e, r)" by (cases x)
  have "\<forall>q\<in>set (r # seen). finished q (handle e r s)" using Cons.prems handle_finishes handle_keeps by auto
  from Cons.IH [OF this] Cons.IH [OF Cons.prems] Cons.prems handle_finished show ?case by (auto simp: x handle_log_def)
qed

lemma log_keeps: "finished r s \<Longrightarrow> finished r (handle_log handle log s)"
  by (induction log arbitrary: s) (auto simp: handle_log_def intro: handle_keeps)

lemma log_finishes: "r \<in> snd ` set log \<Longrightarrow> finished r (handle_log handle log s)"
proof (induction log arbitrary: s)
  case (Cons x log)
  obtain e q where x: "x = (e, q)" by (cases x)
  show ?case
  proof (cases "q = r")
    case True
    with log_keeps [OF handle_finishes [of r e s], of log] show ?thesis by (simp add: x handle_log_def)
  next
    case False
    with Cons x show ?thesis by (simp add: handle_log_def)
  qed
qed simp

end

section \<open>A sweep drains\<close>

definition due_rows :: "'s consumer \<Rightarrow> cursor \<Rightarrow> int \<Rightarrow> activity_row list \<Rightarrow> activity_row list" where
  "due_rows oc cur now table = sort_key row_key (filter (batch_filter (oc_name oc) cur (now - oc_settleMs oc)) table)"

definition handle_all :: "'s consumer \<Rightarrow> activity_row list \<Rightarrow> 's \<Rightarrow> 's" where
  "handle_all oc rows st = fold (\<lambda>r st. snd (oc_handle oc r st)) rows st"

lemma sweep_rows_ok:
  assumes "\<And>r st. fst (oc_handle oc r st)"
  shows "\<exists>tr. sweep_rows oc rows s = (None, s\<lparr>sw_tracked := tr, sw_store := handle_all oc rows (sw_store s),
      sw_flag := (if rows = [] then sw_flag s else Some (Cursor (row_key (last rows)))), sw_handled := sw_handled s + length rows\<rparr>)"
proof (induction rows arbitrary: s)
  case Nil
  have "s = s\<lparr>sw_tracked := sw_tracked s, sw_store := sw_store s, sw_flag := sw_flag s, sw_handled := sw_handled s\<rparr>" by simp
  then show ?case by (auto simp: handle_all_def intro!: exI [of _ "sw_tracked s"])
next
  case (Cons r rows)
  obtain st where st: "oc_handle oc r (sw_store s) = (True, st)" using assms [of r "sw_store s"] by (cases "oc_handle oc r (sw_store s)") auto
  from Cons.IH [of "finish_row r (s\<lparr>sw_store := st, sw_handled := sw_handled s + 1\<rparr>)"] st show ?case
    by (auto simp: finish_row_def advanceOutboxCursor_def handle_all_def)
qed

lemma due_after:
  assumes "inj_on row_key (set table)" "distinct table" "due_rows oc cur now table = xs @ [x] @ ys"
  shows "due_rows oc (row_key x) now table = ys"
proof -
  let ?B = "now - oc_settleMs oc"
  have sorted: "sorted_wrt (<) (map row_key (xs @ [x] @ ys))"
    using next_rows_sorted [OF assms(1,2), of "oc_name oc" cur ?B "length (due_rows oc cur now table)"] assms(3)
    by (simp add: next_rows_def due_rows_def)
  have "x \<in> set (due_rows oc cur now table)" using assms(3) by simp
  then have "cur < row_key x" by (simp add: due_rows_def batch_filter_key)
  then have "batch_filter (oc_name oc) (row_key x) ?B = (\<lambda>r. batch_filter (oc_name oc) cur ?B r \<and> row_key x < row_key r)"
    by (auto simp: batch_filter_key fun_eq_iff)
  then have "due_rows oc (row_key x) now table = filter (\<lambda>r. row_key x < row_key r) (due_rows oc cur now table)"
    by (simp add: due_rows_def filter_sort)
  also have "\<dots> = ys"
    unfolding assms(3) using sorted by (auto simp: sorted_wrt_append filter_empty_conv filter_id_conv dest: less_imp_not_less)
  finally show ?thesis .
qed

definition after_batch :: "'s consumer \<Rightarrow> activity_row list \<Rightarrow> tracked \<Rightarrow> 's sweep \<Rightarrow> 's sweep" where
  "after_batch oc rows tr s = s\<lparr>sw_tracked := tr, sw_store := handle_all oc rows (sw_store s),
      sw_flag := (if rows = [] then sw_flag s else Some (Cursor (row_key (last rows)))), sw_handled := sw_handled s + length rows\<rparr>"

lemma sweep_batch_ok:
  assumes "\<And>r st. fst (oc_handle oc r st)" "1 \<le> oc_batchSize oc" "sw_flag s = Some (Cursor cur)" "sw_clock s = [now]"
    and b: "b = take (oc_batchSize oc) (due_rows oc cur now table)"
  shows "\<exists>tr. sweep_batches (Suc n) oc table s =
     (if length b < oc_batchSize oc then (None, after_batch oc b tr s) else sweep_batches n oc table (after_batch oc b tr s))"
proof -
  have read: "read_clock s = (now, s)" using assms(4) by (simp add: read_clock_def)
  have batch: "readOutboxBatch (oc_name oc) (oc_batchSize oc) (oc_settleMs oc) now table (sw_flag s) = (Inr b, sw_flag s)"
    using assms(2,3) by (simp add: b readOutboxBatch_def loadCursor_def next_rows_def due_rows_def)
  have same: "s\<lparr>sw_flag := sw_flag s\<rparr> = s" by simp
  obtain tr where "sweep_rows oc b s = (None, after_batch oc b tr s)"
    using sweep_rows_ok [of oc b s] assms(1) unfolding after_batch_def by blast
  then have "sweep_batches (Suc n) oc table s =
     (if length b < oc_batchSize oc then (None, after_batch oc b tr s) else sweep_batches n oc table (after_batch oc b tr s))"
    unfolding sweep_batches.simps read batch prod.case sum.case same by simp
  then show ?thesis by blast
qed

definition drained :: "'s consumer \<Rightarrow> activity_row list \<Rightarrow> cursor \<Rightarrow> 's sweep \<Rightarrow> 's sweep \<Rightarrow> bool" where
  "drained oc due cur s s' \<longleftrightarrow>
     sw_store s' = handle_all oc due (sw_store s) \<and> sw_handled s' = sw_handled s + length due
     \<and> sw_flag s' = Some (Cursor (if due = [] then cur else row_key (last due)))"

lemma drained_batch: "sw_flag s = Some (Cursor cur) \<Longrightarrow> drained oc b cur s (after_batch oc b tr s)"
  by (simp add: drained_def after_batch_def)

lemma drained_append:
  assumes "drained oc b cur s s1" "b \<noteq> []" "drained oc rest (row_key (last b)) s1 s2"
  shows "drained oc (b @ rest) cur s s2"
  using assms by (auto simp: drained_def handle_all_def last_append)

lemma batches_drain:
  assumes "\<And>r st. fst (oc_handle oc r st)" "1 \<le> oc_batchSize oc" "inj_on row_key (set table)" "distinct table"
  shows "sw_flag s = Some (Cursor cur) \<Longrightarrow> sw_clock s = [now] \<Longrightarrow> length (due_rows oc cur now table) < n * oc_batchSize oc
    \<Longrightarrow> \<exists>s'. sweep_batches n oc table s = (None, s') \<and> drained oc (due_rows oc cur now table) cur s s'"
proof (induction n arbitrary: s cur)
  case (Suc n)
  let ?d = "due_rows oc cur now table"
  let ?b = "take (oc_batchSize oc) ?d"
  obtain tr where step: "sweep_batches (Suc n) oc table s =
     (if length ?b < oc_batchSize oc then (None, after_batch oc ?b tr s) else sweep_batches n oc table (after_batch oc ?b tr s))"
    using sweep_batch_ok [OF assms(1,2) Suc.prems(1,2) refl, of n table] by blast
  note first = drained_batch [OF Suc.prems(1), of oc ?b tr]
  show ?case
  proof (cases "length ?b < oc_batchSize oc")
    case True
    then have "?b = ?d" by simp
    with True first step show ?thesis by auto
  next
    case False
    then have b: "?b \<noteq> []" using assms(2) by auto
    have "?d = butlast ?b @ [last ?b] @ drop (oc_batchSize oc) ?d"
      using append_butlast_last_id [OF b] append_take_drop_id [of "oc_batchSize oc" ?d] by (metis append.assoc)
    from due_after [OF assms(3,4) this] have d: "due_rows oc (row_key (last ?b)) now table = drop (oc_batchSize oc) ?d" .
    have "sw_flag (after_batch oc ?b tr s) = Some (Cursor (row_key (last ?b)))" "sw_clock (after_batch oc ?b tr s) = [now]"
      using b Suc.prems(2) by (simp_all add: after_batch_def)
    moreover have "length (drop (oc_batchSize oc) ?d) < n * oc_batchSize oc" using Suc.prems(3) False by auto
    ultimately obtain s' where s': "sweep_batches n oc table (after_batch oc ?b tr s) = (None, s')"
      "drained oc (drop (oc_batchSize oc) ?d) (row_key (last ?b)) (after_batch oc ?b tr s) s'"
      using Suc.IH [of "after_batch oc ?b tr s" "row_key (last ?b)"] unfolding d by blast
    from drained_append [OF first b s'(2)] s'(1) step False show ?thesis by simp
  qed
qed simp

text \<open>
  C21. When the handler succeeds, one sweep hands every settled row behind no other to the handler, each once, in the order of
  the cursor, and leaves the cursor at the last one: up to fifty batches, a backlog is drained.
\<close>

theorem sweep_drains:
  assumes "\<And>r st. fst (oc_handle oc r st)" "1 \<le> oc_batchSize oc" "inj_on row_key (set table)" "distinct table"
    and "sw_flag s = Some (Cursor cur)" "sw_clock s = [now]"
    and "length (due_rows oc cur now table) < MAX_BATCHES_PER_SWEEP * oc_batchSize oc"
  shows "case runOutboxSweep oc table s of (err, s') \<Rightarrow>
     err = None \<and> sw_store s' = handle_all oc (due_rows oc cur now table) (sw_store s) \<and> sw_handled s' = length (due_rows oc cur now table)
     \<and> sw_flag s' = Some (Cursor (if due_rows oc cur now table = [] then cur else row_key (last (due_rows oc cur now table))))"
proof -
  let ?s = "s\<lparr>sw_handled := 0, sw_deadLettered := 0\<rparr>"
  from batches_drain [OF assms(1-4), of ?s cur now MAX_BATCHES_PER_SWEEP] assms(5-7)
  obtain s' where "sweep_batches MAX_BATCHES_PER_SWEEP oc table ?s = (None, s')" "drained oc (due_rows oc cur now table) cur ?s s'" by auto
  then show ?thesis by (simp add: runOutboxSweep_def drained_def)
qed


section \<open>Samples\<close>

definition sample_consumer :: "activity_row list consumer" where
  "sample_consumer = \<lparr>oc_name = ''webhooks'', oc_batchSize = 2, oc_settleMs = DEFAULT_OUTBOX_SETTLE_MS,
     oc_poisonAfterMs = DEFAULT_OUTBOX_POISON_AFTER_MS, oc_handle = (\<lambda>r st. (True, st @ [r]))\<rparr>"

definition sample_activity :: "string \<Rightarrow> activity_row" where
  "sample_activity i = \<lparr>ac_id = i, ac_createdAt = 10, ac_verb = ''created'', ac_workItemId = Some ''w1'', ac_deletedWorkItemId = None\<rparr>"

theorem sweep_drains_witness:
  "sw_store (snd (runOutboxSweep sample_consumer [sample_activity ''b'', sample_activity ''a'']
     \<lparr>sw_flag = Some (Cursor (0, [])), sw_tracked = [], sw_clock = [7000], sw_store = [], sw_handled = 0, sw_deadLettered = 0\<rparr>))
   = [sample_activity ''a'', sample_activity ''b'']"
proof -
  let ?s = "\<lparr>sw_flag = Some (Cursor (0, [])), sw_tracked = [], sw_clock = [7000], sw_store = [], sw_handled = 0, sw_deadLettered = 0\<rparr> :: activity_row list sweep"
  let ?t = "[sample_activity ''b'', sample_activity ''a'']"
  have h: "fst (oc_handle sample_consumer r st)" for r st by (simp add: sample_consumer_def)
  have t: "1 \<le> oc_batchSize sample_consumer" "inj_on row_key (set ?t)" "distinct ?t"
    by (simp_all add: sample_consumer_def sample_activity_def row_key_def)
  have d: "due_rows sample_consumer (0, []) 7000 ?t = [sample_activity ''a'', sample_activity ''b'']" by code_simp
  have l: "length (due_rows sample_consumer (0, []) 7000 ?t) < MAX_BATCHES_PER_SWEEP * oc_batchSize sample_consumer"
    unfolding d by (simp add: MAX_BATCHES_PER_SWEEP_def sample_consumer_def)
  have "handle_all sample_consumer [sample_activity ''a'', sample_activity ''b''] [] = [sample_activity ''a'', sample_activity ''b'']" by code_simp
  with sweep_drains [OF h t, of ?s "(0, [])" 7000] l d show ?thesis by (simp split: prod.splits)
qed

definition started :: outbox_world where
  "started = (outbox_init 0)\<lparr>ow_flag := Some (Cursor (0, [])), ow_start := Some 0\<rparr>"

definition written :: outbox_world where
  "written = started\<lparr>ow_now := 10, ow_rows := [sample_activity ''a''], ow_visible := [sample_activity ''a'']\<rparr>"

definition delivered_once :: outbox_world where
  "delivered_once = written\<lparr>ow_now := 7000, ow_flag := Some (Cursor (10, ''a'')), ow_handled := [sample_activity ''a'']\<rparr>"

lemma sample_started: "outbox_run sample_consumer 5000 (outbox_init 0) started"
proof -
  have "sweep_read sample_consumer (outbox_init 0) = (Inr [], Some (Cursor (0, [])))" by code_simp
  from ob_read [OF _ this, of 5000] show ?thesis by (auto simp: started_def outbox_init_def)
qed

lemma sample_written: "outbox_run sample_consumer 5000 started written"
proof -
  let ?r = "sample_activity ''a''"
  let ?w1 = "started\<lparr>ow_now := 10\<rparr>"
  let ?w2 = "?w1\<lparr>ow_rows := [?r], ow_pending := [?r]\<rparr>"
  have 1: "outbox_step sample_consumer 5000 started ?w1" by (rule ob_tick) (simp_all add: started_def outbox_init_def)
  have 2: "outbox_step sample_consumer 5000 ?w1 ?w2"
    using ob_insert [of ?r ?w1 sample_consumer 5000] by (simp add: started_def outbox_init_def sample_activity_def)
  have 3: "outbox_step sample_consumer 5000 ?w2 written"
    using ob_commit [of ?r ?w2 sample_consumer 5000] by (simp add: written_def started_def outbox_init_def)
  from 1 2 3 show ?thesis by (meson rtranclp.rtrancl_into_rtrancl rtranclp.rtrancl_refl)
qed

lemma sample_delivered: "outbox_run sample_consumer 5000 written delivered_once"
proof -
  let ?r = "sample_activity ''a''"
  let ?w1 = "written\<lparr>ow_now := 7000\<rparr>"
  let ?w2 = "?w1\<lparr>ow_batch := [?r]\<rparr>"
  let ?w3 = "?w2\<lparr>ow_handled := [?r], ow_done := True\<rparr>"
  have 1: "outbox_step sample_consumer 5000 written ?w1" by (rule ob_tick) (simp_all add: written_def started_def outbox_init_def)
  have "sweep_read sample_consumer ?w1 = (Inr [?r], Some (Cursor (0, [])))" by code_simp
  from ob_read [OF _ this, of 5000] have 2: "outbox_step sample_consumer 5000 ?w1 ?w2"
    by (simp add: written_def started_def outbox_init_def)
  have 3: "outbox_step sample_consumer 5000 ?w2 ?w3"
    using ob_handle [of ?w2 ?r "[]" sample_consumer 5000] by (simp add: written_def started_def outbox_init_def)
  have 4: "outbox_step sample_consumer 5000 ?w3 delivered_once"
    using ob_advance [of ?w3 ?r "[]" sample_consumer 5000]
    by (simp add: delivered_once_def written_def started_def outbox_init_def map_delete_def advanceOutboxCursor_def row_key_def sample_activity_def)
  from 1 2 3 4 show ?thesis by (meson rtranclp.rtrancl_into_rtrancl rtranclp.rtrancl_refl)
qed

theorem outbox_misses_nothing_witness:
  "sample_activity ''a'' \<in> set (ow_handled delivered_once) \<or> poisoned sample_consumer delivered_once (sample_activity ''a'')"
proof -
  have run: "outbox_run sample_consumer 5000 (outbox_init 0) delivered_once"
    using sample_started sample_written sample_delivered by (meson rtranclp_trans)
  show ?thesis
    by (rule outbox_misses_nothing [OF run, of "(10, ''a'')" 0])
      (simp_all add: sample_consumer_def DEFAULT_OUTBOX_SETTLE_MS_def delivered_once_def written_def started_def outbox_init_def seen_by_def
        sample_activity_def row_key_def)
qed


theorem handled_in_order_witness: "sorted (map row_key (rev (ow_handled delivered_once)))"
proof -
  have "outbox_run sample_consumer 5000 (outbox_init 0) delivered_once"
    using sample_started sample_written sample_delivered by (meson rtranclp_trans)
  then show ?thesis by (rule handled_in_order) (simp_all add: sample_consumer_def DEFAULT_OUTBOX_SETTLE_MS_def)
qed

end
