(* ===== verification/Webhook_Run.thy ===== *)
theory Webhook_Run
  imports Webhooks Outbox_Run
begin

text \<open>
  The webhook worker, the fan-out and the administrators in any order.  A sweep claims rows with the webhook as it is
  then; each claimed row is attempted later, against whatever the outside answers, and its statements run one by
  one between the steps of others.  Attempts and statements may be lost at any point.
\<close>

section \<open>The world of the worker\<close>

datatype notice = Notified string | Resumed string

record webhook_world =
  ww_now :: int
  ww_tables :: tables
  ww_claimed :: "(delivery \<times> webhook \<times> bool) list"
  ww_running :: "statement list list"
  ww_notices :: "notice list"
  ww_used :: "string set"

definition webhook_init :: "int \<Rightarrow> webhook_world" where
  "webhook_init t = \<lparr>ww_now = t, ww_tables = \<lparr>wt_hooks = [], wt_deliveries = []\<rparr>, ww_claimed = [], ww_running = [], ww_notices = [], ww_used = {}\<rparr>"

definition hook_ids :: "webhook_world \<Rightarrow> string set" where
  "hook_ids w = wh_id ` set (wt_hooks (ww_tables w))"

definition notice_of :: "statement \<Rightarrow> bool \<Rightarrow> notice list" where
  "notice_of st hit = (case st of Turn_off i \<Rightarrow> if hit then [Notified i] else [] | _ \<Rightarrow> [])"

inductive webhook_step :: "admin_env \<Rightarrow> webhook_world \<Rightarrow> webhook_world \<Rightarrow> bool" for env :: admin_env where
  wk_tick: "ww_now w \<le> t \<Longrightarrow> webhook_step env w (w\<lparr>ww_now := t\<rparr>)"
| wk_fanout: "inj_on mint (hook_ids w) \<Longrightarrow> mint ` hook_ids w \<inter> ww_used w = {} \<Longrightarrow> fanOutActivity findItem mint (ww_now w) row (ww_tables w) = (n, t)
    \<Longrightarrow> webhook_step env w (w\<lparr>ww_tables := t, ww_used := ww_used w \<union> mint ` hook_ids w\<rparr>)"
| wk_claim: "claimDueDeliveries (ww_now w) DELIVERY_BATCH (ww_tables w) = (rows, t)
    \<Longrightarrow> webhook_step env w (w\<lparr>ww_tables := t, ww_claimed := map (\<lambda>(d, h). (d, h, False)) rows @ ww_claimed w\<rparr>)"
| wk_attempt: "(d, h, test) \<in> set (ww_claimed w) \<Longrightarrow> ae_now ae = ww_now w
    \<Longrightarrow> webhook_step env w (w\<lparr>ww_claimed := remove1 (d, h, test) (ww_claimed w), ww_running := at_statements (attemptDelivery ae d h test) # ww_running w\<rparr>)"
| wk_statement: "(st # rest) \<in> set (ww_running w) \<Longrightarrow> run_statement st (ww_tables w) = (hit, t)
    \<Longrightarrow> webhook_step env w (w\<lparr>ww_tables := t, ww_running := rest # remove1 (st # rest) (ww_running w), ww_notices := notice_of st hit @ ww_notices w\<rparr>)"
| wk_lose: "webhook_step env w (w\<lparr>ww_claimed := filter P (ww_claimed w), ww_running := filter Q (ww_running w)\<rparr>)"
| wk_create: "newId \<notin> ww_used w \<Longrightarrow> createWebhook env newId secret inp (ww_tables w) = Inr (h, t)
    \<Longrightarrow> webhook_step env w (w\<lparr>ww_tables := t, ww_used := insert newId (ww_used w)\<rparr>)"
| wk_update: "updateWebhook env i p (ww_tables w) = Inr t
    \<Longrightarrow> webhook_step env w (w\<lparr>ww_tables := t, ww_notices := (if pt_enabled p = Some True then [Resumed i] else []) @ ww_notices w\<rparr>)"
| wk_delete: "deleteWebhook env i (ww_tables w) = Inr t \<Longrightarrow> webhook_step env w (w\<lparr>ww_tables := t\<rparr>)"
| wk_rotate: "rotateWebhookSecret env i secret (ww_tables w) = Inr t \<Longrightarrow> webhook_step env w (w\<lparr>ww_tables := t\<rparr>)"
| wk_test: "newId \<notin> ww_used w \<Longrightarrow> sendTestDelivery env newId payload i (ww_now w) (ww_tables w) = Inr ((d, h), t)
    \<Longrightarrow> webhook_step env w (w\<lparr>ww_tables := t, ww_claimed := (d, h, True) # ww_claimed w, ww_used := insert newId (ww_used w)\<rparr>)"
| wk_redeliver: "newId \<notin> ww_used w \<Longrightarrow> redeliver env newId i deliveryId (ww_now w) (ww_tables w) = Inr t
    \<Longrightarrow> webhook_step env w (w\<lparr>ww_tables := t, ww_used := insert newId (ww_used w)\<rparr>)"
| wk_prune: "pruneWebhookDeliveries (ww_now w) (ww_tables w) = (n, t) \<Longrightarrow> webhook_step env w (w\<lparr>ww_tables := t\<rparr>)"

abbreviation webhook_run :: "admin_env \<Rightarrow> webhook_world \<Rightarrow> webhook_world \<Rightarrow> bool" where
  "webhook_run env \<equiv> (webhook_step env)\<^sup>*\<^sup>*"


section \<open>The life of a delivery\<close>

definition owed :: "delivery \<Rightarrow> bool" where
  "owed d \<longleftrightarrow> dv_status d \<in> set OWED"

fun status_ok :: "delivery_status \<Rightarrow> delivery \<Rightarrow> bool" where
  "status_ok PENDING d \<longleftrightarrow> dv_attempts d = 0"
| "status_ok FAILED d \<longleftrightarrow> 1 \<le> dv_attempts d \<and> dv_attempts d < MAX_ATTEMPTS \<and> dv_lastError d \<noteq> None"
| "status_ok DELIVERED d \<longleftrightarrow> 1 \<le> dv_attempts d \<and> dv_attempts d \<le> MAX_ATTEMPTS \<and> dv_deliveredAt d \<noteq> None \<and> dv_lastError d = None"
| "status_ok GIVEN_UP d \<longleftrightarrow> dv_attempts d \<le> MAX_ATTEMPTS \<and> dv_lastError d \<noteq> None"

definition row_ok :: "delivery \<Rightarrow> bool" where
  "row_ok d \<longleftrightarrow> status_ok (dv_status d) d"

definition same_event :: "delivery \<Rightarrow> delivery \<Rightarrow> bool" where
  "same_event d d' \<longleftrightarrow> dv_id d' = dv_id d \<and> dv_webhookId d' = dv_webhookId d \<and> dv_event d' = dv_event d \<and> dv_sourceKey d' = dv_sourceKey d
     \<and> dv_payload d' = dv_payload d \<and> dv_createdAt d' = dv_createdAt d"

definition statement_ok :: "statement \<Rightarrow> bool" where
  "statement_ok st = (case st of Settle i data \<Rightarrow> (\<forall>d. owed d \<and> row_ok d \<longrightarrow> row_ok (data d) \<and> same_event d (data d)) | _ \<Rightarrow> True)"

lemma owed_cases: "owed d \<longleftrightarrow> dv_status d = PENDING \<or> dv_status d = FAILED"
  by (auto simp: owed_def OWED_def)

lemma owed_attempts: "owed d \<Longrightarrow> row_ok d \<Longrightarrow> dv_attempts d < MAX_ATTEMPTS"
  by (auto simp: owed_cases row_ok_def MAX_ATTEMPTS_def)

lemma give_up_ok: "statement_ok (Settle i (give_up now err))"
  by (auto simp: statement_ok_def give_up_def row_ok_def same_event_def dest: owed_attempts [unfolded row_ok_def])

lemma blocked_ok: "statement_ok (Settle i (\<lambda>d. d\<lparr>dv_lastError := Some err, dv_nextAttemptAt := at\<rparr>))"
  by (auto simp: statement_ok_def row_ok_def same_event_def owed_cases)

lemma failed_ok:
  assumes "dv_attempts row < MAX_ATTEMPTS"
  shows "\<forall>st\<in>set (at_statements (failed_attempt now test row hook err code dialled)). statement_ok st"
  using assms by (auto simp: failed_attempt_def Let_def statement_ok_def row_ok_def same_event_def recordWebhookFailure_def)

lemma attempt_ok:
  assumes "dv_attempts row < MAX_ATTEMPTS"
  shows "\<forall>st\<in>set (at_statements (attemptDelivery env row hook test)). statement_ok st"
proof -
  note f = failed_ok [OF assms]
  have "statement_ok (Settle i (\<lambda>d. d\<lparr>dv_status := DELIVERED, dv_attempts := dv_attempts row + 1, dv_deliveredAt := Some now,
      dv_lastStatusCode := Some status, dv_lastError := None, dv_nextAttemptAt := now\<rparr>))" for i now status
    using assms by (auto simp: statement_ok_def row_ok_def same_event_def)
  moreover have "statement_ok (Reset_failures i)" for i by (simp add: statement_ok_def)
  ultimately show ?thesis
    by (auto simp: attemptDelivery_def Let_def f give_up_ok blocked_ok split: sum.splits option.splits)
qed


text \<open>What every operation may do to the queue: change owed rows, add fresh ones, drop rows.\<close>

definition advances :: "delivery \<Rightarrow> delivery \<Rightarrow> bool" where
  "advances d d' \<longleftrightarrow> same_event d d' \<and> (\<not> owed d \<longrightarrow> d' = d) \<and> row_ok d'"

definition queue_ok :: "string set \<Rightarrow> tables \<Rightarrow> bool" where
  "queue_ok used t \<longleftrightarrow> distinct (map dv_id (wt_deliveries t)) \<and> dv_id ` set (wt_deliveries t) \<subseteq> used \<and> (\<forall>d\<in>set (wt_deliveries t). row_ok d)"

definition queue_follows :: "string set \<Rightarrow> string set \<Rightarrow> tables \<Rightarrow> tables \<Rightarrow> bool" where
  "queue_follows used used' t t' \<longleftrightarrow> queue_ok used' t'
     \<and> (\<forall>d'\<in>set (wt_deliveries t'). (\<exists>d\<in>set (wt_deliveries t). advances d d') \<or> dv_id d' \<notin> used)"

lemma follows_map:
  assumes "queue_ok used t" "wt_deliveries t' = map f (wt_deliveries t)" "\<And>d. d \<in> set (wt_deliveries t) \<Longrightarrow> advances d (f d)"
  shows "queue_follows used used t t'"
proof -
  have ids: "map dv_id (wt_deliveries t') = map dv_id (wt_deliveries t)"
    using assms(2,3) by (simp add: advances_def same_event_def)
  have "dv_id ` set (wt_deliveries t') = dv_id ` set (wt_deliveries t)" using arg_cong [OF ids, of set] by simp
  moreover have "\<exists>d\<in>set (wt_deliveries t). advances d d'" if "d' \<in> set (wt_deliveries t')" for d' using that assms(2,3) by auto
  moreover from this have "row_ok d'" if "d' \<in> set (wt_deliveries t')" for d' using that by (auto simp: advances_def)
  ultimately show ?thesis using assms(1) ids unfolding queue_follows_def queue_ok_def by metis
qed

lemma delivery_advances_refl: "row_ok d \<Longrightarrow> advances d d"
  by (simp add: advances_def same_event_def)

lemma follows_filter:
  assumes "queue_ok used t" "wt_deliveries t' = filter P (wt_deliveries t)"
  shows "queue_follows used used t t'"
  using assms by (auto simp: queue_follows_def queue_ok_def distinct_map_filter intro: delivery_advances_refl)

lemma follows_same: "queue_ok used t \<Longrightarrow> wt_deliveries t' = wt_deliveries t \<Longrightarrow> used \<subseteq> used' \<Longrightarrow> queue_follows used used' t t'"
  by (fastforce simp: queue_follows_def queue_ok_def intro: delivery_advances_refl)

lemma follows_append:
  assumes "queue_ok used t" "wt_deliveries t' = wt_deliveries t @ new" "used \<subseteq> used'"
    and "distinct (map dv_id new)" "dv_id ` set new \<inter> used = {}" "dv_id ` set new \<subseteq> used'" "\<And>d. d \<in> set new \<Longrightarrow> row_ok d"
  shows "queue_follows used used' t t'"
proof -
  have q: "distinct (map dv_id (wt_deliveries t))" "dv_id ` set (wt_deliveries t) \<subseteq> used" "\<forall>d\<in>set (wt_deliveries t). row_ok d"
    using assms(1) by (simp_all add: queue_ok_def)
  have "dv_id ` set (wt_deliveries t) \<inter> dv_id ` set new = {}" using q(2) assms(5) by blast
  with q assms(3,4,6,7) have "queue_ok used' t'" unfolding queue_ok_def assms(2) by auto
  moreover have "(\<exists>d\<in>set (wt_deliveries t). advances d d') \<or> dv_id d' \<notin> used" if "d' \<in> set (wt_deliveries t')" for d'
  proof (cases "d' \<in> set new")
    case True
    with assms(5) show ?thesis by blast
  next
    case False
    with that have "d' \<in> set (wt_deliveries t)" using assms(2) by simp
    with q(3) delivery_advances_refl show ?thesis by blast
  qed
  ultimately show ?thesis by (simp add: queue_follows_def)
qed

lemma new_row_ok: "row_ok (new_delivery i hook event payload src nextAt createdAt)"
  by (simp add: row_ok_def new_delivery_def)

lemma same_id: "queue_ok used t \<Longrightarrow> d \<in> set (wt_deliveries t) \<Longrightarrow> d' \<in> set (wt_deliveries t) \<Longrightarrow> dv_id d = dv_id d' \<Longrightarrow> d = d'"
  by (auto simp: queue_ok_def distinct_map dest: inj_onD)

lemma due_id_owed:
  assumes "queue_ok used t" "d \<in> set (wt_deliveries t)" "dv_id d \<in> set (due_ids now n t)"
  shows "owed d"
proof -
  obtain x where x: "x \<in> set (take n (sort_key dv_nextAttemptAt (filter (is_due now) (wt_deliveries t))))" "dv_id x = dv_id d"
    using assms(3) by (auto simp: due_ids_def)
  from in_set_takeD [OF x(1)] have "x \<in> set (wt_deliveries t)" "owed x" by (simp_all add: is_due_def owed_def)
  with same_id [OF assms(1,2)] x(2) show ?thesis by metis
qed

lemma lease_advances: "row_ok d \<Longrightarrow> (dv_id d \<in> set ids \<Longrightarrow> owed d) \<Longrightarrow> advances d (lease ids now d)"
  by (cases "dv_status d") (auto simp: advances_def same_event_def lease_def row_ok_def)

lemma with_hooks_member: "(d, h) \<in> set (with_hooks ids t) \<Longrightarrow> d \<in> set (wt_deliveries t) \<and> dv_id d \<in> set ids \<and> hook_of (dv_webhookId d) t = Some h"
  by (auto simp: with_hooks_def List.map_filter_def)

lemma claim_follows:
  assumes "queue_ok used t" "claimDueDeliveries now n t = (rows, t')"
  shows "queue_follows used used t t' \<and> (\<forall>(d, h)\<in>set rows. dv_attempts d < MAX_ATTEMPTS)"
proof (cases "due_ids now n t = []")
  case True
  with assms(2) have "t' = t" "rows = []" by (simp_all add: claimDueDeliveries_def Let_def)
  with follows_same [OF assms(1)] show ?thesis by simp
next
  case False
  let ?ids = "due_ids now n t"
  from False assms(2) have t': "t' = t\<lparr>wt_deliveries := map (lease ?ids now) (wt_deliveries t)\<rparr>" "rows = with_hooks ?ids t'"
    by (auto simp: claimDueDeliveries_def Let_def)
  have f: "advances d (lease ?ids now d)" if "d \<in> set (wt_deliveries t)" for d
    using assms(1) that due_id_owed [OF assms(1) that] by (intro lease_advances) (auto simp: queue_ok_def)
  have "dv_attempts d < MAX_ATTEMPTS" if "(d, h) \<in> set rows" for d h
  proof -
    from that t'(2) with_hooks_member have "d \<in> set (wt_deliveries t')" "dv_id d \<in> set ?ids" by blast+
    then obtain d0 where d0: "d0 \<in> set (wt_deliveries t)" "d = lease ?ids now d0" "dv_id d \<in> set ?ids" using t'(1) by auto
    then have "dv_id d0 \<in> set ?ids" by (auto simp: lease_def split: if_splits)
    with due_id_owed [OF assms(1) d0(1)] assms(1) d0(1) owed_attempts have "dv_attempts d0 < MAX_ATTEMPTS" by (auto simp: queue_ok_def)
    with d0(2) show ?thesis by (simp add: lease_def)
  qed
  with follows_map [OF assms(1) _ f] t'(1) show ?thesis by auto
qed

lemma statement_follows:
  assumes "queue_ok used t" "statement_ok st" "run_statement st t = (hit, t')"
  shows "queue_follows used used t t'"
proof (cases st)
  case (Settle i data)
  let ?f = "\<lambda>d. if dv_id d = i \<and> dv_status d \<in> set OWED then data d else d"
  have t': "wt_deliveries t' = map ?f (wt_deliveries t)" using assms(3) Settle by (auto simp: settle_def)
  have "advances d (?f d)" if "d \<in> set (wt_deliveries t)" for d
    using assms(1,2) Settle that by (auto simp: advances_def queue_ok_def statement_ok_def owed_def same_event_def)
  then show ?thesis by (rule follows_map [OF assms(1) t'])
qed (use assms follows_same [OF assms(1)] in \<open>auto simp: update_hooks_def turn_off_hooks_def split: prod.splits\<close>)


definition hooks_ok :: "string set \<Rightarrow> tables \<Rightarrow> bool" where
  "hooks_ok used t \<longleftrightarrow> distinct (map wh_id (wt_hooks t)) \<and> wh_id ` set (wt_hooks t) \<subseteq> used \<and> (\<forall>h\<in>set (wt_hooks t). wh_enabled h \<longleftrightarrow> wh_status h = ACTIVE)"

definition world_ok :: "webhook_world \<Rightarrow> bool" where
  "world_ok w \<longleftrightarrow> queue_ok (ww_used w) (ww_tables w) \<and> hooks_ok (ww_used w) (ww_tables w)
     \<and> (\<forall>(d, h, test)\<in>set (ww_claimed w). dv_attempts d < MAX_ATTEMPTS) \<and> (\<forall>sts\<in>set (ww_running w). \<forall>st\<in>set sts. statement_ok st)"

lemma targets_hooks:
  assumes "activity_targets findItem row t = Some (hs, event, payload)"
  shows "\<exists>P. hs = filter P (wt_hooks t)"
  using assms by (auto simp: activity_targets_def subscribedTo_def Let_def filter_filter split: option.splits if_splits)

lemma fanout_follows:
  assumes "queue_ok used t" "hooks_ok used t" "inj_on mint (wh_id ` set (wt_hooks t))" "mint ` wh_id ` set (wt_hooks t) \<inter> used = {}"
    and "fanOutActivity findItem mint now row t = (n, t')"
  shows "queue_follows used (used \<union> mint ` wh_id ` set (wt_hooks t)) t t' \<and> wt_hooks t' = wt_hooks t"
proof (cases "activity_targets findItem row t")
  case None
  with assms(1,5) follows_same show ?thesis by (fastforce simp: fanOutActivity_def)
next
  case (Some x)
  obtain hs event payload where x: "x = (hs, event, payload)" by (cases x)
  with Some targets_hooks obtain P where hs: "hs = filter P (wt_hooks t)" by blast
  let ?ids = "filter (\<lambda>h. \<not> has_source h (source_key row) t) (map wh_id hs)"
  let ?new = "map (\<lambda>h. new_delivery (mint h) h event payload (Some (source_key row)) now now) ?ids"
  have ids: "distinct ?ids" "set ?ids \<subseteq> wh_id ` set (wt_hooks t)"
    using assms(2) unfolding hs by (auto simp: hooks_ok_def distinct_map_filter)
  have new: "map dv_id ?new = map mint ?ids" by (simp add: new_delivery_def comp_def)
  have "distinct (map dv_id ?new)" unfolding new using ids assms(3) by (auto simp: distinct_map intro: inj_on_subset)
  moreover have set: "dv_id ` set ?new = mint ` set ?ids" by (simp only: new flip: set_map)
  moreover have "dv_id ` set ?new \<inter> used = {}" unfolding set using ids(2) assms(4) by blast
  moreover have "dv_id ` set ?new \<subseteq> used \<union> mint ` wh_id ` set (wt_hooks t)" unfolding set using ids(2) by blast
  moreover have "\<And>d. d \<in> set ?new \<Longrightarrow> row_ok d" using new_row_ok by auto
  moreover have t': "t' = t\<lparr>wt_deliveries := wt_deliveries t @ ?new\<rparr>"
    using assms(5) Some x by (simp add: fanOutActivity_def createDeliveries_def Let_def)
  ultimately show ?thesis using follows_append [OF assms(1), of t' ?new] by simp
qed


lemma hooks_update:
  assumes "hooks_ok used t" "wt_hooks t' = map (\<lambda>h. if P h then f h else h) (wt_hooks t)" "used \<subseteq> used'"
    and "\<And>h. h \<in> set (wt_hooks t) \<Longrightarrow> wh_id (f h) = wh_id h \<and> (wh_enabled (f h) \<longleftrightarrow> wh_status (f h) = ACTIVE)"
  shows "hooks_ok used' t'"
proof -
  have ids: "map wh_id (wt_hooks t') = map wh_id (wt_hooks t)" using assms(2,4) by simp
  have "wh_id ` set (wt_hooks t') = wh_id ` set (wt_hooks t)" using arg_cong [OF ids, of set] by simp
  moreover have "\<forall>h\<in>set (wt_hooks t'). wh_enabled h \<longleftrightarrow> wh_status h = ACTIVE" using assms(1,2,4) by (auto simp: hooks_ok_def)
  ultimately show ?thesis using assms(1,3) ids by (auto simp: hooks_ok_def)
qed

lemma hooks_same: "hooks_ok used t \<Longrightarrow> wt_hooks t' = wt_hooks t \<Longrightarrow> used \<subseteq> used' \<Longrightarrow> hooks_ok used' t'"
  by (auto simp: hooks_ok_def)

lemma hooks_filter: "hooks_ok used t \<Longrightarrow> wt_hooks t' = filter P (wt_hooks t) \<Longrightarrow> hooks_ok used t'"
  by (auto simp: hooks_ok_def distinct_map_filter)

lemma statement_hooks:
  assumes "hooks_ok used t" "run_statement st t = (hit, t')"
  shows "hooks_ok used t'"
proof (cases st)
  case (Settle i data)
  with assms show ?thesis by (auto simp: settle_def intro: hooks_same)
next
  case (Bump_failures i)
  with assms have "wt_hooks t' = map (\<lambda>h. if wh_id h = i then h\<lparr>wh_consecutiveFailures := wh_consecutiveFailures h + 1\<rparr> else h) (wt_hooks t)"
    by (auto simp: update_hooks_def)
  then show ?thesis by (rule hooks_update [OF assms(1)]) (use assms(1) in \<open>auto simp: hooks_ok_def\<close>)
next
  case (Turn_off i)
  with assms have "wt_hooks t' = map (\<lambda>h. if wh_id h = i \<and> wh_status h = ACTIVE \<and> DISABLE_AFTER_FAILURES \<le> wh_consecutiveFailures h
      then h\<lparr>wh_status := DISABLED_FAILING, wh_enabled := False\<rparr> else h) (wt_hooks t)"
    by (auto simp: update_hooks_def turn_off_hooks_def)
  then show ?thesis by (rule hooks_update [OF assms(1)]) auto
next
  case (Reset_failures i)
  with assms have "wt_hooks t' = map (\<lambda>h. if wh_id h = i \<and> 0 < wh_consecutiveFailures h then h\<lparr>wh_consecutiveFailures := 0\<rparr> else h) (wt_hooks t)"
    by (auto simp: update_hooks_def)
  then show ?thesis by (rule hooks_update [OF assms(1)]) (use assms(1) in \<open>auto simp: hooks_ok_def\<close>)
qed

lemma update_shape:
  assumes "updateWebhook env i p t = Inr t'"
  shows "\<exists>f. wt_hooks t' = map (\<lambda>h. if wh_id h = i then set_enabled (pt_enabled p) (f h) else h) (wt_hooks t) \<and> wt_deliveries t' = wt_deliveries t
    \<and> (\<forall>h. wh_id (f h) = wh_id h \<and> wh_enabled (f h) = wh_enabled h \<and> wh_status (f h) = wh_status h)"
proof -
  obtain u events scope where t': "t' = snd (update_hooks (\<lambda>h. wh_id h = i)
         (\<lambda>h. set_enabled (pt_enabled p)
            (h\<lparr>wh_name := or_old (pt_name p) (wh_name h), wh_urlEnc := or_old (map_option (ad_sealUrl env i) u) (wh_urlEnc h),
               wh_format := or_old (pt_format p) (wh_format h), wh_events := or_old events (wh_events h),
               wh_projectId := or_old scope (wh_projectId h)\<rparr>)) t)"
    using assms by (auto simp: updateWebhook_def andThen_eq_Return)
  let ?f = "\<lambda>h. h\<lparr>wh_name := or_old (pt_name p) (wh_name h), wh_urlEnc := or_old (map_option (ad_sealUrl env i) u) (wh_urlEnc h),
               wh_format := or_old (pt_format p) (wh_format h), wh_events := or_old events (wh_events h),
               wh_projectId := or_old scope (wh_projectId h)\<rparr>"
  show ?thesis by (rule exI [of _ ?f]) (simp add: t' update_hooks_def)
qed

lemma set_enabled_simps [simp]:
  "wh_id (set_enabled e h) = wh_id h"
  "wh_enabled (set_enabled e h) = or_old e (wh_enabled h)"
  "wh_status (set_enabled e h) = (case e of None \<Rightarrow> wh_status h | Some b \<Rightarrow> if b then ACTIVE else PAUSED)"
  by (auto simp: set_enabled_def or_old_def split: option.splits bool.splits)

lemma update_hooks_ok:
  assumes "hooks_ok used t" "updateWebhook env i p t = Inr t'"
  shows "hooks_ok used t' \<and> wt_deliveries t' = wt_deliveries t"
proof -
  from update_shape [OF assms(2)] obtain f where
    f: "wt_hooks t' = map (\<lambda>h. if wh_id h = i then set_enabled (pt_enabled p) (f h) else h) (wt_hooks t)" "wt_deliveries t' = wt_deliveries t"
      "\<forall>h. wh_id (f h) = wh_id h \<and> wh_enabled (f h) = wh_enabled h \<and> wh_status (f h) = wh_status h" by blast
  have "hooks_ok used t'"
    by (rule hooks_update [OF assms(1) f(1)]) (use assms(1) f(3) in \<open>auto simp: hooks_ok_def or_old_def split: option.splits\<close>)
  with f(2) show ?thesis by simp
qed

text \<open>How a step changes the two tables.\<close>

lemma step_tables:
  assumes "webhook_step env w w'" "world_ok w"
  shows "queue_follows (ww_used w) (ww_used w') (ww_tables w) (ww_tables w') \<and> hooks_ok (ww_used w') (ww_tables w')"
proof -
  have q: "queue_ok (ww_used w) (ww_tables w)" and h: "hooks_ok (ww_used w) (ww_tables w)" using assms(2) by (auto simp: world_ok_def)
  have same: "queue_follows (ww_used w) (ww_used w) (ww_tables w) (ww_tables w)" by (rule follows_same [OF q]) auto
  from assms(1) show ?thesis
  proof cases
    case (wk_fanout mint findItem row n t)
    with fanout_follows [OF q h, of mint findItem "ww_now w" row n t] hooks_same [OF h, of t] show ?thesis by (auto simp: hook_ids_def)
  next
    case (wk_claim rows t)
    with claim_follows [OF q] hooks_same [OF h, of t] show ?thesis by (auto simp: claimDueDeliveries_def Let_def split: if_splits)
  next
    case (wk_statement st rest hit t)
    then have "statement_ok st" using assms(2) by (fastforce simp: world_ok_def)
    with wk_statement statement_follows [OF q] statement_hooks [OF h] show ?thesis by auto
  next
    case (wk_create newId secret inp hk t)
    then have "\<exists>h0. t = (ww_tables w)\<lparr>wt_hooks := wt_hooks (ww_tables w) @ [h0]\<rparr> \<and> wh_id h0 = newId \<and> wh_enabled h0 \<and> wh_status h0 = ACTIVE"
      by (auto simp: createWebhook_def andThen_eq_Return Let_def split: if_splits)
    then obtain h0 where t: "t = (ww_tables w)\<lparr>wt_hooks := wt_hooks (ww_tables w) @ [h0]\<rparr>" "wh_id h0 = newId" "wh_enabled h0" "wh_status h0 = ACTIVE" by blast
    have "hooks_ok (insert newId (ww_used w)) t" using h wk_create(2) t by (auto simp: hooks_ok_def)
    with wk_create(1) t(1) follows_same [OF q, of t "insert newId (ww_used w)"] show ?thesis by auto
  next
    case (wk_update i p t)
    with update_hooks_ok [OF h] follows_same [OF q, of t] show ?thesis by auto
  next
    case (wk_delete i t)
    then have "t = \<lparr>wt_hooks = filter (\<lambda>h. wh_id h \<noteq> i) (wt_hooks (ww_tables w)), wt_deliveries = filter (\<lambda>d. dv_webhookId d \<noteq> i) (wt_deliveries (ww_tables w))\<rparr>"
      by (auto simp: deleteWebhook_def andThen_eq_Return)
    with wk_delete(1) follows_filter [OF q, of t] hooks_filter [OF h, of t] show ?thesis by auto
  next
    case (wk_rotate i secret t)
    then have t: "t = snd (update_hooks (\<lambda>h. wh_id h = i) (\<lambda>h. h\<lparr>wh_secretEnc := ad_sealSecret env i secret\<rparr>) (ww_tables w))"
      by (auto simp: rotateWebhookSecret_def andThen_eq_Return)
    have "hooks_ok (ww_used w) t"
      by (rule hooks_update [OF h, where P = "\<lambda>h. wh_id h = i" and f = "\<lambda>h. h\<lparr>wh_secretEnc := ad_sealSecret env i secret\<rparr>"])
        (use h in \<open>auto simp: t update_hooks_def hooks_ok_def\<close>)
    with wk_rotate(1) follows_same [OF q, of t] show ?thesis by (auto simp: t update_hooks_def)
  next
    case (wk_test newId payload i d hk t)
    then have t: "t = (ww_tables w)\<lparr>wt_deliveries := wt_deliveries (ww_tables w) @ [d]\<rparr>" "dv_id d = newId" "row_ok d"
      by (auto simp: sendTestDelivery_def andThen_eq_Return Let_def new_row_ok split: if_splits) (simp add: new_delivery_def)
    with wk_test(1,2) follows_append [OF q, of t "[d]" "insert newId (ww_used w)"] hooks_same [OF h, of t "insert newId (ww_used w)"] show ?thesis by auto
  next
    case (wk_redeliver newId i deliveryId t)
    then have "\<exists>d. t = (ww_tables w)\<lparr>wt_deliveries := wt_deliveries (ww_tables w) @ [d]\<rparr> \<and> dv_id d = newId \<and> row_ok d"
      by (auto simp: redeliver_def andThen_eq_Return new_row_ok) (auto simp: new_delivery_def row_ok_def)
    then obtain d where t: "t = (ww_tables w)\<lparr>wt_deliveries := wt_deliveries (ww_tables w) @ [d]\<rparr>" "dv_id d = newId" "row_ok d" by blast
    with wk_redeliver(1,2) follows_append [OF q, of t "[d]" "insert newId (ww_used w)"] hooks_same [OF h, of t "insert newId (ww_used w)"] show ?thesis by auto
  next
    case (wk_prune n t)
    then have "t = (ww_tables w)\<lparr>wt_deliveries := filter (\<lambda>d. \<not> (dv_status d \<in> {DELIVERED, GIVEN_UP} \<and> dv_createdAt d < ww_now w - DELIVERY_RETENTION_MS)) (wt_deliveries (ww_tables w))\<rparr>"
      by (auto simp: pruneWebhookDeliveries_def Let_def)
    with wk_prune(1) follows_filter [OF q, of t] hooks_same [OF h, of t] show ?thesis by auto
  qed (use same h in auto)
qed


lemma step_claimed:
  assumes "webhook_step env w w'" "world_ok w"
  shows "\<forall>(d, h, test)\<in>set (ww_claimed w'). dv_attempts d < MAX_ATTEMPTS"
proof -
  have q: "queue_ok (ww_used w) (ww_tables w)" and c: "\<forall>(d, h, test)\<in>set (ww_claimed w). dv_attempts d < MAX_ATTEMPTS"
    using assms(2) by (auto simp: world_ok_def)
  from assms(1) show ?thesis
  proof cases
    case (wk_claim rows t)
    with claim_follows [OF q] c show ?thesis by fastforce
  next
    case (wk_attempt d h test ae)
    with c set_remove1_subset [of "(d, h, test)" "ww_claimed w"] show ?thesis by fastforce
  next
    case (wk_test newId payload i d h t)
    then have "dv_attempts d = 0" by (auto simp: sendTestDelivery_def andThen_eq_Return Let_def new_delivery_def split: if_splits)
    with wk_test c show ?thesis by (auto simp: MAX_ATTEMPTS_def)
  qed (use c in auto)
qed

lemma step_running:
  assumes "webhook_step env w w'" "world_ok w"
  shows "\<forall>sts\<in>set (ww_running w'). \<forall>st\<in>set sts. statement_ok st"
proof -
  have r: "\<forall>sts\<in>set (ww_running w). \<forall>st\<in>set sts. statement_ok st" using assms(2) by (simp add: world_ok_def)
  from assms(1) show ?thesis
  proof cases
    case (wk_attempt d h test ae)
    then have "dv_attempts d < MAX_ATTEMPTS" using assms(2) by (fastforce simp: world_ok_def)
    with attempt_ok wk_attempt r show ?thesis by auto
  next
    case (wk_statement st rest hit t)
    with r set_remove1_subset [of "st # rest" "ww_running w"] show ?thesis by fastforce
  qed (use r in auto)
qed

lemma world_step: "webhook_step env w w' \<Longrightarrow> world_ok w \<Longrightarrow> world_ok w'"
  using step_tables step_claimed step_running by (fastforce simp: world_ok_def queue_follows_def)

lemma world_init: "world_ok (webhook_init t0)"
  by (simp add: webhook_init_def world_ok_def queue_ok_def hooks_ok_def)

lemma world_run: "webhook_run env (webhook_init t0) w \<Longrightarrow> world_ok w"
  by (induction rule: rtranclp_induct) (auto intro: world_step world_init)

text \<open>
  C19. Whatever the order of sweeps, attempts, lost processes and administrators, a delivery keeps its event, its payload and its
  webhook; once it is delivered or given up it never changes again; its attempts stay within the limit and agree
  with its status; and a webhook is enabled exactly when it is active.
\<close>

theorem delivery_lifecycle:
  assumes "webhook_run env (webhook_init t0) w" "webhook_step env w w'"
    and "d \<in> set (wt_deliveries (ww_tables w))" "d' \<in> set (wt_deliveries (ww_tables w'))" "dv_id d' = dv_id d"
  shows "same_event d d' \<and> row_ok d' \<and> (\<not> owed d \<longrightarrow> d' = d) \<and> (\<forall>h\<in>set (wt_hooks (ww_tables w')). wh_enabled h \<longleftrightarrow> wh_status h = ACTIVE)"
proof -
  have w: "world_ok w" by (rule world_run [OF assms(1)])
  then have q: "queue_ok (ww_used w) (ww_tables w)" by (simp add: world_ok_def)
  from step_tables [OF assms(2) w] have f: "queue_follows (ww_used w) (ww_used w') (ww_tables w) (ww_tables w')" "hooks_ok (ww_used w') (ww_tables w')" by auto
  have "dv_id d' \<in> ww_used w" using q assms(3,5) by (auto simp: queue_ok_def)
  with f(1) assms(4) obtain x where x: "x \<in> set (wt_deliveries (ww_tables w))" "advances x d'" by (auto simp: queue_follows_def)
  from x(2) assms(5) have "dv_id x = dv_id d" by (simp add: advances_def same_event_def)
  with same_id [OF q x(1) assms(3)] have "x = d" by simp
  with x(2) f(2) show ?thesis by (auto simp: advances_def hooks_ok_def)
qed


section \<open>Notices\<close>

fun notice_id :: "notice \<Rightarrow> string" where
  "notice_id (Notified i) = i"
| "notice_id (Resumed i) = i"

definition notices_about :: "string \<Rightarrow> notice list \<Rightarrow> notice list" where
  "notices_about i ns = filter (\<lambda>n. notice_id n = i) ns"

definition not_twice :: "string \<Rightarrow> notice \<Rightarrow> notice \<Rightarrow> bool" where
  "not_twice i a b \<longleftrightarrow> \<not> (a = Notified i \<and> b = Notified i)"

definition active_ids :: "tables \<Rightarrow> string set" where
  "active_ids t = wh_id ` {h \<in> set (wt_hooks t). wh_status h = ACTIVE}"

definition notices_ok :: "string set \<Rightarrow> tables \<Rightarrow> notice list \<Rightarrow> bool" where
  "notices_ok used t ns \<longleftrightarrow> notice_id ` set ns \<subseteq> used
     \<and> (\<forall>i. successively (not_twice i) (notices_about i ns))
     \<and> (\<forall>i rest. notices_about i ns = Notified i # rest \<longrightarrow> i \<notin> active_ids t)"

lemma notices_quiet:
  assumes "notices_ok used t ns" "active_ids t' \<subseteq> active_ids t \<union> - used" "used \<subseteq> used'"
  shows "notices_ok used' t' ns"
proof -
  have "i \<notin> active_ids t'" if "notices_about i ns = Notified i # rest" for i rest
  proof -
    from that have "Notified i \<in> set (notices_about i ns)" by simp
    then have "Notified i \<in> set ns" by (simp add: notices_about_def)
    then have "i \<in> notice_id ` set ns" by (metis image_eqI notice_id.simps(1))
    then have "i \<in> used" using assms(1) by (auto simp: notices_ok_def)
    moreover have "i \<notin> active_ids t" using assms(1) that by (auto simp: notices_ok_def)
    ultimately show ?thesis using assms(2) by blast
  qed
  with assms show ?thesis by (auto simp: notices_ok_def)
qed

lemma notices_resumed:
  assumes "notices_ok used t ns" "i \<in> used" "active_ids t' \<subseteq> insert i (active_ids t)"
  shows "notices_ok used t' (Resumed i # ns)"
  using assms by (auto simp: notices_ok_def notices_about_def not_twice_def successively_Cons)

lemma notices_turned_off:
  assumes "notices_ok used t ns" "i \<in> used" "i \<in> active_ids t" "active_ids t' = active_ids t - {i}"
  shows "notices_ok used t' (Notified i # ns)"
proof -
  have "not_twice i (Notified i) n" if "notices_about i ns = n # rest" for n rest
    using assms(1,3) that by (auto simp: notices_ok_def not_twice_def)
  moreover have "successively (not_twice i) (notices_about i ns)" using assms(1) by (simp add: notices_ok_def)
  ultimately have "successively (not_twice i) (Notified i # notices_about i ns)" by (cases "notices_about i ns") simp_all
  with assms show ?thesis by (auto simp: notices_ok_def notices_about_def)
qed

lemma turn_off_hit:
  assumes "hooks_ok used t" "turn_off_hooks i t = (1, t')"
  shows "i \<in> active_ids t \<and> active_ids t' = active_ids t - {i}"
proof -
  let ?P = "\<lambda>h. wh_id h = i \<and> wh_status h = ACTIVE \<and> DISABLE_AFTER_FAILURES \<le> wh_consecutiveFailures h"
  have "length (filter ?P (wt_hooks t)) = 1" using assms(2) by (simp add: turn_off_hooks_def update_hooks_def)
  then have "filter ?P (wt_hooks t) \<noteq> []" by auto
  then obtain h where h: "h \<in> set (wt_hooks t)" "?P h" by (auto simp: filter_empty_conv)
  have only: "x = h" if "x \<in> set (wt_hooks t)" "wh_id x = i" for x
    using that h assms(1) by (auto simp: hooks_ok_def distinct_map dest: inj_onD)
  have "wt_hooks t' = map (\<lambda>h. if ?P h then h\<lparr>wh_status := DISABLED_FAILING, wh_enabled := False\<rparr> else h) (wt_hooks t)"
    using assms(2) by (auto simp: turn_off_hooks_def update_hooks_def)
  then have "active_ids t' = active_ids t - {i}" using only h by (auto simp: active_ids_def image_iff)
  with h show ?thesis by (auto simp: active_ids_def)
qed

lemma active_update:
  assumes "wt_hooks t' = map (\<lambda>h. if P h then f h else h) (wt_hooks t)"
    and "\<And>h. P h \<Longrightarrow> wh_id (f h) = wh_id h \<and> (wh_status (f h) = ACTIVE \<longrightarrow> wh_status h = ACTIVE \<or> wh_id h = i)"
  shows "active_ids t' \<subseteq> insert i (active_ids t)"
  using assms by (auto simp: active_ids_def image_iff)

lemma active_same: "wt_hooks t' = wt_hooks t \<Longrightarrow> active_ids t' = active_ids t"
  by (simp add: active_ids_def)

lemma active_statement:
  assumes "run_statement st t = (hit, t')"
  shows "active_ids t' \<subseteq> active_ids t"
proof (cases st)
  case (Settle i data)
  with assms show ?thesis by (auto simp: settle_def active_ids_def)
qed (use assms in \<open>auto simp: update_hooks_def turn_off_hooks_def active_ids_def\<close>)

lemma active_updated:
  assumes "updateWebhook env i p t = Inr t'"
  shows "i \<in> wh_id ` set (wt_hooks t) \<and> active_ids t' \<subseteq> (if pt_enabled p = Some True then insert i (active_ids t) else active_ids t)"
proof -
  from assms obtain h where "mustFind env i t = Inr h" by (auto simp: updateWebhook_def andThen_eq_Return)
  then have "i \<in> wh_id ` set (wt_hooks t)" by (auto simp: mustFind_def some_or_def find_Some_iff split: option.splits)
  moreover from update_shape [OF assms] obtain f where
    f: "wt_hooks t' = map (\<lambda>h. if wh_id h = i then set_enabled (pt_enabled p) (f h) else h) (wt_hooks t)"
      "\<forall>h. wh_id (f h) = wh_id h \<and> wh_enabled (f h) = wh_enabled h \<and> wh_status (f h) = wh_status h" by blast
  have "active_ids t' \<subseteq> (if pt_enabled p = Some True then insert i (active_ids t) else active_ids t)"
  proof
    fix x assume "x \<in> active_ids t'"
    then obtain h' where h': "h' \<in> set (wt_hooks t')" "wh_id h' = x" "wh_status h' = ACTIVE" by (auto simp: active_ids_def)
    from h'(1) obtain h where "h \<in> set (wt_hooks t)" "h' = (if wh_id h = i then set_enabled (pt_enabled p) (f h) else h)"
      unfolding f(1) by auto
    with h' f(2) have h: "h \<in> set (wt_hooks t)" "wh_id h = x" "wh_status (if wh_id h = i then set_enabled (pt_enabled p) (f h) else h) = ACTIVE"
      by auto
    then have "wh_status h = ACTIVE \<or> x = i \<and> pt_enabled p = Some True" using f(2) by (auto split: if_splits option.splits)
    with h(1,2) show "x \<in> (if pt_enabled p = Some True then insert i (active_ids t) else active_ids t)" by (auto simp: active_ids_def)
  qed
  ultimately show ?thesis by simp
qed

lemma notices_step:
  assumes "webhook_step env w w'" "world_ok w" "notices_ok (ww_used w) (ww_tables w) (ww_notices w)"
  shows "notices_ok (ww_used w') (ww_tables w') (ww_notices w')"
proof -
  have h: "hooks_ok (ww_used w) (ww_tables w)" using assms(2) by (simp add: world_ok_def)
  have quiet: "notices_ok used' t' (ww_notices w)" if "active_ids t' \<subseteq> active_ids (ww_tables w)" "ww_used w \<subseteq> used'" for t' used'
    using notices_quiet [OF assms(3), of t' used'] that by auto
  have same: "notices_ok used' t' (ww_notices w)" if "wt_hooks t' = wt_hooks (ww_tables w)" "ww_used w \<subseteq> used'" for t' used'
    using quiet that active_same [OF that(1)] by simp
  from assms(1) show ?thesis
  proof cases
    case (wk_fanout mint findItem row n t)
    then have "wt_hooks t = wt_hooks (ww_tables w)" by (auto simp: fanOutActivity_def createDeliveries_def Let_def split: option.splits)
    from same [OF this] wk_fanout(1) show ?thesis by auto
  next
    case (wk_claim rows t)
    then have "wt_hooks t = wt_hooks (ww_tables w)" by (auto simp: claimDueDeliveries_def Let_def split: if_splits)
    from same [OF this] wk_claim(1) show ?thesis by auto
  next
    case (wk_statement st rest hit t)
    show ?thesis
    proof (cases "notice_of st hit = []")
      case True
      with active_statement [OF wk_statement(3)] quiet wk_statement(1) show ?thesis by simp
    next
      case False
      then obtain i where st: "st = Turn_off i" "hit" by (auto simp: notice_of_def split: statement.splits if_splits)
      with wk_statement(3) have "turn_off_hooks i (ww_tables w) = (1, t)" by (auto split: prod.splits)
      with turn_off_hit [OF h] have t: "i \<in> active_ids (ww_tables w)" "active_ids t = active_ids (ww_tables w) - {i}" by auto
      from t(1) h have "i \<in> ww_used w" by (auto simp: active_ids_def hooks_ok_def)
      with notices_turned_off [OF assms(3) _ t] wk_statement(1) st show ?thesis by (simp add: notice_of_def)
    qed
  next
    case (wk_create newId secret inp hk t)
    then have "\<exists>h0. wt_hooks t = wt_hooks (ww_tables w) @ [h0] \<and> wh_id h0 = newId"
      by (auto simp: createWebhook_def andThen_eq_Return Let_def split: if_splits)
    then have "active_ids t \<subseteq> active_ids (ww_tables w) \<union> - ww_used w" using wk_create(2) by (auto simp: active_ids_def)
    from notices_quiet [OF assms(3) this] wk_create(1) show ?thesis by auto
  next
    case (wk_update i p t)
    from active_updated [OF wk_update(2)] h have a: "i \<in> ww_used w"
      "active_ids t \<subseteq> (if pt_enabled p = Some True then insert i (active_ids (ww_tables w)) else active_ids (ww_tables w))"
      by (auto simp: hooks_ok_def)
    show ?thesis
    proof (cases "pt_enabled p = Some True")
      case True
      with notices_resumed [OF assms(3) a(1)] a(2) wk_update(1) show ?thesis by simp
    next
      case False
      with quiet a(2) wk_update(1) show ?thesis by simp
    qed
  next
    case (wk_delete i t)
    then have "active_ids t \<subseteq> active_ids (ww_tables w)" by (auto simp: deleteWebhook_def andThen_eq_Return active_ids_def)
    with quiet wk_delete(1) show ?thesis by simp
  next
    case (wk_rotate i secret t)
    then have "active_ids t \<subseteq> active_ids (ww_tables w)"
      by (auto simp: rotateWebhookSecret_def andThen_eq_Return update_hooks_def active_ids_def)
    with quiet wk_rotate(1) show ?thesis by simp
  next
    case (wk_test newId payload i d hk t)
    then have "wt_hooks t = wt_hooks (ww_tables w)" by (auto simp: sendTestDelivery_def andThen_eq_Return Let_def split: if_splits)
    from same [OF this] wk_test(1) show ?thesis by auto
  next
    case (wk_redeliver newId i deliveryId t)
    then have "wt_hooks t = wt_hooks (ww_tables w)" by (auto simp: redeliver_def andThen_eq_Return)
    from same [OF this] wk_redeliver(1) show ?thesis by auto
  next
    case (wk_prune n t)
    then have "wt_hooks t = wt_hooks (ww_tables w)" by (auto simp: pruneWebhookDeliveries_def Let_def)
    from same [OF this] wk_prune(1) show ?thesis by auto
  qed (use quiet in auto)
qed

lemma notices_run: "webhook_run env (webhook_init t0) w \<Longrightarrow> notices_ok (ww_used w) (ww_tables w) (ww_notices w)"
proof (induction rule: rtranclp_induct)
  case base
  show ?case by (simp add: webhook_init_def notices_ok_def notices_about_def)
next
  case (step y z)
  from notices_step [OF step(2) world_run [OF step(1)] step(3)] show ?case .
qed

text \<open>
  However many attempts at one webhook fail at the same time, its administrators hear that it was turned off once:
  between two notices about it somebody has switched it on again.
\<close>

theorem turned_off_once:
  assumes "webhook_run env (webhook_init t0) w"
  shows "successively (\<lambda>a b. \<not> (a = Notified i \<and> b = Notified i)) (filter (\<lambda>n. n = Notified i \<or> n = Resumed i) (ww_notices w))"
proof -
  have about: "(\<lambda>n. n = Notified i \<or> n = Resumed i) = (\<lambda>n. notice_id n = i)" 
  proof
    show "(n = Notified i \<or> n = Resumed i) = (notice_id n = i)" for n by (cases n) auto
  qed
  from notices_run [OF assms] have "successively (not_twice i) (notices_about i (ww_notices w))" by (simp add: notices_ok_def)
  then show ?thesis by (simp only: about notices_about_def not_twice_def [abs_def])
qed

end
