(* ===== verification/Webhook_Properties.thy ===== *)
theory Webhook_Properties
  imports Webhook_Run
begin

text \<open>
  What the outbox, the fan-out, the worker and the guard give together: an activity is queued once for every webhook
  it concerns, and a request goes only where the guard let it.
\<close>

section \<open>The fan-out as a handler\<close>

definition queue_row :: "(string \<Rightarrow> work_item_view option) \<Rightarrow> int \<times> (string \<Rightarrow> string) \<Rightarrow> activity_row \<Rightarrow> tables \<Rightarrow> tables" where
  "queue_row findItem e row t = snd (fanOutActivity findItem (snd e) (fst e) row t)"

definition queued :: "(string \<Rightarrow> work_item_view option) \<Rightarrow> activity_row \<Rightarrow> tables \<Rightarrow> bool" where
  "queued findItem row t =
     (case activity_targets findItem row t of None \<Rightarrow> True | Some (hs, _, _) \<Rightarrow> list_all (\<lambda>h. has_source (wh_id h) (source_key row) t) hs)"

lemma queue_row_cases:
  "queue_row findItem e row t =
     (case activity_targets findItem row t of None \<Rightarrow> t
      | Some (hs, event, payload) \<Rightarrow> t\<lparr>wt_deliveries := wt_deliveries t
          @ map (\<lambda>h. new_delivery (snd e h) h event payload (Some (source_key row)) (fst e) (fst e))
              (filter (\<lambda>h. \<not> has_source h (source_key row) t) (map wh_id hs))\<rparr>)"
  by (auto simp: queue_row_def fanOutActivity_def createDeliveries_def Let_def split: option.splits)

lemma queue_row_hooks [simp]: "wt_hooks (queue_row findItem e row t) = wt_hooks t"
  by (auto simp: queue_row_cases split: option.splits)

lemma targets_cong: "wt_hooks t' = wt_hooks t \<Longrightarrow> activity_targets findItem row t' = activity_targets findItem row t"
  by (simp add: activity_targets_def subscribedTo_def Let_def split: option.split)

lemma queue_row_source:
  "has_source h k (queue_row findItem e row t) \<longleftrightarrow> has_source h k t
     \<or> (k = source_key row \<and> (\<exists>hs event payload. activity_targets findItem row t = Some (hs, event, payload) \<and> h \<in> wh_id ` set hs))"
proof (cases "activity_targets findItem row t")
  case (Some x)
  obtain hs event payload where x: "x = (hs, event, payload)" by (cases x)
  let ?ids = "filter (\<lambda>h. \<not> has_source h (source_key row) t) (map wh_id hs)"
  have "has_source h k (queue_row findItem e row t) \<longleftrightarrow> has_source h k t \<or> k = source_key row \<and> h \<in> set ?ids"
    using Some x by (auto simp: queue_row_cases has_source_def list_ex_iff new_delivery_def bex_Un)
  with Some x show ?thesis by auto
qed (simp add: queue_row_cases)

interpretation fo: replay_tolerant "queue_row findItem" "queued findItem" for findItem
proof
  fix r e t
  show "queued findItem r (queue_row findItem e r t)"
    by (auto simp: queued_def targets_cong [of "queue_row findItem e r t" t] list_all_iff queue_row_source split: option.splits)
next
  fix r t e q
  assume "queued findItem r t"
  then show "queued findItem r (queue_row findItem e q t)"
    by (auto simp: queued_def targets_cong [of "queue_row findItem e q t" t] list_all_iff queue_row_source split: option.splits)
next
  fix r t e
  assume "queued findItem r t"
  then show "queue_row findItem e r t = t"
    by (auto simp: queued_def queue_row_cases list_all_iff filter_empty_conv split: option.splits)
qed

section \<open>Queued once\<close>

definition rows_for :: "string \<Rightarrow> string \<Rightarrow> tables \<Rightarrow> delivery list" where
  "rows_for hook key t = filter (\<lambda>d. dv_webhookId d = hook \<and> dv_sourceKey d = Some key) (wt_deliveries t)"

definition sources_unique :: "tables \<Rightarrow> bool" where
  "sources_unique t \<longleftrightarrow> (\<forall>h k. length (rows_for h k t) \<le> 1)"

lemma has_source_rows: "has_source h k t \<longleftrightarrow> rows_for h k t \<noteq> []"
  by (auto simp: has_source_def rows_for_def list_ex_iff filter_empty_conv)

lemma distinct_filter_one: "distinct xs \<Longrightarrow> length (filter (\<lambda>x. x = a) xs) \<le> 1"
  by (induction xs) (auto simp: filter_empty_conv)

lemma queue_row_unique:
  assumes "sources_unique t" "distinct (map wh_id (wt_hooks t))"
  shows "sources_unique (queue_row findItem e row t)"
proof (cases "activity_targets findItem row t")
  case None
  with assms show ?thesis by (simp add: queue_row_cases)
next
  case (Some x)
  obtain hs event payload where x: "x = (hs, event, payload)" by (cases x)
  with Some targets_hooks obtain P where "hs = filter P (wt_hooks t)" by blast
  with assms(2) have d: "distinct (filter (\<lambda>h. \<not> has_source h (source_key row) t) (map wh_id hs))" by (simp add: distinct_map_filter)
  let ?new = "\<lambda>h. new_delivery (snd e h) h event payload (Some (source_key row)) (fst e) (fst e)"
  let ?ids = "filter (\<lambda>h. \<not> has_source h (source_key row) t) (map wh_id hs)"
  have split: "rows_for h k (queue_row findItem e row t) = rows_for h k t @ filter (\<lambda>d. dv_webhookId d = h \<and> dv_sourceKey d = Some k) (map ?new ?ids)" for h k
    using Some x by (simp add: queue_row_cases rows_for_def)
  have "length (rows_for h k (queue_row findItem e row t)) \<le> 1" for h k
  proof (cases "rows_for h k t = []")
    case True
    have "length (filter (\<lambda>d. dv_webhookId d = h \<and> dv_sourceKey d = Some k) (map ?new ?ids)) = length (filter (\<lambda>i. i = h \<and> source_key row = k) ?ids)"
      by (simp only: filter_map length_map comp_def new_delivery_def delivery.simps option.inject)
    also have "\<dots> \<le> length (filter (\<lambda>i. i = h) ?ids)"
      by (cases "source_key row = k") auto
    also have "\<dots> \<le> 1" by (rule distinct_filter_one [OF d])
    finally show ?thesis using True by (simp add: split)
  next
    case False
    then have "has_source h k t" by (simp add: has_source_rows)
    then have "filter (\<lambda>d. dv_webhookId d = h \<and> dv_sourceKey d = Some k) (map ?new ?ids) = []"
      by (auto simp: filter_empty_conv new_delivery_def)
    with assms(1) show ?thesis unfolding split sources_unique_def by simp
  qed
  then show ?thesis by (simp add: sources_unique_def)
qed

lemma log_unique:
  "sources_unique t \<Longrightarrow> distinct (map wh_id (wt_hooks t)) \<Longrightarrow>
   sources_unique (handle_log (queue_row findItem) log t) \<and> wt_hooks (handle_log (queue_row findItem) log t) = wt_hooks t"
  by (induction log arbitrary: t) (auto simp: handle_log_def queue_row_unique)


section \<open>Where a request goes\<close>

definition guarded :: "('e, 'a) result \<Rightarrow> ('e \<Rightarrow> 'f) \<Rightarrow> ('f, 'a) result" where
  "guarded r f = (case r of Inl e \<Rightarrow> Throw (f e) | Inr x \<Rightarrow> Return x)"

lemma failed_dial [simp]: "at_dial (failed_attempt now test d h err code dialled) = dialled"
  by (simp add: failed_attempt_def Let_def)


section \<open>One sweep\<close>

text \<open>
  A sweep attempt by attempt: \<open>answers\<close> gives each claimed delivery what it gets from outside, or nothing when the attempt threw;
  the egress switch is read once.  The five attempts of a chunk run at the same time; this is the order in which
  each ends before the next, one of the interleavings of the step relation.
\<close>

record tally =
  ta_claimed :: nat
  ta_delivered :: nat
  ta_retried :: nat
  ta_gaveUp :: nat
  ta_blocked :: nat
  ta_expired :: nat
  ta_webhookOff :: nat
  ta_errored :: nat

definition no_tally :: "nat \<Rightarrow> tally" where
  "no_tally n = \<lparr>ta_claimed = n, ta_delivered = 0, ta_retried = 0, ta_gaveUp = 0, ta_blocked = 0, ta_expired = 0, ta_webhookOff = 0, ta_errored = 0\<rparr>"

fun add_outcome :: "outcome option \<Rightarrow> tally \<Rightarrow> tally" where
  "add_outcome (Some delivered) t = t\<lparr>ta_delivered := ta_delivered t + 1\<rparr>"
| "add_outcome (Some retry) t = t\<lparr>ta_retried := ta_retried t + 1\<rparr>"
| "add_outcome (Some gave_up) t = t\<lparr>ta_gaveUp := ta_gaveUp t + 1\<rparr>"
| "add_outcome (Some blocked) t = t\<lparr>ta_blocked := ta_blocked t + 1\<rparr>"
| "add_outcome (Some expired) t = t\<lparr>ta_expired := ta_expired t + 1\<rparr>"
| "add_outcome (Some webhook_off) t = t\<lparr>ta_webhookOff := ta_webhookOff t + 1\<rparr>"
| "add_outcome None t = t\<lparr>ta_errored := ta_errored t + 1\<rparr>"

definition run_statements :: "statement list \<Rightarrow> tables \<Rightarrow> tables" where
  "run_statements sts t = fold (\<lambda>st t. snd (run_statement st t)) sts t"

fun sweep_attempts :: "(delivery \<Rightarrow> attempt_env option) \<Rightarrow> (delivery \<times> webhook) list \<Rightarrow> tally \<Rightarrow> tables \<Rightarrow> tally \<times> tables" where
  "sweep_attempts answers [] ta t = (ta, t)"
| "sweep_attempts answers ((d, h) # rows) ta t =
     (case answers d of
        None \<Rightarrow> sweep_attempts answers rows (add_outcome None ta) t
      | Some env \<Rightarrow>
          (let a = attemptDelivery env d h False
           in sweep_attempts answers rows (add_outcome (Some (at_outcome a)) ta) (run_statements (at_statements a) t)))"

definition runWebhookDeliveries :: "int \<Rightarrow> bool \<Rightarrow> (delivery \<Rightarrow> attempt_env option) \<Rightarrow> tables \<Rightarrow> tally \<times> tables" where
  "runWebhookDeliveries now gate answers t =
     (case claimDueDeliveries now DELIVERY_BATCH t of
        (rows, t') \<Rightarrow> sweep_attempts (\<lambda>d. map_option (\<lambda>env. env\<lparr>ae_gate := gate\<rparr>) (answers d)) rows (no_tally (length rows)) t')"

definition tallied :: "tally \<Rightarrow> nat" where
  "tallied ta = ta_delivered ta + ta_retried ta + ta_gaveUp ta + ta_blocked ta + ta_expired ta + ta_webhookOff ta + ta_errored ta"

lemma add_outcome_tallied [simp]: "tallied (add_outcome x ta) = tallied ta + 1" "ta_claimed (add_outcome x ta) = ta_claimed ta"
  by (induction x ta rule: add_outcome.induct) (simp_all add: tallied_def)

lemma sweep_tallied: "sweep_attempts answers rows ta t = (ta', t') \<Longrightarrow> tallied ta' = tallied ta + length rows \<and> ta_claimed ta' = ta_claimed ta"
  by (induction answers rows ta t rule: sweep_attempts.induct) (auto simp: Let_def simp del: add_outcome.simps split: option.splits)

text \<open>The executable sweep stays inside the step relation.\<close>

lemma statements_run:
  assumes "sts \<in> set (ww_running w)"
  shows "\<exists>w'. webhook_run env w w' \<and> ww_tables w' = run_statements sts (ww_tables w) \<and> ww_claimed w' = ww_claimed w \<and> ww_now w' = ww_now w"
  using assms
proof (induction sts arbitrary: w)
  case Nil
  have "run_statements [] (ww_tables w) = ww_tables w" by (simp add: run_statements_def)
  then show ?case by (intro exI [of _ w]) simp
next
  case (Cons st rest)
  obtain hit t where t: "run_statement st (ww_tables w) = (hit, t)" by (cases "run_statement st (ww_tables w)")
  let ?w = "w\<lparr>ww_tables := t, ww_running := rest # remove1 (st # rest) (ww_running w), ww_notices := notice_of st hit @ ww_notices w\<rparr>"
  have "webhook_step env w ?w" by (rule wk_statement [OF Cons.prems t])
  moreover from Cons.IH [of ?w] obtain w' where "webhook_run env ?w w'" "ww_tables w' = run_statements rest t" "ww_claimed w' = ww_claimed w" "ww_now w' = ww_now w"
    by auto
  ultimately show ?case using t by (intro exI [of _ w']) (auto simp: run_statements_def intro: converse_rtranclp_into_rtranclp)
qed

lemma attempts_run:
  assumes "set (map (\<lambda>(d, h). (d, h, False)) rows) \<subseteq> set (ww_claimed w)" "distinct rows"
    and "\<And>d e. answers d = Some e \<Longrightarrow> ae_now e = ww_now w"
  shows "\<exists>w'. webhook_run env w w' \<and> ww_tables w' = snd (sweep_attempts answers rows ta (ww_tables w))"
  using assms
proof (induction rows arbitrary: w ta)
  case Nil
  show ?case by (intro exI [of _ w]) simp
next
  case (Cons x rows)
  obtain d h where x: "x = (d, h)" by (cases x)
  show ?case
  proof (cases "answers d")
    case None
    with Cons.IH [of w "add_outcome None ta"] Cons.prems x show ?thesis by simp
  next
    case (Some e)
    let ?a = "attemptDelivery e d h False"
    let ?w = "w\<lparr>ww_claimed := remove1 (d, h, False) (ww_claimed w), ww_running := at_statements ?a # ww_running w\<rparr>"
    have step: "webhook_step env w ?w" using Cons.prems(1,3) Some x by (intro wk_attempt) auto
    obtain w1 where w1: "webhook_run env ?w w1" "ww_tables w1 = run_statements (at_statements ?a) (ww_tables w)"
      "ww_claimed w1 = remove1 (d, h, False) (ww_claimed w)" "ww_now w1 = ww_now w"
      using statements_run [of "at_statements ?a" ?w env] by auto
    have "set (map (\<lambda>(d, h). (d, h, False)) rows) \<subseteq> set (ww_claimed w1)"
    proof
      fix y assume y: "y \<in> set (map (\<lambda>(d, h). (d, h, False)) rows)"
      with Cons.prems(1) have "y \<in> set (ww_claimed w)" by auto
      moreover have "y \<noteq> (d, h, False)" using y Cons.prems(2) x by auto
      ultimately show "y \<in> set (ww_claimed w1)" by (simp add: w1(3) in_set_remove1)
    qed
    with Cons.IH [of w1 "add_outcome (Some (at_outcome ?a)) ta"] Cons.prems(2,3) w1(4) obtain w' where
      "webhook_run env w1 w'" "ww_tables w' = snd (sweep_attempts answers rows (add_outcome (Some (at_outcome ?a)) ta) (ww_tables w1))" by auto
    with step w1(1,2) Some x show ?thesis
      by (intro exI [of _ w']) (auto simp: Let_def intro: converse_rtranclp_into_rtranclp rtranclp_trans)
  qed
qed

lemma with_hooks_distinct:
  assumes "distinct (map dv_id (wt_deliveries t))"
  shows "distinct (with_hooks ids t) \<and> length (with_hooks ids t) \<le> length ids"
proof -
  let ?ds = "filter (\<lambda>d. dv_id d \<in> set ids) (wt_deliveries t)"
  let ?s = "sort_key (\<lambda>d. (dv_createdAt d, dv_id d)) ?ds"
  let ?f = "\<lambda>d. map_option (\<lambda>h. (d, h)) (hook_of (dv_webhookId d) t)"
  have d: "distinct (map dv_id ?ds)" by (rule distinct_map_filter [OF assms])
  have "map fst (List.map_filter ?f xs) = filter (\<lambda>d. hook_of (dv_webhookId d) t \<noteq> None) xs" for xs
    by (induction xs) (auto simp: List.map_filter_def)
  then have fst: "map fst (with_hooks ids t) = filter (\<lambda>d. hook_of (dv_webhookId d) t \<noteq> None) ?s" by (simp add: with_hooks_def)
  have "distinct ?s" using d by (simp add: distinct_map)
  then have "distinct (map fst (with_hooks ids t))" unfolding fst by (rule distinct_filter)
  moreover have "length (with_hooks ids t) \<le> length ?ds"
    using arg_cong [OF fst, of length] length_filter_le [of "\<lambda>d. hook_of (dv_webhookId d) t \<noteq> None" ?s] by simp
  moreover have "length ?ds = card (dv_id ` set ?ds)" using d by (metis distinct_card length_map set_map)
  moreover have "card (dv_id ` set ?ds) \<le> card (set ids)" by (rule card_mono) auto
  ultimately show ?thesis using card_length [of ids] by (auto simp: distinct_map intro: order_trans)
qed


section \<open>Samples\<close>

definition sample_admin :: admin_env where
  "sample_admin = \<lparr>ad_parse = sample_parse, ad_local = sample_facts, ad_project = (\<lambda>p. if p = ''p1'' then Some ''ws'' else None), ad_home = ''ws'', ad_workspace = (\<lambda>w. w = ''ws''),
     ad_sealUrl = (\<lambda>i u. u), ad_sealSecret = (\<lambda>i x. x)\<rparr>"

definition sample_input :: webhook_input where
  "sample_input = \<lparr>in_name = ''hook'', in_url = ''https://hook.example/x'', in_format = ''generic'', in_events = [''work_item.created''], in_projectId = None\<rparr>"

definition sample_hook :: webhook where
  "sample_hook = \<lparr>wh_id = ''h1'', wh_workspaceId = ''ws'', wh_projectId = None, wh_name = ''hook'', wh_urlEnc = ''https://hook.example/x'',
     wh_format = ''generic'', wh_secretEnc = ''s'', wh_events = [''work_item.created''], wh_enabled = True, wh_status = ACTIVE, wh_consecutiveFailures = 0\<rparr>"

definition sample_tables :: tables where
  "sample_tables = \<lparr>wt_hooks = [sample_hook], wt_deliveries = []\<rparr>"

definition sample_item :: "string \<Rightarrow> work_item_view option" where
  "sample_item i = (if i = ''w1'' then Some \<lparr>wi_workspaceId = ''ws'', wi_projectId = ''p1'', wi_payload = (\<lambda>r e. ac_id r @ e)\<rparr> else None)"

definition sample_delivery :: delivery where
  "sample_delivery = new_delivery ''d'' ''h1'' ''work_item.created'' ''awork_item.created'' (Some ''activity:a'') 0 0"

definition created_world :: webhook_world where
  "created_world = (webhook_init 0)\<lparr>ww_tables := sample_tables, ww_used := {''h1''}\<rparr>"

definition queued_world :: webhook_world where
  "queued_world = created_world\<lparr>ww_tables := sample_tables\<lparr>wt_deliveries := [sample_delivery]\<rparr>, ww_used := {''d'', ''h1''}\<rparr>"

lemma sample_hook_created: "webhook_run sample_admin (webhook_init 0) created_world"
proof -
  have "createWebhook sample_admin ''h1'' ''s'' sample_input (ww_tables (webhook_init 0)) = Inr (sample_hook, sample_tables)" by code_simp
  from wk_create [OF _ this] show ?thesis by (simp add: created_world_def webhook_init_def)
qed

lemma sample_queued: "webhook_run sample_admin (webhook_init 0) queued_world"
proof -
  have "fanOutActivity sample_item (\<lambda>_. ''d'') (ww_now created_world) (sample_activity ''a'') (ww_tables created_world)
    = (1, sample_tables\<lparr>wt_deliveries := [sample_delivery]\<rparr>)" by code_simp
  from wk_fanout [OF _ _ this, of sample_admin] have "webhook_step sample_admin created_world queued_world"
    by (simp add: created_world_def queued_world_def webhook_init_def hook_ids_def sample_tables_def sample_hook_def)
  with sample_hook_created show ?thesis by (rule rtranclp.rtrancl_into_rtrancl)
qed

theorem delivery_lifecycle_witness:
  "same_event sample_delivery (lease [''d''] 0 sample_delivery) \<and> row_ok (lease [''d''] 0 sample_delivery)"
proof -
  let ?t = "(ww_tables queued_world)\<lparr>wt_deliveries := [lease [''d''] 0 sample_delivery]\<rparr>"
  have "claimDueDeliveries (ww_now queued_world) DELIVERY_BATCH (ww_tables queued_world) = ([(lease [''d''] 0 sample_delivery, sample_hook)], ?t)" by code_simp
  from wk_claim [OF this] have step: "webhook_step sample_admin queued_world
    (queued_world\<lparr>ww_tables := ?t, ww_claimed := map (\<lambda>(d, h). (d, h, False)) [(lease [''d''] 0 sample_delivery, sample_hook)] @ ww_claimed queued_world\<rparr>)" .
  have "sample_delivery \<in> set (wt_deliveries (ww_tables queued_world))" by (simp add: queued_world_def)
  from delivery_lifecycle [OF sample_queued step this, of "lease [''d''] 0 sample_delivery"] show ?thesis by (simp add: lease_def)
qed

definition resume_patch :: webhook_patch where
  "resume_patch = \<lparr>pt_name = None, pt_url = None, pt_format = None, pt_events = None, pt_projectId = None, pt_enabled = Some True\<rparr>"

theorem turned_off_once_witness:
  "successively (\<lambda>a b. \<not> (a = Notified ''h1'' \<and> b = Notified ''h1'')) (filter (\<lambda>n. n = Notified ''h1'' \<or> n = Resumed ''h1'') [Resumed ''h1''])"
proof -
  have "updateWebhook sample_admin ''h1'' resume_patch (ww_tables created_world) = Inr sample_tables" by code_simp
  from wk_update [OF this] have "webhook_step sample_admin created_world (created_world\<lparr>ww_tables := sample_tables, ww_notices := [Resumed ''h1'']\<rparr>)"
    by (simp add: resume_patch_def created_world_def webhook_init_def)
  with sample_hook_created have "webhook_run sample_admin (webhook_init 0) (created_world\<lparr>ww_tables := sample_tables, ww_notices := [Resumed ''h1'']\<rparr>)"
    by (rule rtranclp.rtrancl_into_rtrancl)
  from turned_off_once [OF this, of "''h1''"] show ?thesis by simp
qed


definition sample_attempt :: attempt_env where
  "sample_attempt = \<lparr>ae_now = 5000, ae_openUrl = (\<lambda>i u. Return u),
     ae_resolve = (\<lambda>raw. guarded (resolvePinnedDestination sample_parse sample_resolve (Some sample_facts) raw) By_guard),
     ae_gate = True, ae_openSecret = (\<lambda>i x. Some x), ae_render = (\<lambda>f p. p), ae_hmac = (\<lambda>k m. k @ m), ae_send = (\<lambda>q. Return 204)\<rparr>"

definition sample_dial :: dial where
  "sample_dial = \<lparr>di_dest = sample_pinned, di_event = ''work_item.created'', di_delivery = ''d'', di_signature = ''t=5,v1=s5.awork_item.created'',
     di_body = ''awork_item.created''\<rparr>"



end
