(* ===== verification/Sync_Policy.thy ===== *)
theory Sync_Policy
  imports Complex_Main Prelude
begin

text \<open>
  What a failed read of a vendor means and how long to wait (\<^verbatim>\<open>services/m365/sync-policy.ts\<close>), and the
  schedule of a box (\<^verbatim>\<open>services/erp-sync/schedule-jitter.ts\<close>).  \<^verbatim>\<open>Date.parse\<close>, SHA-256 and the random number in
  \<open>[0, 1)\<close> are parameters; fractions are rationals, and \<^verbatim>\<open>Math.round\<close> rounds halves up.
\<close>

section \<open>Failures\<close>

datatype sync_failure_kind = TRANSIENT | RESYNC | AUTH | FATAL

record sync_failure =
  sf_statusCode :: "int option"
  sf_code :: "string option"

definition RESYNC_CODES :: "string list" where
  "RESYNC_CODES = [''syncStateNotFound'', ''resyncRequired'', ''resyncChangesApplyDifferences'', ''resyncChangesUploadDifferences'']"

definition TRANSIENT_CODES :: "string list" where
  "TRANSIENT_CODES = [''ETIMEDOUT'', ''ECONNRESET'', ''ECONNREFUSED'', ''ENOTFOUND'', ''EAI_AGAIN'', ''EPIPE'', ''ENETUNREACH'']"

definition LOCAL_RETRY_CODES :: "string list" where
  "LOCAL_RETRY_CODES = [''HANDLER_FAILED'', ''TOKEN_UNAVAILABLE'']"

definition classifySyncFailure :: "sync_failure \<Rightarrow> sync_failure_kind" where
  "classifySyncFailure err =
     (let code = js_trim (case sf_code err of Some c \<Rightarrow> c | None \<Rightarrow> []); status = sf_statusCode err in
      if code \<in> set RESYNC_CODES then RESYNC
      else if status = Some 410 then RESYNC
      else if code \<in> set TRANSIENT_CODES then TRANSIENT
      else if code \<in> set LOCAL_RETRY_CODES then TRANSIENT
      else if status = Some 429 then TRANSIENT
      else if (case status of Some n \<Rightarrow> 500 \<le> n \<and> n \<le> 599 | None \<Rightarrow> False) then TRANSIENT
      else if status = Some 401 \<or> status = Some 403 then AUTH
      else FATAL)"

section \<open>Waiting\<close>

definition MAX_BACKOFF_MS :: int where
  "MAX_BACKOFF_MS = 30 * 60 * 1000"

definition BASE_BACKOFF_MS :: int where
  "BASE_BACKOFF_MS = 30 * 1000"

definition parseRetryAfter :: "(string \<Rightarrow> int option) \<Rightarrow> string option \<Rightarrow> int \<Rightarrow> int option" where
  "parseRetryAfter date_parse header now =
     (let raw = js_trim (case header of Some h \<Rightarrow> h | None \<Rightarrow> []) in
      if raw = [] then None
      else if list_all is_digit raw then Some (int (nat_of_digits raw) * 1000)
      else map_option (\<lambda>ms. max 0 (ms - now)) (date_parse raw))"

definition growth_factor :: "nat \<Rightarrow> int" where
  "growth_factor failures = min (2 ^ min (max 1 failures - 1) 10) (MAX_BACKOFF_MS div BASE_BACKOFF_MS)"

definition backoff_base :: "nat \<Rightarrow> int" where
  "backoff_base failures = min (BASE_BACKOFF_MS * growth_factor failures) MAX_BACKOFF_MS"

definition js_round :: "rat \<Rightarrow> int" where
  "js_round x = \<lfloor>x + 1 / 2\<rfloor>"

definition computeBackoffMs :: "nat \<Rightarrow> int option \<Rightarrow> rat \<Rightarrow> int" where
  "computeBackoffMs failures retryAfterMs random =
     (let base = of_int (backoff_base failures);
          jittered = base / 2 + base / 2 * random
      in if (case retryAfterMs of Some ms \<Rightarrow> 0 \<le> ms | None \<Rightarrow> False) then the retryAfterMs
         else max 1 (min (js_round jittered) MAX_BACKOFF_MS))"

section \<open>Jitter\<close>

text \<open>The first six bytes of the digest as a number are a parameter.\<close>

definition deriveScheduleJitterMs :: "(string \<Rightarrow> nat) \<Rightarrow> string \<Rightarrow> int \<Rightarrow> int" where
  "deriveScheduleJitterMs digest48 deviceId spanMs = (if spanMs \<le> 0 then 0 else int (digest48 deviceId) mod spanMs)"

text \<open>With the fraction of a quarter the code uses.\<close>

definition jitteredPeriodMs :: "(string \<Rightarrow> nat) \<Rightarrow> int \<Rightarrow> string \<Rightarrow> int" where
  "jitteredPeriodMs digest48 basePeriodMs deviceId = basePeriodMs + deriveScheduleJitterMs digest48 deviceId (basePeriodMs div 4)"

section \<open>Bounds\<close>

lemma growth_bounds: "1 \<le> growth_factor n" "growth_factor n \<le> 60"
  by (simp_all add: growth_factor_def MAX_BACKOFF_MS_def BASE_BACKOFF_MS_def min_def)

lemma base_exact: "backoff_base n = 30000 * growth_factor n"
  using growth_bounds [of n] by (simp add: backoff_base_def BASE_BACKOFF_MS_def MAX_BACKOFF_MS_def min_def)

lemma growth_mono: "m \<le> n \<Longrightarrow> growth_factor m \<le> growth_factor n"
proof -
  assume "m \<le> n"
  then have "min (max 1 m - 1) 10 \<le> min (max 1 n - 1) 10" by auto
  then have "(2::int) ^ min (max 1 m - 1) 10 \<le> 2 ^ min (max 1 n - 1) 10" by (intro power_increasing) auto
  then show ?thesis unfolding growth_factor_def by (rule min.mono) simp
qed

lemma round_within:
  assumes "of_int lo \<le> x" "x \<le> of_int hi"
  shows "lo \<le> js_round x" "js_round x \<le> hi"
proof -
  have "lo \<le> \<lfloor>x\<rfloor>" using assms(1) by (simp add: le_floor_iff)
  also have "\<lfloor>x\<rfloor> \<le> js_round x" unfolding js_round_def by (rule floor_mono) simp
  finally show "lo \<le> js_round x" .
  have "x + 1 / 2 < of_int (hi + 1)" using assms(2) by simp
  then show "js_round x \<le> hi" unfolding js_round_def by (simp add: floor_less_iff flip: zle_add1_eq_le)
qed

lemma backoff_within:
  assumes "0 \<le> r" "r \<le> 1"
  shows "15000 * growth_factor n \<le> computeBackoffMs n None r \<and> computeBackoffMs n None r \<le> 30000 * growth_factor n"
proof -
  let ?b = "of_int (backoff_base n) :: rat"
  let ?x = "?b / 2 + ?b / 2 * r"
  have b: "?b = of_int (30000 * growth_factor n)" by (simp only: base_exact)
  have pos: "0 \<le> ?b" using growth_bounds(1) [of n] unfolding b by simp
  have "of_int (15000 * growth_factor n) = ?b / 2" unfolding b by simp
  also have "?b / 2 \<le> ?x" using pos assms(1) by simp
  finally have lo: "of_int (15000 * growth_factor n) \<le> ?x" .
  have "?b / 2 * r \<le> ?b / 2 * 1" by (rule mult_left_mono) (use pos assms(2) in auto)
  then have hi: "?x \<le> of_int (30000 * growth_factor n)" unfolding b by simp
  from round_within [OF lo hi] growth_bounds [of n] show ?thesis
    by (auto simp: computeBackoffMs_def Let_def MAX_BACKOFF_MS_def)
qed



end
