(* ===== verification/Erp_Watermark.thy ===== *)
theory Erp_Watermark
  imports Prelude "HOL-Library.Sublist"
begin

text \<open>
  The position a sync of a connector has reached and what a full read says about it: \<^verbatim>\<open>services/erp-sync/watermark.ts\<close>,
  \<^verbatim>\<open>reconcile.ts\<close> and \<^verbatim>\<open>drift-record.service.ts\<close>.  A vendor's row is a function from column names to cells; the text of a
  value of another type is what \<^verbatim>\<open>String\<close> makes of it.  \<^verbatim>\<open>Date.parse\<close> is a parameter, and instants are milliseconds.
\<close>

section \<open>Timestamps\<close>

definition digits_at :: "nat \<Rightarrow> string \<Rightarrow> bool" where
  "digits_at n s \<longleftrightarrow> n \<le> length s \<and> list_all is_digit (take n s)"

text \<open>The parts of the pattern: each takes its text off the front, or fails.\<close>

definition take_digits :: "nat \<Rightarrow> string \<Rightarrow> string option" where
  "take_digits n s = (if digits_at n s then Some (drop n s) else None)"

definition take_one :: "(char \<Rightarrow> bool) \<Rightarrow> string \<Rightarrow> string option" where
  "take_one p s = (case s of c # r \<Rightarrow> if p c then Some r else None | [] \<Rightarrow> None)"

definition then_take :: "string option \<Rightarrow> (string \<Rightarrow> string option) \<Rightarrow> string option" where
  "then_take s f = (case s of None \<Rightarrow> None | Some r \<Rightarrow> f r)"

definition zone_text :: "string \<Rightarrow> bool" where
  "zone_text s \<longleftrightarrow> s = [] \<or> s = ''Z''
     \<or> (\<exists>r\<in>set_option (then_take (take_one (\<lambda>c. c = CHR ''+'' \<or> c = CHR ''-'') s) (take_digits 2)).
          take_digits 2 r = Some [] \<or> then_take (take_one (\<lambda>c. c = CHR '':'') r) (take_digits 2) = Some [])"

definition second_text :: "string \<Rightarrow> bool" where
  "second_text s \<longleftrightarrow> zone_text s
     \<or> (case then_take (take_one (\<lambda>c. c = CHR '':'') s) (take_digits 2) of
          None \<Rightarrow> False
        | Some r \<Rightarrow> zone_text r
            \<or> (case take_one (\<lambda>c. c = CHR ''.'') r of None \<Rightarrow> False | Some f \<Rightarrow> digits_at 1 f \<and> zone_text (dropWhile is_digit f)))"

definition time_text :: "string \<Rightarrow> bool" where
  "time_text s \<longleftrightarrow> s = []
     \<or> (case then_take (then_take (then_take (take_one (\<lambda>c. c = CHR ''T'' \<or> c = CHR '' '') s) (take_digits 2)) (take_one (\<lambda>c. c = CHR '':''))) (take_digits 2) of
          None \<Rightarrow> False | Some r \<Rightarrow> second_text r)"

definition ISO_TIMESTAMP :: "string \<Rightarrow> bool" where
  "ISO_TIMESTAMP s \<longleftrightarrow>
     (case then_take (then_take (then_take (then_take (take_digits 4 s) (take_one (\<lambda>c. c = CHR ''-''))) (take_digits 2))
        (take_one (\<lambda>c. c = CHR ''-''))) (take_digits 2) of
        None \<Rightarrow> False | Some r \<Rightarrow> time_text r)"

definition isoInstant :: "(string \<Rightarrow> int option) \<Rightarrow> string option \<Rightarrow> int option" where
  "isoInstant date_parse v = (case v of None \<Rightarrow> None | Some s \<Rightarrow> if ISO_TIMESTAMP s then date_parse s else None)"

section \<open>Positions\<close>

record record_identity =
  ri_sourceKey :: string
  ri_marker :: "string option"
  ri_updatedAt :: "string option"

definition watermarkValueOf :: "record_identity \<Rightarrow> string option" where
  "watermarkValueOf r = (case ri_updatedAt r of Some u \<Rightarrow> if u \<noteq> [] then Some u else ri_marker r | None \<Rightarrow> ri_marker r)"

text \<open>The loop of \<^verbatim>\<open>highestWatermark\<close>: the best timestamp with its instant, and the last opaque value.\<close>

fun highest_scan :: "(string \<Rightarrow> int option) \<Rightarrow> record_identity list \<Rightarrow> (string \<times> int) option \<Rightarrow> string option \<Rightarrow> (string \<times> int) option \<times> string option" where
  "highest_scan dp [] best opaque = (best, opaque)"
| "highest_scan dp (r # rs) best opaque =
     (case watermarkValueOf r of
        None \<Rightarrow> highest_scan dp rs best opaque
      | Some v \<Rightarrow>
          if v = [] then highest_scan dp rs best opaque
          else (case isoInstant dp (Some v) of
              None \<Rightarrow> highest_scan dp rs best (Some v)
            | Some t \<Rightarrow> highest_scan dp rs (case best of None \<Rightarrow> Some (v, t) | Some (b, i) \<Rightarrow> if i < t then Some (v, t) else best) opaque))"

definition highestWatermark :: "(string \<Rightarrow> int option) \<Rightarrow> record_identity list \<Rightarrow> string option" where
  "highestWatermark dp rs = (case highest_scan dp rs None None of (Some (v, _), _) \<Rightarrow> Some v | (None, opaque) \<Rightarrow> opaque)"

definition isWatermarkAhead :: "(string \<Rightarrow> int option) \<Rightarrow> string option \<Rightarrow> string option \<Rightarrow> bool" where
  "isWatermarkAhead dp candidate reference =
     (if candidate = None then False
      else if reference = None then True
      else (case (isoInstant dp candidate, isoInstant dp reference) of (Some a, Some b) \<Rightarrow> b < a | _ \<Rightarrow> False))"

section \<open>Rows\<close>

datatype cell = Undefined | Null | Text string | Num string | Other string

type_synonym vendor_row = "string \<Rightarrow> cell"

fun cell_text :: "cell \<Rightarrow> string option" where
  "cell_text Undefined = None"
| "cell_text Null = None"
| "cell_text (Text s) = Some s"
| "cell_text (Num s) = Some s"
| "cell_text (Other s) = Some s"

definition identify_row :: "string \<Rightarrow> string \<Rightarrow> string \<Rightarrow> vendor_row option \<Rightarrow> record_identity option" where
  "identify_row keyField markerField updatedAtField row =
     (case row of
        None \<Rightarrow> None
      | Some rec \<Rightarrow>
          (case cell_text (rec keyField) of
             None \<Rightarrow> None
           | Some key \<Rightarrow>
               if rec keyField = Text [] then None
               else Some \<lparr>ri_sourceKey = key, ri_marker = cell_text (rec markerField), ri_updatedAt = cell_text (rec updatedAtField)\<rparr>))"

text \<open>A value that is not an object (\<open>None\<close>) and a row without its key are dropped.\<close>

definition identify :: "vendor_row option list \<Rightarrow> string \<Rightarrow> string \<Rightarrow> string \<Rightarrow> record_identity list" where
  "identify rows keyField markerField updatedAtField = List.map_filter (identify_row keyField markerField updatedAtField) rows"

definition highWaterMark :: "(string \<Rightarrow> int option) \<Rightarrow> record_identity list \<Rightarrow> string option" where
  "highWaterMark dp rs = highestWatermark dp rs"

section \<open>Drift\<close>

datatype drift_class = missed_newer | watermark_behind

record entity_drift =
  ed_entity :: string
  ed_fullCount :: nat
  ed_incrementalCount :: nat
  ed_missedCount :: nat
  ed_watermarkBehind :: bool
  ed_classes :: "drift_class list"
  ed_earliestMissedAt :: "int option"

definition missed :: "(string \<Rightarrow> int option) \<Rightarrow> string option \<Rightarrow> record_identity list \<Rightarrow> record_identity \<Rightarrow> bool" where
  "missed dp watermark incremental r \<longleftrightarrow>
     ri_sourceKey r \<notin> ri_sourceKey ` set incremental \<and> isWatermarkAhead dp (watermarkValueOf r) watermark"

fun earliest :: "int option list \<Rightarrow> int option \<Rightarrow> int option" where
  "earliest [] acc = acc"
| "earliest (None # xs) acc = earliest xs acc"
| "earliest (Some t # xs) acc = earliest xs (case acc of None \<Rightarrow> Some t | Some e \<Rightarrow> if t < e then Some t else acc)"

definition or_else :: "'a option \<Rightarrow> 'a option \<Rightarrow> 'a option" where
  "or_else a b = (case a of None \<Rightarrow> b | Some _ \<Rightarrow> a)"

definition diffForDrift :: "(string \<Rightarrow> int option) \<Rightarrow> string \<Rightarrow> string option \<Rightarrow> record_identity list \<Rightarrow> record_identity list \<Rightarrow> entity_drift" where
  "diffForDrift dp entity watermark incremental full =
     (let gone = filter (missed dp watermark incremental) full;
          behind = isWatermarkAhead dp (highWaterMark dp full) (or_else (highWaterMark dp incremental) watermark)
      in \<lparr>ed_entity = entity, ed_fullCount = length full, ed_incrementalCount = length incremental, ed_missedCount = length gone,
          ed_watermarkBehind = behind,
          ed_classes = (if 0 < length gone then [missed_newer] else []) @ (if behind then [watermark_behind] else []),
          ed_earliestMissedAt = earliest (map (\<lambda>r. isoInstant dp (watermarkValueOf r)) gone) None\<rparr>)"

record drift_report =
  dr_connectionId :: string
  dr_provider :: string
  dr_sweptAt :: int
  dr_entities :: "entity_drift list"
  dr_totalMissed :: nat
  dr_driftDetected :: bool

definition buildDriftReport :: "string \<Rightarrow> string \<Rightarrow> int \<Rightarrow> entity_drift list \<Rightarrow> drift_report" where
  "buildDriftReport connectionId provider sweptAt entities =
     \<lparr>dr_connectionId = connectionId, dr_provider = provider, dr_sweptAt = sweptAt, dr_entities = entities,
      dr_totalMissed = sum_list (map ed_missedCount entities), dr_driftDetected = list_ex (\<lambda>e. ed_classes e \<noteq> []) entities\<rparr>"

section \<open>The drift records\<close>

datatype drift_classification = NO_DRIFT | MISSED_NEWER | WATERMARK_BEHIND | MISSED_NEWER_AND_WATERMARK_BEHIND

record drift_row =
  dw_id :: string
  dw_connectionId :: string
  dw_provider :: string
  dw_entity :: string
  dw_sweepAt :: int
  dw_classification :: drift_classification
  dw_missedCount :: nat
  dw_fullCount :: nat
  dw_incrementalCount :: nat
  dw_watermarkAt :: "int option"
  dw_earliestMissedAt :: "int option"

definition classifyEntityDrift :: "entity_drift \<Rightarrow> drift_classification" where
  "classifyEntityDrift d =
     (let missed = missed_newer \<in> set (ed_classes d); behind = watermark_behind \<in> set (ed_classes d) in
      if missed \<and> behind then MISSED_NEWER_AND_WATERMARK_BEHIND
      else if missed then MISSED_NEWER
      else if behind then WATERMARK_BEHIND
      else NO_DRIFT)"

definition driftRowFor :: "(string \<Rightarrow> int option) \<Rightarrow> string \<Rightarrow> string \<Rightarrow> string \<Rightarrow> int \<Rightarrow> string option \<Rightarrow> entity_drift \<Rightarrow> drift_row" where
  "driftRowFor dp newId connectionId provider sweepAt watermark d =
     \<lparr>dw_id = newId, dw_connectionId = connectionId, dw_provider = provider, dw_entity = ed_entity d, dw_sweepAt = sweepAt,
      dw_classification = classifyEntityDrift d, dw_missedCount = ed_missedCount d, dw_fullCount = ed_fullCount d,
      dw_incrementalCount = ed_incrementalCount d, dw_watermarkAt = isoInstant dp watermark, dw_earliestMissedAt = ed_earliestMissedAt d\<rparr>"

definition recordEntityDrift :: "drift_row \<Rightarrow> drift_row list \<Rightarrow> drift_row list" where
  "recordEntityDrift row table = table @ [row]"

text \<open>Retention: batches of the oldest rows before the cutoff, until none is left or the bound of a run is reached.\<close>

definition oldest_before :: "int \<Rightarrow> nat \<Rightarrow> drift_row list \<Rightarrow> string list" where
  "oldest_before cutoff limit table = map dw_id (take limit (sort_key dw_sweepAt (filter (\<lambda>r. dw_sweepAt r < cutoff) table)))"

lemma batch_progress: "ids \<noteq> [] \<Longrightarrow> \<not> n < length ids \<Longrightarrow> deleted < maxRows \<Longrightarrow> maxRows - (deleted + n) < maxRows - (deleted :: nat)"
  by (cases ids) auto

function trim_loop :: "int \<Rightarrow> nat \<Rightarrow> nat \<Rightarrow> nat \<Rightarrow> drift_row list \<Rightarrow> nat \<times> drift_row list" where
  "trim_loop cutoff batchSize maxRows deleted table =
     (if maxRows \<le> deleted then (deleted, table)
      else
        let ids = oldest_before cutoff (min batchSize (maxRows - deleted)) table;
            n = length (filter (\<lambda>r. dw_id r \<in> set ids) table);
            table' = filter (\<lambda>r. dw_id r \<notin> set ids) table
        in if ids = [] then (deleted, table)
           else if n < length ids then (deleted + n, table')
           else trim_loop cutoff batchSize maxRows (deleted + n) table')"
  by pat_completeness auto

termination
  by (relation "measure (\<lambda>(cutoff, batchSize, maxRows, deleted, table). maxRows - deleted)") (auto simp: Let_def intro: batch_progress)

declare trim_loop.simps [simp del]

definition trimErpDriftRecords :: "int \<Rightarrow> int \<Rightarrow> nat \<Rightarrow> nat \<Rightarrow> drift_row list \<Rightarrow> (nat \<times> bool) \<times> drift_row list" where
  "trimErpDriftRecords olderThanDays now batchSize maxRows table =
     (if olderThanDays \<le> 0 then ((0, True), table)
      else (case trim_loop (now - olderThanDays * 86400000) batchSize maxRows 0 table of (n, table') \<Rightarrow> ((n, False), table')))"

section \<open>The earned cadence\<close>

definition CLEAN_SWEEPS_PER_STEP :: nat where
  "CLEAN_SWEEPS_PER_STEP = 3"

definition MAX_SWEEP_INTERVAL_MULTIPLIER :: nat where
  "MAX_SWEEP_INTERVAL_MULTIPLIER = 8"

definition DEFAULT_STREAK_ROW_LIMIT :: nat where
  "DEFAULT_STREAK_ROW_LIMIT = 200"

text \<open>Consecutive rows of one instant are one sweep, clean when all of them are.\<close>

fun group_sweeps :: "drift_row list \<Rightarrow> (int \<times> bool) list \<Rightarrow> (int \<times> bool) list" where
  "group_sweeps [] acc = rev acc"
| "group_sweeps (r # rs) ((key, clean) # acc) =
     (let c = (dw_classification r = NO_DRIFT) in
      if key = dw_sweepAt r then group_sweeps rs ((key, clean \<and> c) # acc) else group_sweeps rs ((dw_sweepAt r, c) # (key, clean) # acc))"
| "group_sweeps (r # rs) [] = group_sweeps rs [(dw_sweepAt r, dw_classification r = NO_DRIFT)]"

definition cleanSweepStreak :: "nat \<Rightarrow> string \<Rightarrow> drift_row list \<Rightarrow> nat" where
  "cleanSweepStreak rowLimit connectionId table =
     (let rows = take rowLimit (rev (sort_key dw_sweepAt (filter (\<lambda>r. dw_connectionId r = connectionId) table)));
          sweeps = group_sweeps rows [];
          read = (if rowLimit \<le> length rows \<and> sweeps \<noteq> [] then butlast sweeps else sweeps)
      in length (takeWhile snd read))"

definition sweepIntervalMsFor :: "int \<Rightarrow> nat \<Rightarrow> int" where
  "sweepIntervalMsFor baseMs cleanStreak =
     (if cleanStreak = 0 then baseMs else baseMs * int (min (2 ^ (cleanStreak div CLEAN_SWEEPS_PER_STEP)) MAX_SWEEP_INTERVAL_MULTIPLIER))"

section \<open>The highest position\<close>

definition position :: "(string \<Rightarrow> int option) \<Rightarrow> record_identity \<Rightarrow> int option" where
  "position dp r = isoInstant dp (watermarkValueOf r)"

definition positions :: "(string \<Rightarrow> int option) \<Rightarrow> record_identity list \<Rightarrow> int set" where
  "positions dp rs = {t. \<exists>r\<in>set rs. position dp r = Some t}"

lemma isoInstant_empty [simp]: "isoInstant dp (Some []) = None" "isoInstant dp None = None"
  by (simp_all add: isoInstant_def ISO_TIMESTAMP_def take_digits_def digits_at_def then_take_def)

lemma positions_simps: "positions dp [] = {}" "positions dp (r # rs) = set_option (position dp r) \<union> positions dp rs"
  by (auto simp: positions_def)

definition scan_ok :: "(string \<Rightarrow> int option) \<Rightarrow> record_identity list \<Rightarrow> (string \<times> int) option \<Rightarrow> (string \<times> int) option \<Rightarrow> bool" where
  "scan_ok dp rs best res \<longleftrightarrow>
     (case res of
        None \<Rightarrow> best = None \<and> positions dp rs = {}
      | Some (v, t) \<Rightarrow> isoInstant dp (Some v) = Some t \<and> (best = Some (v, t) \<or> Some v \<in> watermarkValueOf ` set rs)
          \<and> (\<forall>u\<in>positions dp rs. u \<le> t) \<and> (\<forall>u\<in>set_option (map_option snd best). u \<le> t))"

lemma scan_ok_skip: "position dp r = None \<Longrightarrow> scan_ok dp rs best res \<Longrightarrow> scan_ok dp (r # rs) best res"
  by (auto simp: scan_ok_def positions_simps split: option.splits)

lemma scan_ok_take:
  assumes "position dp r = Some t" "watermarkValueOf r = Some v"
    and "scan_ok dp rs (case best of None \<Rightarrow> Some (v, t) | Some (b, i) \<Rightarrow> if i < t then Some (v, t) else best) res"
  shows "scan_ok dp (r # rs) best res"
  using assms by (auto simp: scan_ok_def positions_simps split: option.splits if_splits)

lemma highest_scan_best:
  "\<forall>v t. best = Some (v, t) \<longrightarrow> isoInstant dp (Some v) = Some t \<Longrightarrow> scan_ok dp rs best (fst (highest_scan dp rs best opaque))"
proof (induction rs arbitrary: best opaque)
  case Nil
  then show ?case by (auto simp: scan_ok_def positions_simps split: option.split)
next
  case (Cons r rs)
  consider "watermarkValueOf r = None \<or> watermarkValueOf r = Some []"
    | v where "watermarkValueOf r = Some v" "v \<noteq> []" "isoInstant dp (Some v) = None"
    | v t where "watermarkValueOf r = Some v" "v \<noteq> []" "isoInstant dp (Some v) = Some t"
    by (metis option.exhaust)
  then show ?case
  proof cases
    case 1
    then have "position dp r = None" "highest_scan dp (r # rs) best opaque = highest_scan dp rs best opaque" by (auto simp: position_def)
    with Cons.IH [OF Cons.prems, where opaque = opaque] show ?thesis by (simp add: scan_ok_skip)
  next
    case (2 v)
    then have "position dp r = None" "highest_scan dp (r # rs) best opaque = highest_scan dp rs best (Some v)" by (auto simp: position_def)
    with Cons.IH [OF Cons.prems, where opaque = "Some v"] show ?thesis by (simp add: scan_ok_skip)
  next
    case (3 v t)
    let ?best = "case best of None \<Rightarrow> Some (v, t) | Some (b, i) \<Rightarrow> if i < t then Some (v, t) else best"
    have s: "position dp r = Some t" "highest_scan dp (r # rs) best opaque = highest_scan dp rs ?best opaque" using 3 by (auto simp: position_def)
    have "\<forall>w u. ?best = Some (w, u) \<longrightarrow> isoInstant dp (Some w) = Some u" using 3 Cons.prems by (auto split: option.splits if_splits)
    from scan_ok_take [OF s(1) 3(1) Cons.IH [OF this, where opaque = opaque]] s(2) show ?thesis by simp
  qed
qed

lemma highest_is_max:
  assumes "positions dp rs \<noteq> {}"
  shows "\<exists>v t. highestWatermark dp rs = Some v \<and> isoInstant dp (Some v) = Some t \<and> t \<in> positions dp rs \<and> (\<forall>u\<in>positions dp rs. u \<le> t)"
proof -
  have b: "scan_ok dp rs None (fst (highest_scan dp rs None None))" by (rule highest_scan_best) simp
  with assms obtain v t where f: "fst (highest_scan dp rs None None) = Some (v, t)" by (auto simp: scan_ok_def split: option.splits)
  with b have r: "isoInstant dp (Some v) = Some t" "Some v \<in> watermarkValueOf ` set rs" "\<forall>u\<in>positions dp rs. u \<le> t" by (auto simp: scan_ok_def)
  from r(2) obtain q where q: "q \<in> set rs" "watermarkValueOf q = Some v" by auto
  then have "position dp q = Some t" using r(1) by (simp add: position_def)
  with q(1) have "t \<in> positions dp rs" by (auto simp: positions_def)
  moreover have "highestWatermark dp rs = Some v" using f by (auto simp: highestWatermark_def split: prod.splits)
  ultimately show ?thesis using r by blast
qed

lemma scan_opaque: "isoInstant dp op = None \<Longrightarrow> isoInstant dp (snd (highest_scan dp rs best op)) = None"
  by (induction dp rs best op rule: highest_scan.induct) (auto split: option.splits)

lemma highest_opaque:
  assumes "positions dp rs = {}"
  shows "isoInstant dp (highestWatermark dp rs) = None"
proof -
  have b: "scan_ok dp rs None (fst (highest_scan dp rs None None))" by (rule highest_scan_best) simp
  have "fst (highest_scan dp rs None None) = None"
  proof (rule ccontr)
    assume "fst (highest_scan dp rs None None) \<noteq> None"
    then obtain v t where "fst (highest_scan dp rs None None) = Some (v, t)" by auto
    with b obtain q where "q \<in> set rs" "watermarkValueOf q = Some v" "isoInstant dp (Some v) = Some t" by (auto simp: scan_ok_def)
    then have "t \<in> positions dp rs" by (auto simp: positions_def position_def intro!: bexI [of _ q])
    with assms show False by simp
  qed
  moreover have "isoInstant dp (snd (highest_scan dp rs None None)) = None" by (rule scan_opaque) simp
  ultimately show ?thesis by (auto simp: highestWatermark_def split: prod.splits option.splits)
qed

text \<open>
  C26. A clean report is evidence: when the diff of a full read finds no drift, every record of the full read whose timestamp lies
  after the watermark was in the incremental read too, and no timestamp of the full read lies after the highest one of
  an incremental read that had any.
\<close>

theorem clean_report_sound:
  assumes "ed_classes (diffForDrift dp entity (Some w) incremental full) = []" "isoInstant dp (Some w) = Some t"
    and "r \<in> set full" "position dp r = Some u"
  shows "(t < u \<longrightarrow> ri_sourceKey r \<in> ri_sourceKey ` set incremental)
    \<and> (positions dp incremental \<noteq> {} \<longrightarrow> (\<exists>b\<in>positions dp incremental. u \<le> b))"
proof -
  have gone: "\<not> missed dp (Some w) incremental r" and behind: "\<not> isWatermarkAhead dp (highWaterMark dp full) (or_else (highWaterMark dp incremental) (Some w))"
    using assms(1,3) by (auto simp: diffForDrift_def Let_def filter_empty_conv split: if_splits)
  have "watermarkValueOf r \<noteq> None" using assms(4) by (cases "watermarkValueOf r") (auto simp: position_def)
  then have "t < u \<longrightarrow> isWatermarkAhead dp (watermarkValueOf r) (Some w)" using assms(2,4) by (auto simp: isWatermarkAhead_def position_def)
  with gone have "t < u \<longrightarrow> ri_sourceKey r \<in> ri_sourceKey ` set incremental" by (auto simp: missed_def)
  moreover have "\<exists>b\<in>positions dp incremental. u \<le> b" if p: "positions dp incremental \<noteq> {}"
  proof -
    have "u \<in> positions dp full" using assms(3,4) by (auto simp: positions_def)
    then obtain v m where m: "highestWatermark dp full = Some v" "isoInstant dp (Some v) = Some m" "u \<le> m" using highest_is_max [of dp full] by blast
    obtain v' m' where m': "highestWatermark dp incremental = Some v'" "isoInstant dp (Some v') = Some m'" "m' \<in> positions dp incremental"
      using highest_is_max [OF p] by blast
    with behind m have "m \<le> m'" by (simp add: isWatermarkAhead_def highWaterMark_def or_else_def)
    from order_trans [OF m(3) this] m'(3) show ?thesis by blast
  qed
  ultimately show ?thesis by blast
qed

section \<open>Retention\<close>

lemma filter_prefix:
  assumes "distinct (map g (a @ b))"
  shows "filter (\<lambda>x. g x \<in> g ` set a) (a @ b) = a" "filter (\<lambda>x. g x \<notin> g ` set a) (a @ b) = b"
proof -
  have "g x \<notin> g ` set a" if "x \<in> set b" for x using assms that by auto
  then show "filter (\<lambda>x. g x \<in> g ` set a) (a @ b) = a" "filter (\<lambda>x. g x \<notin> g ` set a) (a @ b) = b"
    by (simp_all add: filter_empty_conv filter_id_conv)
qed

lemma sort_key_empty: "sort_key f xs = [] \<longleftrightarrow> xs = []"
  by (metis length_0_conv length_sort)

lemma take_twice:
  assumes "b \<le> m - d"
  shows "take b s @ take (min (m - (d + min b (length s))) (length (drop b s))) (drop b s) = take (min (m - d) (length s)) (s :: 'a list)"
proof (cases "b \<le> length s")
  case True
  then have "min (m - d) (length s) = b + min (m - (d + min b (length s))) (length (drop b s))" using assms by auto
  then show ?thesis by (simp only: take_add)
next
  case False
  with assms show ?thesis by simp
qed

lemma count_twice: "min (min b (m - d)) l + min (m - (d + min (min b (m - d)) l)) (l - min b (m - d)) = min (m - d) (l :: nat)"
proof -
  have "min c l + min (x - min c l) (l - c) = min x l" if "c \<le> x" for c x :: nat
    using that by (cases "c \<le> l"; cases "x \<le> l") (auto simp: min_def)
  from this [of "min b (m - d)" "m - d"] show ?thesis by (simp only: diff_diff_left [symmetric] min.cobounded2 simp_thms)
qed

lemma filter_twice: "filter (\<lambda>x. g x \<notin> b) (filter (\<lambda>x. \<not> g x \<in> a) xs) = filter (\<lambda>x. g x \<notin> a \<union> b) xs"
  by (simp add: filter_filter)

lemma trim_loop_exact:
  assumes "distinct (map dw_id table)" "0 < batchSize"
  shows "trim_loop cutoff batchSize maxRows deleted table =
    (let s = sort_key dw_sweepAt (filter (\<lambda>r. dw_sweepAt r < cutoff) table); k = min (maxRows - deleted) (length s)
     in (deleted + k, filter (\<lambda>r. dw_id r \<notin> dw_id ` set (take k s)) table))"
  using assms
proof (induction cutoff batchSize maxRows deleted table rule: trim_loop.induct)
  case (1 cutoff batchSize maxRows deleted table)
  let ?old = "\<lambda>r. dw_sweepAt r < cutoff"
  let ?s = "sort_key dw_sweepAt (filter ?old table)"
  let ?b = "min batchSize (maxRows - deleted)"
  let ?gone = "\<lambda>r. dw_id r \<in> dw_id ` set (take ?b ?s)"
  let ?t = "filter (\<lambda>r. \<not> ?gone r) table"
  show ?case
  proof (cases "maxRows \<le> deleted \<or> filter ?old table = []")
    case True
    then show ?thesis using 1(3) by (subst trim_loop.simps) (auto simp: Let_def oldest_before_def)
  next
    case False
    have ids: "set (oldest_before cutoff ?b table) = dw_id ` set (take ?b ?s)" "length (oldest_before cutoff ?b table) = min ?b (length ?s)"
      by (simp_all add: oldest_before_def)
    have ds: "distinct (map dw_id (take ?b ?s @ drop ?b ?s))" using 1(2) by (auto simp: distinct_map intro: inj_on_subset)
    have "filter ?gone table = filter ?gone (filter ?old table)"
      using 1(2) set_take_subset [of ?b ?s] by (auto simp: distinct_map filter_filter dest!: inj_onD intro!: filter_cong)
    then have "length (filter ?gone table) = length (filter ?gone ?s)" by (simp add: filter_sort flip: length_sort)
    also have "\<dots> = length (take ?b ?s)" using filter_prefix(1) [OF ds] by simp
    finally have n: "length (filter ?gone table) = min ?b (length ?s)" by (simp add: min.commute)
    have rest: "sort_key dw_sweepAt (filter ?old ?t) = drop ?b ?s"
      using filter_prefix(2) [OF ds] by (simp add: filter_sort conj_commute)
    let ?ids = "oldest_before cutoff ?b table"
    have lt: "deleted < maxRows" "?ids \<noteq> []" "\<not> min ?b (length ?s) < length ?ids"
      using False 1(3) by (simp_all add: oldest_before_def sort_key_empty)
    have step: "trim_loop cutoff batchSize maxRows deleted table = trim_loop cutoff batchSize maxRows (deleted + min ?b (length ?s)) ?t"
      using lt by (subst trim_loop.simps) (simp add: Let_def ids(1) n)
    have "trim_loop cutoff batchSize maxRows (deleted + min ?b (length ?s)) ?t =
      (let s = sort_key dw_sweepAt (filter ?old ?t); k = min (maxRows - (deleted + min ?b (length ?s))) (length s)
       in (deleted + min ?b (length ?s) + k, filter (\<lambda>r. dw_id r \<notin> dw_id ` set (take k s)) ?t))"
      by (rule 1(1) [of ?ids, unfolded ids(1) n]) (use lt 1(2,3) in \<open>auto simp: distinct_map_filter\<close>)
    then have loop: "trim_loop cutoff batchSize maxRows deleted table =
      (let k = min (maxRows - (deleted + min ?b (length ?s))) (length (drop ?b ?s))
       in (deleted + min ?b (length ?s) + k, filter (\<lambda>r. dw_id r \<notin> dw_id ` set (take k (drop ?b ?s))) ?t))"
      by (simp only: rest step Let_def)
    have "take ?b ?s @ take (min (maxRows - (deleted + min ?b (length ?s))) (length (drop ?b ?s))) (drop ?b ?s)
        = take (min (maxRows - deleted) (length ?s)) ?s"
      by (rule take_twice) simp
    from arg_cong [OF this, of "\<lambda>xs. dw_id ` set xs"]
    have sets: "dw_id ` set (take (min (maxRows - deleted) (length ?s)) ?s) = dw_id ` set (take ?b ?s)
        \<union> dw_id ` set (take (min (maxRows - (deleted + min ?b (length ?s))) (length (drop ?b ?s))) (drop ?b ?s))"
      by (simp only: set_append image_Un)
    have count: "min ?b (length ?s) + min (maxRows - (deleted + min ?b (length ?s))) (length (drop ?b ?s)) = min (maxRows - deleted) (length ?s)"
      unfolding length_drop by (rule count_twice)
    show ?thesis unfolding Let_def sets by (simp only: loop Let_def add.assoc count filter_twice)
  qed
qed

text \<open>
  C27. The retention loop ends, whatever the table holds, and takes exactly the oldest rows before the cutoff, as many as one run may
  take; a row at the cutoff or inside the window stays.
\<close>

theorem trim_exact:
  assumes "distinct (map dw_id table)" "0 < batchSize" "0 < olderThanDays"
  shows "trimErpDriftRecords olderThanDays now batchSize maxRows table =
    (let old = filter (\<lambda>r. dw_sweepAt r < now - olderThanDays * 86400000) table
     in ((min maxRows (length old), False), filter (\<lambda>r. dw_id r \<notin> dw_id ` set (take maxRows (sort_key dw_sweepAt old))) table))"
proof -
  have "take (min maxRows (length s)) s = take maxRows s" for s :: "drift_row list" by (simp add: min_def)
  then show ?thesis using assms(3) by (simp add: trimErpDriftRecords_def trim_loop_exact [OF assms(1,2)] Let_def)
qed

section \<open>The cadence\<close>

lemma group_sweeps_append: "group_sweeps (xs @ ys) acc = group_sweeps ys (rev (group_sweeps xs acc))"
  by (induction xs acc rule: group_sweeps.induct) (simp_all add: Let_def)

lemma group_sweeps_prefix: "prefix (rev rest) (group_sweeps ys (a # rest))"
proof (induction ys "a # rest" arbitrary: a rest rule: group_sweeps.induct)
  case (2 r rs key clean acc)
  show ?case
  proof (cases "key = dw_sweepAt r")
    case True
    with 2(1) [OF refl True] show ?thesis by (simp add: Let_def)
  next
    case False
    with 2(2) [OF refl False] have "prefix (rev ((key, clean) # acc)) (group_sweeps (r # rs) ((key, clean) # acc))" by (simp add: Let_def)
    then show ?thesis by (auto dest: append_prefixD)
  qed
qed simp_all

lemma group_sweeps_butlast: "prefix (butlast (group_sweeps xs acc)) (group_sweeps (xs @ ys) acc)"
proof (cases "rev (group_sweeps xs acc)")
  case Nil
  then show ?thesis by simp
next
  case (Cons a rest)
  then have "group_sweeps xs acc = rev (a # rest)" by (metis rev_rev_ident)
  then have "butlast (group_sweeps xs acc) = rev rest" by simp
  with group_sweeps_prefix [of rest ys a] Cons show ?thesis by (simp add: group_sweeps_append)
qed

lemma takeWhile_prefix: "prefix p q \<Longrightarrow> length (takeWhile P p) \<le> length (takeWhile P q)"
  by (auto simp: prefix_def takeWhile_append intro: trans_le_add1 [OF length_takeWhile_le])

definition whole_streak :: "string \<Rightarrow> drift_row list \<Rightarrow> nat" where
  "whole_streak connectionId table =
     length (takeWhile snd (group_sweeps (rev (sort_key dw_sweepAt (filter (\<lambda>r. dw_connectionId r = connectionId) table))) []))"

lemma streak_bound: "cleanSweepStreak rowLimit connectionId table \<le> whole_streak connectionId table"
proof -
  let ?all = "rev (sort_key dw_sweepAt (filter (\<lambda>r. dw_connectionId r = connectionId) table))"
  have p: "prefix (butlast (group_sweeps (take rowLimit ?all) [])) (group_sweeps ?all [])"
    using group_sweeps_butlast [of "take rowLimit ?all" "[]" "drop rowLimit ?all"] by simp
  show ?thesis
  proof (cases "rowLimit \<le> length (take rowLimit ?all) \<and> group_sweeps (take rowLimit ?all) [] \<noteq> []")
    case True
    with takeWhile_prefix [OF p] show ?thesis by (simp add: cleanSweepStreak_def whole_streak_def Let_def)
  next
    case False
    then have "group_sweeps (take rowLimit ?all) [] = [] \<or> take rowLimit ?all = ?all" by auto
    with False show ?thesis by (auto simp: cleanSweepStreak_def whole_streak_def Let_def)
  qed
qed

lemma interval_mono: "0 \<le> base \<Longrightarrow> m \<le> n \<Longrightarrow> sweepIntervalMsFor base m \<le> sweepIntervalMsFor base n"
proof -
  assume b: "0 \<le> base" and mn: "m \<le> n"
  have "(2::nat) ^ (m div 3) \<le> 2 ^ (n div 3)" using mn by (intro power_increasing) (auto intro: div_le_mono)
  then have "int (min (2 ^ (m div 3)) 8) \<le> int (min (2 ^ (n div 3)) 8)" by (simp only: of_nat_mono min.mono order_refl)
  from mult_left_mono [OF this b] mn b show ?thesis
    by (auto simp: sweepIntervalMsFor_def CLEAN_SWEEPS_PER_STEP_def MAX_SWEEP_INTERVAL_MULTIPLIER_def intro!: mult_le_cancel_left1 [THEN iffD2])
qed

text \<open>
  The wait before the next sweep is earned: it lies between the base interval and eight times it, and reading only the newest
  rows of the history never makes it longer than the whole history would.
\<close>

theorem cadence_earned:
  assumes "0 \<le> baseMs"
  shows "baseMs \<le> sweepIntervalMsFor baseMs (cleanSweepStreak rowLimit connectionId table)
    \<and> sweepIntervalMsFor baseMs (cleanSweepStreak rowLimit connectionId table) \<le> sweepIntervalMsFor baseMs (whole_streak connectionId table)
    \<and> sweepIntervalMsFor baseMs (whole_streak connectionId table) \<le> 8 * baseMs"
proof -
  have "sweepIntervalMsFor baseMs n \<le> 8 * baseMs" for n
    using assms mult_left_mono [of "int (min (2 ^ (n div 3)) 8)" 8 baseMs]
    by (auto simp: sweepIntervalMsFor_def CLEAN_SWEEPS_PER_STEP_def MAX_SWEEP_INTERVAL_MULTIPLIER_def mult.commute)
  moreover have "baseMs \<le> sweepIntervalMsFor baseMs n" for n using interval_mono [OF assms, of 0 n] by (simp add: sweepIntervalMsFor_def)
  ultimately show ?thesis using interval_mono [OF assms streak_bound] by blast
qed


section \<open>Witnesses\<close>

definition sample_parse :: "string \<Rightarrow> int option" where
  "sample_parse s = (if s = ''2024-01-01'' then Some 1704067200000 else if s = ''2024-01-02'' then Some 1704153600000 else None)"

definition sample_record :: record_identity where
  "sample_record = \<lparr>ri_sourceKey = ''inv-1'', ri_marker = None, ri_updatedAt = Some ''2024-01-02''\<rparr>"

lemma sample_iso:
  "isoInstant sample_parse (Some ''2024-01-01'') = Some 1704067200000"
  "position sample_parse sample_record = Some 1704153600000"
  "ed_classes (diffForDrift sample_parse ''invoice'' (Some ''2024-01-01'') [sample_record] [sample_record]) = []"
  by code_simp+

theorem clean_report_sound_witness:
  "ri_sourceKey sample_record \<in> ri_sourceKey ` set [sample_record]
    \<and> (\<exists>b\<in>positions sample_parse [sample_record]. 1704153600000 \<le> b)"
proof -
  have "positions sample_parse [sample_record] \<noteq> {}" using sample_iso(2) by (simp add: positions_simps)
  with clean_report_sound [OF sample_iso(3) sample_iso(1), of sample_record 1704153600000] sample_iso(2) show ?thesis by simp
qed

definition sample_drift :: "string \<Rightarrow> int \<Rightarrow> drift_row" where
  "sample_drift i t = \<lparr>dw_id = i, dw_connectionId = ''c'', dw_provider = ''xero'', dw_entity = ''invoice'', dw_sweepAt = t,
     dw_classification = NO_DRIFT, dw_missedCount = 0, dw_fullCount = 1, dw_incrementalCount = 1, dw_watermarkAt = None, dw_earliestMissedAt = None\<rparr>"

theorem trim_exact_witness:
  "trimErpDriftRecords 1 86400010 1 2 [sample_drift ''a'' 5, sample_drift ''b'' 10, sample_drift ''d'' 1, sample_drift ''e'' 7]
    = ((2, False), [sample_drift ''b'' 10, sample_drift ''e'' 7])"
  using trim_exact [of "[sample_drift ''a'' 5, sample_drift ''b'' 10, sample_drift ''d'' 1, sample_drift ''e'' 7]" 1 1 86400010 2]
  by (simp add: sample_drift_def Let_def)

theorem cadence_earned_witness:
  "1000 \<le> sweepIntervalMsFor 1000 (cleanSweepStreak 2 ''c'' [sample_drift ''a'' 1, sample_drift ''b'' 2, sample_drift ''d'' 3])
    \<and> sweepIntervalMsFor 1000 (whole_streak ''c'' [sample_drift ''a'' 1, sample_drift ''b'' 2, sample_drift ''d'' 3]) \<le> 8000"
  using cadence_earned [of 1000 2 "''c''" "[sample_drift ''a'' 1, sample_drift ''b'' 2, sample_drift ''d'' 3]"] by simp

end
