(* ===== verification/Money.thy ===== *)
theory Money
  imports Complex_Main Prelude
begin

text \<open>
  Money in minor units (\<^verbatim>\<open>packages/shared-types/src/money.ts\<close>): the exponent of a currency, the decimal text of a vendor
  turned into an integer by moving the point, and the integer rendered back.  A \<^verbatim>\<open>bigint\<close> is an \<open>int\<close>.
\<close>

section \<open>Currencies\<close>

text \<open>\<^verbatim>\<open>toUpperCase\<close> on the code units up to \<open>255\<close>; the sharp s becomes two letters, and the two letters whose capital lies above stay.\<close>

definition upper_char :: "char \<Rightarrow> string" where
  "upper_char c = (let n = (of_char c :: nat) in
     if (97 \<le> n \<and> n \<le> 122) \<or> (224 \<le> n \<and> n \<le> 254 \<and> n \<noteq> 247) then [char_of (n - 32)]
     else if n = 223 then ''SS'' else [c])"

definition js_upper :: "string \<Rightarrow> string" where
  "js_upper s = concat (map upper_char s)"

definition is_capital :: "char \<Rightarrow> bool" where
  "is_capital c \<longleftrightarrow> 65 \<le> (of_char c :: nat) \<and> (of_char c :: nat) \<le> 90"

definition CURRENCY_CODE :: "string \<Rightarrow> bool" where
  "CURRENCY_CODE s \<longleftrightarrow> length s = 3 \<and> list_all is_capital s"

definition DEFAULT_MINOR_UNIT_EXPONENT :: nat where
  "DEFAULT_MINOR_UNIT_EXPONENT = 2"

definition MINOR_UNIT_EXPONENTS :: "(string \<times> nat) list" where
  "MINOR_UNIT_EXPONENTS =
     [(''BIF'', 0), (''CLP'', 0), (''DJF'', 0), (''GNF'', 0), (''ISK'', 0), (''JPY'', 0), (''KMF'', 0), (''KRW'', 0), (''PYG'', 0),
      (''RWF'', 0), (''UGX'', 0), (''UYI'', 0), (''VND'', 0), (''VUV'', 0), (''XAF'', 0), (''XOF'', 0), (''XPF'', 0),
      (''BHD'', 3), (''IQD'', 3), (''JOD'', 3), (''KWD'', 3), (''LYD'', 3), (''OMR'', 3), (''TND'', 3),
      (''CLF'', 4), (''UYW'', 4)]"

definition minorUnitExponent :: "string \<Rightarrow> nat option" where
  "minorUnitExponent currency =
     (let code = js_upper (js_trim currency) in
      if \<not> CURRENCY_CODE code then None
      else Some (case map_of MINOR_UNIT_EXPONENTS code of None \<Rightarrow> DEFAULT_MINOR_UNIT_EXPONENT | Some e \<Rightarrow> e))"

section \<open>Decimal text\<close>

definition take_sign :: "string \<Rightarrow> bool \<times> string" where
  "take_sign s = (case s of c # r \<Rightarrow> if c = CHR ''-'' then (True, r) else if c = CHR ''+'' then (False, r) else (False, s) | [] \<Rightarrow> (False, []))"

text \<open>The match of the pattern \<^verbatim>\<open>DECIMAL\<close>: the sign, the digits before the point and those after it.\<close>

definition DECIMAL :: "string \<Rightarrow> (bool \<times> string \<times> string) option" where
  "DECIMAL s =
     (case take_sign s of (negative, r) \<Rightarrow>
        let whole = takeWhile is_digit r; rest = dropWhile is_digit r in
        case rest of
          [] \<Rightarrow> Some (negative, whole, [])
        | c # fraction \<Rightarrow> if c = CHR ''.'' \<and> list_all is_digit fraction then Some (negative, whole, fraction) else None)"

definition padEnd :: "nat \<Rightarrow> string \<Rightarrow> string" where
  "padEnd n s = s @ replicate (n - length s) CHR ''0''"

definition padStart :: "nat \<Rightarrow> string \<Rightarrow> string" where
  "padStart n s = replicate (n - length s) CHR ''0'' @ s"

definition toMinorUnits :: "string \<Rightarrow> string \<Rightarrow> int option" where
  "toMinorUnits major currency =
     (case minorUnitExponent currency of
        None \<Rightarrow> None
      | Some exponent \<Rightarrow>
          (case DECIMAL (js_trim major) of
             None \<Rightarrow> None
           | Some (negative, whole, fraction) \<Rightarrow>
               if whole = [] \<and> fraction = [] then None
               else if exponent < length fraction \<and> \<not> list_all (\<lambda>c. c = CHR ''0'') (drop exponent fraction) then None
               else
                 let digits = (if exponent < length fraction then take exponent fraction else fraction);
                     value = int (nat_of_digits ((if whole = [] then ''0'' else whole) @ padEnd exponent digits))
                 in Some (if negative then - value else value)))"

text \<open>\<^verbatim>\<open>BigInt\<close> of a text: white space around it, the empty text as zero, a sign before decimal digits, or a prefix of another radix.\<close>

definition radix_digit :: "char \<Rightarrow> nat option" where
  "radix_digit c = (let n = (of_char c :: nat) in
     if 48 \<le> n \<and> n \<le> 57 then Some (n - 48) else if 65 \<le> n \<and> n \<le> 70 then Some (n - 55) else if 97 \<le> n \<and> n \<le> 102 then Some (n - 87) else None)"

definition radix_value :: "nat \<Rightarrow> string \<Rightarrow> int option" where
  "radix_value b s =
     (if s \<noteq> [] \<and> list_all (\<lambda>c. case radix_digit c of Some d \<Rightarrow> d < b | None \<Rightarrow> False) s
      then Some (int (foldl (\<lambda>a c. b * a + the (radix_digit c)) 0 s)) else None)"

definition big_int :: "string \<Rightarrow> int option" where
  "big_int text =
     (let s = js_trim text in
      if s = [] then Some 0
      else if take 2 s \<in> {''0x'', ''0X''} then radix_value 16 (drop 2 s)
      else if take 2 s \<in> {''0o'', ''0O''} then radix_value 8 (drop 2 s)
      else if take 2 s \<in> {''0b'', ''0B''} then radix_value 2 (drop 2 s)
      else (case take_sign s of (negative, r) \<Rightarrow> map_option (\<lambda>v. if negative then - v else v) (radix_value 10 r)))"

datatype minor_units = Bigint int | Decimal_text string

definition formatMinorUnits :: "minor_units \<Rightarrow> string \<Rightarrow> string option" where
  "formatMinorUnits minor currency =
     (case minorUnitExponent currency of
        None \<Rightarrow> None
      | Some exponent \<Rightarrow>
          (case (case minor of Bigint v \<Rightarrow> Some v | Decimal_text t \<Rightarrow> big_int (js_trim t)) of
             None \<Rightarrow> None
           | Some value \<Rightarrow>
               let negative = value < 0;
                   digits = padStart (exponent + 1) (show_nat (nat \<bar>value\<bar>));
                   sign = (if negative then ''-'' else []);
                   whole = take (length digits - exponent) digits;
                   fraction = drop (length digits - exponent) digits
               in if exponent = 0 then Some (sign @ digits) else Some (sign @ whole @ ''.'' @ fraction)))"

section \<open>Digits\<close>

lemma nat_of_digits_append: "nat_of_digits (s @ t) = nat_of_digits s * 10 ^ length t + nat_of_digits t"
proof (induction t rule: rev_induct)
  case (snoc c t)
  then have "nat_of_digits ((s @ t) @ [c]) = 10 * (nat_of_digits s * 10 ^ length t + nat_of_digits t) + digit_val c"
    by (simp only: nat_of_digits_snoc)
  then show ?case by (simp add: nat_of_digits_snoc)
qed (simp add: nat_of_digits_def)

lemma zeros_value [simp]: "nat_of_digits (replicate n CHR ''0'') = 0"
  by (induction n) (simp_all add: nat_of_digits_def digit_val_def)

lemma zeros_iff: "list_all (\<lambda>c. c = CHR ''0'') s \<longleftrightarrow> s = replicate (length s) CHR ''0''"
  by (induction s) auto

lemma digit_ranges [simp]: "\<not> is_digit CHR ''.''" "\<not> is_digit CHR ''-''" "\<not> is_digit CHR ''+''" "is_digit CHR ''0''"
  by (simp_all add: is_digit_def)

lemma digit_not_space: "is_digit c \<Longrightarrow> \<not> js_space c"
  by (auto simp: is_digit_def js_space_def Let_def)

lemma rendered_nonempty [simp]: "show_nat n \<noteq> []"
  by (simp add: show_nat.simps)

lemma trim_unchanged: "s \<noteq> [] \<Longrightarrow> \<not> js_space (hd s) \<Longrightarrow> \<not> js_space (last s) \<Longrightarrow> js_trim s = s"
proof -
  assume s: "s \<noteq> []" "\<not> js_space (hd s)" "\<not> js_space (last s)"
  have "dropWhile js_space t = t" if "t \<noteq> []" "\<not> js_space (hd t)" for t using that by (cases t) auto
  from this [of s] this [of "rev s"] s show ?thesis by (simp add: js_trim_def hd_rev)
qed

section \<open>The value of a decimal text\<close>

definition decimal_value :: "bool \<Rightarrow> string \<Rightarrow> string \<Rightarrow> rat" where
  "decimal_value negative whole fraction =
     (if negative then - 1 else 1) * (of_nat (nat_of_digits whole) + of_nat (nat_of_digits fraction) / 10 ^ length fraction)"

lemma shift_point:
  assumes "exponent < length fraction \<longrightarrow> list_all (\<lambda>c. c = CHR ''0'') (drop exponent fraction)"
  shows "(of_nat (nat_of_digits (whole @ padEnd exponent (if exponent < length fraction then take exponent fraction else fraction))) :: rat)
    = (of_nat (nat_of_digits whole) + of_nat (nat_of_digits fraction) / 10 ^ length fraction) * 10 ^ exponent"
proof (cases "exponent < length fraction")
  case True
  let ?a = "take exponent fraction" and ?k = "length fraction - exponent"
  have z: "drop exponent fraction = replicate ?k CHR ''0''" using assms True zeros_iff [of "drop exponent fraction"] by simp
  have "nat_of_digits fraction = nat_of_digits (?a @ drop exponent fraction)" by simp
  also have "\<dots> = nat_of_digits ?a * 10 ^ ?k" unfolding z by (simp only: nat_of_digits_append zeros_value length_replicate add_0_right)
  finally have f: "nat_of_digits fraction = nat_of_digits ?a * 10 ^ ?k" .
  have "length fraction = exponent + ?k" using True by simp
  then have p: "(10 :: rat) ^ length fraction = 10 ^ exponent * 10 ^ ?k" by (metis power_add)
  have "(of_nat (nat_of_digits fraction) :: rat) / 10 ^ length fraction * 10 ^ exponent = of_nat (nat_of_digits ?a)" unfolding f p by simp
  then show ?thesis using True by (simp add: padEnd_def nat_of_digits_append algebra_simps min_def)
next
  case False
  then obtain k where k: "exponent = length fraction + k" using le_Suc_ex not_less by metis
  have "nat_of_digits (whole @ padEnd exponent fraction) = (nat_of_digits whole * 10 ^ length fraction + nat_of_digits fraction) * 10 ^ k"
    by (simp add: padEnd_def k nat_of_digits_append algebra_simps power_add)
  then have "(of_nat (nat_of_digits (whole @ padEnd exponent fraction)) :: rat)
      = (of_nat (nat_of_digits whole) * 10 ^ length fraction + of_nat (nat_of_digits fraction)) * 10 ^ k" by simp
  also have "\<dots> = (of_nat (nat_of_digits whole) + of_nat (nat_of_digits fraction) / 10 ^ length fraction) * 10 ^ exponent"
    by (simp add: k power_add algebra_simps)
  finally show ?thesis using False by simp
qed

lemma leading_zero: "nat_of_digits ((if whole = [] then ''0'' else whole) @ t) = nat_of_digits (whole @ t)"
  by (simp add: nat_of_digits_append) (simp add: nat_of_digits_def digit_val_def)


lemma digits_bound: "list_all is_digit s \<Longrightarrow> nat_of_digits s < 10 ^ length s"
proof (induction s rule: rev_induct)
  case (snoc c s)
  then have "nat_of_digits s < 10 ^ length s" "digit_val c < 10" by (auto simp: digit_val_def is_digit_def)
  then show ?case by (simp add: nat_of_digits_snoc)
qed (simp add: nat_of_digits_def)

lemma digits_zero: "list_all is_digit s \<Longrightarrow> nat_of_digits s = 0 \<Longrightarrow> list_all (\<lambda>c. c = CHR ''0'') s"
proof (induction s rule: rev_induct)
  case (snoc c s)
  then have "digit_val c = 0" "is_digit c" by (auto simp: nat_of_digits_snoc)
  then have "(of_char c :: nat) = of_char CHR ''0''" by (simp add: digit_val_def is_digit_def)
  then have "c = CHR ''0''" by (simp only: of_char_eq_iff)
  with snoc show ?case by (simp add: nat_of_digits_snoc)
qed simp

lemma surplus_zero:
  assumes "list_all is_digit fraction" "exponent < length fraction"
    and "(of_nat (nat_of_digits fraction) :: rat) / 10 ^ length fraction * 10 ^ exponent = of_int n"
  shows "list_all (\<lambda>c. c = CHR ''0'') (drop exponent fraction)"
proof -
  let ?a = "nat_of_digits (take exponent fraction)" and ?d = "nat_of_digits (drop exponent fraction)" and ?k = "length fraction - exponent"
  have f: "nat_of_digits fraction = ?a * 10 ^ ?k + ?d"
    using nat_of_digits_append [of "take exponent fraction" "drop exponent fraction"] by simp
  have "length fraction = exponent + ?k" using assms(2) by simp
  then have p: "(10 :: rat) ^ length fraction = 10 ^ exponent * 10 ^ ?k" by (metis power_add)
  have "(of_nat (nat_of_digits fraction) :: rat) = of_int n * 10 ^ ?k" using assms(3) unfolding p by (simp add: field_simps)
  then have "(of_int (int (nat_of_digits fraction)) :: rat) = of_int (n * 10 ^ ?k)" by simp
  then have "int (nat_of_digits fraction) = n * 10 ^ ?k" by (simp only: of_int_eq_iff)
  then have "int ?d = (n - int ?a) * 10 ^ ?k" unfolding f by (simp add: algebra_simps)
  moreover have "?d < 10 ^ ?k" using digits_bound [of "drop exponent fraction"] assms(1) by (simp add: list_all_iff in_set_dropD)
  then have "int ?d < 10 ^ ?k" by (metis of_nat_less_iff of_nat_numeral of_nat_power)
  then have "int ?d mod 10 ^ ?k = int ?d" by simp
  ultimately have "?d = 0" by (metis mod_mult_self2_is_0 of_nat_eq_0_iff)
  with digits_zero [of "drop exponent fraction"] assms(1) show ?thesis by (simp add: list_all_iff in_set_dropD)
qed

lemma DECIMAL_digits: "DECIMAL s = Some (negative, whole, fraction) \<Longrightarrow> list_all is_digit whole \<and> list_all is_digit fraction"
  by (auto simp: DECIMAL_def Let_def list_all_iff dest: set_takeWhileD split: prod.splits list.splits if_splits)

text \<open>
  C28. A conversion is exact or refused: it answers \<open>v\<close> precisely when the text is a decimal with a digit in it, the currency is
  known, and the number the text denotes is exactly \<open>v\<close> minor units.  Nothing is rounded.
\<close>

theorem minor_units_exact:
  "toMinorUnits major currency = Some v \<longleftrightarrow>
     (\<exists>e negative whole fraction. minorUnitExponent currency = Some e \<and> DECIMAL (js_trim major) = Some (negative, whole, fraction)
        \<and> (whole \<noteq> [] \<or> fraction \<noteq> []) \<and> of_int v = decimal_value negative whole fraction * 10 ^ e)"
proof (cases "minorUnitExponent currency")
  case (Some e)
  show ?thesis
  proof (cases "DECIMAL (js_trim major)")
    case (Some m)
    obtain negative whole fraction where m: "m = (negative, whole, fraction)" by (cases m)
    let ?n = "nat_of_digits (whole @ padEnd e (if e < length fraction then take e fraction else fraction))"
    let ?fits = "e < length fraction \<longrightarrow> list_all (\<lambda>c. c = CHR ''0'') (drop e fraction)"
    have t: "toMinorUnits major currency = Some v \<longleftrightarrow> (whole \<noteq> [] \<or> fraction \<noteq> []) \<and> ?fits \<and> v = (if negative then - int ?n else int ?n)"
      using \<open>minorUnitExponent currency = Some e\<close> Some m by (auto simp: toMinorUnits_def Let_def leading_zero)
    have "of_int v = decimal_value negative whole fraction * 10 ^ e \<longleftrightarrow> v = (if negative then - int ?n else int ?n)" if ?fits
    proof -
      have "decimal_value negative whole fraction * 10 ^ e = of_int (if negative then - int ?n else int ?n)"
        using shift_point [OF that, of whole] by (simp add: decimal_value_def algebra_simps)
      then show ?thesis by (simp only: of_int_eq_iff)
    qed
    moreover have ?fits if v: "of_int v = decimal_value negative whole fraction * 10 ^ e"
    proof
      assume "e < length fraction"
      moreover have "(of_nat (nat_of_digits fraction) :: rat) / 10 ^ length fraction * 10 ^ e
          = of_int ((if negative then - v else v) - int (nat_of_digits whole) * 10 ^ e)"
        using v by (simp add: decimal_value_def algebra_simps)
      ultimately show "list_all (\<lambda>c. c = CHR ''0'') (drop e fraction)"
        using surplus_zero DECIMAL_digits Some m by blast
    qed
    ultimately show ?thesis using t \<open>minorUnitExponent currency = Some e\<close> Some m by auto
  qed (simp add: toMinorUnits_def Some)
qed (simp add: toMinorUnits_def)


theorem minor_units_exact_witness: "toMinorUnits ''12.50'' ''usd'' = Some 1250"
proof -
  have m: "minorUnitExponent ''usd'' = Some 2" "DECIMAL (js_trim ''12.50'') = Some (False, ''12'', ''50'')" by code_simp+
  have "nat_of_digits ''12'' = 12" "nat_of_digits ''50'' = 50" by code_simp+
  then have "(of_int 1250 :: rat) = decimal_value False ''12'' ''50'' * 10 ^ 2" by (simp add: decimal_value_def)
  with m show ?thesis unfolding minor_units_exact by blast
qed

section \<open>Rendering and reading back\<close>

lemma padStart_digits: "list_all is_digit s \<Longrightarrow> list_all is_digit (padStart n s)"
  by (auto simp: padStart_def list_all_iff)

lemma padStart_value: "nat_of_digits (padStart n s) = nat_of_digits s"
  by (simp add: padStart_def nat_of_digits_append)

lemma padStart_long: "n \<le> length (padStart n s)"
  by (simp add: padStart_def)

definition signed_text :: "bool \<Rightarrow> string \<Rightarrow> string" where
  "signed_text negative s = (if negative then CHR ''-'' # s else s)"

lemma takeWhile_digits: "list_all is_digit w \<Longrightarrow> takeWhile is_digit (w @ CHR ''.'' # f) = w \<and> dropWhile is_digit (w @ CHR ''.'' # f) = CHR ''.'' # f"
  by (simp add: list_all_iff)

lemma sign_of_digits: "list_all is_digit w \<Longrightarrow> w \<noteq> [] \<Longrightarrow> take_sign (signed_text negative (w @ r)) = (negative, w @ r)"
  by (cases w) (auto simp: take_sign_def signed_text_def)

lemma DECIMAL_point:
  "list_all is_digit w \<Longrightarrow> w \<noteq> [] \<Longrightarrow> list_all is_digit f \<Longrightarrow> DECIMAL (signed_text negative (w @ CHR ''.'' # f)) = Some (negative, w, f)"
  by (simp add: DECIMAL_def sign_of_digits takeWhile_digits Let_def)

lemma DECIMAL_whole: "list_all is_digit w \<Longrightarrow> w \<noteq> [] \<Longrightarrow> DECIMAL (signed_text negative w) = Some (negative, w, [])"
proof -
  assume w: "list_all is_digit w" "w \<noteq> []"
  have "takeWhile is_digit w = w" "dropWhile is_digit w = []" using w(1) by (simp_all add: takeWhile_eq_all_conv dropWhile_eq_Nil_conv list_all_iff)
  moreover have "take_sign (signed_text negative w) = (negative, w)" using sign_of_digits [OF w, of negative "[]"] by simp
  ultimately show ?thesis unfolding DECIMAL_def Let_def by (simp only: prod.case list.case)
qed

lemma signed_trim: "list_all is_digit w \<Longrightarrow> w \<noteq> [] \<Longrightarrow> is_digit (last (w @ r)) \<Longrightarrow> js_trim (signed_text negative (w @ r)) = signed_text negative (w @ r)"
  by (rule trim_unchanged) (cases w; auto simp: signed_text_def digit_not_space; simp add: js_space_def)+

lemma last_digit: "f \<noteq> [] \<Longrightarrow> list_all is_digit f \<Longrightarrow> is_digit (last (w @ c # f))"
  by (simp add: list_all_iff)

lemma reads_whole:
  assumes "minorUnitExponent currency = Some 0" "list_all is_digit w" "w \<noteq> []" "nat_of_digits w = nat \<bar>v\<bar>"
  shows "toMinorUnits (signed_text (v < 0) w) currency = Some v"
proof -
  have "is_digit (last (w @ []))" using assms(2,3) by (simp add: list_all_iff)
  from signed_trim [OF assms(2,3) this] have "js_trim (signed_text (v < 0) w) = signed_text (v < 0) w" by simp
  with DECIMAL_whole [OF assms(2,3), of "v < 0"] assms(1,3,4) show ?thesis
    by (simp add: toMinorUnits_def padEnd_def Let_def)
qed

lemma reads_point:
  assumes "minorUnitExponent currency = Some e" "list_all is_digit w" "w \<noteq> []" "list_all is_digit f" "length f = e" "e \<noteq> 0"
    and "nat_of_digits (w @ f) = nat \<bar>v\<bar>"
  shows "toMinorUnits (signed_text (v < 0) (w @ CHR ''.'' # f)) currency = Some v"
proof -
  have "f \<noteq> []" using assms(5,6) by auto
  from signed_trim [OF assms(2,3) last_digit [OF this assms(4)], of "v < 0"] DECIMAL_point [OF assms(2,3,4), of "v < 0"]
  have "DECIMAL (js_trim (signed_text (v < 0) (w @ CHR ''.'' # f))) = Some (v < 0, w, f)" by simp
  moreover have "padEnd e f = f" using assms(5) by (simp add: padEnd_def)
  ultimately show ?thesis using assms(1,3,5,7) by (simp add: toMinorUnits_def Let_def)
qed

lemma rendered:
  fixes v :: int
  assumes "minorUnitExponent currency = Some e"
  defines "d \<equiv> padStart (e + 1) (show_nat (nat \<bar>v\<bar>))"
  shows "formatMinorUnits (Bigint v) currency
    = Some (signed_text (v < 0) (if e = 0 then d else take (length d - e) d @ CHR ''.'' # drop (length d - e) d))"
  using assms by (simp add: formatMinorUnits_def Let_def signed_text_def)

text \<open>
  C29. What is rendered reads back as the same amount, for every amount and every currency the code knows; and only for those is
  anything rendered.
\<close>

theorem money_roundtrip:
  "(minorUnitExponent currency = None \<longrightarrow> formatMinorUnits (Bigint v) currency = None)
    \<and> (minorUnitExponent currency \<noteq> None \<longrightarrow>
        (\<exists>text. formatMinorUnits (Bigint v) currency = Some text \<and> toMinorUnits text currency = Some v))"
proof (cases "minorUnitExponent currency")
  case (Some e)
  let ?d = "padStart (e + 1) (show_nat (nat \<bar>v\<bar>))"
  let ?w = "take (length ?d - e) ?d" and ?f = "drop (length ?d - e) ?d"
  have dig: "list_all is_digit ?d" by (rule padStart_digits) (simp add: list_all_iff show_nat_digits)
  have len: "e + 1 \<le> length ?d" by (rule padStart_long)
  then have wf: "?w \<noteq> []" "length ?f = e" "?d \<noteq> []" by auto
  have wd: "list_all is_digit ?w" "list_all is_digit ?f" using dig by (auto simp: list_all_iff dest: in_set_takeD in_set_dropD)
  have val: "nat_of_digits ?d = nat \<bar>v\<bar>" by (simp add: padStart_value)
  have "toMinorUnits (signed_text (v < 0) ?d) currency = Some v" if "e = 0"
    using reads_whole [OF _ dig wf(3) val] Some that by simp
  moreover have "toMinorUnits (signed_text (v < 0) (?w @ CHR ''.'' # ?f)) currency = Some v" if "e \<noteq> 0"
  proof -
    have "nat_of_digits (?w @ ?f) = nat \<bar>v\<bar>" unfolding append_take_drop_id by (rule val)
    from reads_point [OF Some wd(1) wf(1) wd(2) wf(2) that this] show ?thesis .
  qed
  ultimately have "toMinorUnits (signed_text (v < 0) (if e = 0 then ?d else ?w @ CHR ''.'' # ?f)) currency = Some v" by simp
  with rendered [OF Some, of v] have "\<exists>text. formatMinorUnits (Bigint v) currency = Some text \<and> toMinorUnits text currency = Some v" by blast
  with Some show ?thesis by simp
qed (simp add: formatMinorUnits_def)

theorem money_roundtrip_witness:
  "\<exists>text. formatMinorUnits (Bigint (- 1500)) ''kwd'' = Some text \<and> toMinorUnits text ''kwd'' = Some (- 1500)"
proof -
  have "minorUnitExponent ''kwd'' \<noteq> None" by code_simp
  with money_roundtrip [of "''kwd''" "- 1500"] show ?thesis by blast
qed

end
