(* ===== verification/Erp_Landing.thy ===== *)
theory Erp_Landing
  imports Erp_Watermark Money
begin

text \<open>
  Where a page of vendor rows becomes rows of the box: \<^verbatim>\<open>services/erp-sync/land.ts\<close> and \<^verbatim>\<open>land-money.ts\<close>.  A landing is one
  transaction, so it is a function of the tables.  A row another transaction inserts meanwhile makes an insert fail, and with it
  the transaction; that is a failed landing of the callers.  The columns a landing writes are modelled, and one column the box
  owns of a company.  The provider catalogue, \<^verbatim>\<open>Date.parse\<close> and the identifiers of new rows are parameters.
\<close>

section \<open>Cells\<close>

definition finite_text :: "string \<Rightarrow> bool" where
  "finite_text s \<longleftrightarrow> s \<notin> {''NaN'', ''Infinity'', ''-Infinity''}"

definition str :: "vendor_row \<Rightarrow> string \<Rightarrow> string option" where
  "str row key =
     (case row key of
        Text v \<Rightarrow> (let trimmed = js_trim v in if trimmed = [] then None else Some trimmed)
      | Num s \<Rightarrow> if finite_text s then Some s else None
      | _ \<Rightarrow> None)"

definition date :: "(string \<Rightarrow> int option) \<Rightarrow> vendor_row \<Rightarrow> string \<Rightarrow> int option" where
  "date dp row key = (case str row key of None \<Rightarrow> None | Some raw \<Rightarrow> dp raw)"

text \<open>The pattern of \<^verbatim>\<open>land-money.ts\<close>: digits with an optional fraction, or a fraction alone.\<close>

definition plain_decimal :: "string \<Rightarrow> bool" where
  "plain_decimal s \<longleftrightarrow>
     (case take_sign s of (_, r) \<Rightarrow>
        let whole = takeWhile is_digit r; rest = dropWhile is_digit r in
        case rest of
          [] \<Rightarrow> whole \<noteq> []
        | c # fraction \<Rightarrow> c = CHR ''.'' \<and> fraction \<noteq> [] \<and> list_all is_digit fraction)"

definition decimal :: "vendor_row \<Rightarrow> string \<Rightarrow> string option" where
  "decimal row key = (case str row key of None \<Rightarrow> None | Some raw \<Rightarrow> if plain_decimal raw then Some raw else None)"

definition currency_of :: "vendor_row \<Rightarrow> string option" where
  "currency_of row =
     (case str row ''currency'' of
        None \<Rightarrow> None
      | Some raw \<Rightarrow> (let code = js_upper raw in if CURRENCY_CODE code then Some code else None))"

section \<open>The tables\<close>

datatype document_kind = INVOICE | BILL

datatype record_origin = LOCAL | EXTERNAL | LANDED

record vendor_document =
  vd_issuedAt :: "int option"
  vd_dueAt :: "int option"
  vd_counterpartyExternalId :: "string option"
  vd_companyId :: "string option"
  vd_amount :: "string option"
  vd_balance :: "string option"
  vd_currency :: "string option"
  vd_vendorStatus :: "string option"
  vd_vendorUpdatedAt :: "int option"
  vd_lastReadAt :: int

record erp_document =
  do_id :: string
  do_origin :: record_origin
  do_connectionId :: "string option"
  do_externalSystem :: "string option"
  do_externalId :: "string option"
  do_kind :: document_kind
  do_vendor :: vendor_document

record company =
  co_id :: string
  co_origin :: record_origin
  co_connectionId :: "string option"
  co_externalSystem :: "string option"
  co_externalId :: "string option"
  co_name :: string
  co_domain :: "string option"
  co_note :: "string option"

record contact =
  ct_id :: string
  ct_origin :: record_origin
  ct_connectionId :: "string option"
  ct_externalSystem :: "string option"
  ct_externalId :: "string option"
  ct_displayName :: string
  ct_givenName :: "string option"
  ct_familyName :: "string option"
  ct_userId :: string

record contact_email =
  em_contactId :: string
  em_address :: string
  em_addressLower :: string
  em_isPrimary :: bool

record pipeline =
  pl_id :: string
  pl_name :: string
  pl_connectionId :: "string option"
  pl_isDefault :: bool

datatype stage_kind = OPEN | WON | LOST

record stage =
  sg_id :: string
  sg_pipelineId :: string
  sg_externalKey :: "string option"
  sg_name :: string
  sg_sortOrder :: int
  sg_kind :: stage_kind

record vendor_deal =
  vl_title :: string
  vl_stageId :: string
  vl_pipelineId :: string
  vl_companyId :: "string option"
  vl_amountMinor :: "int option"
  vl_currency :: "string option"
  vl_closedAt :: "int option"

record deal =
  dl_id :: string
  dl_origin :: record_origin
  dl_connectionId :: "string option"
  dl_externalSystem :: "string option"
  dl_externalId :: "string option"
  dl_vendor :: vendor_deal

datatype activity_kind = CREATED | STAGE_CHANGE | SYNCED

record deal_activity =
  da_dealId :: string
  da_kind :: activity_kind
  da_summary :: string
  da_fromStageId :: "string option"
  da_toStageId :: "string option"
  da_origin :: record_origin
  da_externalSystem :: string

record landing_db =
  ld_owners :: "(string \<times> int) list"
  ld_documents :: "erp_document list"
  ld_companies :: "company list"
  ld_contacts :: "contact list"
  ld_emails :: "contact_email list"
  ld_links :: "(string \<times> string) list"
  ld_pipelines :: "pipeline list"
  ld_stages :: "stage list"
  ld_deals :: "deal list"
  ld_activities :: "deal_activity list"
  ld_minted :: nat

datatype track = Cloud | Rest | Lan | Mcp

record landing_env =
  le_dp :: "string \<Rightarrow> int option"
  le_displayName :: "string \<Rightarrow> string option"
  le_track :: "string \<Rightarrow> track option"
  le_uid :: "nat \<Rightarrow> string"

record landing_connection =
  lc_id :: string
  lc_provider :: string

datatype skip_reason = Not_landed | No_owner | Unidentified | Not_cloud

record land_outcome =
  lo_entity :: string
  lo_landed :: nat
  lo_skipped :: nat
  lo_reason :: "skip_reason option"

definition LANDED_ENTITIES :: "string list" where
  "LANDED_ENTITIES = [''company'', ''contact'', ''deal'']"

definition MONEY_ENTITIES :: "string list" where
  "MONEY_ENTITIES = [''invoice'', ''bill'']"

definition landsInCrm :: "string \<Rightarrow> bool" where
  "landsInCrm entity \<longleftrightarrow> entity \<in> set LANDED_ENTITIES"

definition landsMoney :: "string \<Rightarrow> bool" where
  "landsMoney entity \<longleftrightarrow> entity \<in> set MONEY_ENTITIES"

definition landsOnBox :: "string \<Rightarrow> bool" where
  "landsOnBox entity \<longleftrightarrow> landsInCrm entity \<or> landsMoney entity"

definition isCloudErpProvider :: "landing_env \<Rightarrow> string \<Rightarrow> bool" where
  "isCloudErpProvider env provider \<longleftrightarrow> le_track env provider = Some Cloud \<or> le_track env provider = Some Rest"

definition vendorLabel :: "landing_env \<Rightarrow> string \<Rightarrow> string" where
  "vendorLabel env provider = (case le_displayName env provider of None \<Rightarrow> provider | Some n \<Rightarrow> n)"

section \<open>The loop of a landing\<close>

text \<open>\<^verbatim>\<open>updateMany\<close> on the rows that match, and an insert when none does.\<close>

definition upsert_where :: "('r \<Rightarrow> bool) \<Rightarrow> ('r \<Rightarrow> 'r) \<Rightarrow> 'r \<Rightarrow> 'r list \<Rightarrow> 'r list" where
  "upsert_where p f new t = (if list_ex p t then map (\<lambda>r. if p r then f r else r) t else t @ [new])"

text \<open>The rows of a page in order: a value that is not an object or carries no identifier is skipped.\<close>

fun land_loop :: "string \<Rightarrow> (vendor_row \<Rightarrow> string \<Rightarrow> 's \<Rightarrow> 's) \<Rightarrow> vendor_row option list \<Rightarrow> nat \<Rightarrow> nat \<Rightarrow> 's \<Rightarrow> nat \<times> nat \<times> 's" where
  "land_loop idField f [] landed skipped s = (landed, skipped, s)"
| "land_loop idField f (raw # rows) landed skipped s =
     (case Option.bind raw (\<lambda>row. map_option (Pair row) (str row idField)) of
        None \<Rightarrow> land_loop idField f rows landed (skipped + 1) s
      | Some (row, externalId) \<Rightarrow> land_loop idField f rows (landed + 1) skipped (f row externalId s))"

definition land_reason :: "nat \<Rightarrow> skip_reason option" where
  "land_reason skipped = (if 0 < skipped then Some Unidentified else None)"

definition find_company :: "string \<Rightarrow> string option \<Rightarrow> landing_db \<Rightarrow> string option" where
  "find_company connId externalId db =
     (case externalId of
        None \<Rightarrow> None
      | Some x \<Rightarrow> map_option co_id (find (\<lambda>c. co_connectionId c = Some connId \<and> co_externalId c = Some x) (ld_companies db)))"

section \<open>Money\<close>

definition vendor_document_of :: "landing_env \<Rightarrow> landing_connection \<Rightarrow> string \<Rightarrow> int \<Rightarrow> landing_db \<Rightarrow> vendor_row \<Rightarrow> vendor_document" where
  "vendor_document_of env conn counterpartyField now db row =
     \<lparr>vd_issuedAt = date (le_dp env) row ''issued_at'', vd_dueAt = date (le_dp env) row ''due_at'',
      vd_counterpartyExternalId = str row counterpartyField, vd_companyId = find_company (lc_id conn) (str row counterpartyField) db,
      vd_amount = decimal row ''amount'', vd_balance = decimal row ''balance'', vd_currency = currency_of row,
      vd_vendorStatus = str row ''status'', vd_vendorUpdatedAt = date (le_dp env) row ''updated_at'', vd_lastReadAt = now\<rparr>"

definition land_document :: "landing_env \<Rightarrow> landing_connection \<Rightarrow> document_kind \<Rightarrow> string \<Rightarrow> int \<Rightarrow> vendor_row \<Rightarrow> string \<Rightarrow> landing_db \<Rightarrow> landing_db" where
  "land_document env conn kind counterpartyField now row externalId db =
     (let owned = vendor_document_of env conn counterpartyField now db row in
      db\<lparr>ld_documents := upsert_where (\<lambda>d. do_connectionId d = Some (lc_id conn) \<and> do_kind d = kind \<and> do_externalId d = Some externalId)
            (\<lambda>d. d\<lparr>do_vendor := owned\<rparr>)
            \<lparr>do_id = le_uid env (ld_minted db), do_origin = LANDED, do_connectionId = Some (lc_id conn), do_externalSystem = Some (lc_provider conn),
             do_externalId = Some externalId, do_kind = kind, do_vendor = owned\<rparr> (ld_documents db),
         ld_minted := ld_minted db + 1\<rparr>)"

definition landMoneyDocuments :: "landing_env \<Rightarrow> landing_connection \<Rightarrow> string \<Rightarrow> vendor_row option list \<Rightarrow> int \<Rightarrow> landing_db \<Rightarrow> land_outcome \<times> landing_db" where
  "landMoneyDocuments env conn entity rows now db =
     (if \<not> isCloudErpProvider env (lc_provider conn)
      then (\<lparr>lo_entity = entity, lo_landed = 0, lo_skipped = length rows, lo_reason = Some Not_cloud\<rparr>, db)
      else
        let kind = (if entity = ''invoice'' then INVOICE else BILL);
            idField = (if entity = ''invoice'' then ''invoice_id'' else ''bill_id'');
            counterpartyField = (if entity = ''invoice'' then ''customer_id'' else ''vendor_id'')
        in (case land_loop idField (land_document env conn kind counterpartyField now) rows 0 0 db of
              (landed, skipped, db') \<Rightarrow> (\<lparr>lo_entity = entity, lo_landed = landed, lo_skipped = skipped, lo_reason = land_reason skipped\<rparr>, db')))"

section \<open>Companies\<close>

definition first_some :: "'a option \<Rightarrow> 'a option \<Rightarrow> 'a \<Rightarrow> 'a" where
  "first_some a b d = (case a of Some x \<Rightarrow> x | None \<Rightarrow> (case b of Some x \<Rightarrow> x | None \<Rightarrow> d))"

definition land_company :: "landing_env \<Rightarrow> landing_connection \<Rightarrow> vendor_row \<Rightarrow> string \<Rightarrow> landing_db \<Rightarrow> landing_db" where
  "land_company env conn row externalId db =
     (let domain = str row ''domain'';
          name = first_some (str row ''name'') domain (vendorLabel env (lc_provider conn) @ '' '' @ externalId)
      in db\<lparr>ld_companies := upsert_where (\<lambda>c. co_connectionId c = Some (lc_id conn) \<and> co_externalId c = Some externalId)
               (\<lambda>c. c\<lparr>co_name := name, co_domain := domain\<rparr>)
               \<lparr>co_id = le_uid env (ld_minted db), co_origin = EXTERNAL, co_connectionId = Some (lc_id conn),
                co_externalSystem = Some (lc_provider conn), co_externalId = Some externalId, co_name = name, co_domain = domain, co_note = None\<rparr>
               (ld_companies db),
            ld_minted := ld_minted db + 1\<rparr>)"

definition landCompanies :: "landing_env \<Rightarrow> landing_connection \<Rightarrow> vendor_row option list \<Rightarrow> landing_db \<Rightarrow> land_outcome \<times> landing_db" where
  "landCompanies env conn rows db =
     (case land_loop ''company_id'' (land_company env conn) rows 0 0 db of
        (landed, skipped, db') \<Rightarrow> (\<lparr>lo_entity = ''company'', lo_landed = landed, lo_skipped = skipped, lo_reason = land_reason skipped\<rparr>, db'))"

section \<open>Contacts\<close>

definition ownerUserId :: "landing_db \<Rightarrow> string option" where
  "ownerUserId db = (case sort_key snd (ld_owners db) of [] \<Rightarrow> None | (u, _) # _ \<Rightarrow> Some u)"

definition landContactEmail :: "string \<Rightarrow> string option \<Rightarrow> landing_db \<Rightarrow> landing_db" where
  "landContactEmail contactId email db =
     (let kept = filter (\<lambda>e. em_contactId e \<noteq> contactId) (ld_emails db) in
      db\<lparr>ld_emails := (case email of
           None \<Rightarrow> kept
         | Some a \<Rightarrow> kept @ [\<lparr>em_contactId = contactId, em_address = a, em_addressLower = js_lower a, em_isPrimary = True\<rparr>])\<rparr>)"

definition linkContactToCompany :: "landing_connection \<Rightarrow> string \<Rightarrow> string option \<Rightarrow> landing_db \<Rightarrow> landing_db" where
  "linkContactToCompany conn contactId companyExternalId db =
     (case find_company (lc_id conn) companyExternalId db of
        None \<Rightarrow> db
      | Some company \<Rightarrow> if (company, contactId) \<in> set (ld_links db) then db else db\<lparr>ld_links := ld_links db @ [(company, contactId)]\<rparr>)"

definition contact_name :: "landing_env \<Rightarrow> landing_connection \<Rightarrow> vendor_row \<Rightarrow> string \<Rightarrow> string" where
  "contact_name env conn row externalId =
     (let parts = js_trim (join '' '' (List.map_filter id [str row ''first_name'', str row ''last_name''])) in
      if parts \<noteq> [] then parts
      else (case str row ''email'' of Some e \<Rightarrow> e | None \<Rightarrow> vendorLabel env (lc_provider conn) @ '' '' @ externalId))"

definition land_contact :: "landing_env \<Rightarrow> landing_connection \<Rightarrow> string \<Rightarrow> vendor_row \<Rightarrow> string \<Rightarrow> landing_db \<Rightarrow> landing_db" where
  "land_contact env conn userId row externalId db =
     (let mine = (\<lambda>c. ct_connectionId c = Some (lc_id conn) \<and> ct_externalId c = Some externalId);
          db' = db\<lparr>ld_contacts := upsert_where mine
               (\<lambda>c. c\<lparr>ct_displayName := contact_name env conn row externalId, ct_givenName := str row ''first_name'',
                      ct_familyName := str row ''last_name'', ct_userId := userId\<rparr>)
               \<lparr>ct_id = le_uid env (ld_minted db), ct_origin = EXTERNAL, ct_connectionId = Some (lc_id conn),
                ct_externalSystem = Some (lc_provider conn), ct_externalId = Some externalId, ct_displayName = contact_name env conn row externalId,
                ct_givenName = str row ''first_name'', ct_familyName = str row ''last_name'', ct_userId = userId\<rparr>
               (ld_contacts db),
            ld_minted := ld_minted db + 1\<rparr>
      in (case find mine (ld_contacts db') of
            None \<Rightarrow> db'
          | Some c \<Rightarrow> linkContactToCompany conn (ct_id c) (str row ''company_id'') (landContactEmail (ct_id c) (str row ''email'') db')))"

definition landContacts :: "landing_env \<Rightarrow> landing_connection \<Rightarrow> vendor_row option list \<Rightarrow> landing_db \<Rightarrow> land_outcome \<times> landing_db" where
  "landContacts env conn rows db =
     (case ownerUserId db of
        None \<Rightarrow> (\<lparr>lo_entity = ''contact'', lo_landed = 0, lo_skipped = length rows, lo_reason = Some No_owner\<rparr>, db)
      | Some userId \<Rightarrow>
          (case land_loop ''contact_id'' (land_contact env conn userId) rows 0 0 db of
             (landed, skipped, db') \<Rightarrow> (\<lparr>lo_entity = ''contact'', lo_landed = landed, lo_skipped = skipped, lo_reason = land_reason skipped\<rparr>, db')))"

section \<open>Deals\<close>

definition stageKindFor :: "string \<Rightarrow> stage_kind" where
  "stageKindFor externalKey =
     (let k = js_lower externalKey in if k = ''closedwon'' then WON else if k = ''closedlost'' then LOST else OPEN)"

definition syncedPipeline :: "landing_env \<Rightarrow> landing_connection \<Rightarrow> landing_db \<Rightarrow> string \<times> landing_db" where
  "syncedPipeline env conn db =
     (case find (\<lambda>p. pl_connectionId p = Some (lc_id conn)) (ld_pipelines db) of
        Some p \<Rightarrow> (pl_id p, db)
      | None \<Rightarrow>
          let i = le_uid env (ld_minted db) in
          (i, db\<lparr>ld_pipelines := ld_pipelines db @ [\<lparr>pl_id = i, pl_name = vendorLabel env (lc_provider conn), pl_connectionId = Some (lc_id conn), pl_isDefault = False\<rparr>],
                 ld_minted := ld_minted db + 1\<rparr>))"

definition next_sort_order :: "string \<Rightarrow> stage list \<Rightarrow> int" where
  "next_sort_order pipelineId stages =
     (let orders = map sg_sortOrder (filter (\<lambda>s. sg_pipelineId s = pipelineId) stages) in (if orders = [] then - 1 else Max (set orders)) + 1)"

definition syncedStage :: "landing_env \<Rightarrow> string \<Rightarrow> string \<Rightarrow> landing_db \<Rightarrow> string \<times> landing_db" where
  "syncedStage env pipelineId externalKey db =
     (case find (\<lambda>s. sg_pipelineId s = pipelineId \<and> sg_externalKey s = Some externalKey) (ld_stages db) of
        Some s \<Rightarrow> (sg_id s, db)
      | None \<Rightarrow>
          let i = le_uid env (ld_minted db) in
          (i, db\<lparr>ld_stages := ld_stages db @ [\<lparr>sg_id = i, sg_pipelineId = pipelineId, sg_externalKey = Some externalKey, sg_name = externalKey,
                    sg_sortOrder = next_sort_order pipelineId (ld_stages db), sg_kind = stageKindFor externalKey\<rparr>],
                 ld_minted := ld_minted db + 1\<rparr>))"

definition timelineEntryFor :: "landing_env \<Rightarrow> vendor_deal option \<Rightarrow> vendor_deal \<Rightarrow> landing_connection \<Rightarrow> string \<Rightarrow> string \<Rightarrow> deal_activity option" where
  "timelineEntryFor env before after conn vendorStageWord dealId =
     (let vendor = vendorLabel env (lc_provider conn);
          entry = (\<lambda>kind summary from to. \<lparr>da_dealId = dealId, da_kind = kind, da_summary = summary, da_fromStageId = from, da_toStageId = to,
                     da_origin = EXTERNAL, da_externalSystem = lc_provider conn\<rparr>)
      in (case before of
            None \<Rightarrow> Some (entry CREATED (''Landed from '' @ vendor) None None)
          | Some b \<Rightarrow>
              let changed = (if vl_title b \<noteq> vl_title after then [''name''] else [])
                    @ (if vl_amountMinor b \<noteq> vl_amountMinor after \<or> vl_currency b \<noteq> vl_currency after then [''amount''] else [])
                    @ (if vl_closedAt b \<noteq> vl_closedAt after then [''close date''] else [])
              in if vl_stageId b \<noteq> vl_stageId after
                 then (let moved = vendor @ '' moved this to '' @ vendorStageWord in
                       Some (entry STAGE_CHANGE (if changed = [] then moved else moved @ '' and changed '' @ join '', '' changed)
                         (Some (vl_stageId b)) (Some (vl_stageId after))))
                 else if changed = [] then None
                 else Some (entry SYNCED (vendor @ '' changed '' @ join '', '' changed) None None)))"

definition vendor_deal_of :: "landing_env \<Rightarrow> landing_connection \<Rightarrow> string \<Rightarrow> string \<Rightarrow> string \<Rightarrow> landing_db \<Rightarrow> vendor_row \<Rightarrow> string \<Rightarrow> vendor_deal" where
  "vendor_deal_of env conn externalKey stageId pipelineId db row externalId =
     (let currency = str row ''currency'';
          amountMinor = (case (currency, str row ''amount'') of (Some c, Some a) \<Rightarrow> toMinorUnits a c | _ \<Rightarrow> None)
      in \<lparr>vl_title = (case str row ''name'' of Some n \<Rightarrow> n | None \<Rightarrow> vendorLabel env (lc_provider conn) @ '' '' @ externalId),
          vl_stageId = stageId, vl_pipelineId = pipelineId, vl_companyId = find_company (lc_id conn) (str row ''company_id'') db,
          vl_amountMinor = amountMinor, vl_currency = (if amountMinor = None then None else currency),
          vl_closedAt = (if stageKindFor externalKey = OPEN then None else date (le_dp env) row ''closed_at'')\<rparr>)"

definition store_deal :: "landing_env \<Rightarrow> landing_connection \<Rightarrow> string \<Rightarrow> string \<Rightarrow> vendor_deal \<Rightarrow> landing_db \<Rightarrow> landing_db" where
  "store_deal env conn externalKey externalId owned db =
     (let mine = (\<lambda>d. dl_connectionId d = Some (lc_id conn) \<and> dl_externalId d = Some externalId);
          before = find mine (ld_deals db);
          newId = le_uid env (ld_minted db);
          dealId = (case before of Some b \<Rightarrow> dl_id b | None \<Rightarrow> newId)
      in db\<lparr>ld_deals := upsert_where mine (\<lambda>d. d\<lparr>dl_vendor := owned\<rparr>)
               \<lparr>dl_id = newId, dl_origin = EXTERNAL, dl_connectionId = Some (lc_id conn), dl_externalSystem = Some (lc_provider conn),
                dl_externalId = Some externalId, dl_vendor = owned\<rparr> (ld_deals db),
            ld_activities := ld_activities db
               @ (case timelineEntryFor env (map_option dl_vendor before) owned conn externalKey dealId of None \<Rightarrow> [] | Some a \<Rightarrow> [a]),
            ld_minted := ld_minted db + 1\<rparr>)"

text \<open>The state of the loop: the pipeline once it is known, and the tables.\<close>

definition land_deal :: "landing_env \<Rightarrow> landing_connection \<Rightarrow> vendor_row \<Rightarrow> string \<Rightarrow> string option \<times> landing_db \<Rightarrow> string option \<times> landing_db" where
  "land_deal env conn row externalId s =
     (case (case fst s of Some p \<Rightarrow> (p, snd s) | None \<Rightarrow> syncedPipeline env conn (snd s)) of (pipelineId, db1) \<Rightarrow>
        let externalKey = (case str row ''stage'' of Some k \<Rightarrow> k | None \<Rightarrow> ''unstaged'') in
        (case syncedStage env pipelineId externalKey db1 of (stageId, db2) \<Rightarrow>
           (Some pipelineId, store_deal env conn externalKey externalId (vendor_deal_of env conn externalKey stageId pipelineId db2 row externalId) db2)))"

definition landDeals :: "landing_env \<Rightarrow> landing_connection \<Rightarrow> vendor_row option list \<Rightarrow> landing_db \<Rightarrow> land_outcome \<times> landing_db" where
  "landDeals env conn rows db =
     (case land_loop ''deal_id'' (land_deal env conn) rows 0 0 (None, db) of
        (landed, skipped, _, db') \<Rightarrow> (\<lparr>lo_entity = ''deal'', lo_landed = landed, lo_skipped = skipped, lo_reason = land_reason skipped\<rparr>, db'))"

section \<open>A landing\<close>

definition landCanonicalRows :: "landing_env \<Rightarrow> landing_connection \<Rightarrow> string \<Rightarrow> vendor_row option list \<Rightarrow> int \<Rightarrow> landing_db \<Rightarrow> land_outcome \<times> landing_db" where
  "landCanonicalRows env conn entity rows now db =
     (if landsMoney entity then landMoneyDocuments env conn entity rows now db
      else if \<not> landsInCrm entity then (\<lparr>lo_entity = entity, lo_landed = 0, lo_skipped = length rows, lo_reason = Some Not_landed\<rparr>, db)
      else if entity = ''company'' then landCompanies env conn rows db
      else if entity = ''contact'' then landContacts env conn rows db
      else landDeals env conn rows db)"


section \<open>What a landing keeps\<close>

text \<open>The unique indexes: \<open>k\<close> gives the key of a row, when it has one.\<close>

definition one_per_key :: "('r \<Rightarrow> 'k option) \<Rightarrow> 'r list \<Rightarrow> bool" where
  "one_per_key k t \<longleftrightarrow> distinct (filter (\<lambda>x. x \<noteq> None) (map k t))"

definition external_key :: "string option \<Rightarrow> string option \<Rightarrow> (string \<times> string) option" where
  "external_key c x = (case (c, x) of (Some a, Some b) \<Rightarrow> Some (a, b) | _ \<Rightarrow> None)"

definition document_key :: "erp_document \<Rightarrow> ((string \<times> string) \<times> document_kind) option" where
  "document_key d = map_option (\<lambda>k. (k, do_kind d)) (external_key (do_connectionId d) (do_externalId d))"

definition company_key :: "company \<Rightarrow> (string \<times> string) option" where
  "company_key d = external_key (co_connectionId d) (co_externalId d)"

definition contact_key :: "contact \<Rightarrow> (string \<times> string) option" where
  "contact_key d = external_key (ct_connectionId d) (ct_externalId d)"

definition deal_key :: "deal \<Rightarrow> (string \<times> string) option" where
  "deal_key d = external_key (dl_connectionId d) (dl_externalId d)"

lemma external_key_iff: "external_key c x = Some (a, b) \<longleftrightarrow> c = Some a \<and> x = Some b"
  by (auto simp: external_key_def split: option.splits)

lemma document_key_iff: "document_key d = Some ((a, b), kind) \<longleftrightarrow> do_connectionId d = Some a \<and> do_kind d = kind \<and> do_externalId d = Some b"
  by (cases "external_key (do_connectionId d) (do_externalId d)") (auto simp: document_key_def external_key_def split: option.splits)

lemmas key_iffs = document_key_iff company_key_def contact_key_def deal_key_def external_key_iff

text \<open>What one table keeps: the rows of other connections, one row per key, and every key.\<close>

definition rows_kept :: "('r \<Rightarrow> string option) \<Rightarrow> ('r \<Rightarrow> 'k option) \<Rightarrow> string \<Rightarrow> 'r list \<Rightarrow> 'r list \<Rightarrow> bool" where
  "rows_kept conn k c t t' \<longleftrightarrow> filter (\<lambda>r. conn r \<noteq> Some c) t' = filter (\<lambda>r. conn r \<noteq> Some c) t
     \<and> (one_per_key k t \<longrightarrow> one_per_key k t') \<and> k ` set t \<subseteq> k ` set t'"

lemma rows_kept_refl: "rows_kept conn k c t t"
  by (simp add: rows_kept_def)

lemma rows_kept_trans: "rows_kept conn k c t u \<Longrightarrow> rows_kept conn k c u v \<Longrightarrow> rows_kept conn k c t v"
  by (auto simp: rows_kept_def)

lemma rows_kept_append: "conn r = Some c \<Longrightarrow> k r \<notin> k ` set t \<Longrightarrow> rows_kept conn k c t (t @ [r])"
  by (auto simp: rows_kept_def one_per_key_def)

lemma rows_kept_upsert:
  assumes "\<forall>r. p r \<longleftrightarrow> k r = Some x" "k new = Some x" "\<forall>r. k (f r) = k r" "\<forall>r. k r = Some x \<longrightarrow> conn r = Some c"
    and "\<forall>r. conn (f r) = conn r"
  shows "rows_kept conn k c t (upsert_where p f new t)"
proof (cases "list_ex p t")
  case True
  let ?t = "map (\<lambda>r. if p r then f r else r) t"
  have m: "map k ?t = map k t" using assms(3) by simp
  have "filter (\<lambda>r. conn r \<noteq> Some c) ?t = filter (\<lambda>r. conn r \<noteq> Some c) t"
    using assms(1,4,5) by (induction t) auto
  moreover from m have "k ` set ?t = k ` set t" by (metis list.set_map)
  moreover from m have "one_per_key k ?t = one_per_key k t" by (simp only: one_per_key_def)
  ultimately show ?thesis using True by (simp only: rows_kept_def upsert_where_def if_True simp_thms order_refl)
next
  case False
  then have "k new \<notin> k ` set t" using assms(1,2) by (auto simp: list_ex_iff)
  from rows_kept_append [of conn, OF _ this] assms(2,4) False show ?thesis by (simp add: upsert_where_def)
qed

lemma upsert_key: "\<forall>r. p r \<longleftrightarrow> k r = Some x \<Longrightarrow> k new = Some x \<Longrightarrow> \<forall>r. k (f r) = k r \<Longrightarrow> Some x \<in> k ` set (upsert_where p f new t)"
proof -
  assume p: "\<forall>r. p r \<longleftrightarrow> k r = Some x" and new: "k new = Some x" and f: "\<forall>r. k (f r) = k r"
  have "Some x \<in> k ` set (map (\<lambda>r. if p r then f r else r) t)" if r: "r \<in> set t" "p r" for r
  proof -
    have "f r \<in> set (map (\<lambda>r. if p r then f r else r) t)" using r by force
    moreover have "k (f r) = Some x" using p f r by simp
    ultimately show ?thesis by (metis imageI)
  qed
  with new show ?thesis by (auto simp: upsert_where_def list_ex_iff image_iff)
qed

definition kept :: "string \<Rightarrow> landing_db \<Rightarrow> landing_db \<Rightarrow> bool" where
  "kept c db db' \<longleftrightarrow> ld_owners db' = ld_owners db
     \<and> rows_kept do_connectionId document_key c (ld_documents db) (ld_documents db')
     \<and> rows_kept co_connectionId company_key c (ld_companies db) (ld_companies db')
     \<and> rows_kept ct_connectionId contact_key c (ld_contacts db) (ld_contacts db')
     \<and> rows_kept dl_connectionId deal_key c (ld_deals db) (ld_deals db')
     \<and> rows_kept pl_connectionId pl_connectionId c (ld_pipelines db) (ld_pipelines db')"

lemma tables_refl [simp]: "kept c db db"
  by (simp add: kept_def rows_kept_refl)

lemma tables_trans: "kept c a b \<Longrightarrow> kept c b d \<Longrightarrow> kept c a d"
  unfolding kept_def by (elim conjE, intro conjI) (erule (1) rows_kept_trans | simp)+

definition holds :: "landing_db \<Rightarrow> string \<Rightarrow> string \<Rightarrow> string \<Rightarrow> bool" where
  "holds db c entity x =
     (if entity = ''company'' then Some (c, x) \<in> company_key ` set (ld_companies db)
      else if entity = ''contact'' then Some (c, x) \<in> contact_key ` set (ld_contacts db)
      else if entity = ''deal'' then Some (c, x) \<in> deal_key ` set (ld_deals db)
      else Some ((c, x), if entity = ''invoice'' then INVOICE else BILL) \<in> document_key ` set (ld_documents db))"

lemma kept_keys:
  assumes "kept c db db'"
  shows "company_key ` set (ld_companies db) \<subseteq> company_key ` set (ld_companies db')"
    "contact_key ` set (ld_contacts db) \<subseteq> contact_key ` set (ld_contacts db')"
    "deal_key ` set (ld_deals db) \<subseteq> deal_key ` set (ld_deals db')"
    "document_key ` set (ld_documents db) \<subseteq> document_key ` set (ld_documents db')"
  using assms by (simp_all only: kept_def rows_kept_def)

lemma if_imp: "(if b then p else q) \<Longrightarrow> (p \<Longrightarrow> p') \<Longrightarrow> (q \<Longrightarrow> q') \<Longrightarrow> (if b then p' else q')"
  by (cases b) simp_all

lemma kept_holds: "kept c db db' \<Longrightarrow> holds db c' e x \<Longrightarrow> holds db' c' e x"
  unfolding holds_def by (erule kept_keys [THEN subsetD, rotated] if_imp | assumption)+

lemma document_key_vendor: "document_key (d\<lparr>do_vendor := v\<rparr>) = document_key d"
  by (simp add: document_key_def)

lemma kept_document: "kept (lc_id conn) db (land_document env conn kind cf now row x db)"
  unfolding kept_def land_document_def Let_def
  by (simp add: rows_kept_refl, rule rows_kept_upsert [where x = "((lc_id conn, x), kind)"], simp_all add: document_key_iff document_key_vendor)

lemma kept_company: "kept (lc_id conn) db (land_company env conn row x db)"
  unfolding kept_def land_company_def Let_def
  by (simp add: rows_kept_refl, rule rows_kept_upsert [where x = "(lc_id conn, x)"], simp_all add: key_iffs)

lemma kept_email: "kept c db (landContactEmail i e db)"
  by (simp add: kept_def landContactEmail_def Let_def rows_kept_refl)

lemma kept_link: "kept c db (linkContactToCompany conn i e db)"
  by (simp add: kept_def linkContactToCompany_def rows_kept_refl split: option.splits)

lemma kept_contact: "kept (lc_id conn) db (land_contact env conn u row x db)"
proof -
  let ?mine = "\<lambda>c. ct_connectionId c = Some (lc_id conn) \<and> ct_externalId c = Some x"
  have "kept (lc_id conn) db (db\<lparr>ld_contacts := upsert_where ?mine f new (ld_contacts db), ld_minted := n\<rparr>)"
    if "?mine new" "\<forall>c. ct_connectionId (f c) = ct_connectionId c \<and> ct_externalId (f c) = ct_externalId c" for f new n
    using that unfolding kept_def
    by (simp add: rows_kept_refl, intro rows_kept_upsert [where x = "(lc_id conn, x)"], simp_all add: key_iffs)
  then show ?thesis unfolding land_contact_def Let_def
    by (auto split: option.split intro!: tables_trans [OF _ tables_trans [OF kept_email kept_link]])
qed

lemma kept_pipeline: "syncedPipeline env conn db = (p, db') \<Longrightarrow> kept (lc_id conn) db db'"
proof (cases "find (\<lambda>p. pl_connectionId p = Some (lc_id conn)) (ld_pipelines db)")
  case None
  assume p: "syncedPipeline env conn db = (p, db')"
  from None have "Some (lc_id conn) \<notin> pl_connectionId ` set (ld_pipelines db)" by (auto simp: find_None_iff image_iff)
  with None p show ?thesis by (auto simp: syncedPipeline_def Let_def kept_def rows_kept_refl intro!: rows_kept_append)
qed (auto simp: syncedPipeline_def)

lemma kept_stage: "syncedStage env p k db = (i, db') \<Longrightarrow> kept c db db'"
  by (auto simp: kept_def syncedStage_def Let_def rows_kept_refl split: option.splits)

lemma kept_store_deal: "kept (lc_id conn) db (store_deal env conn k x owned db)"
  unfolding kept_def store_deal_def Let_def
  by (simp add: rows_kept_refl, rule rows_kept_upsert [where x = "(lc_id conn, x)"], simp_all add: key_iffs)

lemma kept_deal: "kept (lc_id conn) (snd s) (snd (land_deal env conn row x s))"
proof -
  obtain p db1 where p: "(case fst s of Some p \<Rightarrow> (p, snd s) | None \<Rightarrow> syncedPipeline env conn (snd s)) = (p, db1)" by fastforce
  then have "kept (lc_id conn) (snd s) db1" by (auto dest: kept_pipeline split: option.splits)
  moreover obtain i db2 where "syncedStage env p (case str row ''stage'' of Some k \<Rightarrow> k | None \<Rightarrow> ''unstaged'') db1 = (i, db2)" by fastforce
  moreover from kept_stage [OF this] have "kept (lc_id conn) db1 db2" .
  ultimately show ?thesis using p kept_store_deal by (auto simp: land_deal_def Let_def intro: tables_trans)
qed


lemma loop_counts: "(case land_loop idField f rows landed skipped s of (l, k, _) \<Rightarrow> l + k) = landed + skipped + length rows"
  by (induction idField f rows landed skipped s rule: land_loop.induct) (auto split: option.splits prod.splits)

lemma loop_kept:
  "(\<And>row x s. kept c (db s) (db (f row x s))) \<Longrightarrow> kept c (db s) (db (snd (snd (land_loop idField f rows landed skipped s))))"
proof (induction idField f rows landed skipped s rule: land_loop.induct)
  case (2 idField f raw rows landed skipped s)
  show ?case
  proof (cases "Option.bind raw (\<lambda>row. map_option (Pair row) (str row idField))")
    case None
    with 2(1) [OF None 2(3)] show ?thesis by simp
  next
    case (Some p)
    obtain row x where p: "p = (row, x)" by (cases p)
    from tables_trans [OF 2(3) 2(2) [OF Some p [symmetric] 2(3)]] Some p show ?thesis by simp
  qed
qed simp

lemma loop_reaches:
  assumes "\<And>row x s. kept c (db s) (db (f row x s))" "\<And>row x s. holds (db (f row x s)) c' e x"
  shows "Some row \<in> set rows \<Longrightarrow> str row idField = Some x \<Longrightarrow> holds (db (snd (snd (land_loop idField f rows landed skipped s)))) c' e x"
proof (induction rows arbitrary: landed skipped s)
  case (Cons raw rows)
  show ?case
  proof (cases "raw = Some row")
    case True
    then show ?thesis using Cons.prems(2) kept_holds [OF loop_kept [of c db f, OF assms(1)] assms(2)] by simp
  next
    case False
    with Cons show ?thesis by (auto split: option.split)
  qed
qed simp

text \<open>Whether rows of a dataset are kept at all.\<close>

definition lands :: "landing_env \<Rightarrow> landing_connection \<Rightarrow> string \<Rightarrow> landing_db \<Rightarrow> bool" where
  "lands env conn entity db \<longleftrightarrow> (if landsMoney entity then isCloudErpProvider env (lc_provider conn) else landsInCrm entity \<and> (entity = ''contact'' \<longrightarrow> ld_owners db \<noteq> []))"

definition id_field :: "string \<Rightarrow> string" where
  "id_field entity = entity @ ''_id''"

lemma document_landed:
  "Some ((lc_id conn, x), kind) \<in> document_key ` set (ld_documents (land_document env conn kind cf now row x db))"
  by (simp add: land_document_def Let_def, rule upsert_key) (simp_all add: document_key_iff document_key_vendor)

lemma holds_invoice: "holds (land_document env conn INVOICE cf now row x db) (lc_id conn) ''invoice'' x"
  using document_landed [of conn x INVOICE] by (simp add: holds_def)

lemma holds_bill: "holds (land_document env conn BILL cf now row x db) (lc_id conn) ''bill'' x"
  using document_landed [of conn x BILL] by (simp add: holds_def)

lemma holds_company: "holds (land_company env conn row x db) (lc_id conn) ''company'' x"
  by (simp add: holds_def land_company_def Let_def, rule upsert_key) (simp_all add: key_iffs)

lemma holds_deal: "holds (snd (land_deal env conn row x s)) (lc_id conn) ''deal'' x"
  by (simp add: holds_def land_deal_def store_deal_def Let_def split: prod.split, intro allI impI, rule upsert_key) (simp_all add: key_iffs)

lemma holds_contact: "holds (land_contact env conn u row x db) (lc_id conn) ''contact'' x"
proof -
  let ?mine = "\<lambda>c. ct_connectionId c = Some (lc_id conn) \<and> ct_externalId c = Some x"
  have "holds (db\<lparr>ld_contacts := upsert_where ?mine f new (ld_contacts db), ld_minted := n\<rparr>) (lc_id conn) ''contact'' x"
    if "?mine new" "\<forall>c. ct_connectionId (f c) = ct_connectionId c \<and> ct_externalId (f c) = ct_externalId c" for f new n
    using that by (simp add: holds_def, intro upsert_key) (simp_all add: key_iffs)
  then show ?thesis unfolding land_contact_def Let_def
    by (auto split: option.split intro!: kept_holds [OF tables_trans [OF kept_email kept_link]])
qed


lemma landing_kept: "kept (lc_id conn) db (snd (landCanonicalRows env conn entity rows now db))"
proof -
  note simple = loop_kept [where db = "\<lambda>x. x"]
  have "kept (lc_id conn) db (snd (landMoneyDocuments env conn entity rows now db))"
    using simple [of "lc_id conn" "land_document env conn kind cf now" for kind cf, OF kept_document] by (auto simp: landMoneyDocuments_def Let_def split: prod.split) (metis prod.sel(2))+
  moreover have "kept (lc_id conn) db (snd (landCompanies env conn rows db))"
    using simple [of "lc_id conn" "land_company env conn" db, OF kept_company] by (auto simp: landCompanies_def split: prod.split) (metis prod.sel(2))
  moreover have "kept (lc_id conn) db (snd (landContacts env conn rows db))"
    using simple [of "lc_id conn" "land_contact env conn u" db for u, OF kept_contact] by (auto simp: landContacts_def split: prod.split option.split) (metis prod.sel(2))
  moreover have "kept (lc_id conn) db (snd (landDeals env conn rows db))"
    using loop_kept [where db = snd, of "lc_id conn" "land_deal env conn" "(None, db)", OF kept_deal] by (auto simp: landDeals_def split: prod.split) (metis prod.sel(2))
  ultimately show ?thesis by (simp add: landCanonicalRows_def)
qed


lemma dataset_iffs: "landsMoney e \<longleftrightarrow> e = ''invoice'' \<or> e = ''bill''" "landsInCrm e \<longleftrightarrow> e = ''company'' \<or> e = ''contact'' \<or> e = ''deal''"
  by (simp_all add: landsMoney_def MONEY_ENTITIES_def landsInCrm_def LANDED_ENTITIES_def)

lemma landed_tables:
  "isCloudErpProvider env (lc_provider conn) \<Longrightarrow> snd (landCanonicalRows env conn ''invoice'' rows now db)
     = snd (snd (land_loop ''invoice_id'' (land_document env conn INVOICE ''customer_id'' now) rows 0 0 db))"
  "isCloudErpProvider env (lc_provider conn) \<Longrightarrow> snd (landCanonicalRows env conn ''bill'' rows now db)
     = snd (snd (land_loop ''bill_id'' (land_document env conn BILL ''vendor_id'' now) rows 0 0 db))"
  "snd (landCanonicalRows env conn ''company'' rows now db) = snd (snd (land_loop ''company_id'' (land_company env conn) rows 0 0 db))"
  "ownerUserId db = Some u \<Longrightarrow> snd (landCanonicalRows env conn ''contact'' rows now db)
     = snd (snd (land_loop ''contact_id'' (land_contact env conn u) rows 0 0 db))"
  "snd (landCanonicalRows env conn ''deal'' rows now db) = snd (snd (snd (land_loop ''deal_id'' (land_deal env conn) rows 0 0 (None, db))))"
  by (simp_all add: landCanonicalRows_def dataset_iffs landMoneyDocuments_def landCompanies_def landContacts_def landDeals_def case_prod_beta Let_def)

lemma owner_exists: "ld_owners db \<noteq> [] \<Longrightarrow> \<exists>u. ownerUserId db = Some u"
  by (cases "sort_key snd (ld_owners db)") (auto simp: ownerUserId_def sort_key_empty)

lemma landing_reaches:
  assumes "lands env conn entity db" "Some row \<in> set rows" "str row (id_field entity) = Some x"
  shows "holds (snd (landCanonicalRows env conn entity rows now db)) (lc_id conn) entity x"
proof -
  note reach = loop_reaches [where db = "\<lambda>x. x", OF _ _ assms(2)]
  consider "entity = ''invoice''" "isCloudErpProvider env (lc_provider conn)" | "entity = ''bill''" "isCloudErpProvider env (lc_provider conn)"
    | "entity = ''company''" | "entity = ''contact''" "ld_owners db \<noteq> []" | "entity = ''deal''"
    using assms(1) unfolding lands_def dataset_iffs by argo
  then show ?thesis
  proof cases
    case 1
    with assms(3) have "str row ''invoice_id'' = Some x" by (simp add: id_field_def)
    from reach [OF kept_document holds_invoice this] show ?thesis unfolding 1(1) landed_tables(1) [OF 1(2)] .
  next
    case 2
    with assms(3) have "str row ''bill_id'' = Some x" by (simp add: id_field_def)
    from reach [OF kept_document holds_bill this] show ?thesis unfolding 2(1) landed_tables(2) [OF 2(2)] .
  next
    case 3
    with assms(3) have "str row ''company_id'' = Some x" by (simp add: id_field_def)
    from reach [OF kept_company holds_company this] show ?thesis unfolding 3 landed_tables(3) .
  next
    case 4
    then obtain u where u: "ownerUserId db = Some u" using owner_exists by blast
    from 4 assms(3) have "str row ''contact_id'' = Some x" by (simp add: id_field_def)
    from reach [OF kept_contact holds_contact this] show ?thesis unfolding 4(1) landed_tables(4) [OF u] .
  next
    case 5
    with assms(3) have "str row ''deal_id'' = Some x" by (simp add: id_field_def)
    from loop_reaches [where db = snd, OF kept_deal holds_deal assms(2) this] show ?thesis unfolding 5 landed_tables(5) .
  qed
qed

section \<open>The landing as a service\<close>

text \<open>What the runner relies on of a landing: nothing held is lost, what is kept does not change, and a page that is kept is held.\<close>

locale page_store =
  fixes land :: "'c \<Rightarrow> string \<Rightarrow> 'row list \<Rightarrow> int \<Rightarrow> 'db \<Rightarrow> 'db"
    and has :: "'db \<Rightarrow> 'c \<Rightarrow> string \<Rightarrow> 'k \<Rightarrow> bool"
    and keeps :: "'db \<Rightarrow> 'c \<Rightarrow> string \<Rightarrow> bool"
    and key :: "string \<Rightarrow> 'row \<Rightarrow> 'k option"
  assumes has_mono: "has db c e x \<Longrightarrow> has (land c' e' rows t db) c e x"
    and keeps_stable: "keeps (land c' e' rows t db) c e \<longleftrightarrow> keeps db c e"
    and has_page: "keeps db c e \<Longrightarrow> row \<in> set rows \<Longrightarrow> key e row = Some x \<Longrightarrow> has (land c e rows t db) c e x"
begin

definition page_keys :: "string \<Rightarrow> 'row list \<Rightarrow> 'k set" where
  "page_keys e rows = {x. \<exists>row\<in>set rows. key e row = Some x}"

text \<open>A set of keys that is held up to a page is held once the page is landed.\<close>

lemma page_fills:
  assumes "keeps db c e" "\<forall>x\<in>K. has db c e x \<or> x \<in> page_keys e rows"
  shows "\<forall>x\<in>K. has (land c e rows t db) c e x"
  using assms has_mono has_page unfolding page_keys_def by blast

end

definition row_key :: "string \<Rightarrow> vendor_row option \<Rightarrow> string option" where
  "row_key e raw = Option.bind raw (\<lambda>row. str row (id_field e))"

interpretation ps: page_store
  "\<lambda>conn e rows t db. snd (landCanonicalRows env conn e rows t db)" "\<lambda>db conn e x. holds db (lc_id conn) e x" "\<lambda>db conn e. lands env conn e db" row_key
  for env
proof
  fix db and c c' :: landing_connection and e x e' rows t
  have k: "kept (lc_id c') db (snd (landCanonicalRows env c' e' rows t db))" by (rule landing_kept)
  show "holds (snd (landCanonicalRows env c' e' rows t db)) (lc_id c) e x" if "holds db (lc_id c) e x" by (rule kept_holds [OF k that])
  have "ld_owners (snd (landCanonicalRows env c' e' rows t db)) = ld_owners db" using k by (simp add: kept_def)
  then show "lands env c e (snd (landCanonicalRows env c' e' rows t db)) \<longleftrightarrow> lands env c e db" by (simp add: lands_def)
next
  fix db and c :: landing_connection and e row rows x t
  assume l: "lands env c e db" and r: "row \<in> set rows" "row_key e row = Some x"
  then obtain v where "row = Some v" "str v (id_field e) = Some x" by (cases row) (auto simp: row_key_def)
  with landing_reaches [OF l, of v rows x t] r(1) show "holds (snd (landCanonicalRows env c e rows t db)) (lc_id c) e x" by simp
qed

lemma counts_of_loop: "land_loop idField f rows 0 0 s = (l, k, s') \<Longrightarrow> l + k = length rows"
  using loop_counts [of idField f rows 0 0 s] by simp

lemma landing_counts:
  assumes "landCanonicalRows env conn entity rows now db = (outcome, db')"
  shows "lo_landed outcome + lo_skipped outcome = length rows"
proof -
  have "lo_landed r + lo_skipped r = length rows" if "landMoneyDocuments env conn entity rows now db = (r, d)" for r d
    using that by (auto simp: landMoneyDocuments_def Let_def counts_of_loop split: if_split_asm prod.split_asm)
  moreover have "lo_landed r + lo_skipped r = length rows" if "landCompanies env conn rows db = (r, d)" for r d
    using that by (auto simp: landCompanies_def counts_of_loop split: prod.split_asm)
  moreover have "lo_landed r + lo_skipped r = length rows" if "landContacts env conn rows db = (r, d)" for r d
    using that by (auto simp: landContacts_def counts_of_loop split: option.split_asm prod.split_asm)
  moreover have "lo_landed r + lo_skipped r = length rows" if "landDeals env conn rows db = (r, d)" for r d
    using that by (auto simp: landDeals_def counts_of_loop split: prod.split_asm)
  ultimately show ?thesis using assms by (auto simp: landCanonicalRows_def split: if_split_asm)
qed

definition keys_unique :: "landing_db \<Rightarrow> bool" where
  "keys_unique db \<longleftrightarrow> one_per_key document_key (ld_documents db) \<and> one_per_key company_key (ld_companies db)
     \<and> one_per_key contact_key (ld_contacts db) \<and> one_per_key deal_key (ld_deals db) \<and> one_per_key pl_connectionId (ld_pipelines db)"

text \<open>The rows that do not belong to a connection.\<close>

definition foreign :: "string \<Rightarrow> landing_db \<Rightarrow> erp_document list \<times> company list \<times> contact list \<times> deal list \<times> pipeline list" where
  "foreign c db = (filter (\<lambda>d. do_connectionId d \<noteq> Some c) (ld_documents db), filter (\<lambda>d. co_connectionId d \<noteq> Some c) (ld_companies db),
     filter (\<lambda>d. ct_connectionId d \<noteq> Some c) (ld_contacts db), filter (\<lambda>d. dl_connectionId d \<noteq> Some c) (ld_deals db),
     filter (\<lambda>d. pl_connectionId d \<noteq> Some c) (ld_pipelines db))"



section \<open>Witness\<close>

definition sample_landing :: landing_env where
  "sample_landing = \<lparr>le_dp = (\<lambda>_. None), le_displayName = (\<lambda>_. None), le_track = (\<lambda>_. Some Cloud), le_uid = show_nat\<rparr>"

definition empty_tables :: landing_db where
  "empty_tables = \<lparr>ld_owners = [(''u'', 0)], ld_documents = [], ld_companies = [], ld_contacts = [], ld_emails = [], ld_links = [], ld_pipelines = [],
     ld_stages = [], ld_deals = [], ld_activities = [], ld_minted = 0\<rparr>"

definition sample_row :: "string \<Rightarrow> vendor_row" where
  "sample_row i = (\<lambda>k. if k = ''invoice_id'' then Text i else if k = ''updated_at'' then Text ''2024-01-02'' else Undefined)"

lemma sample_str: "str (sample_row ''i-1'') ''invoice_id'' = Some ''i-1''"
  by code_simp


end
