(* ===== verification/Erp_Cursor.thy ===== *)
theory Erp_Cursor
  imports Sync_Policy Erp_Landing
begin

text \<open>
  The cursors of the connector sync (\<^verbatim>\<open>services/erp-sync/cursor.service.ts\<close>) and the datasets they track (\<^verbatim>\<open>entities.ts\<close>):
  claiming, registering, resetting and the two releases, as operations on the tables of connections and cursors.  The redacted text of
  an error is a parameter.  The sync never deletes a cursor, so an update by identifier finds its row.
\<close>

section \<open>Datasets\<close>

record sync_entity =
  se_entity :: string
  se_readQuery :: string
  se_sourceKeyField :: string
  se_markerField :: string
  se_updatedAtField :: string
  se_openToUndeclaredTracks :: bool

definition entity_spec :: "string \<Rightarrow> string \<Rightarrow> string \<Rightarrow> string \<Rightarrow> bool \<Rightarrow> sync_entity" where
  "entity_spec e q k m opened = \<lparr>se_entity = e, se_readQuery = q, se_sourceKeyField = k, se_markerField = m, se_updatedAtField = ''updated_at'', se_openToUndeclaredTracks = opened\<rparr>"

definition ERP_SYNC_ENTITIES :: "sync_entity list" where
  "ERP_SYNC_ENTITIES =
     [entity_spec ''invoice'' ''get_open_invoices'' ''invoice_id'' ''issued_at'' True,
      entity_spec ''bill'' ''get_open_bills'' ''bill_id'' ''issued_at'' True,
      entity_spec ''contact'' ''find_contact'' ''contact_id'' ''created_at'' False,
      entity_spec ''company'' ''get_company'' ''company_id'' ''created_at'' False,
      entity_spec ''deal'' ''get_deals_by_stage'' ''deal_id'' ''created_at'' False,
      entity_spec ''ticket'' ''get_tickets_by_status'' ''ticket_id'' ''created_at'' False,
      entity_spec ''engagement'' ''get_engagements'' ''engagement_id'' ''occurred_at'' False,
      entity_spec ''audience_member'' ''get_audience_members'' ''audience_member_id'' ''updated_at'' False,
      entity_spec ''campaign'' ''get_campaign_performance'' ''campaign_id'' ''sent_at'' False,
      entity_spec ''ecommerce_order'' ''get_ecommerce_orders'' ''ecommerce_order_id'' ''processed_at'' False,
      entity_spec ''order'' ''get_recent_orders'' ''order_id'' ''created_at'' False,
      entity_spec ''product'' ''get_low_stock_products'' ''product_id'' ''created_at'' False,
      entity_spec ''customer'' ''find_customer'' ''customer_id'' ''created_at'' False,
      entity_spec ''booking'' ''get_bookings'' ''booking_id'' ''starts_at'' False,
      entity_spec ''employee'' ''find_employee'' ''employee_id'' ''last_name'' False,
      entity_spec ''task'' ''get_tasks_by_status'' ''task_id'' ''created_at'' False]"

definition erpSyncEntity :: "string \<Rightarrow> sync_entity option" where
  "erpSyncEntity entity = find (\<lambda>s. se_entity s = entity) ERP_SYNC_ENTITIES"

section \<open>The tables\<close>

datatype connection_status = NOT_CONFIGURED | PROVISIONING | CONNECTED | CAPABILITY_LIMITED | DEGRADED | DISABLED | DRIFT_LOCKED | ERROR

record sync_connection =
  cn_id :: string
  cn_provider :: string
  cn_status :: connection_status
  cn_lastHealthyAt :: "int option"

datatype cursor_state = IDLE | SYNCING | BACKOFF | RESYNC_REQUIRED | FAILED

record erp_cursor =
  ec_id :: string
  ec_connectionId :: string
  ec_entity :: string
  ec_watermark :: "string option"
  ec_state :: cursor_state
  ec_consecutiveFailures :: nat
  ec_nextAttemptAt :: "int option"
  ec_lastSyncedAt :: "int option"
  ec_lastSweepAt :: "int option"
  ec_needsReconnect :: bool
  ec_lastError :: "string option"

definition CLAIMABLE_ERP_SYNC_STATES :: "cursor_state list" where
  "CLAIMABLE_ERP_SYNC_STATES = [IDLE, BACKOFF, RESYNC_REQUIRED]"

definition POLLABLE_CONNECTION_STATUSES :: "connection_status list" where
  "POLLABLE_CONNECTION_STATUSES = [CONNECTED, CAPABILITY_LIMITED, DEGRADED]"

section \<open>Claiming\<close>

text \<open>The lookup of a provider's floor and the digest of a text are parameters; a box has an identity or none.\<close>

record claim_options =
  cl_deviceId :: "string option"
  cl_pollFloorMsFor :: "string \<Rightarrow> int option"
  cl_digest48 :: "string \<Rightarrow> nat"

definition pollFloorElapsed :: "erp_cursor \<Rightarrow> string option \<Rightarrow> int \<Rightarrow> claim_options \<Rightarrow> bool" where
  "pollFloorElapsed cursor provider now opts =
     (case provider of
        None \<Rightarrow> True
      | Some p \<Rightarrow>
          if p = [] then True
          else (case ec_lastSyncedAt cursor of
              None \<Rightarrow> True
            | Some synced \<Rightarrow>
                (case cl_pollFloorMsFor opts p of
                   None \<Rightarrow> True
                 | Some gap \<Rightarrow>
                     if gap \<le> 0 then True
                     else
                       let period = (case cl_deviceId opts of
                             None \<Rightarrow> gap
                           | Some d \<Rightarrow> if d = [] then gap else jitteredPeriodMs (cl_digest48 opts) gap (d @ '':'' @ p))
                       in period \<le> now - synced)))"

definition claim_candidates :: "nat \<Rightarrow> int \<Rightarrow> sync_connection list \<Rightarrow> erp_cursor list \<Rightarrow> erp_cursor list" where
  "claim_candidates limit now conns cursors =
     (let pollable = map cn_id (filter (\<lambda>c. cn_status c \<in> set POLLABLE_CONNECTION_STATUSES) conns) in
      take limit (filter (\<lambda>r. ec_connectionId r \<in> set pollable \<and> ec_state r \<in> set CLAIMABLE_ERP_SYNC_STATES
        \<and> (case ec_nextAttemptAt r of None \<Rightarrow> True | Some t \<Rightarrow> t \<le> now)) cursors))"

text \<open>The conditional update: it answers whether a row was taken.\<close>

definition try_claim :: "string \<Rightarrow> erp_cursor list \<Rightarrow> bool \<times> erp_cursor list" where
  "try_claim i cursors =
     (let mine = (\<lambda>r. ec_id r = i \<and> ec_state r \<in> set CLAIMABLE_ERP_SYNC_STATES) in
      (length (filter mine cursors) = 1, map (\<lambda>r. if mine r then r\<lparr>ec_state := SYNCING\<rparr> else r) cursors))"

fun claim_loop :: "(erp_cursor \<Rightarrow> bool) \<Rightarrow> erp_cursor list \<Rightarrow> erp_cursor list \<Rightarrow> erp_cursor list \<times> erp_cursor list" where
  "claim_loop elapsed [] cursors = ([], cursors)"
| "claim_loop elapsed (snap # snaps) cursors =
     (if \<not> elapsed snap then claim_loop elapsed snaps cursors
      else (case try_claim (ec_id snap) cursors of (taken, cursors') \<Rightarrow>
        (case claim_loop elapsed snaps cursors' of (claimed, cursors'') \<Rightarrow> (if taken then snap # claimed else claimed, cursors''))))"

definition provider_of :: "sync_connection list \<Rightarrow> string \<Rightarrow> string option" where
  "provider_of conns i = map_option cn_provider (find (\<lambda>c. cn_id c = i \<and> cn_status c \<in> set POLLABLE_CONNECTION_STATUSES) conns)"

definition claimDueErpCursors :: "nat \<Rightarrow> int \<Rightarrow> claim_options \<Rightarrow> sync_connection list \<Rightarrow> erp_cursor list \<Rightarrow> erp_cursor list \<times> erp_cursor list" where
  "claimDueErpCursors limit now opts conns cursors =
     claim_loop (\<lambda>snap. pollFloorElapsed snap (provider_of conns (ec_connectionId snap)) now opts) (claim_candidates limit now conns cursors) cursors"

section \<open>Registering and resetting\<close>

definition unstarted :: "erp_cursor \<Rightarrow> erp_cursor" where
  "unstarted r = r\<lparr>ec_watermark := None, ec_state := IDLE, ec_consecutiveFailures := 0, ec_nextAttemptAt := None, ec_lastSyncedAt := None,
     ec_lastSweepAt := None, ec_needsReconnect := False, ec_lastError := None\<rparr>"

definition upsertErpCursor :: "string \<Rightarrow> string \<Rightarrow> string \<Rightarrow> erp_cursor list \<Rightarrow> erp_cursor list" where
  "upsertErpCursor newId connectionId entity cursors =
     (if list_ex (\<lambda>r. ec_connectionId r = connectionId \<and> ec_entity r = entity) cursors then cursors
      else cursors @ [\<lparr>ec_id = newId, ec_connectionId = connectionId, ec_entity = entity, ec_watermark = None, ec_state = IDLE,
        ec_consecutiveFailures = 0, ec_nextAttemptAt = None, ec_lastSyncedAt = None, ec_lastSweepAt = None, ec_needsReconnect = False, ec_lastError = None\<rparr>])"

definition resetCursorsForConnection :: "string \<Rightarrow> erp_cursor list \<Rightarrow> nat \<times> erp_cursor list" where
  "resetCursorsForConnection connectionId cursors =
     (length (filter (\<lambda>r. ec_connectionId r = connectionId) cursors), map (\<lambda>r. if ec_connectionId r = connectionId then unstarted r else r) cursors)"

section \<open>Releasing\<close>

definition update_cursor :: "string \<Rightarrow> (erp_cursor \<Rightarrow> erp_cursor) \<Rightarrow> erp_cursor list \<Rightarrow> erp_cursor list" where
  "update_cursor i f cursors = map (\<lambda>r. if ec_id r = i then f r else r) cursors"

definition released :: "string option \<Rightarrow> int \<Rightarrow> int option \<Rightarrow> erp_cursor \<Rightarrow> erp_cursor" where
  "released watermark now sweptAt r =
     (let r' = r\<lparr>ec_watermark := watermark, ec_state := IDLE, ec_consecutiveFailures := 0, ec_nextAttemptAt := None, ec_lastSyncedAt := Some now,
        ec_needsReconnect := False, ec_lastError := None\<rparr>
      in (case sweptAt of None \<Rightarrow> r' | Some t \<Rightarrow> r'\<lparr>ec_lastSweepAt := Some t\<rparr>))"

definition releaseErpCursorSuccess :: "string \<Rightarrow> string option \<Rightarrow> int \<Rightarrow> int option \<Rightarrow> erp_cursor list \<Rightarrow> erp_cursor list" where
  "releaseErpCursorSuccess i watermark now sweptAt = update_cursor i (released watermark now sweptAt)"

text \<open>The failure as the release sees it: what the policy classifies, the text for the operator and the header.\<close>

record cursor_failure =
  cf_failure :: sync_failure
  cf_text :: string
  cf_retryAfter :: "string option"

record release_env =
  re_dp :: "string \<Rightarrow> int option"
  re_random :: rat

definition releaseErpCursorFailure :: "release_env \<Rightarrow> string \<Rightarrow> nat \<Rightarrow> cursor_failure \<Rightarrow> int \<Rightarrow> erp_cursor list \<Rightarrow> cursor_state \<times> erp_cursor list" where
  "releaseErpCursorFailure env i consecutiveFailures err now cursors =
     (let kind = classifySyncFailure (cf_failure err); failures = consecutiveFailures + 1 in
      if kind = RESYNC then
        (RESYNC_REQUIRED, update_cursor i (\<lambda>r. r\<lparr>ec_state := RESYNC_REQUIRED, ec_watermark := None, ec_consecutiveFailures := 0, ec_nextAttemptAt := None,
           ec_needsReconnect := False, ec_lastError := None\<rparr>) cursors)
      else if kind = FATAL then
        (FAILED, update_cursor i (\<lambda>r. r\<lparr>ec_state := FAILED, ec_consecutiveFailures := failures, ec_nextAttemptAt := None, ec_needsReconnect := False,
           ec_lastError := Some (cf_text err)\<rparr>) cursors)
      else
        let waitMs = computeBackoffMs failures (parseRetryAfter (re_dp env) (cf_retryAfter err) now) (re_random env) in
        (BACKOFF, update_cursor i (\<lambda>r. r\<lparr>ec_state := BACKOFF, ec_consecutiveFailures := failures, ec_nextAttemptAt := Some (now + waitMs),
           ec_needsReconnect := (kind = AUTH), ec_lastError := Some (cf_text err)\<rparr>) cursors))"


section \<open>Exclusive claims\<close>

definition claimable :: "erp_cursor \<Rightarrow> bool" where
  "claimable r \<longleftrightarrow> ec_state r \<in> set CLAIMABLE_ERP_SYNC_STATES"

definition take_rows :: "string set \<Rightarrow> erp_cursor list \<Rightarrow> erp_cursor list" where
  "take_rows ids cursors = map (\<lambda>r. if ec_id r \<in> ids then r\<lparr>ec_state := SYNCING\<rparr> else r) cursors"

lemma take_rows_ids: "map ec_id (take_rows ids cursors) = map ec_id cursors"
  by (simp add: take_rows_def)

lemma one_match: "distinct (map g xs) \<Longrightarrow> x \<in> set xs \<Longrightarrow> P x \<Longrightarrow> length (filter (\<lambda>r. g r = g x \<and> P r) xs) = 1"
proof (induction xs)
  case (Cons y xs)
  show ?case
  proof (cases "y = x")
    case True
    have "\<not> (g r = g x \<and> P r)" if "r \<in> set xs" for r using Cons.prems(1) that True by (auto simp: image_iff)
    then have "filter (\<lambda>r. g r = g x \<and> P r) xs = []" by (simp add: filter_empty_conv)
    with True Cons.prems show ?thesis by simp
  next
    case False
    then have "x \<in> set xs" using Cons.prems by simp
    moreover from this have "g y \<noteq> g x" using Cons.prems(1) by (auto simp: image_iff)
    ultimately show ?thesis using Cons by simp
  qed
qed simp

lemma try_claim_taken:
  assumes "distinct (map ec_id cursors)" "r \<in> set cursors" "claimable r"
  shows "try_claim (ec_id r) cursors = (True, take_rows {ec_id r} cursors)"
proof -
  have same: "q = r" if "q \<in> set cursors" "ec_id q = ec_id r" for q
    using assms(1,2) that by (auto simp: distinct_map dest: inj_onD)
  have "length (filter (\<lambda>q. ec_id q = ec_id r \<and> claimable q) cursors) = 1" using one_match [of ec_id cursors r claimable] assms by simp
  moreover have "map (\<lambda>q. if ec_id q = ec_id r \<and> claimable q then q\<lparr>ec_state := SYNCING\<rparr> else q) cursors = take_rows {ec_id r} cursors"
    using assms(3) same by (auto simp: take_rows_def)
  ultimately show ?thesis by (simp add: try_claim_def Let_def claimable_def)
qed

lemma claim_loop_exact:
  assumes "distinct (map ec_id cursors)" "distinct (map ec_id snaps)" "\<forall>s\<in>set snaps. s \<in> set cursors \<and> claimable s"
  shows "claim_loop elapsed snaps cursors = (filter elapsed snaps, take_rows (ec_id ` set (filter elapsed snaps)) cursors)"
  using assms
proof (induction elapsed snaps cursors rule: claim_loop.induct)
  case (1 elapsed cursors)
  then show ?case by (simp add: take_rows_def map_idI)
next
  case (2 elapsed snap snaps cursors)
  show ?case
  proof (cases "elapsed snap")
    case True
    let ?c = "take_rows {ec_id snap} cursors"
    have t: "try_claim (ec_id snap) cursors = (True, ?c)" using try_claim_taken 2(3,5) by simp
    have "\<forall>s\<in>set snaps. s \<in> set ?c \<and> claimable s" using 2(4,5) by (auto simp: take_rows_def image_iff intro!: bexI)
    moreover have "distinct (map ec_id ?c)" using 2(3) by (simp only: take_rows_ids)
    ultimately have "claim_loop elapsed snaps ?c = (filter elapsed snaps, take_rows (ec_id ` set (filter elapsed snaps)) ?c)"
      using 2(2) [OF _ t [symmetric]] True 2(4) by simp
    moreover have "take_rows (ec_id ` set (filter elapsed snaps)) ?c = take_rows (ec_id ` set (filter elapsed (snap # snaps))) cursors"
      using True by (auto simp: take_rows_def)
    ultimately show ?thesis using True t by simp
  next
    case False
    with 2(1) [OF False 2(3)] 2(4,5) show ?thesis by simp
  qed
qed

lemma taken_not_claimable: "r \<in> set (take_rows ids cursors) \<Longrightarrow> claimable r \<Longrightarrow> ec_id r \<notin> ids"
  by (auto simp: take_rows_def claimable_def CLAIMABLE_ERP_SYNC_STATES_def split: if_splits)

lemma candidates_ok:
  assumes "distinct (map ec_id cursors)"
  shows "distinct (map ec_id (claim_candidates limit now conns cursors))"
    "\<forall>s\<in>set (claim_candidates limit now conns cursors). s \<in> set cursors \<and> claimable s"
  using assms by (auto simp: claim_candidates_def Let_def claimable_def distinct_map_filter distinct_take simp flip: take_map dest!: in_set_takeD)



text \<open>A cursor that fails is parked: with its position kept unless the vendor refused it, and claimable again after its wait unless the failure is final.\<close>

definition parks :: "cursor_state \<Rightarrow> (erp_cursor \<Rightarrow> erp_cursor) \<Rightarrow> bool" where
  "parks st g \<longleftrightarrow> (\<forall>r. ec_id (g r) = ec_id r \<and> ec_connectionId (g r) = ec_connectionId r \<and> ec_entity (g r) = ec_entity r \<and> ec_state (g r) = st
     \<and> ec_watermark (g r) = (if st = RESYNC_REQUIRED then None else ec_watermark r))"

lemma failure_parks:
  "\<exists>st g. releaseErpCursorFailure env i n err now cursors = (st, update_cursor i g cursors) \<and> parks st g \<and> st \<noteq> SYNCING \<and> st \<noteq> IDLE"
proof -
  have "parks RESYNC_REQUIRED (\<lambda>r. r\<lparr>ec_state := RESYNC_REQUIRED, ec_watermark := None, ec_consecutiveFailures := 0, ec_nextAttemptAt := None,
           ec_needsReconnect := False, ec_lastError := None\<rparr>)" by (simp add: parks_def)
  moreover have "parks FAILED (\<lambda>r. r\<lparr>ec_state := FAILED, ec_consecutiveFailures := k, ec_nextAttemptAt := None, ec_needsReconnect := False, ec_lastError := e\<rparr>)"
    for k e by (simp add: parks_def)
  moreover have "parks BACKOFF (\<lambda>r. r\<lparr>ec_state := BACKOFF, ec_consecutiveFailures := k, ec_nextAttemptAt := t, ec_needsReconnect := b, ec_lastError := e\<rparr>)"
    for k t b e by (simp add: parks_def)
  ultimately show ?thesis unfolding releaseErpCursorFailure_def Let_def
    by (cases "classifySyncFailure (cf_failure err) = RESYNC"; cases "classifySyncFailure (cf_failure err) = FATAL") auto
qed

section \<open>Witness\<close>

definition sample_cursor :: "string \<Rightarrow> cursor_state \<Rightarrow> erp_cursor" where
  "sample_cursor i st = \<lparr>ec_id = i, ec_connectionId = ''c'', ec_entity = ''invoice'', ec_watermark = None, ec_state = st, ec_consecutiveFailures = 0,
     ec_nextAttemptAt = None, ec_lastSyncedAt = None, ec_lastSweepAt = None, ec_needsReconnect = False, ec_lastError = None\<rparr>"

definition sample_options :: claim_options where
  "sample_options = \<lparr>cl_deviceId = None, cl_pollFloorMsFor = (\<lambda>_. None), cl_digest48 = length\<rparr>"

definition sample_connection :: sync_connection where
  "sample_connection = \<lparr>cn_id = ''c'', cn_provider = ''xero'', cn_status = CONNECTED, cn_lastHealthyAt = None\<rparr>"


end
