(* ===== verification/Erp_Sync.thy ===== *)
theory Erp_Sync
  imports Erp_Cursor
begin

text \<open>
  The runner of the connector sync (\<^verbatim>\<open>services/erp-sync/erp-sync.service.ts\<close>): registering cursors, the incremental tick and the
  reconciliation sweep, over the tables of the box.  What a vendor answers, the budget of calls, a landing transaction that fails and
  an audit row that cannot be written are the environment's; the money snapshot taken after a landing never fails and is left out.
  A throw that leaves a job is its left result.
\<close>

section \<open>Errors of a connector\<close>

datatype error_class = Quota_exhausted | Reauthorization_required | Xero_reauthorization_required | Xero_scope_missing | Xero_rate_limited
  | Rest_rate_limited | Connector_blocked | Capability_blocked | Plain_error

record connector_error =
  er_class :: error_class
  er_statusCode :: "int option"
  er_status :: "int option"
  er_code :: "string option"
  er_message :: string
  er_retryAfter :: "string option"
  er_headers :: "(string \<times> string) list"

definition isCapabilityBlocked :: "connector_error \<Rightarrow> bool" where
  "isCapabilityBlocked err \<longleftrightarrow> er_class err = Capability_blocked"

definition retryAfterOf :: "connector_error \<Rightarrow> string option" where
  "retryAfterOf err =
     (if isCapabilityBlocked err then Some (show_nat (nat (MAX_BACKOFF_MS div 1000)))
      else if er_retryAfter err \<noteq> None then er_retryAfter err
      else or_else (map_of (er_headers err) ''retry-after'') (map_of (er_headers err) ''Retry-After''))"

definition asSyncFailure :: "connector_error \<Rightarrow> sync_failure" where
  "asSyncFailure err =
     (case er_class err of
        Quota_exhausted \<Rightarrow> \<lparr>sf_statusCode = Some 429, sf_code = Some ''QUOTA_EXHAUSTED''\<rparr>
      | Reauthorization_required \<Rightarrow> \<lparr>sf_statusCode = Some 401, sf_code = Some ''REAUTHORIZE_REQUIRED''\<rparr>
      | Xero_reauthorization_required \<Rightarrow> \<lparr>sf_statusCode = Some 401, sf_code = Some ''REAUTHORIZE_REQUIRED''\<rparr>
      | Xero_scope_missing \<Rightarrow> \<lparr>sf_statusCode = Some 403, sf_code = Some ''XERO_SCOPE_MISSING''\<rparr>
      | Xero_rate_limited \<Rightarrow> \<lparr>sf_statusCode = Some 429, sf_code = Some ''XERO_RATE_LIMITED''\<rparr>
      | Rest_rate_limited \<Rightarrow> \<lparr>sf_statusCode = Some 429, sf_code = Some ''REST_RATE_LIMITED''\<rparr>
      | Connector_blocked \<Rightarrow> \<lparr>sf_statusCode = Some 503, sf_code = Some ''CONNECTOR_BLOCKED''\<rparr>
      | Capability_blocked \<Rightarrow> \<lparr>sf_statusCode = Some 429, sf_code = Some ''CAPABILITY_BLOCKED''\<rparr>
      | Plain_error \<Rightarrow> \<lparr>sf_statusCode = or_else (er_statusCode err) (er_status err), sf_code = er_code err\<rparr>)"

text \<open>The sentence for the operator; the redaction of a text is a parameter.\<close>

definition show_int :: "int \<Rightarrow> string" where
  "show_int n = (if n < 0 then ''-'' @ show_nat (nat (- n)) else show_nat (nat n))"

definition redactSyncErrorText :: "(string \<Rightarrow> string) \<Rightarrow> sync_failure \<Rightarrow> string \<Rightarrow> string" where
  "redactSyncErrorText redact f message =
     (let parts = filter (\<lambda>s. s \<noteq> []) [case sf_code f of Some c \<Rightarrow> js_trim c | None \<Rightarrow> [],
            case sf_statusCode f of Some n \<Rightarrow> ''HTTP '' @ show_int n | None \<Rightarrow> [], js_trim message];
          combined = join '': '' parts
      in if combined = [] then ''The connector failed without giving a reason.'' else redact combined)"

section \<open>The box\<close>

datatype audit_what = Sync_skipped | Sync_failed | Synced | Reconciliation_deferred | Reconciliation_swept

record sync_audit =
  sa_what :: audit_what
  sa_connectionId :: string
  sa_entity :: "string option"
  sa_counts :: "nat list"

record box =
  bx_connections :: "sync_connection list"
  bx_cursors :: "erp_cursor list"
  bx_tables :: landing_db
  bx_drift :: "drift_row list"
  bx_audit :: "sync_audit list"
  bx_minted :: nat

record sync_env =
  sy_now :: int
  sy_construct :: "sync_connection \<Rightarrow> connector_error option"
  sy_connect :: "sync_connection \<Rightarrow> connector_error option"
  sy_headroom :: "string \<Rightarrow> string \<Rightarrow> bool \<Rightarrow> connector_error option"
  sy_read :: "string \<Rightarrow> string \<Rightarrow> bool \<Rightarrow> string option \<Rightarrow> (connector_error, vendor_row option list) result"
  sy_land_fault :: "string \<Rightarrow> string \<Rightarrow> bool \<Rightarrow> connector_error option"
  sy_audit_fault :: "sync_audit \<Rightarrow> connector_error option"
  sy_landing :: landing_env
  sy_release :: release_env
  sy_redact :: "string \<Rightarrow> string"
  sy_datasets :: "string \<Rightarrow> string list option"
  sy_options :: claim_options
  sy_sweepIntervalMs :: int
  sy_uid :: "nat \<Rightarrow> string"

definition fault :: "'e option \<Rightarrow> ('e, unit) result" where
  "fault e = (case e of None \<Rightarrow> Return () | Some x \<Rightarrow> Throw x)"

definition audit :: "sync_env \<Rightarrow> sync_audit \<Rightarrow> box \<Rightarrow> (connector_error, unit) result \<times> box" where
  "audit env row b = (case sy_audit_fault env row of Some e \<Rightarrow> (Throw e, b) | None \<Rightarrow> (Return (), b\<lparr>bx_audit := bx_audit b @ [row]\<rparr>))"

definition loadConnection :: "string \<Rightarrow> box \<Rightarrow> sync_connection option" where
  "loadConnection i b = find (\<lambda>c. cn_id c = i) (bx_connections b)"

definition advanceLastHealthy :: "string \<Rightarrow> int \<Rightarrow> box \<Rightarrow> box" where
  "advanceLastHealthy i now b = b\<lparr>bx_connections := map (\<lambda>c. if cn_id c = i then c\<lparr>cn_lastHealthyAt := Some now\<rparr> else c) (bx_connections b)\<rparr>"

text \<open>One budgeted read; the flag tells the full read of a sweep from any other.\<close>

definition readEntity :: "sync_env \<Rightarrow> string \<Rightarrow> string \<Rightarrow> bool \<Rightarrow> string option \<Rightarrow> (connector_error, vendor_row option list) result" where
  "readEntity env conn entity full since = seq (fault (sy_headroom env conn entity full)) (sy_read env conn entity full since)"

definition landing_of :: "sync_connection \<Rightarrow> landing_connection" where
  "landing_of c = \<lparr>lc_id = cn_id c, lc_provider = cn_provider c\<rparr>"

text \<open>A landing for a dataset the box keeps: one transaction, or a failure that changes nothing.\<close>

definition land :: "sync_env \<Rightarrow> sync_connection \<Rightarrow> string \<Rightarrow> bool \<Rightarrow> vendor_row option list \<Rightarrow> box \<Rightarrow> (connector_error, land_outcome option) result \<times> box" where
  "land env conn entity full rows b =
     (if \<not> landsOnBox entity then (Return None, b)
      else (case sy_land_fault env (cn_id conn) entity full of
          Some e \<Rightarrow> (Throw e, b)
        | None \<Rightarrow> (case landCanonicalRows (sy_landing env) (landing_of conn) entity rows (sy_now env) (bx_tables b) of
              (outcome, t) \<Rightarrow> (Return (Some outcome), b\<lparr>bx_tables := t\<rparr>))))"

definition failure_of :: "sync_env \<Rightarrow> connector_error \<Rightarrow> string option \<Rightarrow> cursor_failure" where
  "failure_of env err header =
     \<lparr>cf_failure = asSyncFailure err, cf_text = redactSyncErrorText (sy_redact env) (asSyncFailure err) (er_message err), cf_retryAfter = header\<rparr>"

definition release_failure :: "sync_env \<Rightarrow> string \<Rightarrow> nat \<Rightarrow> cursor_failure \<Rightarrow> box \<Rightarrow> cursor_state \<times> box" where
  "release_failure env i n err b =
     (case releaseErpCursorFailure (sy_release env) i n err (sy_now env) (bx_cursors b) of (st, cs) \<Rightarrow> (st, b\<lparr>bx_cursors := cs\<rparr>))"

definition release_success :: "sync_env \<Rightarrow> string \<Rightarrow> string option \<Rightarrow> int option \<Rightarrow> box \<Rightarrow> box" where
  "release_success env i watermark sweptAt b = b\<lparr>bx_cursors := releaseErpCursorSuccess i watermark (sy_now env) sweptAt (bx_cursors b)\<rparr>"

section \<open>One cursor\<close>

definition identified :: "sync_entity \<Rightarrow> vendor_row option list \<Rightarrow> record_identity list" where
  "identified spec rows = identify rows (se_sourceKeyField spec) (se_markerField spec) (se_updatedAtField spec)"

definition next_watermark :: "(string \<Rightarrow> int option) \<Rightarrow> sync_entity \<Rightarrow> vendor_row option list \<Rightarrow> string option \<Rightarrow> string option" where
  "next_watermark dp spec rows watermark = or_else (highWaterMark dp (identified spec rows)) watermark"

text \<open>The body of the \<^verbatim>\<open>try\<close>: it reads, lands, releases and reports.\<close>

definition sync_body :: "sync_env \<Rightarrow> sync_connection \<Rightarrow> sync_entity \<Rightarrow> erp_cursor \<Rightarrow> box \<Rightarrow> (connector_error, unit) result \<times> box" where
  "sync_body env conn spec cursor b =
     (case sy_connect env conn of
        Some e \<Rightarrow> (Throw e, b)
      | None \<Rightarrow>
          (case readEntity env (cn_id conn) (ec_entity cursor) False (ec_watermark cursor) of
             Inl e \<Rightarrow> (Throw e, b)
           | Inr rows \<Rightarrow>
               (case land env conn (ec_entity cursor) False rows b of
                  (Inl e, b') \<Rightarrow> (Throw e, b')
                | (Inr outcome, b') \<Rightarrow>
                    let nxt = next_watermark (le_dp (sy_landing env)) spec rows (ec_watermark cursor);
                        released = advanceLastHealthy (cn_id conn) (sy_now env) (release_success env (ec_id cursor) nxt None b')
                    in audit env \<lparr>sa_what = Synced, sa_connectionId = cn_id conn, sa_entity = Some (ec_entity cursor),
                         sa_counts = [length (identified spec rows), (case outcome of None \<Rightarrow> 0 | Some r \<Rightarrow> lo_landed r),
                           (case outcome of None \<Rightarrow> 0 | Some r \<Rightarrow> lo_skipped r)]\<rparr> released)))"

definition report_failure :: "sync_env \<Rightarrow> string \<Rightarrow> string \<Rightarrow> cursor_state \<Rightarrow> box \<Rightarrow> (connector_error, cursor_state) result \<times> box" where
  "report_failure env conn entity st b =
     (case audit env \<lparr>sa_what = Sync_failed, sa_connectionId = conn, sa_entity = Some entity, sa_counts = []\<rparr> b of
        (Inl e, b') \<Rightarrow> (Throw e, b') | (Inr _, b') \<Rightarrow> (Return st, b'))"

definition absent_failure :: "sync_env \<Rightarrow> bool \<Rightarrow> cursor_failure" where
  "absent_failure env served =
     (let f = \<lparr>sf_statusCode = None, sf_code = Some ''SYNC_TARGET_ABSENT''\<rparr> in
      \<lparr>cf_failure = f, cf_text = redactSyncErrorText (sy_redact env) f (if served then ''connection absent'' else ''entity not served''), cf_retryAfter = None\<rparr>)"

definition runOneCursor :: "sync_env \<Rightarrow> erp_cursor \<Rightarrow> box \<Rightarrow> (connector_error, cursor_state) result \<times> box" where
  "runOneCursor env cursor b =
     (case (erpSyncEntity (ec_entity cursor), loadConnection (ec_connectionId cursor) b) of
        (Some spec, Some conn) \<Rightarrow>
          (case sy_construct env conn of
             Some e \<Rightarrow>
               (case release_failure env (ec_id cursor) (ec_consecutiveFailures cursor) (failure_of env e None) b of
                  (st, b') \<Rightarrow> report_failure env (cn_id conn) (ec_entity cursor) st b')
           | None \<Rightarrow>
               (case sync_body env conn spec cursor b of
                  (Inr _, b') \<Rightarrow> (Return IDLE, b')
                | (Inl e, b') \<Rightarrow>
                    (case release_failure env (ec_id cursor) (ec_consecutiveFailures cursor) (failure_of env e (retryAfterOf e)) b' of
                       (st, b'') \<Rightarrow> report_failure env (cn_id conn) (ec_entity cursor) st b'')))
      | (spec, _) \<Rightarrow>
          (case release_failure env (ec_id cursor) (ec_consecutiveFailures cursor) (absent_failure env (spec \<noteq> None)) b of
             (_, b') \<Rightarrow>
               (case audit env \<lparr>sa_what = Sync_skipped, sa_connectionId = ec_connectionId cursor, sa_entity = Some (ec_entity cursor), sa_counts = []\<rparr> b' of
                  (Inl e, b'') \<Rightarrow> (Throw e, b'') | (Inr _, b'') \<Rightarrow> (Return FAILED, b''))))"

section \<open>The tick\<close>

definition entityServedBy :: "sync_env \<Rightarrow> string \<Rightarrow> sync_entity \<Rightarrow> bool" where
  "entityServedBy env provider spec =
     (case sy_datasets env provider of None \<Rightarrow> se_openToUndeclaredTracks spec | Some datasets \<Rightarrow> se_entity spec \<in> set datasets)"

definition register_one :: "sync_env \<Rightarrow> sync_connection \<Rightarrow> sync_entity \<Rightarrow> box \<Rightarrow> box" where
  "register_one env conn spec b =
     (if \<not> entityServedBy env (cn_provider conn) spec then b
      else b\<lparr>bx_cursors := upsertErpCursor (sy_uid env (bx_minted b)) (cn_id conn) (se_entity spec) (bx_cursors b), bx_minted := bx_minted b + 1\<rparr>)"

definition live_connections :: "box \<Rightarrow> sync_connection list" where
  "live_connections b = filter (\<lambda>c. cn_status c \<in> set POLLABLE_CONNECTION_STATUSES) (bx_connections b)"

definition registerCursors :: "sync_env \<Rightarrow> box \<Rightarrow> box" where
  "registerCursors env b = fold (\<lambda>conn. fold (register_one env conn) ERP_SYNC_ENTITIES) (live_connections b) b"

definition DEFAULT_TICK_LIMIT :: nat where
  "DEFAULT_TICK_LIMIT = 8"

fun run_claimed :: "sync_env \<Rightarrow> erp_cursor list \<Rightarrow> box \<Rightarrow> (connector_error, cursor_state list) result \<times> box" where
  "run_claimed env [] b = (Return [], b)"
| "run_claimed env (cursor # rest) b =
     (case runOneCursor env cursor b of
        (Inl e, b') \<Rightarrow> (Throw e, b')
      | (Inr st, b') \<Rightarrow> (case run_claimed env rest b' of (Inl e, b'') \<Rightarrow> (Throw e, b'') | (Inr sts, b'') \<Rightarrow> (Return (st # sts), b'')))"

record tick_outcome =
  to_cursorsClaimed :: nat
  to_succeeded :: nat
  to_failed :: nat
  to_states :: "cursor_state list"

definition runIncrementalTick :: "sync_env \<Rightarrow> box \<Rightarrow> (connector_error, tick_outcome) result \<times> box" where
  "runIncrementalTick env b =
     (case claimDueErpCursors DEFAULT_TICK_LIMIT (sy_now env) (sy_options env) (bx_connections b) (bx_cursors b) of
        (claimed, cursors) \<Rightarrow>
          (case run_claimed env claimed (b\<lparr>bx_cursors := cursors\<rparr>) of
             (Inl e, b') \<Rightarrow> (Throw e, b')
           | (Inr states, b') \<Rightarrow>
               (Return \<lparr>to_cursorsClaimed = length claimed, to_succeeded = length (filter (\<lambda>s. s = IDLE) states),
                        to_failed = length (filter (\<lambda>s. s \<noteq> IDLE) states), to_states = states\<rparr>, b')))"

section \<open>The sweep\<close>

definition sweep_drift :: "sync_env \<Rightarrow> sync_entity \<Rightarrow> erp_cursor \<Rightarrow> vendor_row option list \<Rightarrow> vendor_row option list \<Rightarrow> entity_drift" where
  "sweep_drift env spec row incrementalRows fullRows =
     diffForDrift (le_dp (sy_landing env)) (ec_entity row) (ec_watermark row) (identified spec incrementalRows) (identified spec fullRows)"

definition record_drift :: "sync_env \<Rightarrow> sync_connection \<Rightarrow> erp_cursor \<Rightarrow> entity_drift \<Rightarrow> box \<Rightarrow> box" where
  "record_drift env conn row d b =
     b\<lparr>bx_drift := recordEntityDrift (driftRowFor (le_dp (sy_landing env)) (sy_uid env (bx_minted b)) (cn_id conn) (cn_provider conn) (sy_now env) (ec_watermark row) d) (bx_drift b),
       bx_minted := bx_minted b + 1\<rparr>"

text \<open>The due cursors of a connection in turn; the result says whether one threw, and the drift found until then.\<close>

fun sweep_entities :: "sync_env \<Rightarrow> sync_connection \<Rightarrow> erp_cursor list \<Rightarrow> entity_drift list \<Rightarrow> box \<Rightarrow> connector_error option \<times> entity_drift list \<times> box" where
  "sweep_entities env conn [] found b = (None, found, b)"
| "sweep_entities env conn (row # due) found b =
     (case erpSyncEntity (ec_entity row) of
        None \<Rightarrow> sweep_entities env conn due found b
      | Some spec \<Rightarrow>
          (case readEntity env (cn_id conn) (ec_entity row) False (ec_watermark row) of
             Inl e \<Rightarrow> (Some e, found, b)
           | Inr incrementalRows \<Rightarrow>
               (case readEntity env (cn_id conn) (ec_entity row) True None of
                  Inl e \<Rightarrow> (Some e, found, b)
                | Inr fullRows \<Rightarrow>
                    (case land env conn (ec_entity row) True fullRows b of
                       (Inl e, b1) \<Rightarrow> (Some e, found, b1)
                     | (Inr _, b1) \<Rightarrow>
                         let d = sweep_drift env spec row incrementalRows fullRows;
                             b2 = record_drift env conn row d b1
                         in sweep_entities env conn due (found @ [d])
                              (release_success env (ec_id row) (next_watermark (le_dp (sy_landing env)) spec fullRows (ec_watermark row)) (Some (sy_now env)) b2)))))"

definition due_cursors :: "sync_env \<Rightarrow> sync_connection \<Rightarrow> box \<Rightarrow> erp_cursor list" where
  "due_cursors env conn b =
     (let interval = sweepIntervalMsFor (sy_sweepIntervalMs env) (cleanSweepStreak DEFAULT_STREAK_ROW_LIMIT (cn_id conn) (bx_drift b)) in
      filter (\<lambda>c. case ec_lastSweepAt c of None \<Rightarrow> True | Some t \<Rightarrow> interval \<le> sy_now env - t)
        (filter (\<lambda>c. ec_connectionId c = cn_id conn) (bx_cursors b)))"

text \<open>The cursor the \<^verbatim>\<open>catch\<close> names: the one at the number of drifts found, or the first.\<close>

definition blamed_cursor :: "erp_cursor list \<Rightarrow> nat \<Rightarrow> string \<times> nat" where
  "blamed_cursor due n = (if n < length due then (ec_id (due ! n), ec_consecutiveFailures (due ! n)) else (ec_id (hd due), 0))"

definition sweep_connection :: "sync_env \<Rightarrow> sync_connection \<Rightarrow> box \<Rightarrow> (connector_error, (drift_report option) \<times> nat) result \<times> box" where
  "sweep_connection env conn b =
     (let due = due_cursors env conn b in
      if due = [] then (Return (None, 0), b)
      else if sy_construct env conn \<noteq> None then (Return (None, 0), b)
      else (case (case sy_connect env conn of Some e \<Rightarrow> (Some e, [], b) | None \<Rightarrow> sweep_entities env conn due [] b) of
          (Some e, found, b1) \<Rightarrow>
            (case blamed_cursor due (length found) of (i, n) \<Rightarrow>
               (case release_failure env i n (failure_of env e (retryAfterOf e)) b1 of (st, b2) \<Rightarrow>
                  (case audit env \<lparr>sa_what = Reconciliation_deferred, sa_connectionId = cn_id conn, sa_entity = None, sa_counts = [length found]\<rparr> b2 of
                     (Inl e', b3) \<Rightarrow> (Throw e', b3) | (Inr _, b3) \<Rightarrow> (Return (None, 1), b3))))
        | (None, found, b1) \<Rightarrow>
            let report = buildDriftReport (cn_id conn) (cn_provider conn) (sy_now env) found in
            (case audit env \<lparr>sa_what = Reconciliation_swept, sa_connectionId = cn_id conn, sa_entity = None, sa_counts = [dr_totalMissed report]\<rparr> b1 of
               (Inl e', b2) \<Rightarrow> (Throw e', b2) | (Inr _, b2) \<Rightarrow> (Return (Some report, 0), b2))))"

fun sweep_all :: "sync_env \<Rightarrow> sync_connection list \<Rightarrow> box \<Rightarrow> (connector_error, drift_report list \<times> nat) result \<times> box" where
  "sweep_all env [] b = (Return ([], 0), b)"
| "sweep_all env (summary # live) b =
     (case loadConnection (cn_id summary) b of
        None \<Rightarrow> sweep_all env live b
      | Some conn \<Rightarrow>
          (case sweep_connection env conn b of
             (Inl e, b') \<Rightarrow> (Throw e, b')
           | (Inr (report, deferred), b') \<Rightarrow>
               (case sweep_all env live b' of
                  (Inl e, b'') \<Rightarrow> (Throw e, b'')
                | (Inr (reports, n), b'') \<Rightarrow> (Return ((case report of None \<Rightarrow> reports | Some r \<Rightarrow> r # reports), deferred + n), b''))))"

definition runReconciliationSweep :: "sync_env \<Rightarrow> box \<Rightarrow> (connector_error, drift_report list \<times> nat) result \<times> box" where
  "runReconciliationSweep env b = sweep_all env (live_connections b) b"

end
