(* ===== verification/Erp_Run.thy ===== *)
theory Erp_Run
  imports Erp_Sync
begin

text \<open>
  Ticks, sweeps, registrations, disconnects, failures and crashes of the connector sync in any order, against vendors whose accounts
  change meanwhile.  A job works on the copy of a cursor it once read; its read, its landing and its release are steps of their own,
  between those of others.  A vendor is taken at its documentation: an edit moves a record's timestamp past every earlier one, a
  read without a position returns the account, and a read from a timestamp returns at least the records after it.
\<close>

section \<open>The world\<close>

datatype job = Snapshot erp_cursor | Claimed erp_cursor | Sweeping erp_cursor | Landing erp_cursor "vendor_row option list" | Releasing erp_cursor "vendor_row option list"

record sync_world =
  sw_cursors :: "erp_cursor list"
  sw_tables :: landing_db
  sw_accounts :: "string \<Rightarrow> string \<Rightarrow> vendor_row list"
  sw_clock :: "string \<Rightarrow> string \<Rightarrow> int"
  sw_jobs :: "job list"
  sw_used :: "string set"

record run_env =
  rn_landing :: landing_env
  rn_release :: release_env
  rn_provider :: "string \<Rightarrow> string"

abbreviation rn_dp :: "run_env \<Rightarrow> string \<Rightarrow> int option" where
  "rn_dp env \<equiv> le_dp (rn_landing env)"

definition stamp :: "run_env \<Rightarrow> string \<Rightarrow> vendor_row \<Rightarrow> int option" where
  "stamp env e row =
     (case erpSyncEntity e of
        None \<Rightarrow> None
      | Some spec \<Rightarrow> Option.bind (identify_row (se_sourceKeyField spec) (se_markerField spec) (se_updatedAtField spec) (Some row)) (position (rn_dp env)))"

definition conn_of :: "run_env \<Rightarrow> string \<Rightarrow> landing_connection" where
  "conn_of env c = \<lparr>lc_id = c, lc_provider = rn_provider env c\<rparr>"

text \<open>What a read may return: rows of the account, with every row the position does not cover.\<close>

definition honest_read :: "run_env \<Rightarrow> string \<Rightarrow> vendor_row list \<Rightarrow> string option \<Rightarrow> vendor_row option list \<Rightarrow> bool" where
  "honest_read env e account since rows \<longleftrightarrow> set rows \<subseteq> Some ` set account
     \<and> (\<forall>row\<in>set account. (case since of None \<Rightarrow> True | Some w \<Rightarrow>
          (\<forall>t u. isoInstant (rn_dp env) (Some w) = Some t \<and> stamp env e row = Some u \<longrightarrow> t < u)) \<longrightarrow> Some row \<in> set rows)"

definition next_position :: "run_env \<Rightarrow> erp_cursor \<Rightarrow> vendor_row option list \<Rightarrow> string option" where
  "next_position env r rows =
     (case erpSyncEntity (ec_entity r) of None \<Rightarrow> ec_watermark r | Some spec \<Rightarrow> next_watermark (rn_dp env) spec rows (ec_watermark r))"

definition set2 :: "string \<Rightarrow> string \<Rightarrow> 'a \<Rightarrow> (string \<Rightarrow> string \<Rightarrow> 'a) \<Rightarrow> string \<Rightarrow> string \<Rightarrow> 'a" where
  "set2 c e v f = (\<lambda>c' e'. if c' = c \<and> e' = e then v else f c' e')"

inductive sync_step :: "run_env \<Rightarrow> sync_world \<Rightarrow> sync_world \<Rightarrow> bool" for env :: run_env where
  vendor_edit: "stamp env e row = Some t \<Longrightarrow> sw_clock w c e < t
    \<Longrightarrow> sync_step env w (w\<lparr>sw_accounts := set2 c e (filter (\<lambda>q. str q (id_field e) \<noteq> str row (id_field e)) (sw_accounts w c e) @ [row]) (sw_accounts w),
          sw_clock := set2 c e t (sw_clock w)\<rparr>)"
| vendor_delete: "sync_step env w (w\<lparr>sw_accounts := set2 c e (filter P (sw_accounts w c e)) (sw_accounts w)\<rparr>)"
| take_snapshot: "r \<in> set (sw_cursors w) \<Longrightarrow> sync_step env w (w\<lparr>sw_jobs := Snapshot r # sw_jobs w\<rparr>)"
| claim_cursor: "Snapshot r \<in> set (sw_jobs w) \<Longrightarrow> try_claim (ec_id r) (sw_cursors w) = (taken, cs)
    \<Longrightarrow> sync_step env w (w\<lparr>sw_cursors := cs, sw_jobs := (if taken then [Claimed r] else []) @ remove1 (Snapshot r) (sw_jobs w)\<rparr>)"
| sweep_cursor: "r \<in> set (sw_cursors w) \<Longrightarrow> sync_step env w (w\<lparr>sw_jobs := Sweeping r # sw_jobs w\<rparr>)"
| read_since: "Claimed r \<in> set (sw_jobs w) \<Longrightarrow> erpSyncEntity (ec_entity r) \<noteq> None
    \<Longrightarrow> honest_read env (ec_entity r) (sw_accounts w (ec_connectionId r) (ec_entity r)) (ec_watermark r) rows
    \<Longrightarrow> sync_step env w (w\<lparr>sw_jobs := Landing r rows # remove1 (Claimed r) (sw_jobs w)\<rparr>)"
| read_full: "Sweeping r \<in> set (sw_jobs w) \<Longrightarrow> erpSyncEntity (ec_entity r) \<noteq> None
    \<Longrightarrow> honest_read env (ec_entity r) (sw_accounts w (ec_connectionId r) (ec_entity r)) None rows
    \<Longrightarrow> sync_step env w (w\<lparr>sw_jobs := Landing r rows # remove1 (Sweeping r) (sw_jobs w)\<rparr>)"
| land_page: "Landing r rows \<in> set (sw_jobs w)
    \<Longrightarrow> sync_step env w (w\<lparr>sw_tables := (if landsOnBox (ec_entity r)
             then snd (landCanonicalRows (rn_landing env) (conn_of env (ec_connectionId r)) (ec_entity r) rows now (sw_tables w)) else sw_tables w),
          sw_jobs := Releasing r rows # remove1 (Landing r rows) (sw_jobs w)\<rparr>)"
| release_cursor: "Releasing r rows \<in> set (sw_jobs w)
    \<Longrightarrow> sync_step env w (w\<lparr>sw_cursors := releaseErpCursorSuccess (ec_id r) (next_position env r rows) now sweptAt (sw_cursors w),
          sw_jobs := remove1 (Releasing r rows) (sw_jobs w)\<rparr>)"
| fail_cursor: "releaseErpCursorFailure (rn_release env) i n err now (sw_cursors w) = (st, cs) \<Longrightarrow> sync_step env w (w\<lparr>sw_cursors := cs\<rparr>)"
| lose_job: "j \<in> set (sw_jobs w) \<Longrightarrow> sync_step env w (w\<lparr>sw_jobs := remove1 j (sw_jobs w)\<rparr>)"
| register_cursor: "newId \<notin> sw_used w
    \<Longrightarrow> sync_step env w (w\<lparr>sw_cursors := upsertErpCursor newId c e (sw_cursors w), sw_used := insert newId (sw_used w)\<rparr>)"
| reset_cursors: "sync_step env w (w\<lparr>sw_cursors := snd (resetCursorsForConnection c (sw_cursors w))\<rparr>)"

abbreviation sync_run :: "run_env \<Rightarrow> sync_world \<Rightarrow> sync_world \<Rightarrow> bool" where
  "sync_run env \<equiv> (sync_step env)\<^sup>*\<^sup>*"

section \<open>What a position promises\<close>

fun job_cursor :: "job \<Rightarrow> erp_cursor" where
  "job_cursor (Snapshot r) = r"
| "job_cursor (Claimed r) = r"
| "job_cursor (Sweeping r) = r"
| "job_cursor (Landing r rows) = r"
| "job_cursor (Releasing r rows) = r"

definition covers :: "run_env \<Rightarrow> sync_world \<Rightarrow> string \<Rightarrow> string \<Rightarrow> int \<Rightarrow> string set \<Rightarrow> bool" where
  "covers env w c e t K \<longleftrightarrow> lands (rn_landing env) (conn_of env c) e (sw_tables w) \<longrightarrow>
     (\<forall>row\<in>set (sw_accounts w c e). \<forall>u x. stamp env e row = Some u \<and> u \<le> t \<and> str row (id_field e) = Some x \<longrightarrow> holds (sw_tables w) c e x \<or> x \<in> K)"

definition position_ok :: "run_env \<Rightarrow> sync_world \<Rightarrow> string \<Rightarrow> string \<Rightarrow> string option \<Rightarrow> string set \<Rightarrow> bool" where
  "position_ok env w c e wm K \<longleftrightarrow> (case wm of None \<Rightarrow> True | Some s \<Rightarrow> \<exists>t. isoInstant (rn_dp env) (Some s) = Some t \<and> t \<le> sw_clock w c e \<and> covers env w c e t K)"

definition cursor_ok :: "run_env \<Rightarrow> sync_world \<Rightarrow> erp_cursor \<Rightarrow> bool" where
  "cursor_ok env w r \<longleftrightarrow> ec_id r \<in> sw_used w \<and> position_ok env w (ec_connectionId r) (ec_entity r) (ec_watermark r) {}"

fun page_ok :: "run_env \<Rightarrow> sync_world \<Rightarrow> job \<Rightarrow> bool" where
  "page_ok env w (Landing r rows) = position_ok env w (ec_connectionId r) (ec_entity r) (next_position env r rows) (ps.page_keys (ec_entity r) rows)"
| "page_ok env w (Releasing r rows) = position_ok env w (ec_connectionId r) (ec_entity r) (next_position env r rows) {}"
| "page_ok env w j = True"

definition job_ok :: "run_env \<Rightarrow> sync_world \<Rightarrow> job \<Rightarrow> bool" where
  "job_ok env w j \<longleftrightarrow> cursor_ok env w (job_cursor j) \<and> page_ok env w j"

definition known :: "sync_world \<Rightarrow> erp_cursor set" where
  "known w = set (sw_cursors w) \<union> job_cursor ` set (sw_jobs w)"

definition same_dataset :: "erp_cursor \<Rightarrow> erp_cursor \<Rightarrow> bool" where
  "same_dataset r q \<longleftrightarrow> ec_id q = ec_id r \<and> ec_connectionId q = ec_connectionId r \<and> ec_entity q = ec_entity r"

definition accounts_ok :: "run_env \<Rightarrow> sync_world \<Rightarrow> bool" where
  "accounts_ok env w \<longleftrightarrow> (\<forall>c e. \<forall>row\<in>set (sw_accounts w c e). \<exists>u. stamp env e row = Some u \<and> u \<le> sw_clock w c e)"

definition ids_ok :: "sync_world \<Rightarrow> bool" where
  "ids_ok w \<longleftrightarrow> (\<forall>r\<in>known w. \<forall>q\<in>known w. ec_id q = ec_id r \<longrightarrow> same_dataset r q)"

definition world_ok :: "run_env \<Rightarrow> sync_world \<Rightarrow> bool" where
  "world_ok env w \<longleftrightarrow> accounts_ok env w \<and> ids_ok w \<and> (\<forall>r\<in>set (sw_cursors w). cursor_ok env w r) \<and> (\<forall>j\<in>set (sw_jobs w). job_ok env w j)"

section \<open>The world only grows\<close>

definition grows :: "run_env \<Rightarrow> sync_world \<Rightarrow> sync_world \<Rightarrow> bool" where
  "grows env w w' \<longleftrightarrow> sw_used w \<subseteq> sw_used w' \<and> ld_owners (sw_tables w') = ld_owners (sw_tables w)
     \<and> (\<forall>c e x. holds (sw_tables w) c e x \<longrightarrow> holds (sw_tables w') c e x)
     \<and> (\<forall>c e. sw_clock w c e \<le> sw_clock w' c e)
     \<and> (\<forall>c e. \<forall>row\<in>set (sw_accounts w' c e). row \<in> set (sw_accounts w c e) \<or> (\<exists>u. stamp env e row = Some u \<and> sw_clock w c e < u))"

lemma lands_owners: "ld_owners t' = ld_owners t \<Longrightarrow> lands env conn e t' = lands env conn e t"
  by (simp add: lands_def)

lemma grows_covers:
  assumes "grows env w w'" "covers env w c e t K" "t \<le> sw_clock w c e"
  shows "covers env w' c e t K"
  unfolding covers_def
proof (intro impI ballI allI)
  fix row u x
  assume l: "lands (rn_landing env) (conn_of env c) e (sw_tables w')" and row: "row \<in> set (sw_accounts w' c e)"
    and u: "stamp env e row = Some u \<and> u \<le> t \<and> str row (id_field e) = Some x"
  have "row \<in> set (sw_accounts w c e)" using assms(1,3) row u unfolding grows_def by force
  moreover have "lands (rn_landing env) (conn_of env c) e (sw_tables w)" using l assms(1) lands_owners unfolding grows_def by metis
  ultimately have "holds (sw_tables w) c e x \<or> x \<in> K" using assms(2) u unfolding covers_def by blast
  then show "holds (sw_tables w') c e x \<or> x \<in> K" using assms(1) unfolding grows_def by blast
qed

lemma grows_position: "grows env w w' \<Longrightarrow> position_ok env w c e wm K \<Longrightarrow> position_ok env w' c e wm K"
proof (cases wm)
  case (Some s)
  assume g: "grows env w w'" and "position_ok env w c e wm K"
  with Some obtain t where t: "isoInstant (rn_dp env) (Some s) = Some t" "t \<le> sw_clock w c e" "covers env w c e t K" by (auto simp: position_ok_def)
  have "sw_clock w c e \<le> sw_clock w' c e" using g by (simp add: grows_def)
  with t grows_covers [OF g t(3,2)] Some show ?thesis by (auto simp: position_ok_def intro: order_trans)
qed (simp add: position_ok_def)

lemma grows_cursor: "grows env w w' \<Longrightarrow> cursor_ok env w r \<Longrightarrow> cursor_ok env w' r"
  unfolding cursor_ok_def using grows_position unfolding grows_def by blast

lemma grows_job: "grows env w w' \<Longrightarrow> job_ok env w j \<Longrightarrow> job_ok env w' j"
  unfolding job_ok_def by (cases j) (auto intro: grows_cursor grows_position)

lemma grows_refl:
  "sw_used w \<subseteq> sw_used w' \<Longrightarrow> sw_tables w' = sw_tables w \<Longrightarrow> sw_accounts w' = sw_accounts w \<Longrightarrow> sw_clock w' = sw_clock w \<Longrightarrow> grows env w w'"
  by (simp add: grows_def)


lemma grows_edit:
  assumes "stamp env e row = Some t" "sw_clock w c e < t"
  shows "grows env w (w\<lparr>sw_accounts := set2 c e (filter P (sw_accounts w c e) @ [row]) (sw_accounts w), sw_clock := set2 c e t (sw_clock w)\<rparr>)"
  using assms by (auto simp: grows_def set2_def)

lemma grows_land:
  "grows env w (w\<lparr>sw_tables := (if b then snd (landCanonicalRows (rn_landing env) conn e rows now (sw_tables w)) else sw_tables w), sw_jobs := js\<rparr>)"
proof -
  have "ld_owners (snd (landCanonicalRows (rn_landing env) conn e rows now (sw_tables w))) = ld_owners (sw_tables w)"
    using landing_kept by (simp add: kept_def)
  moreover have "holds (snd (landCanonicalRows (rn_landing env) conn e rows now (sw_tables w))) c' e' x" if "holds (sw_tables w) c' e' x" for c' e' x
    using ps.has_mono [of "sw_tables w" "\<lparr>lc_id = c', lc_provider = []\<rparr>"] that by simp
  ultimately show ?thesis by (simp add: grows_def)
qed

lemma preserved:
  assumes "world_ok env w" "grows env w w'" "accounts_ok env w'"
    and "\<forall>r'\<in>known w'. \<exists>r\<in>known w. same_dataset r r'"
    and "\<forall>r\<in>set (sw_cursors w'). r \<in> set (sw_cursors w) \<or> cursor_ok env w' r"
    and "\<forall>j\<in>set (sw_jobs w'). j \<in> set (sw_jobs w) \<or> job_ok env w' j"
  shows "world_ok env w'"
proof -
  have "ids_ok w'"
    unfolding ids_ok_def
  proof (intro ballI impI)
    fix r' q'
    assume m: "r' \<in> known w'" "q' \<in> known w'" and i: "ec_id q' = ec_id r'"
    from m obtain r q where "r \<in> known w" "same_dataset r r'" "q \<in> known w" "same_dataset q q'" using assms(4) by blast
    moreover from this i have "same_dataset r q" using assms(1) unfolding world_ok_def ids_ok_def same_dataset_def by metis
    ultimately show "same_dataset r' q'" by (simp add: same_dataset_def)
  qed
  moreover have "\<forall>r\<in>set (sw_cursors w'). cursor_ok env w' r" using assms(1,5) grows_cursor [OF assms(2)] unfolding world_ok_def by blast
  moreover have "\<forall>j\<in>set (sw_jobs w'). job_ok env w' j" using assms(1,6) grows_job [OF assms(2)] unfolding world_ok_def by blast
  ultimately show ?thesis using assms(3) by (simp add: world_ok_def)
qed

section \<open>Reading\<close>

lemma stamp_identity:
  assumes "erpSyncEntity e = Some spec" "r \<in> set (identified spec rows)" "set rows \<subseteq> Some ` set account"
  shows "\<exists>row\<in>set account. stamp env e row = position (rn_dp env) r"
proof -
  from assms(2) obtain raw where raw: "raw \<in> set rows" "identify_row (se_sourceKeyField spec) (se_markerField spec) (se_updatedAtField spec) raw = Some r"
    by (auto simp: identified_def identify_def List.map_filter_def)
  then obtain row where "raw = Some row" "row \<in> set account" using assms(3) by auto
  with raw(2) assms(1) show ?thesis by (auto simp: stamp_def intro!: bexI [of _ row])
qed

lemma highest_empty: "highestWatermark dp [] = None"
  by (simp add: highestWatermark_def)

lemma next_position_known:
  assumes "accounts_ok env w" "set rows \<subseteq> Some ` set (sw_accounts w (ec_connectionId r) (ec_entity r))" "next_position env r rows \<noteq> ec_watermark r"
  shows "\<exists>s t. next_position env r rows = Some s \<and> isoInstant (rn_dp env) (Some s) = Some t \<and> t \<le> sw_clock w (ec_connectionId r) (ec_entity r)"
proof -
  let ?acc = "sw_accounts w (ec_connectionId r) (ec_entity r)" and ?dp = "rn_dp env"
  from assms(3) obtain spec where spec: "erpSyncEntity (ec_entity r) = Some spec" by (auto simp: next_position_def split: option.splits)
  let ?ids = "identified spec rows"
  have "highestWatermark ?dp ?ids \<noteq> None" using assms(3) spec by (auto simp: next_position_def next_watermark_def highWaterMark_def or_else_def split: option.splits)
  then have "?ids \<noteq> []" using highest_empty by metis
  then obtain q where q: "q \<in> set ?ids" using list.set_intros(1) neq_Nil_conv by metis
  have stamped: "\<exists>u. position ?dp q = Some u \<and> u \<le> sw_clock w (ec_connectionId r) (ec_entity r)" if "q \<in> set ?ids" for q
    using stamp_identity [OF spec that assms(2)] assms(1) unfolding accounts_ok_def by metis
  from stamped [OF q] q have "positions ?dp ?ids \<noteq> {}" by (auto simp: positions_def)
  then obtain v t where v: "highestWatermark ?dp ?ids = Some v" "isoInstant ?dp (Some v) = Some t" "t \<in> positions ?dp ?ids" using highest_is_max by blast
  from v(3) obtain q' where "q' \<in> set ?ids" "position ?dp q' = Some t" by (auto simp: positions_def)
  with stamped [of q'] have "t \<le> sw_clock w (ec_connectionId r) (ec_entity r)" by simp
  with v spec show ?thesis by (simp add: next_position_def next_watermark_def highWaterMark_def or_else_def)
qed

lemma read_covers:
  assumes "position_ok env w c e wm {}" "honest_read env e (sw_accounts w c e) wm rows"
  shows "covers env w c e t (ps.page_keys e rows)"
  unfolding covers_def
proof (intro impI ballI allI)
  fix row u x
  assume l: "lands (rn_landing env) (conn_of env c) e (sw_tables w)" and row: "row \<in> set (sw_accounts w c e)"
    and u: "stamp env e row = Some u \<and> u \<le> t \<and> str row (id_field e) = Some x"
  show "holds (sw_tables w) c e x \<or> x \<in> ps.page_keys e rows"
  proof (cases "Some row \<in> set rows")
    case True
    with u show ?thesis by (force simp: ps.page_keys_def row_key_def)
  next
    case False
    with assms(2) row u obtain s m where s: "wm = Some s" "isoInstant (rn_dp env) (Some s) = Some m" "u \<le> m"
      unfolding honest_read_def by (cases wm) fastforce+
    with assms(1) l row u show ?thesis by (auto simp: position_ok_def covers_def)
  qed
qed

lemma read_page:
  assumes "accounts_ok env w" "position_ok env w (ec_connectionId r) (ec_entity r) (ec_watermark r) {}"
    and "honest_read env (ec_entity r) (sw_accounts w (ec_connectionId r) (ec_entity r)) since rows" "since = None \<or> since = ec_watermark r"
  shows "position_ok env w (ec_connectionId r) (ec_entity r) (next_position env r rows) (ps.page_keys (ec_entity r) rows)"
proof -
  have "position_ok env w (ec_connectionId r) (ec_entity r) since {}" using assms(2,4) by (auto simp: position_ok_def)
  note c = read_covers [OF this assms(3)]
  show ?thesis
  proof (cases "next_position env r rows = ec_watermark r")
    case True
    with assms(2) c show ?thesis by (auto simp: position_ok_def split: option.splits)
  next
    case False
    have "set rows \<subseteq> Some ` set (sw_accounts w (ec_connectionId r) (ec_entity r))" using assms(3) by (simp add: honest_read_def)
    from next_position_known [OF assms(1) this False] c show ?thesis by (auto simp: position_ok_def)
  qed
qed


section \<open>Every step\<close>

lemma update_known:
  "\<forall>r. same_dataset r (f r) \<Longrightarrow> r' \<in> set (update_cursor i f cs) \<Longrightarrow> (r' \<in> set cs \<and> ec_id r' \<noteq> i) \<or> (\<exists>r\<in>set cs. ec_id r = i \<and> r' = f r \<and> same_dataset r r')"
  by (auto simp: update_cursor_def)

lemma same_dataset_refl [simp]: "same_dataset r r"
  by (simp add: same_dataset_def)

lemma cursor_ok_same: "cursor_ok env w r \<Longrightarrow> same_dataset r q \<Longrightarrow> ec_watermark q = None \<or> ec_watermark q = ec_watermark r \<Longrightarrow> cursor_ok env w q"
  by (auto simp: cursor_ok_def same_dataset_def position_ok_def)

lemma claim_same:
  "r' \<in> set (snd (try_claim i cs)) \<Longrightarrow> \<exists>r\<in>set cs. same_dataset r r' \<and> ec_watermark r' = ec_watermark r"
  by (auto simp: try_claim_def Let_def same_dataset_def)

lemma failure_same:
  assumes "releaseErpCursorFailure env i n err now cs = (st, cs')" "r' \<in> set cs'"
  shows "\<exists>r\<in>set cs. same_dataset r r' \<and> (ec_watermark r' = None \<or> ec_watermark r' = ec_watermark r)"
proof -
  obtain g st' where g: "cs' = update_cursor i g cs" "parks st' g" using failure_parks [of env i n err now cs] assms(1) by auto
  from assms(2) g show ?thesis by (auto simp: update_cursor_def parks_def same_dataset_def split: if_splits)
qed

lemma reset_same:
  "r' \<in> set (snd (resetCursorsForConnection c cs)) \<Longrightarrow> \<exists>r\<in>set cs. same_dataset r r' \<and> (ec_watermark r' = None \<or> ec_watermark r' = ec_watermark r)"
  by (auto simp: resetCursorsForConnection_def unstarted_def same_dataset_def)

text \<open>A step that only parks cursors or moves jobs along.\<close>

lemma cursors_kept:
  assumes "world_ok env w" "w' = w\<lparr>sw_cursors := cs, sw_jobs := js\<rparr>" "job_cursor ` set js \<subseteq> job_cursor ` set (sw_jobs w) \<union> set (sw_cursors w)"
    and "\<forall>r'\<in>set cs. \<exists>r\<in>set (sw_cursors w). same_dataset r r' \<and> (ec_watermark r' = None \<or> ec_watermark r' = ec_watermark r)"
    and "\<forall>j\<in>set js. page_ok env w j"
  shows "world_ok env w'"
proof (rule preserved [OF assms(1)])
  show g: "grows env w w'" by (rule grows_refl) (simp_all add: assms(2))
  show "accounts_ok env w'" using assms(1,2) by (simp add: world_ok_def accounts_ok_def)
  show "\<forall>r'\<in>known w'. \<exists>r\<in>known w. same_dataset r r'"
  proof
    fix r'
    assume "r' \<in> known w'"
    then consider "r' \<in> set cs" | "r' \<in> job_cursor ` set js" by (auto simp: known_def assms(2))
    then show "\<exists>r\<in>known w. same_dataset r r'"
    proof cases
      case 1
      with assms(4) show ?thesis by (auto simp: known_def)
    next
      case 2
      then have "r' \<in> known w" using assms(3) by (auto simp: known_def)
      then show ?thesis by (auto intro: bexI [of _ r'])
    qed
  qed
  have ok: "cursor_ok env w r" if "r \<in> known w" for r using assms(1) that by (auto simp: world_ok_def known_def job_ok_def)
  show "\<forall>r\<in>set (sw_cursors w'). r \<in> set (sw_cursors w) \<or> cursor_ok env w' r"
  proof (intro ballI disjI2)
    fix r'
    assume "r' \<in> set (sw_cursors w')"
    then have "r' \<in> set cs" by (simp add: assms(2))
    with assms(4) obtain r where r: "r \<in> set (sw_cursors w)" "same_dataset r r'" "ec_watermark r' = None \<or> ec_watermark r' = ec_watermark r" by blast
    have "cursor_ok env w r" using ok r(1) by (simp add: known_def)
    from grows_cursor [OF g cursor_ok_same [OF this r(2,3)]] show "cursor_ok env w' r'" .
  qed
  show "\<forall>j\<in>set (sw_jobs w'). j \<in> set (sw_jobs w) \<or> job_ok env w' j"
  proof (intro ballI disjI2)
    fix j
    assume j: "j \<in> set (sw_jobs w')"
    then have "job_cursor j \<in> known w" using assms(2,3) by (auto simp: known_def)
    with ok j assms(2,5) have "job_ok env w j" by (simp add: job_ok_def)
    with grows_job [OF g] show "job_ok env w' j" by blast
  qed
qed

lemma jobs_page: "world_ok env w \<Longrightarrow> j \<in> set (sw_jobs w) \<Longrightarrow> page_ok env w j \<and> cursor_ok env w (job_cursor j)"
  by (simp add: world_ok_def job_ok_def)

lemma same_rows: "\<forall>r'\<in>set cs. \<exists>r\<in>set cs. same_dataset r r' \<and> (ec_watermark r' = None \<or> ec_watermark r' = ec_watermark r)"
  by (auto intro!: bexI)

lemma world_unchanged: "w\<lparr>sw_jobs := js\<rparr> = w\<lparr>sw_cursors := sw_cursors w, sw_jobs := js\<rparr>" "w\<lparr>sw_cursors := cs\<rparr> = w\<lparr>sw_cursors := cs, sw_jobs := sw_jobs w\<rparr>"
  by simp_all

lemma vendor_kept:
  assumes "world_ok env w" "grows env w w'" "accounts_ok env w'" "sw_cursors w' = sw_cursors w" "sw_jobs w' = sw_jobs w"
  shows "world_ok env w'"
proof (rule preserved [OF assms(1-3)])
  have "known w' = known w" using assms(4,5) by (simp add: known_def)
  then show "\<forall>r'\<in>known w'. \<exists>r\<in>known w. same_dataset r r'" using same_dataset_refl by blast
qed (simp_all add: assms(4,5))


lemma remove_job: "set (remove1 j (sw_jobs w)) \<subseteq> set (sw_jobs w)"
  by (rule set_remove1_subset)

lemma read_kept:
  assumes "world_ok env w" "j \<in> set (sw_jobs w)" "job_cursor j = r" "since = None \<or> since = ec_watermark r"
    and "honest_read env (ec_entity r) (sw_accounts w (ec_connectionId r) (ec_entity r)) since rows"
  shows "world_ok env (w\<lparr>sw_jobs := Landing r rows # remove1 j (sw_jobs w)\<rparr>)"
proof (rule cursors_kept [OF assms(1) world_unchanged(1) _ same_rows])
  show "job_cursor ` set (Landing r rows # remove1 j (sw_jobs w)) \<subseteq> job_cursor ` set (sw_jobs w) \<union> set (sw_cursors w)"
    using assms(2,3) remove_job [of j w] by auto
  have "cursor_ok env w r" "accounts_ok env w" using assms(1-3) jobs_page by (auto simp: world_ok_def)
  then have "page_ok env w (Landing r rows)" using read_page [OF _ _ assms(5,4)] by (simp add: cursor_ok_def)
  then show "\<forall>i\<in>set (Landing r rows # remove1 j (sw_jobs w)). page_ok env w i"
    using jobs_page [OF assms(1)] remove_job [of j w] by auto
qed

lemma lands_on_box: "lands env conn e t \<Longrightarrow> landsOnBox e"
  by (auto simp: lands_def landsOnBox_def split: if_splits)

lemma landed_page:
  assumes "position_ok env w c e wm (ps.page_keys e rows)"
    and "w' = w\<lparr>sw_tables := (if landsOnBox e then snd (landCanonicalRows (rn_landing env) (conn_of env c) e rows now (sw_tables w)) else sw_tables w), sw_jobs := js\<rparr>"
  shows "position_ok env w' c e wm {}"
proof (cases wm)
  case (Some s)
  have g: "grows env w w'" unfolding assms(2) by (rule grows_land)
  obtain t where t: "isoInstant (rn_dp env) (Some s) = Some t" "t \<le> sw_clock w c e" "covers env w c e t (ps.page_keys e rows)"
    using assms(1) Some by (auto simp: position_ok_def)
  have "covers env w' c e t {}"
    unfolding covers_def
  proof (intro impI ballI allI)
    fix row u x
    assume l: "lands (rn_landing env) (conn_of env c) e (sw_tables w')" and row: "row \<in> set (sw_accounts w' c e)"
      and u: "stamp env e row = Some u \<and> u \<le> t \<and> str row (id_field e) = Some x"
    have "ld_owners (sw_tables w') = ld_owners (sw_tables w)" using g by (simp add: grows_def)
    with l have l': "lands (rn_landing env) (conn_of env c) e (sw_tables w)" using lands_owners by metis
    have "holds (sw_tables w') c e x" if "x \<in> ps.page_keys e rows"
      using that ps.page_fills [OF l', of "{x}" rows now] lands_on_box [OF l'] by (auto simp: assms(2) conn_of_def)
    moreover have "holds (sw_tables w') c e x \<or> x \<in> ps.page_keys e rows"
      using grows_covers [OF g t(3,2)] l row u unfolding covers_def by blast
    ultimately show "holds (sw_tables w') c e x \<or> x \<in> {}" by blast
  qed
  with t(1,2) Some show ?thesis by (auto simp: position_ok_def assms(2))
qed (simp add: position_ok_def)

lemma land_kept:
  assumes "world_ok env w" "Landing r rows \<in> set (sw_jobs w)"
    and "w' = w\<lparr>sw_tables := (if landsOnBox (ec_entity r) then snd (landCanonicalRows (rn_landing env) (conn_of env (ec_connectionId r)) (ec_entity r) rows now (sw_tables w)) else sw_tables w),
      sw_jobs := Releasing r rows # remove1 (Landing r rows) (sw_jobs w)\<rparr>"
  shows "world_ok env w'"
proof (rule preserved [OF assms(1)])
  show g: "grows env w w'" unfolding assms(3) by (rule grows_land)
  show "accounts_ok env w'" using assms(1) by (simp add: world_ok_def accounts_ok_def assms(3))
  have "known w' \<subseteq> known w" using assms(2) remove_job [of "Landing r rows" w] by (force simp: known_def assms(3))
  then show "\<forall>r'\<in>known w'. \<exists>r\<in>known w. same_dataset r r'" using same_dataset_refl by blast
  have "job_ok env w (Landing r rows)" using assms(1,2) by (simp add: world_ok_def)
  then have "cursor_ok env w' r" "page_ok env w' (Releasing r rows)" using grows_cursor [OF g] landed_page [OF _ assms(3)] by (simp_all add: job_ok_def)
  then show "\<forall>j\<in>set (sw_jobs w'). j \<in> set (sw_jobs w) \<or> job_ok env w' j" using remove_job [of "Landing r rows" w] by (auto simp: assms(3) job_ok_def)
qed (simp add: assms(3))

lemma released_same: "same_dataset r (released wm now sw r)" "ec_watermark (released wm now sw r) = wm"
  by (auto simp: released_def same_dataset_def Let_def split: option.split)

lemma release_kept:
  assumes "world_ok env w" "Releasing r rows \<in> set (sw_jobs w)"
    and "w' = w\<lparr>sw_cursors := releaseErpCursorSuccess (ec_id r) (next_position env r rows) now sweptAt (sw_cursors w), sw_jobs := remove1 (Releasing r rows) (sw_jobs w)\<rparr>"
  shows "world_ok env w'"
proof (rule preserved [OF assms(1)])
  show g: "grows env w w'" by (rule grows_refl) (simp_all add: assms(3))
  show "accounts_ok env w'" using assms(1) by (simp add: world_ok_def accounts_ok_def assms(3))
  note same = update_known [of "released (next_position env r rows) now sweptAt", unfolded releaseErpCursorSuccess_def [symmetric]]
  show "\<forall>r'\<in>known w'. \<exists>r\<in>known w. same_dataset r r'"
  proof
    fix r'
    assume "r' \<in> known w'"
    then consider "r' \<in> set (sw_cursors w')" | "r' \<in> known w" using remove_job [of "Releasing r rows" w] by (auto simp: known_def assms(3))
    then show "\<exists>q\<in>known w. same_dataset q r'"
    proof cases
      case 1
      with same [OF allI [OF released_same(1)], of r' "ec_id r" "sw_cursors w"] have "\<exists>q\<in>set (sw_cursors w). same_dataset q r'"
        using same_dataset_refl unfolding assms(3) by simp (metis same_dataset_refl)
      then show ?thesis by (auto simp: known_def)
    next
      case 2
      then show ?thesis using same_dataset_refl by blast
    qed
  qed
  have j: "job_ok env w (Releasing r rows)" using assms(1,2) by (simp add: world_ok_def)
  show "\<forall>r'\<in>set (sw_cursors w'). r' \<in> set (sw_cursors w) \<or> cursor_ok env w' r'"
  proof
    fix r'
    assume "r' \<in> set (sw_cursors w')"
    then consider "r' \<in> set (sw_cursors w)" | q where "q \<in> set (sw_cursors w)" "ec_id q = ec_id r" "r' = released (next_position env r rows) now sweptAt q"
      using same [OF allI [OF released_same(1)], of r' "ec_id r" "sw_cursors w"] by (auto simp: assms(3))
    then show "r' \<in> set (sw_cursors w) \<or> cursor_ok env w' r'"
    proof cases
      case 2
      have "r \<in> known w" "q \<in> known w" using assms(2) 2(1) by (force simp: known_def)+
      with assms(1) 2(2) have "same_dataset r q" by (auto simp: world_ok_def ids_ok_def)
      with released_same(1) [of q] released_same(2) [of "next_position env r rows"] 2(3) have r': "same_dataset r r'" "ec_watermark r' = next_position env r rows"
        by (simp_all add: same_dataset_def)
      have "ec_id r \<in> sw_used w" "position_ok env w (ec_connectionId r) (ec_entity r) (next_position env r rows) {}" using j by (simp_all add: job_ok_def cursor_ok_def)
      with r' have "cursor_ok env w r'" by (simp add: cursor_ok_def same_dataset_def)
      with grows_cursor [OF g] show ?thesis by blast
    qed simp
  qed
  show "\<forall>j\<in>set (sw_jobs w'). j \<in> set (sw_jobs w) \<or> job_ok env w' j" using remove_job [of "Releasing r rows" w] by (auto simp: assms(3))
qed

lemma register_kept:
  assumes "world_ok env w" "newId \<notin> sw_used w" "w' = w\<lparr>sw_cursors := upsertErpCursor newId c e (sw_cursors w), sw_used := insert newId (sw_used w)\<rparr>"
  shows "world_ok env w'"
proof -
  have g: "grows env w w'" by (rule grows_refl) (auto simp: assms(3))
  have used: "ec_id r \<in> sw_used w" if "r \<in> known w" for r using assms(1) that by (auto simp: world_ok_def known_def job_ok_def cursor_ok_def)
  have new: "r \<in> known w \<or> ec_id r = newId \<and> ec_connectionId r = c \<and> ec_entity r = e \<and> ec_watermark r = None" if "r \<in> known w'" for r
    using that by (auto simp: known_def assms(3) upsertErpCursor_def split: if_splits)
  have "ids_ok w'" unfolding ids_ok_def
  proof (intro ballI impI)
    fix r q
    assume k: "r \<in> known w'" "q \<in> known w'" and i: "ec_id q = ec_id r"
    show "same_dataset r q"
    proof (cases "r \<in> known w")
      case True
      then have "q \<in> known w" using new [OF k(2)] used [OF True] i assms(2) by auto
      with True i assms(1) show ?thesis by (auto simp: world_ok_def ids_ok_def)
    next
      case False
      then have "q \<notin> known w" using new [OF k(1)] used [of q] i assms(2) by auto
      with False new k show ?thesis by (auto simp: same_dataset_def)
    qed
  qed
  moreover have "cursor_ok env w' r" if "r \<in> set (sw_cursors w')" for r
  proof (cases "r \<in> set (sw_cursors w)")
    case True
    with assms(1) grows_cursor [OF g] show ?thesis by (auto simp: world_ok_def)
  next
    case False
    with that show ?thesis by (auto simp: assms(3) upsertErpCursor_def cursor_ok_def position_ok_def split: if_splits)
  qed
  moreover have "\<forall>j\<in>set (sw_jobs w'). job_ok env w' j" using assms(1) grows_job [OF g] by (auto simp: world_ok_def assms(3))
  moreover have "accounts_ok env w'" using assms(1) by (simp add: world_ok_def accounts_ok_def assms(3))
  ultimately show ?thesis by (simp add: world_ok_def)
qed

lemma step_kept:
  assumes "sync_step env w w'" "world_ok env w"
  shows "world_ok env w'"
  using assms
proof cases
  case (vendor_edit e row t c)
  let ?acc = "set2 c e (filter (\<lambda>q. str q (id_field e) \<noteq> str row (id_field e)) (sw_accounts w c e) @ [row]) (sw_accounts w)"
  have "accounts_ok env w'" unfolding accounts_ok_def
  proof (intro allI ballI)
    fix c' e' q
    assume q: "q \<in> set (sw_accounts w' c' e')"
    have ok: "\<exists>u. stamp env e' q = Some u \<and> u \<le> sw_clock w c' e'" if "q \<in> set (sw_accounts w c' e')"
      using assms(2) that by (auto simp: world_ok_def accounts_ok_def)
    show "\<exists>u. stamp env e' q = Some u \<and> u \<le> sw_clock w' c' e'"
      using q ok vendor_edit by (auto simp: set2_def split: if_splits)
  qed
  then show ?thesis using vendor_kept [OF assms(2) _ \<open>accounts_ok env w'\<close>] grows_edit [OF vendor_edit(2,3)] vendor_edit(1) by simp
next
  case (vendor_delete c e P)
  have "grows env w w'" by (auto simp: vendor_delete grows_def set2_def split: if_splits)
  moreover have "accounts_ok env w'" using assms(2) by (auto simp: vendor_delete world_ok_def accounts_ok_def set2_def split: if_splits)
  ultimately show ?thesis using vendor_kept [OF assms(2)] vendor_delete by simp
next
  case (take_snapshot r)
  then show ?thesis
    by (intro cursors_kept [OF assms(2) _ _ same_rows]) (use assms(2) in \<open>auto simp: jobs_page\<close>)
next
  case (claim_cursor r taken cs)
  then have cs: "cs = snd (try_claim (ec_id r) (sw_cursors w))" by simp
  have "job_cursor ` set ((if taken then [Claimed r] else []) @ remove1 (Snapshot r) (sw_jobs w)) \<subseteq> job_cursor ` set (sw_jobs w) \<union> set (sw_cursors w)"
    using claim_cursor(2) notin_set_remove1 by (force dest: set_remove1_subset [THEN subsetD])
  moreover have "\<forall>j\<in>set ((if taken then [Claimed r] else []) @ remove1 (Snapshot r) (sw_jobs w)). page_ok env w j"
    using jobs_page [OF assms(2)] set_remove1_subset by force
  moreover have "\<forall>r'\<in>set cs. \<exists>q\<in>set (sw_cursors w). same_dataset q r' \<and> (ec_watermark r' = None \<or> ec_watermark r' = ec_watermark q)"
    using claim_same unfolding cs by blast
  ultimately show ?thesis using cursors_kept [OF assms(2) claim_cursor(1)] by blast
next
  case (sweep_cursor r)
  then show ?thesis
    by (intro cursors_kept [OF assms(2) _ _ same_rows]) (use assms(2) in \<open>auto simp: jobs_page\<close>)
next
  case (fail_cursor i n err now st cs)
  have "\<forall>r'\<in>set cs. \<exists>q\<in>set (sw_cursors w). same_dataset q r' \<and> (ec_watermark r' = None \<or> ec_watermark r' = ec_watermark q)"
    using failure_same [OF fail_cursor(2)] by blast
  with cursors_kept [OF assms(2) world_unchanged(2)] jobs_page [OF assms(2)] fail_cursor(1) show ?thesis by auto
next
  case (lose_job j)
  then show ?thesis using remove_job [of j w]
    by (intro cursors_kept [OF assms(2) _ _ same_rows]) (use assms(2) in \<open>auto simp: jobs_page\<close>)
next
  case (reset_cursors c)
  have "\<forall>r'\<in>set (snd (resetCursorsForConnection c (sw_cursors w))). \<exists>q\<in>set (sw_cursors w). same_dataset q r' \<and> (ec_watermark r' = None \<or> ec_watermark r' = ec_watermark q)"
    using reset_same by blast
  with cursors_kept [OF assms(2) world_unchanged(2)] jobs_page [OF assms(2)] reset_cursors show ?thesis by auto
next
  case (read_since r rows)
  from read_kept [OF assms(2) read_since(2) job_cursor.simps(2) disjI2 [OF refl] read_since(4)] show ?thesis unfolding read_since(1) .
next
  case (read_full r rows)
  from read_kept [OF assms(2) read_full(2) job_cursor.simps(3) disjI1 [OF refl] read_full(4)] show ?thesis unfolding read_full(1) .
next
  case (land_page r rows now)
  then show ?thesis using land_kept [OF assms(2)] by blast
next
  case (release_cursor r rows now sweptAt)
  then show ?thesis using release_kept [OF assms(2)] by blast
next
  case (register_cursor newId c e)
  then show ?thesis using register_kept [OF assms(2)] by blast
qed


lemma run_kept: "sync_run env w w' \<Longrightarrow> world_ok env w \<Longrightarrow> world_ok env w'"
  by (induction rule: rtranclp_induct) (auto intro: step_kept)

text \<open>A box on which nothing was read yet: cursors without a position, and vendors with whatever their accounts hold.\<close>

definition fresh_box :: "run_env \<Rightarrow> sync_world \<Rightarrow> bool" where
  "fresh_box env w \<longleftrightarrow> accounts_ok env w \<and> sw_jobs w = [] \<and> distinct (map ec_id (sw_cursors w)) \<and> ec_id ` set (sw_cursors w) \<subseteq> sw_used w
     \<and> (\<forall>r\<in>set (sw_cursors w). ec_watermark r = None)"

lemma fresh_ok: "fresh_box env w \<Longrightarrow> world_ok env w"
  unfolding fresh_box_def world_ok_def
  by (auto simp: ids_ok_def known_def cursor_ok_def position_ok_def same_dataset_def distinct_map dest!: inj_onD)


end
