(* ===== verification/Erp_Properties.thy ===== *)
theory Erp_Properties
  imports Erp_Run
begin

text \<open>
  The runner against the steps of \<open>Erp_Run\<close>: a tick and a sweep are runs of the step relation, so what holds of every run holds of them
  in any company.  And what a tick leaves behind: no cursor it claimed stays taken.
\<close>

section \<open>The runner as a run\<close>

definition view :: "sync_world \<Rightarrow> box \<Rightarrow> job list \<Rightarrow> sync_world" where
  "view w b js = w\<lparr>sw_cursors := bx_cursors b, sw_tables := bx_tables b, sw_jobs := js\<rparr>"

text \<open>The environment of a run of the code is one of the steps: the vendor answers honestly, and a connection keeps its provider.\<close>

definition agrees :: "run_env \<Rightarrow> sync_env \<Rightarrow> sync_world \<Rightarrow> bool" where
  "agrees renv env w \<longleftrightarrow> rn_landing renv = sy_landing env \<and> rn_release renv = sy_release env
     \<and> (\<forall>c e full since rows. sy_read env c e full since = Inr rows \<longrightarrow> honest_read renv e (sw_accounts w c e) since rows)"

definition providers_ok :: "run_env \<Rightarrow> box \<Rightarrow> bool" where
  "providers_ok renv b \<longleftrightarrow> (\<forall>c\<in>set (bx_connections b). cn_provider c = rn_provider renv (cn_id c))"

lemma view_fields [simp]:
  "sw_cursors (view w b js) = bx_cursors b" "sw_tables (view w b js) = bx_tables b" "sw_jobs (view w b js) = js"
  "sw_accounts (view w b js) = sw_accounts w"
  by (simp_all add: view_def)

lemma view_updates [simp]:
  "(view w b js)\<lparr>sw_jobs := js'\<rparr> = view w b js'"
  "(view w b js)\<lparr>sw_cursors := cs\<rparr> = view w (b\<lparr>bx_cursors := cs\<rparr>) js"
  "(view w b js)\<lparr>sw_tables := t\<rparr> = view w (b\<lparr>bx_tables := t\<rparr>) js"
  by (simp_all add: view_def)

lemma view_cong: "bx_cursors b' = bx_cursors b \<Longrightarrow> bx_tables b' = bx_tables b \<Longrightarrow> view w b' js = view w b js"
  by (simp add: view_def)

text \<open>Boxes that differ in reports and counters only.\<close>

definition same_box :: "box \<Rightarrow> box \<Rightarrow> bool" where
  "same_box b b' \<longleftrightarrow> bx_cursors b' = bx_cursors b \<and> bx_tables b' = bx_tables b \<and> bx_connections b' = bx_connections b"

lemma same_box_refl [simp]: "same_box b b"
  by (simp add: same_box_def)

lemma audit_same: "audit env row b = (res, b') \<Longrightarrow> same_box b b'"
  by (auto simp: audit_def same_box_def split: option.splits)

lemma report_same: "report_failure env c e st b = (res, b') \<Longrightarrow> same_box b b'"
  by (auto simp: report_failure_def dest: audit_same split: prod.splits sum.splits)

lemma same_view: "same_box b b' \<Longrightarrow> view w b' js = view w b js"
  unfolding same_box_def by (elim conjE) (rule view_cong)

lemma run_fail:
  assumes "rn_release renv = sy_release env"
  shows "sync_run renv (view w b js) (view w (snd (release_failure env i n err b)) js)"
proof -
  obtain st cs where r: "releaseErpCursorFailure (sy_release env) i n err (sy_now env) (bx_cursors b) = (st, cs)" by fastforce
  then have "sync_step renv (view w b js) ((view w b js)\<lparr>sw_cursors := cs\<rparr>)" using assms by (intro fail_cursor [where i = i and n = n and err = err and now = "sy_now env" and st = st]) simp
  with r show ?thesis by (simp add: release_failure_def r_into_rtranclp)
qed

lemma loaded: "loadConnection i b = Some c \<Longrightarrow> c \<in> set (bx_connections b) \<and> cn_id c = i"
  by (auto simp: loadConnection_def find_Some_iff)

lemma readEntity_rows: "readEntity env c e full since = Inr rows \<Longrightarrow> sy_read env c e full since = Inr rows"
  by (auto simp: readEntity_def fault_def split: option.splits)

text \<open>A page that was read, landed and released.\<close>

lemma run_page:
  assumes a: "agrees renv env w" and p: "cn_provider conn = rn_provider renv (cn_id conn)" and c: "ec_connectionId r = cn_id conn"
    and s: "erpSyncEntity (ec_entity r) = Some spec" and l: "land env conn (ec_entity r) full rows b = (Inr outcome, b1)" and j: "Landing r rows \<in> set js"
  shows "sync_run renv (view w b js) (view w (release_success env (ec_id r) (next_watermark (le_dp (sy_landing env)) spec rows (ec_watermark r)) sw b1) (remove1 (Landing r rows) js))"
proof -
  let ?js = "Releasing r rows # remove1 (Landing r rows) js"
  have conn: "conn_of renv (ec_connectionId r) = landing_of conn" using p c by (simp add: conn_of_def landing_of_def)
  have land: "rn_landing renv = sy_landing env" using a by (simp add: agrees_def)
  have "sync_step renv (view w b js) (view w b1 ?js)"
    using land_page [of r rows "view w b js" renv "sy_now env"] j l conn land
    by (auto simp: land_def view_def split: if_splits option.splits prod.splits)
  moreover have "next_position renv r rows = next_watermark (le_dp (sy_landing env)) spec rows (ec_watermark r)" using s land by (simp add: next_position_def)
  then have "sync_step renv (view w b1 ?js)
      (view w (release_success env (ec_id r) (next_watermark (le_dp (sy_landing env)) spec rows (ec_watermark r)) sw b1) (remove1 (Landing r rows) js))"
    using release_cursor [of r rows "view w b1 ?js" renv "sy_now env" sw] by (simp add: release_success_def)
  ultimately show ?thesis by (meson converse_rtranclp_into_rtranclp r_into_rtranclp)
qed

lemma land_failed: "land env conn e full rows b = (Inl err, b1) \<Longrightarrow> b1 = b"
  by (auto simp: land_def split: if_splits option.splits prod.splits)

lemma land_connections: "land env conn e full rows b = (res, b1) \<Longrightarrow> bx_connections b1 = bx_connections b"
  by (auto simp: land_def split: if_splits option.splits prod.splits)

section \<open>What one cursor's run does\<close>

definition after_page :: "sync_env \<Rightarrow> erp_cursor \<Rightarrow> box \<Rightarrow> box \<Rightarrow> bool" where
  "after_page env c b b2 \<longleftrightarrow> (\<exists>conn spec rows outcome b1. erpSyncEntity (ec_entity c) = Some spec \<and> loadConnection (ec_connectionId c) b = Some conn
     \<and> readEntity env (cn_id conn) (ec_entity c) False (ec_watermark c) = Inr rows \<and> land env conn (ec_entity c) False rows b = (Inr outcome, b1)
     \<and> b2 = advanceLastHealthy (cn_id conn) (sy_now env)
         (release_success env (ec_id c) (next_watermark (le_dp (sy_landing env)) spec rows (ec_watermark c)) None b1))"

definition failed_from :: "sync_env \<Rightarrow> erp_cursor \<Rightarrow> box \<Rightarrow> box \<Rightarrow> bool" where
  "failed_from env c b b' \<longleftrightarrow> (\<exists>err. same_box (snd (release_failure env (ec_id c) (ec_consecutiveFailures c) err b)) b')"

lemma body_cases:
  assumes "sync_body env conn spec c b = (res, b')" "erpSyncEntity (ec_entity c) = Some spec" "loadConnection (ec_connectionId c) b = Some conn"
  shows "(\<exists>e. res = Inl e) \<and> b' = b \<or> (\<exists>b2. after_page env c b b2 \<and> same_box b2 b')"
proof (cases "sy_connect env conn")
  case None
  show ?thesis
  proof (cases "readEntity env (cn_id conn) (ec_entity c) False (ec_watermark c)")
    case (Inr rows)
    obtain lres b1 where l: "land env conn (ec_entity c) False rows b = (lres, b1)" by fastforce
    show ?thesis
    proof (cases lres)
      case (Inl e)
      then show ?thesis using assms(1) None Inr l land_failed by (auto simp: sync_body_def)
    next
      case outcome: (Inr outcome)
      let ?b2 = "advanceLastHealthy (cn_id conn) (sy_now env)
         (release_success env (ec_id c) (next_watermark (le_dp (sy_landing env)) spec rows (ec_watermark c)) None b1)"
      have "after_page env c b ?b2" using assms(2,3) Inr l outcome unfolding after_page_def by blast
      moreover have "same_box ?b2 b'" using assms(1) None Inr l outcome by (simp add: sync_body_def Let_def audit_same)
      ultimately show ?thesis by blast
    qed
  qed (use assms(1) None in \<open>auto simp: sync_body_def\<close>)
qed (use assms(1) in \<open>auto simp: sync_body_def\<close>)

lemma failed_intro: "release_failure env (ec_id c) (ec_consecutiveFailures c) err b = (st, b1) \<Longrightarrow> same_box b1 b' \<Longrightarrow> failed_from env c b b'"
  unfolding failed_from_def by (metis snd_conv)

lemma failed_same: "same_box b b0 \<Longrightarrow> failed_from env c b0 b' \<Longrightarrow> failed_from env c b b'"
  by (auto simp: failed_from_def release_failure_def same_box_def split: prod.splits)

lemma cursor_cases:
  assumes "runOneCursor env c b = (res, b')"
  shows "failed_from env c b b' \<or> (\<exists>b2. after_page env c b b2 \<and> (same_box b2 b' \<or> failed_from env c b2 b'))"
proof (cases "erpSyncEntity (ec_entity c) = None \<or> loadConnection (ec_connectionId c) b = None")
  case True
  obtain st b1 where r: "release_failure env (ec_id c) (ec_consecutiveFailures c) (absent_failure env (erpSyncEntity (ec_entity c) \<noteq> None)) b = (st, b1)" by fastforce
  with assms True have "same_box b1 b'"
    by (auto simp: runOneCursor_def dest: audit_same split: option.splits prod.splits sum.splits)
  with failed_intro [OF r] show ?thesis by blast
next
  case False
  then obtain spec conn where sc: "erpSyncEntity (ec_entity c) = Some spec" "loadConnection (ec_connectionId c) b = Some conn" by auto
  show ?thesis
  proof (cases "sy_construct env conn")
    case (Some e)
    with assms sc show ?thesis by (auto simp: runOneCursor_def intro: failed_intro dest: report_same split: prod.splits)
  next
    case None
    obtain r1 b1 where body: "sync_body env conn spec c b = (r1, b1)" by fastforce
    show ?thesis
    proof (cases r1)
      case (Inl e)
      obtain st b2 where r: "release_failure env (ec_id c) (ec_consecutiveFailures c) (failure_of env e (retryAfterOf e)) b1 = (st, b2)" by fastforce
      with assms sc None body Inl have "same_box b2 b'" by (auto simp: runOneCursor_def dest: report_same)
      with body_cases [OF body sc] failed_intro [OF r] failed_same show ?thesis by blast
    next
      case (Inr u)
      with assms sc None body have "b' = b1" by (simp add: runOneCursor_def)
      with body_cases [OF body sc] Inr show ?thesis by auto
    qed
  qed
qed


section \<open>Ticks and sweeps are runs\<close>

text \<open>From one box to another by steps, which leave every job but the named one in place.\<close>

definition leads :: "run_env \<Rightarrow> sync_world \<Rightarrow> job set \<Rightarrow> job list \<Rightarrow> box \<Rightarrow> box \<Rightarrow> bool" where
  "leads renv w gone js b b' \<longleftrightarrow> providers_ok renv b' \<and> (\<exists>js'. sync_run renv (view w b js) (view w b' js') \<and> set js - gone \<subseteq> set js')"

lemma providers_same: "bx_connections b' = bx_connections b \<Longrightarrow> providers_ok renv b' \<longleftrightarrow> providers_ok renv b"
  by (simp add: providers_ok_def)

lemma leads_same: "leads renv w gone js b b1 \<Longrightarrow> same_box b1 b' \<Longrightarrow> leads renv w gone js b b'"
proof -
  assume l: "leads renv w gone js b b1" and s: "same_box b1 b'"
  then have "providers_ok renv b'" using providers_same [of b' b1] by (simp add: leads_def same_box_def)
  with l show ?thesis unfolding leads_def same_view [OF s] by blast
qed

lemma leads_fail:
  assumes "leads renv w gone js b b1" "rn_release renv = sy_release env"
  shows "leads renv w gone js b (snd (release_failure env i n err b1))"
proof -
  have "bx_connections (snd (release_failure env i n err b1)) = bx_connections b1" by (simp add: release_failure_def split: prod.split)
  from providers_same [OF this] assms(1) run_fail [OF assms(2), of w b1] show ?thesis unfolding leads_def by (meson rtranclp_trans)
qed

lemma leads_refl: "providers_ok renv b \<Longrightarrow> leads renv w gone js b b"
  unfolding leads_def by blast

lemma after_page_leads:
  assumes a: "agrees renv env w" and p: "providers_ok renv b" and j: "Claimed c \<in> set js" and "after_page env c b b2"
  shows "leads renv w {Claimed c} js b b2"
proof -
  from assms(4) obtain conn spec rows outcome b1 where sc: "erpSyncEntity (ec_entity c) = Some spec" "loadConnection (ec_connectionId c) b = Some conn"
    and rd: "readEntity env (cn_id conn) (ec_entity c) False (ec_watermark c) = Inr rows"
    and l: "land env conn (ec_entity c) False rows b = (Inr outcome, b1)"
    and b2: "b2 = advanceLastHealthy (cn_id conn) (sy_now env)
         (release_success env (ec_id c) (next_watermark (le_dp (sy_landing env)) spec rows (ec_watermark c)) None b1)"
    unfolding after_page_def by blast
  let ?js = "Landing c rows # remove1 (Claimed c) js"
  have conn: "cn_provider conn = rn_provider renv (cn_id conn)" "ec_connectionId c = cn_id conn" using loaded [OF sc(2)] p by (auto simp: providers_ok_def)
  have "honest_read renv (ec_entity c) (sw_accounts w (ec_connectionId c) (ec_entity c)) (ec_watermark c) rows"
    using a readEntity_rows [OF rd] conn(2) by (simp add: agrees_def)
  then have "sync_step renv (view w b js) (view w b ?js)" using read_since [of c "view w b js" renv rows] j sc(1) by simp
  moreover have "sync_run renv (view w b ?js) (view w b2 (remove1 (Landing c rows) ?js))"
    using run_page [OF a conn sc(1) l, of ?js None] by (simp add: b2 view_def advanceLastHealthy_def)
  moreover have "set js - {Claimed c} \<subseteq> set (remove1 (Landing c rows) ?js)" using in_set_remove1 by fastforce
  moreover have "providers_ok renv b2" using p land_connections [OF l] by (auto simp: b2 providers_ok_def advanceLastHealthy_def release_success_def)
  ultimately show ?thesis unfolding leads_def by (meson converse_rtranclp_into_rtranclp)
qed

lemma cursor_leads:
  assumes "agrees renv env w" "providers_ok renv b" "Claimed c \<in> set js" "runOneCursor env c b = (res, b')"
  shows "leads renv w {Claimed c} js b b'"
proof -
  have rel: "rn_release renv = sy_release env" using assms(1) by (simp add: agrees_def)
  have fails: "leads renv w {Claimed c} js b b'" if "leads renv w {Claimed c} js b b1" "failed_from env c b1 b'" for b1
    using that leads_fail [OF that(1) rel] leads_same unfolding failed_from_def by blast
  from cursor_cases [OF assms(4)] show ?thesis
    using fails leads_refl [OF assms(2)] after_page_leads [OF assms(1-3)] leads_same by blast
qed

lemma claimed_lead:
  "agrees renv env w \<Longrightarrow> providers_ok renv b \<Longrightarrow> distinct cs \<Longrightarrow> Claimed ` set cs \<subseteq> set js \<Longrightarrow> run_claimed env cs b = (res, b')
    \<Longrightarrow> leads renv w (Claimed ` set cs) js b b'"
proof (induction env cs b arbitrary: js res b' rule: run_claimed.induct)
  case (1 env b)
  then show ?case by (simp add: leads_refl)
next
  case (2 env c cs b)
  obtain r1 b1 where one: "runOneCursor env c b = (r1, b1)" by fastforce
  from 2(5) have "Claimed c \<in> set js" by simp
  from cursor_leads [OF 2(2,3) this one] obtain js1 where js1: "providers_ok renv b1" "sync_run renv (view w b js) (view w b1 js1)" "set js - {Claimed c} \<subseteq> set js1"
    unfolding leads_def by blast
  show ?case
  proof (cases r1)
    case (Inl e)
    with 2(6) one have "b' = b1" by simp
    with js1 show ?thesis unfolding leads_def by auto
  next
    case (Inr st)
    then obtain r2 where rest: "run_claimed env cs b1 = (r2, b')" using 2(6) one by (auto split: prod.splits sum.splits)
    have "Claimed ` set cs \<subseteq> set js1" using 2(4,5) js1(3) by auto
    from 2(1) [OF one [symmetric] Inr 2(2) js1(1) _ this rest] 2(4) obtain js2 where
      "providers_ok renv b'" "sync_run renv (view w b1 js1) (view w b' js2)" "set js1 - Claimed ` set cs \<subseteq> set js2" unfolding leads_def by auto
    with js1 show ?thesis unfolding leads_def by (intro conjI exI [of _ js2]) (auto intro: rtranclp_trans)
  qed
qed


lemma start_jobs:
  assumes "J = Snapshot \<or> J = Sweeping"
  shows "set rs \<subseteq> set (bx_cursors b) \<Longrightarrow> sync_run renv (view w b js) (view w b (map J (rev rs) @ js))"
proof (induction rs arbitrary: js)
  case (Cons r rs)
  have "sync_step renv (view w b js) (view w b (J r # js))"
    using assms Cons.prems take_snapshot [of r "view w b js" renv] sweep_cursor [of r "view w b js" renv] by auto
  moreover have "sync_run renv (view w b (J r # js)) (view w b (map J (rev rs) @ J r # js))" using Cons by simp
  ultimately show ?case by (simp add: converse_rtranclp_into_rtranclp)
qed simp

lemma kept_job: "set js \<subseteq> insert j (set (remove1 j js))"
  using in_set_remove1 by fastforce

lemma claims_lead:
  assumes "distinct snaps" "Snapshot ` set snaps \<subseteq> set js" "claim_loop elapsed snaps (bx_cursors b) = (claimed, cs)"
  shows "\<exists>js'. sync_run renv (view w b js) (view w (b\<lparr>bx_cursors := cs\<rparr>) js') \<and> set js - Snapshot ` set snaps \<subseteq> set js' \<and> Claimed ` set claimed \<subseteq> set js'"
  using assms
proof (induction elapsed snaps "bx_cursors b" arbitrary: b js claimed cs rule: claim_loop.induct)
  case (1 elapsed)
  then show ?case by (auto simp: view_def)
next
  case (2 elapsed snap snaps)
  show ?case
  proof (cases "elapsed snap")
    case True
    obtain taken cs1 where t: "try_claim (ec_id snap) (bx_cursors b) = (taken, cs1)" by fastforce
    obtain claimed1 where c: "claim_loop elapsed snaps cs1 = (claimed1, cs)" "claimed = (if taken then snap # claimed1 else claimed1)"
      using 2(5) True t by (auto split: prod.splits)
    let ?js = "(if taken then [Claimed snap] else []) @ remove1 (Snapshot snap) js"
    have "sync_step renv (view w b js) (view w (b\<lparr>bx_cursors := cs1\<rparr>) ?js)"
      using claim_cursor [of snap "view w b js" taken cs1 renv] 2(4) t by simp
    moreover have "Snapshot ` set snaps \<subseteq> set ?js" using 2(3,4) kept_job [of js "Snapshot snap"] by auto
    from 2(2) [of taken "b\<lparr>bx_cursors := cs1\<rparr>" ?js claimed1 cs] True this 2(3) c(1) t obtain js' where
      "sync_run renv (view w (b\<lparr>bx_cursors := cs1\<rparr>) ?js) (view w (b\<lparr>bx_cursors := cs\<rparr>) js')" "set ?js - Snapshot ` set snaps \<subseteq> set js'"
      "Claimed ` set claimed1 \<subseteq> set js'" by auto
    ultimately show ?thesis using c(2) kept_job [of js "Snapshot snap"]
      by (intro exI [of _ js']) (auto intro: converse_rtranclp_into_rtranclp)
  next
    case False
    with 2(5) have "claim_loop elapsed snaps (bx_cursors b) = (claimed, cs)" by simp
    with 2(1) [OF False refl, of js claimed cs] 2(3,4) obtain js' where
      "sync_run renv (view w b js) (view w (b\<lparr>bx_cursors := cs\<rparr>) js')" "set js - Snapshot ` set snaps \<subseteq> set js'" "Claimed ` set claimed \<subseteq> set js'" by auto
    then show ?thesis by (intro exI [of _ js']) auto
  qed
qed

lemma tick_leads:
  assumes a: "agrees renv env w" and p: "providers_ok renv b" and d: "distinct (map ec_id (bx_cursors b))" and t: "runIncrementalTick env b = (res, b')"
  shows "\<exists>js. sync_run renv (view w b []) (view w b' js)"
proof -
  let ?snaps = "claim_candidates DEFAULT_TICK_LIMIT (sy_now env) (bx_connections b) (bx_cursors b)"
  let ?el = "\<lambda>snap. pollFloorElapsed snap (provider_of (bx_connections b) (ec_connectionId snap)) (sy_now env) (sy_options env)"
  obtain claimed cs where c: "claim_loop ?el ?snaps (bx_cursors b) = (claimed, cs)" by fastforce
  note ok = candidates_ok [OF d, of DEFAULT_TICK_LIMIT "sy_now env" "bx_connections b"]
  have snaps: "sync_run renv (view w b []) (view w b (map Snapshot (rev ?snaps) @ []))" using ok(2) by (intro start_jobs) auto
  have ds: "distinct ?snaps" using ok(1) by (simp add: distinct_map)
  from claims_lead [OF ds _ c, of "map Snapshot (rev ?snaps)" renv w] obtain js1 where
    js1: "sync_run renv (view w b (map Snapshot (rev ?snaps))) (view w (b\<lparr>bx_cursors := cs\<rparr>) js1)" "Claimed ` set claimed \<subseteq> set js1" by auto
  have "claimed = filter ?el ?snaps" using claim_loop_exact [OF d ok, of ?el] c by simp
  then have claimed: "distinct claimed" using distinct_filter [OF ds] by blast
  obtain r2 where r: "run_claimed env claimed (b\<lparr>bx_cursors := cs\<rparr>) = (r2, b')"
    using t c by (auto simp: runIncrementalTick_def claimDueErpCursors_def split: prod.splits sum.splits)
  have "providers_ok renv (b\<lparr>bx_cursors := cs\<rparr>)" using p by (simp add: providers_ok_def)
  from claimed_lead [OF a this claimed js1(2) r] obtain js2 where "sync_run renv (view w (b\<lparr>bx_cursors := cs\<rparr>) js1) (view w b' js2)" unfolding leads_def by blast
  with snaps js1(1) show ?thesis by (metis append_Nil2 rtranclp_trans)
qed


lemma sweep_page_leads:
  assumes a: "agrees renv env w" and p: "providers_ok renv b" and c: "cn_provider conn = rn_provider renv (cn_id conn)" "ec_connectionId r = cn_id conn"
    and s: "erpSyncEntity (ec_entity r) = Some spec" and rd: "readEntity env (cn_id conn) (ec_entity r) True None = Inr rows"
    and l: "land env conn (ec_entity r) True rows b = (Inr outcome, b1)" and j: "Sweeping r \<in> set js"
    and b2: "b2 = release_success env (ec_id r) (next_watermark (le_dp (sy_landing env)) spec rows (ec_watermark r)) (Some (sy_now env)) (record_drift env conn r d b1)"
  shows "leads renv w {Sweeping r} js b b2"
proof -
  let ?js = "Landing r rows # remove1 (Sweeping r) js"
  have "honest_read renv (ec_entity r) (sw_accounts w (ec_connectionId r) (ec_entity r)) None rows"
    using a readEntity_rows [OF rd] c(2) by (simp add: agrees_def)
  then have "sync_step renv (view w b js) (view w b ?js)" using read_full [of r "view w b js" renv rows] j s by simp
  moreover have "sync_run renv (view w b ?js) (view w b2 (remove1 (Landing r rows) ?js))"
    using run_page [OF a c s l, of ?js "Some (sy_now env)"] by (simp add: b2 view_def release_success_def record_drift_def)
  moreover have "set js - {Sweeping r} \<subseteq> set (remove1 (Landing r rows) ?js)" using in_set_remove1 by fastforce
  moreover have "providers_ok renv b2" using p land_connections [OF l] by (auto simp: b2 providers_ok_def record_drift_def release_success_def)
  ultimately show ?thesis unfolding leads_def by (meson converse_rtranclp_into_rtranclp)
qed

lemma leads_trans:
  assumes "leads renv w A js b b1" "\<And>js1. set js - A \<subseteq> set js1 \<Longrightarrow> leads renv w B js1 b1 b'"
  shows "leads renv w (A \<union> B) js b b'"
proof -
  from assms(1) obtain js1 where j1: "sync_run renv (view w b js) (view w b1 js1)" "set js - A \<subseteq> set js1" unfolding leads_def by blast
  from assms(2) [OF j1(2)] obtain js2 where "providers_ok renv b'" "sync_run renv (view w b1 js1) (view w b' js2)" "set js1 - B \<subseteq> set js2" unfolding leads_def by blast
  with j1 show ?thesis unfolding leads_def by (intro conjI exI [of _ js2]) (auto intro: rtranclp_trans)
qed

lemma leads_mono: "leads renv w A js b b' \<Longrightarrow> A \<subseteq> B \<Longrightarrow> leads renv w B js b b'"
  unfolding leads_def by blast

lemma sweep_entities_lead:
  assumes "agrees renv env w" "cn_provider conn = rn_provider renv (cn_id conn)"
  shows "providers_ok renv b \<Longrightarrow> distinct due \<Longrightarrow> \<forall>r\<in>set due. ec_connectionId r = cn_id conn \<Longrightarrow> Sweeping ` set due \<subseteq> set js
    \<Longrightarrow> sweep_entities env conn due found b = (res, found', b') \<Longrightarrow> leads renv w (Sweeping ` set due) js b b'"
proof (induction due arbitrary: found b js)
  case Nil
  then show ?case by (simp add: leads_refl)
next
  case (Cons r due)
  have stay: "leads renv w (Sweeping ` set (r # due)) js b b" using Cons.prems(1) by (rule leads_refl)
  show ?case
  proof (cases "erpSyncEntity (ec_entity r)")
    case None
    with Cons.prems have "leads renv w (Sweeping ` set due) js b b'" by (intro Cons.IH) auto
    then show ?thesis by (rule leads_mono) auto
  next
    case (Some spec)
    show ?thesis
    proof (cases "readEntity env (cn_id conn) (ec_entity r) False (ec_watermark r)")
      case inc: (Inr incrementalRows)
      show ?thesis
      proof (cases "readEntity env (cn_id conn) (ec_entity r) True None")
        case full: (Inr fullRows)
        obtain lres b1 where l: "land env conn (ec_entity r) True fullRows b = (lres, b1)" by fastforce
        show ?thesis
        proof (cases lres)
          case (Inl e)
          with l land_failed have "b1 = b" by blast
          with Cons.prems(5) Some inc full l Inl stay show ?thesis by simp
        next
          case (Inr outcome)
          let ?d = "sweep_drift env spec r incrementalRows fullRows"
          let ?b2 = "release_success env (ec_id r) (next_watermark (le_dp (sy_landing env)) spec fullRows (ec_watermark r)) (Some (sy_now env)) (record_drift env conn r ?d b1)"
          from Cons.prems(5) Some inc full l Inr have rest: "sweep_entities env conn due (found @ [?d]) ?b2 = (res, found', b')" by (simp add: Let_def)
          have c: "ec_connectionId r = cn_id conn" and j: "Sweeping r \<in> set js" using Cons.prems(3,4) by auto
          have one: "leads renv w {Sweeping r} js b ?b2"
            by (rule sweep_page_leads [OF assms(1) Cons.prems(1) assms(2) c Some full l [unfolded Inr] j refl])
          then have p2: "providers_ok renv ?b2" by (simp add: leads_def)
          have "leads renv w (Sweeping ` set due) js1 ?b2 b'" if "set js - {Sweeping r} \<subseteq> set js1" for js1
            using Cons.IH [OF p2 _ _ _ rest, of js1] Cons.prems(2,3,4) that by auto
          from leads_trans [OF one this] show ?thesis by (rule leads_mono) auto
        qed
      qed (use Cons.prems(5) Some inc stay in simp)
    qed (use Cons.prems(5) Some stay in simp)
  qed
qed

lemma sweep_connection_leads:
  assumes "agrees renv env w" "providers_ok renv b" "conn \<in> set (bx_connections b)" "distinct (map ec_id (bx_cursors b))" "sweep_connection env conn b = (res, b')"
  shows "\<exists>js'. sync_run renv (view w b js) (view w b' js') \<and> providers_ok renv b'"
proof -
  let ?due = "due_cursors env conn b"
  have rel: "rn_release renv = sy_release env" using assms(1) by (simp add: agrees_def)
  have c: "cn_provider conn = rn_provider renv (cn_id conn)" using assms(2,3) by (simp add: providers_ok_def)
  have due: "distinct ?due" "set ?due \<subseteq> set (bx_cursors b)" "\<forall>r\<in>set ?due. ec_connectionId r = cn_id conn"
    using assms(4) by (auto simp: due_cursors_def Let_def distinct_map)
  have start: "sync_run renv (view w b js) (view w b (map Sweeping (rev ?due) @ js))" by (rule start_jobs) (use due(2) in auto)
  obtain err found b1 where e: "(case sy_connect env conn of Some e \<Rightarrow> (Some e, [], b) | None \<Rightarrow> sweep_entities env conn ?due [] b) = (err, found, b1)"
    by (metis prod_cases3)
  have "leads renv w (Sweeping ` set ?due) (map Sweeping (rev ?due) @ js) b b1"
  proof (cases "sy_connect env conn")
    case None
    with e show ?thesis by (intro sweep_entities_lead [OF assms(1) c assms(2) due(1,3)]) auto
  qed (use e leads_refl [OF assms(2)] in auto)
  then have l: "leads renv w UNIV (map Sweeping (rev ?due) @ js) b b1" by (rule leads_mono) simp
  consider "b' = b" | "same_box b1 b'" | i n er where "same_box (snd (release_failure env i n er b1)) b'"
    using assms(5) e by (auto simp: sweep_connection_def Let_def dest: audit_same split: if_splits option.splits prod.splits sum.splits) (metis audit_same snd_conv)+
  then have "b' = b \<or> leads renv w UNIV (map Sweeping (rev ?due) @ js) b b'"
    using leads_same leads_same [OF leads_fail [OF l rel]] l by cases blast+
  then show ?thesis using start assms(2) unfolding leads_def by (meson rtranclp.rtrancl_refl rtranclp_trans)
qed


section \<open>Cursors keep their identifiers\<close>

abbreviation ids_of :: "box \<Rightarrow> string list" where
  "ids_of b \<equiv> map ec_id (bx_cursors b)"

lemma update_ids: "\<forall>r. ec_id (f r) = ec_id r \<Longrightarrow> map ec_id (update_cursor i f cs) = map ec_id cs"
  by (simp add: update_cursor_def)

lemma success_ids: "ids_of (release_success env i wm sw b) = ids_of b"
  using update_ids [of "released wm (sy_now env) sw" i] released_same(1) by (simp add: release_success_def releaseErpCursorSuccess_def same_dataset_def)

lemma failure_ids: "ids_of (snd (release_failure env i n err b)) = ids_of b"
proof -
  obtain st g where "releaseErpCursorFailure (sy_release env) i n err (sy_now env) (bx_cursors b) = (st, update_cursor i g (bx_cursors b))" "parks st g"
    using failure_parks by blast
  then show ?thesis using update_ids [of g i] by (simp add: release_failure_def parks_def)
qed

lemma land_cursors: "land env conn e full rows b = (res, b1) \<Longrightarrow> bx_cursors b1 = bx_cursors b"
  by (auto simp: land_def split: if_splits option.splits prod.splits)

lemma sweep_entities_ids: "sweep_entities env conn due found b = (res, found', b') \<Longrightarrow> ids_of b' = ids_of b"
proof (induction env conn due found b rule: sweep_entities.induct)
  case (2 env conn row due found b)
  have "ids_of (release_success env i wm sw (record_drift env conn r d b1)) = ids_of b" if "bx_cursors b1 = bx_cursors b" for i wm sw r d b1
    unfolding success_ids by (simp add: record_drift_def that)
  with 2 show ?case by (auto simp: Let_def dest: land_cursors split: option.splits sum.splits prod.splits)
qed simp

lemma sweep_connection_ids:
  assumes "sweep_connection env conn b = (res, b')"
  shows "ids_of b' = ids_of b"
proof -
  obtain err found b1 where e: "(case sy_connect env conn of Some e \<Rightarrow> (Some e, [], b) | None \<Rightarrow> sweep_entities env conn (due_cursors env conn b) [] b) = (err, found, b1)"
    by (metis prod_cases3)
  then have b1: "ids_of b1 = ids_of b" using sweep_entities_ids by (auto split: option.splits)
  consider "b' = b" | "same_box b1 b'" | i n er where "same_box (snd (release_failure env i n er b1)) b'"
    using assms e by (auto simp: sweep_connection_def Let_def dest: audit_same split: if_splits option.splits prod.splits sum.splits) (metis audit_same snd_conv)+
  then show ?thesis using b1 failure_ids by cases (simp_all add: same_box_def)
qed

lemma sweep_leads:
  "agrees renv env w \<Longrightarrow> providers_ok renv b \<Longrightarrow> distinct (ids_of b) \<Longrightarrow> sweep_all env live b = (res, b') \<Longrightarrow> \<exists>js'. sync_run renv (view w b js) (view w b' js')"
proof (induction env live b arbitrary: js res b' rule: sweep_all.induct)
  case (2 env summary live b)
  show ?case
  proof (cases "loadConnection (cn_id summary) b")
    case None
    with 2(1) [OF None 2(3-5)] 2(6) show ?thesis by simp
  next
    case (Some conn)
    obtain r1 b1 where one: "sweep_connection env conn b = (r1, b1)" by fastforce
    have "conn \<in> set (bx_connections b)" using loaded [OF Some] by simp
    from sweep_connection_leads [OF 2(3,4) this 2(5) one] obtain js1 where js1: "sync_run renv (view w b js) (view w b1 js1)" "providers_ok renv b1" by blast
    show ?thesis
    proof (cases r1)
      case (Inl e)
      with 2(6) Some one js1 show ?thesis by auto
    next
      case (Inr p)
      obtain report deferred where p: "p = (report, deferred)" by (cases p)
      obtain r2 where rest: "sweep_all env live b1 = (r2, b')" using 2(6) Some one Inr p by (auto split: prod.splits sum.splits)
      have "distinct (ids_of b1)" using sweep_connection_ids [OF one] 2(5) by simp
      from 2(2) [OF Some one [symmetric] _ p [symmetric] 2(3) js1(2) this rest] Inr js1(1) show ?thesis by (meson rtranclp_trans)
    qed
  qed
qed auto


section \<open>What a tick leaves behind\<close>

definition settles :: "string \<Rightarrow> erp_cursor list \<Rightarrow> erp_cursor list \<Rightarrow> bool" where
  "settles i cs cs' \<longleftrightarrow> (\<exists>g. cs' = update_cursor i g cs \<and> (\<forall>r. ec_id (g r) = ec_id r \<and> ec_state (g r) \<noteq> SYNCING))"

lemma settles_trans: "settles i a b \<Longrightarrow> settles i b c \<Longrightarrow> settles i a c"
proof -
  assume "settles i a b" "settles i b c"
  then obtain g h where g: "b = update_cursor i g a" "\<forall>r. ec_id (g r) = ec_id r \<and> ec_state (g r) \<noteq> SYNCING"
    and h: "c = update_cursor i h b" "\<forall>r. ec_id (h r) = ec_id r \<and> ec_state (h r) \<noteq> SYNCING" unfolding settles_def by blast
  have "c = update_cursor i (h \<circ> g) a" using g h by (auto simp: update_cursor_def)
  with g h show ?thesis unfolding settles_def by (intro exI [of _ "h \<circ> g"]) simp
qed

lemma failed_settles: "failed_from env c b b' \<Longrightarrow> settles (ec_id c) (bx_cursors b) (bx_cursors b')"
proof -
  assume "failed_from env c b b'"
  then obtain err where e: "bx_cursors b' = bx_cursors (snd (release_failure env (ec_id c) (ec_consecutiveFailures c) err b))" by (auto simp: failed_from_def same_box_def)
  obtain st g where g: "releaseErpCursorFailure (sy_release env) (ec_id c) (ec_consecutiveFailures c) err (sy_now env) (bx_cursors b) = (st, update_cursor (ec_id c) g (bx_cursors b))"
    "parks st g" "st \<noteq> SYNCING" using failure_parks by blast
  then have "bx_cursors b' = update_cursor (ec_id c) g (bx_cursors b)" using e by (simp add: release_failure_def)
  with g(2,3) show ?thesis unfolding settles_def parks_def by (intro exI [of _ g]) simp
qed

lemma page_settles: "after_page env c b b2 \<Longrightarrow> settles (ec_id c) (bx_cursors b) (bx_cursors b2)"
proof -
  assume "after_page env c b b2"
  then obtain conn spec rows outcome b1 wm where "land env conn (ec_entity c) False rows b = (Inr outcome, b1)"
    "b2 = advanceLastHealthy (cn_id conn) (sy_now env) (release_success env (ec_id c) wm None b1)" unfolding after_page_def by metis
  then have "bx_cursors b2 = update_cursor (ec_id c) (released wm (sy_now env) None) (bx_cursors b)"
    using land_cursors by (simp add: advanceLastHealthy_def release_success_def releaseErpCursorSuccess_def)
  then show ?thesis unfolding settles_def by (intro exI [of _ "released wm (sy_now env) None"]) (simp add: released_def)
qed

lemma cursor_settles: "runOneCursor env c b = (res, b') \<Longrightarrow> settles (ec_id c) (bx_cursors b) (bx_cursors b')"
proof -
  assume "runOneCursor env c b = (res, b')"
  then consider "failed_from env c b b'" | b2 where "after_page env c b b2" "same_box b2 b'" | b2 where "after_page env c b b2" "failed_from env c b2 b'"
    using cursor_cases by blast
  then show ?thesis
  proof cases
    case 1
    then show ?thesis by (rule failed_settles)
  next
    case 2
    have "bx_cursors b' = bx_cursors b2" using 2(2) by (simp add: same_box_def)
    with page_settles [OF 2(1)] show ?thesis by simp
  next
    case 3
    from settles_trans [OF page_settles [OF 3(1)] failed_settles [OF 3(2)]] show ?thesis .
  qed
qed


lemma settled_rows: "settles i cs cs' \<Longrightarrow> r \<in> set cs' \<Longrightarrow> ec_state r = SYNCING \<Longrightarrow> r \<in> set cs \<and> ec_id r \<noteq> i"
proof -
  assume "settles i cs cs'" and r: "r \<in> set cs'" "ec_state r = SYNCING"
  then obtain g where g: "cs' = update_cursor i g cs" "\<forall>r. ec_state (g r) \<noteq> SYNCING" unfolding settles_def by blast
  then obtain q where q: "q \<in> set cs" "r = (if ec_id q = i then g q else q)" using r(1) by (auto simp: update_cursor_def)
  with g(2) r(2) show ?thesis by (cases "ec_id q = i") simp_all
qed

lemma cursor_returns:
  assumes "\<forall>row. sy_audit_fault env row = None"
  shows "\<exists>st. fst (runOneCursor env c b) = Inr st"
proof -
  have "fst (audit env row b) = Inr ()" for row b using assms by (simp add: audit_def)
  then have a: "audit env row b = (Inr (), snd (audit env row b))" for row b by (metis prod.collapse)
  have "report_failure env i e st b = (Inr st, snd (report_failure env i e st b))" for i e st b
    unfolding report_failure_def by (subst (1 2) a) simp
  then have "\<exists>st'. fst (report_failure env i e st b) = Inr st'" for i e st b by (metis fst_conv)
  moreover have "\<exists>st'. fst (case audit env row b of (Inl e, b'') \<Rightarrow> (Throw e, b'') | (Inr _, b'') \<Rightarrow> (Return FAILED, b'')) = Inr st'" for row b
    by (subst a) simp
  ultimately show ?thesis unfolding runOneCursor_def by (auto split: option.split prod.split sum.split)
qed

lemma claimed_return:
  assumes "\<forall>row. sy_audit_fault env row = None"
  shows "\<exists>sts b'. run_claimed env cs b = (Inr sts, b') \<and> length sts = length cs
    \<and> (\<forall>r\<in>set (bx_cursors b'). ec_state r = SYNCING \<longrightarrow> r \<in> set (bx_cursors b) \<and> ec_id r \<notin> ec_id ` set cs)"
proof (induction cs arbitrary: b)
  case (Cons c cs)
  from cursor_returns [OF assms] obtain st b1 where one: "runOneCursor env c b = (Inr st, b1)" by (metis prod.collapse)
  from Cons [of b1] obtain sts b' where rest: "run_claimed env cs b1 = (Inr sts, b')" "length sts = length cs"
    "\<forall>r\<in>set (bx_cursors b'). ec_state r = SYNCING \<longrightarrow> r \<in> set (bx_cursors b1) \<and> ec_id r \<notin> ec_id ` set cs" by blast
  have "r \<in> set (bx_cursors b) \<and> ec_id r \<notin> ec_id ` set (c # cs)" if "r \<in> set (bx_cursors b')" "ec_state r = SYNCING" for r
    using rest(3) that settled_rows [OF cursor_settles [OF one], of r] by auto
  with one rest(1,2) show ?case by simp
qed simp



section \<open>Witnesses\<close>

definition sample_run :: run_env where
  "sample_run = \<lparr>rn_landing = sample_landing\<lparr>le_dp := sample_parse\<rparr>, rn_release = \<lparr>re_dp = (\<lambda>_. None), re_random = 0\<rparr>, rn_provider = (\<lambda>_. ''xero'')\<rparr>"

definition sample_account :: "string \<Rightarrow> string \<Rightarrow> vendor_row list" where
  "sample_account c e = (if c = ''c'' \<and> e = ''invoice'' then [sample_row ''i-1''] else [])"

definition sample_box :: box where
  "sample_box = \<lparr>bx_connections = [sample_connection], bx_cursors = [sample_cursor ''a'' IDLE], bx_tables = empty_tables, bx_drift = [], bx_audit = [], bx_minted = 0\<rparr>"

definition sample_world :: sync_world where
  "sample_world = \<lparr>sw_cursors = bx_cursors sample_box, sw_tables = bx_tables sample_box, sw_accounts = sample_account,
     sw_clock = (\<lambda>_ _. 1704153600000), sw_jobs = [], sw_used = {''a''}\<rparr>"

definition sample_sync :: sync_env where
  "sample_sync = \<lparr>sy_now = 7, sy_construct = (\<lambda>_. None), sy_connect = (\<lambda>_. None), sy_headroom = (\<lambda>_ _ _. None),
     sy_read = (\<lambda>c e full since. Inr (map Some (sample_account c e))), sy_land_fault = (\<lambda>_ _ _. None), sy_audit_fault = (\<lambda>_. None),
     sy_landing = rn_landing sample_run, sy_release = rn_release sample_run, sy_redact = id, sy_datasets = (\<lambda>_. None), sy_options = sample_options,
     sy_sweepIntervalMs = 86400000, sy_uid = show_nat\<rparr>"

lemma sample_agrees: "agrees sample_run sample_sync sample_world" "providers_ok sample_run sample_box" "distinct (map ec_id (bx_cursors sample_box))"
  by (auto simp: agrees_def sample_sync_def sample_world_def honest_read_def providers_ok_def sample_box_def sample_connection_def sample_run_def)

lemma sample_view: "view sample_world sample_box [] = sample_world"
  by (simp add: view_def sample_world_def)

lemma sample_stamp: "stamp sample_run ''invoice'' (sample_row ''i-1'') = Some 1704153600000" "isoInstant sample_parse (Some ''2024-01-02'') = Some 1704153600000"
  by code_simp+

lemma sample_fresh: "fresh_box sample_run sample_world"
  using sample_stamp(1) by (auto simp: fresh_box_def accounts_ok_def sample_world_def sample_account_def sample_box_def sample_cursor_def)

lemma sample_tick: "bx_cursors (snd (runIncrementalTick sample_sync sample_box)) = [released (Some ''2024-01-02'') 7 None (sample_cursor ''a'' IDLE)]"
  by code_simp




end
