(* ===== verification/Spec2Isabelle.thy ===== *)
theory Spec2Isabelle
  imports Tool_Interceptor Directory_Run Audit_Roots Ota_Properties Sla_Sweep Rotation Webhook_Properties Erp_Properties
begin

text \<open>
  A verification of the core services of the Droplet appliance, a box that runs an office's
  assistants, directory, audit log, updates and support desk.  The sources are TypeScript: the
  orchestrator (\<^verbatim>\<open>src/apps/orchestrator/src\<close>) and the tool library
  (\<^verbatim>\<open>src/packages/tools-core/src\<close>).  Each theory models one component, function by function, with the names
  of the source; a throw is the left value of a result, state is passed explicitly, a table is a list of
  records, and a time is an \<open>int\<close> of milliseconds.

  \<^bold>\<open>Shared ground.\<close>  \<open>Prelude\<close>: results and their sequencing, JavaScript strings and the insertion-ordered
  \<^verbatim>\<open>Map\<close>, whose laws are the locale \<open>keyed_store\<close>.  \<open>Json\<close>: JSON values with
  \<^verbatim>\<open>undefined\<close>, the order of object keys and \<^verbatim>\<open>JSON.stringify\<close>, shown injective.
  \<open>Dates\<close>: the civil calendar (day numbers to dates and back, for every date) and ISO texts.

  \<^bold>\<open>Tool calls.\<close>  \<open>Tool_Confirmation\<close> (\<^verbatim>\<open>confirmation-token.ts\<close>): canonical arguments, the binding hash, and
  the bounded store of tokens with \<open>sweep\<close>, \<open>evict\<close>, \<open>mint\<close> and \<open>redeem\<close>.  \<open>Tool_Interceptor\<close>
  (\<^verbatim>\<open>interceptor.ts\<close>): deny tier, read-only namespaces and the decision on a call; runs of the dispatcher are
  \<open>dispatch_run\<close>.  Shown: a call that spends a token was shown to the user with the same tool and arguments, a
  token admits one call, the deny tier outranks every approval, the store stays within its bound.

  \<^bold>\<open>Directory.\<close>  \<open>Role_Guard\<close> (\<^verbatim>\<open>role-mutation-guard.service.ts\<close>): the rails on who may change
  whom, the invariants checked in the transaction, and the runners of the effects after it.  \<open>Directory_Handlers\<close>
  (role change, disable, enable, cancel, starting points, SCIM) and \<open>Leaver_Deletion\<close>
  (\<^verbatim>\<open>leaver-deletion.service.ts\<close>) are the handlers over it; \<open>Directory_Run\<close> interleaves them with reads of any age.
  The contract between guard and handlers is the locale \<open>covered_write\<close>.  Shown: the box keeps an active
  operator, owner rows are out of reach, a purge is final, and what a failed session sweep skips.

  \<^bold>\<open>Audit log.\<close>  \<open>Audit_Signing\<close> (\<^verbatim>\<open>audit-signing.service.ts\<close>), \<open>Audit_Chain\<close>
  (\<^verbatim>\<open>activity.service.ts\<close>, \<^verbatim>\<open>audit-verify.service.ts\<close>, \<^verbatim>\<open>audit-chain-head.service.ts\<close>) and \<open>Audit_Roots\<close>
  (\<^verbatim>\<open>audit-daily-root.service.ts\<close>).  The keyring is the locale \<open>epoch_checker\<close>.  Shown: what the recorder
  appends verifies, the paged walk is exact against its specification, a head pins the history up to a collision,
  a retired key cannot append, the daily roots tile the table and catch up.

  \<^bold>\<open>Updates.\<close>  \<open>Ota_Manifest\<close> (\<^verbatim>\<open>manifest.ts\<close>, \<^verbatim>\<open>channel-pointer.ts\<close>, \<^verbatim>\<open>download-urls.ts\<close>),
  \<open>Ota_Rows\<close> (\<^verbatim>\<open>transitions.ts\<close>, \<^verbatim>\<open>settings.ts\<close>, the claims of \<^verbatim>\<open>apply.ts\<close>), \<open>Ota_Poller\<close>
  (\<^verbatim>\<open>poller.ts\<close>, \<^verbatim>\<open>verify.ts\<close>) and \<open>Ota_Apply\<close> (\<^verbatim>\<open>apply.ts\<close>, \<^verbatim>\<open>routes/updates.ts\<close>).
  Every write to the update table is an instance of the locale \<open>table_write\<close>.  \<open>Ota_Run\<close> is the step relation of
  polls, windows, operators, runs and reboots in any order; \<open>Ota_Properties\<close> shows that only a verified, newer
  release is recorded, that a swap is authorised by an exclusive claim, that a commit needs health, that the
  table is an audit trail, and the two races the code leaves open.

  \<^bold>\<open>Support desk.\<close>  \<open>Zoned_Time\<close> (\<^verbatim>\<open>lib/zoned-time.ts\<close>), \<open>Business_Time\<close>
  (\<^verbatim>\<open>support/business-time.ts\<close>; the merge of windows is the locale \<open>segment_merge\<close>), \<open>Business_Measure\<close>,
  \<open>Sla_Engine\<close> (\<^verbatim>\<open>sla-engine.ts\<close>), \<open>Sla_Clock\<close> and \<open>Sla_Sweep\<close> (\<^verbatim>\<open>sla-clock.service.ts\<close>).
  The specification is the set \<open>business_time\<close> of working milliseconds and its measure \<open>bm\<close>: the scans
  return that measure and its least inverse, so breached means past due and a pause is free.  A breach is
  reported once and is final in every history of a ticket; a ticket with unreadable terms starves the sweep.

  \<^bold>\<open>Sessions.\<close>  \<open>Effects\<close>: programs over Redis, the clock and the database as trees of actions, the documented
  effect of each Redis command, and the log in which any number of programs interleave, a command failing with or without
  its effect.  \<open>Session\<close> (\<^verbatim>\<open>session.service.ts\<close>), \<open>Refresh_Tokens\<close> (\<^verbatim>\<open>jwt.service.ts\<close>,
  \<^verbatim>\<open>cache.service.ts\<close>, \<^verbatim>\<open>auth-denylist.service.ts\<close>) and \<open>Session_Routes\<close> (\<^verbatim>\<open>routes/auth.ts\<close>,
  \<^verbatim>\<open>middleware/auth.ts\<close>) are the programs; \<open>Session_Log\<close> shows what every interleaving keeps true.
  \<open>Session_Properties\<close> and \<open>Rotation\<close> show that no activity moves the absolute limit of a login, that a revoked
  session is dead unless a touch in flight revives it (and that one can), and that a refresh token is spent once.

  \<^bold>\<open>Outbound calls and webhooks.\<close>  \<open>Ip_Address\<close>: the texts \<^verbatim>\<open>node:net\<close> takes for addresses, as 32- and 128-bit words, and
  its \<^verbatim>\<open>BlockList\<close>.  \<open>Outbound_Guard\<close> (\<^verbatim>\<open>lib/outbound-url-guard.ts\<close>): both gates and the pinned resolution;
  the range tables are shown equal to intervals of numbers.  \<open>Outbox\<close> and \<open>Outbox_Run\<close> (\<^verbatim>\<open>services/pm/pm-outbox.ts\<close>):
  the cursor over the activity table against writers that commit late, failing handlers and crashes; a handler that
  recognises what it has finished is the locale \<open>replay_tolerant\<close>.  \<open>Webhooks\<close> (\<^verbatim>\<open>webhook-fanout.ts\<close>,
  \<^verbatim>\<open>webhook-delivery.service.ts\<close>, \<^verbatim>\<open>pm-webhook.service.ts\<close>): queue, attempts and management; \<open>Webhook_Run\<close>
  interleaves them statement by statement.  \<open>Webhook_Properties\<close> composes outbox, fan-out, worker and guard.  Shown: the
  outbox misses nothing and keeps order, an activity is queued once per webhook, a settled delivery is final,
  administrators are told once, and every socket goes to a vetted address.

  \<^bold>\<open>Connector sync.\<close>  \<open>Sync_Policy\<close> (\<^verbatim>\<open>m365/sync-policy.ts\<close>, \<^verbatim>\<open>erp-sync/schedule-jitter.ts\<close>): what a failure means and how long to
  wait.  \<open>Money\<close> (\<^verbatim>\<open>shared-types/src/money.ts\<close>): decimal texts and minor units.  \<open>Erp_Watermark\<close> (\<^verbatim>\<open>watermark.ts\<close>,
  \<^verbatim>\<open>reconcile.ts\<close>, \<^verbatim>\<open>drift-record.service.ts\<close>): positions, drift, its records and the cadence they earn.  \<open>Erp_Landing\<close>
  (\<^verbatim>\<open>land.ts\<close>, \<^verbatim>\<open>land-money.ts\<close>): the transactions that turn vendor rows into documents, companies, contacts and deals; what the
  runner relies on is the locale \<open>page_store\<close>.  \<open>Erp_Cursor\<close> (\<^verbatim>\<open>cursor.service.ts\<close>, \<^verbatim>\<open>entities.ts\<close>) and \<open>Erp_Sync\<close>
  (\<^verbatim>\<open>erp-sync.service.ts\<close>): claims, releases, the tick and the sweep.  \<open>Erp_Run\<close> interleaves their reads, landings and releases with
  vendors, crashes and disconnects; \<open>Erp_Properties\<close> shows that the tick and the sweep are such runs.  Shown: nothing a position has
  reached is missing on the box, a landing is confined and complete, no cursor is stranded, a clean report is evidence, retention
  ends, and money converts exactly or not at all.

  \<^bold>\<open>Parameters.\<close>  Code outside the sources is an argument: SHA-256, HMAC and the device key; the jsonb column
  (\<open>stored\<close>); cosign and the network answers of a poll; \<^verbatim>\<open>Date.parse\<close>, \<^verbatim>\<open>JSON.parse\<close> and
  \<^verbatim>\<open>cron.validate\<close>; the zone data of \<^verbatim>\<open>Intl\<close> (\<open>zone_db\<close>, with \<open>zone_sane\<close> and
  \<open>days_in_order\<close> as what is relied on); container and health probes of an apply (\<open>apply_world\<close>); whether a user may
  be assigned a ticket; the token library and its hash (\<open>jwt_env\<close>, with \<open>lives_until\<close>);
  \<^verbatim>\<open>new URL\<close>, the resolver and the interfaces of the box; sealing, rendering and the work items of a webhook; the
  longest transaction of a writer, shorter than the settle window; the provider catalogue, the redaction of error texts and the
  answers of a vendor, honest where \<open>honest_read\<close> says so.  A theorem that needs more of one of them states it as a hypothesis, and its witness has a concrete one.

  \<^bold>\<open>Bounds.\<close>  No definition uses fuel that the code does not have.  The bounds are the code's: 1000 tokens, pages of
  200 audit rows, 60 days of catch-up of the daily roots, 3660 scanned days, five pages of a hundred
  tickets, fifty batches of an outbox sweep, eight attempts at a delivery, twenty deliveries of a worker sweep and eight cursors of a
  tick.  The retention loop of the drift records, the walk of the audit log and the synchronisation of a ticket, which call themselves, have termination proofs.

  \<^bold>\<open>Not modelled.\<close>  HTTP routes and middleware other than the handlers named above, credential checks and single sign-on, the
  vendor clients of the connectors, the dashboard (user interface), generated code, adapters over third-party stacks (MCP,
  Matter), and the services written in other languages.  Within the components: log lines, the wording of
  messages, caches, metrics and time-outs.  The manifest of the development lists them with their reasons.
\<close>

end
